(* ===== verification/Prelude.thy ===== *)
theory Prelude
  imports Main "HOL-Library.Word" "HOL-Library.List_Lexorder" "HOL-Library.AList"
begin

text \<open>
  Shared vocabulary of the development: bytes and JavaScript strings, the error values that
  stand for thrown exceptions, the result, reader and writer types of the codecs with their
  sequencing operations, and the generic lemmas the component theories use.

  \<^item> A JavaScript string is its list of UTF-16 code units. \<open>length\<close>, the relational operators
    and the default \<open>Array.prototype.sort\<close> of the source work on code units, as \<^const>\<open>length\<close>,
    the lexicographic \<open>\<le>\<close> of \<open>List_Lexorder\<close> and \<^const>\<open>sort\<close> do here.
  \<^item> A thrown exception is the left value of a sum. A \<open>DecodeError\<close> carries its \<open>code\<close>, which
    is the documented, stable part (\<open>core/src/errors.ts\<close>); the message texts are diagnostic
    prose and are not modelled.
  \<^item> A JavaScript object used as a dictionary is an association list in insertion order.
\<close>

section \<open>Types\<close>

type_synonym byte = "8 word"
type_synonym code_unit = "16 word"
type_synonym jsstring = "code_unit list"

text \<open>String literals of the source (all of them ASCII).\<close>

definition js :: "string \<Rightarrow> jsstring" where
  "js s = map of_char s"

datatype error =
    DecodeError string
  | PlainError

abbreviation invalid_request :: error where
  "invalid_request \<equiv> DecodeError ''sync.invalid_request''"

abbreviation empty_commit :: error where
  "empty_commit \<equiv> DecodeError ''sync.empty_commit''"

type_synonym 'a result = "error + 'a"
type_synonym 'a reader = "byte list \<Rightarrow> ('a \<times> byte list) result"
type_synonym writer = "byte list result"

named_theorems reader_simps "unfolding of the reader combinators"
named_theorems codec_intros "introduction rules for the codec relation"
named_theorems writer_simps "inversion of successful writes"

section \<open>Results\<close>

definition bindE :: "'e + 'a \<Rightarrow> ('a \<Rightarrow> 'e + 'b) \<Rightarrow> 'e + 'b" where
  "bindE m k = (case m of Inl e \<Rightarrow> Inl e | Inr x \<Rightarrow> k x)"

lemma bindE_simps [simp]:
  "bindE (Inl e) k = Inl e"
  "bindE (Inr x) k = k x"
  by (simp_all add: bindE_def)

lemma bindE_eq_Inr: "bindE m k = Inr y \<longleftrightarrow> (\<exists>x. m = Inr x \<and> k x = Inr y)"
  by (cases m) auto

lemma bindE_eq_Inl: "bindE m k = Inl e \<longleftrightarrow> m = Inl e \<or> (\<exists>x. m = Inr x \<and> k x = Inl e)"
  by (cases m) auto

text \<open>Mapping a fallible operation over a list, stopping at the first error.\<close>

fun mapE :: "('a \<Rightarrow> 'e + 'b) \<Rightarrow> 'a list \<Rightarrow> 'e + 'b list" where
  "mapE f [] = Inr []"
| "mapE f (x # xs) = bindE (f x) (\<lambda>y. bindE (mapE f xs) (\<lambda>ys. Inr (y # ys)))"

lemma mapE_length: "mapE f xs = Inr ys \<Longrightarrow> length ys = length xs"
  by (induction xs arbitrary: ys) (auto simp: bindE_eq_Inr)

section \<open>Readers\<close>

text \<open>
  A \<open>ByteReader\<close> is represented by the bytes from its position to the end of its data; its
  \<open>remaining\<close> is their number.
\<close>

definition returnR :: "'a \<Rightarrow> 'a reader" where
  "returnR x = (\<lambda>bs. Inr (x, bs))"

definition failR :: "error \<Rightarrow> 'a reader" where
  "failR e = (\<lambda>bs. Inl e)"

definition bindR :: "'a reader \<Rightarrow> ('a \<Rightarrow> 'b reader) \<Rightarrow> 'b reader" where
  "bindR r k = (\<lambda>bs. case r bs of Inl e \<Rightarrow> Inl e | Inr (x, bs') \<Rightarrow> k x bs')"

lemma returnR_apply [reader_simps]: "returnR x bs = Inr (x, bs)"
  by (simp add: returnR_def)

lemma failR_apply [reader_simps]: "failR e bs = Inl e"
  by (simp add: failR_def)

lemma bindR_apply [reader_simps]:
  "bindR r k bs = (case r bs of Inl e \<Rightarrow> Inl e | Inr (x, bs') \<Rightarrow> k x bs')"
  by (simp add: bindR_def)

lemma bindR_eq_Inr:
  "bindR r k bs = Inr (y, rest) \<longleftrightarrow> (\<exists>x mid. r bs = Inr (x, mid) \<and> k x mid = Inr (y, rest))"
  by (auto simp: bindR_def split: sum.splits)

lemma returnR_eq_Inr: "returnR x bs = Inr (y, rest) \<longleftrightarrow> y = x \<and> rest = bs"
  by (auto simp: returnR_def)

lemma failR_eq_Inr: "failR e bs \<noteq> Inr p"
  by (simp add: failR_def)

lemmas reader_inv = bindR_eq_Inr returnR_eq_Inr failR_eq_Inr

text \<open>The counted loops \<open>for (let i = 0; i < count; i++) xs.push(read())\<close>.\<close>

fun timesR :: "nat \<Rightarrow> 'a reader \<Rightarrow> 'a list reader" where
  "timesR 0 r = returnR []"
| "timesR (Suc n) r = bindR r (\<lambda>x. bindR (timesR n r) (\<lambda>xs. returnR (x # xs)))"

section \<open>Writers\<close>

text \<open>
  A write is the bytes it appends, or the exception it throws. \<open>seqW\<close> runs writes one after
  the other and stops at the first exception.
\<close>

definition seqW :: "writer list \<Rightarrow> writer" where
  "seqW ws = foldr (\<lambda>w acc. bindE w (\<lambda>b. bindE acc (\<lambda>c. Inr (b @ c)))) ws (Inr [])"

lemma seqW_simps:
  "seqW [] = Inr []"
  "seqW (w # ws) = bindE w (\<lambda>b. bindE (seqW ws) (\<lambda>c. Inr (b @ c)))"
  by (simp_all add: seqW_def)

lemma seqW_Nil_eq [writer_simps]: "seqW [] = Inr bs \<longleftrightarrow> bs = []"
  by (auto simp: seqW_simps)

lemma seqW_Cons_eq [writer_simps]:
  "seqW (w # ws) = Inr bs \<longleftrightarrow> (\<exists>b c. w = Inr b \<and> seqW ws = Inr c \<and> bs = b @ c)"
  by (auto simp: seqW_simps bindE_eq_Inr)

lemma seqW_append: "seqW (xs @ ys) = bindE (seqW xs) (\<lambda>b. bindE (seqW ys) (\<lambda>c. Inr (b @ c)))"
proof (induction xs)
  case Nil
  show ?case by (cases "seqW ys") (simp_all add: seqW_simps)
next
  case (Cons w ws)
  then show ?case by (cases w; cases "seqW ws"; cases "seqW ys") (simp_all add: seqW_simps)
qed

section \<open>The codec relation\<close>

text \<open>
  \<open>codes r b x\<close>: the reader \<open>r\<close>, started on the bytes \<open>b\<close> with anything after them, returns
  \<open>x\<close> and leaves what follows \<open>b\<close>. Round trips are proved as \<open>codes\<close> facts, composed along
  the reader's sequencing.
\<close>

definition codes :: "'a reader \<Rightarrow> byte list \<Rightarrow> 'a \<Rightarrow> bool" where
  "codes r b x \<longleftrightarrow> (\<forall>rest. r (b @ rest) = Inr (x, rest))"

lemma codesD: "codes r b x \<Longrightarrow> r (b @ rest) = Inr (x, rest)"
  by (simp add: codes_def)

lemma codesD_end: "codes r b x \<Longrightarrow> r b = Inr (x, [])"
  using codesD [of r b x "[]"] by simp

lemma codes_return [codec_intros]: "codes (returnR x) [] x"
  by (simp add: codes_def returnR_def)

lemma codes_bind [codec_intros]:
  "codes r b x \<Longrightarrow> codes (k x) c y \<Longrightarrow> codes (bindR r k) (b @ c) y"
  by (simp add: codes_def bindR_def)

lemma codes_bind_end: "codes r b x \<Longrightarrow> codes (k x) [] y \<Longrightarrow> codes (bindR r k) b y"
  using codes_bind [of r b x k "[]" y] by simp

text \<open>
  The same facts as equations: with the bytes of a write decomposed into the bytes of its
  parts, the simplifier runs a reader over them step by step.
\<close>

named_theorems codes_steps "running a reader over the bytes of known writes"

lemma codes_bind_iff: "codes r b x \<Longrightarrow> codes (bindR r k) (b @ c) y \<longleftrightarrow> codes (k x) c y"
  by (simp add: codes_def bindR_def)

lemma codes_bind_iff_end: "codes r b x \<Longrightarrow> codes (bindR r k) b y \<longleftrightarrow> codes (k x) [] y"
  using codes_bind_iff [of r b x k "[]" y] by simp

lemma codes_return_iff [codes_steps]: "codes (returnR x) [] y \<longleftrightarrow> x = y"
  by (auto simp: codes_def returnR_def)

lemma bind_return [codes_steps]: "bindR (returnR x) k = k x"
  by (simp add: bindR_def returnR_def)

text \<open>
  The interface of one wire type: a write and a read that agree on the values \<open>ok\<close> selects.
  What the composite layouts need of their parts (optional values, counted lists) is proved
  here once.
\<close>

locale codec =
  fixes wr :: "'a \<Rightarrow> writer"
    and rd :: "'a reader"
    and ok :: "'a \<Rightarrow> bool"
  assumes codes: "wr x = Inr b \<Longrightarrow> ok x \<Longrightarrow> codes rd b x"
begin

lemma codes_times:
  assumes "seqW (map wr xs) = Inr b" and "\<And>x. x \<in> set xs \<Longrightarrow> ok x"
  shows "codes (timesR (length xs) rd) b xs"
  using assms
proof (induction xs arbitrary: b)
  case Nil
  then show ?case by (simp add: seqW_simps codes_return)
next
  case (Cons x xs)
  then obtain b1 b2 where b1: "wr x = Inr b1" and b2: "seqW (map wr xs) = Inr b2"
    and b: "b = b1 @ b2" by (auto simp: seqW_Cons_eq)
  have tail: "codes (timesR (length xs) rd) b2 xs"
    using Cons.IH [OF b2] Cons.prems(2) by simp
  have "codes (bindR (timesR (length xs) rd) (\<lambda>xs. returnR (x # xs))) b2 (x # xs)"
    using tail codes_return by (rule codes_bind_end)
  moreover have "codes rd b1 x"
    using codes [OF b1] Cons.prems(2) by simp
  ultimately show ?case
    unfolding b by (auto intro: codes_bind)
qed

lemma step: "wr x = Inr b \<Longrightarrow> ok x \<Longrightarrow> codes (bindR rd k) (b @ c) y \<longleftrightarrow> codes (k x) c y"
  by (rule codes_bind_iff) (rule codes)

lemma step_last: "wr x = Inr b \<Longrightarrow> ok x \<Longrightarrow> codes (bindR rd k) b y \<longleftrightarrow> codes (k x) [] y"
  by (rule codes_bind_iff_end) (rule codes)

lemma read_write: "wr x = Inr b \<Longrightarrow> ok x \<Longrightarrow> rd (b @ rest) = Inr (x, rest)"
  by (rule codesD, rule codes)

lemma write_inj: "wr x = Inr b \<Longrightarrow> wr y = Inr b \<Longrightarrow> ok x \<Longrightarrow> ok y \<Longrightarrow> x = y"
  using read_write [of x b "[]"] read_write [of y b "[]"] by simp

end

section \<open>Words\<close>

lemma of_nat_unat_eq: "unat (w :: 'a::len word) = n \<Longrightarrow> of_nat n = w"
  by auto

lemma unat_lt_8: "unat (b :: byte) < 0x100"
proof -
  have "unat b < 2 ^ LENGTH(8)" by (rule unsigned_less)
  then show ?thesis by simp
qed

lemma unat_lt_16: "unat (u :: code_unit) < 0x10000"
proof -
  have "unat u < 2 ^ LENGTH(16)" by (rule unsigned_less)
  then show ?thesis by simp
qed

lemma unat_of_nat_8: "n < 0x100 \<Longrightarrow> unat (of_nat n :: byte) = n"
  by (simp add: unat_of_nat take_bit_eq_mod)

lemma unat_of_nat_16: "n < 0x10000 \<Longrightarrow> unat (of_nat n :: code_unit) = n"
  by (simp add: unat_of_nat take_bit_eq_mod)

section \<open>Lists\<close>

lemma take_append_exact [simp]: "length xs = n \<Longrightarrow> take n (xs @ ys) = xs"
  by simp

lemma sorted_distinct_sort_id:
  fixes xs :: "'a::linorder list"
  assumes "sorted xs"
  shows "sort xs = xs"
  using assms by (simp add: sorted_sort_id)

end
