(* ===== verification/Utf.thy ===== *)
theory Utf
  imports Prelude
begin

text \<open>
  \<open>TextEncoder.encode\<close> and \<open>new TextDecoder('utf-8', { fatal: true }).decode\<close>, the platform
  codecs \<open>core/src/bytes.ts\<close> builds its string fields on, after the WHATWG Encoding
  standard. The encoder replaces an unpaired surrogate by U+FFFD; the decoder rejects every
  ill-formed sequence and, since \<open>ignoreBOM\<close> is left at its default, drops a leading byte
  order mark. The lemmas characterise exactly which strings survive a round trip.
\<close>

section \<open>Code units and scalar values\<close>

definition is_high :: "code_unit \<Rightarrow> bool" where
  "is_high u \<longleftrightarrow> 0xD800 \<le> unat u \<and> unat u < 0xDC00"

definition is_low :: "code_unit \<Rightarrow> bool" where
  "is_low u \<longleftrightarrow> 0xDC00 \<le> unat u \<and> unat u < 0xE000"

definition pair_value :: "code_unit \<Rightarrow> code_unit \<Rightarrow> nat" where
  "pair_value u v = 0x10000 + (unat u - 0xD800) * 0x400 + (unat v - 0xDC00)"

fun code_points :: "jsstring \<Rightarrow> nat list" where
  "code_points [] = []"
| "code_points (u # us) =
     (if is_high u then
        (case us of
           [] \<Rightarrow> [0xFFFD]
         | v # vs \<Rightarrow> if is_low v then pair_value u v # code_points vs
                      else 0xFFFD # code_points us)
      else if is_low u then 0xFFFD # code_points us
      else unat u # code_points us)"

text \<open>No unpaired surrogate (\<open>String.prototype.isWellFormed\<close>).\<close>

fun well_formed :: "jsstring \<Rightarrow> bool" where
  "well_formed [] \<longleftrightarrow> True"
| "well_formed (u # us) \<longleftrightarrow>
     (if is_high u then
        (case us of [] \<Rightarrow> False | v # vs \<Rightarrow> is_low v \<and> well_formed vs)
      else \<not> is_low u \<and> well_formed us)"

definition scalar :: "nat \<Rightarrow> bool" where
  "scalar c \<longleftrightarrow> c < 0xD800 \<or> (0xE000 \<le> c \<and> c < 0x110000)"

definition units_of :: "nat \<Rightarrow> jsstring" where
  "units_of c =
     (if c < 0x10000 then [of_nat c]
      else [of_nat (0xD800 + (c - 0x10000) div 0x400), of_nat (0xDC00 + (c - 0x10000) mod 0x400)])"

definition units :: "nat list \<Rightarrow> jsstring" where
  "units cs = concat (map units_of cs)"

section \<open>UTF-8\<close>

definition utf8_of :: "nat \<Rightarrow> byte list" where
  "utf8_of c =
     (if c < 0x80 then [of_nat c]
      else if c < 0x800 then [of_nat (0xC0 + c div 64), of_nat (0x80 + c mod 64)]
      else if c < 0x10000 then
        [of_nat (0xE0 + c div 4096), of_nat (0x80 + c div 64 mod 64), of_nat (0x80 + c mod 64)]
      else
        [of_nat (0xF0 + c div 262144), of_nat (0x80 + c div 4096 mod 64),
         of_nat (0x80 + c div 64 mod 64), of_nat (0x80 + c mod 64)])"

definition utf8_bytes :: "nat list \<Rightarrow> byte list" where
  "utf8_bytes cs = concat (map utf8_of cs)"

definition is_cont :: "byte \<Rightarrow> bool" where
  "is_cont b \<longleftrightarrow> 0x80 \<le> unat b \<and> unat b < 0xC0"

text \<open>One scalar value off the front of a byte sequence, by the first byte.\<close>

definition utf8_next :: "byte list \<Rightarrow> (nat \<times> byte list) option" where
  "utf8_next bs =
     (case bs of
        [] \<Rightarrow> None
      | b0 # r0 \<Rightarrow>
          (let n0 = unat b0 in
           if n0 < 0x80 then Some (n0, r0)
           else if n0 < 0xC2 then None
           else if n0 < 0xE0 then
             (case r0 of
                b1 # r1 \<Rightarrow> if is_cont b1 then Some ((n0 - 0xC0) * 64 + (unat b1 - 0x80), r1) else None
              | _ \<Rightarrow> None)
           else if n0 < 0xF0 then
             (case r0 of
                b1 # b2 # r2 \<Rightarrow>
                  if is_cont b1 \<and> is_cont b2
                     \<and> (n0 = 0xE0 \<longrightarrow> 0xA0 \<le> unat b1) \<and> (n0 = 0xED \<longrightarrow> unat b1 < 0xA0)
                  then Some ((n0 - 0xE0) * 4096 + (unat b1 - 0x80) * 64 + (unat b2 - 0x80), r2)
                  else None
              | _ \<Rightarrow> None)
           else if n0 < 0xF5 then
             (case r0 of
                b1 # b2 # b3 # r3 \<Rightarrow>
                  if is_cont b1 \<and> is_cont b2 \<and> is_cont b3
                     \<and> (n0 = 0xF0 \<longrightarrow> 0x90 \<le> unat b1) \<and> (n0 = 0xF4 \<longrightarrow> unat b1 < 0x90)
                  then Some ((n0 - 0xF0) * 262144 + (unat b1 - 0x80) * 4096
                             + (unat b2 - 0x80) * 64 + (unat b3 - 0x80), r3)
                  else None
              | _ \<Rightarrow> None)
           else None))"

lemma utf8_next_shorter: "utf8_next bs = Some (c, rest) \<Longrightarrow> length rest < length bs"
  by (auto simp: utf8_next_def Let_def split: list.splits if_splits)

function utf8_decode :: "byte list \<Rightarrow> nat list option" where
  "utf8_decode bs =
     (if bs = [] then Some []
      else case utf8_next bs of
             None \<Rightarrow> None
           | Some (c, rest) \<Rightarrow> map_option ((#) c) (utf8_decode rest))"
  by pat_completeness auto
termination
  by (relation "measure length") (auto dest: utf8_next_shorter)

declare utf8_decode.simps [simp del]

definition utf8_bom :: "byte list" where
  "utf8_bom = [0xEF, 0xBB, 0xBF]"

definition text_encode :: "jsstring \<Rightarrow> byte list" where
  "text_encode s = utf8_bytes (code_points s)"

definition text_decode :: "byte list \<Rightarrow> jsstring option" where
  "text_decode bs =
     map_option units (utf8_decode (if take 3 bs = utf8_bom then drop 3 bs else bs))"

section \<open>UTF-16 laws\<close>

lemma units_of_bmp:
  assumes "c < 0x10000" and "scalar c"
  shows "units_of c = [of_nat c]" "\<not> is_high (of_nat c)" "\<not> is_low (of_nat c)"
    "unat (of_nat c :: code_unit) = c"
  using assms by (auto simp: units_of_def is_high_def is_low_def unat_of_nat_16 scalar_def)

lemma units_of_pair:
  assumes "0x10000 \<le> c" and "c < 0x110000"
  obtains u v where "units_of c = [u, v]" "is_high u" "is_low v" "pair_value u v = c"
proof
  define h where "h = (c - 0x10000) div 0x400"
  define l where "l = (c - 0x10000) mod 0x400"
  have h: "h < 0x400" and l: "l < 0x400" using assms by (auto simp: h_def l_def)
  have hl: "h * 0x400 + l = c - 0x10000" by (simp add: h_def l_def)
  show "units_of c = [of_nat (0xD800 + h), of_nat (0xDC00 + l)]"
    using assms by (simp add: units_of_def h_def l_def)
  have uh: "unat (of_nat (0xD800 + h) :: code_unit) = 0xD800 + h"
    using h by (intro unat_of_nat_16) simp
  have ul: "unat (of_nat (0xDC00 + l) :: code_unit) = 0xDC00 + l"
    using l by (intro unat_of_nat_16) simp
  show "is_high (of_nat (0xD800 + h))" using uh h unfolding is_high_def by simp
  show "is_low (of_nat (0xDC00 + l))" using ul l unfolding is_low_def by simp
  show "pair_value (of_nat (0xD800 + h)) (of_nat (0xDC00 + l)) = c"
    using uh ul hl assms unfolding pair_value_def by simp
qed

lemma scalar_cases:
  assumes "scalar c"
  obtains (bmp) "c < 0x10000" | (pair) "0x10000 \<le> c" "c < 0x110000"
  using assms by (force simp: scalar_def)

lemma code_points_units:
  assumes "list_all scalar cs"
  shows "code_points (units cs) = cs \<and> well_formed (units cs)"
  using assms
proof (induction cs)
  case Nil
  then show ?case by (simp add: units_def)
next
  case (Cons c cs)
  then have IH: "code_points (units cs) = cs" "well_formed (units cs)" by auto
  have u: "units (c # cs) = units_of c @ units cs" by (simp add: units_def)
  from Cons.prems have "scalar c" by simp
  then show ?case
  proof (cases rule: scalar_cases)
    case bmp
    with \<open>scalar c\<close> IH show ?thesis by (simp add: u units_of_bmp)
  next
    case pair
    then obtain a b where "units_of c = [a, b]" "is_high a" "is_low b" "pair_value a b = c"
      by (rule units_of_pair)
    with IH show ?thesis by (simp add: u)
  qed
qed

lemma units_of_pair_value:
  assumes "is_high u" "is_low v"
  shows "units_of (pair_value u v) = [u, v]" "scalar (pair_value u v)"
proof -
  define h where "h = unat u - 0xD800"
  define l where "l = unat v - 0xDC00"
  have h: "h < 0x400" "unat u = 0xD800 + h" and l: "l < 0x400" "unat v = 0xDC00 + l"
    using assms by (auto simp: is_high_def is_low_def h_def l_def)
  have p: "pair_value u v = 0x10000 + h * 0x400 + l" by (simp add: pair_value_def h_def l_def)
  have "(h * 0x400 + l) div 0x400 = h" "(h * 0x400 + l) mod 0x400 = l" using l by auto
  moreover have "of_nat (0xD800 + h) = u" "of_nat (0xDC00 + l) = v"
    by (rule of_nat_unat_eq, fact h(2), rule of_nat_unat_eq, fact l(2))
  ultimately show "units_of (pair_value u v) = [u, v]"
    by (simp add: units_of_def p add.assoc)
  show "scalar (pair_value u v)" using h l by (simp add: scalar_def p)
qed

lemma scalar_unit: "\<not> is_high u \<Longrightarrow> \<not> is_low u \<Longrightarrow> scalar (unat u)"
  using unat_lt_16 [of u] by (auto simp: is_high_def is_low_def scalar_def)

lemma scalar_replacement: "scalar 0xFFFD"
  by (simp add: scalar_def)

lemma scalar_code_points: "list_all scalar (code_points s)"
  by (induction s rule: code_points.induct)
    (simp_all add: units_of_pair_value scalar_unit scalar_replacement split: list.splits)

lemma units_code_points: "well_formed s \<Longrightarrow> units (code_points s) = s"
proof (induction s rule: code_points.induct)
  case (2 u us)
  show ?case
  proof (cases "is_high u")
    case True
    with "2.prems" obtain v vs where us: "us = v # vs" and v: "is_low v" "well_formed vs"
      by (auto split: list.splits)
    have "units (code_points vs) = vs" using "2.IH"(1) [OF True us v(1) v(2)] .
    with True us v show ?thesis by (simp add: units_def units_of_pair_value)
  next
    case False
    with "2.prems" have l: "\<not> is_low u" "well_formed us" by auto
    have "units (code_points us) = us" using "2.IH"(4) [OF False l] .
    moreover have "units_of (unat u) = [u]" using unat_lt_16 [of u] by (simp add: units_of_def)
    ultimately show ?thesis using False l by (simp add: units_def)
  qed
qed (simp add: units_def)


section \<open>UTF-8 laws\<close>

text \<open>Base-64 digits of a code point.\<close>

lemma digits3: "(c::nat) = c div 4096 * 4096 + c div 64 mod 64 * 64 + c mod 64"
proof -
  have "c div 4096 = c div 64 div 64" by (simp add: div_mult2_eq [symmetric])
  moreover have "c div 64 = c div 64 div 64 * 64 + c div 64 mod 64" by simp
  moreover have "c = c div 64 * 64 + c mod 64" by simp
  ultimately show ?thesis by linarith
qed

lemma digits4:
  "(c::nat) = c div 262144 * 262144 + c div 4096 mod 64 * 4096 + c div 64 mod 64 * 64 + c mod 64"
proof -
  have "c div 262144 = c div 4096 div 64" by (simp add: div_mult2_eq [symmetric])
  moreover have "c div 4096 = c div 4096 div 64 * 64 + c div 4096 mod 64" by simp
  ultimately show ?thesis using digits3 [of c] by linarith
qed

lemma digits3_inv:
  assumes "(q::nat) < 64" "r < 64" and c: "c = p * 4096 + q * 64 + r"
  shows "c div 4096 = p" "c div 64 mod 64 = q" "c mod 64 = r"
proof -
  have e: "c = (p * 64 + q) * 64 + r" using c by simp
  have d: "c div 64 = p * 64 + q" unfolding e using assms(2) by simp
  show "c mod 64 = r" unfolding e using assms(2) by (metis mod_mult_self3 mod_less)
  show "c div 64 mod 64 = q" unfolding d using assms(1) by simp
  have "c div 4096 = c div 64 div 64" by (simp add: div_mult2_eq [symmetric])
  then show "c div 4096 = p" unfolding d using assms(1) by simp
qed

lemma digits4_inv:
  assumes "(q::nat) < 64" "r < 64" "t < 64" and c: "c = p * 262144 + q * 4096 + r * 64 + t"
  shows "c div 262144 = p" "c div 4096 mod 64 = q" "c div 64 mod 64 = r" "c mod 64 = t"
proof -
  have e: "c = (p * 64 + q) * 4096 + r * 64 + t" using c by simp
  note d = digits3_inv [OF assms(2,3) e]
  show "c div 64 mod 64 = r" "c mod 64 = t" by (fact d(2), fact d(3))
  show "c div 4096 mod 64 = q" unfolding d(1) using assms(1) by simp
  have "c div 262144 = c div 4096 div 64" by (simp add: div_mult2_eq [symmetric])
  then show "c div 262144 = p" unfolding d(1) using assms(1) by simp
qed

lemma utf8_next_utf8_of:
  assumes "scalar c"
  shows "utf8_next (utf8_of c @ rest) = Some (c, rest)"
proof -
  consider "c < 0x80" | "0x80 \<le> c" "c < 0x800" | "0x800 \<le> c" "c < 0x10000"
    | "0x10000 \<le> c" "c < 0x110000"
    using assms by (force simp: scalar_def)
  then show ?thesis
  proof cases
    case 1
    then show ?thesis by (simp add: utf8_of_def utf8_next_def unat_of_nat_8)
  next
    case 2
    define p q where "p = c div 64" and "q = c mod 64"
    have c: "c = p * 64 + q" and q: "q < 64" by (simp_all add: p_def q_def)
    have p: "2 \<le> p" "p < 32" using 2 by (auto simp: p_def)
    have u: "unat (of_nat (0xC0 + p) :: byte) = 0xC0 + p" "unat (of_nat (0x80 + q) :: byte) = 0x80 + q"
      using p q by (auto intro!: unat_of_nat_8 simp del: of_nat_add)
    have "utf8_of c = [of_nat (0xC0 + p), of_nat (0x80 + q)]"
      using 2 by (simp add: utf8_of_def p_def q_def)
    then show ?thesis using p q u c
      by (simp add: utf8_next_def is_cont_def del: of_nat_add)
  next
    case 3
    define p q r where "p = c div 4096" and "q = c div 64 mod 64" and "r = c mod 64"
    have c: "c = p * 4096 + q * 64 + r" unfolding p_def q_def r_def by (rule digits3)
    have b: "p < 16" "q < 64" "r < 64" using 3 by (auto simp: p_def q_def r_def)
    have e: "p = 0 \<longrightarrow> 32 \<le> q" "p = 13 \<longrightarrow> q < 32" using assms 3 c b by (auto simp: scalar_def)
    have u: "unat (of_nat (0xE0 + p) :: byte) = 0xE0 + p" "unat (of_nat (0x80 + q) :: byte) = 0x80 + q"
      "unat (of_nat (0x80 + r) :: byte) = 0x80 + r"
      using b by (auto intro!: unat_of_nat_8 simp del: of_nat_add)
    have "utf8_of c = [of_nat (0xE0 + p), of_nat (0x80 + q), of_nat (0x80 + r)]"
      using 3 by (simp add: utf8_of_def p_def q_def r_def)
    then show ?thesis using b e u c
      by (simp add: utf8_next_def is_cont_def del: of_nat_add)
  next
    case 4
    define p q r t where "p = c div 262144" and "q = c div 4096 mod 64"
      and "r = c div 64 mod 64" and "t = c mod 64"
    have c: "c = p * 262144 + q * 4096 + r * 64 + t" unfolding p_def q_def r_def t_def by (rule digits4)
    have b: "p < 5" "q < 64" "r < 64" "t < 64" using 4 by (auto simp: p_def q_def r_def t_def)
    have e: "p = 0 \<longrightarrow> 16 \<le> q" "p = 4 \<longrightarrow> q < 16" using 4 c b by auto
    have u: "unat (of_nat (0xF0 + p) :: byte) = 0xF0 + p" "unat (of_nat (0x80 + q) :: byte) = 0x80 + q"
      "unat (of_nat (0x80 + r) :: byte) = 0x80 + r" "unat (of_nat (0x80 + t) :: byte) = 0x80 + t"
      using b by (auto intro!: unat_of_nat_8 simp del: of_nat_add)
    have "utf8_of c = [of_nat (0xF0 + p), of_nat (0x80 + q), of_nat (0x80 + r), of_nat (0x80 + t)]"
      using 4 by (simp add: utf8_of_def p_def q_def r_def t_def)
    then show ?thesis using b e u c
      by (simp add: utf8_next_def is_cont_def del: of_nat_add)
  qed
qed

lemma utf8_of_nonempty [simp]: "utf8_of c \<noteq> []"
  by (simp add: utf8_of_def)

lemma utf8_decode_bytes: "list_all scalar cs \<Longrightarrow> utf8_decode (utf8_bytes cs) = Some cs"
proof (induction cs)
  case Nil
  then show ?case by (simp add: utf8_bytes_def utf8_decode.simps)
next
  case (Cons c cs)
  have "utf8_bytes (c # cs) = utf8_of c @ utf8_bytes cs" by (simp add: utf8_bytes_def)
  with Cons show ?case
    by (subst utf8_decode.simps) (simp add: utf8_next_utf8_of)
qed

lemma unat_cont: "is_cont b \<Longrightarrow> \<exists>q<64. unat b = 0x80 + q"
  by (auto simp: is_cont_def intro!: exI [of _ "unat b - 0x80"])

lemma utf8_next_inv:
  assumes "utf8_next bs = Some (c, rest)"
  shows "bs = utf8_of c @ rest \<and> scalar c"
proof -
  obtain b0 r0 where bs: "bs = b0 # r0" using assms by (cases bs) (auto simp: utf8_next_def)
  have b0: "unat b0 < 256" using unat_lt_8 [of b0] by simp
  consider (1) "unat b0 < 0x80" | (2) "0xC2 \<le> unat b0" "unat b0 < 0xE0"
    | (3) "0xE0 \<le> unat b0" "unat b0 < 0xF0" | (4) "0xF0 \<le> unat b0" "unat b0 < 0xF5"
    using assms by (auto simp: bs utf8_next_def Let_def split: if_splits)
  then show ?thesis
  proof cases
    case 1
    with assms show ?thesis by (auto simp: bs utf8_next_def utf8_of_def scalar_def)
  next
    case 2
    with assms obtain b1 where r0: "r0 = b1 # rest" and ct: "is_cont b1"
      and c: "c = (unat b0 - 0xC0) * 64 + (unat b1 - 0x80)"
      by (auto simp: bs utf8_next_def Let_def split: list.splits if_splits)
    obtain q where q: "q < 64" "unat b1 = 0x80 + q" using unat_cont [OF ct] by blast
    define p where "p = unat b0 - 0xC0"
    have p: "unat b0 = 0xC0 + p" "2 \<le> p" "p < 32" using 2 by (auto simp: p_def)
    have c': "c = p * 64 + q" using c p q by simp
    then have d: "c div 64 = p" "c mod 64 = q" using q by auto
    have w: "of_nat (0xC0 + p) = b0" "of_nat (0x80 + q) = b1"
      by (rule of_nat_unat_eq, fact p(1), rule of_nat_unat_eq, fact q(2))
    show ?thesis unfolding bs r0 using c' p q d w
      by (simp add: utf8_of_def scalar_def del: of_nat_add)
  next
    case 3
    with assms obtain b1 b2 where r0: "r0 = b1 # b2 # rest" and ct: "is_cont b1" "is_cont b2"
      and ex: "unat b0 = 0xE0 \<longrightarrow> 0xA0 \<le> unat b1" "unat b0 = 0xED \<longrightarrow> unat b1 < 0xA0"
      and c: "c = (unat b0 - 0xE0) * 4096 + (unat b1 - 0x80) * 64 + (unat b2 - 0x80)"
      by (auto simp: bs utf8_next_def Let_def split: list.splits if_splits)
    obtain q r where q: "q < 64" "unat b1 = 0x80 + q" and r: "r < 64" "unat b2 = 0x80 + r"
      using unat_cont [OF ct(1)] unat_cont [OF ct(2)] by blast
    define p where "p = unat b0 - 0xE0"
    have p: "unat b0 = 0xE0 + p" "p < 16" using 3 by (auto simp: p_def)
    have e: "p = 0 \<longrightarrow> 32 \<le> q" "p = 13 \<longrightarrow> q < 32" using ex p q by auto
    have c': "c = p * 4096 + q * 64 + r" using c p q r by simp
    note d = digits3_inv [OF q(1) r(1) c']
    have "0x800 \<le> c" using c' e(1) by (cases "p = 0") auto
    moreover have "c < 0x10000" using c' q r p by linarith
    ultimately have lo: "0x800 \<le> c" "c < 0x10000" by auto
    have s: "c < 0xD800 \<or> 0xE000 \<le> c" using c' e q r p by (cases "p = 13", auto)
    have w: "of_nat (0xE0 + p) = b0" "of_nat (0x80 + q) = b1" "of_nat (0x80 + r) = b2"
      by (rule of_nat_unat_eq, fact p(1), rule of_nat_unat_eq, fact q(2),
          rule of_nat_unat_eq, fact r(2))
    show ?thesis unfolding bs r0 using lo s d w
      by (simp add: utf8_of_def scalar_def del: of_nat_add)
  next
    case 4
    with assms obtain b1 b2 b3 where r0: "r0 = b1 # b2 # b3 # rest"
      and ct: "is_cont b1" "is_cont b2" "is_cont b3"
      and ex: "unat b0 = 0xF0 \<longrightarrow> 0x90 \<le> unat b1" "unat b0 = 0xF4 \<longrightarrow> unat b1 < 0x90"
      and c: "c = (unat b0 - 0xF0) * 262144 + (unat b1 - 0x80) * 4096 + (unat b2 - 0x80) * 64
                  + (unat b3 - 0x80)"
      by (auto simp: bs utf8_next_def Let_def split: list.splits if_splits)
    obtain q r t where q: "q < 64" "unat b1 = 0x80 + q" and r: "r < 64" "unat b2 = 0x80 + r"
      and t: "t < 64" "unat b3 = 0x80 + t"
      using unat_cont [OF ct(1)] unat_cont [OF ct(2)] unat_cont [OF ct(3)] by blast
    define p where "p = unat b0 - 0xF0"
    have p: "unat b0 = 0xF0 + p" "p < 5" using 4 by (auto simp: p_def)
    have e: "p = 0 \<longrightarrow> 16 \<le> q" "p = 4 \<longrightarrow> q < 16" using ex p q by auto
    have c': "c = p * 262144 + q * 4096 + r * 64 + t" using c p q r t by simp
    note d = digits4_inv [OF q(1) r(1) t(1) c']
    have "0x10000 \<le> c" using c' e(1) by (cases "p = 0") auto
    moreover have "c < 0x110000" using c' e(2) q r t p by (cases "p = 4") auto
    ultimately have lo: "0x10000 \<le> c" "c < 0x110000" by auto
    have w: "of_nat (0xF0 + p) = b0" "of_nat (0x80 + q) = b1" "of_nat (0x80 + r) = b2"
      "of_nat (0x80 + t) = b3"
      by (rule of_nat_unat_eq, fact p(1), rule of_nat_unat_eq, fact q(2),
          rule of_nat_unat_eq, fact r(2), rule of_nat_unat_eq, fact t(2))
    show ?thesis unfolding bs r0 using lo d w
      by (simp add: utf8_of_def scalar_def del: of_nat_add)
  qed
qed

lemma utf8_decode_inv:
  "utf8_decode bs = Some cs \<Longrightarrow> bs = utf8_bytes cs \<and> list_all scalar cs"
proof (induction bs arbitrary: cs rule: utf8_decode.induct)
  case (1 bs)
  show ?case
  proof (cases "bs = []")
    case True
    with "1.prems" show ?thesis by (simp add: utf8_decode.simps [of "[]"] utf8_bytes_def)
  next
    case False
    with "1.prems" obtain c rest cs' where n: "utf8_next bs = Some (c, rest)"
      and r: "utf8_decode rest = Some cs'" and cs: "cs = c # cs'"
      by (auto simp: utf8_decode.simps [of bs] split: option.splits)
    from "1.IH" [OF False n refl r] have "rest = utf8_bytes cs' \<and> list_all scalar cs'" .
    with utf8_next_inv [OF n] cs show ?thesis by (simp add: utf8_bytes_def)
  qed
qed

section \<open>Round trips of the text codecs\<close>

text \<open>
  The byte order mark is the only obstacle besides unpaired surrogates: a well-formed string
  that does not begin with U+FEFF is recovered exactly.
\<close>

definition str_ok :: "jsstring \<Rightarrow> bool" where
  "str_ok s \<longleftrightarrow> well_formed s \<and> take 1 s \<noteq> [0xFEFF]"

lemma utf8_of_bom: "utf8_of 0xFEFF = utf8_bom"
  by (simp add: utf8_of_def utf8_bom_def)

lemma bom_prefix:
  assumes "list_all scalar cs"
  shows "take 3 (utf8_bytes cs) = utf8_bom \<longleftrightarrow> take 1 cs = [0xFEFF]"
proof
  assume a: "take 3 (utf8_bytes cs) = utf8_bom"
  then obtain rest where "utf8_bytes cs = utf8_of 0xFEFF @ rest"
    unfolding utf8_of_bom by (metis append_take_drop_id)
  then have "utf8_next (utf8_bytes cs) = Some (0xFEFF, rest)"
    by (simp add: utf8_next_utf8_of scalar_def)
  moreover obtain c cs' where cs: "cs = c # cs'" using a
    by (cases cs) (auto simp: utf8_bytes_def utf8_bom_def)
  ultimately show "take 1 cs = [0xFEFF]"
    using assms utf8_next_utf8_of [of c "utf8_bytes cs'"] by (simp add: utf8_bytes_def)
next
  assume "take 1 cs = [0xFEFF]"
  then obtain cs' where "cs = 0xFEFF # cs'" by (cases cs) auto
  then show "take 3 (utf8_bytes cs) = utf8_bom"
    by (simp add: utf8_bytes_def utf8_of_bom) (simp add: utf8_bom_def)
qed

lemma code_points_bom:
  assumes "well_formed s"
  shows "take 1 (code_points s) = [0xFEFF] \<longleftrightarrow> take 1 s = [0xFEFF]"
proof (cases s)
  case (Cons u us)
  have big: "pair_value u v \<noteq> 0xFEFF" for v by (simp add: pair_value_def)
  have eq: "unat u = 0xFEFF \<longleftrightarrow> u = 0xFEFF"
  proof
    assume "unat u = 0xFEFF"
    then have "of_nat 0xFEFF = u" by (rule of_nat_unat_eq)
    then show "u = 0xFEFF" by simp
  qed simp
  have "\<not> is_high 0xFEFF" by (simp add: is_high_def)
  with assms Cons big eq show ?thesis by (auto split: list.splits)
qed simp

lemma text_decode_encode: "str_ok s \<Longrightarrow> text_decode (text_encode s) = Some s"
proof -
  assume "str_ok s"
  then have w: "well_formed s" and b: "take 1 (code_points s) \<noteq> [0xFEFF]"
    by (simp_all add: str_ok_def code_points_bom del: One_nat_def)
  have "take 3 (text_encode s) \<noteq> utf8_bom"
    using b bom_prefix [OF scalar_code_points] by (simp add: text_encode_def)
  then show ?thesis
    by (simp add: text_decode_def) (simp add: text_encode_def utf8_decode_bytes scalar_code_points
      units_code_points w)
qed

lemma text_decode_well_formed: "text_decode bs = Some s \<Longrightarrow> well_formed s"
  using utf8_decode_inv code_points_units by (fastforce simp: text_decode_def)

text \<open>What the decoder returns encodes to the same bytes, less a byte order mark.\<close>

lemma text_encode_decode:
  assumes "text_decode bs = Some s"
  shows "bs = text_encode s \<or> bs = utf8_bom @ text_encode s"
proof -
  define bs' where "bs' = (if take 3 bs = utf8_bom then drop 3 bs else bs)"
  obtain cs where cs: "utf8_decode bs' = Some cs" and s: "s = units cs"
    using assms by (auto simp: text_decode_def bs'_def)
  have "bs' = utf8_bytes cs" "list_all scalar cs" using utf8_decode_inv [OF cs] by auto
  then have "bs' = text_encode s" using code_points_units by (simp add: text_encode_def s)
  moreover have "bs = bs' \<or> bs = utf8_bom @ bs'"
    by (metis append_take_drop_id bs'_def)
  ultimately show ?thesis by blast
qed

lemma text_encode_length_le: "text_decode bs = Some s \<Longrightarrow> length (text_encode s) \<le> length bs"
  using text_encode_decode by fastforce

text \<open>A leading U+FEFF is lost.\<close>

lemma text_decode_bom:
  assumes "well_formed (0xFEFF # s)" and "take 1 s \<noteq> [0xFEFF]"
  shows "text_decode (text_encode (0xFEFF # s)) = Some s"
proof -
  have h: "\<not> is_high 0xFEFF" "\<not> is_low 0xFEFF" by (simp_all add: is_high_def is_low_def)
  have w: "well_formed s" using assms(1) h by simp
  have "text_encode (0xFEFF # s) = utf8_bom @ text_encode s"
    using h by (simp add: text_encode_def utf8_bytes_def utf8_of_bom)
  moreover have "take 3 (utf8_bom @ text_encode s) = utf8_bom"
    "drop 3 (utf8_bom @ text_encode s) = text_encode s" by (simp_all add: utf8_bom_def)
  ultimately show ?thesis
    by (simp add: text_decode_def text_encode_def utf8_decode_bytes scalar_code_points
        units_code_points w)
qed

text \<open>Evaluation of the encoder on literals.\<close>

lemmas text_encode_eval = text_encode_def utf8_bytes_def utf8_of_def is_high_def is_low_def

end
