(* ===== verification/Bytes.thy ===== *)
theory Bytes
  imports Utf
begin

text \<open>
  \<open>core/src/bytes.ts\<close>: the little-endian primitives of the wire format, the growable
  \<open>ByteWriter\<close>, the bounds-checked \<open>ByteReader\<close> and the two canonical map layouts.

  The encoders of the later theories are written over \<open>writer\<close> values (the bytes a write
  appends); the section on \<open>ByteWriter\<close> models the doubling buffer itself and shows that
  running writes through it produces exactly those bytes. A number that the source requires
  to be an integer is an \<open>int\<close>; an \<open>f64\<close> is its 64-bit IEEE pattern.
\<close>

section \<open>Little-endian integers\<close>

fun le_bytes :: "nat \<Rightarrow> nat \<Rightarrow> byte list" where
  "le_bytes 0 v = []"
| "le_bytes (Suc n) v = of_nat (v mod 256) # le_bytes n (v div 256)"

fun le_val :: "byte list \<Rightarrow> nat" where
  "le_val [] = 0"
| "le_val (b # bs) = unat b + 256 * le_val bs"

text \<open>Two's complement at a width of \<open>n\<close> bytes, as \<open>setInt32\<close> and \<open>setBigInt64\<close> store it.\<close>

definition to_twos :: "nat \<Rightarrow> int \<Rightarrow> nat" where
  "to_twos n v = nat (v mod 256 ^ n)"

definition of_twos :: "nat \<Rightarrow> nat \<Rightarrow> int" where
  "of_twos n v = (if 2 * v < 256 ^ n then int v else int v - 256 ^ n)"

section \<open>Writes\<close>

definition w_u8 :: "int \<Rightarrow> writer" where
  "w_u8 v = (if v < 0 \<or> v > 0xff then Inl PlainError else Inr (le_bytes 1 (nat v)))"

definition w_u16 :: "int \<Rightarrow> writer" where
  "w_u16 v = (if v < 0 \<or> v > 0xffff then Inl PlainError else Inr (le_bytes 2 (nat v)))"

definition w_u32 :: "int \<Rightarrow> writer" where
  "w_u32 v = (if v < 0 \<or> v > 0xffffffff then Inl PlainError else Inr (le_bytes 4 (nat v)))"

definition w_i32 :: "int \<Rightarrow> writer" where
  "w_i32 v = (if v < - 0x80000000 \<or> v > 0x7fffffff then Inl PlainError
              else Inr (le_bytes 4 (to_twos 4 v)))"

definition max_safe :: int where
  "max_safe = 9007199254740991"

definition w_i64 :: "int \<Rightarrow> writer" where
  "w_i64 v = (if v < - max_safe \<or> v > max_safe then Inl PlainError
              else Inr (le_bytes 8 (to_twos 8 v)))"

definition w_f64 :: "64 word \<Rightarrow> writer" where
  "w_f64 v = Inr (le_bytes 8 (unat v))"

definition w_bool :: "bool \<Rightarrow> writer" where
  "w_bool v = w_u8 (if v then 1 else 0)"

definition w_raw :: "byte list \<Rightarrow> writer" where
  "w_raw v = Inr v"

definition w_bytes :: "byte list \<Rightarrow> writer" where
  "w_bytes v = seqW [w_u32 (int (length v)), w_raw v]"

definition w_str :: "jsstring \<Rightarrow> writer" where
  "w_str v = (let encoded = text_encode v in seqW [w_u32 (int (length encoded)), w_raw encoded])"

definition w_opt :: "('a \<Rightarrow> writer) \<Rightarrow> 'a option \<Rightarrow> writer" where
  "w_opt wr v = (case v of None \<Rightarrow> w_u8 0 | Some x \<Rightarrow> seqW [w_u8 1, wr x])"

section \<open>Reads\<close>

definition r_take :: "nat \<Rightarrow> byte list reader" where
  "r_take n = (\<lambda>bs. if length bs < n then Inl invalid_request else Inr (take n bs, drop n bs))"

definition r_u8 :: "int reader" where
  "r_u8 = bindR (r_take 1) (\<lambda>b. returnR (int (le_val b)))"

definition r_u16 :: "int reader" where
  "r_u16 = bindR (r_take 2) (\<lambda>b. returnR (int (le_val b)))"

definition r_u32 :: "int reader" where
  "r_u32 = bindR (r_take 4) (\<lambda>b. returnR (int (le_val b)))"

definition r_i32 :: "int reader" where
  "r_i32 = bindR (r_take 4) (\<lambda>b. returnR (of_twos 4 (le_val b)))"

definition r_i64 :: "int reader" where
  "r_i64 = bindR (r_take 8) (\<lambda>b. let v = of_twos 8 (le_val b) in
     if v > max_safe \<or> v < - max_safe then failR invalid_request else returnR v)"

definition r_f64 :: "64 word reader" where
  "r_f64 = bindR (r_take 8) (\<lambda>b. returnR (of_nat (le_val b)))"

definition r_bool :: "bool reader" where
  "r_bool = bindR r_u8 (\<lambda>b. if b > 1 then failR invalid_request else returnR (b = 1))"

definition r_raw :: "nat \<Rightarrow> byte list reader" where
  "r_raw n = r_take n"

definition r_bytes :: "byte list reader" where
  "r_bytes = bindR r_u32 (\<lambda>n. r_raw (nat n))"

definition r_str :: "jsstring reader" where
  "r_str = bindR r_bytes (\<lambda>b. case text_decode b of
     None \<Rightarrow> failR invalid_request | Some s \<Rightarrow> returnR s)"

definition r_opt :: "'a reader \<Rightarrow> 'a option reader" where
  "r_opt rd = bindR r_u8 (\<lambda>presence.
     if presence = 0 then returnR None
     else if presence = 1 then bindR rd (\<lambda>x. returnR (Some x))
     else failR invalid_request)"

definition expectFullyConsumed :: "unit reader" where
  "expectFullyConsumed = (\<lambda>bs. if length bs \<noteq> 0 then Inl invalid_request else Inr ((), bs))"

section \<open>The two map layouts\<close>

type_synonym scope_map = "(jsstring \<times> jsstring list) list"
type_synonym string_map = "(jsstring \<times> jsstring) list"

definition writeStringListMap :: "scope_map \<Rightarrow> writer" where
  "writeStringListMap m =
     (let keys = sort (map fst m) in
      seqW (w_u32 (int (length keys)) #
        map (\<lambda>key. seqW [w_str key,
               (let values = (case map_of m key of None \<Rightarrow> [] | Some vs \<Rightarrow> vs) in
                seqW (w_u32 (int (length values)) # map w_str values))]) keys))"

definition writeStringMap :: "string_map \<Rightarrow> writer" where
  "writeStringMap m =
     (let keys = sort (map fst m) in
      seqW (w_u32 (int (length keys)) #
        map (\<lambda>key. seqW [w_str key, w_str (case map_of m key of None \<Rightarrow> [] | Some v \<Rightarrow> v)]) keys))"

text \<open>The loop both readers share; \<open>prev\<close> is \<open>previousKey\<close>.\<close>

fun readEntries :: "'v reader \<Rightarrow> nat \<Rightarrow> jsstring option \<Rightarrow> (jsstring \<times> 'v) list reader" where
  "readEntries rd 0 prev = returnR []"
| "readEntries rd (Suc n) prev =
     bindR r_str (\<lambda>key.
       if (case prev of None \<Rightarrow> False | Some p \<Rightarrow> key \<le> p) then failR invalid_request
       else bindR rd (\<lambda>v. bindR (readEntries rd n (Some key)) (\<lambda>es. returnR ((key, v) # es))))"

definition readStringListMap :: "scope_map reader" where
  "readStringListMap = bindR r_u32 (\<lambda>count.
     readEntries (bindR r_u32 (\<lambda>valueCount. timesR (nat valueCount) r_str)) (nat count) None)"

definition readStringMap :: "string_map reader" where
  "readStringMap = bindR r_u32 (\<lambda>count. readEntries r_str (nat count) None)"

section \<open>Integer laws\<close>

lemma length_le_bytes [simp]: "length (le_bytes n v) = n"
  by (induction n arbitrary: v) auto

lemma le_bytes_zero: "le_bytes n 0 = replicate n 0"
  by (induction n) auto

lemma le_bytes_4_0: "le_bytes 4 0 = [0, 0, 0, 0]"
  by (simp add: le_bytes_zero eval_nat_numeral)

lemma le_val_le_bytes: "le_val (le_bytes n v) = v mod 256 ^ n"
proof (induction n arbitrary: v)
  case (Suc n)
  have "v mod 256 + 256 * (v div 256 mod 256 ^ n) = v mod (256 * 256 ^ n)"
    by (simp add: mod_mult2_eq)
  with Suc show ?case by (simp add: unat_of_nat take_bit_eq_mod)
qed simp

lemma le_val_less: "le_val bs < 256 ^ length bs"
proof (induction bs)
  case (Cons b bs)
  have "unat b < 256" using unat_lt_8 [of b] by simp
  moreover have "256 * le_val bs + 256 \<le> 256 * 256 ^ length bs"
    using Cons by (metis Suc_leI mult_Suc_right add.commute mult_le_mono2)
  ultimately have "unat b + 256 * le_val bs < 256 * 256 ^ length bs" by linarith
  then show ?case by simp
qed simp

lemma le_bytes_le_val: "le_bytes (length bs) (le_val bs) = bs"
proof (induction bs)
  case (Cons b bs)
  have "unat b < 256" using unat_lt_8 [of b] by simp
  then have "(unat b + 256 * le_val bs) mod 256 = unat b" "(unat b + 256 * le_val bs) div 256 = le_val bs"
    by auto
  with Cons show ?case by simp
qed simp

lemma twos_below: "- P \<le> 2 * v \<Longrightarrow> 2 * (v + P) < P \<Longrightarrow> False" for P v :: int
  by (simp add: algebra_simps)

lemma twos_above: "0 < P \<Longrightarrow> v < P \<Longrightarrow> 2 * (v - P) < P" for P v :: int
  by (simp add: algebra_simps)

lemma of_twos_to_twos:
  assumes "0 < n" and "- (256 ^ n) \<le> 2 * v" and "2 * v < 256 ^ n"
  shows "of_twos n (to_twos n v) = v"
proof (cases "0 \<le> v")
  case True
  have "v < 256 ^ n" using assms(3) True by linarith
  moreover have "int (2 * nat v) < int (256 ^ n)" using True assms(3) by simp
  then have "2 * nat v < 256 ^ n" by linarith
  ultimately show ?thesis using True by (simp add: of_twos_def to_twos_def)
next
  case False
  have *: "v mod 256 ^ n = v + 256 ^ n"
  proof -
    have "0 \<le> v + 256 ^ n" using assms(2) False by linarith
    moreover have "v + 256 ^ n < 256 ^ n" using False by simp
    ultimately have "(v + 256 ^ n) mod 256 ^ n = v + 256 ^ n" by (rule mod_pos_pos_trivial)
    then show ?thesis by (simp only: mod_add_self2)
  qed
  have n0: "0 \<le> v + 256 ^ n" using assms(2) False by linarith
  have "\<not> 2 * nat (v + 256 ^ n) < 256 ^ n"
  proof
    assume "2 * nat (v + 256 ^ n) < 256 ^ n"
    then have "int (2 * nat (v + 256 ^ n)) < int (256 ^ n)" by linarith
    then have "2 * (v + 256 ^ n) < 256 ^ n" using n0 by simp
    with assms(2) show False by (rule twos_below)
  qed
  with n0 show ?thesis by (simp add: of_twos_def to_twos_def *)
qed

lemma to_twos_of_twos: "v < 256 ^ n \<Longrightarrow> to_twos n (of_twos n v) = v"
proof (cases "2 * v < 256 ^ n")
  case True
  assume "v < 256 ^ n"
  then have "int v mod 256 ^ n = int v"
    by (metis of_nat_numeral of_nat_power of_nat_mod mod_less)
  with True show ?thesis by (simp add: of_twos_def to_twos_def)
next
  case False
  assume "v < 256 ^ n"
  then have "(int v - 256 ^ n) mod 256 ^ n = int v"
    by (metis minus_mod_self2 of_nat_numeral of_nat_power of_nat_mod mod_less)
  with False show ?thesis by (simp add: of_twos_def to_twos_def)
qed

lemma to_twos_less: "to_twos n v < 256 ^ n"
proof -
  have "v mod 256 ^ n < 256 ^ n" "0 \<le> v mod 256 ^ n" by simp_all
  then show ?thesis by (simp add: to_twos_def nat_less_iff)
qed

lemma of_twos_bounds:
  assumes "v < 256 ^ n"
  shows "- (256 ^ n) \<le> 2 * of_twos n v" "2 * of_twos n v < 256 ^ n"
proof -
  have "int v < int (256 ^ n)" using assms by linarith
  then have i: "int v < 256 ^ n" by simp
  have "2 * v < 256 ^ n \<Longrightarrow> int (2 * v) < int (256 ^ n)" by linarith
  then have "2 * v < 256 ^ n \<Longrightarrow> 2 * int v < 256 ^ n" by simp
  moreover have "0 < (256::int) ^ n" by simp
  ultimately show "2 * of_twos n v < 256 ^ n"
    using i twos_above [of "256 ^ n" "int v"] by (simp only: of_twos_def split: if_split) blast
  have "\<not> 2 * v < 256 ^ n \<Longrightarrow> int (256 ^ n) \<le> int (2 * v)" by linarith
  then have "\<not> 2 * v < 256 ^ n \<Longrightarrow> 256 ^ n \<le> 2 * int v" by simp
  then show "- (256 ^ n) \<le> 2 * of_twos n v"
    by (auto simp: of_twos_def intro: order_trans [of _ 0])
qed


section \<open>Interpretations of the codec interface\<close>

lemma codes_take: "length b = n \<Longrightarrow> codes (r_take n) b b"
  by (auto simp: codes_def r_take_def)

lemma codes_take_then:
  "length b = n \<Longrightarrow> codes (k b) [] x \<Longrightarrow> codes (bindR (r_take n) k) b x"
  by (rule codes_bind_end [OF codes_take])

lemma codes_returnI: "x = y \<Longrightarrow> codes (returnR x) [] y"
  by (simp add: codes_return)

interpretation u8: codec w_u8 r_u8 "\<lambda>_. True"
  by unfold_locales
    (auto simp: w_u8_def r_u8_def le_val_le_bytes split: if_splits
      intro!: codes_take_then codes_returnI simp del: le_bytes.simps le_val.simps)

interpretation u16: codec w_u16 r_u16 "\<lambda>_. True"
  by unfold_locales
    (auto simp: w_u16_def r_u16_def le_val_le_bytes split: if_splits
      intro!: codes_take_then codes_returnI)

interpretation u32: codec w_u32 r_u32 "\<lambda>_. True"
  by unfold_locales
    (auto simp: w_u32_def r_u32_def le_val_le_bytes split: if_splits
      intro!: codes_take_then codes_returnI)

lemma le_val_twos [simp]: "le_val (le_bytes n (to_twos n v)) = to_twos n v"
  by (simp add: le_val_le_bytes to_twos_less)

interpretation i32: codec w_i32 r_i32 "\<lambda>_. True"
  by unfold_locales
    (auto simp: w_i32_def r_i32_def of_twos_to_twos split: if_splits
      intro!: codes_take_then codes_returnI)

interpretation i64: codec w_i64 r_i64 "\<lambda>_. True"
proof
  fix x b assume "w_i64 x = Inr b"
  then have r: "- max_safe \<le> x" "x \<le> max_safe" and b: "b = le_bytes 8 (to_twos 8 x)"
    by (auto simp: w_i64_def split: if_splits)
  have "of_twos 8 (to_twos 8 x) = x" using r by (intro of_twos_to_twos) (auto simp: max_safe_def)
  with r show "codes r_i64 b x"
    unfolding b r_i64_def by (intro codes_take_then) (auto intro: codes_returnI)
qed

interpretation f64: codec w_f64 r_f64 "\<lambda>_. True"
proof
  fix x :: "64 word" and b assume "w_f64 x = Inr b"
  moreover have "unat x < 2 ^ LENGTH(64)" by (rule unsigned_less)
  ultimately show "codes r_f64 b x"
    by (auto simp: w_f64_def r_f64_def le_val_le_bytes intro!: codes_take_then codes_returnI)
qed

interpretation wbool: codec w_bool r_bool "\<lambda>_. True"
proof
  fix x b assume "w_bool x = Inr b"
  then have "codes r_u8 b (if x then 1 else 0)" by (auto simp: w_bool_def intro: u8.codes)
  then show "codes r_bool b x"
    unfolding r_bool_def by (rule codes_bind_end) (auto intro: codes_returnI)
qed

lemma w_bytes_eq: "w_bytes v = Inr b \<longleftrightarrow>
    length v \<le> 0xffffffff \<and> b = le_bytes 4 (length v) @ v"
  by (auto simp: w_bytes_def w_raw_def w_u32_def writer_simps split: if_splits)

lemma codes_u32: "n \<le> 0xffffffff \<Longrightarrow> codes r_u32 (le_bytes 4 n) (int n)"
  by (rule u32.codes) (auto simp: w_u32_def)

interpretation wbytes: codec w_bytes r_bytes "\<lambda>_. True"
proof
  fix x b assume "w_bytes x = Inr b"
  then have l: "length x \<le> 0xffffffff" and b: "b = le_bytes 4 (length x) @ x"
    by (auto simp: w_bytes_eq)
  show "codes r_bytes b x"
    unfolding b r_bytes_def r_raw_def
    by (rule codes_bind, rule codes_u32 [OF l]) (simp add: codes_take)
qed

lemma w_str_bytes: "w_str s = w_bytes (text_encode s)"
  by (simp add: w_str_def w_bytes_def Let_def)

interpretation wstr: codec w_str r_str str_ok
proof
  fix x b assume "w_str x = Inr b" and ok: "str_ok x"
  then have "codes r_bytes b (text_encode x)" by (auto simp: w_str_bytes intro: wbytes.codes)
  then show "codes r_str b x"
    unfolding r_str_def by (rule codes_bind_end) (simp add: text_decode_encode ok codes_return)
qed

lemmas prim_codes [codec_intros] =
  u8.codes u16.codes u32.codes i32.codes i64.codes f64.codes wbool.codes wbytes.codes wstr.codes

section \<open>Composite layouts\<close>

context codec begin

lemma codes_opt:
  assumes "w_opt wr v = Inr b" and "\<And>x. v = Some x \<Longrightarrow> ok x"
  shows "codes (r_opt rd) b v"
proof (cases v)
  case None
  with assms have "codes r_u8 b 0" by (auto simp: w_opt_def intro: u8.codes)
  then show ?thesis
    unfolding r_opt_def None by (rule codes_bind_end) (simp add: codes_return)
next
  case (Some x)
  with assms obtain b1 b2 where b: "w_u8 1 = Inr b1" "wr x = Inr b2" "b = b1 @ b2"
    by (auto simp: w_opt_def writer_simps)
  have "codes (bindR rd (\<lambda>x. returnR (Some x))) b2 (Some x)"
    using codes [OF b(2)] assms(2) Some by (auto intro: codes_bind_end codes_return)
  moreover have "codes r_u8 b1 1" using b(1) by (rule u8.codes) simp
  ultimately show ?thesis
    unfolding r_opt_def Some b(3) by (intro codes_bind) auto
qed

lemma step_opt:
  "w_opt wr v = Inr b \<Longrightarrow> pred_option ok v \<Longrightarrow> codes (bindR (r_opt rd) k) (b @ c) y \<longleftrightarrow> codes (k v) c y"
  by (rule codes_bind_iff) (rule codes_opt, auto)

lemma step_opt_last:
  "w_opt wr v = Inr b \<Longrightarrow> pred_option ok v \<Longrightarrow> codes (bindR (r_opt rd) k) b y \<longleftrightarrow> codes (k v) [] y"
  by (rule codes_bind_iff_end) (rule codes_opt, auto)

lemma step_times:
  assumes "seqW (map wr xs) = Inr b" and "list_all ok xs"
  shows "codes (bindR (timesR (length xs) rd) k) (b @ c) y \<longleftrightarrow> codes (k xs) c y"
  using assms by (intro codes_bind_iff codes_times) (auto simp: list_all_iff)

lemma step_times_last:
  assumes "seqW (map wr xs) = Inr b" and "list_all ok xs"
  shows "codes (bindR (timesR (length xs) rd) k) b y \<longleftrightarrow> codes (k xs) [] y"
  using assms by (intro codes_bind_iff_end codes_times) (auto simp: list_all_iff)

lemmas steps = step step_last step_opt step_opt_last step_times step_times_last

lemma codes_counted:
  assumes "seqW (w_u32 (int (length xs)) # map wr xs) = Inr b" and "\<And>x. x \<in> set xs \<Longrightarrow> ok x"
  shows "codes (bindR r_u32 (\<lambda>n. timesR (nat n) rd)) b xs"
proof -
  obtain b1 b2 where b: "w_u32 (int (length xs)) = Inr b1" "seqW (map wr xs) = Inr b2" "b = b1 @ b2"
    using assms(1) by (auto simp: writer_simps)
  have "codes r_u32 b1 (int (length xs))" using b(1) by (rule u32.codes) simp
  moreover have "codes (timesR (nat (int (length xs))) rd) b2 xs"
    using codes_times [OF b(2)] assms(2) by simp
  ultimately show ?thesis unfolding b(3) by (rule codes_bind)
qed

text \<open>A map layout reads back as its entries in ascending key order.\<close>

lemma codes_entries:
  assumes "seqW (map (\<lambda>(k, v). seqW [w_str k, wr v]) es) = Inr b"
    and "sorted_wrt (<) (map fst es)"
    and "\<And>k v. (k, v) \<in> set es \<Longrightarrow> str_ok k \<and> ok v"
    and "\<And>p k. prev = Some p \<Longrightarrow> k \<in> fst ` set es \<Longrightarrow> p < k"
  shows "codes (readEntries rd (length es) prev) b es"
  using assms
proof (induction es arbitrary: b prev)
  case Nil
  then show ?case by (simp add: writer_simps codes_return)
next
  case (Cons e es)
  obtain k v where e: "e = (k, v)" by (cases e)
  obtain b1 b2 b3 where b: "w_str k = Inr b1" "wr v = Inr b2"
    "seqW (map (\<lambda>(k, v). seqW [w_str k, wr v]) es) = Inr b3" "b = b1 @ b2 @ b3"
    using Cons.prems(1) by (auto simp: e writer_simps)
  have ok: "str_ok k" "ok v" using Cons.prems(3) e by auto
  have g: "\<not> (case prev of None \<Rightarrow> False | Some p \<Rightarrow> k \<le> p)"
    using Cons.prems(4) by (auto simp: e not_le split: option.splits)
  have "codes (readEntries rd (length es) (Some k)) b3 es"
    using Cons.prems(2,3) by (intro Cons.IH [OF b(3)]) (auto simp: e)
  then have "codes (bindR (readEntries rd (length es) (Some k)) (\<lambda>es. returnR ((k, v) # es))) b3
      ((k, v) # es)"
    by (auto intro: codes_bind_end codes_return)
  then show ?case
    using g codes [OF b(2) ok(2)] wstr.codes [OF b(1) ok(1)]
    by (auto simp: e b(4) intro!: codes_bind)
qed

end


lemmas prim_steps [codes_steps] =
  u8.steps u16.steps u32.steps i32.steps i64.steps f64.steps wbool.steps wbytes.steps wstr.steps

section \<open>Maps\<close>

text \<open>A dictionary with its entries in ascending key order.\<close>

definition canon_map :: "('k::linorder \<times> 'v) list \<Rightarrow> ('k \<times> 'v) list" where
  "canon_map m = map (\<lambda>k. (k, the (map_of m k))) (sort (map fst m))"

lemma fst_canon_map [simp]: "map fst (canon_map m) = sort (map fst m)"
  by (simp add: canon_map_def comp_def)

lemma length_canon_map [simp]: "length (canon_map m) = length m"
  by (simp add: canon_map_def)

lemma canon_map_set:
  assumes "distinct (map fst m)"
  shows "set (canon_map m) = set m"
proof -
  have "map_of m k = Some (the (map_of m k))" if "k \<in> fst ` set m" for k
    using that by (metis domIff dom_map_of_conv_image_fst option.exhaust_sel)
  then show ?thesis
    using assms by (auto simp: canon_map_def image_iff map_of_eq_Some_iff) force
qed

lemma canon_map_sorted: "distinct (map fst m) \<Longrightarrow> sorted_wrt (<) (map fst (canon_map m))"
  by (simp add: strict_sorted_iff)

lemma map_of_canon_map:
  assumes "distinct (map fst m)"
  shows "map_of (canon_map m) = map_of m"
proof (rule map_of_inject_set [THEN iffD2])
  show "distinct (map fst (canon_map m))" using assms by simp
qed (use assms canon_map_set in auto)

lemma canon_map_id: "sorted_wrt (<) (map fst m) \<Longrightarrow> canon_map m = m"
proof -
  assume s: "sorted_wrt (<) (map fst m)"
  then have d: "distinct (map fst m)" and so: "sort (map fst m) = map fst m"
    by (auto simp: strict_sorted_iff sorted_sort_id)
  have "map_of m (fst (m ! i)) = Some (snd (m ! i))" if "i < length m" for i
    using d that by (simp add: map_of_eq_Some_iff)
  then show ?thesis
    unfolding canon_map_def so by (intro nth_equalityI) auto
qed

lemma canon_map_idem: "distinct (map fst m) \<Longrightarrow> canon_map (canon_map m) = canon_map m"
  by (rule canon_map_id, rule canon_map_sorted)

definition values_ok :: "jsstring list \<Rightarrow> bool" where
  "values_ok vs \<longleftrightarrow> list_all str_ok vs"

definition scope_map_ok :: "scope_map \<Rightarrow> bool" where
  "scope_map_ok m \<longleftrightarrow> distinct (map fst m) \<and> list_all (\<lambda>(k, vs). str_ok k \<and> values_ok vs) m"

definition string_map_ok :: "string_map \<Rightarrow> bool" where
  "string_map_ok m \<longleftrightarrow> distinct (map fst m) \<and> list_all (\<lambda>(k, v). str_ok k \<and> str_ok v) m"

interpretation wvalues: codec
  "\<lambda>vs. seqW (w_u32 (int (length vs)) # map w_str vs)"
  "bindR r_u32 (\<lambda>n. timesR (nat n) r_str)" values_ok
  by unfold_locales (rule wstr.codes_counted, auto simp: values_ok_def list_all_iff)

lemma write_canon:
  assumes "distinct (map fst m)"
  shows "map (\<lambda>key. seqW [w_str key, wv (case map_of m key of None \<Rightarrow> d | Some v \<Rightarrow> v)]) (sort (map fst m))
       = map (\<lambda>(k, v). seqW [w_str k, wv v]) (canon_map m)"
  by (auto simp: canon_map_def split: option.splits)
    (metis domIff dom_map_of_conv_image_fst image_eqI option.simps(3) fst_conv)+

lemma codes_string_list_map:
  assumes "writeStringListMap m = Inr b" and "scope_map_ok m"
  shows "codes readStringListMap b (canon_map m)"
proof -
  have d: "distinct (map fst m)" using assms(2) by (simp add: scope_map_ok_def)
  obtain b1 b2 where b1: "w_u32 (int (length m)) = Inr b1"
    and b2: "seqW (map (\<lambda>(k, v). seqW [w_str k, seqW (w_u32 (int (length v)) # map w_str v)])
      (canon_map m)) = Inr b2"
    and b: "b = b1 @ b2"
    using assms(1) write_canon [OF d, of "\<lambda>v. seqW (w_u32 (int (length v)) # map w_str v)" "[]"]
    by (auto simp: writeStringListMap_def Let_def writer_simps(2))
  have "codes (readEntries (bindR r_u32 (\<lambda>n. timesR (nat n) r_str)) (length (canon_map m)) None) b2
      (canon_map m)"
    using assms(2) canon_map_sorted [OF d] canon_map_set [OF d]
    by (intro wvalues.codes_entries [OF b2]) (auto simp: scope_map_ok_def list_all_iff)
  moreover have "codes r_u32 b1 (int (length m))" using b1 by (rule u32.codes) simp
  ultimately show ?thesis
    unfolding b readStringListMap_def by (intro codes_bind) auto
qed

lemma codes_string_map:
  assumes "writeStringMap m = Inr b" and "string_map_ok m"
  shows "codes readStringMap b (canon_map m)"
proof -
  have d: "distinct (map fst m)" using assms(2) by (simp add: string_map_ok_def)
  obtain b1 b2 where b1: "w_u32 (int (length m)) = Inr b1"
    and b2: "seqW (map (\<lambda>(k, v). seqW [w_str k, w_str v]) (canon_map m)) = Inr b2"
    and b: "b = b1 @ b2"
    using assms(1) write_canon [OF d, of w_str "[]"]
    by (auto simp: writeStringMap_def Let_def writer_simps(2))
  have "codes (readEntries r_str (length (canon_map m)) None) b2 (canon_map m)"
    using assms(2) canon_map_sorted [OF d] canon_map_set [OF d]
    by (intro wstr.codes_entries [OF b2]) (auto simp: string_map_ok_def list_all_iff)
  moreover have "codes r_u32 b1 (int (length m))" using b1 by (rule u32.codes) simp
  ultimately show ?thesis
    unfolding b readStringMap_def by (intro codes_bind) auto
qed

interpretation wscopes: codec writeStringListMap readStringListMap "\<lambda>m. scope_map_ok m \<and> canon_map m = m"
  by unfold_locales (metis codes_string_list_map)

interpretation wstrings: codec writeStringMap readStringMap "\<lambda>m. string_map_ok m \<and> canon_map m = m"
  by unfold_locales (metis codes_string_map)

lemmas map_steps [codes_steps] = wscopes.steps wstrings.steps

lemma readEntries_sorted:
  assumes "readEntries rd n prev bs = Inr (es, rest)"
  shows "sorted_wrt (<) (map fst es) \<and> length es = n
       \<and> (\<forall>p. prev = Some p \<longrightarrow> (\<forall>k \<in> fst ` set es. p < k))"
  using assms
proof (induction n arbitrary: prev bs es)
  case 0
  then show ?case by (simp add: reader_inv)
next
  case (Suc n)
  from Suc.prems obtain key v es' bs' where
      g: "\<not> (case prev of None \<Rightarrow> False | Some p \<Rightarrow> key \<le> p)"
    and r: "readEntries rd n (Some key) bs' = Inr (es', rest)" and es: "es = (key, v) # es'"
    by (auto simp: reader_inv split: if_splits)
  from Suc.IH [OF r] g es show ?case
    by (fastforce split: option.splits)
qed

section \<open>The growable buffer of \<open>ByteWriter\<close>\<close>

text \<open>
  \<open>while (capacity < needed) capacity *= 2\<close>. The capacity starts positive (256 here, 1024 in
  the stream scanner) and stays so, which is what makes the loop end.
\<close>

function grow_capacity :: "nat \<Rightarrow> nat \<Rightarrow> nat" where
  "grow_capacity capacity needed =
     (if 0 < capacity \<and> capacity < needed then grow_capacity (capacity * 2) needed else capacity)"
  by pat_completeness auto
termination
  by (relation "measure (\<lambda>(capacity, needed). needed - capacity)") auto

declare grow_capacity.simps [simp del]

lemma grow_capacity_ge: "0 < c \<Longrightarrow> n \<le> grow_capacity c n"
  by (induction c n rule: grow_capacity.induct) (subst grow_capacity.simps, auto)

lemma grow_capacity_mono: "c \<le> grow_capacity c n"
proof (induction c n rule: grow_capacity.induct)
  case (1 c n)
  then show ?case by (cases "0 < c \<and> c < n") (auto simp: grow_capacity.simps [of c n])
qed

record byte_writer =
  bw_buffer :: "byte list"
  bw_length :: nat

definition bw_new :: byte_writer where
  "bw_new = \<lparr>bw_buffer = replicate 256 0, bw_length = 0\<rparr>"

text \<open>\<open>#reserve\<close>: the grown buffer keeps the bytes before the offset and is zero elsewhere.\<close>

definition bw_reserve :: "byte_writer \<Rightarrow> nat \<Rightarrow> byte_writer \<times> nat" where
  "bw_reserve w extra =
     (let offset = bw_length w; needed = offset + extra in
      if needed > length (bw_buffer w) then
        (let capacity = grow_capacity (length (bw_buffer w)) needed in
         (\<lparr>bw_buffer = take offset (bw_buffer w) @ replicate (capacity - offset) 0,
           bw_length = needed\<rparr>, offset))
      else (w\<lparr>bw_length := needed\<rparr>, offset))"

definition bw_raw :: "byte_writer \<Rightarrow> byte list \<Rightarrow> byte_writer" where
  "bw_raw w value =
     (let (w', offset) = bw_reserve w (length value) in
      w'\<lparr>bw_buffer := take offset (bw_buffer w') @ value @ drop (offset + length value) (bw_buffer w')\<rparr>)"

definition bw_finish :: "byte_writer \<Rightarrow> byte list" where
  "bw_finish w = take (bw_length w) (bw_buffer w)"

definition bw_inv :: "byte_writer \<Rightarrow> bool" where
  "bw_inv w \<longleftrightarrow> bw_length w \<le> length (bw_buffer w) \<and> 0 < length (bw_buffer w)"

text \<open>
  What an append-only byte sink promises, and what follows for a sequence of writes.
\<close>

locale byte_sink =
  fixes fresh :: 's
    and put :: "'s \<Rightarrow> byte list \<Rightarrow> 's"
    and contents :: "'s \<Rightarrow> byte list"
    and inv :: "'s \<Rightarrow> bool"
  assumes inv_fresh: "inv fresh"
    and contents_fresh: "contents fresh = []"
    and inv_put: "inv s \<Longrightarrow> inv (put s bs)"
    and contents_put: "inv s \<Longrightarrow> contents (put s bs) = contents s @ bs"
begin

lemma contents_fold: "inv s \<Longrightarrow> contents (foldl put s chunks) = contents s @ concat chunks"
  by (induction chunks arbitrary: s) (auto simp: inv_put contents_put)

lemma contents_from_fresh: "contents (foldl put fresh chunks) = concat chunks"
  using contents_fold [OF inv_fresh] contents_fresh by simp

end

interpretation bw: byte_sink bw_new bw_raw bw_finish bw_inv
proof
  show "bw_inv bw_new" "bw_finish bw_new = []" by (simp_all add: bw_inv_def bw_new_def bw_finish_def)
next
  fix w and bs :: "byte list" assume i: "bw_inv w"
  let ?n = "bw_length w + length bs" and ?B = "length (bw_buffer w)"
  have g: "?n \<le> grow_capacity ?B ?n" "?B \<le> grow_capacity ?B ?n"
    using i by (auto simp: bw_inv_def grow_capacity_ge grow_capacity_mono)
  show "bw_inv (bw_raw w bs)"
    using i g by (auto simp: bw_raw_def bw_reserve_def bw_inv_def Let_def)
  show "bw_finish (bw_raw w bs) = bw_finish w @ bs"
    using i g by (auto simp: bw_raw_def bw_reserve_def bw_inv_def bw_finish_def Let_def)
qed

text \<open>Running a list of writes on the buffer, stopping at the first exception.\<close>

fun bw_run :: "byte_writer \<Rightarrow> writer list \<Rightarrow> byte_writer result" where
  "bw_run w [] = Inr w"
| "bw_run w (x # xs) = bindE x (\<lambda>b. bw_run (bw_raw w b) xs)"

lemma bw_run_seqW:
  "bw_inv w \<Longrightarrow> bindE (bw_run w ws) (\<lambda>w'. Inr (bw_finish w')) = bindE (seqW ws) (\<lambda>b. Inr (bw_finish w @ b))"
proof (induction ws arbitrary: w)
  case Nil
  then show ?case by (simp add: seqW_simps)
next
  case (Cons x xs)
  show ?case
  proof (cases x)
    case (Inl e)
    then show ?thesis by (simp add: seqW_simps)
  next
    case (Inr b)
    have "bw_inv (bw_raw w b)" using Cons.prems by (rule bw.inv_put)
    from Cons.IH [OF this] Inr show ?thesis
      by (cases "seqW xs") (simp_all add: seqW_simps bw.contents_put [OF Cons.prems])
  qed
qed

section \<open>Evaluation of writes\<close>

lemma le_bytes_eval:
  "le_bytes 1 v = [of_nat (v mod 256)]"
  "le_bytes 2 v = [of_nat (v mod 256), of_nat (v div 256 mod 256)]"
  "le_bytes 4 v = [of_nat (v mod 256), of_nat (v div 256 mod 256), of_nat (v div 65536 mod 256), of_nat (v div 16777216 mod 256)]"
proof -
  have 2: "le_bytes 2 v = le_bytes (Suc (Suc 0)) v" by (simp only: numeral_2_eq_2)
  have 4: "(4::nat) = Suc (Suc (Suc (Suc 0)))" by simp
  show "le_bytes 1 v = [of_nat (v mod 256)]" by simp
  show "le_bytes 2 v = [of_nat (v mod 256), of_nat (v div 256 mod 256)]" unfolding 2 by simp
  show "le_bytes 4 v = [of_nat (v mod 256), of_nat (v div 256 mod 256), of_nat (v div 65536 mod 256), of_nat (v div 16777216 mod 256)]"
    unfolding 4 by (simp add: div_mult2_eq [symmetric])
qed

lemmas writer_eval = seqW_simps w_u8_def w_u16_def w_u32_def w_i32_def w_i64_def w_bool_def w_raw_def w_str_def
  w_bytes_def w_opt_def le_bytes_eval to_twos_def max_safe_def text_encode_eval js_def

end
