(* ===== verification/Numbers.thy ===== *)
theory Numbers
  imports Bytes
begin

text \<open>
  JavaScript numbers as IEEE 754 binary64 patterns: \<open>Number.isSafeInteger\<close>, the conversions
  between safe integers and numbers that \<open>i64\<close> fields go through, the nearest-even reading of
  a decimal literal (\<open>JSON.parse\<close>) and \<open>Number.prototype.toString\<close>.
\<close>

type_synonym js_number = "64 word"

section \<open>Binary logarithm\<close>

fun ilog2 :: "nat \<Rightarrow> nat" where
  "ilog2 n = (if n \<le> 1 then 0 else Suc (ilog2 (n div 2)))"

declare ilog2.simps [simp del]

lemma ilog2_bounds: "0 < n \<Longrightarrow> 2 ^ ilog2 n \<le> n \<and> n < 2 ^ Suc (ilog2 n)"
proof (induction n rule: ilog2.induct)
  case (1 n)
  show ?case
  proof (cases "n \<le> 1")
    case True
    with 1 show ?thesis by (simp add: ilog2.simps [of n])
  next
    case False
    with 1 have "2 ^ ilog2 (n div 2) \<le> n div 2" "n div 2 < 2 ^ Suc (ilog2 (n div 2))" by auto
    then have "2 ^ Suc (ilog2 (n div 2)) \<le> n" "n < 2 ^ Suc (Suc (ilog2 (n div 2)))" by auto
    with False show ?thesis by (simp add: ilog2.simps [of n])
  qed
qed

lemma ilog2_unique:
  assumes "2 ^ k \<le> n" and "n < 2 ^ Suc k"
  shows "ilog2 n = k"
proof -
  have "0 < n" using assms(1) by (meson less_le_trans zero_less_numeral zero_less_power)
  then have b: "2 ^ ilog2 n \<le> n" "n < 2 ^ Suc (ilog2 n)" using ilog2_bounds by auto
  have "(2::nat) ^ ilog2 n < 2 ^ Suc k" using b(1) assms(2) by (rule le_less_trans)
  moreover have "(2::nat) ^ k < 2 ^ Suc (ilog2 n)" using assms(1) b(2) by (rule le_less_trans)
  ultimately show ?thesis by (simp add: power_strict_increasing_iff del: power_Suc)
qed

section \<open>Integers as numbers\<close>

definition double_to_int :: "js_number \<Rightarrow> int option" where
  "double_to_int x =
     (let n = unat x; e = n div 2 ^ 52 mod 2048; m = n mod 2 ^ 52;
          sg = (if n div 2 ^ 63 = 1 then - 1 else 1) in
      if e = 2047 then None
      else if e = 0 then (if m = 0 then Some 0 else None)
      else if 1075 \<le> e then Some (sg * int ((2 ^ 52 + m) * 2 ^ (e - 1075)))
      else if (2 ^ (1075 - e)) dvd (2 ^ 52 + m)
           then Some (sg * int ((2 ^ 52 + m) div 2 ^ (1075 - e))) else None)"

definition safe_int :: "js_number \<Rightarrow> int option" where
  "safe_int x = (case double_to_int x of
     None \<Rightarrow> None | Some n \<Rightarrow> if - max_safe \<le> n \<and> n \<le> max_safe then Some n else None)"

definition isSafeInteger :: "js_number \<Rightarrow> bool" where
  "isSafeInteger x \<longleftrightarrow> safe_int x \<noteq> None"

definition number_of_int :: "int \<Rightarrow> js_number" where
  "number_of_int n =
     (if n = 0 then 0
      else let a = nat \<bar>n\<bar>; k = ilog2 a in
           of_nat ((if n < 0 then 1 else 0) * 2 ^ 63 + (1023 + k) * 2 ^ 52 + (a * 2 ^ (52 - k) - 2 ^ 52)))"

definition negative_zero :: js_number where
  "negative_zero = 2 ^ 63"

lemma split_fields:
  assumes "s < 2" "e < 2048" "m < (2::nat) ^ 52"
  shows "(s * 2 ^ 63 + e * 2 ^ 52 + m) div 2 ^ 63 = s"
    "(s * 2 ^ 63 + e * 2 ^ 52 + m) div 2 ^ 52 mod 2048 = e"
    "(s * 2 ^ 63 + e * 2 ^ 52 + m) mod 2 ^ 52 = m"
    "s * 2 ^ 63 + e * 2 ^ 52 + m < 2 ^ 64"
proof -
  let ?n = "s * 2 ^ 63 + e * 2 ^ 52 + m"
  have n: "?n = (s * 2048 + e) * 2 ^ 52 + m" by simp
  have d: "?n div 2 ^ 52 = s * 2048 + e" unfolding n using assms(3) by simp
  show "?n mod 2 ^ 52 = m" unfolding n using assms(3) by (simp only: mod_mult_self3 mod_less)
  show "?n div 2 ^ 52 mod 2048 = e" unfolding d using assms(2) by simp
  have "?n div 2 ^ 63 = ?n div 2 ^ 52 div 2048" by (simp add: div_mult2_eq [symmetric])
  then show "?n div 2 ^ 63 = s" unfolding d using assms(2) by simp
  show "?n < 2 ^ 64" using assms by simp
qed

lemma join_fields:
  assumes "n < (2::nat) ^ 64"
  shows "n = n div 2 ^ 63 * 2 ^ 63 + n div 2 ^ 52 mod 2048 * 2 ^ 52 + n mod 2 ^ 52" "n div 2 ^ 63 < 2"
proof -
  define q where "q = n div 2 ^ 52"
  define r where "r = n mod 2 ^ 52"
  define a b where "a = q div 2048" and "b = q mod 2048"
  have d: "n div 2 ^ 63 = a" by (simp add: a_def q_def div_mult2_eq [symmetric])
  have "q = a * 2048 + b" unfolding a_def b_def by (rule div_mult_mod_eq [symmetric])
  moreover have "n = q * 2 ^ 52 + r" unfolding q_def r_def by (rule div_mult_mod_eq [symmetric])
  ultimately have "n = a * 2 ^ 63 + b * 2 ^ 52 + r" by simp
  then show "n = n div 2 ^ 63 * 2 ^ 63 + n div 2 ^ 52 mod 2048 * 2 ^ 52 + n mod 2 ^ 52"
    unfolding d q_def [symmetric] r_def [symmetric] b_def [symmetric] .
  show "n div 2 ^ 63 < 2" using assms by (simp add: less_mult_imp_div_less)
qed

lemma mantissa_bounds:
  fixes a :: nat
  assumes "2 ^ k \<le> a" "a < 2 ^ Suc k" "k \<le> 52"
  shows "2 ^ 52 \<le> a * 2 ^ (52 - k)" "a * 2 ^ (52 - k) < 2 ^ 53"
proof -
  have "2 ^ k * 2 ^ (52 - k) \<le> a * 2 ^ (52 - k)" using assms(1) by simp
  then show "2 ^ 52 \<le> a * 2 ^ (52 - k)" using assms(3) by (simp add: power_add [symmetric])
  have "a * 2 ^ (52 - k) < 2 ^ Suc k * 2 ^ (52 - k)" using assms(2) by simp
  then show "a * 2 ^ (52 - k) < 2 ^ 53" using assms(3) by (simp add: power_add [symmetric] del: power_Suc)
qed

lemma ilog2_safe: "0 < a \<Longrightarrow> a < 2 ^ 53 \<Longrightarrow> ilog2 a \<le> 52"
proof -
  assume "0 < a" "a < 2 ^ 53"
  then have "(2::nat) ^ ilog2 a < 2 ^ 53" using ilog2_bounds [of a] by (meson le_less_trans)
  then have "ilog2 a < 53" by (rule power_less_imp_less_exp [rotated]) simp
  then show ?thesis by simp
qed

lemma unat_number: "n < 2 ^ 64 \<Longrightarrow> unat (of_nat n :: js_number) = n"
  by (simp add: unat_of_nat take_bit_eq_mod)

lemma double_to_int_number_of_int:
  assumes "- max_safe \<le> n" "n \<le> max_safe"
  shows "double_to_int (number_of_int n) = Some n"
proof (cases "n = 0")
  case True
  then show ?thesis by (simp add: number_of_int_def double_to_int_def)
next
  case False
  define a s k m where "a = nat \<bar>n\<bar>" and "s = (if n < 0 then 1 else 0 :: nat)" and "k = ilog2 a"
    and "m = a * 2 ^ (52 - k) - 2 ^ 52"
  have a: "0 < a" "a < 2 ^ 53" using False assms by (auto simp: a_def max_safe_def)
  have k: "2 ^ k \<le> a" "a < 2 ^ Suc k" "k \<le> 52"
    using ilog2_bounds [OF a(1)] ilog2_safe [OF a] by (auto simp: k_def)
  have M: "2 ^ 52 + m = a * 2 ^ (52 - k)" "m < 2 ^ 52"
    using mantissa_bounds [OF k] by (auto simp: m_def)
  have s: "s < 2" by (simp add: s_def)
  have e: "1023 + k < 2048" using k by simp
  note f = split_fields [OF s e M(2)]
  have num: "number_of_int n = of_nat (s * 2 ^ 63 + (1023 + k) * 2 ^ 52 + m)"
    using False by (simp add: number_of_int_def a_def [symmetric] k_def [symmetric] m_def s_def)
  have u: "unat (number_of_int n) = s * 2 ^ 63 + (1023 + k) * 2 ^ 52 + m"
    unfolding num by (rule unat_number) (rule f(4))
  have sg: "(if s = 1 then - 1 else 1) * int a = n" using False by (simp add: s_def a_def)
  have "double_to_int (number_of_int n) = Some ((if s = 1 then - 1 else 1) * int a)"
  proof (cases "k = 52")
    case True
    with M(1) show ?thesis
      unfolding double_to_int_def u Let_def f(1,2,3) by simp
  next
    case False
    with k(3) have "\<not> 1075 \<le> 1023 + k" "1075 - (1023 + k) = 52 - k" by auto
    with k(3) show ?thesis
      unfolding double_to_int_def u Let_def f(1,2,3) M(1) by simp
  qed
  with sg show ?thesis by simp
qed

lemma safe_int_number_of_int: "- max_safe \<le> n \<Longrightarrow> n \<le> max_safe \<Longrightarrow> safe_int (number_of_int n) = Some n"
  by (simp add: safe_int_def double_to_int_number_of_int)

lemma safe_int_bounds: "safe_int x = Some n \<Longrightarrow> - max_safe \<le> n \<and> n \<le> max_safe"
  by (auto simp: safe_int_def split: option.splits if_splits)

text \<open>Apart from negative zero, a safe integer has one pattern.\<close>

lemma number_of_int_safe_int:
  assumes "safe_int x = Some n" and "x \<noteq> negative_zero"
  shows "number_of_int n = x"
proof -
  define s e m where "s = unat x div 2 ^ 63" and "e = unat x div 2 ^ 52 mod 2048"
    and "m = unat x mod 2 ^ 52"
  have "unat x < 2 ^ LENGTH(64)" by (rule unsigned_less)
  then have j: "unat x = s * 2 ^ 63 + e * 2 ^ 52 + m" and s: "s < 2"
    using join_fields [of "unat x"] by (simp_all add: s_def e_def m_def)
  have m: "m < 2 ^ 52" by (simp add: m_def)
  have b: "- max_safe \<le> n" "n \<le> max_safe" and d: "double_to_int x = Some n"
    using assms(1) by (auto simp: safe_int_def split: option.splits if_splits)
  have d': "(if e = 2047 then None
      else if e = 0 then (if m = 0 then Some 0 else None)
      else if 1075 \<le> e then Some ((if s = 1 then - 1 else 1) * int ((2 ^ 52 + m) * 2 ^ (e - 1075)))
      else if (2 ^ (1075 - e)) dvd (2 ^ 52 + m)
           then Some ((if s = 1 then - 1 else 1) * int ((2 ^ 52 + m) div 2 ^ (1075 - e))) else None) = Some n"
    using d unfolding double_to_int_def Let_def s_def e_def m_def .
  show ?thesis
  proof (cases "e = 0")
    case True
    with d' have "m = 0" "n = 0" by (auto split: if_splits)
    have "s = 0"
    proof (rule ccontr)
      assume "s \<noteq> 0"
      with s j True \<open>m = 0\<close> have "unat x = 2 ^ 63" by simp
      then have "of_nat (2 ^ 63) = x" by (rule of_nat_unat_eq)
      then show False using assms(2) by (simp add: negative_zero_def)
    qed
    with j True \<open>m = 0\<close> have "unat x = 0" by simp
    then have "of_nat 0 = x" by (rule of_nat_unat_eq)
    then show ?thesis using \<open>n = 0\<close> by (simp add: number_of_int_def)
  next
    case False
    have le: "e \<le> 1075"
    proof (rule ccontr)
      assume "\<not> e \<le> 1075"
      define X where "X = (2 ^ 52 + m) * 2 ^ (e - 1075)"
      have "2 ^ 52 * 2 ^ 1 \<le> X"
        unfolding X_def using \<open>\<not> e \<le> 1075\<close> by (intro mult_mono power_increasing) auto
      moreover have "n = (if s = 1 then - 1 else 1) * int X"
        using d' False \<open>\<not> e \<le> 1075\<close> unfolding X_def by (simp split: if_splits)
      ultimately show False using b by (simp add: max_safe_def split: if_splits)
    qed
    define t where "t = 1075 - e"
    have dv: "2 ^ t dvd (2 ^ 52 + m)" and n: "n = (if s = 1 then - 1 else 1) * int ((2 ^ 52 + m) div 2 ^ t)"
      using d' False le by (auto simp: t_def split: if_splits)
    define a where "a = (2 ^ 52 + m) div 2 ^ t"
    have M: "2 ^ 52 + m = a * 2 ^ t" using dv by (simp add: a_def)
    have t: "t \<le> 52"
    proof (rule ccontr)
      assume "\<not> t \<le> 52"
      then have "(2::nat) ^ 53 \<le> 2 ^ t" by (intro power_increasing) auto
      moreover have "2 ^ t \<le> 2 ^ 52 + m" using dv by (intro dvd_imp_le) auto
      ultimately show False using m by simp
    qed
    have lo: "2 ^ (52 - t) \<le> a"
    proof (rule ccontr)
      assume "\<not> 2 ^ (52 - t) \<le> a"
      then have "a * 2 ^ t < 2 ^ (52 - t) * 2 ^ t" by simp
      with M t show False by (simp add: power_add [symmetric])
    qed
    have hi: "a < 2 ^ Suc (52 - t)"
    proof (rule ccontr)
      assume "\<not> a < 2 ^ Suc (52 - t)"
      then have "2 ^ Suc (52 - t) * 2 ^ t \<le> a * 2 ^ t" by simp
      with M m t show False by (simp add: power_add [symmetric] del: power_Suc)
    qed
    have k: "ilog2 a = 52 - t" using lo hi by (rule ilog2_unique)
    have a0: "0 < a" using lo by (meson less_le_trans zero_less_numeral zero_less_power)
    have nz: "n \<noteq> 0" "nat \<bar>n\<bar> = a" "(if n < 0 then 1 else 0) = s"
      using n [folded a_def] a0 s by (auto split: if_splits)
    have f: "1023 + (52 - t) = e" "52 - (52 - t) = t" "a * 2 ^ t - 2 ^ 52 = m"
      using le t M by (auto simp: t_def)
    have "number_of_int n = of_nat (s * 2 ^ 63 + e * 2 ^ 52 + m)"
      using nz(1) unfolding number_of_int_def Let_def nz(2,3) k f by (simp only: if_False)
    also have "\<dots> = x" unfolding j [symmetric] by simp
    finally show ?thesis .
  qed
qed


section \<open>Decimal literals and their rendering\<close>

text \<open>\<open>round_half_even p q\<close> is the integer nearest to \<open>p / q\<close>, ties to even.\<close>

definition round_half_even :: "nat \<Rightarrow> nat \<Rightarrow> nat" where
  "round_half_even p q =
     (let d = p div q; r = p mod q in
      if 2 * r < q \<or> (2 * r = q \<and> even d) then d else d + 1)"

text \<open>The binary exponent of \<open>p / q\<close>: the \<open>k\<close> with \<open>2 ^ k \<le> p / q < 2 ^ (k + 1)\<close>.\<close>

definition ratio_exponent :: "nat \<Rightarrow> nat \<Rightarrow> int" where
  "ratio_exponent p q =
     (if q \<le> p then int (ilog2 (p div q)) else - int (Suc (ilog2 ((q - 1) div p))))"

text \<open>
  The number a decimal literal \<plusminus>\<open>d \<times> 10 ^ e\<close> denotes: rounded to nearest-even at the
  precision of its binade (at least the subnormal one), infinite past the largest finite
  number. Adding the rounded significand to the shifted exponent carries into the next
  binade by itself.
\<close>

definition decimal_to_number :: "bool \<Rightarrow> nat \<Rightarrow> int \<Rightarrow> js_number" where
  "decimal_to_number neg d e =
     (let p = d * 10 ^ nat e; q = 10 ^ nat (- e);
          k = max (ratio_exponent p q) (- 1022); u = k - 52;
          r = round_half_even (p * 2 ^ nat (- u)) (q * 2 ^ nat u);
          bits = (if d = 0 then 0 else min (2047 * 2 ^ 52) (nat (k + 1022) * 2 ^ 52 + r)) in
      of_nat ((if neg then 2 ^ 63 else 0) + bits))"

lemma decimal_to_number_int:
  assumes "a < 2 ^ 53"
  shows "decimal_to_number False a 0 = number_of_int (int a)"
proof (cases "a = 0")
  case True
  then show ?thesis by (simp add: decimal_to_number_def number_of_int_def)
next
  case False
  define k where "k = ilog2 a"
  have k: "2 ^ k \<le> a" "a < 2 ^ Suc k" "k \<le> 52"
    using ilog2_bounds [of a] ilog2_safe [OF _ assms] False by (auto simp: k_def)
  define M where "M = a * 2 ^ (52 - k)"
  have M: "2 ^ 52 \<le> M" "M < 2 ^ 53" using mantissa_bounds [OF k] by (auto simp: M_def)
  have pq: "a * 10 ^ nat 0 = a" "(10::nat) ^ nat (- 0) = 1" by simp_all
  have x: "max (ratio_exponent a 1) (- 1022) = int k" using False by (simp add: ratio_exponent_def k_def)
  have n: "nat (- (int k - 52)) = 52 - k" "nat (int k - 52) = 0" "nat (int k + 1022) = k + 1022"
    using k(3) by auto
  have r: "round_half_even M (1 * 2 ^ 0) = M" by (simp add: round_half_even_def)
  have l: "min (2047 * 2 ^ 52) ((k + 1022) * 2 ^ 52 + M) = (k + 1022) * 2 ^ 52 + M"
    using M(2) k(3) by (intro min_absorb2) simp
  have m: "(k + 1022) * 2 ^ 52 + M = 0 * 2 ^ 63 + (1023 + k) * 2 ^ 52 + (M - 2 ^ 52)" using M(1) by simp
  have "decimal_to_number False a 0 = of_nat ((k + 1022) * 2 ^ 52 + M)"
    using False unfolding decimal_to_number_def Let_def pq x n M_def [symmetric] r l
    by (simp only: if_False add_0)
  moreover have "number_of_int (int a) = of_nat (0 * 2 ^ 63 + (1023 + k) * 2 ^ 52 + (M - 2 ^ 52))"
    using False by (simp add: number_of_int_def k_def [symmetric] M_def [symmetric])
  ultimately show ?thesis unfolding m by (simp only:)
qed

fun nat_digits :: "nat \<Rightarrow> jsstring" where
  "nat_digits n = (if n < 10 then [of_nat (48 + n)] else nat_digits (n div 10) @ [of_nat (48 + n mod 10)])"

declare nat_digits.simps [simp del]

definition int_to_string :: "int \<Rightarrow> jsstring" where
  "int_to_string n = (if n < 0 then js ''-'' else []) @ nat_digits (nat \<bar>n\<bar>)"

text \<open>
  \<open>Number.prototype.toString\<close>. The safe integers render as their decimal digits. Any other
  finite number is written with the fewest significant digits \<open>k\<close> that read back as the same
  number, the closer candidate first (ECMAScript's \<open>Number::toString\<close>); \<open>num\<close> and \<open>den\<close> are
  the exact value as a fraction and \<open>n\<close> the position of its decimal point.
\<close>

definition decimal_exponent :: "nat \<Rightarrow> nat \<Rightarrow> int" where
  "decimal_exponent num den =
     (if den \<le> num then int (length (nat_digits (num div den)))
      else 1 - int (length (nat_digits ((den - 1) div num))))"

definition shortest_candidates :: "nat \<Rightarrow> nat \<Rightarrow> int \<Rightarrow> nat \<Rightarrow> nat list" where
  "shortest_candidates num den n k =
     (let j = n - int k; p = num * 10 ^ nat (- j); q = den * 10 ^ nat j;
          lo = p div q; s = round_half_even p q in
      [s, if s = lo then lo + 1 else lo])"

fun shortest_digits :: "js_number \<Rightarrow> nat \<Rightarrow> nat \<Rightarrow> int \<Rightarrow> nat list \<Rightarrow> (nat \<times> nat) option" where
  "shortest_digits x num den n [] = None"
| "shortest_digits x num den n (k # ks) =
     (case filter (\<lambda>s. 10 ^ (k - 1) \<le> s \<and> s < 10 ^ k \<and> decimal_to_number False s (n - int k) = x)
                  (shortest_candidates num den n k) of
        [] \<Rightarrow> shortest_digits x num den n ks
      | s # _ \<Rightarrow> Some (s, k))"

definition render_digits :: "nat \<Rightarrow> nat \<Rightarrow> int \<Rightarrow> jsstring" where
  "render_digits s k n =
     (let ds = nat_digits s in
      if int k \<le> n \<and> n \<le> 21 then ds @ replicate (nat n - k) (of_nat 48)
      else if 0 < n \<and> n \<le> 21 then take (nat n) ds @ js ''.'' @ drop (nat n) ds
      else if - 6 < n \<and> n \<le> 0 then js ''0.'' @ replicate (nat (- n)) (of_nat 48) @ ds
      else take 1 ds @ (if k = 1 then [] else js ''.'' @ drop 1 ds)
           @ js ''e'' @ (if n - 1 < 0 then js ''-'' else js ''+'') @ nat_digits (nat \<bar>n - 1\<bar>))"

definition number_to_string :: "js_number \<Rightarrow> jsstring" where
  "number_to_string x =
     (case safe_int x of
        Some n \<Rightarrow> int_to_string n
      | None \<Rightarrow>
          (let b = unat x; e = b div 2 ^ 52 mod 2048; m = b mod 2 ^ 52;
               sg = (if b div 2 ^ 63 = 1 then js ''-'' else []) in
           if e = 2047 then (if m = 0 then sg @ js ''Infinity'' else js ''NaN'')
           else
             (let sig = (if e = 0 then m else 2 ^ 52 + m); u = int (max e 1) - 1075;
                  num = sig * 2 ^ nat u; den = 2 ^ nat (- u); n = decimal_exponent num den in
              case shortest_digits (of_nat (b mod 2 ^ 63)) num den n [1..<18] of
                None \<Rightarrow> js ''NaN''
              | Some (s, k) \<Rightarrow> sg @ render_digits s k n)))"

lemma number_to_string_int:
  "- max_safe \<le> n \<Longrightarrow> n \<le> max_safe \<Longrightarrow> number_to_string (number_of_int n) = int_to_string n"
  by (simp add: number_to_string_def safe_int_number_of_int)

lemma nat_digits_nonempty [simp]: "nat_digits n \<noteq> []"
  by (subst nat_digits.simps) simp

lemma nat_digits_range: "d \<in> set (nat_digits n) \<Longrightarrow> 48 \<le> unat d \<and> unat d \<le> 57"
proof (induction n rule: nat_digits.induct)
  case (1 n)
  have u: "unat (of_nat (48 + k) :: code_unit) = 48 + k" if "k < 10" for k
    using that by (intro unat_of_nat_16) simp
  have "n mod 10 < 10" by simp
  with 1 u [of n] u [of "n mod 10"] show ?case
    by (subst (asm) nat_digits.simps) (auto split: if_splits simp del: of_nat_add)
qed

section \<open>Number texts are ASCII\<close>

lemma nat_digits_ascii: "list_all (\<lambda>u. unat u < 0x80) (nat_digits n)"
  using nat_digits_range [of _ n] by (fastforce simp: list_all_iff)

definition ascii :: "jsstring \<Rightarrow> bool" where
  "ascii s \<longleftrightarrow> list_all (\<lambda>u. unat u < 0x80) s"

lemma ascii_intros:
  "ascii a \<Longrightarrow> ascii b \<Longrightarrow> ascii (a @ b)" "ascii []" "ascii (nat_digits n)" "ascii a \<Longrightarrow> ascii (take k a)" "ascii a \<Longrightarrow> ascii (drop k a)"
  "ascii (replicate m (of_nat 48))" "ascii (js ''-'')" "ascii (js ''.'')" "ascii (js ''0.'')" "ascii (js ''e'')" "ascii (js ''+'')"
  "ascii (js ''Infinity'')" "ascii (js ''NaN'')"
  "ascii a \<Longrightarrow> ascii b \<Longrightarrow> ascii (if c then a else b)"
  "ascii a \<Longrightarrow> (\<And>z. ascii (f z)) \<Longrightarrow> ascii (case x of None \<Rightarrow> a | Some z \<Rightarrow> f z)"
  "(\<And>i j. ascii (g i j)) \<Longrightarrow> ascii (case y of (i, j) \<Rightarrow> g i j)"
  "(\<And>z. ascii (h z)) \<Longrightarrow> ascii a \<Longrightarrow> ascii (case x' of None \<Rightarrow> a | Some z \<Rightarrow> h z)"
  using nat_digits_ascii [of n]
  by (auto simp: ascii_def js_def list_all_iff dest: in_set_takeD in_set_dropD split: option.split prod.split)

lemma number_to_string_ascii: "ascii (number_to_string x)"
  unfolding number_to_string_def Let_def render_digits_def int_to_string_def by (intro ascii_intros)

end
