(* ===== verification/Json.thy ===== *)
theory Json
  imports Numbers
begin

text \<open>
  \<open>JSON.parse\<close> and \<open>JSON.stringify\<close> (ECMAScript), as far as the core package uses them: validity of
  opaque documents, the objects of \<open>blob-ref.ts\<close> and \<open>rejection-details.ts\<close>, canonical scope
  text. Parsing works on code units. An object keeps its members in insertion order; a
  repeated key keeps its first place and its last value.
\<close>

datatype json =
    JNull
  | JBool bool
  | JNumber js_number
  | JString jsstring
  | JArray "json list"
  | JObject "(jsstring \<times> json) list"

section \<open>Lexical parts\<close>

abbreviation quote_unit :: code_unit where "quote_unit \<equiv> 0x22"
abbreviation backslash_unit :: code_unit where "backslash_unit \<equiv> 0x5C"
abbreviation comma_unit :: code_unit where "comma_unit \<equiv> 0x2C"
abbreviation colon_unit :: code_unit where "colon_unit \<equiv> 0x3A"
abbreviation lbracket_unit :: code_unit where "lbracket_unit \<equiv> 0x5B"
abbreviation rbracket_unit :: code_unit where "rbracket_unit \<equiv> 0x5D"
abbreviation lbrace_unit :: code_unit where "lbrace_unit \<equiv> 0x7B"
abbreviation rbrace_unit :: code_unit where "rbrace_unit \<equiv> 0x7D"

definition is_ws :: "code_unit \<Rightarrow> bool" where
  "is_ws u \<longleftrightarrow> u = 0x20 \<or> u = 0x09 \<or> u = 0x0A \<or> u = 0x0D"

definition skip_ws :: "jsstring \<Rightarrow> jsstring" where
  "skip_ws s = dropWhile is_ws s"

definition is_digit :: "code_unit \<Rightarrow> bool" where
  "is_digit u \<longleftrightarrow> 48 \<le> unat u \<and> unat u \<le> 57"

definition hex_value :: "code_unit \<Rightarrow> nat option" where
  "hex_value u =
     (let n = unat u in
      if 48 \<le> n \<and> n \<le> 57 then Some (n - 48)
      else if 97 \<le> n \<and> n \<le> 102 then Some (n - 87)
      else if 65 \<le> n \<and> n \<le> 70 then Some (n - 55) else None)"

definition hex4 :: "code_unit \<Rightarrow> code_unit \<Rightarrow> code_unit \<Rightarrow> code_unit \<Rightarrow> code_unit option" where
  "hex4 a b c d =
     (case (hex_value a, hex_value b, hex_value c, hex_value d) of
        (Some w, Some x, Some y, Some z) \<Rightarrow> Some (of_nat (((w * 16 + x) * 16 + y) * 16 + z))
      | _ \<Rightarrow> None)"

definition escape_value :: "code_unit \<Rightarrow> code_unit option" where
  "escape_value e =
     (if e = 0x22 \<or> e = 0x5C \<or> e = 0x2F then Some e
      else if e = 0x62 then Some 0x08
      else if e = 0x66 then Some 0x0C
      else if e = 0x6E then Some 0x0A
      else if e = 0x72 then Some 0x0D
      else if e = 0x74 then Some 0x09
      else None)"

text \<open>A string from behind its opening quote.\<close>

fun parse_chars :: "jsstring \<Rightarrow> (jsstring \<times> jsstring) option" where
  "parse_chars [] = None"
| "parse_chars (u # us) =
     (if u = quote_unit then Some ([], us)
      else if u = backslash_unit then
        (case us of
           [] \<Rightarrow> None
         | e # es \<Rightarrow>
             if e = 0x75 then
               (case es of
                  a # b # c # d # r \<Rightarrow>
                    (case hex4 a b c d of
                       None \<Rightarrow> None
                     | Some v \<Rightarrow> map_option (\<lambda>(s, r'). (v # s, r')) (parse_chars r))
                | _ \<Rightarrow> None)
             else
               (case escape_value e of
                  None \<Rightarrow> None
                | Some v \<Rightarrow> map_option (\<lambda>(s, r). (v # s, r)) (parse_chars es)))
      else if unat u < 0x20 then None
      else map_option (\<lambda>(s, r). (u # s, r)) (parse_chars us))"

definition digits_value :: "jsstring \<Rightarrow> nat" where
  "digits_value ds = foldl (\<lambda>n d. n * 10 + (unat d - 48)) 0 ds"

definition take_digits :: "jsstring \<Rightarrow> jsstring \<times> jsstring" where
  "take_digits s = (takeWhile is_digit s, dropWhile is_digit s)"

definition parse_fraction :: "jsstring \<Rightarrow> (jsstring \<times> jsstring) option" where
  "parse_fraction s =
     (if take 1 s = js ''.'' then
        (let (ds, r) = take_digits (drop 1 s) in if ds = [] then None else Some (ds, r))
      else Some ([], s))"

definition parse_exponent :: "jsstring \<Rightarrow> (int \<times> jsstring) option" where
  "parse_exponent s =
     (if take 1 s = js ''e'' \<or> take 1 s = js ''E'' then
        (let t = drop 1 s;
             (neg, t') = (if take 1 t = js ''-'' then (True, drop 1 t)
                          else if take 1 t = js ''+'' then (False, drop 1 t) else (False, t));
             (ds, r) = take_digits t' in
         if ds = [] then None
         else Some (if neg then - int (digits_value ds) else int (digits_value ds), r))
      else Some (0, s))"

text \<open>An integer part has no superfluous leading zero.\<close>

definition parse_number :: "jsstring \<Rightarrow> (js_number \<times> jsstring) option" where
  "parse_number s =
     (let (neg, t) = (if take 1 s = js ''-'' then (True, drop 1 s) else (False, s));
          (ip, r) = (if take 1 t = js ''0'' then (js ''0'', drop 1 t) else take_digits t) in
      if ip = [] then None
      else case parse_fraction r of
             None \<Rightarrow> None
           | Some (fp, r2) \<Rightarrow>
               (case parse_exponent r2 of
                  None \<Rightarrow> None
                | Some (ex, r3) \<Rightarrow>
                    Some (decimal_to_number neg (digits_value (ip @ fp)) (ex - int (length fp)), r3)))"

definition parse_literal :: "string \<Rightarrow> json \<Rightarrow> jsstring \<Rightarrow> (json \<times> jsstring) option" where
  "parse_literal lit v s = (if take (length lit) s = js lit then Some (v, drop (length lit) s) else None)"

section \<open>Values\<close>

definition object_of_members :: "(jsstring \<times> json) list \<Rightarrow> (jsstring \<times> json) list" where
  "object_of_members ms = foldl (\<lambda>obj (k, v). AList.update k v obj) [] ms"

text \<open>The first argument bounds the recursion; \<open>fuel_value\<close> below shows how much is enough.\<close>

fun parse_value :: "nat \<Rightarrow> jsstring \<Rightarrow> (json \<times> jsstring) option"
  and parse_elements :: "nat \<Rightarrow> jsstring \<Rightarrow> (json list \<times> jsstring) option"
  and parse_members :: "nat \<Rightarrow> jsstring \<Rightarrow> ((jsstring \<times> json) list \<times> jsstring) option" where
  "parse_value 0 s = None"
| "parse_value (Suc n) s =
     (case skip_ws s of
        [] \<Rightarrow> None
      | u # us \<Rightarrow>
          if u = quote_unit then map_option (\<lambda>(str, r). (JString str, r)) (parse_chars us)
          else if u = lbracket_unit then
            (case skip_ws us of
               [] \<Rightarrow> None
             | v # vs \<Rightarrow> if v = rbracket_unit then Some (JArray [], vs)
                          else map_option (\<lambda>(es, r). (JArray es, r)) (parse_elements n us))
          else if u = lbrace_unit then
            (case skip_ws us of
               [] \<Rightarrow> None
             | v # vs \<Rightarrow> if v = rbrace_unit then Some (JObject [], vs)
                          else map_option (\<lambda>(ms, r). (JObject (object_of_members ms), r))
                                 (parse_members n us))
          else if u = 0x74 then parse_literal ''true'' (JBool True) (u # us)
          else if u = 0x66 then parse_literal ''false'' (JBool False) (u # us)
          else if u = 0x6E then parse_literal ''null'' JNull (u # us)
          else map_option (\<lambda>(x, r). (JNumber x, r)) (parse_number (u # us)))"
| "parse_elements 0 s = None"
| "parse_elements (Suc n) s =
     (case parse_value n s of
        None \<Rightarrow> None
      | Some (v, r) \<Rightarrow>
          (case skip_ws r of
             [] \<Rightarrow> None
           | u # us \<Rightarrow>
               if u = rbracket_unit then Some ([v], us)
               else if u = comma_unit then map_option (\<lambda>(vs, r'). (v # vs, r')) (parse_elements n us)
               else None))"
| "parse_members 0 s = None"
| "parse_members (Suc n) s =
     (case skip_ws s of
        [] \<Rightarrow> None
      | q # qs \<Rightarrow>
          if q \<noteq> quote_unit then None
          else case parse_chars qs of
             None \<Rightarrow> None
           | Some (k, r) \<Rightarrow>
               (case skip_ws r of
                  [] \<Rightarrow> None
                | c # cs \<Rightarrow>
                    if c \<noteq> colon_unit then None
                    else case parse_value n cs of
                       None \<Rightarrow> None
                     | Some (v, r2) \<Rightarrow>
                         (case skip_ws r2 of
                            [] \<Rightarrow> None
                          | u # us \<Rightarrow>
                              if u = rbrace_unit then Some ([(k, v)], us)
                              else if u = comma_unit
                                   then map_option (\<lambda>(ms, r'). ((k, v) # ms, r')) (parse_members n us)
                                   else None)))"

definition json_parse :: "jsstring \<Rightarrow> json option" where
  "json_parse s =
     (case parse_value (2 * length s + 1) s of
        None \<Rightarrow> None
      | Some (v, r) \<Rightarrow> if skip_ws r = [] then Some v else None)"

section \<open>Rendering\<close>

definition hex_digit :: "nat \<Rightarrow> code_unit" where
  "hex_digit n = of_nat (if n < 10 then 48 + n else 87 + n)"

definition unicode_escape :: "code_unit \<Rightarrow> jsstring" where
  "unicode_escape u =
     (let n = unat u in js [CHR 0x5C, CHR ''u''] @
      [hex_digit (n div 4096), hex_digit (n div 256 mod 16), hex_digit (n div 16 mod 16), hex_digit (n mod 16)])"

definition quote_one :: "code_unit \<Rightarrow> jsstring" where
  "quote_one u =
     (if u = 0x08 then [backslash_unit, 0x62]
      else if u = 0x09 then [backslash_unit, 0x74]
      else if u = 0x0A then [backslash_unit, 0x6E]
      else if u = 0x0C then [backslash_unit, 0x66]
      else if u = 0x0D then [backslash_unit, 0x72]
      else if u = quote_unit then [backslash_unit, quote_unit]
      else if u = backslash_unit then [backslash_unit, backslash_unit]
      else if unat u < 0x20 then unicode_escape u
      else [u])"

text \<open>Well-formed \<open>JSON.stringify\<close>: an unpaired surrogate is written as an escape.\<close>

fun quote_chars :: "jsstring \<Rightarrow> jsstring" where
  "quote_chars [] = []"
| "quote_chars (u # us) =
     (if is_high u then
        (case us of
           [] \<Rightarrow> unicode_escape u
         | v # vs \<Rightarrow> if is_low v then u # v # quote_chars vs else unicode_escape u @ quote_chars us)
      else if is_low u then unicode_escape u @ quote_chars us
      else quote_one u @ quote_chars us)"

definition quote_string :: "jsstring \<Rightarrow> jsstring" where
  "quote_string s = [quote_unit] @ quote_chars s @ [quote_unit]"

fun join_comma :: "jsstring list \<Rightarrow> jsstring" where
  "join_comma [] = []"
| "join_comma [x] = x"
| "join_comma (x # y # ys) = x @ [comma_unit] @ join_comma (y # ys)"

definition number_text :: "js_number \<Rightarrow> jsstring" where
  "number_text x = (if unat x div 2 ^ 52 mod 2048 = 2047 then js ''null'' else number_to_string x)"

fun json_stringify :: "json \<Rightarrow> jsstring" where
  "json_stringify JNull = js ''null''"
| "json_stringify (JBool b) = (if b then js ''true'' else js ''false'')"
| "json_stringify (JNumber x) = number_text x"
| "json_stringify (JString s) = quote_string s"
| "json_stringify (JArray vs) = [lbracket_unit] @ join_comma (map json_stringify vs) @ [rbracket_unit]"
| "json_stringify (JObject ms) =
     [lbrace_unit] @ join_comma (map (\<lambda>(k, v). quote_string k @ [colon_unit] @ json_stringify v) ms)
     @ [rbrace_unit]"


section \<open>Consumption and fuel\<close>

lemma length_skip_ws: "length (skip_ws s) \<le> length s"
  by (simp add: skip_ws_def length_dropWhile_le)

lemma parse_chars_shorter: "parse_chars s = Some (t, r) \<Longrightarrow> length r < length s"
proof (induction "length s" arbitrary: s t r rule: less_induct)
  case less
  have IH: "parse_chars s' = Some (t', r) \<Longrightarrow> length s' < length s \<longrightarrow> length r < length s'" for s' t'
    using less.hyps [of s' t' r] by simp
  show ?case
    using less.prems by (cases s) (auto split: if_splits list.splits option.splits dest!: IH)
qed

lemma take_digits_length: "take_digits s = (ds, r) \<Longrightarrow> length ds + length r = length s"
  by (auto simp: take_digits_def) (metis length_append takeWhile_dropWhile_id)

lemma parse_fraction_le: "parse_fraction s = Some (fp, r) \<Longrightarrow> length r \<le> length s"
  by (auto simp: parse_fraction_def Let_def split: if_splits prod.splits dest!: take_digits_length)

lemma parse_exponent_le: "parse_exponent s = Some (ex, r) \<Longrightarrow> length r \<le> length s"
  by (auto simp: parse_exponent_def Let_def split: if_splits prod.splits dest!: take_digits_length)

lemma parse_number_shorter:
  assumes "parse_number s = Some (x, r)"
  shows "length r < length s"
proof -
  define t where "t = (if take 1 s = js ''-'' then drop 1 s else s)"
  define q where "q = (if take 1 t = js ''0'' then (js ''0'', drop 1 t) else take_digits t)"
  from assms obtain fp r2 ex where ip: "fst q \<noteq> []" and f: "parse_fraction (snd q) = Some (fp, r2)"
    and e: "parse_exponent r2 = Some (ex, r)"
    by (auto simp: parse_number_def Let_def q_def t_def split: if_splits option.splits prod.splits)
  have "length (snd q) < length t"
    using ip take_digits_length [of t "fst (take_digits t)" "snd (take_digits t)"]
    by (cases t) (auto simp: q_def js_def split: if_splits simp flip: length_greater_0_conv)
  moreover have "length t \<le> length s" by (simp add: t_def)
  moreover have "length r2 \<le> length (snd q)" using f by (rule parse_fraction_le)
  moreover have "length r \<le> length r2" using e by (rule parse_exponent_le)
  ultimately show ?thesis by linarith
qed

lemma parse_literal_shorter: "parse_literal lit v s = Some (w, r) \<Longrightarrow> lit \<noteq> [] \<Longrightarrow> length r < length s"
  by (cases s) (auto simp: parse_literal_def js_def split: if_splits)

lemma parse_shorter:
  "parse_value n s = Some (v, r) \<Longrightarrow> length r < length s"
  "parse_elements n s = Some (vs, r2) \<Longrightarrow> length r2 < length s"
  "parse_members n s = Some (ms, r3) \<Longrightarrow> length r3 < length s"
proof (induction n s and n s and n s arbitrary: v r and vs r2 and ms r3
    rule: parse_value_parse_elements_parse_members.induct)
  case (2 n s)
  obtain u us where s: "skip_ws s = u # us" using "2.prems" by (cases "skip_ws s") auto
  have ls: "length us < length s" using length_skip_ws [of s] s by simp
  have lw: "skip_ws us = w # ws \<Longrightarrow> length ws < length s" for w ws
    using length_skip_ws [of us] ls by simp
  show ?case
    using "2.prems" ls lw s "2.IH"(1) [OF s] "2.IH"(2) [OF s] length_skip_ws [of s]
    by (auto split: if_splits list.splits dest!: parse_chars_shorter parse_literal_shorter
        parse_number_shorter) force+
next
  case (4 n s)
  obtain v r where v: "parse_value n s = Some (v, r)" using "4.prems" by (auto split: option.splits)
  obtain u us where u: "skip_ws r = u # us" using "4.prems" v by (cases "skip_ws r") auto
  have l: "length r < length s" using v by (rule "4.IH"(1))
  have "length us < length r" using length_skip_ws [of r] u by simp
  then show ?case
    using "4.prems" v u l "4.IH"(2) [OF v refl u] by (auto split: if_splits)
next
  case (6 n s)
  obtain q qs where q: "skip_ws s = q # qs" using "6.prems" by (cases "skip_ws s") auto
  obtain k r where k: "parse_chars qs = Some (k, r)" and qq: "q = quote_unit"
    using "6.prems" q by (auto split: option.splits if_splits)
  obtain c cs where c: "skip_ws r = c # cs" and cc: "c = colon_unit"
    using "6.prems" q k qq by (auto split: list.splits if_splits)
  obtain v r2 where v: "parse_value n cs = Some (v, r2)"
    using "6.prems" q k qq c cc by (auto split: option.splits)
  obtain u us where u: "skip_ws r2 = u # us"
    using "6.prems" q k qq c cc v by (auto split: list.splits)
  have "length cs < length s"
    using length_skip_ws [of s] q parse_chars_shorter [OF k] length_skip_ws [of r] c by simp
  moreover have "length r2 < length cs" using "6.IH"(1) [OF q _ k refl c _ v] qq cc by simp
  moreover have "length us < length r2" using length_skip_ws [of r2] u by simp
  ultimately show ?case
    using "6.prems" q k qq c cc v u "6.IH"(2) [OF q _ k refl c _ v refl u] by (auto split: if_splits)
qed simp_all


declare parse_value.simps [simp del] parse_elements.simps [simp del] parse_members.simps [simp del]

text \<open>
  Fuel: a value needs at most twice the length of its text plus one, a member or element
  list one more. More never changes the result, so the amount \<open>json_parse\<close> gives is enough.
\<close>

lemma fuel_step:
  "(\<forall>s. 2 * length s + 1 \<le> n \<longrightarrow> parse_value (Suc n) s = parse_value n s)
   \<and> (\<forall>s. 2 * length s + 2 \<le> n \<longrightarrow> parse_elements (Suc n) s = parse_elements n s)
   \<and> (\<forall>s. 2 * length s + 2 \<le> n \<longrightarrow> parse_members (Suc n) s = parse_members n s)"
proof (induction n)
  case 0
  show ?case by simp
next
  case (Suc n)
  note IH = Suc.IH [THEN conjunct1, rule_format] Suc.IH [THEN conjunct2, THEN conjunct1, rule_format]
    Suc.IH [THEN conjunct2, THEN conjunct2, rule_format]
  have V: "parse_value (Suc (Suc n)) s = parse_value (Suc n) s" if "2 * length s + 1 \<le> Suc n" for s
  proof (cases "skip_ws s")
    case (Cons u us)
    have "2 * length us + 2 \<le> n" using length_skip_ws [of s] Cons that by simp
    then have "parse_elements (Suc n) us = parse_elements n us" "parse_members (Suc n) us = parse_members n us"
      by (rule IH)+
    then show ?thesis
      unfolding parse_value.simps(2) [of "Suc n" s] parse_value.simps(2) [of n s] Cons by (simp split: list.splits)
  qed (simp add: parse_value.simps(2))
  have E: "parse_elements (Suc (Suc n)) s = parse_elements (Suc n) s" if "2 * length s + 2 \<le> Suc n" for s
  proof (cases "parse_value n s")
    case None
    then show ?thesis
      unfolding parse_elements.simps(2) [of "Suc n" s] parse_elements.simps(2) [of n s] using that by (simp add: IH(1))
  next
    case (Some p)
    obtain w r where p: "p = (w, r)" by (cases p)
    have v: "parse_value (Suc n) s = Some (w, r)" using IH(1) that Some p by simp
    have l: "length r < length s" using Some p by (auto dest: parse_shorter(1))
    show ?thesis
    proof (cases "skip_ws r")
      case Nil
      then show ?thesis
        unfolding parse_elements.simps(2) [of "Suc n" s] parse_elements.simps(2) [of n s] v Some p by simp
    next
      case (Cons u us)
      have "2 * length us + 2 \<le> n" using length_skip_ws [of r] Cons l that by simp
      then have "parse_elements (Suc n) us = parse_elements n us" by (rule IH)
      then show ?thesis
        unfolding parse_elements.simps(2) [of "Suc n" s] parse_elements.simps(2) [of n s] v Some p by (simp add: Cons)
    qed
  qed
  have M: "parse_members (Suc (Suc n)) s = parse_members (Suc n) s" if "2 * length s + 2 \<le> Suc n" for s
  proof -
    have v: "parse_value (Suc n) cs = parse_value n cs"
      if "skip_ws s = q # qs" "parse_chars qs = Some (k, r)" "skip_ws r = c # cs" for q qs k r c cs
      using that \<open>2 * length s + 2 \<le> Suc n\<close> length_skip_ws [of s] length_skip_ws [of r]
      by (intro IH) (auto dest!: parse_chars_shorter)
    have m: "parse_members (Suc n) us = parse_members n us"
      if "skip_ws s = q # qs" "parse_chars qs = Some (k, r)" "skip_ws r = c # cs"
        "parse_value n cs = Some (w, r2)" "skip_ws r2 = u # us" for q qs k r c cs w r2 u us
      using that \<open>2 * length s + 2 \<le> Suc n\<close> length_skip_ws [of s] length_skip_ws [of r] length_skip_ws [of r2]
      by (intro IH) (auto dest!: parse_chars_shorter parse_shorter(1))
    show ?thesis
      unfolding parse_members.simps(2) [of "Suc n" s] parse_members.simps(2) [of n s]
      by (auto split: list.splits option.splits simp: v m)
  qed
  show ?case using V E M by blast
qed

lemma fuel_value: "2 * length s + 1 \<le> n \<Longrightarrow> parse_value n s = parse_value (2 * length s + 1) s"
  by (induction n rule: nat_induct_at_least [of "2 * length s + 1"]) (use fuel_step in auto)


section \<open>Round trip of strings\<close>

lemma hex_value_digit: "n < 16 \<Longrightarrow> hex_value (hex_digit n) = Some n"
  by (simp add: hex_value_def hex_digit_def unat_of_nat_16 del: of_nat_add)

lemma hex_recompose: "((n div 4096 * 16 + n div 256 mod 16) * 16 + n div 16 mod 16) * 16 + n mod 16 = (n::nat)"
proof -
  have "n div 256 = n div 16 div 16" "n div 4096 = n div 256 div 16"
    by (simp_all add: div_mult2_eq [symmetric])
  then show ?thesis by (simp add: mult.commute)
qed

lemma hex4_escape:
  "hex4 (hex_digit (unat u div 4096)) (hex_digit (unat u div 256 mod 16))
     (hex_digit (unat u div 16 mod 16)) (hex_digit (unat u mod 16)) = Some u"
proof -
  have "unat u div 4096 < 16" using unat_lt_16 [of u] by simp
  then have h: "hex_value (hex_digit (unat u div 4096)) = Some (unat u div 4096)"
    "hex_value (hex_digit (unat u div 256 mod 16)) = Some (unat u div 256 mod 16)"
    "hex_value (hex_digit (unat u div 16 mod 16)) = Some (unat u div 16 mod 16)"
    "hex_value (hex_digit (unat u mod 16)) = Some (unat u mod 16)"
    by (simp_all add: hex_value_digit)
  show ?thesis unfolding hex4_def h prod.case option.case hex_recompose by simp
qed

lemma parse_unicode_escape:
  "parse_chars (unicode_escape u @ r) = map_option (\<lambda>(s, r'). (u # s, r')) (parse_chars r)"
  by (simp add: unicode_escape_def js_def Let_def hex4_escape)

lemma parse_quote_one:
  "parse_chars (quote_one u @ r) = map_option (\<lambda>(s, r'). (u # s, r')) (parse_chars r)"
  by (simp add: quote_one_def parse_unicode_escape escape_value_def)

lemma parse_surrogate:
  assumes "is_high u \<or> is_low u"
  shows "parse_chars (u # r) = map_option (\<lambda>(s, r'). (u # s, r')) (parse_chars r)"
  using assms by (auto simp: is_high_def is_low_def)

lemma parse_close_quote: "parse_chars (quote_unit # rest) = Some ([], rest)"
  by simp

lemma parse_quote_chars: "parse_chars (quote_chars s @ quote_unit # rest) = Some (s, rest)"
proof (induction s rule: quote_chars.induct)
  case (2 u us)
  then show ?case
    by (auto simp: parse_unicode_escape parse_quote_one parse_surrogate parse_close_quote
        split: list.splits simp del: parse_chars.simps(2))
qed simp

section \<open>Round trip of safe integers\<close>

lemma is_digit_nat_digits: "list_all is_digit (nat_digits n)"
  using nat_digits_range by (auto simp: list_all_iff is_digit_def)

lemma digits_value_snoc: "digits_value (ds @ [d]) = digits_value ds * 10 + (unat d - 48)"
  by (simp add: digits_value_def)

lemma unat_digit: "k < 10 \<Longrightarrow> unat (of_nat (48 + k) :: code_unit) = 48 + k"
  by (intro unat_of_nat_16) simp

lemma digits_value_nat_digits: "digits_value (nat_digits n) = n"
proof (induction n rule: nat_digits.induct)
  case (1 n)
  have "n mod 10 < 10" by simp
  with 1 show ?case
    by (subst nat_digits.simps) (auto simp: digits_value_snoc unat_digit digits_value_def simp del: of_nat_add)
qed

lemma hd_nat_digits: "0 < n \<Longrightarrow> hd (nat_digits n) \<noteq> of_nat 48"
proof (induction n rule: nat_digits.induct)
  case (1 n)
  show ?case
  proof (cases "n < 10")
    case True
    have "unat (of_nat (48 + n) :: code_unit) \<noteq> unat (of_nat 48 :: code_unit)"
      using unat_digit [of n] unat_digit [of 0] True "1.prems" by simp
    then show ?thesis using True by (subst nat_digits.simps) (auto simp del: of_nat_add)
  next
    case False
    then have "hd (nat_digits (n div 10)) \<noteq> of_nat 48" by (intro "1.IH") auto
    with False show ?thesis by (subst nat_digits.simps) simp
  qed
qed

definition delimited :: "jsstring \<Rightarrow> bool" where
  "delimited r \<longleftrightarrow> (case r of [] \<Rightarrow> True | u # _ \<Rightarrow> u = comma_unit \<or> u = rbracket_unit \<or> u = rbrace_unit)"

lemma delimited_not_digit: "delimited r \<Longrightarrow> takeWhile is_digit r = [] \<and> dropWhile is_digit r = r"
  by (cases r) (auto simp: delimited_def is_digit_def)

lemma take_digits_nat_digits: "delimited r \<Longrightarrow> take_digits (nat_digits n @ r) = (nat_digits n, r)"
  using is_digit_nat_digits [of n] delimited_not_digit [of r]
  by (simp add: take_digits_def takeWhile_append dropWhile_append list_all_iff)

lemma delimited_tail:
  assumes "delimited r"
  shows "parse_fraction r = Some ([], r)" "parse_exponent r = Some (0, r)"
  using assms by (cases r; auto simp: delimited_def parse_fraction_def parse_exponent_def js_def)+

lemma nat_digits_0: "nat_digits 0 = js ''0''"
  by (simp add: nat_digits.simps js_def)

lemma parse_nat_digits:
  assumes "delimited r" and "a < 2 ^ 53"
  shows "parse_number (nat_digits a @ r) = Some (number_of_int (int a), r)"
proof -
  obtain d ds where d: "nat_digits a = d # ds" by (cases "nat_digits a") auto
  have "is_digit d" using is_digit_nat_digits [of a] d by simp
  then have m: "take 1 (nat_digits a @ r) \<noteq> js ''-''" by (auto simp: d js_def is_digit_def)
  have i: "(if take 1 (nat_digits a @ r) = js ''0'' then (js ''0'', drop 1 (nat_digits a @ r))
      else take_digits (nat_digits a @ r)) = (nat_digits a, r)"
  proof (cases "a = 0")
    case True
    then show ?thesis by (simp add: nat_digits_0) (simp add: js_def)
  next
    case False
    then have "d \<noteq> 48" using hd_nat_digits [of a] d by simp
    then have "take 1 (nat_digits a @ r) \<noteq> js ''0''" by (simp add: d js_def)
    then show ?thesis using take_digits_nat_digits [OF assms(1)] by simp
  qed
  show ?thesis
    unfolding parse_number_def Let_def using m
    by (simp only: if_False i prod.case) (simp add: delimited_tail [OF assms(1)] digits_value_nat_digits
        decimal_to_number_int [OF assms(2)])
qed


section \<open>Round trip of documents\<close>

text \<open>
  The documents the core package renders: non-negative safe integers as numbers and objects
  without repeated keys.
\<close>

fun json_ok :: "json \<Rightarrow> bool" where
  "json_ok JNull \<longleftrightarrow> True"
| "json_ok (JBool b) \<longleftrightarrow> True"
| "json_ok (JNumber x) \<longleftrightarrow> x \<noteq> negative_zero \<and> (case safe_int x of None \<Rightarrow> False | Some n \<Rightarrow> 0 \<le> n)"
| "json_ok (JString s) \<longleftrightarrow> True"
| "json_ok (JArray vs) \<longleftrightarrow> list_all json_ok vs"
| "json_ok (JObject ms) \<longleftrightarrow> distinct (map fst ms) \<and> list_all (\<lambda>(k, v). json_ok v) ms"

lemma json_ok_number:
  assumes "json_ok (JNumber x)"
  obtains a where "a < 2 ^ 53" "x = number_of_int (int a)" "json_stringify (JNumber x) = nat_digits a"
proof -
  obtain n where n: "safe_int x = Some n" "0 \<le> n" and z: "x \<noteq> negative_zero"
    using assms by (auto split: option.splits)
  have x: "x = number_of_int n" using number_of_int_safe_int [OF n(1) z] by simp
  have b: "- max_safe \<le> n" "n \<le> max_safe" using safe_int_bounds [OF n(1)] by auto
  have "unat x div 2 ^ 52 mod 2048 \<noteq> 2047"
    using double_to_int_number_of_int [OF b] unfolding x double_to_int_def Let_def by (auto split: if_splits)
  then have "json_stringify (JNumber x) = nat_digits (nat n)"
    using n(2) b unfolding x by (simp add: number_text_def number_to_string_int int_to_string_def)
  moreover have "nat n < 2 ^ 53" using b(2) by (simp add: max_safe_def)
  ultimately show ?thesis using that [of "nat n"] n(2) x by simp
qed

lemma stringify_head:
  assumes "json_ok v"
  obtains u us where "json_stringify v = u # us" "\<not> is_ws u" "u \<noteq> rbracket_unit" "u \<noteq> rbrace_unit"
proof (cases v)
  case (JNumber x)
  then obtain a where a: "json_stringify v = nat_digits a" using assms by (metis json_ok_number)
  obtain d ds where d: "nat_digits a = d # ds" by (cases "nat_digits a") auto
  have "is_digit d" using is_digit_nat_digits [of a] d by simp
  then have "\<not> is_ws d" "d \<noteq> rbracket_unit" "d \<noteq> rbrace_unit" by (auto simp: is_digit_def is_ws_def)
  then show ?thesis using that [of d ds] a d by simp
next
  case (JBool b)
  then show ?thesis using that by (cases b) (auto simp: js_def is_ws_def)
qed (use that in \<open>auto simp: js_def quote_string_def is_ws_def split: if_splits\<close>)

lemma skip_ws_stringify: "json_ok v \<Longrightarrow> skip_ws (json_stringify v @ r) = json_stringify v @ r"
  by (erule stringify_head) (simp add: skip_ws_def)

lemma update_fresh: "k \<notin> fst ` set obj \<Longrightarrow> AList.update k v obj = obj @ [(k, v)]"
  by (induction obj) (auto split: if_splits)

lemma object_of_members_fold:
  "distinct (map fst (obj @ ms)) \<Longrightarrow> foldl (\<lambda>obj (k, v). AList.update k v obj) obj ms = obj @ ms"
proof (induction ms arbitrary: obj)
  case (Cons m ms)
  obtain k v where m: "m = (k, v)" by (cases m)
  have "AList.update k v obj = obj @ [(k, v)]" using Cons.prems m by (intro update_fresh) auto
  moreover have "distinct (map fst ((obj @ [(k, v)]) @ ms))" using Cons.prems m by simp
  ultimately show ?case using Cons.IH [of "obj @ [(k, v)]"] m by simp
qed simp

lemma object_of_members_distinct: "distinct (map fst ms) \<Longrightarrow> object_of_members ms = ms"
  using object_of_members_fold [of "[]" ms] by (simp add: object_of_members_def)

definition reparses :: "json \<Rightarrow> bool" where
  "reparses v \<longleftrightarrow> (\<forall>n r. delimited r \<longrightarrow> 2 * length (json_stringify v @ r) + 1 \<le> n \<longrightarrow>
     parse_value n (json_stringify v @ r) = Some (v, r))"

lemma reparsesD: "reparses v \<Longrightarrow> delimited r \<Longrightarrow> 2 * length (json_stringify v @ r) + 1 \<le> n \<Longrightarrow>
    parse_value n (json_stringify v @ r) = Some (v, r)"
  by (simp add: reparses_def)

lemma reparsesI:
  assumes "\<And>k r. delimited r \<Longrightarrow> parse_value (Suc k) (json_stringify v @ r) = Some (v, r)"
  shows "reparses v"
  unfolding reparses_def
proof (intro allI impI)
  fix n r assume "delimited r" and "2 * length (json_stringify v @ r) + 1 \<le> n"
  then show "parse_value n (json_stringify v @ r) = Some (v, r)" using assms by (cases n) auto
qed

lemma skip_ws_unit: "\<not> is_ws u \<Longrightarrow> skip_ws (u # us) = u # us"
  by (simp add: skip_ws_def)

lemma punctuation_not_ws [simp]:
  "\<not> is_ws comma_unit" "\<not> is_ws colon_unit" "\<not> is_ws rbracket_unit" "\<not> is_ws rbrace_unit"
  "\<not> is_ws lbracket_unit" "\<not> is_ws lbrace_unit" "\<not> is_ws quote_unit"
  by (simp_all add: is_ws_def)

lemma parse_elements_stringify:
  assumes "vs \<noteq> []" and "\<And>v. v \<in> set vs \<Longrightarrow> reparses v"
    and "2 * length (join_comma (map json_stringify vs) @ rbracket_unit # r) + 2 \<le> n"
  shows "parse_elements n (join_comma (map json_stringify vs) @ rbracket_unit # r) = Some (vs, r)"
  using assms
proof (induction vs arbitrary: n rule: induct_list012)
  case (2 v)
  obtain k where n: "n = Suc k" using "2.prems"(3) by (cases n) auto
  have "parse_value k (json_stringify v @ rbracket_unit # r) = Some (v, rbracket_unit # r)"
    using "2.prems" n by (intro reparsesD) (auto simp: delimited_def)
  then show ?case by (simp add: n parse_elements.simps(2) skip_ws_unit)
next
  case (3 v w ws)
  obtain k where n: "n = Suc k" using "3.prems"(3) by (cases n) auto
  let ?t = "join_comma (map json_stringify (w # ws)) @ rbracket_unit # r"
  have "parse_value k (json_stringify v @ comma_unit # ?t) = Some (v, comma_unit # ?t)"
    using "3.prems" n by (intro reparsesD) (auto simp: delimited_def)
  moreover have "parse_elements k ?t = Some (w # ws, r)"
    using "3.prems" n by (intro "3.IH"(2)) auto
  ultimately show ?case by (simp add: n parse_elements.simps(2) skip_ws_unit)
qed simp

lemma parse_members_stringify:
  assumes "ms \<noteq> []" and "\<And>k v. (k, v) \<in> set ms \<Longrightarrow> reparses v"
    and "2 * length (join_comma (map (\<lambda>(k, v). quote_string k @ [colon_unit] @ json_stringify v) ms)
           @ rbrace_unit # r) + 2 \<le> n"
  shows "parse_members n (join_comma (map (\<lambda>(k, v). quote_string k @ [colon_unit] @ json_stringify v) ms)
           @ rbrace_unit # r) = Some (ms, r)"
  using assms
proof (induction ms arbitrary: n rule: induct_list012)
  case (2 m)
  obtain k v where m: "m = (k, v)" by (cases m)
  obtain j where n: "n = Suc j" using "2.prems"(3) by (cases n) auto
  have "parse_value j (json_stringify v @ rbrace_unit # r) = Some (v, rbrace_unit # r)"
    using "2.prems" n m by (intro reparsesD) (auto simp: delimited_def)
  then show ?case
    by (simp add: n m parse_members.simps(2) skip_ws_unit quote_string_def parse_quote_chars
        del: parse_chars.simps)
next
  case (3 m m' ms)
  obtain k v where m: "m = (k, v)" by (cases m)
  obtain j where n: "n = Suc j" using "3.prems"(3) by (cases n) auto
  let ?t = "join_comma (map (\<lambda>(k, v). quote_string k @ [colon_unit] @ json_stringify v) (m' # ms))
           @ rbrace_unit # r"
  have "parse_value j (json_stringify v @ comma_unit # ?t) = Some (v, comma_unit # ?t)"
    using "3.prems" n m by (intro reparsesD) (auto simp: delimited_def)
  moreover have "parse_members j ?t = Some (m' # ms, r)"
    using "3.prems" n by (intro "3.IH"(2)) auto
  ultimately show ?case
    by (simp add: n m parse_members.simps(2) skip_ws_unit quote_string_def parse_quote_chars
        del: parse_chars.simps)
qed simp

lemma reparses_array:
  assumes "\<And>v. v \<in> set vs \<Longrightarrow> reparses v" and "list_all json_ok vs"
  shows "reparses (JArray vs)"
  unfolding reparses_def
proof (intro allI impI)
  fix n r assume "2 * length (json_stringify (JArray vs) @ r) + 1 \<le> n"
  then obtain k where n: "n = Suc k" and k: "2 * length (json_stringify (JArray vs) @ r) \<le> k"
    by (cases n) auto
  show "parse_value n (json_stringify (JArray vs) @ r) = Some (JArray vs, r)"
  proof (cases vs)
    case Nil
    then show ?thesis by (simp add: n parse_value.simps(2) skip_ws_unit)
  next
    case (Cons v ws)
    obtain u us where u: "json_stringify v = u # us" "\<not> is_ws u" "u \<noteq> rbracket_unit"
      using assms(2) Cons stringify_head [of v] by (metis list.pred_inject(2))
    obtain t where t: "join_comma (map json_stringify vs) @ rbracket_unit # r = u # t"
      using Cons u(1) by (cases ws) auto
    have "parse_elements k (join_comma (map json_stringify vs) @ rbracket_unit # r) = Some (vs, r)"
      using assms(1) Cons k by (intro parse_elements_stringify) auto
    then show ?thesis using u t by (simp add: n parse_value.simps(2) skip_ws_unit)
  qed
qed

lemma reparses_object:
  assumes "\<And>k v. (k, v) \<in> set ms \<Longrightarrow> reparses v" and "distinct (map fst ms)"
  shows "reparses (JObject ms)"
  unfolding reparses_def
proof (intro allI impI)
  fix n r assume "2 * length (json_stringify (JObject ms) @ r) + 1 \<le> n"
  then obtain k where n: "n = Suc k" and k: "2 * length (json_stringify (JObject ms) @ r) \<le> k"
    by (cases n) auto
  let ?t = "join_comma (map (\<lambda>(k, v). quote_string k @ [colon_unit] @ json_stringify v) ms) @ rbrace_unit # r"
  show "parse_value n (json_stringify (JObject ms) @ r) = Some (JObject ms, r)"
  proof (cases ms)
    case Nil
    then show ?thesis by (simp add: n parse_value.simps(2) skip_ws_unit)
  next
    case (Cons m ms')
    obtain t where t: "?t = quote_unit # t"
      using Cons by (cases m; cases ms') (auto simp: quote_string_def)
    have "parse_members k ?t = Some (ms, r)"
      using assms(1) Cons k by (intro parse_members_stringify) auto
    then show ?thesis
      using t assms(2) by (simp add: n parse_value.simps(2) skip_ws_unit object_of_members_distinct)
  qed
qed

lemma reparses_number:
  assumes "json_ok (JNumber x)"
  shows "reparses (JNumber x)"
  unfolding reparses_def
proof (intro allI impI)
  fix n r assume d: "delimited r" and "2 * length (json_stringify (JNumber x) @ r) + 1 \<le> n"
  then obtain k where n: "n = Suc k" by (cases n) auto
  obtain a where a: "a < 2 ^ 53" "x = number_of_int (int a)" "json_stringify (JNumber x) = nat_digits a"
    using assms by (rule json_ok_number)
  obtain c cs where c: "nat_digits a = c # cs" by (cases "nat_digits a") auto
  have "is_digit c" using is_digit_nat_digits [of a] c by simp
  then have "\<not> is_ws c" "c \<noteq> quote_unit" "c \<noteq> lbracket_unit" "c \<noteq> lbrace_unit" "c \<noteq> 0x74" "c \<noteq> 0x66" "c \<noteq> 0x6E"
    by (auto simp: is_digit_def is_ws_def)
  then show "parse_value n (json_stringify (JNumber x) @ r) = Some (JNumber x, r)"
    using parse_nat_digits [OF d a(1)] a(2) unfolding a(3) c
    by (simp add: n parse_value.simps(2) skip_ws_unit)
qed

lemma json_ok_reparses: "json_ok v \<Longrightarrow> reparses v"
proof (induction v rule: json_stringify.induct)
  case (3 x)
  then show ?case by (rule reparses_number)
next
  case (5 vs)
  then show ?case by (intro reparses_array) (auto simp: list_all_iff)
next
  case (6 ms)
  then show ?case by (intro reparses_object) (auto simp: list_all_iff)
qed (auto intro!: reparsesI simp: parse_value.simps(2) js_def skip_ws_def is_ws_def parse_literal_def
    quote_string_def parse_quote_chars simp del: parse_chars.simps)

lemma json_parse_stringify:
  assumes "json_ok v"
  shows "json_parse (json_stringify v) = Some v"
proof -
  have "parse_value (2 * length (json_stringify v) + 1) (json_stringify v @ []) = Some (v, [])"
    using json_ok_reparses [OF assms] by (rule reparsesD) (auto simp: delimited_def)
  then show ?thesis by (simp add: json_parse_def skip_ws_def)
qed

text \<open>The recursion bound of the parser never matters: any larger one gives the same result.\<close>

lemma json_fuel_enough:
  assumes "2 * length s + 1 \<le> n"
  shows "json_parse s = (case parse_value n s of
     None \<Rightarrow> None | Some (v, r) \<Rightarrow> if skip_ws r = [] then Some v else None)"
  using fuel_value [OF assms] by (simp add: json_parse_def)

end
