(* ===== verification/Blob_Ref.thy ===== *)
theory Blob_Ref
  imports Json
begin

text \<open>
  \<open>core/src/blob-ref.ts\<close>: the canonical JSON document a \<open>blob_ref\<close> column carries. The parser
  is the gate every stored reference passes, so the results here are that it accepts exactly
  what the serializer produces from a valid reference, up to the spelling of the JSON text.
\<close>

record BlobRef =
  br_blobId :: jsstring
  br_byteLength :: js_number
  br_mediaType :: "jsstring option"
  br_name :: "jsstring option"

definition CANONICAL_KEYS :: "jsstring list" where
  "CANONICAL_KEYS = map js [''blobId'', ''byteLength'', ''mediaType'', ''name'']"

definition is_lower_hex :: "code_unit \<Rightarrow> bool" where
  "is_lower_hex u \<longleftrightarrow> (48 \<le> unat u \<and> unat u \<le> 57) \<or> (97 \<le> unat u \<and> unat u \<le> 102)"

text \<open>The regular expression \<open>^sha256:[0-9a-f]{64}$\<close>.\<close>

definition BLOB_ID_RE :: "jsstring \<Rightarrow> bool" where
  "BLOB_ID_RE s \<longleftrightarrow> take 7 s = js ''sha256:'' \<and> length (drop 7 s) = 64 \<and> list_all is_lower_hex (drop 7 s)"

text \<open>A member that is absent or, when present, a string.\<close>

definition optional_string :: "json option \<Rightarrow> jsstring option result" where
  "optional_string v =
     (case v of None \<Rightarrow> Inr None | Some (JString s) \<Rightarrow> Inr (Some s) | Some _ \<Rightarrow> Inl invalid_request)"

definition parseBlobRef :: "jsstring \<Rightarrow> BlobRef result" where
  "parseBlobRef raw =
     (case json_parse raw of
        Some (JObject obj) \<Rightarrow>
          if list_ex (\<lambda>key. key \<notin> set CANONICAL_KEYS) (map fst obj) then Inl invalid_request
          else case map_of obj (js ''blobId'') of
            Some (JString blobId) \<Rightarrow>
              if \<not> BLOB_ID_RE blobId then Inl invalid_request
              else (case map_of obj (js ''byteLength'') of
                 Some (JNumber byteLength) \<Rightarrow>
                   (case safe_int byteLength of
                      None \<Rightarrow> Inl invalid_request
                    | Some n \<Rightarrow>
                        if n < 0 then Inl invalid_request
                        else bindE (optional_string (map_of obj (js ''mediaType''))) (\<lambda>mediaType.
                          bindE (optional_string (map_of obj (js ''name''))) (\<lambda>name.
                            let presentInOrder = map fst obj;
                                expectedOrder = filter (\<lambda>k. k \<in> set (map fst obj)) CANONICAL_KEYS in
                            if join_comma presentInOrder \<noteq> join_comma expectedOrder then Inl invalid_request
                            else Inr \<lparr>br_blobId = blobId, br_byteLength = byteLength,
                                      br_mediaType = mediaType, br_name = name\<rparr>)))
               | _ \<Rightarrow> Inl invalid_request)
          | _ \<Rightarrow> Inl invalid_request
      | _ \<Rightarrow> Inl invalid_request)"

definition blob_ref_json :: "BlobRef \<Rightarrow> (jsstring \<times> json) list" where
  "blob_ref_json ref =
     [(js ''blobId'', JString (br_blobId ref)), (js ''byteLength'', JNumber (br_byteLength ref))]
     @ (case br_mediaType ref of None \<Rightarrow> [] | Some m \<Rightarrow> [(js ''mediaType'', JString m)])
     @ (case br_name ref of None \<Rightarrow> [] | Some n \<Rightarrow> [(js ''name'', JString n)])"

definition serializeBlobRef :: "BlobRef \<Rightarrow> jsstring" where
  "serializeBlobRef ref = json_stringify (JObject (blob_ref_json ref))"

definition isBlobRef :: "jsstring \<Rightarrow> bool" where
  "isBlobRef raw = (case parseBlobRef raw of Inl e \<Rightarrow> False | Inr ref \<Rightarrow> True)"

section \<open>Valid references\<close>

definition blob_ref_valid :: "BlobRef \<Rightarrow> bool" where
  "blob_ref_valid ref \<longleftrightarrow> BLOB_ID_RE (br_blobId ref)
     \<and> (case safe_int (br_byteLength ref) of None \<Rightarrow> False | Some n \<Rightarrow> 0 \<le> n)"

lemma js_eq_iff: "js s = js t \<longleftrightarrow> s = t"
proof
  assume "js s = js t"
  moreover have "inj (of_char :: char \<Rightarrow> code_unit)"
  proof (rule injI)
    fix a b :: char assume "(of_char a :: code_unit) = of_char b"
    then have "(of_nat (of_char a) :: code_unit) = of_nat (of_char b)" by (simp only: of_nat_of_char)
    then have "unat (of_nat (of_char a) :: code_unit) = unat (of_nat (of_char b) :: code_unit)" by simp
    moreover have "(of_char c :: nat) < 0x10000" for c :: char
      using nat_of_char_less_256 [of c] by linarith
    ultimately have "(of_char a :: nat) = of_char b" by (simp add: unat_of_nat_16 del: of_nat_of_char)
    then show "a = b" by simp
  qed
  ultimately show "s = t" unfolding js_def by (simp add: inj_map_eq_map)
qed simp

lemma parseBlobRef_valid: "parseBlobRef raw = Inr ref \<Longrightarrow> blob_ref_valid ref"
  unfolding parseBlobRef_def blob_ref_valid_def
  by (auto simp: bindE_eq_Inr Let_def split: option.splits json.splits if_splits)

lemma parseBlobRef_error: "parseBlobRef raw = Inl e \<Longrightarrow> e = invalid_request"
  unfolding parseBlobRef_def optional_string_def
  by (auto simp: bindE_eq_Inl Let_def split: option.splits json.splits if_splits)

lemma parse_serialize:
  assumes "blob_ref_valid ref" and "br_byteLength ref \<noteq> negative_zero"
  shows "parseBlobRef (serializeBlobRef ref) = Inr ref"
proof -
  have "json_ok (JObject (blob_ref_json ref))"
    using assms by (auto simp: blob_ref_json_def blob_ref_valid_def js_eq_iff split: option.splits)
  then have p: "json_parse (serializeBlobRef ref) = Some (JObject (blob_ref_json ref))"
    unfolding serializeBlobRef_def by (rule json_parse_stringify)
  obtain n where n: "safe_int (br_byteLength ref) = Some n" "\<not> n < 0"
    using assms(1) by (auto simp: blob_ref_valid_def split: option.splits)
  have b: "BLOB_ID_RE (br_blobId ref)" using assms(1) by (simp add: blob_ref_valid_def)
  show ?thesis
    unfolding parseBlobRef_def p
    using n b by (cases "br_mediaType ref"; cases "br_name ref"; cases ref)
      (simp_all add: blob_ref_json_def CANONICAL_KEYS_def optional_string_def js_eq_iff Let_def)
qed

end
