(* ===== verification/Row_Codec.thy ===== *)
theory Row_Codec
  imports Blob_Ref
begin

unbundle bit_operations_syntax

text \<open>
  \<open>core/src/row-codec.ts\<close>: a row is a null bitmap and its non-null values in column order. A
  number value is its IEEE pattern, so that \<open>float\<close> columns carry every double and \<open>integer\<close>
  columns exactly those the source admits.
\<close>

datatype ColumnType = TString | TInteger | TFloat | TBoolean | TJson | TBytes | TBlobRef | TCrdt

record RowColumn =
  rc_name :: jsstring
  rc_type :: ColumnType
  rc_nullable :: bool
  rc_crdtType :: "jsstring option"
  rc_encrypted :: "bool option"
  rc_declaredType :: "ColumnType option"

datatype RowValue =
    VNull
  | VString jsstring
  | VNumber js_number
  | VBool bool
  | VBytes "byte list"

fun columnTypeTag :: "ColumnType \<Rightarrow> int" where
  "columnTypeTag TString = 1"
| "columnTypeTag TInteger = 2"
| "columnTypeTag TFloat = 3"
| "columnTypeTag TBoolean = 4"
| "columnTypeTag TJson = 5"
| "columnTypeTag TBytes = 6"
| "columnTypeTag TBlobRef = 7"
| "columnTypeTag TCrdt = 8"

definition all_column_types :: "ColumnType list" where
  "all_column_types = [TString, TInteger, TFloat, TBoolean, TJson, TBytes, TBlobRef, TCrdt]"

definition columnTypeFromTag :: "int \<Rightarrow> ColumnType result" where
  "columnTypeFromTag tag =
     (case map_of (map (\<lambda>t. (columnTypeTag t, t)) all_column_types) tag of
        None \<Rightarrow> Inl invalid_request
      | Some t \<Rightarrow> Inr t)"

definition writeValue :: "RowColumn \<Rightarrow> RowValue \<Rightarrow> writer" where
  "writeValue column value =
     (case rc_type column of
        TString \<Rightarrow> (case value of VString s \<Rightarrow> w_str s | _ \<Rightarrow> Inl PlainError)
      | TJson \<Rightarrow> (case value of VString s \<Rightarrow> w_str s | _ \<Rightarrow> Inl PlainError)
      | TBlobRef \<Rightarrow> (case value of VString s \<Rightarrow> w_str s | _ \<Rightarrow> Inl PlainError)
      | TInteger \<Rightarrow> (case value of
          VNumber x \<Rightarrow> (case safe_int x of None \<Rightarrow> Inl PlainError | Some n \<Rightarrow> w_i64 n)
        | _ \<Rightarrow> Inl PlainError)
      | TFloat \<Rightarrow> (case value of VNumber x \<Rightarrow> w_f64 x | _ \<Rightarrow> Inl PlainError)
      | TBoolean \<Rightarrow> (case value of VBool b \<Rightarrow> w_bool b | _ \<Rightarrow> Inl PlainError)
      | TBytes \<Rightarrow> (case value of VBytes bs \<Rightarrow> w_bytes bs | _ \<Rightarrow> Inl PlainError)
      | TCrdt \<Rightarrow> (case value of VBytes bs \<Rightarrow> w_bytes bs | _ \<Rightarrow> Inl PlainError))"

definition readValue :: "RowColumn \<Rightarrow> RowValue reader" where
  "readValue column =
     (case rc_type column of
        TString \<Rightarrow> bindR r_str (\<lambda>s. returnR (VString s))
      | TJson \<Rightarrow> bindR r_str (\<lambda>raw. case json_parse raw of
          None \<Rightarrow> failR invalid_request | Some _ \<Rightarrow> returnR (VString raw))
      | TBlobRef \<Rightarrow> bindR r_str (\<lambda>raw. case parseBlobRef raw of
          Inl e \<Rightarrow> failR e | Inr _ \<Rightarrow> returnR (VString raw))
      | TInteger \<Rightarrow> bindR r_i64 (\<lambda>n. returnR (VNumber (number_of_int n)))
      | TFloat \<Rightarrow> bindR r_f64 (\<lambda>x. returnR (VNumber x))
      | TBoolean \<Rightarrow> bindR r_bool (\<lambda>b. returnR (VBool b))
      | TBytes \<Rightarrow> bindR r_bytes (\<lambda>bs. returnR (VBytes bs))
      | TCrdt \<Rightarrow> bindR r_bytes (\<lambda>bs. returnR (VBytes bs)))"

text \<open>\<open>Math.ceil(columns.length / 8)\<close>\<close>

definition bitmapLength :: "nat \<Rightarrow> nat" where
  "bitmapLength n = (n + 7) div 8"

text \<open>The loop that fills the bitmap; \<open>i\<close> is the column index.\<close>

fun fillBitmap :: "RowColumn list \<Rightarrow> RowValue list \<Rightarrow> nat \<Rightarrow> byte list \<Rightarrow> byte list result" where
  "fillBitmap (c # cs) (v # vs) i bitmap =
     (if v = VNull then
        (if \<not> rc_nullable c then Inl PlainError
         else fillBitmap cs vs (Suc i)
                (bitmap[i div 8 := (bitmap ! (i div 8)) OR push_bit (i mod 8) 1]))
      else fillBitmap cs vs (Suc i) bitmap)"
| "fillBitmap _ _ i bitmap = Inr bitmap"

definition writeRow :: "RowColumn list \<Rightarrow> RowValue list \<Rightarrow> writer" where
  "writeRow columns vals =
     (if length vals \<noteq> length columns then Inl PlainError
      else bindE (fillBitmap columns vals 0 (replicate (bitmapLength (length columns)) 0)) (\<lambda>bitmap.
        seqW (w_raw bitmap #
          map (\<lambda>(column, value). if value = VNull then Inr [] else writeValue column value)
            (zip columns vals))))"

definition nullBit :: "byte list \<Rightarrow> nat \<Rightarrow> bool" where
  "nullBit bitmap i \<longleftrightarrow>
     drop_bit (i mod 8) (if i div 8 < length bitmap then bitmap ! (i div 8) else 0) AND 1 \<noteq> 0"

fun readValues :: "byte list \<Rightarrow> RowColumn list \<Rightarrow> nat \<Rightarrow> RowValue list reader" where
  "readValues bitmap [] i = returnR []"
| "readValues bitmap (column # cs) i =
     (if nullBit bitmap i then
        (if \<not> rc_nullable column then failR invalid_request
         else bindR (readValues bitmap cs (Suc i)) (\<lambda>vs. returnR (VNull # vs)))
      else bindR (readValue column) (\<lambda>v. bindR (readValues bitmap cs (Suc i)) (\<lambda>vs. returnR (v # vs))))"

definition readRow :: "RowColumn list \<Rightarrow> RowValue list reader" where
  "readRow columns = bindR (r_raw (bitmapLength (length columns))) (\<lambda>bitmap.
     if list_ex (nullBit bitmap) [length columns..<bitmapLength (length columns) * 8]
     then failR invalid_request
     else readValues bitmap columns 0)"

definition encodeRow :: "RowColumn list \<Rightarrow> RowValue list \<Rightarrow> writer" where
  "encodeRow columns vals = writeRow columns vals"

definition decodeRow :: "RowColumn list \<Rightarrow> byte list \<Rightarrow> RowValue list result" where
  "decodeRow columns bytes =
     bindE (readRow columns bytes) (\<lambda>(vals, rest).
       bindE (expectFullyConsumed rest) (\<lambda>_. Inr vals))"

section \<open>Values a column can carry\<close>

text \<open>
  What the decoder demands beyond the encoder's own checks: strings without lone surrogates
  or a leading byte order mark, documents that parse, and integers other than \<open>-0\<close>.
\<close>

definition value_ok :: "RowColumn \<Rightarrow> RowValue \<Rightarrow> bool" where
  "value_ok column value =
     (case value of
        VString s \<Rightarrow> str_ok s \<and> (rc_type column = TJson \<longrightarrow> json_parse s \<noteq> None)
                            \<and> (rc_type column = TBlobRef \<longrightarrow> isBlobRef s)
      | VNumber x \<Rightarrow> rc_type column = TInteger \<longrightarrow> x \<noteq> negative_zero
      | _ \<Rightarrow> True)"

definition row_ok :: "RowColumn list \<Rightarrow> RowValue list \<Rightarrow> bool" where
  "row_ok columns vals \<longleftrightarrow> list_all2 value_ok columns vals"

lemma columnTypeFromTag_tag: "columnTypeFromTag (columnTypeTag t) = Inr t"
  by (cases t) (simp_all add: columnTypeFromTag_def all_column_types_def)

lemma columnTypeFromTag_Inr: "columnTypeFromTag n = Inr t \<Longrightarrow> n = columnTypeTag t"
  by (auto simp: columnTypeFromTag_def all_column_types_def split: if_splits option.splits)

lemma codes_value:
  assumes "writeValue column value = Inr b" and "value_ok column value"
  shows "codes (readValue column) b value"
proof (cases "rc_type column")
  case TInteger
  then obtain x n where x: "value = VNumber x" "safe_int x = Some n" "w_i64 n = Inr b"
    using assms(1) by (auto simp: writeValue_def split: RowValue.splits option.splits)
  moreover have "number_of_int n = x"
    using x(1,2) assms(2) TInteger by (intro number_of_int_safe_int) (auto simp: value_ok_def)
  ultimately show ?thesis
    using TInteger i64.codes [OF x(3)] by (auto simp: readValue_def intro!: codes_bind_end codes_return)
qed (use assms in \<open>auto simp: writeValue_def readValue_def value_ok_def isBlobRef_def
      split: RowValue.splits option.splits sum.splits
      intro!: codes_bind_end codes_return intro: prim_codes\<close>)

section \<open>The null bitmap\<close>

lemma nullBit_bit: "nullBit bitmap i \<longleftrightarrow> i div 8 < length bitmap \<and> bit (bitmap ! (i div 8)) (i mod 8)"
  by (auto simp: nullBit_def and_one_eq bit_iff_odd_drop_bit odd_iff_mod_2_eq_one)

definition setNull :: "byte list \<Rightarrow> nat \<Rightarrow> byte list" where
  "setNull bitmap i = bitmap[i div 8 := (bitmap ! (i div 8)) OR push_bit (i mod 8) 1]"

lemma length_setNull [simp]: "length (setNull bitmap i) = length bitmap"
  by (simp add: setNull_def)

lemma bit_single: "n < 8 \<Longrightarrow> bit (2 ^ n :: byte) m \<longleftrightarrow> m = n"
  by (auto simp: bit_exp_iff)

lemma nullBit_setNull:
  assumes "i div 8 < length bitmap"
  shows "nullBit (setNull bitmap i) j \<longleftrightarrow> j = i \<or> nullBit bitmap j"
proof (cases "j div 8 = i div 8")
  case True
  then have "j mod 8 = i mod 8 \<longleftrightarrow> j = i" by (metis div_mult_mod_eq)
  then show ?thesis
    using True assms by (simp add: nullBit_bit setNull_def bit_or_iff bit_single) blast
next
  case False
  then show ?thesis using assms by (auto simp: nullBit_bit setNull_def)
qed

lemma fillBitmap_spec:
  assumes "fillBitmap cs vs i bitmap = Inr bm" and "length vs = length cs"
    and "i + length cs \<le> 8 * length bitmap"
  shows "length bm = length bitmap
    \<and> (\<forall>j. nullBit bm j \<longleftrightarrow> nullBit bitmap j \<or> i \<le> j \<and> j < i + length cs \<and> vs ! (j - i) = VNull)
    \<and> list_all2 (\<lambda>c v. v = VNull \<longrightarrow> rc_nullable c) cs vs"
  using assms
proof (induction cs vs i bitmap rule: fillBitmap.induct)
  case (1 c cs v vs i bitmap)
  have d: "i div 8 < length bitmap" using "1.prems"(3) by auto
  have shift: "(i \<le> j \<and> j < i + length (c # cs) \<and> (v # vs) ! (j - i) = VNull)
      \<longleftrightarrow> (j = i \<and> v = VNull) \<or> (Suc i \<le> j \<and> j < Suc i + length cs \<and> vs ! (j - Suc i) = VNull)" for j
    by (cases "j = i") (auto simp: nth_Cons' Suc_le_eq)
  show ?case
  proof (cases "v = VNull")
    case True
    then have n: "rc_nullable c" and f: "fillBitmap cs vs (Suc i) (setNull bitmap i) = Inr bm"
      using "1.prems"(1) by (auto simp: setNull_def split: if_splits)
    have "length bm = length (setNull bitmap i)
      \<and> (\<forall>j. nullBit bm j \<longleftrightarrow> nullBit (setNull bitmap i) j \<or> Suc i \<le> j \<and> j < Suc i + length cs \<and> vs ! (j - Suc i) = VNull)
      \<and> list_all2 (\<lambda>c v. v = VNull \<longrightarrow> rc_nullable c) cs vs"
      using "1.IH"(1) True n f "1.prems" by (simp add: setNull_def)
    then show ?thesis unfolding shift using True n nullBit_setNull [OF d] by auto
  next
    case False
    then show ?thesis unfolding shift using "1.IH"(2) "1.prems" by simp
  qed
qed auto

lemma not_nullBit_zeros [simp]: "\<not> nullBit (replicate n 0) j"
  by (auto simp: nullBit_bit)

lemma bitmapLength_ge: "n \<le> 8 * bitmapLength n"
  by (simp add: bitmapLength_def)

section \<open>Round trip\<close>

lemma codes_values:
  assumes "seqW (map (\<lambda>(column, value). if value = VNull then Inr [] else writeValue column value)
             (zip cs vs)) = Inr b"
    and "row_ok cs vs" and "list_all2 (\<lambda>c v. v = VNull \<longrightarrow> rc_nullable c) cs vs"
    and "\<And>j. j < length cs \<Longrightarrow> nullBit bm (i + j) \<longleftrightarrow> vs ! j = VNull"
  shows "codes (readValues bm cs i) b vs"
  using assms
proof (induction cs arbitrary: vs i b)
  case Nil
  then show ?case by (simp add: row_ok_def writer_simps codes_return)
next
  case (Cons c cs)
  obtain v ws where vs: "vs = v # ws" using Cons.prems(2) by (cases vs) (auto simp: row_ok_def)
  have h: "nullBit bm i \<longleftrightarrow> v = VNull" using Cons.prems(4) [of 0] vs by simp
  have t: "nullBit bm (Suc i + j) \<longleftrightarrow> ws ! j = VNull" if "j < length cs" for j
    using Cons.prems(4) [of "Suc j"] vs that by simp
  obtain b1 b2 where b: "b = b1 @ b2"
    and b1: "(if v = VNull then Inr [] else writeValue c v) = Inr b1"
    and b2: "seqW (map (\<lambda>(column, value). if value = VNull then Inr [] else writeValue column value)
               (zip cs ws)) = Inr b2"
    using Cons.prems(1) vs by (auto simp: writer_simps)
  have r: "codes (readValues bm cs (Suc i)) b2 ws"
    using Cons.IH [OF b2 _ _ t] Cons.prems(2,3) vs by (auto simp: row_ok_def)
  show ?case
  proof (cases "v = VNull")
    case True
    then show ?thesis
      using r h b b1 Cons.prems(3) vs by (auto intro: codes_bind_end codes_return)
  next
    case False
    have "codes (readValue c) b1 v"
      using b1 False Cons.prems(2) vs by (intro codes_value) (auto simp: row_ok_def)
    then show ?thesis
      using False r h vs unfolding b by (auto intro!: codes_bind intro: codes_bind_end codes_return)
  qed
qed

lemma codes_row:
  assumes "writeRow columns vals = Inr b" and "row_ok columns vals"
  shows "codes (readRow columns) b vals"
proof -
  let ?n = "length columns"
  have l: "length vals = ?n" using assms(1) by (auto simp: writeRow_def split: if_splits)
  obtain bm c where f: "fillBitmap columns vals 0 (replicate (bitmapLength ?n) 0) = Inr bm"
    and s: "seqW (map (\<lambda>(column, value). if value = VNull then Inr [] else writeValue column value)
               (zip columns vals)) = Inr c"
    and b: "b = bm @ c"
    using assms(1) l by (auto simp: writeRow_def w_raw_def bindE_eq_Inr writer_simps)
  have sp: "length bm = bitmapLength ?n" "\<And>j. nullBit bm j \<longleftrightarrow> j < ?n \<and> vals ! j = VNull"
    "list_all2 (\<lambda>c v. v = VNull \<longrightarrow> rc_nullable c) columns vals"
    using fillBitmap_spec [OF f l] bitmapLength_ge [of ?n] by auto
  have "codes (readValues bm columns 0) c vals"
    using codes_values [OF s assms(2) sp(3)] sp(2) by simp
  moreover have "\<not> list_ex (nullBit bm) [?n..<bitmapLength ?n * 8]"
    using sp(2) by (auto simp: list_ex_iff)
  ultimately show ?thesis
    unfolding b readRow_def r_raw_def using codes_take [OF sp(1)] by (intro codes_bind) auto
qed

interpretation row: codec "writeRow columns" "readRow columns" "row_ok columns" for columns
  by unfold_locales (rule codes_row)

lemma decodeRow_encodeRow:
  "encodeRow columns vals = Inr b \<Longrightarrow> row_ok columns vals \<Longrightarrow> decodeRow columns b = Inr vals"
  using row.read_write [of columns vals b "[]"]
  by (simp add: encodeRow_def decodeRow_def expectFullyConsumed_def)

section \<open>What a decoded row satisfies\<close>

text \<open>A value of the column's type; \<open>NULL\<close> only where the column allows it.\<close>

definition value_typed :: "RowColumn \<Rightarrow> RowValue \<Rightarrow> bool" where
  "value_typed column value =
     (case value of
        VNull \<Rightarrow> rc_nullable column
      | VString s \<Rightarrow> rc_type column = TString
          \<or> rc_type column = TJson \<and> json_parse s \<noteq> None
          \<or> rc_type column = TBlobRef \<and> isBlobRef s
      | VNumber x \<Rightarrow> rc_type column = TFloat \<or> rc_type column = TInteger \<and> isSafeInteger x
      | VBool b \<Rightarrow> rc_type column = TBoolean
      | VBytes bs \<Rightarrow> rc_type column = TBytes \<or> rc_type column = TCrdt)"

lemma r_i64_bounds: "r_i64 bs = Inr (n, rest) \<Longrightarrow> - max_safe \<le> n \<and> n \<le> max_safe"
  by (auto simp: r_i64_def reader_inv Let_def split: if_splits)

lemma readValue_typed: "readValue column bs = Inr (v, rest) \<Longrightarrow> v \<noteq> VNull \<and> value_typed column v"
  by (auto simp: readValue_def value_typed_def reader_inv isBlobRef_def isSafeInteger_def
      split: ColumnType.splits option.splits sum.splits
      dest!: r_i64_bounds dest: safe_int_number_of_int) (metis sum.exhaust)+

lemma readValues_typed:
  "readValues bm cs i bs = Inr (vs, rest) \<Longrightarrow> list_all2 value_typed cs vs
     \<and> (\<forall>j < length cs. nullBit bm (i + j) \<longleftrightarrow> vs ! j = VNull)"
proof (induction bm cs i arbitrary: bs vs rest rule: readValues.induct)
  case (2 bm c cs i)
  have split: "(\<forall>j < Suc n. P j) \<longleftrightarrow> P 0 \<and> (\<forall>j < n. P (Suc j))" for n P
    by (metis less_Suc_eq_0_disj)
  show ?case
  proof (cases "nullBit bm i")
    case True
    then obtain ws where "readValues bm cs (Suc i) bs = Inr (ws, rest)" "vs = VNull # ws" "rc_nullable c"
      using "2.prems" by (auto simp: reader_inv split: if_splits)
    with "2.IH"(1) [OF True] True show ?thesis by (auto simp: split value_typed_def)
  next
    case False
    then obtain v ws mid where "readValue c bs = Inr (v, mid)" "readValues bm cs (Suc i) mid = Inr (ws, rest)"
      "vs = v # ws" using "2.prems" by (auto simp: reader_inv)
    with "2.IH"(2) [OF False] readValue_typed [of c bs v mid] False show ?thesis by (auto simp: split)
  qed
qed (simp add: reader_inv)

lemma decodeRow_typed:
  assumes "decodeRow columns bs = Inr vals"
  shows "list_all2 value_typed columns vals"
proof -
  obtain rest where "readRow columns bs = Inr (vals, rest)"
    using assms by (auto simp: decodeRow_def bindE_eq_Inr)
  then show ?thesis
    by (auto simp: readRow_def reader_inv split: if_splits dest!: readValues_typed)
qed

text \<open>Decoded strings are well-formed UTF-16.\<close>

lemma r_str_wf: "r_str bs = Inr (s, rest) \<Longrightarrow> well_formed s"
  by (auto simp: r_str_def reader_inv split: option.splits dest: text_decode_well_formed)

lemma readValue_wf: "readValue column bs = Inr (VString s, rest) \<Longrightarrow> well_formed s"
  by (auto simp: readValue_def reader_inv split: ColumnType.splits option.splits sum.splits dest: r_str_wf) (metis sum.exhaust)

lemma readValues_wf: "readValues bm cs i bs = Inr (vs, rest) \<Longrightarrow> VString s \<in> set vs \<Longrightarrow> well_formed s"
  by (induction bm cs i arbitrary: bs vs rest rule: readValues.induct)
    (auto simp: reader_inv split: if_splits dest: readValue_wf)

lemma decodeRow_wf: "decodeRow columns bs = Inr vals \<Longrightarrow> VString s \<in> set vals \<Longrightarrow> well_formed s"
  by (auto simp: decodeRow_def bindE_eq_Inr readRow_def reader_inv split: if_splits dest: readValues_wf)

end
