(* ===== verification/Segment.thy ===== *)
theory Segment
  imports Row_Codec
begin

text \<open>
  \<open>core/src/segment.ts\<close>: SSG2 rows segments. The decoder's block loop consumes at least eight
  bytes per block, which is its termination argument.
\<close>

record SegmentRow =
  sr_serverVersion :: int
  sr_values :: "RowValue list"

record RowsSegment =
  rs_table :: jsstring
  rs_schemaVersion :: int
  rs_columns :: "RowColumn list"
  rs_blocks :: "SegmentRow list list"

definition ROWS_SEGMENT_MAGIC :: "byte list" where
  "ROWS_SEGMENT_MAGIC = text_encode (js ''SSG2'')"

definition ROWS_SEGMENT_FORMAT_VERSION :: int where
  "ROWS_SEGMENT_FORMAT_VERSION = 1"

definition writeColumn :: "RowColumn \<Rightarrow> writer" where
  "writeColumn column = seqW [w_str (rc_name column), w_u8 (columnTypeTag (rc_type column)),
     w_u8 (if rc_nullable column then 1 else 0)]"

definition writeSegmentRow :: "RowColumn list \<Rightarrow> SegmentRow \<Rightarrow> writer" where
  "writeSegmentRow columns row =
     (if sr_serverVersion row < 1 then Inl PlainError
      else seqW [w_i64 (sr_serverVersion row), writeRow columns (sr_values row)])"

definition writeBlock :: "RowColumn list \<Rightarrow> SegmentRow list \<Rightarrow> writer" where
  "writeBlock columns block =
     (if length block = 0 then Inl PlainError
      else bindE (seqW (map (writeSegmentRow columns) block)) (\<lambda>rows.
        seqW [w_u32 (int (length block)), w_u32 (int (length rows)), w_raw rows]))"

definition encodeRowsSegment :: "RowsSegment \<Rightarrow> writer" where
  "encodeRowsSegment segment = seqW
     [w_raw ROWS_SEGMENT_MAGIC, w_u16 ROWS_SEGMENT_FORMAT_VERSION, w_u16 0,
      w_str (rs_table segment), w_i32 (rs_schemaVersion segment),
      w_u16 (int (length (rs_columns segment))),
      seqW (map writeColumn (rs_columns segment)),
      seqW (map (writeBlock (rs_columns segment)) (rs_blocks segment)),
      w_u32 0]"

definition readColumn :: "RowColumn reader" where
  "readColumn =
     bindR r_str (\<lambda>name. bindR r_u8 (\<lambda>tag.
       case columnTypeFromTag tag of
         Inl e \<Rightarrow> failR e
       | Inr type \<Rightarrow> bindR r_u8 (\<lambda>columnFlags.
           if (of_int columnFlags :: byte) AND 0xfe \<noteq> 0 then failR invalid_request
           else returnR \<lparr>rc_name = name, rc_type = type, rc_nullable = (columnFlags = 1),
                         rc_crdtType = None, rc_encrypted = None, rc_declaredType = None\<rparr>)))"

definition readSegmentRow :: "RowColumn list \<Rightarrow> SegmentRow reader" where
  "readSegmentRow columns =
     bindR r_i64 (\<lambda>serverVersion.
       if serverVersion < 1 then failR invalid_request
       else bindR (readRow columns) (\<lambda>vals.
         returnR \<lparr>sr_serverVersion = serverVersion, sr_values = vals\<rparr>))"

definition readBlock :: "RowColumn list \<Rightarrow> nat \<Rightarrow> byte list \<Rightarrow> SegmentRow list result" where
  "readBlock columns rowCount rowBytes =
     bindE (timesR rowCount (readSegmentRow columns) rowBytes) (\<lambda>(block, rest).
       bindE (expectFullyConsumed rest) (\<lambda>_. Inr block))"

lemma r_take_shorter: "r_take n bs = Inr (b, rest) \<Longrightarrow> length rest + n = length bs"
  by (auto simp: r_take_def split: if_splits)

lemma r_u32_shorter: "r_u32 bs = Inr (n, rest) \<Longrightarrow> length rest + 4 = length bs"
  by (auto simp: r_u32_def reader_inv dest: r_take_shorter)

lemma r_raw_shorter: "r_raw n bs = Inr (b, rest) \<Longrightarrow> length rest + n = length bs"
  by (simp add: r_raw_def r_take_shorter)

function readBlocks :: "RowColumn list \<Rightarrow> byte list \<Rightarrow> SegmentRow list list result" where
  "readBlocks columns bs =
     (if length bs < 4 then Inl invalid_request
      else case r_u32 bs of
        Inl e \<Rightarrow> Inl e
      | Inr (rowCount, bs1) \<Rightarrow>
          if rowCount = 0 then bindE (expectFullyConsumed bs1) (\<lambda>_. Inr [])
          else case r_u32 bs1 of
            Inl e \<Rightarrow> Inl e
          | Inr (byteLength, bs2) \<Rightarrow>
              (case r_raw (nat byteLength) bs2 of
                 Inl e \<Rightarrow> Inl e
               | Inr (rowBytes, bs3) \<Rightarrow>
                   (case readBlock columns (nat rowCount) rowBytes of
                      Inl e \<Rightarrow> Inl e
                    | Inr block \<Rightarrow> bindE (readBlocks columns bs3) (\<lambda>blocks. Inr (block # blocks)))))"
  by pat_completeness auto
termination
proof (relation "measure (\<lambda>(columns, bs). length bs)", goal_cases)
  case (2 columns bs x rowCount bs1 y byteLength bs2 z rowBytes bs3 block)
  then show ?case by (auto dest!: r_u32_shorter r_raw_shorter)
qed simp

declare readBlocks.simps [simp del]

definition readSegmentHeader :: "(jsstring \<times> int \<times> RowColumn list) reader" where
  "readSegmentHeader =
     bindR (r_raw 4) (\<lambda>magic.
       if magic \<noteq> ROWS_SEGMENT_MAGIC then failR invalid_request
       else bindR r_u16 (\<lambda>formatVersion.
         if formatVersion \<noteq> ROWS_SEGMENT_FORMAT_VERSION then failR invalid_request
         else bindR r_u16 (\<lambda>flags.
           if flags \<noteq> 0 then failR invalid_request
           else bindR r_str (\<lambda>table. bindR r_i32 (\<lambda>schemaVersion.
             bindR r_u16 (\<lambda>columnCount. bindR (timesR (nat columnCount) readColumn) (\<lambda>columns.
               returnR (table, schemaVersion, columns))))))))"

definition decodeRowsSegment :: "byte list \<Rightarrow> RowsSegment result" where
  "decodeRowsSegment bytes =
     bindE (readSegmentHeader bytes) (\<lambda>((table, schemaVersion, columns), rest).
       bindE (readBlocks columns rest) (\<lambda>blocks.
         Inr \<lparr>rs_table = table, rs_schemaVersion = schemaVersion, rs_columns = columns, rs_blocks = blocks\<rparr>))"

section \<open>Round trip\<close>

text \<open>The wire carries name, type and nullability of a column; the other fields are schema metadata.\<close>

definition wire_column :: "RowColumn \<Rightarrow> RowColumn" where
  "wire_column c = c\<lparr>rc_crdtType := None, rc_encrypted := None, rc_declaredType := None\<rparr>"

lemma wire_column_simps [simp]:
  "rc_name (wire_column c) = rc_name c" "rc_type (wire_column c) = rc_type c"
  "rc_nullable (wire_column c) = rc_nullable c"
  by (simp_all add: wire_column_def)

lemma readValues_wire: "readValues bm (map wire_column cs) i = readValues bm cs i"
proof (induction cs arbitrary: i)
  case (Cons c cs)
  have "readValue (wire_column c) = readValue c" by (simp add: readValue_def)
  with Cons show ?case by simp
qed simp

lemma readRow_wire: "readRow (map wire_column cs) = readRow cs"
  by (simp add: readRow_def readValues_wire cong: if_cong)

lemma readBlocks_wire: "readBlocks (map wire_column cs) bs = readBlocks cs bs"
proof (induction cs bs rule: readBlocks.induct)
  case (1 cs bs)
  have b: "readBlock (map wire_column cs) = readBlock cs"
    by (intro ext) (simp add: readBlock_def readSegmentRow_def readRow_wire cong: if_cong)
  show ?case
    unfolding readBlocks.simps [of _ bs] using 1
    by (auto simp: b split: sum.splits prod.splits)
qed

definition segment_ok :: "RowsSegment \<Rightarrow> bool" where
  "segment_ok seg \<longleftrightarrow> str_ok (rs_table seg) \<and> list_all (\<lambda>c. str_ok (rc_name c)) (rs_columns seg)
     \<and> list_all (list_all (\<lambda>row. row_ok (rs_columns seg) (sr_values row))) (rs_blocks seg)"

lemma codes_column:
  assumes "writeColumn c = Inr b" and "str_ok (rc_name c)"
  shows "codes readColumn b (wire_column c)"
proof -
  obtain b1 b2 b3 where w: "w_str (rc_name c) = Inr b1" "w_u8 (columnTypeTag (rc_type c)) = Inr b2"
    "w_u8 (if rc_nullable c then 1 else 0) = Inr b3" and b: "b = b1 @ b2 @ b3"
    using assms(1) by (auto simp: writeColumn_def writer_simps)
  have f: "(of_int (if rc_nullable c then 1 else 0) :: byte) AND 0xfe = 0" by simp
  have "codes (bindR r_u8 (\<lambda>columnFlags.
      if (of_int columnFlags :: byte) AND 0xfe \<noteq> 0 then failR invalid_request
      else returnR \<lparr>rc_name = rc_name c, rc_type = rc_type c, rc_nullable = (columnFlags = 1),
                    rc_crdtType = None, rc_encrypted = None, rc_declaredType = None\<rparr>)) b3 (wire_column c)"
    using f by (intro codes_bind_end [OF u8.codes [OF w(3)]]) (auto simp: wire_column_def intro: codes_returnI)
  then show ?thesis
    unfolding b readColumn_def using assms(2)
    by (intro codes_bind [OF wstr.codes [OF w(1)]] codes_bind [OF u8.codes [OF w(2)]])
      (simp_all add: columnTypeFromTag_tag)
qed

lemma codes_columns:
  "seqW (map writeColumn cs) = Inr b \<Longrightarrow> list_all (\<lambda>c. str_ok (rc_name c)) cs \<Longrightarrow>
   codes (timesR (length cs) readColumn) b (map wire_column cs)"
proof (induction cs arbitrary: b)
  case (Cons c cs)
  then obtain b1 b2 where "writeColumn c = Inr b1" "seqW (map writeColumn cs) = Inr b2" "b = b1 @ b2"
    by (auto simp: writer_simps)
  with Cons show ?case
    by (auto intro!: codes_bind codes_column intro: codes_bind_end codes_return)
qed (simp add: writer_simps codes_return)

interpretation segment_row: codec "writeSegmentRow columns" "readSegmentRow columns"
    "\<lambda>row. row_ok columns (sr_values row)" for columns
proof
  fix row b assume "writeSegmentRow columns row = Inr b" and ok: "row_ok columns (sr_values row)"
  then obtain b1 b2 where w: "w_i64 (sr_serverVersion row) = Inr b1" "writeRow columns (sr_values row) = Inr b2"
    and v: "\<not> sr_serverVersion row < 1" and b: "b = b1 @ b2"
    by (auto simp: writeSegmentRow_def writer_simps split: if_splits)
  show "codes (readSegmentRow columns) b row"
    unfolding b readSegmentRow_def using v ok
    by (auto intro!: codes_bind [OF i64.codes [OF w(1)]] codes_bind_end [OF row.codes [OF w(2)]] codes_returnI)
qed

lemma readBlock_writeRows:
  assumes "seqW (map (writeSegmentRow columns) block) = Inr rows"
    and "list_all (\<lambda>row. row_ok columns (sr_values row)) block"
  shows "readBlock columns (length block) rows = Inr block"
proof -
  have "codes (timesR (length block) (readSegmentRow columns)) rows block"
    using assms by (intro segment_row.codes_times) (auto simp: list_all_iff)
  then show ?thesis by (simp add: readBlock_def codesD_end expectFullyConsumed_def)
qed

lemma readBlocks_write:
  assumes "seqW (map (writeBlock columns) blocks) = Inr b" and "w_u32 0 = Inr e"
    and "list_all (list_all (\<lambda>row. row_ok columns (sr_values row))) blocks"
  shows "readBlocks columns (b @ e) = Inr blocks"
  using assms
proof (induction blocks arbitrary: b)
  case Nil
  then have "r_u32 (b @ e) = Inr (0, [])" "length (b @ e) = 4"
    using codesD_end [OF u32.codes [OF assms(2)]] by (auto simp: w_u32_def writer_simps)
  then show ?case by (simp add: readBlocks.simps [of columns] expectFullyConsumed_def)
next
  case (Cons block blocks)
  obtain rows b1 b2 c where w: "seqW (map (writeSegmentRow columns) block) = Inr rows"
    "w_u32 (int (length block)) = Inr b1" "w_u32 (int (length rows)) = Inr b2"
    "seqW (map (writeBlock columns) blocks) = Inr c" and n: "length block \<noteq> 0"
    and b: "b = b1 @ b2 @ rows @ c"
    using Cons.prems(1)
    by (auto simp: writeBlock_def [of columns block] w_raw_def writer_simps bindE_eq_Inr split: if_splits)
  have 1: "r_u32 (b @ e) = Inr (int (length block), b2 @ rows @ c @ e)"
    using codesD [OF u32.codes [OF w(2)]] b by simp
  have 2: "r_u32 (b2 @ rows @ c @ e) = Inr (int (length rows), rows @ c @ e)"
    using codesD [OF u32.codes [OF w(3)]] by simp
  have 3: "r_raw (length rows) (rows @ c @ e) = Inr (rows, c @ e)"
    using codesD [OF codes_take [OF refl]] by (simp add: r_raw_def)
  have 4: "readBlock columns (length block) rows = Inr block"
    using readBlock_writeRows [OF w(1)] Cons.prems(3) by simp
  have 5: "readBlocks columns (c @ e) = Inr blocks" using Cons.IH [OF w(4) assms(2)] Cons.prems(3) by simp
  have "\<not> length (b @ e) < 4" using r_u32_shorter [OF 1] by simp
  then show ?case using n by (simp add: readBlocks.simps [of columns "b @ e"] 1 2 3 4 5 del: length_append)
qed

lemma magic_bytes: "ROWS_SEGMENT_MAGIC = [83, 83, 71, 50]"
  by (simp add: ROWS_SEGMENT_MAGIC_def js_def text_encode_eval)

lemma decode_encode_segment:
  assumes "encodeRowsSegment seg = Inr b" and "segment_ok seg"
  shows "decodeRowsSegment b = Inr (seg\<lparr>rs_columns := map wire_column (rs_columns seg)\<rparr>)"
proof -
  let ?cs = "rs_columns seg"
  obtain b1 b2 b3 b4 b5 b6 b7 b8 where w: "w_u16 ROWS_SEGMENT_FORMAT_VERSION = Inr b1" "w_u16 0 = Inr b2"
    "w_str (rs_table seg) = Inr b3" "w_i32 (rs_schemaVersion seg) = Inr b4"
    "w_u16 (int (length ?cs)) = Inr b5" "seqW (map writeColumn ?cs) = Inr b6"
    "seqW (map (writeBlock ?cs) (rs_blocks seg)) = Inr b7" "w_u32 0 = Inr b8"
    and b: "b = ROWS_SEGMENT_MAGIC @ b1 @ b2 @ b3 @ b4 @ b5 @ b6 @ b7 @ b8"
    using assms(1) by (auto simp: encodeRowsSegment_def w_raw_def writer_simps)
  have m: "length ROWS_SEGMENT_MAGIC = 4" by (simp add: magic_bytes)
  have ok: "str_ok (rs_table seg)" "list_all (\<lambda>c. str_ok (rc_name c)) ?cs"
    using assms(2) by (auto simp: segment_ok_def)
  have blocks: "readBlocks (map wire_column ?cs) (b7 @ b8) = Inr (rs_blocks seg)"
    unfolding readBlocks_wire using assms(2) by (intro readBlocks_write [OF w(7,8)]) (simp add: segment_ok_def)
  have "codes readSegmentHeader (ROWS_SEGMENT_MAGIC @ b1 @ b2 @ b3 @ b4 @ b5 @ b6)
      (rs_table seg, rs_schemaVersion seg, map wire_column ?cs)"
    unfolding readSegmentHeader_def r_raw_def
    by (rule codes_bind [OF codes_take [OF m]], simp,
        rule codes_bind [OF u16.codes [OF w(1)]], simp, simp,
        rule codes_bind [OF u16.codes [OF w(2)]], simp, simp,
        rule codes_bind [OF wstr.codes [OF w(3) ok(1)]], rule codes_bind [OF i32.codes [OF w(4)]], simp,
        rule codes_bind [OF u16.codes [OF w(5)]], simp, rule codes_bind_end)
      (auto intro: codes_columns [OF w(6) ok(2)] codes_return)
  then have "readSegmentHeader b = Inr ((rs_table seg, rs_schemaVersion seg, map wire_column ?cs), b7 @ b8)"
    unfolding b by (auto dest: codesD [where rest = "b7 @ b8"])
  with blocks show ?thesis by (simp add: decodeRowsSegment_def)
qed

lemma readBlocks_blocks:
  assumes "readBlocks columns bs = Inr blocks"
  shows "list_all (\<lambda>block. block \<noteq> [] \<and> list_all (\<lambda>row. 1 \<le> sr_serverVersion row) block) blocks"
  using assms
proof (induction columns bs arbitrary: blocks rule: readBlocks.induct)
  case (1 columns bs)
  have row: "readSegmentRow columns xs = Inr (row, rest) \<Longrightarrow> 1 \<le> sr_serverVersion row" for xs row rest
    by (auto simp: readSegmentRow_def reader_inv split: if_splits)
  have rows: "timesR n (readSegmentRow columns) xs = Inr (block, rest) \<Longrightarrow>
      length block = n \<and> list_all (\<lambda>row. 1 \<le> sr_serverVersion row) block" for n xs block rest
    by (induction n arbitrary: xs block) (auto simp: reader_inv dest: row)
  have u: "r_u32 xs = Inr (n, rest) \<Longrightarrow> 0 \<le> n" for xs n rest
    by (auto simp: r_u32_def reader_inv)
  from "1.prems" consider "blocks = []"
    | rowCount bs1 byteLength bs2 rowBytes bs3 block rest where
      "\<not> length bs < 4" "r_u32 bs = Inr (rowCount, bs1)" "rowCount \<noteq> 0" "r_u32 bs1 = Inr (byteLength, bs2)"
      "r_raw (nat byteLength) bs2 = Inr (rowBytes, bs3)" "readBlock columns (nat rowCount) rowBytes = Inr block"
      "readBlocks columns bs3 = Inr rest" "blocks = block # rest"
    by (subst (asm) readBlocks.simps) (auto simp: bindE_eq_Inr split: if_splits sum.splits)
  then show ?case
  proof cases
    case 2
    then show ?thesis
      using "1.IH" [OF 2(1,2) refl 2(3,4) refl 2(5) refl 2(6)] rows [of "nat rowCount" rowBytes block] u [OF 2(2)]
      by (auto simp: readBlock_def bindE_eq_Inr)
  qed simp
qed

end
