(* ===== verification/Rejection_Details.thy ===== *)
theory Rejection_Details
  imports Blob_Ref
begin

text \<open>
  \<open>core/src/rejection-details.ts\<close>: the bounded metadata a host may attach to a rejected
  operation. Host input is a JSON value; the result is a record whose JSON rendering is what
  travels. Normalisation is shown to produce only documents within the stated limits and to be
  the identity on its own results, which is what lets a receiver re-run it on decoded data.
\<close>

record RejectionDetails =
  rd_fieldPaths :: "jsstring list option"
  rd_reason :: "jsstring option"
  rd_requiredAction :: "jsstring option"
  rd_references :: "(jsstring \<times> jsstring) list option"

definition maxEncodedBytes :: nat where "maxEncodedBytes = 4096"
definition maxFieldPaths :: nat where "maxFieldPaths = 32"
definition maxFieldPathLength :: nat where "maxFieldPathLength = 160"
definition maxTokenLength :: nat where "maxTokenLength = 96"
definition maxReferences :: nat where "maxReferences = 16"
definition maxReferenceKeyLength :: nat where "maxReferenceKeyLength = 64"
definition maxReferenceValueBytes :: nat where "maxReferenceValueBytes = 256"

lemmas limit_defs = maxEncodedBytes_def maxFieldPaths_def maxFieldPathLength_def maxTokenLength_def
  maxReferences_def maxReferenceKeyLength_def maxReferenceValueBytes_def

section \<open>Lexical checks\<close>

definition in_units :: "nat \<Rightarrow> nat \<Rightarrow> code_unit \<Rightarrow> bool" where
  "in_units a b u \<longleftrightarrow> a \<le> unat u \<and> unat u \<le> b"

definition ident_start :: "code_unit \<Rightarrow> bool" where
  "ident_start u \<longleftrightarrow> in_units 65 90 u \<or> in_units 97 122 u \<or> u = 95"

definition ident_part :: "code_unit \<Rightarrow> bool" where
  "ident_part u \<longleftrightarrow> ident_start u \<or> in_units 48 57 u"

definition lower_alnum :: "code_unit \<Rightarrow> bool" where
  "lower_alnum u \<longleftrightarrow> in_units 97 122 u \<or> in_units 48 57 u"

text \<open>
  The regular expressions as deterministic automata; the Boolean says that an identifier
  (or the first character of a token segment) has to start here.
\<close>

fun field_path_from :: "bool \<Rightarrow> jsstring \<Rightarrow> bool" where
  "field_path_from start [] \<longleftrightarrow> \<not> start"
| "field_path_from start (u # us) \<longleftrightarrow>
     (if start then ident_start u \<and> field_path_from False us
      else if u = 46 then field_path_from True us
      else ident_part u \<and> field_path_from False us)"

definition FIELD_PATH :: "jsstring \<Rightarrow> bool" where
  "FIELD_PATH s = field_path_from True s"

fun token_from :: "bool \<Rightarrow> jsstring \<Rightarrow> bool" where
  "token_from start [] \<longleftrightarrow> \<not> start"
| "token_from start (u # us) \<longleftrightarrow>
     (if start then lower_alnum u \<and> token_from False us
      else if u = 46 \<or> u = 95 \<or> u = 45 then token_from True us
      else lower_alnum u \<and> token_from False us)"

definition TOKEN :: "jsstring \<Rightarrow> bool" where
  "TOKEN s = (case s of [] \<Rightarrow> False | u # us \<Rightarrow> in_units 97 122 u \<and> token_from False us)"

definition hasControlCharacter :: "jsstring \<Rightarrow> bool" where
  "hasControlCharacter s \<longleftrightarrow> list_ex (\<lambda>u. unat u \<le> 0x1f \<or> (0x7f \<le> unat u \<and> unat u \<le> 0x9f)) s"

text \<open>\<open>String.prototype.trim\<close>: ECMAScript white space and line terminators at both ends.\<close>

definition trimmed_unit :: "code_unit \<Rightarrow> bool" where
  "trimmed_unit u \<longleftrightarrow> in_units 0x09 0x0D u \<or> in_units 0x2000 0x200A u
     \<or> u \<in> set [0x20, 0xA0, 0x1680, 0x2028, 0x2029, 0x202F, 0x205F, 0x3000, 0xFEFF]"

definition js_trim :: "jsstring \<Rightarrow> jsstring" where
  "js_trim s = rev (dropWhile trimmed_unit (rev (dropWhile trimmed_unit s)))"

section \<open>Normalisation\<close>

definition recordOf :: "json \<Rightarrow> (jsstring \<times> json) list result" where
  "recordOf v = (case v of JObject ms \<Rightarrow> Inr ms | _ \<Rightarrow> Inl PlainError)"

definition stableToken :: "json \<Rightarrow> nat \<Rightarrow> jsstring result" where
  "stableToken v maxLength =
     (case v of
        JString s \<Rightarrow> if length s = 0 \<or> length s > maxLength \<or> \<not> TOKEN s then Inl PlainError else Inr s
      | _ \<Rightarrow> Inl PlainError)"

text \<open>The loop over \<open>source.fieldPaths\<close>; \<open>seen\<close> are the paths accepted so far.\<close>

fun normalizePaths :: "json list \<Rightarrow> jsstring list \<Rightarrow> jsstring list result" where
  "normalizePaths [] seen = Inr []"
| "normalizePaths (v # vs) seen =
     (case v of
        JString path \<Rightarrow>
          if length path = 0 \<or> length path > maxFieldPathLength \<or> \<not> FIELD_PATH path then Inl PlainError
          else if path \<in> set seen then Inl PlainError
          else bindE (normalizePaths vs (path # seen)) (\<lambda>ps. Inr (path # ps))
      | _ \<Rightarrow> Inl PlainError)"

definition normalizeFieldPaths :: "json \<Rightarrow> jsstring list result" where
  "normalizeFieldPaths v =
     (case v of
        JArray vs \<Rightarrow> if length vs = 0 \<or> length vs > maxFieldPaths then Inl PlainError else normalizePaths vs []
      | _ \<Rightarrow> Inl PlainError)"

definition referenceValue :: "json \<Rightarrow> jsstring result" where
  "referenceValue member =
     (case member of
        JString s \<Rightarrow>
          if length s = 0 \<or> length (text_encode s) > maxReferenceValueBytes \<or> js_trim s \<noteq> s
             \<or> hasControlCharacter s
          then Inl PlainError else Inr s
      | _ \<Rightarrow> Inl PlainError)"

definition normalizeReferences :: "json \<Rightarrow> (jsstring \<times> jsstring) list result" where
  "normalizeReferences v =
     bindE (recordOf v) (\<lambda>references.
       let keys = sort (map fst references) in
       if length keys = 0 \<or> length keys > maxReferences then Inl PlainError
       else mapE (\<lambda>key.
         bindE (stableToken (JString key) maxReferenceKeyLength) (\<lambda>_.
           case map_of references key of
             None \<Rightarrow> Inl PlainError
           | Some member \<Rightarrow> bindE (referenceValue member) (\<lambda>s. Inr (key, s)))) keys)"

definition optionalMember :: "(json \<Rightarrow> 'a result) \<Rightarrow> json option \<Rightarrow> 'a option result" where
  "optionalMember f v = (case v of None \<Rightarrow> Inr None | Some x \<Rightarrow> bindE (f x) (\<lambda>y. Inr (Some y)))"

text \<open>The normalized object, with its members in the order they are assigned.\<close>

definition details_json :: "RejectionDetails \<Rightarrow> json" where
  "details_json d = JObject
     ((case rd_fieldPaths d of None \<Rightarrow> [] | Some ps \<Rightarrow> [(js ''fieldPaths'', JArray (map JString ps))])
      @ (case rd_reason d of None \<Rightarrow> [] | Some s \<Rightarrow> [(js ''reason'', JString s)])
      @ (case rd_requiredAction d of None \<Rightarrow> [] | Some s \<Rightarrow> [(js ''requiredAction'', JString s)])
      @ (case rd_references d of None \<Rightarrow> []
         | Some rs \<Rightarrow> [(js ''references'', JObject (map (\<lambda>(k, v). (k, JString v)) rs))]))"

definition allowed_members :: "jsstring list" where
  "allowed_members = map js [''fieldPaths'', ''reason'', ''requiredAction'', ''references'']"

definition normalizeRejectionDetails :: "json \<Rightarrow> RejectionDetails result" where
  "normalizeRejectionDetails v =
     bindE (recordOf v) (\<lambda>source.
       if list_ex (\<lambda>key. key \<notin> set allowed_members) (map fst source) then Inl PlainError
       else bindE (optionalMember normalizeFieldPaths (map_of source (js ''fieldPaths''))) (\<lambda>fieldPaths.
         bindE (optionalMember (\<lambda>x. stableToken x maxTokenLength) (map_of source (js ''reason''))) (\<lambda>reason.
           bindE (optionalMember (\<lambda>x. stableToken x maxTokenLength) (map_of source (js ''requiredAction''))) (\<lambda>action.
             bindE (optionalMember normalizeReferences (map_of source (js ''references''))) (\<lambda>references.
               let normalized = \<lparr>rd_fieldPaths = fieldPaths, rd_reason = reason,
                                 rd_requiredAction = action, rd_references = references\<rparr> in
               if fieldPaths = None \<and> reason = None \<and> action = None \<and> references = None
               then Inl PlainError
               else if length (text_encode (json_stringify (details_json normalized))) > maxEncodedBytes
               then Inl PlainError
               else Inr normalized)))))"

section \<open>Normalised details\<close>

definition path_ok :: "jsstring \<Rightarrow> bool" where
  "path_ok p \<longleftrightarrow> p \<noteq> [] \<and> length p \<le> maxFieldPathLength \<and> FIELD_PATH p"

definition token_ok :: "nat \<Rightarrow> jsstring \<Rightarrow> bool" where
  "token_ok n s \<longleftrightarrow> s \<noteq> [] \<and> length s \<le> n \<and> TOKEN s"

definition reference_ok :: "jsstring \<Rightarrow> bool" where
  "reference_ok s \<longleftrightarrow> s \<noteq> [] \<and> length (text_encode s) \<le> maxReferenceValueBytes \<and> js_trim s = s
     \<and> \<not> hasControlCharacter s"

text \<open>The documented shape and limits, as a predicate on the record.\<close>

definition details_ok :: "RejectionDetails \<Rightarrow> bool" where
  "details_ok d \<longleftrightarrow>
     (case rd_fieldPaths d of None \<Rightarrow> True
      | Some ps \<Rightarrow> ps \<noteq> [] \<and> length ps \<le> maxFieldPaths \<and> distinct ps \<and> list_all path_ok ps)
     \<and> (case rd_reason d of None \<Rightarrow> True | Some s \<Rightarrow> token_ok maxTokenLength s)
     \<and> (case rd_requiredAction d of None \<Rightarrow> True | Some s \<Rightarrow> token_ok maxTokenLength s)
     \<and> (case rd_references d of None \<Rightarrow> True
        | Some rs \<Rightarrow> rs \<noteq> [] \<and> length rs \<le> maxReferences \<and> sorted_wrt (<) (map fst rs)
            \<and> list_all (\<lambda>(k, s). token_ok maxReferenceKeyLength k \<and> reference_ok s) rs)
     \<and> \<not> (rd_fieldPaths d = None \<and> rd_reason d = None \<and> rd_requiredAction d = None \<and> rd_references d = None)
     \<and> length (text_encode (json_stringify (details_json d))) \<le> maxEncodedBytes"

lemma normalizePaths_eq:
  "normalizePaths vs seen = Inr ps \<longleftrightarrow>
     vs = map JString ps \<and> list_all path_ok ps \<and> distinct ps \<and> set ps \<inter> set seen = {}"
proof (induction vs seen arbitrary: ps rule: normalizePaths.induct)
  case (2 v vs seen)
  show ?case
  proof (cases v)
    case (JString path)
    show ?thesis
    proof (cases ps)
      case (Cons p qs)
      with 2 [OF JString, of qs] JString show ?thesis by (auto simp: bindE_eq_Inr path_ok_def)
    qed (auto simp: JString bindE_eq_Inr)
  qed (auto)
qed auto

lemma stableToken_eq: "stableToken v n = Inr s \<longleftrightarrow> v = JString s \<and> token_ok n s"
  by (auto simp: stableToken_def token_ok_def split: json.splits)

lemma referenceValue_eq: "referenceValue v = Inr s \<longleftrightarrow> v = JString s \<and> reference_ok s"
  by (auto simp: referenceValue_def reference_ok_def split: json.splits)

lemma optionalMember_eq:
  "optionalMember f v = Inr r \<longleftrightarrow> (case v of None \<Rightarrow> r = None | Some x \<Rightarrow> \<exists>y. r = Some y \<and> f x = Inr y)"
  by (auto simp: optionalMember_def bindE_eq_Inr split: option.splits)

lemma mapE_eq_Inr: "mapE f xs = Inr ys \<longleftrightarrow> list_all2 (\<lambda>x y. f x = Inr y) xs ys"
proof (induction xs arbitrary: ys)
  case (Cons x xs)
  then show ?case by (cases ys) (auto simp: bindE_eq_Inr)
qed auto

lemma normalizeReferences_ok:
  assumes "normalizeReferences (JObject ms) = Inr rs" and "distinct (map fst ms)"
  shows "rs \<noteq> [] \<and> length rs \<le> maxReferences \<and> sorted_wrt (<) (map fst rs)
     \<and> list_all (\<lambda>(k, s). token_ok maxReferenceKeyLength k \<and> reference_ok s) rs"
proof -
  have l: "sort (map fst ms) \<noteq> []" "length (sort (map fst ms)) \<le> maxReferences"
    and m: "list_all2 (\<lambda>key y. bindE (stableToken (JString key) maxReferenceKeyLength) (\<lambda>_.
           case map_of ms key of None \<Rightarrow> Inl PlainError
           | Some member \<Rightarrow> bindE (referenceValue member) (\<lambda>s. Inr (key, s))) = Inr y) (sort (map fst ms)) rs"
    using assms(1) by (auto simp: normalizeReferences_def recordOf_def Let_def mapE_eq_Inr split: if_splits)
  have k: "list_all2 (\<lambda>key y. fst y = key \<and> token_ok maxReferenceKeyLength (fst y) \<and> reference_ok (snd y))
      (sort (map fst ms)) rs"
    using m by (rule list_all2_mono)
      (auto simp: bindE_eq_Inr stableToken_eq referenceValue_eq split: option.splits)
  then have f: "map fst rs = sort (map fst ms)"
    by (auto simp: list_all2_conv_all_nth intro: nth_equalityI)
  have "list_all (\<lambda>(k, s). token_ok maxReferenceKeyLength k \<and> reference_ok s) rs"
    using k by (auto simp: list_all_length list_all2_conv_all_nth case_prod_unfold)
  then show ?thesis
    using l f assms(2) by (auto simp: strict_sorted_iff dest: arg_cong [of _ _ length])
qed

lemma normalizeReferences_self:
  assumes "rs \<noteq> []" "length rs \<le> maxReferences" "sorted_wrt (<) (map fst rs)"
    and "list_all (\<lambda>(k, s). token_ok maxReferenceKeyLength k \<and> reference_ok s) rs"
  shows "normalizeReferences (JObject (map (\<lambda>(k, v). (k, JString v)) rs)) = Inr rs"
proof -
  let ?ms = "map (\<lambda>(k, v). (k, JString v)) rs"
  have f: "map fst ?ms = map fst rs" by (auto simp: case_prod_unfold comp_def)
  have s: "sort (map fst rs) = map fst rs" and d: "distinct (map fst ?ms)"
    using assms(3) unfolding f by (auto simp: strict_sorted_iff sorted_sort_id)
  have lk: "map_of ?ms (fst (rs ! i)) = Some (JString (snd (rs ! i)))" if "i < length rs" for i
    using d that by (intro map_of_is_SomeI) (auto simp: case_prod_unfold intro!: image_eqI nth_mem)
  have "list_all2 (\<lambda>key y. bindE (stableToken (JString key) maxReferenceKeyLength) (\<lambda>_.
           case map_of ?ms key of None \<Rightarrow> Inl PlainError
           | Some member \<Rightarrow> bindE (referenceValue member) (\<lambda>s. Inr (key, s))) = Inr y) (map fst rs) rs"
    using assms(4) lk
    by (auto simp: list_all2_conv_all_nth list_all_length bindE_eq_Inr stableToken_eq referenceValue_eq
        case_prod_unfold)
  then show ?thesis
    using assms(1,2) unfolding normalizeReferences_def recordOf_def json.case bindE_simps Let_def f s
    by (simp add: mapE_eq_Inr)
qed

text \<open>A JavaScript object has distinct keys; \<open>json_wf\<close> says so of every object in a value.\<close>

fun json_wf :: "json \<Rightarrow> bool" where
  "json_wf (JArray vs) \<longleftrightarrow> list_all json_wf vs"
| "json_wf (JObject ms) \<longleftrightarrow> distinct (map fst ms) \<and> list_all (\<lambda>(k, v). json_wf v) ms"
| "json_wf _ \<longleftrightarrow> True"

lemma normalize_ok:
  assumes "normalizeRejectionDetails v = Inr d" and "json_wf v"
  shows "details_ok d"
proof -
  obtain ms fp re ac rf where v: "v = JObject ms"
    and fp: "optionalMember normalizeFieldPaths (map_of ms (js ''fieldPaths'')) = Inr fp"
    and re: "optionalMember (\<lambda>x. stableToken x maxTokenLength) (map_of ms (js ''reason'')) = Inr re"
    and ac: "optionalMember (\<lambda>x. stableToken x maxTokenLength) (map_of ms (js ''requiredAction'')) = Inr ac"
    and rf: "optionalMember normalizeReferences (map_of ms (js ''references'')) = Inr rf"
    and d: "d = \<lparr>rd_fieldPaths = fp, rd_reason = re, rd_requiredAction = ac, rd_references = rf\<rparr>"
    and ne: "\<not> (fp = None \<and> re = None \<and> ac = None \<and> rf = None)"
    and le: "length (text_encode (json_stringify (details_json d))) \<le> maxEncodedBytes"
    using assms(1) by (cases v)
      (auto simp: normalizeRejectionDetails_def recordOf_def bindE_eq_Inr Let_def split: if_splits)
  have "case fp of None \<Rightarrow> True
      | Some ps \<Rightarrow> ps \<noteq> [] \<and> length ps \<le> maxFieldPaths \<and> distinct ps \<and> list_all path_ok ps"
    using fp by (auto simp: optionalMember_eq normalizeFieldPaths_def normalizePaths_eq
        split: option.splits json.splits if_splits)
  moreover have "case re of None \<Rightarrow> True | Some s \<Rightarrow> token_ok maxTokenLength s"
    "case ac of None \<Rightarrow> True | Some s \<Rightarrow> token_ok maxTokenLength s"
    using re ac by (auto simp: optionalMember_eq stableToken_eq split: option.splits)
  moreover have "case rf of None \<Rightarrow> True
        | Some rs \<Rightarrow> rs \<noteq> [] \<and> length rs \<le> maxReferences \<and> sorted_wrt (<) (map fst rs)
            \<and> list_all (\<lambda>(k, s). token_ok maxReferenceKeyLength k \<and> reference_ok s) rs"
  proof (cases rf)
    case (Some rs)
    then obtain x where x: "map_of ms (js ''references'') = Some x" "normalizeReferences x = Inr rs"
      using rf by (auto simp: optionalMember_eq split: option.splits)
    then obtain ns where ns: "x = JObject ns"
      by (cases x) (auto simp: normalizeReferences_def recordOf_def)
    have "json_wf x" using assms(2) v map_of_SomeD [OF x(1)] by (auto simp: list_all_iff)
    then show ?thesis using Some normalizeReferences_ok [of ns rs] x(2) ns by simp
  qed simp
  ultimately show ?thesis using ne le by (simp add: details_ok_def d)
qed

lemma details_json_members:
  "map_of (case details_json d of JObject ms \<Rightarrow> ms | _ \<Rightarrow> []) (js ''fieldPaths'') = map_option (\<lambda>ps. JArray (map JString ps)) (rd_fieldPaths d)"
  "map_of (case details_json d of JObject ms \<Rightarrow> ms | _ \<Rightarrow> []) (js ''reason'') = map_option JString (rd_reason d)"
  "map_of (case details_json d of JObject ms \<Rightarrow> ms | _ \<Rightarrow> []) (js ''requiredAction'') = map_option JString (rd_requiredAction d)"
  "map_of (case details_json d of JObject ms \<Rightarrow> ms | _ \<Rightarrow> []) (js ''references'')
     = map_option (\<lambda>rs. JObject (map (\<lambda>(k, v). (k, JString v)) rs)) (rd_references d)"
  by (auto simp: details_json_def js_eq_iff split: option.splits)

lemma normalize_self:
  assumes "details_ok d"
  shows "normalizeRejectionDetails (details_json d) = Inr d"
proof -
  obtain ms where ms: "details_json d = JObject ms" by (simp add: details_json_def)
  note members = details_json_members [of d, unfolded ms json.case]
  have keys: "\<not> list_ex (\<lambda>key. key \<notin> set allowed_members) (map fst ms)"
    using ms by (auto simp: details_json_def allowed_members_def list_ex_iff split: option.splits)
  have 1: "optionalMember normalizeFieldPaths (map_of ms (js ''fieldPaths'')) = Inr (rd_fieldPaths d)"
    using assms unfolding members
    by (cases "rd_fieldPaths d") (auto simp: optionalMember_eq normalizeFieldPaths_def normalizePaths_eq details_ok_def)
  have 2: "optionalMember (\<lambda>x. stableToken x maxTokenLength) (map_of ms (js ''reason'')) = Inr (rd_reason d)"
    "optionalMember (\<lambda>x. stableToken x maxTokenLength) (map_of ms (js ''requiredAction'')) = Inr (rd_requiredAction d)"
    using assms unfolding members by (auto simp: optionalMember_eq stableToken_eq details_ok_def split: option.splits)
  have 3: "optionalMember normalizeReferences (map_of ms (js ''references'')) = Inr (rd_references d)"
    using assms normalizeReferences_self unfolding members
    by (auto simp: optionalMember_eq details_ok_def split: option.splits)
  show ?thesis
    using assms keys 1 2 3 unfolding ms normalizeRejectionDetails_def
    by (cases d) (simp add: recordOf_def details_ok_def Let_def)
qed

section \<open>The rendered text\<close>

lemma well_formed_append: "well_formed s \<Longrightarrow> well_formed t \<Longrightarrow> well_formed (s @ t)"
proof (induction s rule: well_formed.induct)
  case (2 u us)
  then show ?case by (cases us) (auto split: if_splits)
qed simp

lemma well_formed_ascii: "list_all (\<lambda>u. unat u < 0x80) s \<Longrightarrow> well_formed s"
  by (induction s) (auto simp: is_high_def is_low_def)

lemma not_surrogate: "unat u < 0x80 \<Longrightarrow> \<not> is_high u" "unat u < 0x80 \<Longrightarrow> \<not> is_low u"
  by (simp_all add: is_high_def is_low_def)

lemma hex_digit_ascii: "n < 16 \<Longrightarrow> unat (hex_digit n) < 0x80"
  by (auto simp: hex_digit_def unat_of_nat_16 simp del: of_nat_add)

lemma well_formed_escape: "well_formed (unicode_escape u)"
proof (rule well_formed_ascii)
  have "unat u div 4096 < 16" using unat_lt_16 [of u] by simp
  then show "list_all (\<lambda>u. unat u < 0x80) (unicode_escape u)"
    by (simp add: unicode_escape_def Let_def js_def hex_digit_ascii)
qed

lemma well_formed_quote_one: "\<not> is_high u \<Longrightarrow> \<not> is_low u \<Longrightarrow> well_formed (quote_one u)"
  by (simp add: quote_one_def well_formed_escape not_surrogate)

lemma well_formed_quote_chars: "well_formed (quote_chars s)"
proof (induction s rule: quote_chars.induct)
  case (2 u us)
  then show ?case
    by (cases us) (simp_all add: well_formed_append well_formed_escape well_formed_quote_one)
qed simp

lemma well_formed_quote_string: "well_formed (quote_string s)"
  unfolding quote_string_def
  by (intro well_formed_append well_formed_quote_chars) (auto simp: is_high_def is_low_def)

lemma well_formed_join_comma: "list_all well_formed xs \<Longrightarrow> well_formed (join_comma xs)"
  by (induction xs rule: join_comma.induct)
    (auto intro!: well_formed_append simp: is_high_def is_low_def)

lemma well_formed_stringify: "json_ok v \<Longrightarrow> well_formed (json_stringify v)"
proof (induction v rule: json_stringify.induct)
  case (3 x)
  then obtain a where "json_stringify (JNumber x) = nat_digits a" by (metis json_ok_number)
  moreover have "list_all (\<lambda>u. unat u < 0x80) (nat_digits a)"
    using nat_digits_range [of _ a] by (fastforce simp: list_all_iff)
  ultimately show ?case by (metis well_formed_ascii)
next
  case (5 vs)
  then have "well_formed (join_comma (map json_stringify vs))"
    by (intro well_formed_join_comma) (auto simp: list_all_iff)
  then show ?case by (auto intro!: well_formed_append simp: is_high_def is_low_def)
next
  case (6 ms)
  then have "well_formed (join_comma (map (\<lambda>(k, v). quote_string k @ [colon_unit] @ json_stringify v) ms))"
    by (intro well_formed_join_comma)
      (auto simp: list_all_iff well_formed_quote_string is_high_def is_low_def intro!: well_formed_append)
  then show ?case by (auto intro!: well_formed_append simp: is_high_def is_low_def)
qed (auto simp: js_def is_high_def is_low_def well_formed_quote_string)

lemma details_json_ok: "details_ok d \<Longrightarrow> json_ok (details_json d)"
  by (auto simp: details_ok_def details_json_def list_all_iff js_eq_iff strict_sorted_iff case_prod_unfold comp_def
      split: option.splits)

lemma details_text_ok:
  assumes "details_ok d"
  shows "str_ok (json_stringify (details_json d))"
    and "json_parse (json_stringify (details_json d)) = Some (details_json d)"
  using well_formed_stringify [OF details_json_ok [OF assms]] json_parse_stringify [OF details_json_ok [OF assms]]
  by (auto simp: str_ok_def details_json_def)

end
