(* ===== verification/Frames.thy ===== *)
theory Frames
  imports Segment Rejection_Details
begin

text \<open>
  The SSP2 data model (\<open>core/src/message.ts\<close>, \<open>frames.ts\<close>, \<open>constants.ts\<close>): one record per
  frame, with the optional members of the TypeScript interfaces as options. Numbers that the
  wire carries as integers are \<open>int\<close>.
\<close>

section \<open>Constants\<close>

definition PROTOCOL_WIRE_VERSION :: int where "PROTOCOL_WIRE_VERSION = 2"

definition MINIMUM_PROTOCOL_WIRE_VERSION :: int where "MINIMUM_PROTOCOL_WIRE_VERSION = 1"

definition isSupportedProtocolWireVersion :: "int \<Rightarrow> bool" where
  "isSupportedProtocolWireVersion wireVersion \<longleftrightarrow>
     wireVersion \<ge> MINIMUM_PROTOCOL_WIRE_VERSION \<and> wireVersion \<le> PROTOCOL_WIRE_VERSION"

definition SYNC_PACK_MAGIC :: "byte list" where
  "SYNC_PACK_MAGIC = text_encode (js ''SSP2'')"

datatype FrameTypeName =
    F_END | F_REQ_HEADER | F_PUSH_COMMIT | F_PULL_HEADER | F_SUBSCRIPTION | F_RESP_HEADER
  | F_PUSH_RESULT | F_SUB_START | F_COMMIT | F_SEGMENT_REF | F_SEGMENT_INLINE | F_SUB_END
  | F_LEASE | F_PUSH_RESULT_DETAILS | F_ERROR

fun FrameType :: "FrameTypeName \<Rightarrow> int" where
  "FrameType F_END = 0x00"
| "FrameType F_REQ_HEADER = 0x01"
| "FrameType F_PUSH_COMMIT = 0x02"
| "FrameType F_PULL_HEADER = 0x03"
| "FrameType F_SUBSCRIPTION = 0x04"
| "FrameType F_RESP_HEADER = 0x10"
| "FrameType F_PUSH_RESULT = 0x11"
| "FrameType F_SUB_START = 0x12"
| "FrameType F_COMMIT = 0x13"
| "FrameType F_SEGMENT_REF = 0x14"
| "FrameType F_SEGMENT_INLINE = 0x15"
| "FrameType F_SUB_END = 0x16"
| "FrameType F_LEASE = 0x19"
| "FrameType F_PUSH_RESULT_DETAILS = 0x1b"
| "FrameType F_ERROR = 0x1f"

definition REQUEST_FRAME_TYPES :: "int list" where
  "REQUEST_FRAME_TYPES = map FrameType [F_REQ_HEADER, F_PUSH_COMMIT, F_PULL_HEADER, F_SUBSCRIPTION]"

definition RESPONSE_FRAME_TYPES :: "int list" where
  "RESPONSE_FRAME_TYPES = map FrameType
     [F_RESP_HEADER, F_PUSH_RESULT, F_SUB_START, F_COMMIT, F_SEGMENT_REF, F_SEGMENT_INLINE, F_SUB_END,
      F_LEASE, F_PUSH_RESULT_DETAILS, F_ERROR]"

definition KNOWN_FRAME_TYPES :: "int list" where
  "KNOWN_FRAME_TYPES = FrameType F_END # REQUEST_FRAME_TYPES @ RESPONSE_FRAME_TYPES"

section \<open>Request frames\<close>

record ReqHeaderFrame =
  rqh_clientId :: jsstring
  rqh_schemaVersion :: int
  rqh_logEpoch :: "jsstring option"

datatype OpKind = Upsert | Delete

record PushOperation =
  po_table :: jsstring
  po_rowId :: jsstring
  po_op :: OpKind
  po_baseVersion :: "int option"
  po_payload :: "byte list option"

record PushCommitFrame =
  pc_clientCommitId :: jsstring
  pc_operations :: "PushOperation list"

record PullHeaderFrame =
  ph_limitCommits :: int
  ph_limitSnapshotRows :: int
  ph_maxSnapshotPages :: int
  ph_accept :: int

record SubscriptionFrame =
  sb_id :: jsstring
  sb_table :: jsstring
  sb_scopes :: scope_map
  sb_params :: "jsstring option"
  sb_cursor :: int
  sb_bootstrapState :: "jsstring option"

record UnknownFrame =
  uk_frameType :: int
  uk_payload :: "byte list"

datatype RequestFrame =
    ReqHeader ReqHeaderFrame
  | PushCommit PushCommitFrame
  | PullHeader PullHeaderFrame
  | Subscription SubscriptionFrame
  | ReqUnknown UnknownFrame

section \<open>Response frames\<close>

record RespHeaderFrame =
  rsh_requiredSchemaVersion :: "int option"
  rsh_latestSchemaVersion :: "int option"
  rsh_logEpoch :: "jsstring option"
  rsh_resetRequired :: "bool option"

record LeaseFrame =
  ls_leaseId :: jsstring
  ls_expiresAtMs :: int

datatype PushOperationResult =
    OpApplied (opIndex: int)
  | OpConflict (opIndex: int) (op_code: jsstring) (op_message: jsstring) (op_serverVersion: int) (op_serverRow: "byte list")
  | OpError (opIndex: int) (op_code: jsstring) (op_message: jsstring) (op_retryable: bool) (op_details: "RejectionDetails option")

datatype PushStatus = PushApplied | PushCached | PushRejected

record PushResultFrame =
  pr_clientCommitId :: jsstring
  pr_status :: PushStatus
  pr_commitSeq :: "int option"
  pr_results :: "PushOperationResult list"

record DetailsEntry =
  de_opIndex :: int
  de_details :: RejectionDetails

record PushResultDetailsFrame =
  prd_clientCommitId :: jsstring
  prd_entries :: "DetailsEntry list"

datatype SubStatus = SubActive | SubRevoked | SubReset

record SubStartFrame =
  ss_id :: jsstring
  ss_status :: SubStatus
  ss_reasonCode :: jsstring
  ss_effectiveScopes :: scope_map
  ss_bootstrap :: bool

record CommitChange =
  cc_tableIndex :: int
  cc_rowId :: jsstring
  cc_op :: OpKind
  cc_rowVersion :: "int option"
  cc_scopes :: string_map
  cc_row :: "byte list option"

record CommitFrame =
  cf_commitSeq :: int
  cf_createdAtMs :: int
  cf_actorId :: jsstring
  cf_tables :: "jsstring list"
  cf_changes :: "CommitChange list"

datatype SegmentMediaType = MediaRows | MediaSqlite

record SegmentRefFrame =
  sg_segmentId :: jsstring
  sg_mediaType :: SegmentMediaType
  sg_table :: jsstring
  sg_byteLength :: int
  sg_rowCount :: int
  sg_asOfCommitSeq :: int
  sg_scopeDigest :: jsstring
  sg_rowCursor :: "jsstring option"
  sg_nextRowCursor :: "jsstring option"
  sg_url :: "jsstring option"
  sg_urlExpiresAtMs :: "int option"

record SubEndFrame =
  se_nextCursor :: int
  se_bootstrapState :: "jsstring option"

record ErrorFrame =
  ef_code :: jsstring
  ef_message :: jsstring
  ef_category :: jsstring
  ef_retryable :: bool
  ef_recommendedAction :: jsstring
  ef_details :: "jsstring option"

datatype ResponseFrame =
    RespHeader RespHeaderFrame
  | Lease LeaseFrame
  | PushResult PushResultFrame
  | PushResultDetails PushResultDetailsFrame
  | SubStart SubStartFrame
  | Commit CommitFrame
  | SegmentRef SegmentRefFrame
  | SegmentInline "byte list"
  | SubEnd SubEndFrame
  | ErrorF ErrorFrame
  | RespUnknown UnknownFrame

datatype SyncMessage =
    RequestMessage int "RequestFrame list"
  | ResponseMessage int "ResponseFrame list"

lemma pack_magic_bytes: "SYNC_PACK_MAGIC = [83, 83, 80, 50]"
  by (simp add: SYNC_PACK_MAGIC_def js_def text_encode_eval)

end
