(* ===== verification/Grammar.thy ===== *)
theory Grammar
  imports Frames
begin

text \<open>
  The frame grammar of \<open>core/src/message.ts\<close> (\<open>validateRequestSequence\<close>,
  \<open>validateResponseSequence\<close>): one pass with a few flags. The results relate the passes to
  declarative descriptions of the accepted sequences, with unknown frames anywhere.
\<close>

section \<open>The validators\<close>

record request_state =
  rq_pushCount :: nat
  rq_hasPull :: bool

definition requestStep :: "request_state \<Rightarrow> RequestFrame \<Rightarrow> request_state result" where
  "requestStep st frame =
     (case frame of
        ReqHeader _ \<Rightarrow> Inl invalid_request
      | PushCommit _ \<Rightarrow> if rq_hasPull st then Inl invalid_request
                        else Inr (st\<lparr>rq_pushCount := rq_pushCount st + 1\<rparr>)
      | PullHeader _ \<Rightarrow> if rq_hasPull st then Inl invalid_request else Inr (st\<lparr>rq_hasPull := True\<rparr>)
      | Subscription _ \<Rightarrow> if \<not> rq_hasPull st then Inl invalid_request else Inr st
      | ReqUnknown _ \<Rightarrow> Inr st)"

fun foldE :: "('s \<Rightarrow> 'a \<Rightarrow> 's result) \<Rightarrow> 's \<Rightarrow> 'a list \<Rightarrow> 's result" where
  "foldE f s [] = Inr s"
| "foldE f s (x # xs) = bindE (f s x) (\<lambda>s'. foldE f s' xs)"

definition validateRequestSequence :: "RequestFrame list \<Rightarrow> unit result" where
  "validateRequestSequence frames =
     (case frames of
        ReqHeader _ # rest \<Rightarrow>
          bindE (foldE requestStep \<lparr>rq_pushCount = 0, rq_hasPull = False\<rparr> rest) (\<lambda>st.
            if rq_pushCount st = 0 \<and> \<not> rq_hasPull st then Inl invalid_request else Inr ())
      | _ \<Rightarrow> Inl invalid_request)"

record response_state =
  rst_inSubscription :: bool
  rst_sawSubscription :: bool
  rst_sawLease :: bool
  rst_sawBody :: bool
  rst_hasCommits :: bool
  rst_hasSegments :: bool
  rst_errorSeen :: bool
  rst_lastPushResult :: "PushResultFrame option"
  rst_lastHasDetails :: bool

definition response_start :: response_state where
  "response_start = \<lparr>rst_inSubscription = False, rst_sawSubscription = False, rst_sawLease = False,
     rst_sawBody = False, rst_hasCommits = False, rst_hasSegments = False, rst_errorSeen = False,
     rst_lastPushResult = None, rst_lastHasDetails = False\<rparr>"

definition errorIndexes :: "PushResultFrame \<Rightarrow> int list" where
  "errorIndexes result = concat (map (\<lambda>r. case r of OpError i _ _ _ _ \<Rightarrow> [i] | _ \<Rightarrow> []) (pr_results result))"

definition detailsStep :: "response_state \<Rightarrow> PushResultDetailsFrame \<Rightarrow> response_state result" where
  "detailsStep st frame =
     (if rst_sawSubscription st then Inl invalid_request
      else case rst_lastPushResult st of
        None \<Rightarrow> Inl invalid_request
      | Some result \<Rightarrow>
          if rst_lastHasDetails st then Inl invalid_request
          else if pr_clientCommitId result \<noteq> prd_clientCommitId frame \<or> pr_status result \<noteq> PushRejected
          then Inl invalid_request
          else if list_ex (\<lambda>entry. de_opIndex entry \<notin> set (errorIndexes result)) (prd_entries frame)
          then Inl invalid_request
          else Inr (st\<lparr>rst_lastHasDetails := True, rst_sawBody := True\<rparr>))"

definition segmentStep :: "response_state \<Rightarrow> response_state result" where
  "segmentStep st =
     (if \<not> rst_inSubscription st then Inl invalid_request
      else if rst_hasCommits st then Inl invalid_request
      else Inr (st\<lparr>rst_hasSegments := True\<rparr>))"

definition responseStep :: "response_state \<Rightarrow> ResponseFrame \<Rightarrow> response_state result" where
  "responseStep st frame =
     (if rst_errorSeen st then Inl invalid_request
      else case frame of
        RespHeader _ \<Rightarrow> Inl invalid_request
      | Lease _ \<Rightarrow>
          if rst_sawLease st then Inl invalid_request
          else if rst_sawBody st then Inl invalid_request
          else Inr (st\<lparr>rst_sawLease := True\<rparr>)
      | PushResult result \<Rightarrow>
          if rst_sawSubscription st then Inl invalid_request
          else Inr (st\<lparr>rst_lastPushResult := Some result, rst_lastHasDetails := False, rst_sawBody := True\<rparr>)
      | PushResultDetails details \<Rightarrow> detailsStep st details
      | SubStart _ \<Rightarrow>
          if rst_inSubscription st then Inl invalid_request
          else Inr (st\<lparr>rst_inSubscription := True, rst_sawSubscription := True, rst_sawBody := True,
                       rst_hasCommits := False, rst_hasSegments := False\<rparr>)
      | Commit _ \<Rightarrow>
          if \<not> rst_inSubscription st then Inl invalid_request
          else if rst_hasSegments st then Inl invalid_request
          else Inr (st\<lparr>rst_hasCommits := True\<rparr>)
      | SegmentRef _ \<Rightarrow> segmentStep st
      | SegmentInline _ \<Rightarrow> segmentStep st
      | SubEnd _ \<Rightarrow>
          if \<not> rst_inSubscription st then Inl invalid_request
          else Inr (st\<lparr>rst_inSubscription := False\<rparr>)
      | ErrorF _ \<Rightarrow> Inr (st\<lparr>rst_errorSeen := True, rst_sawBody := True\<rparr>)
      | RespUnknown _ \<Rightarrow> Inr (st\<lparr>rst_sawBody := True\<rparr>))"

definition validateResponseSequence :: "ResponseFrame list \<Rightarrow> unit result" where
  "validateResponseSequence frames =
     (case frames of
        RespHeader _ # rest \<Rightarrow>
          bindE (foldE responseStep response_start rest) (\<lambda>st.
            if rst_inSubscription st \<and> \<not> rst_errorSeen st then Inl invalid_request else Inr ())
      | _ \<Rightarrow> Inl invalid_request)"

definition validateFrameSequence :: "SyncMessage \<Rightarrow> unit result" where
  "validateFrameSequence message =
     (case message of
        RequestMessage _ frames \<Rightarrow> validateRequestSequence frames
      | ResponseMessage _ frames \<Rightarrow> validateResponseSequence frames)"

section \<open>Requests\<close>

lemma foldE_append: "foldE f s (xs @ ys) = bindE (foldE f s xs) (\<lambda>s'. foldE f s' ys)"
proof (induction xs arbitrary: s)
  case (Cons x xs)
  then show ?case by (cases "f s x") auto
qed simp

definition is_push :: "RequestFrame \<Rightarrow> bool" where
  "is_push f = (case f of PushCommit _ \<Rightarrow> True | _ \<Rightarrow> False)"

definition is_pull :: "RequestFrame \<Rightarrow> bool" where
  "is_pull f = (case f of PullHeader _ \<Rightarrow> True | _ \<Rightarrow> False)"

definition is_subscription :: "RequestFrame \<Rightarrow> bool" where
  "is_subscription f = (case f of Subscription _ \<Rightarrow> True | _ \<Rightarrow> False)"

definition is_known :: "RequestFrame \<Rightarrow> bool" where
  "is_known f = (case f of ReqUnknown _ \<Rightarrow> False | _ \<Rightarrow> True)"

text \<open>
  The request grammar: push commits, then optionally one pull header with its
  subscriptions, and not nothing.
\<close>

definition request_grammar :: "RequestFrame list \<Rightarrow> bool" where
  "request_grammar known \<longleftrightarrow>
     (list_all is_push known \<and> known \<noteq> [])
     \<or> (\<exists>pushes pull subs. known = pushes @ pull # subs \<and> list_all is_push pushes \<and> is_pull pull
          \<and> list_all is_subscription subs)"

lemmas frame_kind_defs = is_push_def is_pull_def is_subscription_def is_known_def

lemma after_pull:
  "foldE requestStep \<lparr>rq_pushCount = n, rq_hasPull = True\<rparr> fs = Inr st \<longleftrightarrow>
     st = \<lparr>rq_pushCount = n, rq_hasPull = True\<rparr> \<and> list_all is_subscription (filter is_known fs)"
  by (induction fs) (auto simp: requestStep_def frame_kind_defs split: RequestFrame.splits)

definition pull_form :: "nat \<Rightarrow> RequestFrame list \<Rightarrow> request_state \<Rightarrow> bool" where
  "pull_form n known st \<longleftrightarrow> (\<exists>pushes pull subs. known = pushes @ pull # subs \<and> list_all is_push pushes
     \<and> is_pull pull \<and> list_all is_subscription subs \<and> st = \<lparr>rq_pushCount = n + length pushes, rq_hasPull = True\<rparr>)"

lemma pull_form_Nil [simp]: "\<not> pull_form n [] st"
  by (simp add: pull_form_def)

lemma pull_form_Cons:
  "pull_form n (x # xs) st \<longleftrightarrow>
     (is_pull x \<and> list_all is_subscription xs \<and> st = \<lparr>rq_pushCount = n, rq_hasPull = True\<rparr>)
     \<or> (is_push x \<and> pull_form (Suc n) xs st)" (is "?L \<longleftrightarrow> ?P \<or> ?Q")
proof
  assume ?L
  then obtain pushes pull subs where p: "x # xs = pushes @ pull # subs" "list_all is_push pushes"
    "is_pull pull" "list_all is_subscription subs" "st = \<lparr>rq_pushCount = n + length pushes, rq_hasPull = True\<rparr>"
    unfolding pull_form_def by blast
  then show "?P \<or> ?Q" by (cases pushes) (auto simp: pull_form_def)
next
  assume "?P \<or> ?Q"
  then show ?L
  proof
    assume ?P
    then show ?L unfolding pull_form_def by (intro exI [of _ "[]"]) auto
  next
    assume ?Q
    then obtain pushes pull subs where "xs = pushes @ pull # subs" "list_all is_push pushes" "is_pull pull"
      "list_all is_subscription subs" "st = \<lparr>rq_pushCount = Suc n + length pushes, rq_hasPull = True\<rparr>"
      unfolding pull_form_def by blast
    with \<open>?Q\<close> show ?L unfolding pull_form_def by (intro exI [of _ "x # pushes"] exI [of _ pull] exI [of _ subs]) simp
  qed
qed

lemma before_pull:
  "foldE requestStep \<lparr>rq_pushCount = n, rq_hasPull = False\<rparr> fs = Inr st \<longleftrightarrow>
     (st = \<lparr>rq_pushCount = n + length (filter is_known fs), rq_hasPull = False\<rparr> \<and> list_all is_push (filter is_known fs))
   \<or> pull_form n (filter is_known fs) st"
  by (induction fs arbitrary: n)
    (auto simp: requestStep_def frame_kind_defs pull_form_Cons after_pull split: RequestFrame.splits)

lemma validateRequest_grammar:
  "validateRequestSequence frames = Inr () \<longleftrightarrow>
     (\<exists>h rest. frames = ReqHeader h # rest \<and> request_grammar (filter is_known rest))"
proof (cases frames)
  case (Cons f rest)
  show ?thesis
  proof (cases f)
    case (ReqHeader h)
    have "validateRequestSequence frames = Inr () \<longleftrightarrow>
        (\<exists>st. foldE requestStep \<lparr>rq_pushCount = 0, rq_hasPull = False\<rparr> rest = Inr st
           \<and> \<not> (rq_pushCount st = 0 \<and> \<not> rq_hasPull st))"
      by (auto simp: Cons ReqHeader validateRequestSequence_def bindE_eq_Inr)
    also have "\<dots> \<longleftrightarrow> request_grammar (filter is_known rest)"
      unfolding before_pull request_grammar_def ex_disj_distrib conj_disj_distribR pull_form_def
      by (rule arg_cong2 [of _ _ _ _ "(\<or>)"]) (simp, fastforce)
    finally show ?thesis by (simp add: Cons ReqHeader)
  qed (auto simp: Cons validateRequestSequence_def)
qed (simp add: validateRequestSequence_def)

section \<open>Responses\<close>

definition resp_known :: "ResponseFrame \<Rightarrow> bool" where
  "resp_known f = (case f of RespUnknown _ \<Rightarrow> False | _ \<Rightarrow> True)"

definition is_commit :: "ResponseFrame \<Rightarrow> bool" where
  "is_commit f = (case f of Commit _ \<Rightarrow> True | _ \<Rightarrow> False)"

definition is_segment :: "ResponseFrame \<Rightarrow> bool" where
  "is_segment f = (case f of SegmentRef _ \<Rightarrow> True | SegmentInline _ \<Rightarrow> True | _ \<Rightarrow> False)"

definition is_error :: "ResponseFrame \<Rightarrow> bool" where
  "is_error f = (case f of ErrorF _ \<Rightarrow> True | _ \<Rightarrow> False)"

text \<open>A companion frame belongs to the rejected result it follows.\<close>

definition details_match :: "PushResultFrame \<Rightarrow> PushResultDetailsFrame \<Rightarrow> bool" where
  "details_match p d \<longleftrightarrow> pr_clientCommitId p = prd_clientCommitId d \<and> pr_status p = PushRejected
     \<and> list_all (\<lambda>entry. de_opIndex entry \<in> set (errorIndexes p)) (prd_entries d)"

definition section_body :: "ResponseFrame list \<Rightarrow> bool" where
  "section_body body \<longleftrightarrow> list_all is_commit body \<or> list_all is_segment body"

text \<open>
  The grammar: push results with their optional companions, then subscription sections, each
  with commits or with segments but not both; an error ends the message wherever it occurs,
  also inside an open section. Frames of unknown type may stand anywhere but behind it.
\<close>

inductive sections :: "ResponseFrame list \<Rightarrow> bool" where
  sections_end: "sections []"
| sections_error: "sections [ErrorF e]"
| sections_open: "section_body body \<Longrightarrow> sections (SubStart s # body @ [ErrorF e])"
| sections_closed: "section_body body \<Longrightarrow> sections fs \<Longrightarrow> sections (SubStart s # body @ SubEnd e # fs)"

inductive push_results :: "ResponseFrame list \<Rightarrow> bool" where
  push_results_end: "sections fs \<Longrightarrow> push_results fs"
| push_results_plain: "push_results fs \<Longrightarrow> push_results (PushResult p # fs)"
| push_results_details:
    "details_match p d \<Longrightarrow> push_results fs \<Longrightarrow> push_results (PushResult p # PushResultDetails d # fs)"

definition response_grammar :: "ResponseFrame list \<Rightarrow> bool" where
  "response_grammar rest \<longleftrightarrow>
     push_results (filter resp_known (case rest of Lease _ # tail \<Rightarrow> tail | _ \<Rightarrow> rest))
     \<and> \<not> list_ex is_error (butlast rest)"

inductive_simps sections_Cons: "sections (f # fs)"
inductive_simps push_results_Cons: "push_results (f # fs)"

lemmas resp_kind_defs = is_error_def resp_known_def is_commit_def is_segment_def

text \<open>What may follow an open section, by what the section holds so far.\<close>

definition body_ok :: "bool \<Rightarrow> bool \<Rightarrow> ResponseFrame list \<Rightarrow> bool" where
  "body_ok commits segments body \<longleftrightarrow>
     (commits \<longrightarrow> list_all is_commit body) \<and> (segments \<longrightarrow> list_all is_segment body) \<and> section_body body"

definition inside :: "bool \<Rightarrow> bool \<Rightarrow> ResponseFrame list \<Rightarrow> bool" where
  "inside commits segments fs \<longleftrightarrow> (\<exists>body rest. fs = body @ rest \<and> body_ok commits segments body
     \<and> ((\<exists>e. rest = [ErrorF e]) \<or> (\<exists>e gs. rest = SubEnd e # gs \<and> sections gs)))"

lemma inside_Nil: "\<not> inside c s []"
  by (simp add: inside_def)

lemma body_ok_Nil: "body_ok c s []"
  by (simp add: body_ok_def section_body_def)

lemma insideI_rest: "(\<exists>e. fs = [ErrorF e]) \<or> (\<exists>e gs. fs = SubEnd e # gs \<and> sections gs) \<Longrightarrow> inside c s fs"
  unfolding inside_def using body_ok_Nil by (intro exI [of _ "[]"] exI [of _ fs]) auto

lemma insideE_Cons:
  assumes "inside c s (f # fs)"
  obtains "\<exists>e. f # fs = [ErrorF e]" | "\<exists>e. f = SubEnd e \<and> sections fs"
    | body rest where "fs = body @ rest" "body_ok c s (f # body)"
      "(\<exists>e. rest = [ErrorF e]) \<or> (\<exists>e gs. rest = SubEnd e # gs \<and> sections gs)"
proof -
  obtain body rest where b: "f # fs = body @ rest" "body_ok c s body"
    "(\<exists>e. rest = [ErrorF e]) \<or> (\<exists>e gs. rest = SubEnd e # gs \<and> sections gs)"
    using assms unfolding inside_def by blast
  then show thesis using that by (cases body) auto
qed

lemma inside_commit:
  assumes "is_commit f"
  shows "inside c s (f # fs) \<longleftrightarrow> \<not> s \<and> inside True False fs"
proof
  have k: "\<not> is_segment f" using assms by (auto simp: resp_kind_defs split: ResponseFrame.splits)
  assume "inside c s (f # fs)"
  then show "\<not> s \<and> inside True False fs"
  proof (cases rule: insideE_Cons)
    case (3 body rest)
    have "\<not> s" "body_ok True False body" using 3(2) k by (auto simp: body_ok_def section_body_def)
    with 3 show ?thesis unfolding inside_def by blast
  qed (use assms in \<open>auto simp: resp_kind_defs\<close>)
next
  assume a: "\<not> s \<and> inside True False fs"
  then obtain body rest where b: "fs = body @ rest" "body_ok True False body"
    "(\<exists>e. rest = [ErrorF e]) \<or> (\<exists>e gs. rest = SubEnd e # gs \<and> sections gs)" unfolding inside_def by blast
  have "body_ok c s (f # body)" using a b(2) assms by (auto simp: body_ok_def section_body_def)
  with b(1,3) show "inside c s (f # fs)" unfolding inside_def by (intro exI [of _ "f # body"] exI [of _ rest]) auto
qed

lemma inside_segment:
  assumes "is_segment f"
  shows "inside c s (f # fs) \<longleftrightarrow> \<not> c \<and> inside False True fs"
proof
  have k: "\<not> is_commit f" using assms by (auto simp: resp_kind_defs split: ResponseFrame.splits)
  assume "inside c s (f # fs)"
  then show "\<not> c \<and> inside False True fs"
  proof (cases rule: insideE_Cons)
    case (3 body rest)
    have "\<not> c" "body_ok False True body" using 3(2) k by (auto simp: body_ok_def section_body_def)
    with 3 show ?thesis unfolding inside_def by blast
  qed (use assms in \<open>auto simp: resp_kind_defs\<close>)
next
  assume a: "\<not> c \<and> inside False True fs"
  then obtain body rest where b: "fs = body @ rest" "body_ok False True body"
    "(\<exists>e. rest = [ErrorF e]) \<or> (\<exists>e gs. rest = SubEnd e # gs \<and> sections gs)" unfolding inside_def by blast
  have "body_ok c s (f # body)" using a b(2) assms by (auto simp: body_ok_def section_body_def)
  with b(1,3) show "inside c s (f # fs)" unfolding inside_def by (intro exI [of _ "f # body"] exI [of _ rest]) auto
qed

lemma inside_other:
  assumes "\<not> is_commit f" "\<not> is_segment f"
  shows "inside c s (f # fs) \<longleftrightarrow> (case f of ErrorF _ \<Rightarrow> fs = [] | SubEnd _ \<Rightarrow> sections fs | _ \<Rightarrow> False)"
proof
  assume "inside c s (f # fs)"
  then show "case f of ErrorF _ \<Rightarrow> fs = [] | SubEnd _ \<Rightarrow> sections fs | _ \<Rightarrow> False"
    by (cases rule: insideE_Cons) (use assms in \<open>auto simp: body_ok_def section_body_def\<close>)
qed (auto intro!: insideI_rest split: ResponseFrame.splits)

lemma inside_simps [simp]:
  "inside c s (Commit x1 # fs) \<longleftrightarrow> \<not> s \<and> inside True False fs"
  "inside c s (SegmentRef x2 # fs) \<longleftrightarrow> \<not> c \<and> inside False True fs"
  "inside c s (SegmentInline x3 # fs) \<longleftrightarrow> \<not> c \<and> inside False True fs"
  "inside c s (SubEnd x4 # fs) \<longleftrightarrow> sections fs"
  "inside c s (ErrorF x5 # fs) \<longleftrightarrow> fs = []"
  "\<not> inside c s (RespHeader x6 # fs)" "\<not> inside c s (Lease x7 # fs)" "\<not> inside c s (PushResult x8 # fs)"
  "\<not> inside c s (PushResultDetails x9 # fs)" "\<not> inside c s (SubStart x10 # fs)"
  by (simp_all add: inside_commit inside_segment inside_other is_commit_def is_segment_def)

lemma sections_inside:
  "sections (f # fs) \<longleftrightarrow> (case f of ErrorF _ \<Rightarrow> fs = [] | SubStart _ \<Rightarrow> inside False False fs | _ \<Rightarrow> False)"
proof (cases f)
  case (SubStart s)
  have "sections (SubStart s # fs) \<longleftrightarrow> inside False False fs"
    unfolding inside_def body_ok_def by (subst sections_Cons) (simp, blast)
  with SubStart show ?thesis by simp
qed (auto simp: sections_Cons)

section \<open>The response validator decides the grammar\<close>

fun accepts :: "response_state \<Rightarrow> ResponseFrame list \<Rightarrow> bool" where
  "accepts st [] \<longleftrightarrow> \<not> (rst_inSubscription st \<and> \<not> rst_errorSeen st)"
| "accepts st (f # fs) \<longleftrightarrow> (case responseStep st f of Inl _ \<Rightarrow> False | Inr st' \<Rightarrow> accepts st' fs)"

lemma accepts_fold:
  "bindE (foldE responseStep st fs) (\<lambda>st. if rst_inSubscription st \<and> \<not> rst_errorSeen st then Inl invalid_request else Inr ())
     = Inr () \<longleftrightarrow> accepts st fs"
proof (induction fs arbitrary: st)
  case (Cons f fs)
  then show ?case by (cases "responseStep st f") auto
qed simp

lemma accepts_error: "rst_errorSeen st \<Longrightarrow> accepts st fs \<longleftrightarrow> fs = []"
  by (cases fs) (auto simp: responseStep_def)

lemma sections_Nil [simp]: "sections []"
  by (rule sections_end)

lemma accepts_sections:
  assumes "rst_sawBody st" "\<not> rst_errorSeen st" "rst_sawSubscription st" "list_all resp_known fs"
  shows "accepts st fs \<longleftrightarrow>
    (if rst_inSubscription st then inside (rst_hasCommits st) (rst_hasSegments st) fs else sections fs)"
  using assms
proof (induction fs arbitrary: st)
  case Nil
  then show ?case by (simp add: inside_Nil)
next
  case (Cons f fs)
  then show ?case
    by (cases f) (simp_all add: responseStep_def segmentStep_def detailsStep_def sections_inside accepts_error
        resp_known_def)
qed

definition pending :: "response_state \<Rightarrow> PushResultDetailsFrame \<Rightarrow> bool" where
  "pending st d \<longleftrightarrow> (case rst_lastPushResult st of None \<Rightarrow> False
     | Some p \<Rightarrow> \<not> rst_lastHasDetails st \<and> details_match p d)"

lemma push_results_head:
  "push_results (f # fs) \<longleftrightarrow>
     (case f of PushResult p \<Rightarrow> push_results fs \<or> (\<exists>d gs. fs = PushResultDetails d # gs \<and> details_match p d \<and> push_results gs)
      | _ \<Rightarrow> sections (f # fs))"
  by (cases f) (auto simp: push_results_Cons sections_inside)

lemma accepts_push_results:
  assumes "rst_sawBody st" "\<not> rst_errorSeen st" "\<not> rst_sawSubscription st" "\<not> rst_inSubscription st"
    "list_all resp_known fs"
  shows "accepts st fs \<longleftrightarrow>
    push_results fs \<or> (\<exists>d gs. fs = PushResultDetails d # gs \<and> pending st d \<and> push_results gs)"
  using assms
proof (induction fs arbitrary: st)
  case Nil
  then show ?case by (auto intro: push_results_end)
next
  case (Cons f fs)
  have e: "\<not> list_ex (\<lambda>entry. de_opIndex entry \<notin> set (errorIndexes p)) (prd_entries d) \<longleftrightarrow>
      list_all (\<lambda>entry. de_opIndex entry \<in> set (errorIndexes p)) (prd_entries d)" for p d
    by (auto simp: list_ex_iff list_all_iff)
  show ?case
  proof (cases f)
    case (PushResultDetails d)
    have "accepts st (f # fs) \<longleftrightarrow> pending st d \<and> accepts (st\<lparr>rst_lastHasDetails := True, rst_sawBody := True\<rparr>) fs"
      using Cons.prems e by (auto simp: PushResultDetails responseStep_def detailsStep_def pending_def details_match_def
          split: option.splits)
    also have "accepts (st\<lparr>rst_lastHasDetails := True, rst_sawBody := True\<rparr>) fs \<longleftrightarrow> push_results fs"
      using Cons.prems by (subst Cons.IH) (auto simp: pending_def split: option.splits)
    finally show ?thesis by (auto simp: PushResultDetails push_results_head sections_inside)
  next
    case (PushResult p)
    have "accepts st (f # fs) \<longleftrightarrow>
        accepts (st\<lparr>rst_lastPushResult := Some p, rst_lastHasDetails := False, rst_sawBody := True\<rparr>) fs"
      using Cons.prems by (simp add: PushResult responseStep_def)
    also have "\<dots> \<longleftrightarrow> push_results (f # fs)"
      using Cons.prems by (subst Cons.IH) (auto simp: pending_def PushResult push_results_head)
    finally show ?thesis by (simp add: PushResult)
  next
    case (SubStart s)
    then show ?thesis
      using Cons.prems by (simp add: responseStep_def accepts_sections push_results_head sections_inside)
  qed (use Cons.prems in \<open>auto simp: responseStep_def segmentStep_def push_results_head sections_inside
      accepts_error resp_kind_defs\<close>)
qed

lemma accepts_known:
  assumes "rst_sawBody st" "\<not> rst_errorSeen st"
  shows "accepts st fs \<longleftrightarrow> accepts st (filter resp_known fs) \<and> \<not> list_ex is_error (butlast fs)"
  using assms
proof (induction fs arbitrary: st)
  case (Cons f fs)
  have step: "responseStep st f = Inr st' \<Longrightarrow> rst_sawBody st' \<and> rst_errorSeen st' = is_error f" for st'
    using Cons.prems by (auto simp: responseStep_def detailsStep_def segmentStep_def is_error_def
        split: ResponseFrame.splits if_splits option.splits)
  show ?case
  proof (cases "is_error f")
    case True
    then have "resp_known f" by (auto simp: resp_kind_defs split: ResponseFrame.splits)
    with True show ?thesis using step by (auto simp: accepts_error split: sum.splits)
  next
    case False
    show ?thesis
    proof (cases "resp_known f")
      case True
      with False Cons.IH step show ?thesis by (auto split: sum.splits)
    next
      case unknown: False
      then have "responseStep st f = Inr st"
        using Cons.prems by (auto simp: resp_known_def responseStep_def split: ResponseFrame.splits)
      with Cons.IH [OF Cons.prems] unknown False show ?thesis by auto
    qed
  qed
qed simp

text \<open>Before any body frame a lease is possible; otherwise the flag makes no difference.\<close>

lemma accepts_body_flag:
  assumes "rst_sawLease st \<or> (\<forall>l gs. fs \<noteq> Lease l # gs)" and "\<not> rst_inSubscription st"
    and "rst_lastPushResult st = None" and "\<not> rst_errorSeen st"
  shows "accepts st fs \<longleftrightarrow> accepts (st\<lparr>rst_sawBody := True\<rparr>) fs"
proof (cases fs)
  case (Cons f gs)
  show ?thesis
    using assms by (cases f) (auto simp: Cons responseStep_def detailsStep_def segmentStep_def)
qed simp

lemma accepts_from_start:
  assumes "rst_sawBody st" "\<not> rst_errorSeen st" "\<not> rst_sawSubscription st" "\<not> rst_inSubscription st"
    and "rst_lastPushResult st = None"
  shows "accepts st fs \<longleftrightarrow> push_results (filter resp_known fs) \<and> \<not> list_ex is_error (butlast fs)"
  using assms accepts_known [of st fs] accepts_push_results [of st "filter resp_known fs"]
  by (auto simp: pending_def list_all_iff)

lemma accepts_start: "accepts response_start rest \<longleftrightarrow> response_grammar rest"
proof (cases "\<exists>l gs. rest = Lease l # gs")
  case True
  then obtain l gs where r: "rest = Lease l # gs" by blast
  have "accepts response_start rest \<longleftrightarrow> accepts (response_start\<lparr>rst_sawLease := True\<rparr>) gs"
    by (simp add: r responseStep_def response_start_def)
  also have "\<dots> \<longleftrightarrow> accepts (response_start\<lparr>rst_sawLease := True, rst_sawBody := True\<rparr>) gs"
    by (subst accepts_body_flag) (simp_all add: response_start_def)
  also have "\<dots> \<longleftrightarrow> response_grammar rest"
    by (subst accepts_from_start) (auto simp: response_start_def response_grammar_def r is_error_def)
  finally show ?thesis .
next
  case False
  then have g: "(case rest of Lease _ # tail \<Rightarrow> tail | _ \<Rightarrow> rest) = rest"
    by (auto split: list.splits ResponseFrame.splits)
  have "accepts response_start rest \<longleftrightarrow> accepts (response_start\<lparr>rst_sawBody := True\<rparr>) rest"
    using False by (intro accepts_body_flag) (auto simp: response_start_def)
  also have "\<dots> \<longleftrightarrow> response_grammar rest"
    unfolding response_grammar_def g by (subst accepts_from_start) (auto simp: response_start_def)
  finally show ?thesis .
qed

lemma validateResponse_grammar:
  "validateResponseSequence frames = Inr () \<longleftrightarrow>
     (\<exists>h rest. frames = RespHeader h # rest \<and> response_grammar rest)"
  by (auto simp: validateResponseSequence_def accepts_fold accepts_start split: list.splits ResponseFrame.splits)

lemma foldE_error:
  "(\<And>s x e. f s x = Inl e \<Longrightarrow> e = d) \<Longrightarrow> foldE f s xs = Inl e \<Longrightarrow> e = d"
  by (induction xs arbitrary: s) (auto simp: bindE_eq_Inl)

lemma requestStep_error: "requestStep st f = Inl e \<Longrightarrow> e = invalid_request"
  by (auto simp: requestStep_def split: RequestFrame.splits if_splits)

lemma responseStep_error: "responseStep st f = Inl e \<Longrightarrow> e = invalid_request"
  by (auto simp: responseStep_def detailsStep_def segmentStep_def
      split: ResponseFrame.splits if_splits option.splits)

lemma requestFold_error: "foldE requestStep st fs = Inl e \<Longrightarrow> e = invalid_request"
  using requestStep_error by (rule foldE_error)

lemma responseFold_error: "foldE responseStep st fs = Inl e \<Longrightarrow> e = invalid_request"
  using responseStep_error by (rule foldE_error)

lemma validateFrameSequence_error: "validateFrameSequence m = Inl e \<Longrightarrow> e = invalid_request"
  by (auto simp: validateFrameSequence_def validateRequestSequence_def validateResponseSequence_def bindE_eq_Inl
      split: SyncMessage.splits list.splits RequestFrame.splits ResponseFrame.splits if_splits
      dest: requestFold_error responseFold_error)

end
