(* ===== verification/Message.thy ===== *)
theory Message
  imports Grammar
begin

text \<open>
  The SSP2 envelope codec (\<open>core/src/message.ts\<close>): one encoder and one decoder per frame,
  the dispatch on the frame type, the frame loop and the message level. Encoders throw plain
  errors, decoders named ones. The results: decoding an encoded message gives the message in
  canonical form (maps in key order, rejection details normalized, details of push results
  moved out to their companion frame), and what a decoded message satisfies.
\<close>

section \<open>Shared readers\<close>

definition requireJsonDocument :: "jsstring reader" where
  "requireJsonDocument = bindR r_str (\<lambda>raw. case json_parse raw of
     None \<Rightarrow> failR invalid_request | Some _ \<Rightarrow> returnR raw)"

definition r_nonempty :: "jsstring reader" where
  "r_nonempty = bindR r_str (\<lambda>value. if length value = 0 then failR invalid_request else returnR value)"

definition r_op :: "OpKind reader" where
  "r_op = bindR r_u8 (\<lambda>opByte.
     if opByte = 1 then returnR Upsert else if opByte = 2 then returnR Delete else failR invalid_request)"

fun OP_BYTES :: "OpKind \<Rightarrow> int" where
  "OP_BYTES Upsert = 1"
| "OP_BYTES Delete = 2"

fun PUSH_STATUS_BYTES :: "PushStatus \<Rightarrow> int" where
  "PUSH_STATUS_BYTES PushApplied = 1"
| "PUSH_STATUS_BYTES PushCached = 2"
| "PUSH_STATUS_BYTES PushRejected = 3"

fun SUB_STATUS_BYTES :: "SubStatus \<Rightarrow> int" where
  "SUB_STATUS_BYTES SubActive = 1"
| "SUB_STATUS_BYTES SubRevoked = 2"
| "SUB_STATUS_BYTES SubReset = 3"

fun MEDIA_TYPE_BYTES :: "SegmentMediaType \<Rightarrow> int" where
  "MEDIA_TYPE_BYTES MediaRows = 1"
| "MEDIA_TYPE_BYTES MediaSqlite = 2"

section \<open>Decoders\<close>

definition decodeReqHeader :: "int \<Rightarrow> ReqHeaderFrame reader" where
  "decodeReqHeader wireVersion =
     bindR r_str (\<lambda>clientId.
       if length clientId = 0 then failR invalid_request
       else bindR r_i32 (\<lambda>schemaVersion.
         if schemaVersion < 1 then failR invalid_request
         else bindR (if wireVersion \<ge> 2 then r_opt r_nonempty else returnR None) (\<lambda>logEpoch.
           returnR \<lparr>rqh_clientId = clientId, rqh_schemaVersion = schemaVersion, rqh_logEpoch = logEpoch\<rparr>)))"

definition decodePushOperation :: "PushOperation reader" where
  "decodePushOperation =
     bindR r_str (\<lambda>table. bindR r_str (\<lambda>rowId. bindR r_op (\<lambda>op.
       bindR (r_opt r_i64) (\<lambda>baseVersion. bindR (r_opt r_bytes) (\<lambda>payload.
         if op = Upsert \<and> payload = None then failR invalid_request
         else if op = Delete \<and> payload \<noteq> None then failR invalid_request
         else returnR \<lparr>po_table = table, po_rowId = rowId, po_op = op, po_baseVersion = baseVersion,
                       po_payload = payload\<rparr>)))))"

definition decodePushCommit :: "PushCommitFrame reader" where
  "decodePushCommit =
     bindR r_str (\<lambda>clientCommitId.
       if length clientCommitId = 0 then failR invalid_request
       else bindR r_u32 (\<lambda>operationCount.
         if operationCount = 0 then failR empty_commit
         else bindR (timesR (nat operationCount) decodePushOperation) (\<lambda>operations.
           returnR \<lparr>pc_clientCommitId = clientCommitId, pc_operations = operations\<rparr>)))"

definition decodePullHeader :: "PullHeaderFrame reader" where
  "decodePullHeader =
     bindR r_i32 (\<lambda>limitCommits. bindR r_i32 (\<lambda>limitSnapshotRows. bindR r_i32 (\<lambda>maxSnapshotPages.
       bindR r_u8 (\<lambda>accept.
         if accept AND 0xf0 \<noteq> 0 then failR invalid_request
         else returnR \<lparr>ph_limitCommits = limitCommits, ph_limitSnapshotRows = limitSnapshotRows,
                       ph_maxSnapshotPages = maxSnapshotPages, ph_accept = accept\<rparr>))))"

definition decodeSubscription :: "SubscriptionFrame reader" where
  "decodeSubscription =
     bindR r_str (\<lambda>id. bindR r_str (\<lambda>table. bindR readStringListMap (\<lambda>scopes.
       bindR (r_opt requireJsonDocument) (\<lambda>params. bindR r_i64 (\<lambda>cursor.
         bindR (r_opt requireJsonDocument) (\<lambda>bootstrapState.
           returnR \<lparr>sb_id = id, sb_table = table, sb_scopes = scopes, sb_params = params,
                    sb_cursor = cursor, sb_bootstrapState = bootstrapState\<rparr>))))))"

definition decodeRespHeader :: "int \<Rightarrow> RespHeaderFrame reader" where
  "decodeRespHeader wireVersion =
     bindR (r_opt r_i32) (\<lambda>requiredSchemaVersion. bindR (r_opt r_i32) (\<lambda>latestSchemaVersion.
       bindR (if wireVersion \<ge> 2 then bindR r_str (\<lambda>s. returnR (Some s)) else returnR None) (\<lambda>logEpoch.
         if logEpoch = Some [] then failR invalid_request
         else bindR (if wireVersion \<ge> 2 then bindR r_bool (\<lambda>b. returnR (Some b)) else returnR None) (\<lambda>resetRequired.
           returnR \<lparr>rsh_requiredSchemaVersion = requiredSchemaVersion,
                    rsh_latestSchemaVersion = latestSchemaVersion,
                    rsh_logEpoch = logEpoch, rsh_resetRequired = resetRequired\<rparr>))))"

definition decodeLease :: "LeaseFrame reader" where
  "decodeLease =
     bindR r_str (\<lambda>leaseId.
       if length leaseId = 0 then failR invalid_request
       else bindR r_i64 (\<lambda>expiresAtMs. returnR \<lparr>ls_leaseId = leaseId, ls_expiresAtMs = expiresAtMs\<rparr>))"

definition decodeOperationResult :: "PushOperationResult reader" where
  "decodeOperationResult =
     bindR r_i32 (\<lambda>opIndex. bindR r_u8 (\<lambda>recordStatus.
       if recordStatus = 1 then returnR (OpApplied opIndex)
       else if recordStatus = 2 then
         bindR r_str (\<lambda>code. bindR r_str (\<lambda>message. bindR r_i64 (\<lambda>serverVersion. bindR r_bytes (\<lambda>serverRow.
           returnR (OpConflict opIndex code message serverVersion serverRow)))))
       else if recordStatus = 3 then
         bindR r_str (\<lambda>code. bindR r_str (\<lambda>message. bindR r_bool (\<lambda>retryable.
           returnR (OpError opIndex code message retryable None))))
       else failR invalid_request))"

definition decodePushResult :: "PushResultFrame reader" where
  "decodePushResult =
     bindR r_str (\<lambda>clientCommitId. bindR r_u8 (\<lambda>statusByte.
       bindR (if statusByte = 1 then returnR PushApplied
              else if statusByte = 2 then returnR PushCached
              else if statusByte = 3 then returnR PushRejected
              else failR invalid_request) (\<lambda>status.
         bindR (r_opt r_i64) (\<lambda>commitSeq.
           if status = PushRejected \<and> commitSeq \<noteq> None then failR invalid_request
           else if status \<noteq> PushRejected \<and> commitSeq = None then failR invalid_request
           else bindR r_u32 (\<lambda>resultCount. bindR (timesR (nat resultCount) decodeOperationResult) (\<lambda>results.
             returnR \<lparr>pr_clientCommitId = clientCommitId, pr_status = status, pr_commitSeq = commitSeq,
                      pr_results = results\<rparr>))))))"

text \<open>Everything the \<open>try\<close> block catches becomes \<open>sync.invalid_request\<close>.\<close>

definition decodeDetails :: "RejectionDetails reader" where
  "decodeDetails = (\<lambda>bs. case r_str bs of
     Inl e \<Rightarrow> Inl invalid_request
   | Inr (raw, rest) \<Rightarrow>
       (case json_parse raw of
          None \<Rightarrow> Inl invalid_request
        | Some v \<Rightarrow> (case normalizeRejectionDetails v of
            Inl e \<Rightarrow> Inl invalid_request | Inr details \<Rightarrow> Inr (details, rest))))"

fun decodeDetailsEntries :: "nat \<Rightarrow> int list \<Rightarrow> DetailsEntry list reader" where
  "decodeDetailsEntries 0 seen = returnR []"
| "decodeDetailsEntries (Suc n) seen =
     bindR r_i32 (\<lambda>opIndex.
       if opIndex < 0 \<or> opIndex \<in> set seen then failR invalid_request
       else bindR decodeDetails (\<lambda>details.
         bindR (decodeDetailsEntries n (opIndex # seen)) (\<lambda>entries.
           returnR (\<lparr>de_opIndex = opIndex, de_details = details\<rparr> # entries))))"

definition decodePushResultDetails :: "PushResultDetailsFrame reader" where
  "decodePushResultDetails =
     bindR r_str (\<lambda>clientCommitId.
       if length clientCommitId = 0 then failR invalid_request
       else bindR r_u32 (\<lambda>count.
         if count = 0 then failR invalid_request
         else bindR (decodeDetailsEntries (nat count) []) (\<lambda>entries.
           returnR \<lparr>prd_clientCommitId = clientCommitId, prd_entries = entries\<rparr>)))"

definition decodeSubStart :: "SubStartFrame reader" where
  "decodeSubStart =
     bindR r_str (\<lambda>id. bindR r_u8 (\<lambda>statusByte.
       bindR (if statusByte = 1 then returnR SubActive
              else if statusByte = 2 then returnR SubRevoked
              else if statusByte = 3 then returnR SubReset
              else failR invalid_request) (\<lambda>status.
         bindR r_str (\<lambda>reasonCode. bindR readStringListMap (\<lambda>effectiveScopes. bindR r_bool (\<lambda>bootstrap.
           returnR \<lparr>ss_id = id, ss_status = status, ss_reasonCode = reasonCode,
                    ss_effectiveScopes = effectiveScopes, ss_bootstrap = bootstrap\<rparr>))))))"

definition decodeChange :: "nat \<Rightarrow> CommitChange reader" where
  "decodeChange tableCount =
     bindR r_u16 (\<lambda>tableIndex.
       if tableIndex \<ge> int tableCount then failR invalid_request
       else bindR r_str (\<lambda>rowId. bindR r_op (\<lambda>op. bindR (r_opt r_i64) (\<lambda>rowVersion.
         bindR readStringMap (\<lambda>scopes. bindR (r_opt r_bytes) (\<lambda>row.
           if op = Upsert \<and> (rowVersion = None \<or> row = None) then failR invalid_request
           else if op = Delete \<and> (rowVersion \<noteq> None \<or> row \<noteq> None) then failR invalid_request
           else returnR \<lparr>cc_tableIndex = tableIndex, cc_rowId = rowId, cc_op = op, cc_rowVersion = rowVersion,
                         cc_scopes = scopes, cc_row = row\<rparr>))))))"

definition decodeCommit :: "CommitFrame reader" where
  "decodeCommit =
     bindR r_i64 (\<lambda>commitSeq. bindR r_i64 (\<lambda>createdAtMs. bindR r_str (\<lambda>actorId.
       bindR r_u32 (\<lambda>tableCount. bindR (timesR (nat tableCount) r_str) (\<lambda>tables.
         bindR r_u32 (\<lambda>changeCount. bindR (timesR (nat changeCount) (decodeChange (length tables))) (\<lambda>changes.
           returnR \<lparr>cf_commitSeq = commitSeq, cf_createdAtMs = createdAtMs, cf_actorId = actorId,
                    cf_tables = tables, cf_changes = changes\<rparr>)))))))"

definition decodeSegmentRef :: "SegmentRefFrame reader" where
  "decodeSegmentRef =
     bindR r_str (\<lambda>segmentId. bindR r_u8 (\<lambda>mediaTypeByte.
       bindR (if mediaTypeByte = 1 then returnR MediaRows
              else if mediaTypeByte = 2 then returnR MediaSqlite
              else failR invalid_request) (\<lambda>mediaType.
         bindR r_str (\<lambda>table. bindR r_i64 (\<lambda>byteLength. bindR r_i64 (\<lambda>rowCount. bindR r_i64 (\<lambda>asOfCommitSeq.
           bindR r_str (\<lambda>scopeDigest. bindR (r_opt r_str) (\<lambda>rowCursor. bindR (r_opt r_str) (\<lambda>nextRowCursor.
             bindR (r_opt r_str) (\<lambda>url. bindR (r_opt r_i64) (\<lambda>urlExpiresAtMs.
               if (url = None) \<noteq> (urlExpiresAtMs = None) then failR invalid_request
               else returnR \<lparr>sg_segmentId = segmentId, sg_mediaType = mediaType, sg_table = table,
                             sg_byteLength = byteLength, sg_rowCount = rowCount,
                             sg_asOfCommitSeq = asOfCommitSeq, sg_scopeDigest = scopeDigest,
                             sg_rowCursor = rowCursor, sg_nextRowCursor = nextRowCursor,
                             sg_url = url, sg_urlExpiresAtMs = urlExpiresAtMs\<rparr>))))))))))))"

definition decodeSegmentInline :: "byte list reader" where
  "decodeSegmentInline = (\<lambda>bs.
     bindE (r_raw (length bs) bs) (\<lambda>(payload, rest).
       bindE (decodeRowsSegment payload) (\<lambda>_. Inr (payload, rest))))"

definition decodeSubEnd :: "SubEndFrame reader" where
  "decodeSubEnd =
     bindR r_i64 (\<lambda>nextCursor. bindR (r_opt requireJsonDocument) (\<lambda>bootstrapState.
       returnR \<lparr>se_nextCursor = nextCursor, se_bootstrapState = bootstrapState\<rparr>))"

definition decodeErrorFrame :: "ErrorFrame reader" where
  "decodeErrorFrame =
     bindR r_str (\<lambda>code. bindR r_str (\<lambda>message. bindR r_str (\<lambda>category. bindR r_bool (\<lambda>retryable.
       bindR r_str (\<lambda>recommendedAction. bindR (r_opt requireJsonDocument) (\<lambda>details.
         returnR \<lparr>ef_code = code, ef_message = message, ef_category = category, ef_retryable = retryable,
                  ef_recommendedAction = recommendedAction, ef_details = details\<rparr>))))))"

text \<open>A frame decoder has to consume its payload exactly.\<close>

definition wholePayload :: "'a reader \<Rightarrow> byte list \<Rightarrow> 'a result" where
  "wholePayload rd payload =
     bindE (rd payload) (\<lambda>(frame, rest). bindE (expectFullyConsumed rest) (\<lambda>_. Inr frame))"

definition decodeRequestFrame :: "int \<Rightarrow> int \<Rightarrow> byte list \<Rightarrow> RequestFrame result" where
  "decodeRequestFrame wireVersion frameType payload =
     (if frameType = FrameType F_REQ_HEADER
      then bindE (wholePayload (decodeReqHeader wireVersion) payload) (\<lambda>f. Inr (ReqHeader f))
      else if frameType = FrameType F_PUSH_COMMIT
      then bindE (wholePayload decodePushCommit payload) (\<lambda>f. Inr (PushCommit f))
      else if frameType = FrameType F_PULL_HEADER
      then bindE (wholePayload decodePullHeader payload) (\<lambda>f. Inr (PullHeader f))
      else if frameType = FrameType F_SUBSCRIPTION
      then bindE (wholePayload decodeSubscription payload) (\<lambda>f. Inr (Subscription f))
      else if frameType \<in> set RESPONSE_FRAME_TYPES then Inl invalid_request
      else Inr (ReqUnknown \<lparr>uk_frameType = frameType, uk_payload = payload\<rparr>))"

definition decodeResponseFrame :: "int \<Rightarrow> int \<Rightarrow> byte list \<Rightarrow> ResponseFrame result" where
  "decodeResponseFrame wireVersion frameType payload =
     (if frameType = FrameType F_RESP_HEADER
      then bindE (wholePayload (decodeRespHeader wireVersion) payload) (\<lambda>f. Inr (RespHeader f))
      else if frameType = FrameType F_LEASE
      then bindE (wholePayload decodeLease payload) (\<lambda>f. Inr (Lease f))
      else if frameType = FrameType F_PUSH_RESULT
      then bindE (wholePayload decodePushResult payload) (\<lambda>f. Inr (PushResult f))
      else if frameType = FrameType F_PUSH_RESULT_DETAILS
      then bindE (wholePayload decodePushResultDetails payload) (\<lambda>f. Inr (PushResultDetails f))
      else if frameType = FrameType F_SUB_START
      then bindE (wholePayload decodeSubStart payload) (\<lambda>f. Inr (SubStart f))
      else if frameType = FrameType F_COMMIT
      then bindE (wholePayload decodeCommit payload) (\<lambda>f. Inr (Commit f))
      else if frameType = FrameType F_SEGMENT_REF
      then bindE (wholePayload decodeSegmentRef payload) (\<lambda>f. Inr (SegmentRef f))
      else if frameType = FrameType F_SEGMENT_INLINE
      then bindE (wholePayload decodeSegmentInline payload) (\<lambda>f. Inr (SegmentInline f))
      else if frameType = FrameType F_SUB_END
      then bindE (wholePayload decodeSubEnd payload) (\<lambda>f. Inr (SubEnd f))
      else if frameType = FrameType F_ERROR
      then bindE (wholePayload decodeErrorFrame payload) (\<lambda>f. Inr (ErrorF f))
      else if frameType \<in> set REQUEST_FRAME_TYPES then Inl invalid_request
      else Inr (RespUnknown \<lparr>uk_frameType = frameType, uk_payload = payload\<rparr>))"

section \<open>Encoders\<close>

definition encodeReqHeader :: "int \<Rightarrow> ReqHeaderFrame \<Rightarrow> writer" where
  "encodeReqHeader wireVersion frame =
     (if length (rqh_clientId frame) = 0 then Inl PlainError
      else if rqh_schemaVersion frame < 1 then Inl PlainError
      else seqW [w_str (rqh_clientId frame), w_i32 (rqh_schemaVersion frame),
        (if wireVersion \<ge> 2 then
           (if rqh_logEpoch frame = Some [] then Inl PlainError else w_opt w_str (rqh_logEpoch frame))
         else if rqh_logEpoch frame \<noteq> None then Inl PlainError else Inr [])])"

definition encodePushOperation :: "PushOperation \<Rightarrow> writer" where
  "encodePushOperation operation =
     (if po_op operation = Upsert \<and> po_payload operation = None then Inl PlainError
      else if po_op operation = Delete \<and> po_payload operation \<noteq> None then Inl PlainError
      else seqW [w_str (po_table operation), w_str (po_rowId operation), w_u8 (OP_BYTES (po_op operation)),
        w_opt w_i64 (po_baseVersion operation), w_opt w_bytes (po_payload operation)])"

definition encodePushCommit :: "PushCommitFrame \<Rightarrow> writer" where
  "encodePushCommit frame =
     (if length (pc_clientCommitId frame) = 0 then Inl PlainError
      else if length (pc_operations frame) = 0 then Inl PlainError
      else seqW [w_str (pc_clientCommitId frame), w_u32 (int (length (pc_operations frame))),
        seqW (map encodePushOperation (pc_operations frame))])"

definition encodePullHeader :: "PullHeaderFrame \<Rightarrow> writer" where
  "encodePullHeader frame =
     (if ph_accept frame AND 0xf0 \<noteq> 0 then Inl PlainError
      else seqW [w_i32 (ph_limitCommits frame), w_i32 (ph_limitSnapshotRows frame),
        w_i32 (ph_maxSnapshotPages frame), w_u8 (ph_accept frame)])"

definition encodeSubscription :: "SubscriptionFrame \<Rightarrow> writer" where
  "encodeSubscription frame =
     seqW [w_str (sb_id frame), w_str (sb_table frame), writeStringListMap (sb_scopes frame),
       w_opt w_str (sb_params frame), w_i64 (sb_cursor frame), w_opt w_str (sb_bootstrapState frame)]"

definition encodeRespHeader :: "int \<Rightarrow> RespHeaderFrame \<Rightarrow> writer" where
  "encodeRespHeader wireVersion frame =
     seqW [w_opt w_i32 (rsh_requiredSchemaVersion frame), w_opt w_i32 (rsh_latestSchemaVersion frame),
       (if wireVersion \<ge> 2 then
          (case rsh_logEpoch frame of
             None \<Rightarrow> Inl PlainError
           | Some logEpoch \<Rightarrow>
               if length logEpoch = 0 then Inl PlainError
               else case rsh_resetRequired frame of
                      None \<Rightarrow> Inl PlainError
                    | Some resetRequired \<Rightarrow> seqW [w_str logEpoch, w_bool resetRequired])
        else if rsh_logEpoch frame \<noteq> None \<or> rsh_resetRequired frame \<noteq> None then Inl PlainError
        else Inr [])]"

definition encodeLease :: "LeaseFrame \<Rightarrow> writer" where
  "encodeLease frame =
     (if length (ls_leaseId frame) = 0 then Inl PlainError
      else seqW [w_str (ls_leaseId frame), w_i64 (ls_expiresAtMs frame)])"

fun encodeOperationResult :: "PushOperationResult \<Rightarrow> writer" where
  "encodeOperationResult (OpApplied i) = seqW [w_i32 i, w_u8 1]"
| "encodeOperationResult (OpConflict i code message serverVersion serverRow) =
     seqW [w_i32 i, w_u8 2, w_str code, w_str message, w_i64 serverVersion, w_bytes serverRow]"
| "encodeOperationResult (OpError i code message retryable details) =
     seqW [w_i32 i, w_u8 3, w_str code, w_str message, w_bool retryable]"

definition encodePushResult :: "PushResultFrame \<Rightarrow> writer" where
  "encodePushResult frame =
     (if pr_status frame = PushRejected \<and> pr_commitSeq frame \<noteq> None then Inl PlainError
      else if pr_status frame \<noteq> PushRejected \<and> pr_commitSeq frame = None then Inl PlainError
      else seqW [w_str (pr_clientCommitId frame), w_u8 (PUSH_STATUS_BYTES (pr_status frame)),
        w_opt w_i64 (pr_commitSeq frame), w_u32 (int (length (pr_results frame))),
        seqW (map encodeOperationResult (pr_results frame))])"

fun encodeDetailsEntries :: "int list \<Rightarrow> DetailsEntry list \<Rightarrow> writer" where
  "encodeDetailsEntries seen [] = Inr []"
| "encodeDetailsEntries seen (entry # entries) =
     (if de_opIndex entry < 0 then Inl PlainError
      else if de_opIndex entry \<in> set seen then Inl PlainError
      else seqW [w_i32 (de_opIndex entry),
        bindE (normalizeRejectionDetails (details_json (de_details entry))) (\<lambda>details.
          w_str (json_stringify (details_json details))),
        encodeDetailsEntries (de_opIndex entry # seen) entries])"

definition encodePushResultDetails :: "PushResultDetailsFrame \<Rightarrow> writer" where
  "encodePushResultDetails frame =
     (if length (prd_clientCommitId frame) = 0 then Inl PlainError
      else if length (prd_entries frame) = 0 then Inl PlainError
      else seqW [w_str (prd_clientCommitId frame), w_u32 (int (length (prd_entries frame))),
        encodeDetailsEntries [] (prd_entries frame)])"

definition encodeSubStart :: "SubStartFrame \<Rightarrow> writer" where
  "encodeSubStart frame =
     seqW [w_str (ss_id frame), w_u8 (SUB_STATUS_BYTES (ss_status frame)), w_str (ss_reasonCode frame),
       writeStringListMap (ss_effectiveScopes frame), w_bool (ss_bootstrap frame)]"

definition encodeChange :: "nat \<Rightarrow> CommitChange \<Rightarrow> writer" where
  "encodeChange tableCount change =
     (if cc_tableIndex change \<ge> int tableCount then Inl PlainError
      else if cc_op change = Upsert \<and> (cc_rowVersion change = None \<or> cc_row change = None) then Inl PlainError
      else if cc_op change = Delete \<and> (cc_rowVersion change \<noteq> None \<or> cc_row change \<noteq> None) then Inl PlainError
      else seqW [w_u16 (cc_tableIndex change), w_str (cc_rowId change), w_u8 (OP_BYTES (cc_op change)),
        w_opt w_i64 (cc_rowVersion change), writeStringMap (cc_scopes change), w_opt w_bytes (cc_row change)])"

definition encodeCommit :: "CommitFrame \<Rightarrow> writer" where
  "encodeCommit frame =
     seqW [w_i64 (cf_commitSeq frame), w_i64 (cf_createdAtMs frame), w_str (cf_actorId frame),
       w_u32 (int (length (cf_tables frame))), seqW (map w_str (cf_tables frame)),
       w_u32 (int (length (cf_changes frame))),
       seqW (map (encodeChange (length (cf_tables frame))) (cf_changes frame))]"

definition encodeSegmentRef :: "SegmentRefFrame \<Rightarrow> writer" where
  "encodeSegmentRef frame =
     (if (sg_url frame = None) \<noteq> (sg_urlExpiresAtMs frame = None) then Inl PlainError
      else seqW [w_str (sg_segmentId frame), w_u8 (MEDIA_TYPE_BYTES (sg_mediaType frame)), w_str (sg_table frame),
        w_i64 (sg_byteLength frame), w_i64 (sg_rowCount frame), w_i64 (sg_asOfCommitSeq frame),
        w_str (sg_scopeDigest frame), w_opt w_str (sg_rowCursor frame), w_opt w_str (sg_nextRowCursor frame),
        w_opt w_str (sg_url frame), w_opt w_i64 (sg_urlExpiresAtMs frame)])"

definition encodeSubEnd :: "SubEndFrame \<Rightarrow> writer" where
  "encodeSubEnd frame = seqW [w_i64 (se_nextCursor frame), w_opt w_str (se_bootstrapState frame)]"

definition encodeErrorFrame :: "ErrorFrame \<Rightarrow> writer" where
  "encodeErrorFrame frame =
     seqW [w_str (ef_code frame), w_str (ef_message frame), w_str (ef_category frame),
       w_bool (ef_retryable frame), w_str (ef_recommendedAction frame), w_opt w_str (ef_details frame)]"

definition encodeUnknown :: "UnknownFrame \<Rightarrow> (int \<times> byte list) result" where
  "encodeUnknown frame =
     (if uk_frameType frame < 0 \<or> uk_frameType frame > 0xff \<or> uk_frameType frame \<in> set KNOWN_FRAME_TYPES
      then Inl PlainError else Inr (uk_frameType frame, uk_payload frame))"

definition typed :: "FrameTypeName \<Rightarrow> writer \<Rightarrow> (int \<times> byte list) result" where
  "typed name w = bindE w (\<lambda>payload. Inr (FrameType name, payload))"

definition encodeRequestFrame :: "int \<Rightarrow> RequestFrame \<Rightarrow> (int \<times> byte list) result" where
  "encodeRequestFrame wireVersion frame =
     (case frame of
        ReqHeader f \<Rightarrow> typed F_REQ_HEADER (encodeReqHeader wireVersion f)
      | PushCommit f \<Rightarrow> typed F_PUSH_COMMIT (encodePushCommit f)
      | PullHeader f \<Rightarrow> typed F_PULL_HEADER (encodePullHeader f)
      | Subscription f \<Rightarrow> typed F_SUBSCRIPTION (encodeSubscription f)
      | ReqUnknown f \<Rightarrow> encodeUnknown f)"

definition encodeResponseFrame :: "int \<Rightarrow> ResponseFrame \<Rightarrow> (int \<times> byte list) result" where
  "encodeResponseFrame wireVersion frame =
     (case frame of
        RespHeader f \<Rightarrow> typed F_RESP_HEADER (encodeRespHeader wireVersion f)
      | Lease f \<Rightarrow> typed F_LEASE (encodeLease f)
      | PushResult f \<Rightarrow> typed F_PUSH_RESULT (encodePushResult f)
      | PushResultDetails f \<Rightarrow> typed F_PUSH_RESULT_DETAILS (encodePushResultDetails f)
      | SubStart f \<Rightarrow> typed F_SUB_START (encodeSubStart f)
      | Commit f \<Rightarrow> typed F_COMMIT (encodeCommit f)
      | SegmentRef f \<Rightarrow> typed F_SEGMENT_REF (encodeSegmentRef f)
      | SegmentInline payload \<Rightarrow> typed F_SEGMENT_INLINE (Inr payload)
      | SubEnd f \<Rightarrow> typed F_SUB_END (encodeSubEnd f)
      | ErrorF f \<Rightarrow> typed F_ERROR (encodeErrorFrame f)
      | RespUnknown f \<Rightarrow> encodeUnknown f)"

section \<open>Messages\<close>

definition writeFrame :: "(int \<times> byte list) result \<Rightarrow> writer" where
  "writeFrame encoded = bindE encoded (\<lambda>(frameType, payload).
     seqW [w_u8 frameType, w_u32 (int (length payload)), w_raw payload])"

definition endFrame :: writer where
  "endFrame = seqW [w_u8 (FrameType F_END), w_u32 0]"

definition encodeMessage :: "SyncMessage \<Rightarrow> writer" where
  "encodeMessage message =
     (case message of
        RequestMessage wireVersion frames \<Rightarrow>
          if \<not> isSupportedProtocolWireVersion wireVersion then Inl PlainError
          else bindE (validateFrameSequence message) (\<lambda>_.
            seqW [w_raw SYNC_PACK_MAGIC, w_u16 wireVersion, w_u8 0x01, w_u8 0x00,
              seqW (map (\<lambda>f. writeFrame (encodeRequestFrame wireVersion f)) frames), endFrame])
      | ResponseMessage wireVersion frames \<Rightarrow>
          if \<not> isSupportedProtocolWireVersion wireVersion then Inl PlainError
          else bindE (validateFrameSequence message) (\<lambda>_.
            seqW [w_raw SYNC_PACK_MAGIC, w_u16 wireVersion, w_u8 0x02, w_u8 0x00,
              seqW (map (\<lambda>f. writeFrame (encodeResponseFrame wireVersion f)) frames), endFrame]))"

definition readFrameHead :: "(int \<times> byte list) reader" where
  "readFrameHead = bindR r_u8 (\<lambda>frameType. bindR r_u32 (\<lambda>frameLength. \<lambda>bs.
     if frameLength > int (length bs) then Inl invalid_request
     else bindE (r_raw (nat frameLength) bs) (\<lambda>(payload, rest). Inr ((frameType, payload), rest))))"

lemma readFrameHead_shorter:
  "readFrameHead bs = Inr ((t, payload), rest) \<Longrightarrow> length rest + length payload + 5 = length bs"
  by (auto simp: readFrameHead_def r_u8_def r_u32_def r_raw_def r_take_def reader_inv bindE_eq_Inr split: if_splits)

function readFrames :: "(int \<Rightarrow> byte list \<Rightarrow> 'a result) \<Rightarrow> byte list \<Rightarrow> 'a list result" where
  "readFrames decodeFrame bs =
     (if length bs = 0 then Inl invalid_request
      else case readFrameHead bs of
        Inl e \<Rightarrow> Inl e
      | Inr ((frameType, payload), rest) \<Rightarrow>
          if frameType = FrameType F_END then
            (if length payload \<noteq> 0 then Inl invalid_request
             else bindE (expectFullyConsumed rest) (\<lambda>_. Inr []))
          else case decodeFrame frameType payload of
            Inl e \<Rightarrow> Inl e
          | Inr frame \<Rightarrow> bindE (readFrames decodeFrame rest) (\<lambda>frames. Inr (frame # frames)))"
  by pat_completeness auto
termination
proof (relation "measure (\<lambda>(decodeFrame, bs). length bs)", goal_cases)
  case (2 dec bs x p rest t payload)
  then show ?case by (auto dest: readFrameHead_shorter)
qed simp

declare readFrames.simps [simp del]

definition readEnvelopeHeader :: "(int \<times> int) reader" where
  "readEnvelopeHeader =
     (\<lambda>bs. if length bs < 8 then Inl invalid_request
       else bindR (r_raw 4) (\<lambda>magic.
         if magic \<noteq> SYNC_PACK_MAGIC then failR invalid_request
         else bindR r_u16 (\<lambda>wireVersion.
           if \<not> isSupportedProtocolWireVersion wireVersion then failR invalid_request
           else bindR r_u8 (\<lambda>kindByte.
             if kindByte \<noteq> 0x01 \<and> kindByte \<noteq> 0x02 then failR invalid_request
             else bindR r_u8 (\<lambda>flags.
               if flags \<noteq> 0 then failR invalid_request else returnR (wireVersion, kindByte))))) bs)"

definition decodeMessage :: "byte list \<Rightarrow> SyncMessage result" where
  "decodeMessage bytes =
     bindE (readEnvelopeHeader bytes) (\<lambda>((wireVersion, kindByte), rest).
       if kindByte = 0x01 then
         bindE (readFrames (decodeRequestFrame wireVersion) rest) (\<lambda>frames.
           bindE (validateRequestSequence frames) (\<lambda>_. Inr (RequestMessage wireVersion frames)))
       else
         bindE (readFrames (decodeResponseFrame wireVersion) rest) (\<lambda>frames.
           bindE (validateResponseSequence frames) (\<lambda>_. Inr (ResponseMessage wireVersion frames))))"

end
