(* ===== verification/Message_Roundtrip.thy ===== *)
theory Message_Roundtrip
  imports Message
begin

text \<open>
  Round trip of the envelope codec. Every frame codec is an instance of the codec interface
  on frames in canonical form; encoding does not distinguish a frame from its canonical form,
  so decoding an encoded message yields the canonical form of the message.
\<close>

section \<open>Canonical form\<close>

definition canon_result :: "PushOperationResult \<Rightarrow> PushOperationResult" where
  "canon_result r = (case r of OpError i c m t _ \<Rightarrow> OpError i c m t None | _ \<Rightarrow> r)"

definition canon_details :: "RejectionDetails \<Rightarrow> RejectionDetails" where
  "canon_details d = (case normalizeRejectionDetails (details_json d) of Inl _ \<Rightarrow> d | Inr n \<Rightarrow> n)"

definition canon_change :: "CommitChange \<Rightarrow> CommitChange" where
  "canon_change c = c\<lparr>cc_scopes := canon_map (cc_scopes c)\<rparr>"

fun canon_request :: "RequestFrame \<Rightarrow> RequestFrame" where
  "canon_request (Subscription f) = Subscription (f\<lparr>sb_scopes := canon_map (sb_scopes f)\<rparr>)"
| "canon_request f = f"

fun canon_response :: "ResponseFrame \<Rightarrow> ResponseFrame" where
  "canon_response (PushResult f) = PushResult (f\<lparr>pr_results := map canon_result (pr_results f)\<rparr>)"
| "canon_response (PushResultDetails f) =
     PushResultDetails (f\<lparr>prd_entries := map (\<lambda>e. e\<lparr>de_details := canon_details (de_details e)\<rparr>) (prd_entries f)\<rparr>)"
| "canon_response (SubStart f) = SubStart (f\<lparr>ss_effectiveScopes := canon_map (ss_effectiveScopes f)\<rparr>)"
| "canon_response (Commit f) = Commit (f\<lparr>cf_changes := map canon_change (cf_changes f)\<rparr>)"
| "canon_response f = f"

fun canon_message :: "SyncMessage \<Rightarrow> SyncMessage" where
  "canon_message (RequestMessage v fs) = RequestMessage v (map canon_request fs)"
| "canon_message (ResponseMessage v fs) = ResponseMessage v (map canon_response fs)"

section \<open>Transportable values\<close>

text \<open>
  What the encoder does not check and the decoder demands: strings that survive UTF-8,
  dictionaries with distinct keys, documents that parse, and inline segments that decode.
\<close>

definition json_doc_ok :: "jsstring \<Rightarrow> bool" where
  "json_doc_ok s \<longleftrightarrow> str_ok s \<and> json_parse s \<noteq> None"

definition operation_ok :: "PushOperation \<Rightarrow> bool" where
  "operation_ok p \<longleftrightarrow> str_ok (po_table p) \<and> str_ok (po_rowId p)"

definition subscription_ok :: "SubscriptionFrame \<Rightarrow> bool" where
  "subscription_ok f \<longleftrightarrow> str_ok (sb_id f) \<and> str_ok (sb_table f) \<and> scope_map_ok (sb_scopes f)
     \<and> pred_option json_doc_ok (sb_params f) \<and> pred_option json_doc_ok (sb_bootstrapState f)"

definition request_ok :: "RequestFrame \<Rightarrow> bool" where
  "request_ok f = (case f of
     ReqHeader h \<Rightarrow> str_ok (rqh_clientId h) \<and> pred_option str_ok (rqh_logEpoch h)
   | PushCommit c \<Rightarrow> str_ok (pc_clientCommitId c) \<and> list_all operation_ok (pc_operations c)
   | PullHeader h \<Rightarrow> True
   | Subscription s \<Rightarrow> subscription_ok s
   | ReqUnknown u \<Rightarrow> True)"

fun result_ok :: "PushOperationResult \<Rightarrow> bool" where
  "result_ok (OpApplied i) \<longleftrightarrow> True"
| "result_ok (OpConflict i c m v r) \<longleftrightarrow> str_ok c \<and> str_ok m"
| "result_ok (OpError i c m t d) \<longleftrightarrow> str_ok c \<and> str_ok m"

definition references_ok :: "RejectionDetails \<Rightarrow> bool" where
  "references_ok d \<longleftrightarrow> (case rd_references d of None \<Rightarrow> True | Some rs \<Rightarrow> distinct (map fst rs))"

definition change_ok :: "CommitChange \<Rightarrow> bool" where
  "change_ok c \<longleftrightarrow> str_ok (cc_rowId c) \<and> string_map_ok (cc_scopes c)"

definition segment_ref_ok :: "SegmentRefFrame \<Rightarrow> bool" where
  "segment_ref_ok f \<longleftrightarrow> str_ok (sg_segmentId f) \<and> str_ok (sg_table f) \<and> str_ok (sg_scopeDigest f)
     \<and> pred_option str_ok (sg_rowCursor f) \<and> pred_option str_ok (sg_nextRowCursor f) \<and> pred_option str_ok (sg_url f)"

definition error_ok :: "ErrorFrame \<Rightarrow> bool" where
  "error_ok f \<longleftrightarrow> str_ok (ef_code f) \<and> str_ok (ef_message f) \<and> str_ok (ef_category f)
     \<and> str_ok (ef_recommendedAction f) \<and> pred_option json_doc_ok (ef_details f)"

definition response_ok :: "ResponseFrame \<Rightarrow> bool" where
  "response_ok f = (case f of
     RespHeader h \<Rightarrow> pred_option str_ok (rsh_logEpoch h)
   | Lease l \<Rightarrow> str_ok (ls_leaseId l)
   | PushResult p \<Rightarrow> str_ok (pr_clientCommitId p) \<and> list_all result_ok (pr_results p)
   | PushResultDetails p \<Rightarrow> str_ok (prd_clientCommitId p) \<and> list_all (\<lambda>e. references_ok (de_details e)) (prd_entries p)
   | SubStart s \<Rightarrow> str_ok (ss_id s) \<and> str_ok (ss_reasonCode s) \<and> scope_map_ok (ss_effectiveScopes s)
   | Commit c \<Rightarrow> str_ok (cf_actorId c) \<and> list_all str_ok (cf_tables c) \<and> list_all change_ok (cf_changes c)
   | SegmentRef s \<Rightarrow> segment_ref_ok s
   | SegmentInline payload \<Rightarrow> (case decodeRowsSegment payload of Inl _ \<Rightarrow> False | Inr _ \<Rightarrow> True)
   | SubEnd s \<Rightarrow> pred_option json_doc_ok (se_bootstrapState s)
   | ErrorF e \<Rightarrow> error_ok e
   | RespUnknown u \<Rightarrow> True)"

fun message_ok :: "SyncMessage \<Rightarrow> bool" where
  "message_ok (RequestMessage v fs) \<longleftrightarrow> list_all request_ok fs"
| "message_ok (ResponseMessage v fs) \<longleftrightarrow> list_all response_ok fs"

section \<open>Frame codecs\<close>

lemma pred_option_True [simp]: "pred_option (\<lambda>_. True) v"
  by (simp add: pred_option_def)

lemma bindR_assoc [codes_steps]: "bindR (bindR r f) k = bindR r (\<lambda>x. bindR (f x) k)"
  by (auto simp: bindR_def split: sum.splits)

interpretation wjson: codec w_str requireJsonDocument json_doc_ok
  by unfold_locales (auto simp: requireJsonDocument_def json_doc_ok_def codes_steps split: option.splits)

interpretation wnonempty: codec w_str r_nonempty "\<lambda>s. str_ok s \<and> s \<noteq> []"
  by unfold_locales (simp add: r_nonempty_def codes_steps)

interpretation wop: codec "\<lambda>op. w_u8 (OP_BYTES op)" r_op "\<lambda>_. True"
proof
  fix op b assume "w_u8 (OP_BYTES op) = Inr b"
  then show "codes r_op b op" by (cases op) (auto simp: r_op_def codes_steps)
qed

lemmas frame_steps [codes_steps] = wjson.steps wnonempty.steps wop.steps

interpretation req_header: codec "encodeReqHeader v" "decodeReqHeader v"
    "\<lambda>h. str_ok (rqh_clientId h) \<and> pred_option str_ok (rqh_logEpoch h)" for v
proof
  fix h b assume a: "encodeReqHeader v h = Inr b"
    "str_ok (rqh_clientId h) \<and> pred_option str_ok (rqh_logEpoch h)"
  have "rqh_logEpoch h \<noteq> Some [] \<Longrightarrow> pred_option (\<lambda>s. str_ok s \<and> s \<noteq> []) (rqh_logEpoch h)"
    using a(2) by (cases "rqh_logEpoch h") auto
  with a show "codes (decodeReqHeader v) b h"
    by (auto simp: encodeReqHeader_def decodeReqHeader_def writer_simps codes_steps split: if_splits)
qed

interpretation push_operation: codec encodePushOperation decodePushOperation operation_ok
  by unfold_locales
    (auto simp: encodePushOperation_def decodePushOperation_def operation_ok_def writer_simps codes_steps
      split: if_splits)

interpretation push_commit: codec encodePushCommit decodePushCommit
    "\<lambda>c. str_ok (pc_clientCommitId c) \<and> list_all operation_ok (pc_operations c)"
  by unfold_locales
    (auto simp: encodePushCommit_def decodePushCommit_def writer_simps codes_steps push_operation.steps
      split: if_splits)

interpretation pull_header: codec encodePullHeader decodePullHeader "\<lambda>_. True"
  by unfold_locales
    (auto simp: encodePullHeader_def decodePullHeader_def writer_simps codes_steps split: if_splits)

interpretation subscription: codec encodeSubscription decodeSubscription
    "\<lambda>s. subscription_ok s \<and> canon_map (sb_scopes s) = sb_scopes s"
  by unfold_locales
    (auto simp: encodeSubscription_def decodeSubscription_def subscription_ok_def writer_simps codes_steps)

interpretation resp_header: codec "encodeRespHeader v" "decodeRespHeader v"
    "\<lambda>h. pred_option str_ok (rsh_logEpoch h)" for v
  by unfold_locales
    (auto simp: encodeRespHeader_def decodeRespHeader_def writer_simps codes_steps
      split: if_splits option.splits)

interpretation lease: codec encodeLease decodeLease "\<lambda>l. str_ok (ls_leaseId l)"
  by unfold_locales
    (auto simp: encodeLease_def decodeLease_def writer_simps codes_steps split: if_splits)

interpretation operation_result: codec encodeOperationResult decodeOperationResult
    "\<lambda>r. result_ok r \<and> canon_result r = r"
proof
  fix r b assume "encodeOperationResult r = Inr b" "result_ok r \<and> canon_result r = r"
  then show "codes decodeOperationResult b r"
    by (cases r) (auto simp: decodeOperationResult_def canon_result_def writer_simps codes_steps)
qed

interpretation push_result: codec encodePushResult decodePushResult
    "\<lambda>p. str_ok (pr_clientCommitId p) \<and> list_all (\<lambda>r. result_ok r \<and> canon_result r = r) (pr_results p)"
proof
  fix p b assume a: "encodePushResult p = Inr b"
    "str_ok (pr_clientCommitId p) \<and> list_all (\<lambda>r. result_ok r \<and> canon_result r = r) (pr_results p)"
  then show "codes decodePushResult b p"
    by (cases "pr_status p")
      (auto simp: encodePushResult_def decodePushResult_def writer_simps codes_steps operation_result.steps
        split: if_splits)
qed

interpretation sub_start: codec encodeSubStart decodeSubStart
    "\<lambda>s. str_ok (ss_id s) \<and> str_ok (ss_reasonCode s) \<and> scope_map_ok (ss_effectiveScopes s)
       \<and> canon_map (ss_effectiveScopes s) = ss_effectiveScopes s"
proof
  fix s b assume "encodeSubStart s = Inr b"
    "str_ok (ss_id s) \<and> str_ok (ss_reasonCode s) \<and> scope_map_ok (ss_effectiveScopes s)
       \<and> canon_map (ss_effectiveScopes s) = ss_effectiveScopes s"
  then show "codes decodeSubStart b s"
    by (cases "ss_status s") (auto simp: encodeSubStart_def decodeSubStart_def writer_simps codes_steps)
qed

interpretation change: codec "encodeChange n" "decodeChange n"
    "\<lambda>c. change_ok c \<and> canon_map (cc_scopes c) = cc_scopes c" for n
  by unfold_locales
    (auto simp: encodeChange_def decodeChange_def change_ok_def writer_simps codes_steps split: if_splits)

interpretation commit: codec encodeCommit decodeCommit
    "\<lambda>c. str_ok (cf_actorId c) \<and> list_all str_ok (cf_tables c)
       \<and> list_all (\<lambda>c. change_ok c \<and> canon_map (cc_scopes c) = cc_scopes c) (cf_changes c)"
  by unfold_locales
    (auto simp: encodeCommit_def decodeCommit_def writer_simps codes_steps change.steps)

interpretation segment_ref: codec encodeSegmentRef decodeSegmentRef segment_ref_ok
proof
  fix s b assume "encodeSegmentRef s = Inr b" "segment_ref_ok s"
  then show "codes decodeSegmentRef b s"
    by (cases "sg_mediaType s")
      (auto simp: encodeSegmentRef_def decodeSegmentRef_def segment_ref_ok_def writer_simps codes_steps
        split: if_splits)
qed

interpretation sub_end: codec encodeSubEnd decodeSubEnd "\<lambda>s. pred_option json_doc_ok (se_bootstrapState s)"
  by unfold_locales (auto simp: encodeSubEnd_def decodeSubEnd_def writer_simps codes_steps)

interpretation error_frame: codec encodeErrorFrame decodeErrorFrame error_ok
  by unfold_locales
    (auto simp: encodeErrorFrame_def decodeErrorFrame_def error_ok_def writer_simps codes_steps)

text \<open>The companion frame: entries are written normalized and normalized again on decoding.\<close>

lemma codes_details:
  assumes "w_str (json_stringify (details_json d)) = Inr b" and "details_ok d"
  shows "codes decodeDetails b d"
  using wstr.read_write [OF assms(1) details_text_ok(1) [OF assms(2)]] details_text_ok(2) [OF assms(2)]
    normalize_self [OF assms(2)]
  by (simp add: codes_def decodeDetails_def)

definition entry_ok :: "DetailsEntry \<Rightarrow> bool" where
  "entry_ok e \<longleftrightarrow> details_ok (de_details e)"

lemma codes_details_entries:
  "encodeDetailsEntries seen es = Inr b \<Longrightarrow> list_all entry_ok es \<Longrightarrow>
   codes (decodeDetailsEntries (length es) seen) b es"
proof (induction seen es arbitrary: b rule: encodeDetailsEntries.induct)
  case (2 seen e es)
  then have ok: "details_ok (de_details e)" by (simp add: entry_ok_def)
  then obtain b1 b2 b3 where w: "w_i32 (de_opIndex e) = Inr b1"
    "w_str (json_stringify (details_json (de_details e))) = Inr b2"
    "encodeDetailsEntries (de_opIndex e # seen) es = Inr b3" and b: "b = b1 @ b2 @ b3"
    and g: "\<not> de_opIndex e < 0" "de_opIndex e \<notin> set seen"
    using "2.prems"(1) by (auto simp: writer_simps normalize_self split: if_splits)
  have "codes (decodeDetailsEntries (length es) (de_opIndex e # seen)) b3 es"
    using 2 g w(3) by simp
  with g w(1) show ?case
    by (simp add: b codes_steps codes_bind_iff [OF codes_details [OF w(2) ok]] codes_bind_iff_end)
qed (simp add: codes_return)

interpretation push_details: codec encodePushResultDetails decodePushResultDetails
    "\<lambda>p. str_ok (prd_clientCommitId p) \<and> list_all entry_ok (prd_entries p)"
  by unfold_locales
    (auto simp: encodePushResultDetails_def decodePushResultDetails_def writer_simps codes_steps
      codes_bind_iff_end [OF codes_details_entries] split: if_splits)

section \<open>Encoding respects the canonical form\<close>

lemma sort_sort [simp]: "sort (sort xs) = sort (xs :: 'a::linorder list)"
  by (simp add: sorted_sort_id)

lemma writeStringListMap_canon: "distinct (map fst m) \<Longrightarrow> writeStringListMap (canon_map m) = writeStringListMap m"
  by (simp add: writeStringListMap_def map_of_canon_map)

lemma writeStringMap_canon: "distinct (map fst m) \<Longrightarrow> writeStringMap (canon_map m) = writeStringMap m"
  by (simp add: writeStringMap_def map_of_canon_map)

lemma scope_map_ok_canon: "scope_map_ok m \<Longrightarrow> scope_map_ok (canon_map m)"
  by (auto simp: scope_map_ok_def list_all_iff canon_map_set)

lemma string_map_ok_canon: "string_map_ok m \<Longrightarrow> string_map_ok (canon_map m)"
  by (auto simp: string_map_ok_def list_all_iff canon_map_set)

lemma encodeOperationResult_canon: "encodeOperationResult (canon_result r) = encodeOperationResult r"
  by (cases r) (simp_all add: canon_result_def)

lemma encodeChange_canon: "change_ok c \<Longrightarrow> encodeChange n (canon_change c) = encodeChange n c"
  unfolding encodeChange_def canon_change_def by (simp add: change_ok_def string_map_ok_def writeStringMap_canon cong: if_cong)

lemma normalized_details:
  assumes "references_ok d" and "normalizeRejectionDetails (details_json d) = Inr n"
  shows "details_ok n"
proof (rule normalize_ok [OF assms(2)])
  show "json_wf (details_json d)"
    using assms(1) by (auto simp: details_json_def references_ok_def js_eq_iff list_all_iff case_prod_unfold comp_def
        split: option.splits)
qed

lemma encodeDetailsEntries_canon:
  "list_all (\<lambda>e. references_ok (de_details e)) es \<Longrightarrow>
   encodeDetailsEntries seen (map (\<lambda>e. e\<lparr>de_details := canon_details (de_details e)\<rparr>) es) = encodeDetailsEntries seen es"
proof (induction seen es rule: encodeDetailsEntries.induct)
  case (2 seen e es)
  have "normalizeRejectionDetails (details_json (canon_details (de_details e))) =
      normalizeRejectionDetails (details_json (de_details e))"
    using "2.prems" normalize_self [OF normalized_details [of "de_details e"]]
    by (auto simp: canon_details_def split: sum.splits)
  with 2 show ?case by simp
qed simp

lemma encodeDetailsEntries_ok:
  "encodeDetailsEntries seen es = Inr b \<Longrightarrow> list_all (\<lambda>e. references_ok (de_details e)) es \<Longrightarrow>
   list_all entry_ok (map (\<lambda>e. e\<lparr>de_details := canon_details (de_details e)\<rparr>) es)"
proof (induction seen es arbitrary: b rule: encodeDetailsEntries.induct)
  case (2 seen e es)
  then obtain n b3 where n: "normalizeRejectionDetails (details_json (de_details e)) = Inr n"
    "encodeDetailsEntries (de_opIndex e # seen) es = Inr b3"
    by (auto simp: writer_simps bindE_eq_Inr split: if_splits)
  have "details_ok n" using "2.prems"(2) n(1) by (auto intro: normalized_details)
  with 2 n show ?case by (auto simp: entry_ok_def canon_details_def split: if_splits)
qed simp

lemma map_id_on: "list_all (\<lambda>x. f x = x) xs \<Longrightarrow> map f xs = xs"
  by (induction xs) auto

lemma encodeRequestFrame_canon:
  "request_ok f \<Longrightarrow> encodeRequestFrame v (canon_request f) = encodeRequestFrame v f"
  by (cases f) (auto simp: encodeRequestFrame_def encodeSubscription_def request_ok_def subscription_ok_def
      scope_map_ok_def writeStringListMap_canon)

lemma encodeResponseFrame_canon:
  assumes "response_ok f"
  shows "encodeResponseFrame v (canon_response f) = encodeResponseFrame v f"
proof (cases f)
  case (Commit c)
  have "list_all change_ok (cf_changes c)" using assms by (simp add: Commit response_ok_def)
  then have "map (encodeChange n \<circ> canon_change) (cf_changes c) = map (encodeChange n) (cf_changes c)" for n
    by (auto simp: encodeChange_canon list_all_iff)
  then show ?thesis unfolding Commit canon_response.simps encodeResponseFrame_def encodeCommit_def
    by (simp del: map_eq_conv)
next
  case (SubStart s)
  then show ?thesis
    using assms by (simp add: encodeResponseFrame_def encodeSubStart_def response_ok_def scope_map_ok_def writeStringListMap_canon)
next
  case (PushResultDetails p)
  then show ?thesis
    using assms by (simp add: encodeResponseFrame_def encodePushResultDetails_def response_ok_def encodeDetailsEntries_canon)
next
  case (PushResult p)
  then show ?thesis
    by (simp add: encodeResponseFrame_def encodePushResult_def encodeOperationResult_canon comp_def cong: if_cong)
qed (simp_all add: encodeResponseFrame_def)

section \<open>Frames\<close>

lemma wholePayload_codes: "codes rd b x \<Longrightarrow> wholePayload rd b = Inr x"
  by (simp add: wholePayload_def codesD_end expectFullyConsumed_def)

text \<open>
  What the frame loop needs of a frame codec: an encoded frame has a type other than \<open>END\<close>
  and decodes to its canonical form.
\<close>

locale frame_codec =
  fixes enc :: "'f \<Rightarrow> (int \<times> byte list) result"
    and dec :: "int \<Rightarrow> byte list \<Rightarrow> 'f result"
    and canon :: "'f \<Rightarrow> 'f"
    and frame_ok :: "'f \<Rightarrow> bool"
  assumes dec_enc: "enc f = Inr (t, payload) \<Longrightarrow> frame_ok f \<Longrightarrow> dec t payload = Inr (canon f)"
    and enc_type: "enc f = Inr (t, payload) \<Longrightarrow> t \<noteq> FrameType F_END"
begin

lemma head_writeFrame:
  assumes "writeFrame (enc f) = Inr b"
  obtains t payload where "enc f = Inr (t, payload)" "readFrameHead (b @ r) = Inr ((t, payload), r)" "b \<noteq> []"
proof -
  obtain t payload b1 b2 where w: "enc f = Inr (t, payload)" "w_u8 t = Inr b1" "w_u32 (int (length payload)) = Inr b2"
    and b: "b = b1 @ b2 @ payload"
    using assms by (auto simp: writeFrame_def bindE_eq_Inr w_raw_def writer_simps)
  have "b1 \<noteq> []" using w(2) by (auto simp: w_u8_def split: if_splits)
  moreover have "readFrameHead (b @ r) = Inr ((t, payload), r)"
    using u8.read_write [OF w(2)] u32.read_write [OF w(3)]
    by (simp add: b readFrameHead_def bindR_def r_raw_def r_take_def)
  ultimately show thesis using that w(1) b by simp
qed

lemma readFrames_writeFrames:
  assumes "seqW (map (\<lambda>f. writeFrame (enc f)) fs) = Inr b" and "endFrame = Inr e" and "list_all frame_ok fs"
  shows "readFrames dec (b @ e) = Inr (map canon fs)"
  using assms
proof (induction fs arbitrary: b)
  case Nil
  have "readFrameHead e = Inr ((0, []), [])" "e \<noteq> []"
    using assms(2) by (auto simp: endFrame_def writer_simps w_u8_def w_u32_def readFrameHead_def r_u8_def r_u32_def
        r_raw_def r_take_def bindR_def returnR_def le_val_le_bytes)
  with Nil show ?case by (simp add: writer_simps readFrames.simps [of dec] expectFullyConsumed_def)
next
  case (Cons f fs)
  obtain b1 b2 where w: "writeFrame (enc f) = Inr b1" "seqW (map (\<lambda>f. writeFrame (enc f)) fs) = Inr b2"
    and b: "b = b1 @ b2" using Cons.prems(1) by (auto simp: writer_simps)
  obtain t payload where h: "enc f = Inr (t, payload)" "readFrameHead (b1 @ b2 @ e) = Inr ((t, payload), b2 @ e)"
    "b1 \<noteq> []" using head_writeFrame [OF w(1)] by blast
  have "readFrames dec (b2 @ e) = Inr (map canon fs)" using Cons.IH [OF w(2) assms(2)] Cons.prems(3) by simp
  with h dec_enc [OF h(1)] enc_type [OF h(1)] Cons.prems(3) show ?case
    by (simp add: b readFrames.simps [of dec "b1 @ b2 @ e"])
qed

end

lemmas type_sets = RESPONSE_FRAME_TYPES_def REQUEST_FRAME_TYPES_def KNOWN_FRAME_TYPES_def

lemma decodeRequest_encode_canonical:
  assumes "encodeRequestFrame v f = Inr (t, payload)" and "request_ok f" and "canon_request f = f"
  shows "decodeRequestFrame v t payload = Inr f"
proof (cases f)
  case (ReqHeader h)
  with assms show ?thesis
    using wholePayload_codes [OF req_header.codes [of v h payload]]
    by (auto simp: encodeRequestFrame_def decodeRequestFrame_def typed_def bindE_eq_Inr request_ok_def)
next
  case (PushCommit c)
  with assms show ?thesis
    using wholePayload_codes [OF push_commit.codes [of c payload]]
    by (auto simp: encodeRequestFrame_def decodeRequestFrame_def typed_def bindE_eq_Inr request_ok_def)
next
  case (PullHeader c)
  with assms show ?thesis
    using wholePayload_codes [OF pull_header.codes [of c payload]]
    by (auto simp: encodeRequestFrame_def decodeRequestFrame_def typed_def bindE_eq_Inr request_ok_def)
next
  case (Subscription s)
  then have "canon_map (sb_scopes s) = sb_scopes s"
    using assms(3) by (auto dest: arg_cong [of _ _ sb_scopes])
  with assms Subscription show ?thesis
    using wholePayload_codes [OF subscription.codes [of s payload]]
    by (auto simp: encodeRequestFrame_def decodeRequestFrame_def typed_def bindE_eq_Inr request_ok_def)
next
  case (ReqUnknown u)
  with assms show ?thesis
    by (auto simp: encodeRequestFrame_def decodeRequestFrame_def encodeUnknown_def type_sets split: if_splits)
qed

lemma request_ok_canon: "request_ok f \<Longrightarrow> request_ok (canon_request f) \<and> canon_request (canon_request f) = canon_request f"
proof (cases f)
  case (Subscription s)
  moreover assume "request_ok f"
  ultimately have "scope_map_ok (sb_scopes s)" by (simp add: request_ok_def subscription_ok_def)
  moreover from this have "distinct (map fst (sb_scopes s))" by (simp add: scope_map_ok_def)
  ultimately show ?thesis
    using \<open>request_ok f\<close> scope_map_ok_canon by (auto simp: Subscription request_ok_def subscription_ok_def canon_map_idem)
qed auto

interpretation request_frames: frame_codec "encodeRequestFrame v" "decodeRequestFrame v" canon_request request_ok for v
proof
  fix f t payload assume "encodeRequestFrame v f = Inr (t, payload)" "request_ok f"
  then show "decodeRequestFrame v t payload = Inr (canon_request f)"
    using decodeRequest_encode_canonical [of v "canon_request f" t payload] request_ok_canon [of f]
      encodeRequestFrame_canon [of f v] by simp
next
  fix f t payload assume "encodeRequestFrame v f = Inr (t, payload)"
  then show "t \<noteq> FrameType F_END"
    by (cases f) (auto simp: encodeRequestFrame_def typed_def bindE_eq_Inr encodeUnknown_def type_sets split: if_splits)
qed

text \<open>Canonical response frames decode to themselves.\<close>

definition response_canonical :: "ResponseFrame \<Rightarrow> bool" where
  "response_canonical f = (case f of
     PushResult p \<Rightarrow> list_all (\<lambda>r. canon_result r = r) (pr_results p)
   | PushResultDetails p \<Rightarrow> list_all entry_ok (prd_entries p)
   | SubStart s \<Rightarrow> canon_map (ss_effectiveScopes s) = ss_effectiveScopes s
   | Commit c \<Rightarrow> list_all (\<lambda>c. canon_map (cc_scopes c) = cc_scopes c) (cf_changes c)
   | _ \<Rightarrow> True)"

lemmas response_frame_defs = encodeResponseFrame_def decodeResponseFrame_def typed_def bindE_eq_Inr response_ok_def
  response_canonical_def

lemma decodeResponse_encode_canonical:
  assumes "encodeResponseFrame v f = Inr (t, payload)" and "response_ok f" and "response_canonical f"
  shows "decodeResponseFrame v t payload = Inr f"
proof (cases f)
  case (RespHeader h)
  with assms show ?thesis
    using wholePayload_codes [OF resp_header.codes [of v h payload]] by (auto simp: response_frame_defs)
next
  case (Lease l)
  with assms show ?thesis
    using wholePayload_codes [OF lease.codes [of l payload]] by (auto simp: response_frame_defs)
next
  case (PushResult p)
  with assms show ?thesis
    using wholePayload_codes [OF push_result.codes [of p payload]] by (auto simp: response_frame_defs list_all_iff)
next
  case (PushResultDetails p)
  with assms show ?thesis
    using wholePayload_codes [OF push_details.codes [of p payload]] by (auto simp: response_frame_defs)
next
  case (SubStart s)
  with assms show ?thesis
    using wholePayload_codes [OF sub_start.codes [of s payload]] by (auto simp: response_frame_defs)
next
  case (Commit c)
  with assms show ?thesis
    using wholePayload_codes [OF commit.codes [of c payload]] by (auto simp: response_frame_defs list_all_iff)
next
  case (SegmentRef s)
  with assms show ?thesis
    using wholePayload_codes [OF segment_ref.codes [of s payload]] by (auto simp: response_frame_defs)
next
  case (SegmentInline p)
  with assms show ?thesis
    by (auto simp: response_frame_defs wholePayload_def decodeSegmentInline_def r_raw_def r_take_def
        expectFullyConsumed_def split: sum.splits)
next
  case (SubEnd s)
  with assms show ?thesis
    using wholePayload_codes [OF sub_end.codes [of s payload]] by (auto simp: response_frame_defs)
next
  case (ErrorF e)
  with assms show ?thesis
    using wholePayload_codes [OF error_frame.codes [of e payload]] by (auto simp: response_frame_defs)
next
  case (RespUnknown u)
  with assms show ?thesis
    by (auto simp: response_frame_defs encodeUnknown_def type_sets split: if_splits)
qed

lemma canon_result_idem: "canon_result (canon_result r) = canon_result r"
  by (cases r) (simp_all add: canon_result_def)

lemma result_ok_canon: "result_ok (canon_result r) = result_ok r"
  by (cases r) (simp_all add: canon_result_def)

lemma details_references: "details_ok d \<Longrightarrow> references_ok d"
  by (auto simp: details_ok_def references_ok_def strict_sorted_iff split: option.splits)

lemma response_canon:
  assumes "encodeResponseFrame v f = Inr (t, payload)" and "response_ok f"
  shows "response_ok (canon_response f) \<and> response_canonical (canon_response f)"
proof (cases f)
  case (PushResultDetails p)
  let ?es = "map (\<lambda>e. e\<lparr>de_details := canon_details (de_details e)\<rparr>) (prd_entries p)"
  have "list_all entry_ok ?es"
    using assms encodeDetailsEntries_ok [of "[]" "prd_entries p"]
    by (auto simp: PushResultDetails response_frame_defs encodePushResultDetails_def writer_simps split: if_splits)
  moreover from this have "list_all (\<lambda>e. references_ok (de_details e)) ?es"
    unfolding list_all_iff entry_ok_def using details_references by blast
  ultimately show ?thesis using assms(2) by (simp add: PushResultDetails response_ok_def response_canonical_def)
next
  case (Commit c)
  then show ?thesis
    using assms(2) by (auto simp: response_ok_def response_canonical_def canon_change_def change_ok_def list_all_iff
        string_map_ok_canon canon_map_idem dest: string_map_ok_canon) (auto simp: string_map_ok_def canon_map_idem)
next
  case (SubStart s)
  then show ?thesis
    using assms(2) scope_map_ok_canon [of "ss_effectiveScopes s"]
    by (auto simp: response_ok_def response_canonical_def scope_map_ok_def canon_map_idem)
qed (use assms(2) in \<open>auto simp: response_ok_def response_canonical_def canon_result_idem result_ok_canon list_all_iff\<close>)

interpretation response_frames: frame_codec "encodeResponseFrame v" "decodeResponseFrame v" canon_response response_ok for v
proof
  fix f t payload assume "encodeResponseFrame v f = Inr (t, payload)" "response_ok f"
  then show "decodeResponseFrame v t payload = Inr (canon_response f)"
    using decodeResponse_encode_canonical [of v "canon_response f" t payload] response_canon [of v f t payload]
      encodeResponseFrame_canon [of f v] by simp
next
  fix f t payload assume "encodeResponseFrame v f = Inr (t, payload)"
  then show "t \<noteq> FrameType F_END"
    by (cases f) (auto simp: encodeResponseFrame_def typed_def bindE_eq_Inr encodeUnknown_def type_sets split: if_splits)
qed

section \<open>The grammar does not see the canonical form\<close>

lemma requestStep_canon: "requestStep st (canon_request f) = requestStep st f"
  by (cases f) (simp_all add: requestStep_def)

lemma validateRequest_canon: "validateRequestSequence (map canon_request fs) = validateRequestSequence fs"
proof -
  have "foldE requestStep st (map canon_request fs) = foldE requestStep st fs" for st fs
    by (induction fs arbitrary: st) (simp_all add: requestStep_canon)
  then show ?thesis
    by (auto simp: validateRequestSequence_def split: list.splits RequestFrame.splits elim: canon_request.elims)
qed

definition canon_push :: "PushResultFrame \<Rightarrow> PushResultFrame" where
  "canon_push p = p\<lparr>pr_results := map canon_result (pr_results p)\<rparr>"

definition canon_state :: "response_state \<Rightarrow> response_state" where
  "canon_state st = st\<lparr>rst_lastPushResult := map_option canon_push (rst_lastPushResult st)\<rparr>"

lemma errorIndexes_canon: "errorIndexes (canon_push p) = errorIndexes p"
proof -
  have "(case canon_result r of OpError i _ _ _ _ \<Rightarrow> [i] | _ \<Rightarrow> []) = (case r of OpError i _ _ _ _ \<Rightarrow> [i] | _ \<Rightarrow> [])" for r
    by (cases r) (simp_all add: canon_result_def)
  then show ?thesis by (simp add: errorIndexes_def canon_push_def comp_def)
qed

lemma responseStep_canon:
  "responseStep (canon_state st) (canon_response f) = bindE (responseStep st f) (\<lambda>st. Inr (canon_state st))"
proof (cases f)
  case (PushResultDetails p)
  have "list_ex (\<lambda>e. de_opIndex e \<notin> S) (map (\<lambda>e. e\<lparr>de_details := canon_details (de_details e)\<rparr>) es)
      = list_ex (\<lambda>e. de_opIndex e \<notin> S) es" for S and es :: "DetailsEntry list"
    by (induction es) auto
  moreover have "pr_clientCommitId (canon_push q) = pr_clientCommitId q" "pr_status (canon_push q) = pr_status q" for q
    by (simp_all add: canon_push_def)
  ultimately show ?thesis
    by (cases "rst_lastPushResult st")
      (simp_all add: PushResultDetails responseStep_def detailsStep_def canon_state_def errorIndexes_canon)
qed (auto simp: responseStep_def segmentStep_def canon_state_def canon_push_def)

lemma validateResponse_canon:
  assumes "validateResponseSequence fs = Inr ()"
  shows "validateResponseSequence (map canon_response fs) = Inr ()"
proof -
  have f: "foldE responseStep (canon_state st) (map canon_response fs) = bindE (foldE responseStep st fs) (\<lambda>st. Inr (canon_state st))" for st fs
  proof (induction fs arbitrary: st)
    case (Cons f fs)
    then show ?case by (cases "responseStep st f") (simp_all add: responseStep_canon)
  qed simp
  have s: "canon_state response_start = response_start" by (simp add: canon_state_def response_start_def)
  obtain h rest st where fs: "fs = RespHeader h # rest" and st: "foldE responseStep response_start rest = Inr st"
      "\<not> (rst_inSubscription st \<and> \<not> rst_errorSeen st)"
    using assms by (auto simp: validateResponseSequence_def bindE_eq_Inr split: list.splits ResponseFrame.splits if_splits)
  have "foldE responseStep response_start (map canon_response rest) = Inr (canon_state st)"
    using f [of response_start rest] st(1) by (simp add: s)
  then show ?thesis using st(2) by (simp add: fs validateResponseSequence_def canon_state_def)
qed

section \<open>Messages\<close>

lemma header_roundtrip:
  assumes "isSupportedProtocolWireVersion v" "k = 1 \<or> k = 2"
    and "w_u16 v = Inr b1" "w_u8 k = Inr b2" "w_u8 0 = Inr b3"
  shows "readEnvelopeHeader (SYNC_PACK_MAGIC @ b1 @ b2 @ b3 @ rest) = Inr ((v, k), rest)"
proof -
  have l: "length SYNC_PACK_MAGIC = 4" "length b1 = 2" "length b2 = 1" "length b3 = 1"
    using assms(3,4,5) by (auto simp: pack_magic_bytes w_u16_def w_u8_def split: if_splits)
  have "codes (r_raw 4) SYNC_PACK_MAGIC SYNC_PACK_MAGIC" using codes_take [OF l(1)] by (simp add: r_raw_def)
  then have m: "r_raw 4 (SYNC_PACK_MAGIC @ r) = Inr (SYNC_PACK_MAGIC, r)" for r by (rule codesD)
  have n: "\<not> length (SYNC_PACK_MAGIC @ b1 @ b2 @ b3 @ rest) < 8" using l by simp
  show ?thesis
    unfolding readEnvelopeHeader_def if_not_P [OF n]
    using assms(1,2) u16.read_write [OF assms(3)] u8.read_write [OF assms(4)] u8.read_write [OF assms(5)]
    by (auto simp: bindR_def m returnR_def)
qed

lemma decodeMessage_encodeMessage:
  assumes "encodeMessage m = Inr b" and "message_ok m"
  shows "decodeMessage b = Inr (canon_message m)"
proof (cases m)
  case (RequestMessage v fs)
  obtain b1 b2 b3 b4 e where w: "w_u16 v = Inr b1" "w_u8 1 = Inr b2" "w_u8 0 = Inr b3"
    "seqW (map (\<lambda>f. writeFrame (encodeRequestFrame v f)) fs) = Inr b4" "endFrame = Inr e"
    and b: "b = SYNC_PACK_MAGIC @ b1 @ b2 @ b3 @ b4 @ e" and g: "isSupportedProtocolWireVersion v" "validateRequestSequence fs = Inr ()"
    using assms(1) by (auto simp: RequestMessage encodeMessage_def validateFrameSequence_def w_raw_def writer_simps
        bindE_eq_Inr split: if_splits)
  show ?thesis
    using header_roundtrip [OF g(1) _ w(1,2,3), of "b4 @ e"] request_frames.readFrames_writeFrames [OF w(4,5)] assms(2) g(2)
    by (simp add: RequestMessage b decodeMessage_def validateRequest_canon)
next
  case (ResponseMessage v fs)
  obtain b1 b2 b3 b4 e where w: "w_u16 v = Inr b1" "w_u8 2 = Inr b2" "w_u8 0 = Inr b3"
    "seqW (map (\<lambda>f. writeFrame (encodeResponseFrame v f)) fs) = Inr b4" "endFrame = Inr e"
    and b: "b = SYNC_PACK_MAGIC @ b1 @ b2 @ b3 @ b4 @ e" and g: "isSupportedProtocolWireVersion v" "validateResponseSequence fs = Inr ()"
    using assms(1) by (auto simp: ResponseMessage encodeMessage_def validateFrameSequence_def w_raw_def writer_simps
        bindE_eq_Inr split: if_splits)
  show ?thesis
    using header_roundtrip [OF g(1) _ w(1,2,3), of "b4 @ e"] response_frames.readFrames_writeFrames [OF w(4,5)] assms(2)
      validateResponse_canon [OF g(2)]
    by (simp add: ResponseMessage b decodeMessage_def)
qed

end
