(* ===== verification/Stream_Scanner.thy ===== *)
theory Stream_Scanner
  imports Message_Roundtrip
begin

text \<open>
  \<open>core/src/stream.ts\<close>: the incremental scanner that finds the end of an envelope in a byte
  stream delivered in chunks. The scanner keeps a doubling buffer and a parse cursor; its
  specification is a function of the bytes received so far, so that the result cannot depend
  on where the chunks were cut.
\<close>

record ScannedMessage =
  sm_message :: "byte list"
  sm_excess :: nat

record scanner =
  sc_buffer :: "byte list"
  sc_length :: nat
  sc_offset :: int
  sc_complete :: bool

definition sc_new :: scanner where
  "sc_new = \<lparr>sc_buffer = replicate 1024 0, sc_length = 0, sc_offset = -1, sc_complete = False\<rparr>"

definition sc_started :: "scanner \<Rightarrow> bool" where
  "sc_started s \<longleftrightarrow> sc_length s > 0"

definition sc_append :: "scanner \<Rightarrow> byte list \<Rightarrow> scanner" where
  "sc_append s chunk =
     (let needed = sc_length s + length chunk;
          buffer = (if needed > length (sc_buffer s)
                    then (let capacity = grow_capacity (length (sc_buffer s)) needed in
                          take (sc_length s) (sc_buffer s) @ replicate (capacity - sc_length s) 0)
                    else sc_buffer s) in
      s\<lparr>sc_buffer := take (sc_length s) buffer @ chunk @ drop (sc_length s + length chunk) buffer,
        sc_length := needed\<rparr>)"

definition checkHeader :: "byte list \<Rightarrow> unit result" where
  "checkHeader b =
     (if b ! 0 \<noteq> SYNC_PACK_MAGIC ! 0 \<or> b ! 1 \<noteq> SYNC_PACK_MAGIC ! 1
         \<or> b ! 2 \<noteq> SYNC_PACK_MAGIC ! 2 \<or> b ! 3 \<noteq> SYNC_PACK_MAGIC ! 3
      then Inl invalid_request
      else let wireVersion = unat (b ! 4) OR push_bit 8 (unat (b ! 5)) in
      if \<not> isSupportedProtocolWireVersion (int wireVersion) then Inl invalid_request
      else if b ! 6 \<noteq> 0x01 \<and> b ! 6 \<noteq> 0x02 then Inl invalid_request
      else if b ! 7 \<noteq> 0x00 then Inl invalid_request
      else Inr ())"

text \<open>The frame walk: the cursor where it stopped and whether the \<open>END\<close> frame was passed.\<close>

function scanFrames :: "byte list \<Rightarrow> nat \<Rightarrow> nat \<Rightarrow> nat \<times> bool" where
  "scanFrames buffer len offset =
     (if len < offset + 5 then (offset, False)
      else let frameType = buffer ! offset;
               frameLength = le_val (take 4 (drop (offset + 1) buffer));
               frameEnd = offset + 5 + frameLength in
           if len < frameEnd then (offset, False)
           else if frameType = 0x00 then (frameEnd, True)
           else scanFrames buffer len frameEnd)"
  by pat_completeness auto
termination
  by (relation "measure (\<lambda>(buffer, len, offset). len - offset)") auto

declare scanFrames.simps [simp del]

definition sc_walk :: "scanner \<Rightarrow> scanner \<times> ScannedMessage option result" where
  "sc_walk s =
     (case scanFrames (sc_buffer s) (sc_length s) (nat (sc_offset s)) of
        (end, True) \<Rightarrow>
          (s\<lparr>sc_offset := int end, sc_complete := True\<rparr>,
           Inr (Some \<lparr>sm_message = take end (sc_buffer s), sm_excess = sc_length s - end\<rparr>))
      | (offset, False) \<Rightarrow> (s\<lparr>sc_offset := int offset\<rparr>, Inr None))"

definition sc_push :: "scanner \<Rightarrow> byte list \<Rightarrow> scanner \<times> ScannedMessage option result" where
  "sc_push s chunk =
     (if sc_complete s then (s, Inl PlainError)
      else let s1 = sc_append s chunk in
      if sc_offset s1 < 0 then
        (if sc_length s1 < 8 then (s1, Inr None)
         else case checkHeader (sc_buffer s1) of
           Inl e \<Rightarrow> (s1, Inl e)
         | Inr _ \<Rightarrow> sc_walk (s1\<lparr>sc_offset := 8\<rparr>))
      else sc_walk s1)"

text \<open>Feeding chunks until the first message or error.\<close>

fun sc_feed :: "scanner \<Rightarrow> byte list list \<Rightarrow> scanner \<times> ScannedMessage option result" where
  "sc_feed s [] = (s, Inr None)"
| "sc_feed s (chunk # chunks) =
     (case sc_push s chunk of (s', Inr None) \<Rightarrow> sc_feed s' chunks | r \<Rightarrow> r)"

section \<open>The specification\<close>

definition scan_stream :: "byte list \<Rightarrow> ScannedMessage option result" where
  "scan_stream bs =
     (if length bs < 8 then Inr None
      else bindE (checkHeader bs) (\<lambda>_.
        case scanFrames bs (length bs) 8 of
          (end, True) \<Rightarrow> Inr (Some \<lparr>sm_message = take end bs, sm_excess = length bs - end\<rparr>)
        | (_, False) \<Rightarrow> Inr None))"

section \<open>The buffer\<close>

definition sc_contents :: "scanner \<Rightarrow> byte list" where
  "sc_contents s = take (sc_length s) (sc_buffer s)"

definition sc_inv :: "scanner \<Rightarrow> bool" where
  "sc_inv s \<longleftrightarrow> sc_length s \<le> length (sc_buffer s) \<and> 0 < length (sc_buffer s)"

interpretation sc: byte_sink sc_new sc_append sc_contents sc_inv
proof
  show "sc_inv sc_new" "sc_contents sc_new = []" by (simp_all add: sc_inv_def sc_new_def sc_contents_def)
next
  fix s and bs :: "byte list" assume i: "sc_inv s"
  let ?n = "sc_length s + length bs" and ?B = "length (sc_buffer s)"
  have g: "?n \<le> grow_capacity ?B ?n" "?B \<le> grow_capacity ?B ?n"
    using i by (auto simp: sc_inv_def grow_capacity_ge grow_capacity_mono)
  show "sc_inv (sc_append s bs)"
    using i g by (auto simp: sc_append_def sc_inv_def Let_def)
  show "sc_contents (sc_append s bs) = sc_contents s @ bs"
    using i g by (auto simp: sc_append_def sc_inv_def sc_contents_def Let_def)
qed

lemma append_fields [simp]:
  "sc_offset (sc_append s chunk) = sc_offset s" "sc_complete (sc_append s chunk) = sc_complete s"
  "sc_length (sc_append s chunk) = sc_length s + length chunk"
  by (simp_all add: sc_append_def Let_def)

section \<open>The frame walk\<close>

lemma scanFrames_take:
  assumes "len \<le> length buffer"
  shows "scanFrames (take len buffer) len offset = scanFrames buffer len offset"
  using assms
proof (induction buffer len offset rule: scanFrames.induct)
  case (1 buffer len offset)
  show ?case
  proof (cases "len < offset + 5")
    case False
    then have "take 4 (drop (offset + 1) (take len buffer)) = take 4 (drop (offset + 1) buffer)"
      "take len buffer ! offset = buffer ! offset"
      by (simp_all add: drop_take min_def)
    then show ?thesis
      unfolding scanFrames.simps [of "take len buffer" len offset] scanFrames.simps [of buffer len offset]
      using 1 False by (simp add: Let_def)
  qed (simp add: scanFrames.simps)
qed

lemma scanFrames_extend:
  assumes "len = length bs"
  shows "scanFrames (bs @ ext) (len + length ext) offset =
    (case scanFrames bs len offset of
       (end, True) \<Rightarrow> (end, True)
     | (offset', False) \<Rightarrow> scanFrames (bs @ ext) (len + length ext) offset')"
  using assms
proof (induction bs len offset rule: scanFrames.induct)
  case (1 bs len offset)
  show ?case
  proof (cases "len < offset + 5")
    case True
    then show ?thesis by (simp add: scanFrames.simps [of bs])
  next
    case False
    let ?fl = "le_val (take 4 (drop (offset + 1) bs))"
    have same: "take 4 (drop (offset + 1) (bs @ ext)) = take 4 (drop (offset + 1) bs)" "(bs @ ext) ! offset = bs ! offset"
      using False 1(2) by (simp_all add: nth_append)
    show ?thesis
    proof (cases "len < offset + 5 + ?fl")
      case True
      then show ?thesis using False by (simp add: scanFrames.simps [of bs] Let_def)
    next
      case fit: False
      have step: "scanFrames (bs @ ext) (len + length ext) offset =
          (if bs ! offset = 0 then (offset + 5 + ?fl, True) else scanFrames (bs @ ext) (len + length ext) (offset + 5 + ?fl))"
        unfolding scanFrames.simps [of "bs @ ext" _ offset] same Let_def using False fit by simp
      show ?thesis
        unfolding step using 1(1) [OF False refl refl refl fit] 1(2) False fit
        by (simp add: scanFrames.simps [of bs _ offset] Let_def)
    qed
  qed
qed

lemma scanFrames_bounds: "scanFrames bs len offset = (end, True) \<Longrightarrow> end \<le> len"
proof (induction bs len offset rule: scanFrames.induct)
  case (1 bs len offset)
  then show ?case
    by (subst (asm) (2) scanFrames.simps) (auto simp: Let_def split: if_splits)
qed

section \<open>The scanner meets its specification\<close>

lemma checkHeader_prefix: "8 \<le> n \<Longrightarrow> checkHeader (take n bs) = checkHeader bs"
  by (simp add: checkHeader_def)

lemma checkHeader_append: "8 \<le> length bs \<Longrightarrow> checkHeader (bs @ ext) = checkHeader bs"
  using checkHeader_prefix [of "length bs" "bs @ ext"] by simp

text \<open>What the scanner's fields say about the bytes received, while no message is complete.\<close>

definition sc_rep :: "scanner \<Rightarrow> byte list \<Rightarrow> bool" where
  "sc_rep s bs \<longleftrightarrow> sc_inv s \<and> sc_contents s = bs \<and> \<not> sc_complete s
     \<and> (if length bs < 8 then sc_offset s = -1
        else checkHeader bs = Inr () \<and> (\<exists>offset. sc_offset s = int offset \<and> scanFrames bs (length bs) 8 = (offset, False)))"

lemma sc_rep_new: "sc_rep sc_new []"
  using sc.inv_fresh sc.contents_fresh by (simp add: sc_rep_def) (simp add: sc_new_def)

lemma walk_spec:
  assumes "sc_inv s" and "sc_contents s = bs" and "\<not> sc_complete s" and "8 \<le> length bs"
    and "checkHeader bs = Inr ()" and "0 \<le> sc_offset s"
    and "scanFrames bs (length bs) (nat (sc_offset s)) = scanFrames bs (length bs) 8"
  shows "snd (sc_walk s) = scan_stream bs \<and> (snd (sc_walk s) = Inr None \<longrightarrow> sc_rep (fst (sc_walk s)) bs)"
proof -
  have len: "sc_length s = length bs" "sc_length s \<le> length (sc_buffer s)"
    using assms(1,2) by (auto simp: sc_inv_def sc_contents_def)
  have walk: "scanFrames (sc_buffer s) (sc_length s) (nat (sc_offset s)) = scanFrames bs (length bs) 8"
    using scanFrames_take [OF len(2), of "nat (sc_offset s)"] assms(2,7) by (simp add: sc_contents_def len(1))
  obtain e c where e: "scanFrames bs (length bs) 8 = (e, c)" by fastforce
  show ?thesis
  proof (cases c)
    case True
    have "e \<le> length bs" using scanFrames_bounds [of bs "length bs" 8 e] e True by simp
    moreover have "bs = take (length bs) (sc_buffer s)" using assms(2) len(1) by (simp add: sc_contents_def)
    ultimately have "take e bs = take e (sc_buffer s)" by (metis min.absorb1 take_take)
    then show ?thesis using assms(4,5) e True len unfolding sc_walk_def walk by (simp add: scan_stream_def)
  next
    case False
    then have "fst (sc_walk s) = s\<lparr>sc_offset := int e\<rparr>" "snd (sc_walk s) = Inr None"
      using walk e by (simp_all add: sc_walk_def)
    moreover have "sc_rep (s\<lparr>sc_offset := int e\<rparr>) bs"
      using assms(1-5) e False by (auto simp: sc_rep_def sc_inv_def sc_contents_def)
    ultimately show ?thesis using assms(4,5) e False by (simp add: scan_stream_def)
  qed
qed

lemma push_spec:
  assumes "sc_rep s bs"
  shows "snd (sc_push s chunk) = scan_stream (bs @ chunk)
    \<and> (snd (sc_push s chunk) = Inr None \<longrightarrow> sc_rep (fst (sc_push s chunk)) (bs @ chunk))"
proof -
  let ?s = "sc_append s chunk" and ?b = "bs @ chunk"
  have i: "sc_inv s" "sc_contents s = bs" "\<not> sc_complete s" using assms by (auto simp: sc_rep_def)
  have a: "sc_inv ?s" "sc_contents ?s = ?b" "\<not> sc_complete ?s"
    using sc.inv_put [OF i(1)] sc.contents_put [OF i(1)] i by auto
  have "length (sc_contents ?s) = sc_length ?s" using a(1) unfolding sc_inv_def sc_contents_def by simp
  then have len: "sc_length ?s = length ?b" unfolding a(2) by simp
  have hd: "checkHeader (sc_buffer ?s) = checkHeader ?b" if "8 \<le> length ?b"
    using checkHeader_prefix [of "sc_length ?s" "sc_buffer ?s"] that a(2) len by (simp add: sc_contents_def)
  show ?thesis
  proof (cases "length bs < 8")
    case True
    then have o: "sc_offset ?s = -1" using assms by (simp add: sc_rep_def)
    show ?thesis
    proof (cases "length ?b < 8")
      case True
      then have "sc_push s chunk = (?s, Inr None)" using i(3) o len by (simp add: sc_push_def Let_def)
      then show ?thesis using True a o by (simp add: scan_stream_def sc_rep_def)
    next
      case False
      show ?thesis
      proof (cases "checkHeader ?b")
        case (Inl e)
        then have "sc_push s chunk = (?s, Inl e)" using False i(3) o len hd by (simp add: sc_push_def Let_def)
        then show ?thesis using False Inl by (simp add: scan_stream_def)
      next
        case (Inr u)
        then have "sc_push s chunk = sc_walk (?s\<lparr>sc_offset := 8\<rparr>)"
          using False i(3) o len hd by (simp add: sc_push_def Let_def)
        moreover have "sc_inv (?s\<lparr>sc_offset := 8\<rparr>)" "sc_contents (?s\<lparr>sc_offset := 8\<rparr>) = ?b"
          using a(1,2) by (simp_all add: sc_inv_def sc_contents_def)
        ultimately show ?thesis using walk_spec [of "?s\<lparr>sc_offset := 8\<rparr>" ?b] False Inr a(3) by simp
      qed
    qed
  next
    case False
    then obtain off where off: "sc_offset s = int off" "scanFrames bs (length bs) 8 = (off, False)" "checkHeader bs = Inr ()"
      using assms by (auto simp: sc_rep_def)
    then have "sc_push s chunk = sc_walk ?s" using i(3) by (simp add: sc_push_def Let_def)
    moreover have "scanFrames ?b (length ?b) (nat (sc_offset ?s)) = scanFrames ?b (length ?b) 8"
      using scanFrames_extend [of "length bs" bs chunk 8] off by simp
    ultimately show ?thesis
      using walk_spec [of ?s ?b] a False off checkHeader_append [of bs chunk] by simp
  qed
qed

text \<open>Once a message or an error is determined, further bytes only add to the excess.\<close>

definition message_of :: "ScannedMessage option result \<Rightarrow> byte list option result" where
  "message_of r = bindE r (\<lambda>m. Inr (map_option sm_message m))"

lemma scan_stream_extend:
  assumes "scan_stream bs \<noteq> Inr None"
  shows "message_of (scan_stream (bs @ ext)) = message_of (scan_stream bs)"
proof -
  have l: "8 \<le> length bs" using assms by (auto simp: scan_stream_def split: if_splits)
  show ?thesis
  proof (cases "checkHeader bs")
    case (Inl e)
    then show ?thesis using l checkHeader_append [OF l] by (simp add: scan_stream_def message_of_def)
  next
    case (Inr u)
    obtain e where e: "scanFrames bs (length bs) 8 = (e, True)"
      using assms l Inr by (auto simp: scan_stream_def split: prod.splits bool.splits)
    have "scanFrames (bs @ ext) (length (bs @ ext)) 8 = (e, True)"
      using scanFrames_extend [of "length bs" bs ext 8] e by simp
    then show ?thesis
      using l Inr e checkHeader_append [OF l] scanFrames_bounds [OF e]
      by (simp add: scan_stream_def message_of_def)
  qed
qed

lemma feed_spec:
  "sc_rep s bs \<Longrightarrow> message_of (snd (sc_feed s chunks)) = message_of (scan_stream (bs @ concat chunks)) \<or> chunks = []"
proof (induction chunks arbitrary: s bs)
  case (Cons chunk chunks)
  note p = push_spec [OF Cons.prems, of chunk]
  obtain s' r where sr: "sc_push s chunk = (s', r)" by fastforce
  show ?case
  proof (cases "r = Inr None")
    case True
    then have rep: "sc_rep s' (bs @ chunk)" using p sr by simp
    show ?thesis
    proof (cases chunks)
      case Nil
      moreover have "scan_stream (bs @ chunk) = Inr None" using p sr True by simp
      ultimately show ?thesis using sr True by simp
    next
      case (Cons c cs)
      then show ?thesis using Cons.IH [OF rep] sr True by simp
    qed
  next
    case False
    then have "message_of (scan_stream ((bs @ chunk) @ concat chunks)) = message_of r"
      using p sr scan_stream_extend [of "bs @ chunk" "concat chunks"] by simp
    moreover have "sc_feed s (chunk # chunks) = (s', r)"
      using sr False by (auto split: sum.splits option.splits)
    ultimately show ?thesis by simp
  qed
qed simp

lemma feed_message: "message_of (snd (sc_feed sc_new chunks)) = message_of (scan_stream (concat chunks))"
  using feed_spec [OF sc_rep_new, of chunks] by (auto simp: scan_stream_def)

section \<open>Encoded messages are found exactly\<close>

context frame_codec begin

lemma scan_writeFrame:
  assumes "writeFrame (enc f) = Inr b"
  shows "scanFrames (pre @ b @ post) (length (pre @ b @ post)) (length pre) =
    scanFrames (pre @ b @ post) (length (pre @ b @ post)) (length (pre @ b))"
proof -
  obtain t payload b1 b2 where w: "enc f = Inr (t, payload)" "w_u8 t = Inr b1" "w_u32 (int (length payload)) = Inr b2"
    and b: "b = b1 @ b2 @ payload"
    using assms by (auto simp: writeFrame_def bindE_eq_Inr w_raw_def writer_simps)
  have t: "t \<noteq> 0" "0 \<le> t" "t \<le> 255" "b1 = [of_nat (nat t)]"
    using enc_type [OF w(1)] w(2) by (auto simp: w_u8_def split: if_splits)
  have "unat (of_nat (nat t) :: byte) = nat t" using t(2,3) by (intro unat_of_nat_8) simp
  then have t8: "(of_nat (nat t) :: byte) \<noteq> 0" using t(1,2) by (metis nat_0_iff order.antisym unat_0)
  have l: "length b2 = 4" "le_val b2 = length payload"
    using w(3) by (auto simp: w_u32_def le_val_le_bytes split: if_splits)
  have n: "(pre @ b @ post) ! length pre = of_nat (nat t)" by (simp add: b t(4))
  have d: "take 4 (drop (length pre + 1) (pre @ b @ post)) = b2" using l(1) by (simp add: b t(4))
  have len: "length pre + 5 + length payload = length (pre @ b)" using l(1) by (simp add: b t(4))
  have fit: "\<not> length (pre @ b @ post) < length pre + 5" "\<not> length (pre @ b @ post) < length pre + 5 + length payload"
    using len by simp_all
  show ?thesis
    unfolding scanFrames.simps [of "pre @ b @ post" "length (pre @ b @ post)" "length pre"] if_not_P [OF fit(1)] Let_def n d l(2)
      if_not_P [OF fit(2)] len using t8 by simp
qed

lemma scan_frames:
  assumes "seqW (map (\<lambda>f. writeFrame (enc f)) fs) = Inr b" and "endFrame = Inr e"
  shows "scanFrames (pre @ b @ e @ ext) (length (pre @ b @ e @ ext)) (length pre) = (length (pre @ b @ e), True)"
  using assms
proof (induction fs arbitrary: b pre)
  case Nil
  have e: "e = [0, 0, 0, 0, 0]"
    using assms(2) by (simp add: endFrame_def w_u8_def w_u32_def seqW_simps le_bytes_4_0)
  have b: "b = []" using Nil.prems(1) by (simp add: writer_simps)
  have d: "take 4 (drop (length pre + 1) (pre @ e @ ext)) = [0, 0, 0, 0]" "(pre @ e @ ext) ! length pre = 0"
    by (simp_all add: e)
  have "\<not> length (pre @ e @ ext) < length pre + 5" by (simp add: e)
  then show ?case
    unfolding b append_Nil scanFrames.simps [of "pre @ e @ ext" _ "length pre"] d Let_def by (simp add: e)
next
  case (Cons f fs)
  obtain b1 b2 where w: "writeFrame (enc f) = Inr b1" "seqW (map (\<lambda>f. writeFrame (enc f)) fs) = Inr b2"
    and b: "b = b1 @ b2" using Cons.prems(1) by (auto simp: writer_simps)
  show ?case
    using scan_writeFrame [OF w(1), of pre "b2 @ e @ ext"] Cons.IH [OF w(2) assms(2), of "pre @ b1"] by (simp add: b)
qed

end

lemma le16_or: "unat (a :: byte) OR push_bit 8 (unat (b :: byte)) = le_val [a, b]"
proof -
  have "unat a AND push_bit 8 (unat b) = 0"
    by (rule bit_eqI) (auto simp: bit_and_iff bit_push_bit_iff bit_unsigned_iff dest: bit_imp_le_length)
  then have "unat a + push_bit 8 (unat b) = unat a OR push_bit 8 (unat b)" by (rule disjunctive_add_eq_or)
  then show ?thesis by (simp add: push_bit_eq_mult)
qed

lemma checkHeader_encoded:
  assumes "isSupportedProtocolWireVersion v" "k = 1 \<or> k = 2"
    and "w_u16 v = Inr b1" "w_u8 k = Inr b2" "w_u8 0 = Inr b3"
  shows "checkHeader (SYNC_PACK_MAGIC @ b1 @ b2 @ b3 @ rest) = Inr ()"
proof -
  have b1: "b1 = le_bytes 2 (nat v)" and v: "0 \<le> v" "v \<le> 65535" using assms(3) by (auto simp: w_u16_def split: if_splits)
  have b23: "b2 = [of_int k]" "b3 = [0]" using assms(2,4,5) by (auto simp: w_u8_def split: if_splits)
  obtain x y where xy: "b1 = [x, y]" using b1 by (simp add: numeral_2_eq_2)
  have "le_val [x, y] = nat v" using b1 v xy le_val_le_bytes [of 2 "nat v"] by simp
  then show ?thesis
    using assms(1,2) v by (auto simp: checkHeader_def pack_magic_bytes xy b23 le16_or Let_def simp del: le_val.simps)
qed

lemma scan_encoded:
  assumes "encodeMessage m = Inr b"
  shows "scan_stream (b @ ext) = Inr (Some \<lparr>sm_message = b, sm_excess = length ext\<rparr>)"
proof -
  have go: ?thesis if g: "isSupportedProtocolWireVersion v" "k = 1 \<or> k = 2"
    and w: "w_u16 v = Inr b1" "w_u8 k = Inr b2" "w_u8 0 = Inr b3"
    and b: "b = SYNC_PACK_MAGIC @ b1 @ b2 @ b3 @ b4 @ e"
    and s: "\<And>pre ext. scanFrames (pre @ b4 @ e @ ext) (length (pre @ b4 @ e @ ext)) (length pre) = (length (pre @ b4 @ e), True)"
    for v k b1 b2 b3 b4 e
  proof -
    let ?pre = "SYNC_PACK_MAGIC @ b1 @ b2 @ b3"
    have l: "length ?pre = 8" using w by (auto simp: pack_magic_bytes w_u16_def w_u8_def split: if_splits)
    have "checkHeader (b @ ext) = Inr ()" using checkHeader_encoded [OF g w, of "b4 @ e @ ext"] by (simp add: b)
    moreover have "scanFrames (b @ ext) (length (b @ ext)) 8 = (length b, True)"
      using s [of ?pre ext] l by (simp add: b)
    moreover have "\<not> length (b @ ext) < 8" using l by (simp add: b)
    ultimately show ?thesis by (simp add: scan_stream_def)
  qed
  show ?thesis
  proof (cases m)
    case (RequestMessage v fs)
    obtain b1 b2 b3 b4 e where w: "w_u16 v = Inr b1" "w_u8 1 = Inr b2" "w_u8 0 = Inr b3"
      "seqW (map (\<lambda>f. writeFrame (encodeRequestFrame v f)) fs) = Inr b4" "endFrame = Inr e"
      and b: "b = SYNC_PACK_MAGIC @ b1 @ b2 @ b3 @ b4 @ e" and g: "isSupportedProtocolWireVersion v"
      using assms by (auto simp: RequestMessage encodeMessage_def w_raw_def writer_simps bindE_eq_Inr split: if_splits)
    show ?thesis by (rule go [OF g _ w(1,2,3) b]) (simp, rule request_frames.scan_frames [OF w(4,5)])
  next
    case (ResponseMessage v fs)
    obtain b1 b2 b3 b4 e where w: "w_u16 v = Inr b1" "w_u8 2 = Inr b2" "w_u8 0 = Inr b3"
      "seqW (map (\<lambda>f. writeFrame (encodeResponseFrame v f)) fs) = Inr b4" "endFrame = Inr e"
      and b: "b = SYNC_PACK_MAGIC @ b1 @ b2 @ b3 @ b4 @ e" and g: "isSupportedProtocolWireVersion v"
      using assms by (auto simp: ResponseMessage encodeMessage_def w_raw_def writer_simps bindE_eq_Inr split: if_splits)
    show ?thesis by (rule go [OF g _ w(1,2,3) b]) (simp, rule response_frames.scan_frames [OF w(4,5)])
  qed
qed

end
