(* ===== verification/Core_Properties.thy ===== *)
theory Core_Properties
  imports Stream_Scanner
begin

text \<open>
  The properties of the core package (\<open>packages/core\<close>) with the concrete instances that show
  their hypotheses satisfiable. Each rests on the lemmas of the component theories.
\<close>

lemmas version_defs = isSupportedProtocolWireVersion_def MINIMUM_PROTOCOL_WIRE_VERSION_def PROTOCOL_WIRE_VERSION_def

section \<open>The envelope\<close>

text \<open>A small push request, the running example.\<close>

definition sample_request :: SyncMessage where
  "sample_request = RequestMessage 2
     [ReqHeader \<lparr>rqh_clientId = js ''c1'', rqh_schemaVersion = 1, rqh_logEpoch = None\<rparr>,
      PushCommit \<lparr>pc_clientCommitId = js ''k'', pc_operations =
        [\<lparr>po_table = js ''t'', po_rowId = js ''r'', po_op = Delete, po_baseVersion = None, po_payload = None\<rparr>]\<rparr>]"

lemmas sample_request_eval = sample_request_def encodeMessage_def version_defs validateFrameSequence_def
  validateRequestSequence_def requestStep_def writeFrame_def encodeRequestFrame_def typed_def encodeReqHeader_def
  encodePushCommit_def encodePushOperation_def endFrame_def

lemma sample_request_encodes: "\<exists>b. encodeMessage sample_request = Inr b"
  by (simp add: sample_request_eval) (simp add: writer_eval)

lemma sample_request_ok: "message_ok sample_request" "canon_message sample_request = sample_request"
  by (simp_all add: sample_request_def request_ok_def operation_ok_def str_ok_def js_def is_high_def is_low_def)

text \<open>C10. Decoding an encoded message yields its canonical form: the same frames with every map
  in ascending key order, rejection details normalized and no details left in push results.
  The hypothesis \<open>message_ok\<close> collects what the encoder leaves unchecked (strings without lone
  surrogates or a leading byte order mark, distinct map keys, JSON members that parse, inline
  segments that decode).\<close>

theorem message_roundtrip:
  assumes "encodeMessage m = Inr b" and "message_ok m"
  shows "decodeMessage b = Inr (canon_message m)"
  using assms by (rule decodeMessage_encodeMessage)

theorem message_roundtrip_witness:
  "\<exists>b. encodeMessage sample_request = Inr b \<and> decodeMessage b = Inr sample_request"
  using sample_request_encodes message_roundtrip [of sample_request] sample_request_ok by auto

text \<open>C17. Whatever the chunks an encoded message (with any bytes behind it) is delivered in, the
  stream scanner reports exactly that message.\<close>

theorem scanner_finds_message:
  assumes "encodeMessage m = Inr b" and "concat chunks = b @ extra"
  shows "message_of (snd (sc_feed sc_new chunks)) = Inr (Some b)"
  using feed_message [of chunks] scan_encoded [OF assms(1), of extra] assms(2) by (simp add: message_of_def)

theorem scanner_finds_message_witness:
  "\<exists>b. encodeMessage sample_request = Inr b
     \<and> message_of (snd (sc_feed sc_new [take 3 b, drop 3 b @ [1, 2]])) = Inr (Some b)"
proof -
  obtain b where b: "encodeMessage sample_request = Inr b" using sample_request_encodes by blast
  have "concat [take 3 b, drop 3 b @ [1, 2]] = b @ [1, 2]" by simp
  from scanner_finds_message [OF b this] b show ?thesis by blast
qed

text \<open>For arbitrary input, valid or not, the outcome of feeding chunks (message, need for more,
  or error) is the specified function of the concatenated bytes; how the stream is cut makes no
  difference.\<close>

theorem scanner_chunk_independent:
  "message_of (snd (sc_feed sc_new chunks)) = message_of (scan_stream (concat chunks))"
  by (rule feed_message)

text \<open>The request validator accepts exactly: a request header, then push commits, then at most
  one pull header with its subscriptions, not empty; frames of unknown type may stand anywhere
  behind the header.\<close>

theorem request_grammar_decided:
  "validateRequestSequence frames = Inr () \<longleftrightarrow>
     (\<exists>h rest. frames = ReqHeader h # rest \<and> request_grammar (filter is_known rest))"
  by (rule validateRequest_grammar)

text \<open>C18. The response validator accepts exactly: a response header, at most one lease right behind
  it, push results each with at most one matching details companion, then subscription sections
  holding commits or segments but not both, and an error only as the last frame.\<close>

theorem response_grammar_decided:
  "validateResponseSequence frames = Inr () \<longleftrightarrow>
     (\<exists>h rest. frames = RespHeader h # rest \<and> response_grammar rest)"
  by (rule validateResponse_grammar)

section \<open>Rows and segments\<close>

definition sample_columns :: "RowColumn list" where
  "sample_columns =
     [\<lparr>rc_name = js ''id'', rc_type = TString, rc_nullable = False, rc_crdtType = None,
       rc_encrypted = None, rc_declaredType = None\<rparr>,
      \<lparr>rc_name = js ''done'', rc_type = TBoolean, rc_nullable = True, rc_crdtType = None,
       rc_encrypted = None, rc_declaredType = None\<rparr>]"

definition sample_row :: "RowValue list" where
  "sample_row = [VString (js ''a''), VNull]"

lemmas sample_row_eval = sample_columns_def sample_row_def writeRow_def writeValue_def bitmapLength_def

lemma sample_row_encodes: "\<exists>b. writeRow sample_columns sample_row = Inr b"
  by (simp add: sample_row_eval writer_eval)

lemma sample_row_ok: "row_ok sample_columns sample_row"
  by (simp add: sample_columns_def sample_row_def row_ok_def value_ok_def str_ok_def js_def is_high_def is_low_def)

text \<open>C19. A row whose values the decoder can represent decodes to exactly the values it was encoded
  from, null positions included.\<close>

theorem row_roundtrip:
  assumes "encodeRow columns vals = Inr b" and "row_ok columns vals"
  shows "decodeRow columns b = Inr vals"
  using assms by (rule decodeRow_encodeRow)

theorem row_roundtrip_witness:
  "\<exists>b. encodeRow sample_columns sample_row = Inr b \<and> decodeRow sample_columns b = Inr sample_row"
  using sample_row_encodes row_roundtrip [of sample_columns sample_row] sample_row_ok
  by (auto simp: encodeRow_def)

text \<open>Whatever bytes are decoded, an accepted row has one value per column, each of the column's
  type: \<open>NULL\<close> only where the column is nullable, integers within the safe range, JSON and blob
  references that parse.\<close>

theorem decoded_row_typed:
  assumes "decodeRow columns bs = Inr vals"
  shows "list_all2 value_typed columns vals"
  using assms by (rule decodeRow_typed)

theorem decoded_row_typed_witness:
  "\<exists>bs. decodeRow sample_columns bs = Inr sample_row \<and> list_all2 value_typed sample_columns sample_row"
proof -
  obtain b where "writeRow sample_columns sample_row = Inr b" using sample_row_encodes by blast
  then have "decodeRow sample_columns b = Inr sample_row"
    using decodeRow_encodeRow [of sample_columns sample_row b] sample_row_ok by (simp add: encodeRow_def)
  with decoded_row_typed [OF this] show ?thesis by blast
qed

definition sample_segment :: RowsSegment where
  "sample_segment = \<lparr>rs_table = js ''t'', rs_schemaVersion = 1, rs_columns = sample_columns,
     rs_blocks = [[\<lparr>sr_serverVersion = 3, sr_values = sample_row\<rparr>]]\<rparr>"

lemma sample_segment_encodes: "\<exists>b. encodeRowsSegment sample_segment = Inr b"
proof -
  obtain r where r: "writeRow sample_columns sample_row = Inr r" using sample_row_encodes by blast
  moreover have "length r \<le> 100" using r by (simp add: sample_row_eval writer_eval) auto
  ultimately show ?thesis
    by (simp add: encodeRowsSegment_def sample_segment_def writeBlock_def writeSegmentRow_def seqW_simps w_u32_def w_u16_def
        w_i32_def w_i64_def w_raw_def max_safe_def ROWS_SEGMENT_FORMAT_VERSION_def)
      (simp add: sample_columns_def writeColumn_def writer_eval)
qed

lemma sample_segment_ok:
  "segment_ok sample_segment" "map wire_column (rs_columns sample_segment) = rs_columns sample_segment"
  using sample_row_ok by (simp_all add: segment_ok_def sample_segment_def)
    (simp_all add: sample_columns_def wire_column_def str_ok_def js_def is_high_def is_low_def)

text \<open>C20. A rows segment decodes to the segment it was encoded from; of the column descriptors, name,
  type and nullability travel and the schema-only metadata does not.\<close>

theorem segment_roundtrip:
  assumes "encodeRowsSegment seg = Inr b" and "segment_ok seg"
  shows "decodeRowsSegment b = Inr (seg\<lparr>rs_columns := map wire_column (rs_columns seg)\<rparr>)"
  using assms by (rule decode_encode_segment)

theorem segment_roundtrip_witness:
  "\<exists>b. encodeRowsSegment sample_segment = Inr b \<and> decodeRowsSegment b = Inr sample_segment"
proof -
  obtain b where b: "encodeRowsSegment sample_segment = Inr b" using sample_segment_encodes by blast
  have "sample_segment\<lparr>rs_columns := rs_columns sample_segment\<rparr> = sample_segment" by simp
  with segment_roundtrip [OF b sample_segment_ok(1)] sample_segment_ok(2) b show ?thesis by auto
qed

text \<open>Every block of a decoded segment is non-empty and every row in it carries a server version
  of at least one.\<close>

theorem segment_versions:
  assumes "decodeRowsSegment bs = Inr seg"
  shows "list_all (\<lambda>block. block \<noteq> [] \<and> list_all (\<lambda>row. 1 \<le> sr_serverVersion row) block) (rs_blocks seg)"
  using assms by (auto simp: decodeRowsSegment_def bindE_eq_Inr split: prod.splits dest!: readBlocks_blocks)

theorem segment_versions_witness:
  "\<exists>bs. decodeRowsSegment bs = Inr sample_segment
     \<and> list_all (\<lambda>block. block \<noteq> [] \<and> list_all (\<lambda>row. 1 \<le> sr_serverVersion row) block) (rs_blocks sample_segment)"
proof -
  obtain b where b: "encodeRowsSegment sample_segment = Inr b" using sample_segment_encodes by blast
  have "decodeRowsSegment b = Inr sample_segment"
    using decode_encode_segment [OF b sample_segment_ok(1)] sample_segment_ok(2) by simp
  with segment_versions [OF this] show ?thesis by blast
qed

section \<open>Primitives\<close>

text \<open>Running any sequence of writes through the doubling buffer of \<open>ByteWriter\<close> and finishing
  yields exactly the concatenation of the bytes of the writes, or the first exception.\<close>

theorem byte_writer_refines:
  "bindE (bw_run bw_new ws) (\<lambda>w. Inr (bw_finish w)) = seqW ws"
  using bw_run_seqW [OF bw.inv_fresh, of ws] bw.contents_fresh by (cases "seqW ws") simp_all

text \<open>A scope map that decodes has strictly ascending, hence distinct, keys: the reader accepts
  one order of entries only.\<close>

theorem scope_map_canonical:
  assumes "readStringListMap bs = Inr (m, rest)"
  shows "sorted_wrt (<) (map fst m) \<and> canon_map m = m"
proof -
  have "sorted_wrt (<) (map fst m)"
    using assms by (auto simp: readStringListMap_def reader_inv dest!: readEntries_sorted)
  then show ?thesis by (simp add: canon_map_id)
qed

theorem scope_map_canonical_witness:
  "readStringListMap [0, 0, 0, 0] = Inr ([], []) \<and> canon_map ([] :: scope_map) = []"
proof -
  have "readStringListMap [0, 0, 0, 0] = Inr ([], [])"
    by (simp add: readStringListMap_def r_u32_def r_take_def bindR_def returnR_def)
  with scope_map_canonical [OF this] show ?thesis by simp
qed

text \<open>C37. The encoding is not canonical for strings that start with U+FEFF: \<open>TextDecoder\<close> strips a
  leading byte order mark, so such a string comes back without its first character.\<close>

theorem leading_bom_lost:
  assumes "well_formed (0xFEFF # s)" and "take 1 s \<noteq> [0xFEFF]" and "w_str (0xFEFF # s) = Inr b"
  shows "r_str (b @ rest) = Inr (s, rest)"
  using assms(3) wbytes.read_write [of "text_encode (0xFEFF # s)" b rest] text_decode_bom [OF assms(1,2)]
  by (simp add: r_str_def bindR_def w_str_bytes returnR_def)

theorem leading_bom_lost_witness:
  "\<exists>b. w_str [0xFEFF, 0x61] = Inr b \<and> r_str b = Inr ([0x61], [])"
proof -
  obtain b where b: "w_str [0xFEFF, 0x61] = Inr b" by (simp add: writer_eval)
  have "well_formed [0xFEFF, 0x61]" by (simp add: is_high_def is_low_def)
  from leading_bom_lost [OF this _ b, of "[]"] b show ?thesis by simp
qed

section \<open>JSON documents\<close>

text \<open>A valid blob reference survives serialization: the parser returns the reference the
  serializer was given.\<close>

theorem blob_ref_roundtrip:
  assumes "blob_ref_valid ref" and "br_byteLength ref \<noteq> negative_zero"
  shows "parseBlobRef (serializeBlobRef ref) = Inr ref"
  using assms by (rule parse_serialize)

definition sample_blob :: BlobRef where
  "sample_blob = \<lparr>br_blobId = js ''sha256:'' @ replicate 64 0x61, br_byteLength = number_of_int 12,
     br_mediaType = Some (js ''image/png''), br_name = None\<rparr>"

lemma sample_blob_ok: "blob_ref_valid sample_blob" "br_byteLength sample_blob \<noteq> negative_zero"
proof -
  have l: "ilog2 12 = 3"
    by (simp add: ilog2.simps [of 12] ilog2.simps [of 6] ilog2.simps [of 3] ilog2.simps [of "Suc 0"])
  have "safe_int (number_of_int 12) = Some 12" by (rule safe_int_number_of_int) (simp_all add: max_safe_def)
  then show "blob_ref_valid sample_blob"
    by (simp add: blob_ref_valid_def sample_blob_def BLOB_ID_RE_def js_def is_lower_hex_def list_all_iff)
  show "br_byteLength sample_blob \<noteq> negative_zero"
    using l by (simp add: sample_blob_def number_of_int_def negative_zero_def)
qed

theorem blob_ref_roundtrip_witness:
  "parseBlobRef (serializeBlobRef sample_blob) = Inr sample_blob"
  using blob_ref_roundtrip sample_blob_ok by blast

text \<open>Normalized rejection details satisfy every documented limit, survive rendering and
  parsing, and are a fixed point of normalization, so a receiver that normalizes again gets the
  same value.\<close>

theorem rejection_details_normalized:
  assumes "normalizeRejectionDetails v = Inr d" and "json_wf v"
  shows "details_ok d \<and> json_parse (json_stringify (details_json d)) = Some (details_json d)
    \<and> normalizeRejectionDetails (details_json d) = Inr d"
  using normalize_ok [OF assms] by (simp add: details_text_ok normalize_self)

theorem rejection_details_normalized_witness:
  "\<exists>d. normalizeRejectionDetails (JObject [(js ''reason'', JString (js ''late''))]) = Inr d
     \<and> normalizeRejectionDetails (details_json d) = Inr d"
proof -
  let ?v = "JObject [(js ''reason'', JString (js ''late''))]"
  have "\<exists>d. normalizeRejectionDetails ?v = Inr d"
    by (simp add: normalizeRejectionDetails_def recordOf_def allowed_members_def js_eq_iff optionalMember_def
        stableToken_def limit_defs details_json_def quote_string_def)
      (simp add: js_def TOKEN_def in_units_def lower_alnum_def quote_one_def text_encode_eval)
  then obtain d where d: "normalizeRejectionDetails ?v = Inr d" by blast
  have "json_wf ?v" by simp
  from rejection_details_normalized [OF d this] d show ?thesis by blast
qed

end
