(* ===== verification/Schema.thy ===== *)
theory Schema
  imports Row_Codec
begin

text \<open>
  The server schema of \<open>server/src/schema.ts\<close> and the identifier rules of
  \<open>core/src/relational-identifier.ts\<close>: the declared tables, the compiled tables and
  \<open>compileSchema\<close> with every error it throws, one constructor of \<open>SchemaError\<close> per \<open>throw\<close>.
  The compiled-schema cache is a memo of a pure function and is left out. A JavaScript \<open>Map\<close> is
  an association list and a \<open>Set\<close> a duplicate-free list, both in insertion order.
\<close>

section \<open>Identifiers\<close>

definition PORTABLE_RELATIONAL_IDENTIFIER_MAX_BYTES :: nat where
  "PORTABLE_RELATIONAL_IDENTIFIER_MAX_BYTES = 63"

datatype PortableRelationalIdentifierFailure = IdEmpty | IdReservedPrefix | IdTooLong

text \<open>
  \<open>toLowerCase\<close> on the code units that matter to the reserved prefixes: no code unit outside
  \<open>A\<close> to \<open>Z\<close> has a letter of \<open>sync_\<close> as its lower case.
\<close>

definition lower_unit :: "code_unit \<Rightarrow> code_unit" where
  "lower_unit u = (if 65 \<le> unat u \<and> unat u \<le> 90 then u + 32 else u)"

fun starts_with :: "'a list \<Rightarrow> 'a list \<Rightarrow> bool" where
  "starts_with xs [] \<longleftrightarrow> True"
| "starts_with [] (p # ps) \<longleftrightarrow> False"
| "starts_with (x # xs) (p # ps) \<longleftrightarrow> x = p \<and> starts_with xs ps"

lemma starts_with_take: "starts_with xs ps \<longleftrightarrow> take (length ps) xs = ps"
  by (induction xs ps rule: starts_with.induct) auto

definition validatePortableRelationalIdentifier :: "jsstring \<Rightarrow> PortableRelationalIdentifierFailure + unit" where
  "validatePortableRelationalIdentifier identifier =
     (let byteLength = length (text_encode identifier); lower = map lower_unit identifier in
      if identifier = [] then Inl IdEmpty
      else if starts_with lower (js ''sync_'') \<or> starts_with lower (js ''_sync'') then Inl IdReservedPrefix
      else if byteLength > PORTABLE_RELATIONAL_IDENTIFIER_MAX_BYTES then Inl IdTooLong
      else Inr ())"

section \<open>Declared and compiled schemas\<close>

datatype ScopePatternSpec =
    PatternShorthand jsstring
  | PatternExplicit (sps_pattern: jsstring) (sps_column: jsstring)

record IndexSchema =
  ix_name :: jsstring
  ix_columns :: "jsstring list"
  ix_unique :: "bool option"

record TableSchema =
  ts_name :: jsstring
  ts_columns :: "RowColumn list"
  ts_primaryKey :: jsstring
  ts_scopes :: "ScopePatternSpec list"
  ts_indexes :: "IndexSchema list option"
  ts_materialize :: "bool option"

record ServerSchema =
  sv_version :: int
  sv_tables :: "TableSchema list"

record CompiledScopePattern =
  sp_variable :: jsstring
  sp_prefix :: jsstring
  sp_column :: jsstring
  sp_columnIndex :: nat

record CompiledTable =
  ct_name :: jsstring
  ct_columns :: "RowColumn list"
  ct_primaryKeyIndex :: nat
  ct_scopePatterns :: "CompiledScopePattern list"
  ct_indexes :: "IndexSchema list"
  ct_materialize :: bool
  ct_columnIndex :: "(jsstring \<times> nat) list"
  ct_declaredVariables :: "jsstring list"
  ct_blobRefColumnIndices :: "nat list"
  ct_crdtColumns :: "(nat \<times> jsstring) list"
  ct_encryptedColumnIndices :: "nat list"

record CompiledSchema =
  cs_version :: int
  cs_tables :: "(jsstring \<times> CompiledTable) list"
  cs_declaredVariables :: "jsstring list"

datatype SchemaError =
    DuplicateTable jsstring
  | InvalidIdentifier jsstring PortableRelationalIdentifierFailure
  | DuplicateColumn jsstring jsstring
  | DuplicateIndex jsstring jsstring
  | EmptyIndex jsstring jsstring
  | UnknownIndexColumn jsstring jsstring jsstring
  | UnknownPrimaryKey jsstring jsstring
  | NoScopePattern jsstring
  | BadScopePattern jsstring jsstring
  | UnknownScopeColumn jsstring jsstring
  | AmbiguousVariable jsstring jsstring
  | MissingCrdtType jsstring jsstring

section \<open>Scope patterns\<close>

abbreviation lbrace :: code_unit where "lbrace \<equiv> 123"
abbreviation rbrace :: code_unit where "rbrace \<equiv> 125"
abbreviation colon :: code_unit where "colon \<equiv> 58"

text \<open>
  The regular expression \<open>^([^{}]+):\{([^{}:]+)\}$\<close>. The first group cannot contain an opening
  brace, so the literal one of the pattern is the first of the string.
\<close>

definition PATTERN_RE :: "jsstring \<Rightarrow> (jsstring \<times> jsstring) option" where
  "PATTERN_RE s =
     (let before = takeWhile (\<lambda>u. u \<noteq> lbrace) s; after = drop 1 (dropWhile (\<lambda>u. u \<noteq> lbrace) s) in
      if lbrace \<in> set s \<and> before \<noteq> [] \<and> after \<noteq> [] \<and> List.last before = colon \<and> List.last after = rbrace
         \<and> butlast before \<noteq> [] \<and> butlast after \<noteq> [] \<and> rbrace \<notin> set (butlast before)
         \<and> {lbrace, rbrace, colon} \<inter> set (butlast after) = {}
      then Some (butlast before, butlast after) else None)"

definition compilePattern ::
    "TableSchema \<Rightarrow> ScopePatternSpec \<Rightarrow> (jsstring \<times> nat) list \<Rightarrow> SchemaError + CompiledScopePattern" where
  "compilePattern table spec columnIndex =
     (let pattern = (case spec of PatternShorthand s \<Rightarrow> s | PatternExplicit p c \<Rightarrow> p) in
      case PATTERN_RE pattern of
        None \<Rightarrow> Inl (BadScopePattern (ts_name table) pattern)
      | Some (prefix, variable) \<Rightarrow>
          (let column = (case spec of PatternShorthand s \<Rightarrow> variable | PatternExplicit p c \<Rightarrow> c) in
           case map_of columnIndex column of
             None \<Rightarrow> Inl (UnknownScopeColumn (ts_name table) column)
           | Some index \<Rightarrow> Inr \<lparr>sp_variable = variable, sp_prefix = prefix, sp_column = column,
                                sp_columnIndex = index\<rparr>))"

section \<open>Compilation\<close>

definition checkIdentifier :: "jsstring \<Rightarrow> SchemaError + unit" where
  "checkIdentifier name =
     (case validatePortableRelationalIdentifier name of
        Inl f \<Rightarrow> Inl (InvalidIdentifier name f) | Inr _ \<Rightarrow> Inr ())"

text \<open>The column loop; \<open>columnIndex\<close> is the map filled so far and \<open>i\<close> the index of the next column.\<close>

fun indexColumns ::
    "jsstring \<Rightarrow> RowColumn list \<Rightarrow> nat \<Rightarrow> (jsstring \<times> nat) list \<Rightarrow> SchemaError + (jsstring \<times> nat) list" where
  "indexColumns t [] i columnIndex = Inr columnIndex"
| "indexColumns t (column # cs) i columnIndex =
     (if map_of columnIndex (rc_name column) \<noteq> None then Inl (DuplicateColumn t (rc_name column))
      else bindE (checkIdentifier (rc_name column)) (\<lambda>_.
        indexColumns t cs (Suc i) (columnIndex @ [(rc_name column, i)])))"

text \<open>The index loop.\<close>

fun checkIndexes ::
    "jsstring \<Rightarrow> IndexSchema list \<Rightarrow> jsstring list \<Rightarrow> (jsstring \<times> nat) list \<Rightarrow> SchemaError + unit" where
  "checkIndexes t [] indexNames columnIndex = Inr ()"
| "checkIndexes t (index # is) indexNames columnIndex =
     bindE (checkIdentifier (ix_name index)) (\<lambda>_.
       if ix_name index \<in> set indexNames then Inl (DuplicateIndex t (ix_name index))
       else if ix_columns index = [] then Inl (EmptyIndex t (ix_name index))
       else (case find (\<lambda>c. map_of columnIndex c = None) (ix_columns index) of
               Some c \<Rightarrow> Inl (UnknownIndexColumn t (ix_name index) c)
             | None \<Rightarrow> checkIndexes t is (indexNames @ [ix_name index]) columnIndex))"

definition add_to_set :: "'a \<Rightarrow> 'a list \<Rightarrow> 'a list" where
  "add_to_set x xs = (if x \<in> set xs then xs else xs @ [x])"

text \<open>The variable loop over the compiled patterns, with the set of the schema's variables.\<close>

fun collectVariables ::
    "jsstring \<Rightarrow> CompiledScopePattern list \<Rightarrow> CompiledScopePattern list \<Rightarrow> jsstring list \<Rightarrow> jsstring list
     \<Rightarrow> SchemaError + (jsstring list \<times> jsstring list)" where
  "collectVariables t scopePatterns [] variables declared = Inr (variables, declared)"
| "collectVariables t scopePatterns (pattern # ps) variables declared =
     (case find (\<lambda>p. sp_variable p = sp_variable pattern \<and> sp_column p \<noteq> sp_column pattern) scopePatterns of
        Some existing \<Rightarrow> Inl (AmbiguousVariable t (sp_variable pattern))
      | None \<Rightarrow> collectVariables t scopePatterns ps (add_to_set (sp_variable pattern) variables)
                  (add_to_set (sp_variable pattern) declared))"

text \<open>The second column loop: blob reference, CRDT and encrypted columns.\<close>

fun classifyColumns ::
    "jsstring \<Rightarrow> RowColumn list \<Rightarrow> nat \<Rightarrow> nat list \<times> (nat \<times> jsstring) list \<times> nat list
     \<Rightarrow> SchemaError + (nat list \<times> (nat \<times> jsstring) list \<times> nat list)" where
  "classifyColumns t [] i acc = Inr acc"
| "classifyColumns t (column # cs) i (blobs, crdts, encs) =
     (let blobs' = (if rc_type column = TBlobRef then blobs @ [i] else blobs);
          encs' = (if rc_encrypted column = Some True then encs @ [i] else encs) in
      if rc_type column = TCrdt then
        (case rc_crdtType column of
           None \<Rightarrow> Inl (MissingCrdtType t (rc_name column))
         | Some ty \<Rightarrow>
             if ty = [] then Inl (MissingCrdtType t (rc_name column))
             else classifyColumns t cs (Suc i) (blobs', crdts @ [(i, ty)], encs'))
      else classifyColumns t cs (Suc i) (blobs', crdts, encs'))"

definition fullyEncrypted ::
    "RowColumn list \<Rightarrow> nat \<Rightarrow> CompiledScopePattern list \<Rightarrow> nat list \<Rightarrow> bool" where
  "fullyEncrypted columns primaryKeyIndex scopePatterns encrypted =
     (let projectable = map fst (filter (\<lambda>(c, i). i \<noteq> primaryKeyIndex \<and> i \<notin> set (map sp_columnIndex scopePatterns))
                                        (zip columns [0..<length columns])) in
      encrypted \<noteq> [] \<and> projectable \<noteq> [] \<and> list_all (\<lambda>c. rc_encrypted c = Some True) projectable)"

definition compileTable ::
    "TableSchema \<Rightarrow> jsstring list \<Rightarrow> SchemaError + (CompiledTable \<times> jsstring list)" where
  "compileTable table declared =
     bindE (checkIdentifier (ts_name table)) (\<lambda>_.
     bindE (indexColumns (ts_name table) (ts_columns table) 0 []) (\<lambda>columnIndex.
     (let indexes = (case ts_indexes table of None \<Rightarrow> [] | Some is \<Rightarrow> is) in
      bindE (checkIndexes (ts_name table) indexes [] columnIndex) (\<lambda>_.
      case map_of columnIndex (ts_primaryKey table) of
        None \<Rightarrow> Inl (UnknownPrimaryKey (ts_name table) (ts_primaryKey table))
      | Some primaryKeyIndex \<Rightarrow>
          if ts_scopes table = [] then Inl (NoScopePattern (ts_name table))
          else bindE (mapE (\<lambda>spec. compilePattern table spec columnIndex) (ts_scopes table)) (\<lambda>scopePatterns.
               bindE (collectVariables (ts_name table) scopePatterns scopePatterns [] declared) (\<lambda>(variables, declared').
               bindE (classifyColumns (ts_name table) (ts_columns table) 0 ([], [], [])) (\<lambda>(blobs, crdts, encs).
               Inr (\<lparr>ct_name = ts_name table, ct_columns = ts_columns table,
                     ct_primaryKeyIndex = primaryKeyIndex, ct_scopePatterns = scopePatterns,
                     ct_indexes = indexes,
                     ct_materialize = (case ts_materialize table of
                        Some m \<Rightarrow> m
                      | None \<Rightarrow> \<not> fullyEncrypted (ts_columns table) primaryKeyIndex scopePatterns encs),
                     ct_columnIndex = columnIndex, ct_declaredVariables = variables,
                     ct_blobRefColumnIndices = blobs, ct_crdtColumns = crdts,
                     ct_encryptedColumnIndices = encs\<rparr>, declared'))))))))"

fun compileTables ::
    "TableSchema list \<Rightarrow> (jsstring \<times> CompiledTable) list \<Rightarrow> jsstring list
     \<Rightarrow> SchemaError + ((jsstring \<times> CompiledTable) list \<times> jsstring list)" where
  "compileTables [] tables declared = Inr (tables, declared)"
| "compileTables (table # ts) tables declared =
     (if map_of tables (ts_name table) \<noteq> None then Inl (DuplicateTable (ts_name table))
      else bindE (compileTable table declared) (\<lambda>(compiled, declared').
        compileTables ts (tables @ [(ts_name table, compiled)]) declared'))"

definition compileSchema :: "ServerSchema \<Rightarrow> SchemaError + CompiledSchema" where
  "compileSchema schema =
     bindE (compileTables (sv_tables schema) [] []) (\<lambda>(tables, declared).
       Inr \<lparr>cs_version = sv_version schema, cs_tables = tables, cs_declaredVariables = declared\<rparr>)"

section \<open>What a compiled schema guarantees\<close>

definition table_wf :: "CompiledTable \<Rightarrow> bool" where
  "table_wf t \<longleftrightarrow>
     distinct (map rc_name (ct_columns t)) \<and>
     ct_columnIndex t = zip (map rc_name (ct_columns t)) [0..<length (ct_columns t)] \<and>
     ct_primaryKeyIndex t < length (ct_columns t) \<and>
     ct_scopePatterns t \<noteq> [] \<and>
     list_all (\<lambda>p. sp_columnIndex p < length (ct_columns t)
        \<and> rc_name (ct_columns t ! sp_columnIndex p) = sp_column p) (ct_scopePatterns t) \<and>
     list_all (\<lambda>p. list_all (\<lambda>q. sp_variable p = sp_variable q \<longrightarrow> sp_columnIndex p = sp_columnIndex q)
        (ct_scopePatterns t)) (ct_scopePatterns t) \<and>
     set (ct_declaredVariables t) = sp_variable ` set (ct_scopePatterns t) \<and>
     list_all (\<lambda>ix. ix_columns ix \<noteq> [] \<and> set (ix_columns ix) \<subseteq> rc_name ` set (ct_columns t)) (ct_indexes t) \<and>
     ct_blobRefColumnIndices t = filter (\<lambda>i. rc_type (ct_columns t ! i) = TBlobRef) [0..<length (ct_columns t)] \<and>
     ct_encryptedColumnIndices t = filter (\<lambda>i. rc_encrypted (ct_columns t ! i) = Some True) [0..<length (ct_columns t)] \<and>
     map fst (ct_crdtColumns t) = filter (\<lambda>i. rc_type (ct_columns t ! i) = TCrdt) [0..<length (ct_columns t)] \<and>
     list_all (\<lambda>(i, ty). ty \<noteq> [] \<and> rc_crdtType (ct_columns t ! i) = Some ty) (ct_crdtColumns t)"

definition schema_wf :: "CompiledSchema \<Rightarrow> bool" where
  "schema_wf s \<longleftrightarrow>
     distinct (map fst (cs_tables s)) \<and>
     list_all (\<lambda>(n, t). ct_name t = n \<and> table_wf t) (cs_tables s) \<and>
     set (cs_declaredVariables s) = (\<Union>x\<in>set (cs_tables s). set (ct_declaredVariables (snd x)))"

lemma case_option_eq_Inr: "(case m of None \<Rightarrow> Inl e | Some x \<Rightarrow> k x) = Inr y \<longleftrightarrow> (\<exists>x. m = Some x \<and> k x = Inr y)"
  by (cases m) auto

lemma guard_eq_Inr: "(if c then Inl e else r) = Inr y \<longleftrightarrow> \<not> c \<and> r = Inr y"
  by auto

lemma map_of_None_fst: "map_of m k = None \<longleftrightarrow> k \<notin> fst ` set m"
  by (simp add: map_of_eq_None_iff)

lemma indexColumns_spec:
  "indexColumns t cs i m = Inr m' \<Longrightarrow> distinct (map fst m) \<Longrightarrow>
     m' = m @ zip (map rc_name cs) [i..<i + length cs] \<and> distinct (map fst m')"
proof (induction cs arbitrary: i m)
  case (Cons c cs)
  let ?m = "m @ [(rc_name c, i)]"
  have step: "indexColumns t cs (Suc i) ?m = Inr m'" and fresh: "rc_name c \<notin> fst ` set m"
    using Cons.prems(1) by (auto simp: bindE_eq_Inr map_of_None_fst split: if_splits)
  have "distinct (map fst ?m)" using Cons.prems(2) fresh by simp
  from Cons.IH [OF step this]
  have new: "m' = ?m @ zip (map rc_name cs) [Suc i..<Suc i + length cs]" and dist: "distinct (map fst m')"
    by blast+
  have "m' = m @ zip (map rc_name (c # cs)) [i..<i + length (c # cs)]"
    unfolding new by (simp add: upt_conv_Cons del: upt_Suc)
  with dist show ?case by blast
qed simp

lemma checkIndexes_spec:
  "checkIndexes t is names m = Inr u \<Longrightarrow> ix \<in> set is \<Longrightarrow> ix_columns ix \<noteq> [] \<and> set (ix_columns ix) \<subseteq> fst ` set m"
proof (induction "is" arbitrary: names)
  case (Cons i "is")
  have i: "ix_columns i \<noteq> []" "set (ix_columns i) \<subseteq> fst ` set m"
    and rest: "checkIndexes t is (names @ [ix_name i]) m = Inr u"
    using Cons.prems(1)
    by (auto simp: bindE_eq_Inr guard_eq_Inr find_None_iff map_of_None_fst split: option.splits)
  show ?case using Cons.IH [OF rest] Cons.prems(2) i by (cases "ix = i") auto
qed simp

lemma collectVariables_spec:
  "collectVariables t ps qs vs ds = Inr (vs', ds') \<Longrightarrow>
     set vs' = set vs \<union> sp_variable ` set qs \<and> set ds' = set ds \<union> sp_variable ` set qs \<and>
     (\<forall>q\<in>set qs. \<forall>p\<in>set ps. sp_variable p = sp_variable q \<longrightarrow> sp_column p = sp_column q)"
  by (induction qs arbitrary: vs ds)
     (auto simp: find_None_iff add_to_set_def split: option.splits)

text \<open>The indices, counted from \<open>k\<close>, of the list elements with a property.\<close>

fun positions :: "('a \<Rightarrow> bool) \<Rightarrow> nat \<Rightarrow> 'a list \<Rightarrow> nat list" where
  "positions P k [] = []"
| "positions P k (x # xs) = (if P x then [k] else []) @ positions P (Suc k) xs"

lemma positions_filter: "positions P k xs = filter (\<lambda>i. P (xs ! (i - k))) [k..<k + length xs]"
proof (induction xs arbitrary: k)
  case (Cons x xs)
  have "filter (\<lambda>i. P ((x # xs) ! (i - k))) [Suc k..<Suc k + length xs]
      = filter (\<lambda>i. P (xs ! (i - Suc k))) [Suc k..<Suc k + length xs]"
    by (rule filter_cong) (auto simp: Suc_le_eq dest!: less_imp_Suc_add)
  moreover have "[k..<k + length (x # xs)] = k # [Suc k..<Suc k + length xs]" by (simp add: upt_rec)
  ultimately show ?case using Cons.IH [of "Suc k"] by simp
qed simp

lemma positions_0: "positions P 0 xs = filter (\<lambda>i. P (xs ! i)) [0..<length xs]"
  by (simp add: positions_filter)

definition crdt_at :: "RowColumn list \<Rightarrow> nat \<Rightarrow> nat \<times> jsstring \<Rightarrow> bool" where
  "crdt_at cs k = (\<lambda>(i, ty). k \<le> i \<and> ty \<noteq> [] \<and> rc_crdtType (cs ! (i - k)) = Some ty)"

lemma crdt_at_Cons: "list_all (crdt_at cs (Suc k)) new \<Longrightarrow> list_all (crdt_at (c # cs) k) new"
  by (fastforce simp: crdt_at_def list_all_iff Suc_le_eq dest!: less_imp_Suc_add)

lemma classifyColumns_spec:
  "classifyColumns t cs k (bs, rs, es) = Inr (bs', rs', es') \<Longrightarrow>
     bs' = bs @ positions (\<lambda>c. rc_type c = TBlobRef) k cs \<and>
     es' = es @ positions (\<lambda>c. rc_encrypted c = Some True) k cs \<and>
     (\<exists>new. rs' = rs @ new \<and> map fst new = positions (\<lambda>c. rc_type c = TCrdt) k cs \<and> list_all (crdt_at cs k) new)"
proof (induction cs arbitrary: k bs rs es)
  case (Cons c cs)
  show ?case
  proof (cases "rc_type c = TCrdt")
    case True
    then obtain ty where ty: "rc_crdtType c = Some ty" "ty \<noteq> []"
      and run: "classifyColumns t cs (Suc k)
        (bs, rs @ [(k, ty)], if rc_encrypted c = Some True then es @ [k] else es) = Inr (bs', rs', es')"
      using Cons.prems by (auto simp: Let_def split: option.splits if_splits)
    from Cons.IH [OF run] obtain new where new: "rs' = (rs @ [(k, ty)]) @ new"
      "map fst new = positions (\<lambda>c. rc_type c = TCrdt) (Suc k) cs" "list_all (crdt_at cs (Suc k)) new"
      by blast
    have "list_all (crdt_at (c # cs) k) ((k, ty) # new)"
      using crdt_at_Cons [OF new(3)] ty by (simp add: crdt_at_def)
    with Cons.IH [OF run] True new show ?thesis
      by (intro conjI exI [of _ "(k, ty) # new"]) simp_all
  next
    case False
    then have run: "classifyColumns t cs (Suc k)
        (if rc_type c = TBlobRef then bs @ [k] else bs, rs,
         if rc_encrypted c = Some True then es @ [k] else es) = Inr (bs', rs', es')"
      using Cons.prems by (simp add: Let_def)
    from Cons.IH [OF run] False crdt_at_Cons [of cs k _ c] show ?thesis by auto
  qed
qed simp

lemma compilePattern_column:
  "compilePattern table spec m = Inr p \<Longrightarrow> map_of m (sp_column p) = Some (sp_columnIndex p)"
  by (auto simp: compilePattern_def Let_def split: option.splits)

lemma mapE_set: "mapE f xs = Inr ys \<Longrightarrow> y \<in> set ys \<Longrightarrow> \<exists>x\<in>set xs. f x = Inr y"
  by (induction xs arbitrary: ys) (auto simp: bindE_eq_Inr)

lemma map_of_zip_upt:
  "map_of (zip names [0..<length names]) c = Some i \<Longrightarrow> i < length names \<and> names ! i = c"
  by (auto dest!: map_of_SomeD simp: set_zip)

lemma compileTable_wf:
  assumes "compileTable table ds = Inr (t, ds')"
  shows "ct_name t = ts_name table \<and> table_wf t \<and> set ds' = set ds \<union> set (ct_declaredVariables t)"
proof -
  let ?cs = "ts_columns table" and ?is = "case ts_indexes table of None \<Rightarrow> [] | Some is \<Rightarrow> is"
  obtain m pk ps vs bs rs es u where
    m: "indexColumns (ts_name table) ?cs 0 [] = Inr m" and
    ix: "checkIndexes (ts_name table) ?is [] m = Inr u" and
    pk: "map_of m (ts_primaryKey table) = Some pk" and ne: "ts_scopes table \<noteq> []" and
    ps: "mapE (\<lambda>spec. compilePattern table spec m) (ts_scopes table) = Inr ps" and
    vs: "collectVariables (ts_name table) ps ps [] ds = Inr (vs, ds')" and
    cl: "classifyColumns (ts_name table) ?cs 0 ([], [], []) = Inr (bs, rs, es)" and
    t: "ct_name t = ts_name table" "ct_columns t = ?cs" "ct_primaryKeyIndex t = pk" "ct_scopePatterns t = ps"
       "ct_indexes t = ?is" "ct_columnIndex t = m" "ct_declaredVariables t = vs"
       "ct_blobRefColumnIndices t = bs" "ct_crdtColumns t = rs" "ct_encryptedColumnIndices t = es"
    using assms
    by (auto simp: compileTable_def bindE_eq_Inr case_option_eq_Inr guard_eq_Inr Let_def)
  have mz: "m = zip (map rc_name ?cs) [0..<length (map rc_name ?cs)]" and dm: "distinct (map fst m)"
    using indexColumns_spec [OF m] by auto
  have dist: "distinct (map rc_name ?cs)" using dm unfolding mz by simp
  have look: "i < length ?cs \<and> rc_name (?cs ! i) = c" if "map_of m c = Some i" for c i
    using map_of_zip_upt [of "map rc_name ?cs" c i] that mz by auto
  have col: "map_of m (sp_column p) = Some (sp_columnIndex p)" if "p \<in> set ps" for p
    using mapE_set [OF ps that] compilePattern_column by blast
  have pats: "list_all (\<lambda>p. list_all (\<lambda>q. sp_variable p = sp_variable q \<longrightarrow> sp_columnIndex p = sp_columnIndex q) ps) ps"
    unfolding list_all_iff
  proof (intro ballI impI)
    fix p q assume that: "p \<in> set ps" "q \<in> set ps" "sp_variable p = sp_variable q"
    then show "sp_columnIndex p = sp_columnIndex q" using collectVariables_spec [OF vs] that col [OF that(1)] col [OF that(2)] by (metis option.inject)
  qed
  have "ps \<noteq> []" using mapE_length [OF ps] ne by auto
  moreover have "fst ` set m = rc_name ` set ?cs"
  proof -
    have "map fst m = map rc_name ?cs" unfolding mz by simp
    then show ?thesis by (metis set_map)
  qed
  moreover have "list_all (\<lambda>(i, ty). ty \<noteq> [] \<and> rc_crdtType (?cs ! i) = Some ty) rs"
      "bs = positions (\<lambda>c. rc_type c = TBlobRef) 0 ?cs" "es = positions (\<lambda>c. rc_encrypted c = Some True) 0 ?cs"
      "map fst rs = positions (\<lambda>c. rc_type c = TCrdt) 0 ?cs"
    using classifyColumns_spec [OF cl] by (auto simp: list_all_iff crdt_at_def)
  moreover have "set vs = sp_variable ` set ps" "set ds' = set ds \<union> sp_variable ` set ps"
    using collectVariables_spec [OF vs] by auto
  moreover have "list_all (\<lambda>ix. ix_columns ix \<noteq> [] \<and> set (ix_columns ix) \<subseteq> fst ` set m) ?is"
    using checkIndexes_spec [OF ix] unfolding list_all_iff by blast
  moreover have "list_all (\<lambda>p. sp_columnIndex p < length ?cs \<and> rc_name (?cs ! sp_columnIndex p) = sp_column p) ps"
    using look [OF col] unfolding list_all_iff by blast
  moreover have "m = zip (map rc_name ?cs) [0..<length ?cs]" using mz by simp
  ultimately show ?thesis
    using look [OF pk] dist pats unfolding table_wf_def t positions_0 by (intro conjI) simp_all
qed

lemma compileTables_wf:
  assumes "compileTables ts tables ds = Inr (tables', ds')"
    and "distinct (map fst tables)" and "list_all (\<lambda>(n, t). ct_name t = n \<and> table_wf t) tables"
    and "set ds = (\<Union>x\<in>set tables. set (ct_declaredVariables (snd x)))"
  shows "distinct (map fst tables') \<and> list_all (\<lambda>(n, t). ct_name t = n \<and> table_wf t) tables' \<and>
    set ds' = (\<Union>x\<in>set tables'. set (ct_declaredVariables (snd x)))"
  using assms
proof (induction ts arbitrary: tables ds)
  case (Cons table ts)
  obtain t ds1 where t: "compileTable table ds = Inr (t, ds1)"
    and rest: "compileTables ts (tables @ [(ts_name table, t)]) ds1 = Inr (tables', ds')"
    and fresh: "ts_name table \<notin> fst ` set tables"
    using Cons.prems(1) by (auto simp: bindE_eq_Inr map_of_None_fst split: if_splits)
  from compileTable_wf [OF t] Cons.prems(2-4) fresh show ?case
    by (intro Cons.IH [OF rest]) auto
qed simp

lemma compileSchema_wf: "compileSchema schema = Inr s \<Longrightarrow> schema_wf s"
  unfolding compileSchema_def schema_wf_def bindE_eq_Inr
  by (clarsimp, drule compileTables_wf) simp_all

lemma schema_wf_table: "schema_wf s \<Longrightarrow> map_of (cs_tables s) n = Some t \<Longrightarrow> ct_name t = n \<and> table_wf t"
  by (auto simp: schema_wf_def list_all_iff dest!: map_of_SomeD)

end
