(* ===== verification/Scopes.thy ===== *)
theory Scopes
  imports Schema Json
begin

text \<open>
  Scope semantics: \<open>server/src/scopes.ts\<close> (intersection of requested and allowed scopes, stored
  scopes of a row, write authorization, matching of a change) and the canonical JSON text of a
  scope map, \<open>core/src/canonical-json.ts\<close>. \<open>sha256\<close>, provided by the platform's
  \<open>crypto.subtle\<close>, is a parameter.
\<close>

type_synonym StoredScopes = string_map

datatype ResolvedScopes = ResolvedOk scope_map | ResolvedFailed
datatype EffectiveOutcome = EffActive scope_map | EffRevoked

definition star :: jsstring where "star = js ''*''"

text \<open>Array access: \<open>xs[i]\<close> is \<open>undefined\<close> outside the array.\<close>

definition at :: "'a list \<Rightarrow> nat \<Rightarrow> 'a option" where
  "at xs i = (if i < length xs then Some (xs ! i) else None)"

section \<open>Intersection\<close>

text \<open>The loop over the requested keys; \<open>effective\<close> is the object built so far.\<close>

fun effectiveLoop :: "scope_map \<Rightarrow> scope_map \<Rightarrow> jsstring list \<Rightarrow> scope_map \<Rightarrow> scope_map option" where
  "effectiveLoop requested allowed [] effective = Some effective"
| "effectiveLoop requested allowed (key # keys) effective =
     (let requestedValues = (case map_of requested key of None \<Rightarrow> [] | Some vs \<Rightarrow> vs) in
      case map_of allowed key of
        None \<Rightarrow> None
      | Some allowedValues \<Rightarrow>
          (let values = (if star \<in> set allowedValues then requestedValues
                         else filter (\<lambda>v. v \<in> set allowedValues) requestedValues) in
           if values = [] then None
           else effectiveLoop requested allowed keys (AList.update key values effective)))"

definition computeEffective :: "scope_map \<Rightarrow> ResolvedScopes \<Rightarrow> EffectiveOutcome" where
  "computeEffective requested resolved =
     (case resolved of
        ResolvedFailed \<Rightarrow> EffRevoked
      | ResolvedOk allowed \<Rightarrow>
          (case effectiveLoop requested allowed (map fst requested) [] of
             None \<Rightarrow> EffRevoked
           | Some effective \<Rightarrow> if effective = [] then EffRevoked else EffActive effective))"

section \<open>Stored scopes of a row\<close>

text \<open>\<open>String(value)\<close> for the values that are neither null nor bytes.\<close>

definition renderScopeValue :: "RowValue option \<Rightarrow> jsstring option" where
  "renderScopeValue value =
     (let some = (\<lambda>rendered. if rendered = [] then None else Some rendered) in
      case value of
        None \<Rightarrow> None
      | Some VNull \<Rightarrow> None
      | Some (VBytes b) \<Rightarrow> None
      | Some (VString s) \<Rightarrow> some s
      | Some (VNumber x) \<Rightarrow> some (number_to_string x)
      | Some (VBool b) \<Rightarrow> some (if b then js ''true'' else js ''false''))"

fun storedScopesLoop ::
    "CompiledScopePattern list \<Rightarrow> RowValue list \<Rightarrow> StoredScopes \<Rightarrow> jsstring + StoredScopes" where
  "storedScopesLoop [] values scopes = Inr scopes"
| "storedScopesLoop (pattern # ps) values scopes =
     (case renderScopeValue (at values (sp_columnIndex pattern)) of
        None \<Rightarrow> Inl (sp_variable pattern)
      | Some value \<Rightarrow> storedScopesLoop ps values (AList.update (sp_variable pattern) value scopes))"

text \<open>\<open>Inl variable\<close> is the result \<open>{ missing: variable }\<close>.\<close>

definition storedScopesForRow :: "CompiledTable \<Rightarrow> RowValue list \<Rightarrow> jsstring + StoredScopes" where
  "storedScopesForRow table values = storedScopesLoop (ct_scopePatterns table) values []"

section \<open>Authorization and matching\<close>

definition authorizeWrite :: "CompiledTable \<Rightarrow> StoredScopes \<Rightarrow> ResolvedScopes \<Rightarrow> bool" where
  "authorizeWrite table rowScopes resolved =
     (case resolved of
        ResolvedFailed \<Rightarrow> False
      | ResolvedOk allowed \<Rightarrow>
          list_all (\<lambda>pattern.
            (case map_of rowScopes (sp_variable pattern) of
               None \<Rightarrow> False
             | Some value \<Rightarrow>
                 if value = [] then False
                 else (case map_of allowed (sp_variable pattern) of
                         None \<Rightarrow> False
                       | Some allowedValues \<Rightarrow> star \<in> set allowedValues \<or> value \<in> set allowedValues)))
            (ct_scopePatterns table))"

definition matchesEffective :: "StoredScopes \<Rightarrow> scope_map \<Rightarrow> bool" where
  "matchesEffective storedScopes effective =
     list_all (\<lambda>(variable, values).
       (case map_of storedScopes variable of None \<Rightarrow> False | Some stored \<Rightarrow> stored \<in> set values)) effective"

section \<open>Digest\<close>

definition canonicalScopeJson :: "scope_map \<Rightarrow> jsstring" where
  "canonicalScopeJson scopes =
     (let keys = sort (map fst scopes);
          parts = map (\<lambda>key.
            (let values = sort (remdups (case map_of scopes key of None \<Rightarrow> [] | Some vs \<Rightarrow> vs));
                 lst = join_comma (map quote_string values) in
             quote_string key @ js '':['' @ lst @ js '']'')) keys in
      js ''{'' @ join_comma parts @ js ''}'')"

definition hex2 :: "byte \<Rightarrow> jsstring" where
  "hex2 b = map (\<lambda>n. if n < 10 then of_nat (48 + n) else of_nat (87 + n)) [unat b div 16, unat b mod 16]"

definition sha256Hex :: "(byte list \<Rightarrow> byte list) \<Rightarrow> byte list \<Rightarrow> jsstring" where
  "sha256Hex sha256 bytes = concat (map hex2 (sha256 bytes))"

definition scopeDigest :: "(byte list \<Rightarrow> byte list) \<Rightarrow> scope_map \<Rightarrow> jsstring" where
  "scopeDigest sha256 effective = sha256Hex sha256 (text_encode (canonicalScopeJson effective))"

section \<open>What the intersection grants\<close>

text \<open>
  A scope value is allowed when the allowed map lists it, or the wildcard, for its variable.
\<close>

definition scope_allowed :: "scope_map \<Rightarrow> jsstring \<Rightarrow> jsstring \<Rightarrow> bool" where
  "scope_allowed allowed variable v \<longleftrightarrow>
     (case map_of allowed variable of None \<Rightarrow> False | Some vs \<Rightarrow> star \<in> set vs \<or> v \<in> set vs)"

text \<open>The intersection as a set-level specification.\<close>

definition granted :: "scope_map \<Rightarrow> scope_map \<Rightarrow> jsstring \<Rightarrow> jsstring list" where
  "granted requested allowed key =
     filter (scope_allowed allowed key) (case map_of requested key of None \<Rightarrow> [] | Some vs \<Rightarrow> vs)"

lemma effectiveLoop_step:
  "effectiveLoop requested allowed (key # keys) effective =
     (if map_of allowed key = None \<or> granted requested allowed key = [] then None
      else effectiveLoop requested allowed keys (AList.update key (granted requested allowed key) effective))"
proof (cases "map_of allowed key")
  case (Some vs)
  have "(if star \<in> set vs then xs else filter (\<lambda>v. v \<in> set vs) xs) = filter (scope_allowed allowed key) xs" for xs
    by (auto simp: scope_allowed_def Some cong: filter_cong)
  then show ?thesis by (simp add: granted_def Some Let_def)
qed simp

lemma effectiveLoop_spec:
  "distinct keys \<Longrightarrow> set keys \<inter> fst ` set effective = {} \<Longrightarrow>
   effectiveLoop requested allowed keys effective =
     (if \<forall>key\<in>set keys. granted requested allowed key \<noteq> []
      then Some (effective @ map (\<lambda>key. (key, granted requested allowed key)) keys) else None)"
proof (induction keys arbitrary: effective)
  case (Cons key keys)
  have up: "AList.update key vs effective = effective @ [(key, vs)]" for vs :: "jsstring list"
    using Cons.prems(2) by (intro update_fresh) auto
  have none: "map_of allowed key = None \<Longrightarrow> granted requested allowed key = []"
    by (simp add: granted_def scope_allowed_def)
  have "effectiveLoop requested allowed keys (effective @ [(key, granted requested allowed key)]) =
      (if \<forall>key\<in>set keys. granted requested allowed key \<noteq> []
       then Some ((effective @ [(key, granted requested allowed key)]) @ map (\<lambda>key. (key, granted requested allowed key)) keys)
       else None)"
    using Cons.prems by (intro Cons.IH) auto
  then show ?case using none by (auto simp: effectiveLoop_step up simp del: effectiveLoop.simps)
qed simp

lemma computeEffective_spec:
  "distinct (map fst requested) \<Longrightarrow>
   computeEffective requested (ResolvedOk allowed) =
     (if requested \<noteq> [] \<and> (\<forall>key\<in>fst ` set requested. granted requested allowed key \<noteq> [])
      then EffActive (map (\<lambda>key. (key, granted requested allowed key)) (map fst requested)) else EffRevoked)"
  by (auto simp: computeEffective_def effectiveLoop_spec split: option.splits if_splits)

lemma granted_allowed: "v \<in> set (granted requested allowed key) \<Longrightarrow> scope_allowed allowed key v"
  by (simp add: granted_def)

lemma authorizeWrite_allowed:
  "authorizeWrite table scopes (ResolvedOk allowed) \<longleftrightarrow>
     (\<forall>p\<in>set (ct_scopePatterns table).
        \<exists>v. map_of scopes (sp_variable p) = Some v \<and> v \<noteq> [] \<and> scope_allowed allowed (sp_variable p) v)"
proof -
  have "(case map_of scopes k of None \<Rightarrow> False
         | Some v \<Rightarrow> if v = [] then False
                     else (case map_of allowed k of None \<Rightarrow> False | Some vs \<Rightarrow> star \<in> set vs \<or> v \<in> set vs)) \<longleftrightarrow>
        (\<exists>v. map_of scopes k = Some v \<and> v \<noteq> [] \<and> scope_allowed allowed k v)" for k
    by (cases "map_of scopes k") (auto simp: scope_allowed_def)
  then show ?thesis unfolding authorizeWrite_def list_all_iff ResolvedScopes.case by simp
qed

lemma matchesEffective_iff:
  "matchesEffective scopes effective \<longleftrightarrow>
     (\<forall>(variable, values)\<in>set effective. \<exists>v\<in>set values. map_of scopes variable = Some v)"
  by (fastforce simp: matchesEffective_def list_all_iff split: option.splits)

lemma matched_allowed:
  assumes "computeEffective requested (ResolvedOk allowed) = EffActive effective"
    and "distinct (map fst requested)" and "matchesEffective scopes effective" and "key \<in> fst ` set requested"
  shows "\<exists>v. map_of scopes key = Some v \<and> scope_allowed allowed key v"
proof -
  have "(key, granted requested allowed key) \<in> set effective"
    using assms(1,4) computeEffective_spec [OF assms(2), of allowed] by (force split: if_splits)
  then show ?thesis using assms(3) granted_allowed by (fastforce simp: matchesEffective_iff)
qed

section \<open>Stored scopes\<close>

lemma renderScopeValue_nonempty: "renderScopeValue v = Some s \<Longrightarrow> s \<noteq> []"
  by (auto simp: renderScopeValue_def Let_def split: option.splits RowValue.splits if_splits)

lemma storedScopesLoop_spec:
  "storedScopesLoop ps values scopes = Inr out \<Longrightarrow>
     (\<forall>p\<in>set ps. renderScopeValue (at values (sp_columnIndex p)) \<noteq> None) \<and>
     map_of out = fold (\<lambda>p m. m(sp_variable p := renderScopeValue (at values (sp_columnIndex p)))) ps (map_of scopes)"
  by (induction ps arbitrary: scopes) (auto simp: update_conv' split: option.splits)

lemma fold_update_last:
  "(\<forall>p\<in>set ps. key p = k \<longrightarrow> f p = v) \<Longrightarrow>
   fold (\<lambda>p m. m(key p := f p)) ps m k = (if \<exists>p\<in>set ps. key p = k then v else m k)"
  by (induction ps arbitrary: m) auto

lemma storedScopesForRow_lookup:
  assumes "storedScopesForRow table values = Inr scopes" and "table_wf table" and "p \<in> set (ct_scopePatterns table)"
  shows "map_of scopes (sp_variable p) = renderScopeValue (at values (sp_columnIndex p))"
    and "map_of scopes (sp_variable p) \<noteq> None"
proof -
  have "\<forall>q\<in>set (ct_scopePatterns table). sp_variable q = sp_variable p \<longrightarrow>
      renderScopeValue (at values (sp_columnIndex q)) = renderScopeValue (at values (sp_columnIndex p))"
    using assms(2,3) unfolding table_wf_def list_all_iff by metis
  from fold_update_last [OF this, of Map.empty] storedScopesLoop_spec [OF assms(1) [unfolded storedScopesForRow_def]]
  show "map_of scopes (sp_variable p) = renderScopeValue (at values (sp_columnIndex p))"
    using assms(3) by auto
  then show "map_of scopes (sp_variable p) \<noteq> None"
    using storedScopesLoop_spec [OF assms(1) [unfolded storedScopesForRow_def]] assms(3) by simp
qed

section \<open>The canonical text\<close>

definition scope_object :: "scope_map \<Rightarrow> json" where
  "scope_object scopes = JObject (map (\<lambda>key. (key, JArray (map JString
     (sort (remdups (case map_of scopes key of None \<Rightarrow> [] | Some vs \<Rightarrow> vs)))))) (sort (map fst scopes)))"

lemma canonicalScopeJson_object: "canonicalScopeJson scopes = json_stringify (scope_object scopes)"
  by (simp add: canonicalScopeJson_def scope_object_def Let_def js_def comp_def)

lemma scope_object_ok: "distinct (map fst scopes) \<Longrightarrow> json_ok (scope_object scopes)"
  by (auto simp: scope_object_def comp_def list_all_iff)

lemma canonical_parses: "distinct (map fst scopes) \<Longrightarrow> json_parse (canonicalScopeJson scopes) = Some (scope_object scopes)"
  by (simp add: canonicalScopeJson_object json_parse_stringify scope_object_ok)

lemma sort_remdups_eq_iff: "sort (remdups xs) = sort (remdups ys) \<longleftrightarrow> set xs = set (ys :: 'a::linorder list)"
  by (metis set_remdups set_sort sorted_list_of_set_sort_remdups)

definition same_scopes :: "scope_map \<Rightarrow> scope_map \<Rightarrow> bool" where
  "same_scopes a b \<longleftrightarrow> fst ` set a = fst ` set b \<and>
     (\<forall>key\<in>fst ` set a. set (the (map_of a key)) = set (the (map_of b key)))"

lemma scope_object_eq_iff:
  assumes "distinct (map fst a)" and "distinct (map fst b)"
  shows "scope_object a = scope_object b \<longleftrightarrow> same_scopes a b"
proof -
  have keys: "sort (map fst a) = sort (map fst b) \<longleftrightarrow> fst ` set a = fst ` set b"
    using assms sort_remdups_eq_iff [of "map fst a" "map fst b"] by (simp add: distinct_remdups_id)
  have val: "(case map_of m k of None \<Rightarrow> [] | Some vs \<Rightarrow> vs) = the (map_of m k)" if "k \<in> fst ` set m"
    for m :: scope_map and k using that by (auto simp: map_of_eq_None_iff split: option.splits)
  have inj: "map JString xs = map JString ys \<longleftrightarrow> xs = ys" for xs ys
    by (rule inj_map_eq_map) (auto simp: inj_def)
  show ?thesis
  proof (cases "fst ` set a = fst ` set b")
    case True
    have "scope_object a = scope_object b \<longleftrightarrow> (\<forall>k\<in>fst ` set b.
        sort (remdups (case map_of a k of None \<Rightarrow> [] | Some vs \<Rightarrow> vs)) =
        sort (remdups (case map_of b k of None \<Rightarrow> [] | Some vs \<Rightarrow> vs)))"
      using keys [THEN iffD2, OF True] unfolding scope_object_def by (simp add: inj)
    also have "\<dots> \<longleftrightarrow> (\<forall>k\<in>fst ` set a. set (the (map_of a k)) = set (the (map_of b k)))"
      using True val unfolding sort_remdups_eq_iff by metis
    finally show ?thesis using True by (simp add: same_scopes_def)
  next
    case False
    have "map fst (map (\<lambda>key. (key, f key)) ks) = ks" for f :: "jsstring \<Rightarrow> json" and ks by (simp add: comp_def)
    then have "sort (map fst a) = sort (map fst b)" if "scope_object a = scope_object b"
      using that [unfolded scope_object_def json.inject, THEN arg_cong, of "map fst"] by simp
    then show ?thesis using False keys by (auto simp: same_scopes_def)
  qed
qed

lemma canonicalScopeJson_eq_iff:
  assumes "distinct (map fst a)" and "distinct (map fst b)"
  shows "canonicalScopeJson a = canonicalScopeJson b \<longleftrightarrow> same_scopes a b"
  using canonical_parses [OF assms(1)] canonical_parses [OF assms(2)] scope_object_eq_iff [OF assms]
  by (metis canonicalScopeJson_object option.inject)

end
