(* ===== verification/Tables.thy ===== *)
theory Tables
  imports Prelude
begin

text \<open>
  Relational tables as lists of rows, with the SQL statements the storage classes use:
  \<open>INSERT \<dots> ON CONFLICT DO UPDATE\<close>, \<open>INSERT OR IGNORE\<close>, keyed \<open>SELECT\<close>, \<open>DELETE \<dots> WHERE\<close>. The
  function \<open>key\<close> gives the primary key of a row. The last section states the interface of a
  keyed row store, and that a log of puts and deletes replayed on the store is the same log
  replayed on a map.
\<close>

section \<open>Statements\<close>

definition find_by :: "('a \<Rightarrow> 'k) \<Rightarrow> 'k \<Rightarrow> 'a list \<Rightarrow> 'a option" where
  "find_by key k xs = find (\<lambda>x. key x = k) xs"

fun upsert_by :: "('a \<Rightarrow> 'k) \<Rightarrow> 'a \<Rightarrow> 'a list \<Rightarrow> 'a list" where
  "upsert_by key x [] = [x]"
| "upsert_by key x (y # ys) = (if key y = key x then x # ys else y # upsert_by key x ys)"

definition insert_or_ignore :: "('a \<Rightarrow> 'k) \<Rightarrow> 'a \<Rightarrow> 'a list \<Rightarrow> 'a list" where
  "insert_or_ignore key x xs = (if find_by key (key x) xs = None then xs @ [x] else xs)"

definition delete_where :: "('a \<Rightarrow> bool) \<Rightarrow> 'a list \<Rightarrow> 'a list" where
  "delete_where P xs = filter (\<lambda>x. \<not> P x) xs"

definition update_where :: "('a \<Rightarrow> bool) \<Rightarrow> ('a \<Rightarrow> 'a) \<Rightarrow> 'a list \<Rightarrow> 'a list" where
  "update_where P f xs = map (\<lambda>x. if P x then f x else x) xs"

lemma find_by_Nil [simp]: "find_by key k [] = None"
  by (simp add: find_by_def)

lemma find_by_Cons: "find_by key k (x # xs) = (if key x = k then Some x else find_by key k xs)"
  by (simp add: find_by_def)

lemma find_by_None_iff: "find_by key k xs = None \<longleftrightarrow> k \<notin> key ` set xs"
  by (auto simp: find_by_def find_None_iff)

lemma find_by_SomeD: "find_by key k xs = Some x \<Longrightarrow> x \<in> set xs \<and> key x = k"
  by (induction xs) (auto simp: find_by_Cons split: if_splits)

lemma find_by_Some_iff: "distinct (map key xs) \<Longrightarrow> find_by key k xs = Some x \<longleftrightarrow> x \<in> set xs \<and> key x = k"
  by (induction xs) (auto simp: find_by_Cons rev_image_eqI)

lemma find_by_append: "find_by key k (xs @ ys) = (case find_by key k xs of None \<Rightarrow> find_by key k ys | Some x \<Rightarrow> Some x)"
  by (induction xs) (auto simp: find_by_Cons)

lemma find_by_upsert: "find_by key k (upsert_by key x xs) = (if k = key x then Some x else find_by key k xs)"
  by (induction xs) (auto simp: find_by_Cons)

lemma set_upsert: "set (upsert_by key x xs) \<subseteq> insert x (set xs)"
  by (induction xs) auto

lemma keys_upsert: "key ` set (upsert_by key x xs) = insert (key x) (key ` set xs)"
  by (induction xs) auto

lemma distinct_upsert: "distinct (map key (upsert_by key x xs)) \<longleftrightarrow> distinct (map key xs)"
proof (induction xs)
  case (Cons y ys)
  have "key y \<in> key ` set (upsert_by key x ys) \<longleftrightarrow> key y = key x \<or> key y \<in> key ` set ys"
    by (simp add: keys_upsert)
  with Cons show ?case by auto
qed simp

lemma set_upsert_eq:
  "distinct (map key xs) \<Longrightarrow> set (upsert_by key x xs) = insert x {y \<in> set xs. key y \<noteq> key x}"
  by (induction xs) (auto simp: rev_image_eqI)

lemma find_by_insert_or_ignore:
  "find_by key k (insert_or_ignore key x xs) =
     (if k = key x then Some (case find_by key k xs of None \<Rightarrow> x | Some y \<Rightarrow> y) else find_by key k xs)"
  by (auto simp: insert_or_ignore_def find_by_append find_by_Cons split: option.splits)

lemma distinct_insert_or_ignore: "distinct (map key xs) \<Longrightarrow> distinct (map key (insert_or_ignore key x xs))"
  by (auto simp: insert_or_ignore_def find_by_None_iff)

lemma set_insert_or_ignore_id: "set (insert_or_ignore (\<lambda>x. x) x xs) = insert x (set xs)"
  by (auto simp: insert_or_ignore_def find_by_None_iff)

lemma find_by_delete_keys:
  "find_by key k (delete_where (\<lambda>x. Q (key x)) xs) = (if Q k then None else find_by key k xs)"
  by (induction xs) (auto simp: delete_where_def find_by_Cons)

lemma distinct_delete_where: "distinct (map key xs) \<Longrightarrow> distinct (map key (delete_where P xs))"
  by (simp add: delete_where_def distinct_map_filter)

lemma set_delete_where [simp]: "set (delete_where P xs) = {x \<in> set xs. \<not> P x}"
  by (auto simp: delete_where_def)

lemma set_fold_insert_or_ignore:
  "set (fold (insert_or_ignore (\<lambda>x. x)) ys xs) = set ys \<union> set xs"
  by (induction ys arbitrary: xs) (auto simp: set_insert_or_ignore_id)

lemma find_by_update_where:
  "(\<And>x. key (f x) = key x) \<Longrightarrow>
   find_by key k (update_where P f xs) = map_option (\<lambda>x. if P x then f x else x) (find_by key k xs)"
  by (induction xs) (auto simp: update_where_def find_by_Cons)

lemma find_by_update_key:
  "(\<And>x. key (f x) = key x) \<Longrightarrow>
   find_by key k (update_where (\<lambda>x. key x = p) f xs) =
     (if k = p then map_option f (find_by key k xs) else find_by key k xs)"
  by (induction xs) (auto simp: update_where_def find_by_Cons)

lemma keys_update_where: "(\<And>x. key (f x) = key x) \<Longrightarrow> map key (update_where P f xs) = map key xs"
  by (auto simp: update_where_def)

lemma length_filter_distinct_keys:
  "distinct (map key xs) \<Longrightarrow> length (filter (\<lambda>x. key x = k \<and> P x) xs) =
     (case find_by key k xs of None \<Rightarrow> 0 | Some x \<Rightarrow> if P x then 1 else 0)"
proof (induction xs)
  case (Cons x xs)
  have "k \<notin> key ` set xs \<Longrightarrow> filter (\<lambda>x. key x = k \<and> P x) xs = []" by (auto simp: filter_empty_conv)
  with Cons show ?case by (auto simp: find_by_Cons)
qed simp

section \<open>Row stores\<close>

datatype ('k, 'v) row_change = Put 'v | Del 'k

fun change_map :: "('v \<Rightarrow> 'k) \<Rightarrow> ('k, 'v) row_change \<Rightarrow> ('k \<Rightarrow> 'v option) \<Rightarrow> ('k \<Rightarrow> 'v option)" where
  "change_map key (Put v) m = m(key v := Some v)"
| "change_map key (Del k) m = m(k := None)"

text \<open>The interface: what a keyed store answers after a put and after a delete.\<close>

locale row_store =
  fixes key_of :: "'v \<Rightarrow> 'k"
    and get :: "'s \<Rightarrow> 'k \<Rightarrow> 'v option"
    and put :: "'v \<Rightarrow> 's \<Rightarrow> 's"
    and del :: "'k \<Rightarrow> 's \<Rightarrow> 's"
  assumes get_put: "get (put v s) k = (if k = key_of v then Some v else get s k)"
    and get_del: "get (del k' s) k = (if k = k' then None else get s k)"
begin

definition perform :: "('k, 'v) row_change \<Rightarrow> 's \<Rightarrow> 's" where
  "perform c s = (case c of Put v \<Rightarrow> put v s | Del k \<Rightarrow> del k s)"

lemma get_perform: "get (perform c s) = change_map key_of c (get s)"
  by (cases c) (auto simp: perform_def get_put get_del)

lemma get_replay: "get (fold perform cs s) = fold (change_map key_of) cs (get s)"
  by (induction cs arbitrary: s) (simp_all add: get_perform)

end

section \<open>Filtered replicas\<close>

text \<open>
  A replica holds the rows of a map that satisfy \<open>P\<close>. A change is visible to it when its row
  satisfies \<open>P\<close>; for a delete, the row it removes is named by \<open>tomb\<close>. A log is stable for \<open>P\<close>
  when no change moves a row across \<open>P\<close>.
\<close>

definition visible :: "('v \<Rightarrow> bool) \<Rightarrow> ('k \<Rightarrow> 'v option) \<Rightarrow> ('k \<Rightarrow> 'v option)" where
  "visible P m = (\<lambda>k. case m k of None \<Rightarrow> None | Some v \<Rightarrow> if P v then Some v else None)"

definition stable_change :: "('v \<Rightarrow> 'k) \<Rightarrow> ('v \<Rightarrow> bool) \<Rightarrow> ('k \<Rightarrow> 'v option) \<Rightarrow> ('k, 'v) row_change \<times> bool \<Rightarrow> bool" where
  "stable_change key P m = (\<lambda>(c, seen). case c of
      Put v \<Rightarrow> seen = P v \<and> (case m (key v) of None \<Rightarrow> True | Some w \<Rightarrow> P w = P v)
    | Del k \<Rightarrow> (case m k of None \<Rightarrow> True | Some w \<Rightarrow> seen = P w))"

fun stable_log :: "('v \<Rightarrow> 'k) \<Rightarrow> ('v \<Rightarrow> bool) \<Rightarrow> ('k \<Rightarrow> 'v option) \<Rightarrow> (('k, 'v) row_change \<times> bool) list \<Rightarrow> bool" where
  "stable_log key P m [] \<longleftrightarrow> True"
| "stable_log key P m (c # cs) \<longleftrightarrow> stable_change key P m c \<and> stable_log key P (change_map key (fst c) m) cs"

lemma visible_change:
  assumes "stable_change key P m (c, seen)"
  shows "visible P (change_map key c m) = (if seen then change_map key c (visible P m) else visible P m)"
proof (cases c)
  case (Put v)
  then show ?thesis using assms
    by (cases "m (key v)") (auto simp: fun_eq_iff visible_def stable_change_def)
next
  case (Del k)
  then show ?thesis using assms
    by (cases "m k") (auto simp: fun_eq_iff visible_def stable_change_def)
qed

lemma visible_replay:
  "stable_log key P m cs \<Longrightarrow>
   visible P (fold (change_map key) (map fst cs) m) =
     fold (change_map key) (map fst (filter snd cs)) (visible P m)"
proof (induction cs arbitrary: m)
  case (Cons c cs)
  obtain ch seen where c: "c = (ch, seen)" by (cases c)
  have st: "stable_change key P m (ch, seen)" using Cons.prems c by simp
  have "stable_log key P (change_map key ch m) cs" using Cons.prems c by simp
  from Cons.IH [OF this] show ?case unfolding c by (simp add: visible_change [OF st])
qed simp

lemma stable_log_append:
  "stable_log key P m (xs @ ys) \<longleftrightarrow>
     stable_log key P m xs \<and> stable_log key P (fold (change_map key) (map fst xs) m) ys"
  by (induction xs arbitrary: m) auto

section \<open>Replaying changes\<close>

text \<open>What a key holds after a replay is fixed by the log or is what it held before.\<close>

lemma replay_key:
  obtains (fixed) x where "\<And>m. fold (change_map key) cs m k = x" | (kept) "\<And>m. fold (change_map key) cs m k = m k"
proof (induction cs arbitrary: thesis rule: rev_induct)
  case Nil
  then show ?case by simp
next
  case (snoc c cs)
  show ?case
  proof (cases "k = (case c of Put v \<Rightarrow> key v | Del k' \<Rightarrow> k')")
    case True
    then show ?thesis using snoc.prems(1) [of "case c of Put v \<Rightarrow> Some v | Del _ \<Rightarrow> None"] by (cases c) simp_all
  next
    case False
    then have "fold (change_map key) (cs @ [c]) m k = fold (change_map key) cs m k" for m by (cases c) simp_all
    then show ?thesis using snoc.IH snoc.prems by metis
  qed
qed

lemma replay_pointwise: "v k = w k \<Longrightarrow> fold (change_map key) cs v k = fold (change_map key) cs w k"
  by (rule replay_key [of key cs k]) simp_all

lemma replay_idem: "fold (change_map key) cs (fold (change_map key) cs m) = fold (change_map key) cs m"
proof
  fix k show "fold (change_map key) cs (fold (change_map key) cs m) k = fold (change_map key) cs m k"
    by (rule replay_key [of key cs k]) simp_all
qed

end
