(* ===== verification/Storage.thy ===== *)
theory Storage
  imports Scopes Tables Frames
begin

text \<open>
  The SQLite storage of the server: \<open>server/src/sqlite-storage.ts\<close> over the schema of
  \<open>sqlite-dialect.ts\<close> and the statements of \<open>relational-rows.ts\<close>. The record \<open>db\<close> has one field
  per table; the app's row tables are one list keyed by partition, table and row id, without
  the queryable projection of the payload's columns. JSON columns hold the value they encode.
  \<open>ORDER BY\<close> and \<open>>\<close> on text compare the UTF-8 bytes, SQLite's binary collation.

  The engine's check of the relational constraints (unique indexes, not-null columns of the
  projection) is the parameter \<open>constraint_fails\<close>.
\<close>

section \<open>Records\<close>

record StoredRow =
  st_rowId :: jsstring
  st_serverVersion :: int
  st_scopes :: StoredScopes
  st_payload :: "byte list"

record NewChange =
  ch_table :: jsstring
  ch_rowId :: jsstring
  ch_op :: OpKind
  ch_rowVersion :: "int option"
  ch_scopes :: StoredScopes
  ch_payload :: "byte list option"

record NewCommit =
  nc_clientId :: jsstring
  nc_clientCommitId :: jsstring
  nc_actorId :: jsstring
  nc_createdAtMs :: int
  nc_changes :: "NewChange list"

record StoredCommit =
  cm_commitSeq :: int
  cm_createdAtMs :: int
  cm_actorId :: jsstring
  cm_changes :: "NewChange list"

record ClientSubscription =
  su_id :: jsstring
  su_table :: jsstring
  su_scopes :: scope_map

record ClientRecord =
  cl_clientId :: jsstring
  cl_actorId :: jsstring
  cl_wireVersion :: int
  cl_cursor :: int
  cl_updatedAtMs :: int
  cl_subscriptions :: "ClientSubscription list"

record PartitionRegistryEntry =
  pe_partition :: jsstring
  pe_logEpoch :: jsstring
  pe_epochRequired :: bool
  pe_lastAuthenticatedAtMs :: int

datatype ReactionStatus = RxPending | RxLeased | RxCompleted | RxDeadLetter

record ReactionFailure =
  rf_code :: jsstring
  rf_atMs :: int
  rf_details :: "json option"

record StoredReaction =
  rx_idempotencyKey :: jsstring
  rx_type :: jsstring
  rx_version :: int
  rx_payload :: json
  rx_sourceClientId :: jsstring
  rx_sourceClientCommitId :: jsstring
  rx_sourceCommitSeq :: int
  rx_createdAtMs :: int
  rx_maxAttempts :: int
  rx_status :: ReactionStatus
  rx_attempts :: int
  rx_availableAtMs :: int
  rx_leaseOwner :: "jsstring option"
  rx_leaseExpiresAtMs :: "int option"
  rx_completedAtMs :: "int option"
  rx_lastFailure :: "ReactionFailure option"

record PartitionRow =
  pt_partition :: jsstring
  pt_maxCommitSeq :: int
  pt_horizonSeq :: int

record CommitRow =
  co_partition :: jsstring
  co_commitSeq :: int
  co_clientId :: jsstring
  co_clientCommitId :: jsstring
  co_actorId :: jsstring
  co_createdAtMs :: int

record ChangeRow =
  cg_partition :: jsstring
  cg_commitSeq :: int
  cg_idx :: nat
  cg_change :: NewChange

type_synonym row_key = "jsstring \<times> jsstring \<times> jsstring"
type_synonym placed_row = "jsstring \<times> jsstring \<times> StoredRow"

record db =
  db_tables :: "(jsstring \<times> CompiledTable) list"
  db_partitions :: "PartitionRow list"
  db_registry :: "PartitionRegistryEntry list"
  db_rows :: "placed_row list"
  db_row_scopes :: "(jsstring \<times> jsstring \<times> jsstring \<times> jsstring \<times> jsstring) list"
  db_commits :: "CommitRow list"
  db_changes :: "ChangeRow list"
  db_change_scopes :: "(jsstring \<times> jsstring \<times> jsstring \<times> jsstring \<times> int) list"
  db_push_results :: "(jsstring \<times> jsstring \<times> jsstring \<times> jsstring) list"
  db_reactions :: "(jsstring \<times> StoredReaction) list"
  db_clients :: "(jsstring \<times> ClientRecord) list"
  db_blob_refs :: "(jsstring \<times> jsstring \<times> jsstring \<times> jsstring) list"

datatype StorageError =
    TransactionFinished
  | UnknownTable jsstring
  | StorageConstraintError "int option"
  | PrimaryKeyViolation
  | RowDecodeFailed error
  | MissingSavepoint
  | EmptyLogEpoch
  | ScanRequiresScope

type_synonym constraint_check = "db \<Rightarrow> jsstring \<Rightarrow> CompiledTable \<Rightarrow> StoredRow \<Rightarrow> bool"

section \<open>Rows\<close>

fun placed_key :: "placed_row \<Rightarrow> row_key" where
  "placed_key (p, t, row) = (p, t, st_rowId row)"

definition table_of :: "db \<Rightarrow> jsstring \<Rightarrow> StorageError + CompiledTable" where
  "table_of d name = (case map_of (db_tables d) name of None \<Rightarrow> Inl (UnknownTable name) | Some t \<Rightarrow> Inr t)"

definition stored_row :: "db \<Rightarrow> row_key \<Rightarrow> StoredRow option" where
  "stored_row d k = map_option (\<lambda>(p, t, row). row) (find_by placed_key k (db_rows d))"

definition getRow :: "db \<Rightarrow> jsstring \<Rightarrow> jsstring \<Rightarrow> jsstring \<Rightarrow> StorageError + StoredRow option" where
  "getRow d part table rowId =
     bindE (table_of d table) (\<lambda>_. Inr (stored_row d (part, table, rowId)))"

text \<open>The three statements of \<open>storage_writeRow\<close>, after its decoding of the payload.\<close>

definition put_row :: "placed_row \<Rightarrow> db \<Rightarrow> db" where
  "put_row = (\<lambda>(part, table, row) d.
     d\<lparr>db_rows := upsert_by placed_key (part, table, row) (db_rows d),
       db_row_scopes :=
         fold (\<lambda>(variable, v). insert_or_ignore (\<lambda>x. x) (part, table, variable, v, st_rowId row)) (st_scopes row)
           (delete_where (\<lambda>(p, t, _, _, r). p = part \<and> t = table \<and> r = st_rowId row) (db_row_scopes d))\<rparr>)"

definition storage_writeRow :: "constraint_check \<Rightarrow> jsstring \<Rightarrow> jsstring \<Rightarrow> StoredRow \<Rightarrow> db \<Rightarrow> StorageError + db" where
  "storage_writeRow constraint_fails part table row d =
     bindE (table_of d table) (\<lambda>compiled.
       case (if ct_materialize compiled then decodeRow (ct_columns compiled) (st_payload row) else Inr []) of
         Inl e \<Rightarrow> Inl (RowDecodeFailed e)
       | Inr _ \<Rightarrow>
           if constraint_fails d part compiled row then Inl (StorageConstraintError None)
           else Inr (put_row (part, table, row) d))"

definition remove_row :: "row_key \<Rightarrow> db \<Rightarrow> db" where
  "remove_row = (\<lambda>(part, table, rowId) d.
     d\<lparr>db_rows := delete_where (\<lambda>x. placed_key x = (part, table, rowId)) (db_rows d),
       db_row_scopes := delete_where (\<lambda>(p, t, _, _, r). p = part \<and> t = table \<and> r = rowId) (db_row_scopes d),
       db_blob_refs := delete_where (\<lambda>(p, t, r, _). p = part \<and> t = table \<and> r = rowId) (db_blob_refs d)\<rparr>)"

section \<open>Transactions\<close>

text \<open>
  A transaction works on \<open>tx_db\<close>; \<open>tx_begin\<close> is the database \<open>ROLLBACK\<close> returns to and
  \<open>tx_savepoint\<close> the one of the push savepoint, when it is set.
\<close>

record SqliteTransaction =
  tx_db :: db
  tx_partition :: jsstring
  tx_open :: bool
  tx_begin :: db
  tx_savepoint :: "db option"

definition begin_tx :: "db \<Rightarrow> jsstring \<Rightarrow> SqliteTransaction" where
  "begin_tx d part = \<lparr>tx_db = d, tx_partition = part, tx_open = True, tx_begin = d, tx_savepoint = None\<rparr>"

definition assertOpen :: "SqliteTransaction \<Rightarrow> StorageError + unit" where
  "assertOpen tx = (if tx_open tx then Inr () else Inl TransactionFinished)"

definition tx_getRow :: "SqliteTransaction \<Rightarrow> jsstring \<Rightarrow> jsstring \<Rightarrow> StorageError + StoredRow option" where
  "tx_getRow tx table rowId = bindE (assertOpen tx) (\<lambda>_. getRow (tx_db tx) (tx_partition tx) table rowId)"

definition lockPartitionForPush :: "SqliteTransaction \<Rightarrow> StorageError + SqliteTransaction" where
  "lockPartitionForPush tx = bindE (assertOpen tx) (\<lambda>_. Inr (tx\<lparr>tx_savepoint := Some (tx_db tx)\<rparr>))"

definition upsertRow ::
    "constraint_check \<Rightarrow> SqliteTransaction \<Rightarrow> jsstring \<Rightarrow> StoredRow \<Rightarrow> int \<Rightarrow> StorageError + SqliteTransaction" where
  "upsertRow constraint_fails tx table row opIx =
     bindE (assertOpen tx) (\<lambda>_.
       case storage_writeRow constraint_fails (tx_partition tx) table row (tx_db tx) of
         Inl (StorageConstraintError _) \<Rightarrow> Inl (StorageConstraintError (Some opIx))
       | Inl e \<Rightarrow> Inl e
       | Inr d \<Rightarrow> Inr (tx\<lparr>tx_db := d\<rparr>))"

definition deleteRow :: "SqliteTransaction \<Rightarrow> jsstring \<Rightarrow> jsstring \<Rightarrow> StorageError + SqliteTransaction" where
  "deleteRow tx table rowId =
     bindE (assertOpen tx) (\<lambda>_. bindE (table_of (tx_db tx) table) (\<lambda>_.
       Inr (tx\<lparr>tx_db := remove_row (tx_partition tx, table, rowId) (tx_db tx)\<rparr>)))"

definition setBlobRefs :: "SqliteTransaction \<Rightarrow> jsstring \<Rightarrow> jsstring \<Rightarrow> jsstring list \<Rightarrow> StorageError + SqliteTransaction" where
  "setBlobRefs tx table rowId blobIds =
     bindE (assertOpen tx) (\<lambda>_.
       (let p = tx_partition tx; d = tx_db tx;
            cleared = delete_where (\<lambda>(p', t, r, _). p' = p \<and> t = table \<and> r = rowId) (db_blob_refs d) in
        Inr (tx\<lparr>tx_db := d\<lparr>db_blob_refs :=
               fold (\<lambda>blobId. insert_or_ignore (\<lambda>x. x) (p, table, rowId, blobId)) blobIds cleared\<rparr>\<rparr>)))"

section \<open>The commit log\<close>

definition ensure_partition :: "jsstring \<Rightarrow> db \<Rightarrow> db" where
  "ensure_partition p d =
     d\<lparr>db_partitions := insert_or_ignore pt_partition
         \<lparr>pt_partition = p, pt_maxCommitSeq = 0, pt_horizonSeq = 0\<rparr> (db_partitions d)\<rparr>"

definition getMaxCommitSeq :: "db \<Rightarrow> jsstring \<Rightarrow> int" where
  "getMaxCommitSeq d part =
     (case find_by pt_partition part (db_partitions d) of None \<Rightarrow> 0 | Some row \<Rightarrow> pt_maxCommitSeq row)"

definition getHorizonSeq :: "db \<Rightarrow> jsstring \<Rightarrow> int" where
  "getHorizonSeq d part =
     (case find_by pt_partition part (db_partitions d) of None \<Rightarrow> 0 | Some row \<Rightarrow> pt_horizonSeq row)"

definition setHorizonSeq :: "jsstring \<Rightarrow> int \<Rightarrow> db \<Rightarrow> db" where
  "setHorizonSeq part seq d =
     (let d' = ensure_partition part d in
      d'\<lparr>db_partitions := update_where (\<lambda>r. pt_partition r = part) (\<lambda>r. r\<lparr>pt_horizonSeq := seq\<rparr>) (db_partitions d')\<rparr>)"

text \<open>The change rows and the change-scope index entries of a new commit.\<close>

definition change_rows :: "jsstring \<Rightarrow> int \<Rightarrow> NewChange list \<Rightarrow> ChangeRow list" where
  "change_rows p seq changes =
     map (\<lambda>(idx, change). \<lparr>cg_partition = p, cg_commitSeq = seq, cg_idx = idx, cg_change = change\<rparr>)
       (zip [0..<length changes] changes)"

definition change_scope_entries ::
    "jsstring \<Rightarrow> int \<Rightarrow> NewChange list \<Rightarrow> (jsstring \<times> jsstring \<times> jsstring \<times> jsstring \<times> int) list" where
  "change_scope_entries p seq changes =
     concat (map (\<lambda>change. map (\<lambda>(variable, v). (p, ch_table change, variable, v, seq)) (ch_scopes change)) changes)"

definition append_commit_db :: "jsstring \<Rightarrow> NewCommit \<Rightarrow> db \<Rightarrow> StorageError + (int \<times> db)" where
  "append_commit_db p commit d =
     (let d1 = ensure_partition p d;
          commitSeq = getMaxCommitSeq d1 p + 1;
          d2 = d1\<lparr>db_partitions := update_where (\<lambda>r. pt_partition r = p)
                  (\<lambda>r. r\<lparr>pt_maxCommitSeq := commitSeq\<rparr>) (db_partitions d1)\<rparr> in
      if find_by (\<lambda>c. (co_partition c, co_commitSeq c)) (p, commitSeq) (db_commits d2) \<noteq> None
      then Inl PrimaryKeyViolation
      else Inr (commitSeq,
        d2\<lparr>db_commits := db_commits d2 @
             [\<lparr>co_partition = p, co_commitSeq = commitSeq, co_clientId = nc_clientId commit,
               co_clientCommitId = nc_clientCommitId commit, co_actorId = nc_actorId commit,
               co_createdAtMs = nc_createdAtMs commit\<rparr>],
           db_changes := db_changes d2 @ change_rows p commitSeq (nc_changes commit),
           db_change_scopes := fold (insert_or_ignore (\<lambda>x. x))
             (change_scope_entries p commitSeq (nc_changes commit)) (db_change_scopes d2)\<rparr>))"

definition appendCommit :: "SqliteTransaction \<Rightarrow> NewCommit \<Rightarrow> StorageError + (int \<times> SqliteTransaction)" where
  "appendCommit tx commit =
     bindE (assertOpen tx) (\<lambda>_.
     bindE (append_commit_db (tx_partition tx) commit (tx_db tx)) (\<lambda>(seq, d).
       Inr (seq, tx\<lparr>tx_db := d\<rparr>)))"

definition pruneCommitsThrough :: "jsstring \<Rightarrow> int \<Rightarrow> db \<Rightarrow> int \<times> db" where
  "pruneCommitsThrough part seq d =
     (int (length (filter (\<lambda>c. co_partition c = part \<and> co_commitSeq c \<le> seq) (db_commits d))),
      d\<lparr>db_commits := delete_where (\<lambda>c. co_partition c = part \<and> co_commitSeq c \<le> seq) (db_commits d),
        db_changes := delete_where (\<lambda>c. cg_partition c = part \<and> cg_commitSeq c \<le> seq) (db_changes d),
        db_change_scopes := delete_where (\<lambda>(p, _, _, _, s). p = part \<and> s \<le> seq) (db_change_scopes d)\<rparr>)"

definition getCommitSeqBefore :: "db \<Rightarrow> jsstring \<Rightarrow> int \<Rightarrow> int" where
  "getCommitSeqBefore d part createdBeforeMs =
     (case map co_commitSeq (filter (\<lambda>c. co_partition c = part \<and> co_createdAtMs c < createdBeforeMs) (db_commits d)) of
        [] \<Rightarrow> 0 | s # ss \<Rightarrow> fold max ss s)"

definition commit_tx :: "SqliteTransaction \<Rightarrow> StorageError + SqliteTransaction" where
  "commit_tx tx = bindE (assertOpen tx) (\<lambda>_. Inr (tx\<lparr>tx_open := False\<rparr>))"

definition rollback_tx :: "SqliteTransaction \<Rightarrow> SqliteTransaction" where
  "rollback_tx tx = (if tx_open tx then tx\<lparr>tx_open := False, tx_db := tx_begin tx\<rparr> else tx)"

section \<open>Partitions, clients and blob references\<close>

definition touchPartition :: "jsstring \<Rightarrow> int \<Rightarrow> jsstring \<Rightarrow> db \<Rightarrow> StorageError + (PartitionRegistryEntry \<times> db)" where
  "touchPartition part authenticatedAtMs initialLogEpoch d =
     (if initialLogEpoch = [] then Inl EmptyLogEpoch
      else
        (let entry = (case find_by pe_partition part (db_registry d) of
               None \<Rightarrow> \<lparr>pe_partition = part, pe_logEpoch = initialLogEpoch, pe_epochRequired = False,
                        pe_lastAuthenticatedAtMs = authenticatedAtMs\<rparr>
             | Some row \<Rightarrow> row\<lparr>pe_lastAuthenticatedAtMs := authenticatedAtMs\<rparr>) in
         Inr (entry, d\<lparr>db_registry := upsert_by pe_partition entry (db_registry d)\<rparr>)))"

definition rotatePartitionLogEpoch :: "jsstring \<Rightarrow> jsstring \<Rightarrow> int \<Rightarrow> db \<Rightarrow> StorageError + (PartitionRegistryEntry \<times> db)" where
  "rotatePartitionLogEpoch part logEpoch authenticatedAtMs d =
     (if logEpoch = [] then Inl EmptyLogEpoch
      else
        (let entry = \<lparr>pe_partition = part, pe_logEpoch = logEpoch, pe_epochRequired = True,
                      pe_lastAuthenticatedAtMs = authenticatedAtMs\<rparr> in
         Inr (entry, d\<lparr>db_registry := upsert_by pe_partition entry (db_registry d),
                       db_clients := delete_where (\<lambda>(p, _). p = part) (db_clients d)\<rparr>)))"

definition listPartitionRegistry :: "db \<Rightarrow> PartitionRegistryEntry list" where
  "listPartitionRegistry d = sort_key (\<lambda>e. text_encode (pe_partition e)) (db_registry d)"

definition getClientRecord :: "db \<Rightarrow> jsstring \<Rightarrow> jsstring \<Rightarrow> ClientRecord option" where
  "getClientRecord d part clientId =
     map_option snd (find_by (\<lambda>(p, c). (p, cl_clientId c)) (part, clientId) (db_clients d))"

text \<open>\<open>INSERT OR REPLACE\<close> deletes the old row and inserts the new one.\<close>

definition putClientRecord :: "jsstring \<Rightarrow> ClientRecord \<Rightarrow> db \<Rightarrow> db" where
  "putClientRecord part client d =
     d\<lparr>db_clients := delete_where (\<lambda>(p, c). p = part \<and> cl_clientId c = cl_clientId client) (db_clients d)
         @ [(part, client)]\<rparr>"

definition listClientCursors :: "db \<Rightarrow> jsstring \<Rightarrow> (jsstring \<times> int \<times> int) list" where
  "listClientCursors d part =
     map (\<lambda>(p, c). (cl_clientId c, cl_cursor c, cl_updatedAtMs c)) (filter (\<lambda>(p, c). p = part) (db_clients d))"

definition listRowsReferencingBlob :: "db \<Rightarrow> jsstring \<Rightarrow> jsstring \<Rightarrow> (jsstring \<times> jsstring \<times> StoredScopes) list" where
  "listRowsReferencingBlob d part blobId =
     List.map_filter (\<lambda>(p, t, r, b).
       if p = part \<and> b = blobId \<and> map_of (db_tables d) t \<noteq> None
       then map_option (\<lambda>row. (t, r, st_scopes row)) (stored_row d (part, t, r)) else None) (db_blob_refs d)"

definition listReferencedBlobIds :: "db \<Rightarrow> jsstring \<Rightarrow> jsstring list" where
  "listReferencedBlobIds d part =
     remdups (map (\<lambda>(p, t, r, b). b) (filter (\<lambda>(p, t, r, b). p = part) (db_blob_refs d)))"

definition getRowScopes :: "db \<Rightarrow> jsstring \<Rightarrow> jsstring \<Rightarrow> jsstring \<Rightarrow> StorageError + (int \<times> StoredScopes) option" where
  "getRowScopes d part table rowId =
     bindE (table_of d table) (\<lambda>_.
       Inr (map_option (\<lambda>row. (st_serverVersion row, st_scopes row)) (stored_row d (part, table, rowId))))"

section \<open>The row tables as a store\<close>

definition placed_row_at :: "db \<Rightarrow> row_key \<Rightarrow> placed_row option" where
  "placed_row_at d k = find_by placed_key k (db_rows d)"

interpretation rows: row_store placed_key placed_row_at put_row remove_row
proof
  fix v d k
  show "placed_row_at (put_row v d) k = (if k = placed_key v then Some v else placed_row_at d k)"
    by (cases v) (simp add: placed_row_at_def put_row_def find_by_upsert)
next
  fix k' d k
  show "placed_row_at (remove_row k' d) k = (if k = k' then None else placed_row_at d k)"
    using find_by_delete_keys [of placed_key k "\<lambda>x. x = k'" "db_rows d"]
    by (cases k') (simp add: placed_row_at_def remove_row_def)
qed

lemma stored_row_placed: "stored_row d k = map_option (snd \<circ> snd) (placed_row_at d k)"
  by (simp add: stored_row_def placed_row_at_def case_prod_unfold comp_def)

lemma placed_row_at_key: "placed_row_at d k = Some v \<Longrightarrow> placed_key v = k"
  by (auto simp: placed_row_at_def dest: find_by_SomeD)

lemma placed_row_at_Some: "placed_row_at d (p, t, r) = Some v \<longleftrightarrow> (\<exists>row. stored_row d (p, t, r) = Some row \<and> v = (p, t, row))"
  using placed_row_at_key [of d "(p, t, r)"] by (cases v) (force simp: stored_row_placed)

lemma stored_row_id: "stored_row d (p, t, r) = Some row \<Longrightarrow> st_rowId row = r"
  using placed_row_at_key [of d "(p, t, r)"] by (auto simp: stored_row_placed)

section \<open>The inverted indexes\<close>

text \<open>
  Primary keys are unique; the row-scope index holds exactly the scopes of the stored rows, the
  change-scope index exactly those of the logged changes; every logged commit has a sequence
  number above the horizon and at most the maximum of its partition.
\<close>

definition row_index_of :: "placed_row \<Rightarrow> (jsstring \<times> jsstring \<times> jsstring \<times> jsstring \<times> jsstring) set" where
  "row_index_of = (\<lambda>(p, t, row). (\<lambda>(variable, v). (p, t, variable, v, st_rowId row)) ` set (st_scopes row))"

definition change_index_of :: "ChangeRow \<Rightarrow> (jsstring \<times> jsstring \<times> jsstring \<times> jsstring \<times> int) set" where
  "change_index_of c = (\<lambda>(variable, v). (cg_partition c, ch_table (cg_change c), variable, v, cg_commitSeq c))
     ` set (ch_scopes (cg_change c))"

definition commit_key :: "CommitRow \<Rightarrow> jsstring \<times> int" where
  "commit_key c = (co_partition c, co_commitSeq c)"

definition change_key :: "ChangeRow \<Rightarrow> (jsstring \<times> int) \<times> nat" where
  "change_key c = ((cg_partition c, cg_commitSeq c), cg_idx c)"

definition rows_ok :: "db \<Rightarrow> bool" where
  "rows_ok d \<longleftrightarrow> distinct (map placed_key (db_rows d)) \<and>
     set (db_row_scopes d) = (\<Union>v\<in>set (db_rows d). row_index_of v)"

definition log_ok :: "db \<Rightarrow> bool" where
  "log_ok d \<longleftrightarrow> distinct (map pt_partition (db_partitions d)) \<and>
     distinct (map commit_key (db_commits d)) \<and> distinct (map change_key (db_changes d)) \<and>
     (\<forall>c\<in>set (db_changes d). fst (change_key c) \<in> commit_key ` set (db_commits d)) \<and>
     (\<forall>c\<in>set (db_commits d). getHorizonSeq d (co_partition c) < co_commitSeq c
        \<and> co_commitSeq c \<le> getMaxCommitSeq d (co_partition c)) \<and>
     (\<forall>p. 0 \<le> getHorizonSeq d p \<and> getHorizonSeq d p \<le> getMaxCommitSeq d p) \<and>
     set (db_change_scopes d) = (\<Union>c\<in>set (db_changes d). change_index_of c)"

definition storage_ok :: "db \<Rightarrow> bool" where
  "storage_ok d \<longleftrightarrow> rows_ok d \<and> log_ok d"

definition empty_db :: "(jsstring \<times> CompiledTable) list \<Rightarrow> db" where
  "empty_db tables = \<lparr>db_tables = tables, db_partitions = [], db_registry = [], db_rows = [], db_row_scopes = [],
     db_commits = [], db_changes = [], db_change_scopes = [], db_push_results = [], db_reactions = [],
     db_clients = [], db_blob_refs = []\<rparr>"

lemma storage_ok_empty: "storage_ok (empty_db tables)"
  by (simp add: storage_ok_def rows_ok_def log_ok_def empty_db_def getMaxCommitSeq_def getHorizonSeq_def)

lemma fold_case_prod: "fold (\<lambda>(a, b). f (g a b)) xs s = fold f (map (\<lambda>(a, b). g a b) xs) s"
  by (induction xs arbitrary: s) auto

lemma put_row_ok:
  assumes "rows_ok d"
  shows "rows_ok (put_row v d)"
proof -
  obtain p t row where v: "v = (p, t, row)" by (cases v)
  have dist: "distinct (map placed_key (db_rows d))" using assms by (simp add: rows_ok_def)
  have keep: "{x \<in> \<Union>v\<in>set (db_rows d). row_index_of v. \<not> (case x of (p', t', _, _, r) \<Rightarrow> p' = p \<and> t' = t \<and> r = st_rowId row)}
      = (\<Union>w\<in>{w \<in> set (db_rows d). placed_key w \<noteq> placed_key v}. row_index_of w)"
    unfolding v by (fastforce simp: row_index_of_def)
  have "set (db_row_scopes (put_row v d)) = row_index_of v \<union>
      {x \<in> set (db_row_scopes d). \<not> (case x of (p', t', _, _, r) \<Rightarrow> p' = p \<and> t' = t \<and> r = st_rowId row)}"
    unfolding v
    by (simp add: put_row_def fold_case_prod [where f = "insert_or_ignore (\<lambda>x. x)"] set_fold_insert_or_ignore row_index_of_def)
  also have "\<dots> = (\<Union>w\<in>set (db_rows (put_row v d)). row_index_of w)"
    using assms keep unfolding rows_ok_def by (simp add: v put_row_def set_upsert_eq [OF dist])
  finally show ?thesis using dist by (simp add: rows_ok_def v put_row_def distinct_upsert)
qed

lemma remove_row_ok:
  assumes "rows_ok d"
  shows "rows_ok (remove_row k d)"
proof -
  obtain p t r where k: "k = (p, t, r)" by (cases k)
  have "{x \<in> \<Union>v\<in>set (db_rows d). row_index_of v. \<not> (case x of (p', t', _, _, r') \<Rightarrow> p' = p \<and> t' = t \<and> r' = r)}
      = (\<Union>w\<in>{w \<in> set (db_rows d). placed_key w \<noteq> (p, t, r)}. row_index_of w)"
    by (fastforce simp: row_index_of_def)
  then show ?thesis using assms
    by (simp add: rows_ok_def k remove_row_def distinct_delete_where)
qed

lemma row_ops_log:
  "log_ok (put_row v d) = log_ok d" "log_ok (remove_row k d) = log_ok d"
  by (cases v, simp add: put_row_def log_ok_def getMaxCommitSeq_def getHorizonSeq_def)
     (cases k, simp add: remove_row_def log_ok_def getMaxCommitSeq_def getHorizonSeq_def)

section \<open>Appending and pruning\<close>

lemma ensure_partition_lookup:
  "find_by pt_partition q (db_partitions (ensure_partition p d)) =
     (if q = p then Some (case find_by pt_partition p (db_partitions d) of
        None \<Rightarrow> \<lparr>pt_partition = p, pt_maxCommitSeq = 0, pt_horizonSeq = 0\<rparr> | Some r \<Rightarrow> r)
      else find_by pt_partition q (db_partitions d))"
  by (auto simp: ensure_partition_def find_by_insert_or_ignore split: option.splits)

lemma ensure_partition_seqs [simp]:
  "getMaxCommitSeq (ensure_partition p d) q = getMaxCommitSeq d q"
  "getHorizonSeq (ensure_partition p d) q = getHorizonSeq d q"
  by (auto simp: getMaxCommitSeq_def getHorizonSeq_def ensure_partition_lookup split: option.splits)

lemma setHorizonSeq_seqs [simp]:
  "getMaxCommitSeq (setHorizonSeq p s d) q = getMaxCommitSeq d q"
  "getHorizonSeq (setHorizonSeq p s d) q = (if q = p then s else getHorizonSeq d q)"
  by (auto simp: getMaxCommitSeq_def getHorizonSeq_def setHorizonSeq_def Let_def find_by_update_key
      ensure_partition_lookup split: option.splits)

definition commit_row :: "jsstring \<Rightarrow> int \<Rightarrow> NewCommit \<Rightarrow> CommitRow" where
  "commit_row p seq commit = \<lparr>co_partition = p, co_commitSeq = seq, co_clientId = nc_clientId commit,
     co_clientCommitId = nc_clientCommitId commit, co_actorId = nc_actorId commit, co_createdAtMs = nc_createdAtMs commit\<rparr>"

lemma change_scope_entries_set:
  "set (change_scope_entries p seq changes) = (\<Union>c\<in>set (change_rows p seq changes). change_index_of c)"
proof -
  have "set (change_rows p seq changes) =
      (\<lambda>(i, ch). \<lparr>cg_partition = p, cg_commitSeq = seq, cg_idx = i, cg_change = ch\<rparr>) ` set (zip [0..<length changes] changes)"
    by (simp add: change_rows_def)
  moreover have "snd ` set (zip [0..<length changes] changes) = set changes"
    by (metis length_map map_nth map_snd_zip set_map length_upt minus_nat.diff_0)
  then have "set changes = snd ` set (zip [0..<length changes] changes)" by simp
  ultimately show ?thesis
    by (simp add: change_scope_entries_def change_index_of_def case_prod_unfold)
qed

definition set_max_seq :: "jsstring \<Rightarrow> int \<Rightarrow> db \<Rightarrow> db" where
  "set_max_seq p seq d = (ensure_partition p d)\<lparr>db_partitions := update_where (\<lambda>r. pt_partition r = p)
     (\<lambda>r. r\<lparr>pt_maxCommitSeq := seq\<rparr>) (db_partitions (ensure_partition p d))\<rparr>"

lemma set_max_seq_seqs [simp]:
  "getMaxCommitSeq (set_max_seq p s d) q = (if q = p then s else getMaxCommitSeq d q)"
  "getHorizonSeq (set_max_seq p s d) q = getHorizonSeq d q"
  "map pt_partition (db_partitions (set_max_seq p s d)) = map pt_partition (db_partitions (ensure_partition p d))"
  by (auto simp: getMaxCommitSeq_def getHorizonSeq_def set_max_seq_def find_by_update_key keys_update_where
      ensure_partition_lookup split: option.splits)

lemma append_commit_db_eq:
  "append_commit_db p commit d =
     (let seq = getMaxCommitSeq d p + 1; d2 = set_max_seq p seq d in
      if (p, seq) \<in> commit_key ` set (db_commits d) then Inl PrimaryKeyViolation
      else Inr (seq, d2\<lparr>db_commits := db_commits d @ [commit_row p seq commit],
             db_changes := db_changes d @ change_rows p seq (nc_changes commit),
             db_change_scopes := fold (insert_or_ignore (\<lambda>x. x))
               (change_scope_entries p seq (nc_changes commit)) (db_change_scopes d)\<rparr>))"
  by (simp add: append_commit_db_def Let_def commit_row_def commit_key_def [abs_def] find_by_None_iff set_max_seq_def)
     (simp add: ensure_partition_def)

lemma append_commit_db_Inr:
  assumes "append_commit_db p commit d = Inr (seq, d')"
  shows "seq = getMaxCommitSeq d p + 1"
    and "getMaxCommitSeq d' q = (if q = p then seq else getMaxCommitSeq d q)"
    and "getHorizonSeq d' q = getHorizonSeq d q"
    and "db_commits d' = db_commits d @ [commit_row p seq commit]"
    and "db_changes d' = db_changes d @ change_rows p seq (nc_changes commit)"
    and "set (db_change_scopes d') = set (change_scope_entries p seq (nc_changes commit)) \<union> set (db_change_scopes d)"
    and "map pt_partition (db_partitions d') = map pt_partition (db_partitions (ensure_partition p d))"
    and "db_rows d' = db_rows d" and "db_row_scopes d' = db_row_scopes d" and "db_tables d' = db_tables d"
    and "db_push_results d' = db_push_results d" and "db_blob_refs d' = db_blob_refs d"
    and "db_reactions d' = db_reactions d" and "db_clients d' = db_clients d"
proof -
  have seq: "seq = getMaxCommitSeq d p + 1" and
    d': "d' = (set_max_seq p seq d)\<lparr>db_commits := db_commits d @ [commit_row p seq commit],
             db_changes := db_changes d @ change_rows p seq (nc_changes commit),
             db_change_scopes := fold (insert_or_ignore (\<lambda>x. x))
               (change_scope_entries p seq (nc_changes commit)) (db_change_scopes d)\<rparr>"
    using assms by (auto simp: append_commit_db_eq Let_def split: if_splits)
  show "seq = getMaxCommitSeq d p + 1" by (rule seq)
  show "getMaxCommitSeq d' q = (if q = p then seq else getMaxCommitSeq d q)"
    using set_max_seq_seqs(1) [of p seq d q] by (simp add: d' getMaxCommitSeq_def)
  show "getHorizonSeq d' q = getHorizonSeq d q"
    using set_max_seq_seqs(2) [of p seq d q] by (simp add: d' getHorizonSeq_def)
  show "map pt_partition (db_partitions d') = map pt_partition (db_partitions (ensure_partition p d))"
    using set_max_seq_seqs(3) [of p seq d] by (simp add: d')
qed (use assms in \<open>auto simp: append_commit_db_eq Let_def set_fold_insert_or_ignore set_max_seq_def ensure_partition_def
      split: if_splits\<close>)

lemma change_rows_keys:
  "map change_key (change_rows p seq changes) = map (Pair (p, seq)) [0..<length changes]"
  by (auto simp: change_rows_def change_key_def intro: nth_equalityI)

lemma append_commit_db_ok:
  assumes "log_ok d" and "append_commit_db p commit d = Inr (seq, d')"
  shows "log_ok d'"
proof -
  note new = append_commit_db_Inr [OF assms(2)]
  have old: "distinct (map pt_partition (db_partitions d))" "distinct (map commit_key (db_commits d))"
      "distinct (map change_key (db_changes d))"
      "\<And>c. c \<in> set (db_changes d) \<Longrightarrow> fst (change_key c) \<in> commit_key ` set (db_commits d)"
      "\<And>c. c \<in> set (db_commits d) \<Longrightarrow> getHorizonSeq d (co_partition c) < co_commitSeq c
        \<and> co_commitSeq c \<le> getMaxCommitSeq d (co_partition c)"
      "\<And>p. 0 \<le> getHorizonSeq d p \<and> getHorizonSeq d p \<le> getMaxCommitSeq d p"
      "set (db_change_scopes d) = (\<Union>c\<in>set (db_changes d). change_index_of c)"
    using assms(1) by (auto simp: log_ok_def)
  have fresh: "(p, seq) \<notin> commit_key ` set (db_commits d)"
    using old(5) new(1) by (fastforce simp: commit_key_def)
  have key: "commit_key (commit_row p seq commit) = (p, seq)" by (simp add: commit_key_def commit_row_def)
  have "distinct (map pt_partition (db_partitions d'))"
    unfolding new(7) ensure_partition_def using old(1) by (simp add: distinct_insert_or_ignore)
  moreover have "distinct (map commit_key (db_commits d'))" using old(2) fresh by (simp add: new(4) key)
  moreover have "distinct (map change_key (db_changes d'))"
    using old(3,4) fresh by (auto simp: new(5) change_rows_keys distinct_map inj_on_def)
      (metis fst_conv)
  moreover have "\<forall>c\<in>set (db_changes d'). fst (change_key c) \<in> commit_key ` set (db_commits d')"
  proof
    fix c assume "c \<in> set (db_changes d')"
    then consider "c \<in> set (db_changes d)" | "change_key c \<in> set (map change_key (change_rows p seq (nc_changes commit)))"
      by (auto simp: new(5))
    then show "fst (change_key c) \<in> commit_key ` set (db_commits d')"
    proof cases
      case 1
      then show ?thesis using old(4) by (simp add: new(4))
    next
      case 2
      then have "fst (change_key c) = (p, seq)" unfolding change_rows_keys by auto
      then show ?thesis by (simp add: new(4) key)
    qed
  qed
  moreover have "\<forall>c\<in>set (db_commits d'). getHorizonSeq d' (co_partition c) < co_commitSeq c
      \<and> co_commitSeq c \<le> getMaxCommitSeq d' (co_partition c)"
    using old(5) old(6) [of p] by (fastforce simp: new(1-4) commit_row_def)
  moreover have "\<forall>q. 0 \<le> getHorizonSeq d' q \<and> getHorizonSeq d' q \<le> getMaxCommitSeq d' q"
    using old(6) by (simp add: new(1-3)) (smt (verit) old(6))
  moreover have "set (db_change_scopes d') = (\<Union>c\<in>set (db_changes d'). change_index_of c)"
    by (auto simp: new(5,6) old(7) change_scope_entries_set)
  ultimately show ?thesis by (simp add: log_ok_def)
qed

lemma append_commit_db_succeeds:
  assumes "log_ok d"
  obtains d' where "append_commit_db p commit d = Inr (getMaxCommitSeq d p + 1, d')"
proof -
  have "(p, getMaxCommitSeq d p + 1) \<notin> commit_key ` set (db_commits d)"
    using assms by (fastforce simp: log_ok_def commit_key_def)
  then show ?thesis using that by (simp add: append_commit_db_eq Let_def)
qed

lemma append_commit_db_rows:
  "append_commit_db p commit d = Inr (seq, d') \<Longrightarrow> rows_ok d' = rows_ok d"
  by (simp add: rows_ok_def append_commit_db_Inr)

lemma prune_fields:
  "db_commits (snd (pruneCommitsThrough p s d)) = delete_where (\<lambda>c. co_partition c = p \<and> co_commitSeq c \<le> s) (db_commits d)"
  "db_changes (snd (pruneCommitsThrough p s d)) = delete_where (\<lambda>c. cg_partition c = p \<and> cg_commitSeq c \<le> s) (db_changes d)"
  "db_partitions (snd (pruneCommitsThrough p s d)) = db_partitions d"
  "db_rows (snd (pruneCommitsThrough p s d)) = db_rows d"
  "db_row_scopes (snd (pruneCommitsThrough p s d)) = db_row_scopes d"
  "getMaxCommitSeq (snd (pruneCommitsThrough p s d)) q = getMaxCommitSeq d q"
  "getHorizonSeq (snd (pruneCommitsThrough p s d)) q = getHorizonSeq d q"
  by (simp_all add: pruneCommitsThrough_def getMaxCommitSeq_def getHorizonSeq_def)

lemma advance_horizon_ok:
  assumes ok: "storage_ok d" and up: "getHorizonSeq d p \<le> s" "s \<le> getMaxCommitSeq d p"
  shows "storage_ok (snd (pruneCommitsThrough p s (setHorizonSeq p s d)))"
proof -
  let ?h = "setHorizonSeq p s d"
  let ?d = "snd (pruneCommitsThrough p s ?h)"
  have same: "db_commits ?h = db_commits d" "db_changes ?h = db_changes d" "db_change_scopes ?h = db_change_scopes d"
      "db_rows ?h = db_rows d" "db_row_scopes ?h = db_row_scopes d"
    by (simp_all add: setHorizonSeq_def Let_def ensure_partition_def)
  have old: "distinct (map pt_partition (db_partitions d))" "distinct (map commit_key (db_commits d))"
      "distinct (map change_key (db_changes d))"
      "\<And>c. c \<in> set (db_changes d) \<Longrightarrow> fst (change_key c) \<in> commit_key ` set (db_commits d)"
      "\<And>c. c \<in> set (db_commits d) \<Longrightarrow> getHorizonSeq d (co_partition c) < co_commitSeq c
        \<and> co_commitSeq c \<le> getMaxCommitSeq d (co_partition c)"
      "\<And>p. 0 \<le> getHorizonSeq d p \<and> getHorizonSeq d p \<le> getMaxCommitSeq d p"
      "set (db_change_scopes d) = (\<Union>c\<in>set (db_changes d). change_index_of c)"
    using ok by (auto simp: storage_ok_def log_ok_def)
  have parts: "map pt_partition (db_partitions ?h) = map pt_partition (db_partitions (ensure_partition p d))"
    by (simp add: setHorizonSeq_def Let_def keys_update_where)
  have "distinct (map pt_partition (db_partitions ?d))"
    using old(1) unfolding prune_fields parts ensure_partition_def by (simp add: distinct_insert_or_ignore)
  moreover have "distinct (map commit_key (db_commits ?d))" "distinct (map change_key (db_changes ?d))"
    using old(2,3) by (simp_all add: prune_fields same distinct_delete_where)
  moreover have "\<forall>c\<in>set (db_changes ?d). fst (change_key c) \<in> commit_key ` set (db_commits ?d)"
  proof
    fix c assume "c \<in> set (db_changes ?d)"
    then have c: "c \<in> set (db_changes d)" "\<not> (cg_partition c = p \<and> cg_commitSeq c \<le> s)"
      by (auto simp: prune_fields same)
    obtain m where m: "m \<in> set (db_commits d)" "commit_key m = fst (change_key c)" using old(4) [OF c(1)] by force
    then have "m \<in> set (db_commits ?d)" using c(2) by (auto simp: prune_fields same commit_key_def change_key_def)
    then show "fst (change_key c) \<in> commit_key ` set (db_commits ?d)" using m(2) by force
  qed
  moreover have "\<forall>c\<in>set (db_commits ?d). getHorizonSeq ?d (co_partition c) < co_commitSeq c
      \<and> co_commitSeq c \<le> getMaxCommitSeq ?d (co_partition c)"
    using old(5) by (auto simp: prune_fields same)
  moreover have "\<forall>q. 0 \<le> getHorizonSeq ?d q \<and> getHorizonSeq ?d q \<le> getMaxCommitSeq ?d q"
    using old(6) up by (auto simp: prune_fields intro: order_trans [OF conjunct1 [OF old(6)]])
  moreover have "set (db_change_scopes ?d) = (\<Union>c\<in>set (db_changes ?d). change_index_of c)"
  proof -
    have "set (db_change_scopes ?d) = {x \<in> \<Union>c\<in>set (db_changes d). change_index_of c.
        \<not> (case x of (p', _, _, _, s') \<Rightarrow> p' = p \<and> s' \<le> s)}"
      by (simp add: pruneCommitsThrough_def same old(7))
    also have "\<dots> = (\<Union>c\<in>{c \<in> set (db_changes d). \<not> (cg_partition c = p \<and> cg_commitSeq c \<le> s)}. change_index_of c)"
      by (fastforce simp: change_index_of_def)
    finally show ?thesis by (simp add: prune_fields same)
  qed
  ultimately have "log_ok ?d" by (simp add: log_ok_def)
  moreover have "rows_ok ?d" using ok by (simp add: storage_ok_def rows_ok_def prune_fields same)
  ultimately show ?thesis by (simp add: storage_ok_def)
qed

end
