(* ===== verification/Push_Result.thy ===== *)
theory Push_Result
  imports Storage
begin

text \<open>
  The persisted push outcome: \<open>StoredPushResult\<close>, its JSON text in \<open>sync_push_results\<close>
  (\<open>serializePushResult\<close>, \<open>deserializePushResult\<close> of \<open>sqlite-dialect.ts\<close>) and the statements that
  store and read it. \<open>btoa\<close> and \<open>atob\<close> are the platform's base64; the lenient inputs of \<open>atob\<close>
  (white space, missing padding) do not occur in the texts \<open>btoa\<close> writes and are refused here.
  A member with an unexpected type, which the source's casts let through, makes the text
  unreadable here.
\<close>

section \<open>Base64\<close>

definition b64_unit :: "nat \<Rightarrow> code_unit" where
  "b64_unit n = of_nat (if n < 26 then 65 + n else if n < 52 then 71 + n
     else if n < 62 then n - 4 else if n = 62 then 43 else 47)"

definition b64_value :: "code_unit \<Rightarrow> nat option" where
  "b64_value u = (let k = unat u in
     if 65 \<le> k \<and> k \<le> 90 then Some (k - 65) else if 97 \<le> k \<and> k \<le> 122 then Some (k - 71)
     else if 48 \<le> k \<and> k \<le> 57 then Some (k + 4) else if k = 43 then Some 62 else if k = 47 then Some 63 else None)"

abbreviation pad :: code_unit where "pad \<equiv> 61"

fun bytesToBase64 :: "byte list \<Rightarrow> jsstring" where
  "bytesToBase64 [] = []"
| "bytesToBase64 [a] = [b64_unit (unat a div 4), b64_unit (unat a mod 4 * 16), pad, pad]"
| "bytesToBase64 [a, b] =
     [b64_unit (unat a div 4), b64_unit (unat a mod 4 * 16 + unat b div 16), b64_unit (unat b mod 16 * 4), pad]"
| "bytesToBase64 (a # b # c # rest) =
     [b64_unit (unat a div 4), b64_unit (unat a mod 4 * 16 + unat b div 16),
      b64_unit (unat b mod 16 * 4 + unat c div 64), b64_unit (unat c mod 64)] @ bytesToBase64 rest"

definition b64_first :: "nat \<Rightarrow> nat \<Rightarrow> byte" where "b64_first i j = of_nat (i * 4 + j div 16)"
definition b64_second :: "nat \<Rightarrow> nat \<Rightarrow> byte" where "b64_second j k = of_nat (j mod 16 * 16 + k div 4)"
definition b64_third :: "nat \<Rightarrow> nat \<Rightarrow> byte" where "b64_third k l = of_nat (k mod 4 * 64 + l)"

fun base64ToBytes :: "jsstring \<Rightarrow> byte list option" where
  "base64ToBytes [] = Some []"
| "base64ToBytes (w # x # y # z # rest) =
     (case (b64_value w, b64_value x, b64_value y, b64_value z) of
        (Some i, Some j, Some k, Some l) \<Rightarrow>
          map_option (\<lambda>bs. b64_first i j # b64_second j k # b64_third k l # bs)
            (base64ToBytes rest)
      | (Some i, Some j, Some k, None) \<Rightarrow>
          if z = pad \<and> rest = [] then Some [b64_first i j, b64_second j k] else None
      | (Some i, Some j, None, None) \<Rightarrow>
          if y = pad \<and> z = pad \<and> rest = [] then Some [b64_first i j] else None
      | _ \<Rightarrow> None)"
| "base64ToBytes _ = None"

lemma b64_value_unit: "n < 64 \<Longrightarrow> b64_value (b64_unit n) = Some n"
proof -
  assume n: "n < 64"
  let ?k = "if n < 26 then 65 + n else if n < 52 then 71 + n else if n < 62 then n - 4 else if n = 62 then 43 else 47"
  have "?k < 0x10000" using n by auto
  then have "unat (b64_unit n) = ?k" unfolding b64_unit_def by (rule unat_of_nat_16)
  then show ?thesis using n by (simp add: b64_value_def Let_def split: if_splits) linarith
qed

lemma b64_value_pad: "b64_value pad = None"
  by (simp add: b64_value_def Let_def)

lemma byte_bound: "unat (b :: byte) < 256"
  using unsigned_less [of b] by simp

lemma of_nat_byte: "n = unat (b :: byte) \<Longrightarrow> of_nat n = b"
  by simp

lemma b64_groups:
  fixes a b c :: byte
  shows "b64_value (b64_unit (unat a div 4)) = Some (unat a div 4)"
    and "b64_value (b64_unit (unat a mod 4 * 16)) = Some (unat a mod 4 * 16)"
    and "b64_value (b64_unit (unat a mod 4 * 16 + unat b div 16)) = Some (unat a mod 4 * 16 + unat b div 16)"
    and "b64_value (b64_unit (unat b mod 16 * 4)) = Some (unat b mod 16 * 4)"
    and "b64_value (b64_unit (unat b mod 16 * 4 + unat c div 64)) = Some (unat b mod 16 * 4 + unat c div 64)"
    and "b64_value (b64_unit (unat c mod 64)) = Some (unat c mod 64)"
  using byte_bound [of a] byte_bound [of b] byte_bound [of c]
    mod_less_divisor [of 4 "unat a"] mod_less_divisor [of 16 "unat b"] mod_less_divisor [of 64 "unat c"]
  by (intro b64_value_unit; linarith)+

lemma b64_join:
  fixes a b c :: byte
  shows "b64_first (unat a div 4) (unat a mod 4 * 16) = a"
    and "b64_first (unat a div 4) (unat a mod 4 * 16 + unat b div 16) = a"
    and "b64_second (unat a mod 4 * 16 + unat b div 16) (unat b mod 16 * 4) = b"
    and "b64_second (unat a mod 4 * 16 + unat b div 16) (unat b mod 16 * 4 + unat c div 64) = b"
    and "b64_third (unat b mod 16 * 4 + unat c div 64) (unat c mod 64) = c"
proof -
  have small: "unat b div 16 < 16" "unat c div 64 < 4" using byte_bound [of b] byte_bound [of c] by auto
  show "b64_first (unat a div 4) (unat a mod 4 * 16) = a" unfolding b64_first_def by (rule of_nat_byte) simp
  show "b64_first (unat a div 4) (unat a mod 4 * 16 + unat b div 16) = a"
    unfolding b64_first_def using small(1) by (intro of_nat_byte) simp
  show "b64_second (unat a mod 4 * 16 + unat b div 16) (unat b mod 16 * 4) = b"
    unfolding b64_second_def using small(1) by (intro of_nat_byte) simp
  show "b64_second (unat a mod 4 * 16 + unat b div 16) (unat b mod 16 * 4 + unat c div 64) = b"
    unfolding b64_second_def using small by (intro of_nat_byte) simp
  show "b64_third (unat b mod 16 * 4 + unat c div 64) (unat c mod 64) = c"
    unfolding b64_third_def using small(2) by (intro of_nat_byte) simp
qed

lemma base64_roundtrip: "base64ToBytes (bytesToBase64 bs) = Some bs"
  by (induction bs rule: bytesToBase64.induct) (simp_all add: b64_groups b64_join b64_value_pad)

section \<open>The stored outcome\<close>

datatype StoredStatus = StApplied | StRejected

record StoredPushResult =
  spr_status :: StoredStatus
  spr_commitSeq :: "int option"
  spr_recordedAtMs :: "int option"
  spr_cacheIdentity :: "jsstring option"
  spr_results :: "PushOperationResult list"

definition num :: "int \<Rightarrow> json" where
  "num n = JNumber (number_of_int n)"

definition opt_member :: "string \<Rightarrow> json option \<Rightarrow> (jsstring \<times> json) list" where
  "opt_member k v = (case v of None \<Rightarrow> [] | Some x \<Rightarrow> [(js k, x)])"

fun result_json :: "PushOperationResult \<Rightarrow> json" where
  "result_json (OpConflict i code msg version row) = JObject
     [(js ''opIndex'', num i), (js ''status'', JString (js ''conflict'')), (js ''code'', JString code),
      (js ''message'', JString msg), (js ''serverVersion'', num version), (js ''serverRow'', JString (bytesToBase64 row))]"
| "result_json (OpError i code msg retryable details) = JObject
     ([(js ''opIndex'', num i), (js ''status'', JString (js ''error'')), (js ''code'', JString code),
       (js ''message'', JString msg), (js ''retryable'', JBool retryable)]
      @ opt_member ''details'' (map_option details_json details))"
| "result_json (OpApplied i) = JObject [(js ''opIndex'', num i), (js ''status'', JString (js ''applied''))]"

definition push_result_json :: "StoredPushResult \<Rightarrow> json" where
  "push_result_json result = JObject
     ([(js ''status'', JString (case spr_status result of StApplied \<Rightarrow> js ''applied'' | StRejected \<Rightarrow> js ''rejected''))]
      @ opt_member ''commitSeq'' (map_option num (spr_commitSeq result))
      @ opt_member ''recordedAtMs'' (map_option num (spr_recordedAtMs result))
      @ opt_member ''cacheIdentity'' (map_option JString (spr_cacheIdentity result))
      @ [(js ''results'', JArray (map result_json (spr_results result)))])"

definition serializePushResult :: "StoredPushResult \<Rightarrow> jsstring" where
  "serializePushResult result = json_stringify (push_result_json result)"

text \<open>Reading members; \<open>None\<close> is a thrown exception or an unexpected type.\<close>

definition as_int :: "json \<Rightarrow> int option" where
  "as_int v = (case v of JNumber x \<Rightarrow> safe_int x | _ \<Rightarrow> None)"

definition as_string :: "json \<Rightarrow> jsstring option" where
  "as_string v = (case v of JString s \<Rightarrow> Some s | _ \<Rightarrow> None)"

definition as_bool :: "json \<Rightarrow> bool option" where
  "as_bool v = (case v of JBool b \<Rightarrow> Some b | _ \<Rightarrow> None)"

definition as_strings :: "json \<Rightarrow> jsstring list option" where
  "as_strings v = (case v of JArray vs \<Rightarrow> those (map as_string vs) | _ \<Rightarrow> None)"

definition as_string_map :: "json \<Rightarrow> (jsstring \<times> jsstring) list option" where
  "as_string_map v = (case v of JObject ms \<Rightarrow> those (map (\<lambda>(k, x). map_option (Pair k) (as_string x)) ms) | _ \<Rightarrow> None)"

definition member_or :: "'a \<Rightarrow> (json \<Rightarrow> 'a option) \<Rightarrow> string \<Rightarrow> (jsstring \<times> json) list \<Rightarrow> 'a option" where
  "member_or dflt f k ms = (case map_of ms (js k) of None \<Rightarrow> Some dflt | Some v \<Rightarrow> f v)"

definition member_opt :: "(json \<Rightarrow> 'a option) \<Rightarrow> string \<Rightarrow> (jsstring \<times> json) list \<Rightarrow> 'a option option" where
  "member_opt f k ms = (case map_of ms (js k) of None \<Rightarrow> Some None | Some v \<Rightarrow> map_option Some (f v))"

definition as_details :: "json \<Rightarrow> RejectionDetails option" where
  "as_details v = (case v of JObject ms \<Rightarrow>
     (case (member_opt as_strings ''fieldPaths'' ms, member_opt as_string ''reason'' ms,
            member_opt as_string ''requiredAction'' ms, member_opt as_string_map ''references'' ms) of
        (Some a, Some b, Some c, Some e) \<Rightarrow>
          Some \<lparr>rd_fieldPaths = a, rd_reason = b, rd_requiredAction = c, rd_references = e\<rparr>
      | _ \<Rightarrow> None) | _ \<Rightarrow> None)"

definition parse_result :: "json \<Rightarrow> PushOperationResult option" where
  "parse_result v = (case v of JObject ms \<Rightarrow>
     (case Option.bind (map_of ms (js ''opIndex'')) as_int of
        None \<Rightarrow> None
      | Some i \<Rightarrow>
          if map_of ms (js ''status'') = Some (JString (js ''conflict'')) then
            (case (member_or [] as_string ''code'' ms, member_or [] as_string ''message'' ms,
                   member_or 0 as_int ''serverVersion'' ms,
                   Option.bind (member_or [] as_string ''serverRow'' ms) base64ToBytes) of
               (Some code, Some msg, Some version, Some row) \<Rightarrow> Some (OpConflict i code msg version row)
             | _ \<Rightarrow> None)
          else if map_of ms (js ''status'') = Some (JString (js ''error'')) then
            (case (member_or [] as_string ''code'' ms, member_or [] as_string ''message'' ms,
                   member_or False as_bool ''retryable'' ms, member_opt as_details ''details'' ms) of
               (Some code, Some msg, Some retryable, Some details) \<Rightarrow> Some (OpError i code msg retryable details)
             | _ \<Rightarrow> None)
          else Some (OpApplied i)) | _ \<Rightarrow> None)"

definition as_status :: "json \<Rightarrow> StoredStatus option" where
  "as_status v = (if v = JString (js ''applied'') then Some StApplied
     else if v = JString (js ''rejected'') then Some StRejected else None)"

definition deserializePushResult :: "jsstring \<Rightarrow> StoredPushResult option" where
  "deserializePushResult text = (case json_parse text of Some (JObject ms) \<Rightarrow>
     (case (Option.bind (map_of ms (js ''status'')) as_status, member_opt as_int ''commitSeq'' ms,
            member_opt as_int ''recordedAtMs'' ms, member_opt as_string ''cacheIdentity'' ms,
            Option.bind (map_of ms (js ''results'')) (\<lambda>v. case v of JArray vs \<Rightarrow> those (map parse_result vs) | _ \<Rightarrow> None)) of
        (Some status, Some commitSeq, Some recordedAtMs, Some cacheIdentity, Some results) \<Rightarrow>
          Some \<lparr>spr_status = status, spr_commitSeq = commitSeq, spr_recordedAtMs = recordedAtMs,
                spr_cacheIdentity = cacheIdentity, spr_results = results\<rparr>
      | _ \<Rightarrow> None) | _ \<Rightarrow> None)"

section \<open>Round trip\<close>

definition safe_nat :: "int \<Rightarrow> bool" where
  "safe_nat n \<longleftrightarrow> 0 \<le> n \<and> n \<le> max_safe"

definition refs_ok :: "RejectionDetails \<Rightarrow> bool" where
  "refs_ok d \<longleftrightarrow> (case rd_references d of None \<Rightarrow> True | Some r \<Rightarrow> distinct (map fst r))"

fun result_ok :: "PushOperationResult \<Rightarrow> bool" where
  "result_ok (OpApplied i) \<longleftrightarrow> safe_nat i"
| "result_ok (OpConflict i c m v r) \<longleftrightarrow> safe_nat i \<and> safe_nat v"
| "result_ok (OpError i c m r d) \<longleftrightarrow> safe_nat i \<and> (case d of None \<Rightarrow> True | Some x \<Rightarrow> refs_ok x)"

definition push_result_ok :: "StoredPushResult \<Rightarrow> bool" where
  "push_result_ok r \<longleftrightarrow> pred_option safe_nat (spr_commitSeq r) \<and> pred_option safe_nat (spr_recordedAtMs r)
     \<and> list_all result_ok (spr_results r)"

lemma safe_nat_number: "safe_nat n \<Longrightarrow> safe_int (number_of_int n) = Some n"
  by (simp add: safe_nat_def safe_int_number_of_int max_safe_def)

lemma safe_int_negative_zero: "safe_int negative_zero = Some 0"
  by (simp add: safe_int_def double_to_int_def negative_zero_def Let_def max_safe_def)

lemma number_of_int_not_negative_zero: "safe_nat n \<Longrightarrow> number_of_int n \<noteq> negative_zero"
proof
  assume n: "safe_nat n" and eq: "number_of_int n = negative_zero"
  then have "n = 0" using safe_nat_number [OF n] safe_int_negative_zero by simp
  then show False using eq by (simp add: number_of_int_def negative_zero_def)
qed

lemma num_ok: "safe_nat n \<Longrightarrow> json_ok (num n)"
  using number_of_int_not_negative_zero [of n] by (simp add: num_def safe_nat_number) (simp add: safe_nat_def)

lemma as_int_num: "safe_nat n \<Longrightarrow> as_int (num n) = Some n"
  by (simp add: as_int_def num_def safe_nat_number)

lemma those_map_id: "(\<And>x. x \<in> set xs \<Longrightarrow> f (g x) = Some x) \<Longrightarrow> those (map f (map g xs)) = Some xs"
  by (induction xs) auto

lemma as_strings_array: "as_strings (JArray (map JString xs)) = Some xs"
  by (induction xs) (auto simp: as_strings_def as_string_def comp_def)

lemma as_string_map_object: "as_string_map (JObject (map (\<lambda>(k, x). (k, JString x)) xs)) = Some xs"
  by (induction xs) (auto simp: as_string_map_def as_string_def comp_def)

lemma as_details_json: "as_details (details_json d) = Some d"
  by (cases d) (auto simp: as_details_def details_json_def member_opt_def js_eq_iff as_strings_array
      as_string_map_object as_string_def split: option.splits)

lemma json_ok_details: "refs_ok d \<Longrightarrow> json_ok (details_json d)"
  by (auto simp: details_json_def refs_ok_def js_eq_iff list_all_iff comp_def case_prod_unfold split: option.splits)

lemma json_ok_result: "result_ok r \<Longrightarrow> json_ok (result_json r)"
  by (cases r) (auto simp: num_ok json_ok_details opt_member_def js_eq_iff simp del: json_ok.simps(3) split: option.splits)

lemma parse_result_json: "result_ok r \<Longrightarrow> parse_result (result_json r) = Some r"
  by (cases r) (auto simp: parse_result_def member_or_def member_opt_def opt_member_def js_eq_iff as_int_num
      as_string_def as_bool_def base64_roundtrip as_details_json split: option.splits)

lemma json_ok_push_result: "push_result_ok r \<Longrightarrow> json_ok (push_result_json r)"
  by (auto simp: push_result_ok_def push_result_json_def opt_member_def js_eq_iff num_ok json_ok_result list_all_iff
      simp del: json_ok.simps(3) split: option.splits)

lemma deserialize_serialize:
  assumes "push_result_ok r"
  shows "deserializePushResult (serializePushResult r) = Some r"
proof -
  have results: "those (map parse_result (map result_json (spr_results r))) = Some (spr_results r)"
    using assms by (intro those_map_id parse_result_json) (auto simp: push_result_ok_def list_all_iff)
  show ?thesis
    unfolding deserializePushResult_def serializePushResult_def json_parse_stringify [OF json_ok_push_result [OF assms]]
    using results assms
    by (cases r; cases "spr_status r"; cases "spr_commitSeq r"; cases "spr_recordedAtMs r"; cases "spr_cacheIdentity r")
       (simp_all add: push_result_json_def push_result_ok_def opt_member_def member_opt_def js_eq_iff as_int_num
         as_string_def as_status_def)
qed

section \<open>The push-result table\<close>

definition push_result_key :: "jsstring \<times> jsstring \<times> jsstring \<times> jsstring \<Rightarrow> jsstring \<times> jsstring \<times> jsstring" where
  "push_result_key = (\<lambda>(p, client, commit, text). (p, client, commit))"

datatype PushLookup = NoPushResult | UnreadablePushResult | FoundPushResult StoredPushResult

definition getPushResult :: "db \<Rightarrow> jsstring \<Rightarrow> jsstring \<Rightarrow> jsstring \<Rightarrow> PushLookup" where
  "getPushResult d part clientId clientCommitId =
     (case find_by push_result_key (part, clientId, clientCommitId) (db_push_results d) of
        None \<Rightarrow> NoPushResult
      | Some (_, _, _, text) \<Rightarrow>
          (case deserializePushResult text of None \<Rightarrow> UnreadablePushResult | Some r \<Rightarrow> FoundPushResult r))"

definition putPushResult :: "SqliteTransaction \<Rightarrow> jsstring \<Rightarrow> jsstring \<Rightarrow> StoredPushResult \<Rightarrow> StorageError + SqliteTransaction" where
  "putPushResult tx clientId clientCommitId result =
     bindE (assertOpen tx) (\<lambda>_.
       Inr (tx\<lparr>tx_db := (tx_db tx)\<lparr>db_push_results :=
         insert_or_ignore push_result_key (tx_partition tx, clientId, clientCommitId, serializePushResult result)
           (db_push_results (tx_db tx))\<rparr>\<rparr>))"

definition tx_getPushResult :: "SqliteTransaction \<Rightarrow> jsstring \<Rightarrow> jsstring \<Rightarrow> StorageError + PushLookup" where
  "tx_getPushResult tx clientId clientCommitId =
     bindE (assertOpen tx) (\<lambda>_. Inr (getPushResult (tx_db tx) (tx_partition tx) clientId clientCommitId))"

text \<open>Roll back to the push savepoint, record the rejection, commit.\<close>

definition commitRejectedPushResult ::
    "SqliteTransaction \<Rightarrow> jsstring \<Rightarrow> jsstring \<Rightarrow> StoredPushResult \<Rightarrow> StorageError + SqliteTransaction" where
  "commitRejectedPushResult tx clientId clientCommitId result =
     bindE (assertOpen tx) (\<lambda>_.
       case tx_savepoint tx of
         None \<Rightarrow> Inl MissingSavepoint
       | Some d \<Rightarrow>
           bindE (putPushResult (tx\<lparr>tx_db := d, tx_savepoint := None\<rparr>) clientId clientCommitId result) commit_tx)"

lemma getPushResult_put:
  assumes "getPushResult d p c i = NoPushResult" and "push_result_ok r"
  shows "getPushResult (d\<lparr>db_push_results := insert_or_ignore push_result_key (p, c, i, serializePushResult r)
      (db_push_results d)\<rparr>) p c i = FoundPushResult r"
proof -
  have "find_by push_result_key (p, c, i) (db_push_results d) = None"
    using assms(1) by (auto simp: getPushResult_def split: option.splits prod.splits)
  then show ?thesis
    using assms(2) by (simp add: getPushResult_def find_by_insert_or_ignore push_result_key_def deserialize_serialize)
qed

lemma getPushResult_other:
  assumes "(p', c', i') \<noteq> (p, c, i)"
  shows "getPushResult (d\<lparr>db_push_results := insert_or_ignore push_result_key (p, c, i, t) (db_push_results d)\<rparr>) p' c' i'
    = getPushResult d p' c' i'"
  using assms by (auto simp: getPushResult_def find_by_insert_or_ignore push_result_key_def)

end
