(* ===== verification/Reactions.thy ===== *)
theory Reactions
  imports Push_Result "HOL-Library.Product_Lexorder"
begin

text \<open>
  Durable post-commit reactions: planning (\<open>server/src/reactions.ts\<close>), the reaction rows of
  \<open>sqlite-storage.ts\<close> with their life cycle pending, leased, completed or dead-letter, and the
  worker \<open>ReactionRunner\<close>. \<open>localeCompare\<close> depends on the runtime's locale; it is given by a
  collation key, the parameter \<open>collate\<close>. The handlers and the planner are the host's code and
  are parameters.
\<close>

type_synonym collation = "jsstring \<Rightarrow> nat list"

definition MAX_REACTIONS_PER_COMMIT :: nat where "MAX_REACTIONS_PER_COMMIT = 100"
definition MAX_REACTION_PAYLOAD_BYTES :: nat where "MAX_REACTION_PAYLOAD_BYTES = 64 * 1024"
definition MAX_REACTION_FAILURE_DETAILS_BYTES :: nat where "MAX_REACTION_FAILURE_DETAILS_BYTES = 8 * 1024"
definition DEFAULT_REACTION_MAX_ATTEMPTS :: int where "DEFAULT_REACTION_MAX_ATTEMPTS = 10"

section \<open>Planning\<close>

datatype ReactionError =
    TooDeep | NotFinite | TooManyBytes | BadName | TooManyReactions | BadKey | DuplicateKey
  | BadVersion | BadMaxAttempts | PlannerThrew

definition is_finite :: "js_number \<Rightarrow> bool" where
  "is_finite x \<longleftrightarrow> unat x div 2 ^ 52 mod 2048 \<noteq> 2047"

text \<open>
  \<open>normalizedJson\<close> on a plain JSON value: the checks for symbols, accessors and foreign prototypes
  concern values that are not plain JSON.
\<close>

function normalizedJson :: "collation \<Rightarrow> nat \<Rightarrow> json \<Rightarrow> ReactionError + json" where
  "normalizedJson collate depth value =
     (if depth > 16 then Inl TooDeep
      else (case value of
          JNull \<Rightarrow> Inr value
        | JBool b \<Rightarrow> Inr value
        | JString s \<Rightarrow> Inr value
        | JNumber x \<Rightarrow> if is_finite x then Inr value else Inl NotFinite
        | JArray vs \<Rightarrow> bindE (mapE (normalizedJson collate (depth + 1)) vs) (\<lambda>out. Inr (JArray out))
        | JObject ms \<Rightarrow>
            bindE (mapE (\<lambda>(k, v). bindE (normalizedJson collate (depth + 1) v) (\<lambda>w. Inr (k, w)))
                    (sort_key (\<lambda>(k, v). collate k) ms)) (\<lambda>out. Inr (JObject out))))"
  by pat_completeness auto
termination
  by (relation "measure (\<lambda>(_, depth, _). 17 - depth)") auto

declare normalizedJson.simps [simp del]

definition boundedJson :: "collation \<Rightarrow> nat \<Rightarrow> json \<Rightarrow> ReactionError + json" where
  "boundedJson collate maxBytes value =
     bindE (normalizedJson collate 0 value) (\<lambda>normalized.
       if length (text_encode (json_stringify normalized)) > maxBytes then Inl TooManyBytes else Inr normalized)"

definition name_start :: "code_unit \<Rightarrow> bool" where
  "name_start u \<longleftrightarrow> in_units 65 90 u \<or> in_units 97 122 u"

definition name_part :: "code_unit \<Rightarrow> bool" where
  "name_part u \<longleftrightarrow> name_start u \<or> in_units 48 57 u \<or> u \<in> set (js ''._:-'')"

definition assertName :: "jsstring \<Rightarrow> nat \<Rightarrow> ReactionError + unit" where
  "assertName v maxBytes =
     (if (case v of [] \<Rightarrow> False | u # us \<Rightarrow> name_start u \<and> list_all name_part us) \<and> length (text_encode v) \<le> maxBytes
      then Inr () else Inl BadName)"

definition reactionIdempotencyKey :: "jsstring \<Rightarrow> jsstring \<Rightarrow> jsstring \<Rightarrow> jsstring \<Rightarrow> jsstring" where
  "reactionIdempotencyKey part clientId clientCommitId plannerKey =
     json_stringify (JArray (map JString [part, clientId, clientCommitId, plannerKey]))"

record ReactionPlan =
  rp_key :: jsstring
  rp_type :: jsstring
  rp_version :: int
  rp_payload :: json
  rp_maxAttempts :: "int option"

record PreparedReaction =
  pp_idempotencyKey :: jsstring
  pp_type :: jsstring
  pp_version :: int
  pp_payload :: json
  pp_maxAttempts :: int

text \<open>The loop over the planned reactions, with the keys seen so far.\<close>

fun prepareLoop ::
    "collation \<Rightarrow> jsstring \<Rightarrow> jsstring \<Rightarrow> jsstring \<Rightarrow> ReactionPlan list \<Rightarrow> jsstring list \<Rightarrow> ReactionError + PreparedReaction list" where
  "prepareLoop collate part clientId clientCommitId [] keys = Inr []"
| "prepareLoop collate part clientId clientCommitId (reaction # rest) keys =
     bindE (assertName (rp_type reaction) 128) (\<lambda>_.
     if rp_key reaction = [] \<or> length (text_encode (rp_key reaction)) > 256 then Inl BadKey
     else if rp_key reaction \<in> set keys then Inl DuplicateKey
     else if \<not> (1 \<le> rp_version reaction \<and> rp_version reaction \<le> 2147483647) then Inl BadVersion
     else
       (let maxAttempts = (case rp_maxAttempts reaction of None \<Rightarrow> DEFAULT_REACTION_MAX_ATTEMPTS | Some n \<Rightarrow> n) in
        if \<not> (1 \<le> maxAttempts \<and> maxAttempts \<le> 100) then Inl BadMaxAttempts
        else bindE (boundedJson collate MAX_REACTION_PAYLOAD_BYTES (rp_payload reaction)) (\<lambda>payload.
             bindE (prepareLoop collate part clientId clientCommitId rest (keys @ [rp_key reaction])) (\<lambda>prepared.
             Inr (\<lparr>pp_idempotencyKey = reactionIdempotencyKey part clientId clientCommitId (rp_key reaction),
                   pp_type = rp_type reaction, pp_version = rp_version reaction, pp_payload = payload,
                   pp_maxAttempts = maxAttempts\<rparr> # prepared)))))"

text \<open>\<open>planned\<close> is what the host's planner returned, or its exception.\<close>

definition prepareReactions ::
    "collation \<Rightarrow> jsstring \<Rightarrow> jsstring \<Rightarrow> jsstring \<Rightarrow> ReactionError + ReactionPlan list \<Rightarrow> ReactionError + PreparedReaction list" where
  "prepareReactions collate part clientId clientCommitId planned =
     bindE planned (\<lambda>reactions.
       if length reactions > MAX_REACTIONS_PER_COMMIT then Inl TooManyReactions
       else prepareLoop collate part clientId clientCommitId reactions [])"

text \<open>\<open>toNewReactions\<close>, with the row defaults of the \<open>INSERT\<close> of \<open>enqueueReactions\<close>.\<close>

definition toNewReactions :: "PreparedReaction list \<Rightarrow> jsstring \<Rightarrow> jsstring \<Rightarrow> int \<Rightarrow> int \<Rightarrow> StoredReaction list" where
  "toNewReactions prepared clientId clientCommitId commitSeq createdAtMs =
     map (\<lambda>r. \<lparr>rx_idempotencyKey = pp_idempotencyKey r, rx_type = pp_type r, rx_version = pp_version r,
       rx_payload = pp_payload r, rx_sourceClientId = clientId, rx_sourceClientCommitId = clientCommitId,
       rx_sourceCommitSeq = commitSeq, rx_createdAtMs = createdAtMs, rx_maxAttempts = pp_maxAttempts r,
       rx_status = RxPending, rx_attempts = 0, rx_availableAtMs = createdAtMs, rx_leaseOwner = None,
       rx_leaseExpiresAtMs = None, rx_completedAtMs = None, rx_lastFailure = None\<rparr>) prepared"

section \<open>The reaction rows\<close>

fun reaction_key :: "jsstring \<times> StoredReaction \<Rightarrow> jsstring \<times> jsstring" where
  "reaction_key (p, r) = (p, rx_idempotencyKey r)"

fun enqueue_db :: "jsstring \<Rightarrow> StoredReaction list \<Rightarrow> db \<Rightarrow> StorageError + db" where
  "enqueue_db part [] d = Inr d"
| "enqueue_db part (r # rs) d =
     (if find_by reaction_key (part, rx_idempotencyKey r) (db_reactions d) \<noteq> None then Inl PrimaryKeyViolation
      else enqueue_db part rs (d\<lparr>db_reactions := db_reactions d @ [(part, r)]\<rparr>))"

definition enqueueReactions :: "SqliteTransaction \<Rightarrow> StoredReaction list \<Rightarrow> StorageError + SqliteTransaction" where
  "enqueueReactions tx reactions =
     bindE (assertOpen tx) (\<lambda>_. bindE (enqueue_db (tx_partition tx) reactions (tx_db tx)) (\<lambda>d.
       Inr (tx\<lparr>tx_db := d\<rparr>)))"

record ReactionClaimQuery =
  rq_leaseOwner :: jsstring
  rq_types :: "jsstring list"
  rq_nowMs :: int
  rq_leaseDurationMs :: int
  rq_limit :: int

definition claimable :: "jsstring list \<Rightarrow> int \<Rightarrow> StoredReaction \<Rightarrow> bool" where
  "claimable types nowMs r \<longleftrightarrow> rx_type r \<in> set types \<and>
     (rx_status r = RxPending \<and> rx_availableAtMs r \<le> nowMs \<or>
      rx_status r = RxLeased \<and> (case rx_leaseExpiresAtMs r of None \<Rightarrow> False | Some t \<Rightarrow> t \<le> nowMs))"

definition claim_order :: "jsstring \<times> StoredReaction \<Rightarrow> int \<times> int \<times> byte list" where
  "claim_order = (\<lambda>(_, r). (if rx_status r = RxLeased then (case rx_leaseExpiresAtMs r of None \<Rightarrow> 0 | Some t \<Rightarrow> t)
       else rx_availableAtMs r, rx_createdAtMs r, text_encode (rx_idempotencyKey r)))"

definition claim_keys :: "db \<Rightarrow> jsstring \<Rightarrow> ReactionClaimQuery \<Rightarrow> (jsstring \<times> jsstring) list" where
  "claim_keys d part query =
     map reaction_key (take (nat (rq_limit query)) (sort_key claim_order
       (filter (\<lambda>(p, r). p = part \<and> claimable (rq_types query) (rq_nowMs query) r) (db_reactions d))))"

definition claim_row :: "ReactionClaimQuery \<Rightarrow> jsstring \<times> StoredReaction \<Rightarrow> jsstring \<times> StoredReaction" where
  "claim_row query = (\<lambda>(p, r). (p, r\<lparr>rx_status := RxLeased, rx_attempts := rx_attempts r + 1,
     rx_leaseOwner := Some (rq_leaseOwner query),
     rx_leaseExpiresAtMs := Some (min max_safe (rq_nowMs query + rq_leaseDurationMs query)),
     rx_completedAtMs := None\<rparr>))"

definition claimReactions :: "collation \<Rightarrow> jsstring \<Rightarrow> ReactionClaimQuery \<Rightarrow> db \<Rightarrow> StoredReaction list \<times> db" where
  "claimReactions collate part query d =
     (if rq_types query = [] \<or> rq_limit query \<le> 0 then ([], d)
      else
        (let keys = claim_keys d part query;
             d' = d\<lparr>db_reactions := update_where (\<lambda>x. reaction_key x \<in> set keys) (claim_row query) (db_reactions d)\<rparr> in
         (sort_key (\<lambda>r. (rx_createdAtMs r, collate (rx_idempotencyKey r)))
            (map snd (filter (\<lambda>x. reaction_key x \<in> set keys) (db_reactions d'))), d')))"

text \<open>
  The guarded updates: \<open>WHERE partition=? AND idempotency_key=? AND \<dots>\<close>. The result is whether
  exactly one row changed.
\<close>

definition update_reaction ::
    "jsstring \<Rightarrow> jsstring \<Rightarrow> (StoredReaction \<Rightarrow> bool) \<Rightarrow> (StoredReaction \<Rightarrow> StoredReaction) \<Rightarrow> db \<Rightarrow> bool \<times> db" where
  "update_reaction part key guard f d =
     (length (filter (\<lambda>x. reaction_key x = (part, key) \<and> guard (snd x)) (db_reactions d)) = 1,
      d\<lparr>db_reactions := update_where (\<lambda>x. reaction_key x = (part, key) \<and> guard (snd x))
          (\<lambda>(p, r). (p, f r)) (db_reactions d)\<rparr>)"

definition holds_lease :: "jsstring \<Rightarrow> StoredReaction \<Rightarrow> bool" where
  "holds_lease leaseOwner r \<longleftrightarrow> rx_status r = RxLeased \<and> rx_leaseOwner r = Some leaseOwner"

definition completeReaction :: "jsstring \<Rightarrow> jsstring \<Rightarrow> jsstring \<Rightarrow> int \<Rightarrow> db \<Rightarrow> bool \<times> db" where
  "completeReaction part key leaseOwner completedAtMs =
     update_reaction part key (holds_lease leaseOwner)
       (\<lambda>r. r\<lparr>rx_status := RxCompleted, rx_completedAtMs := Some completedAtMs, rx_leaseOwner := None,
              rx_leaseExpiresAtMs := None\<rparr>)"

definition extendReactionLease :: "jsstring \<Rightarrow> jsstring \<Rightarrow> jsstring \<Rightarrow> int \<Rightarrow> db \<Rightarrow> bool \<times> db" where
  "extendReactionLease part key leaseOwner leaseExpiresAtMs =
     update_reaction part key (holds_lease leaseOwner) (\<lambda>r. r\<lparr>rx_leaseExpiresAtMs := Some leaseExpiresAtMs\<rparr>)"

record ReactionFailureUpdate =
  fu_leaseOwner :: jsstring
  fu_failure :: ReactionFailure
  fu_retryAtMs :: "int option"

definition failReaction :: "jsstring \<Rightarrow> jsstring \<Rightarrow> ReactionFailureUpdate \<Rightarrow> db \<Rightarrow> bool \<times> db" where
  "failReaction part key update =
     update_reaction part key (holds_lease (fu_leaseOwner update))
       (\<lambda>r. r\<lparr>rx_status := (if fu_retryAtMs update = None then RxDeadLetter else RxPending),
              rx_availableAtMs := (case fu_retryAtMs update of None \<Rightarrow> rf_atMs (fu_failure update) | Some t \<Rightarrow> t),
              rx_lastFailure := Some (fu_failure update), rx_leaseOwner := None, rx_leaseExpiresAtMs := None\<rparr>)"

definition retryReaction :: "jsstring \<Rightarrow> jsstring \<Rightarrow> int \<Rightarrow> db \<Rightarrow> bool \<times> db" where
  "retryReaction part key nowMs =
     update_reaction part key (\<lambda>r. rx_status r = RxDeadLetter)
       (\<lambda>r. r\<lparr>rx_status := RxPending, rx_attempts := 0, rx_availableAtMs := nowMs, rx_lastFailure := None,
              rx_leaseOwner := None, rx_leaseExpiresAtMs := None, rx_completedAtMs := None\<rparr>)"

definition getReaction :: "db \<Rightarrow> jsstring \<Rightarrow> jsstring \<Rightarrow> StoredReaction option" where
  "getReaction d part key = map_option snd (find_by reaction_key (part, key) (db_reactions d))"

record ReactionListQuery =
  rl_statuses :: "ReactionStatus list option"
  rl_types :: "jsstring list option"
  rl_limit :: int

definition in_filter :: "'a \<Rightarrow> 'a list option \<Rightarrow> bool" where
  "in_filter x f = (case f of None \<Rightarrow> True | Some xs \<Rightarrow> xs = [] \<or> x \<in> set xs)"

definition listReactions :: "db \<Rightarrow> jsstring \<Rightarrow> ReactionListQuery \<Rightarrow> StoredReaction list" where
  "listReactions d part query =
     take (nat (rl_limit query)) (rev (sort_key (\<lambda>r. (rx_createdAtMs r, text_encode (rx_idempotencyKey r)))
       (map snd (filter (\<lambda>(p, r). p = part \<and> in_filter (rx_status r) (rl_statuses query) \<and> in_filter (rx_type r) (rl_types query))
         (db_reactions d)))))"

record ReactionPruneQuery =
  rpq_completedBeforeMs :: int
  rpq_deadLetterBeforeMs :: int
  rpq_limit :: int

definition prunable :: "ReactionPruneQuery \<Rightarrow> StoredReaction \<Rightarrow> bool" where
  "prunable query r \<longleftrightarrow>
     rx_status r = RxCompleted \<and> (case rx_completedAtMs r of None \<Rightarrow> False | Some t \<Rightarrow> t < rpq_completedBeforeMs query) \<or>
     rx_status r = RxDeadLetter \<and> rx_availableAtMs r < rpq_deadLetterBeforeMs query"

definition prune_order :: "jsstring \<times> StoredReaction \<Rightarrow> int \<times> byte list" where
  "prune_order = (\<lambda>(_, r). (if rx_status r = RxCompleted then (case rx_completedAtMs r of None \<Rightarrow> 0 | Some t \<Rightarrow> t)
       else rx_availableAtMs r, text_encode (rx_idempotencyKey r)))"

definition storage_pruneReactions :: "jsstring \<Rightarrow> ReactionPruneQuery \<Rightarrow> db \<Rightarrow> (int \<times> int) \<times> db" where
  "storage_pruneReactions part query d =
     (if rpq_limit query \<le> 0 then ((0, 0), d)
      else
        (let keys = map reaction_key (take (nat (rpq_limit query)) (sort_key prune_order
               (filter (\<lambda>(p, r). p = part \<and> prunable query r) (db_reactions d))));
             gone = (\<lambda>x. reaction_key x \<in> set keys \<and> prunable query (snd x));
             removed = map snd (filter gone (db_reactions d)) in
         ((int (length (filter (\<lambda>r. rx_status r = RxCompleted) removed)),
           int (length (filter (\<lambda>r. rx_status r = RxDeadLetter) removed))),
          d\<lparr>db_reactions := delete_where gone (db_reactions d)\<rparr>)))"

section \<open>The worker\<close>

text \<open>
  \<open>during\<close> stands for everything that happens to the store while a handler runs: its own lease
  extensions and other workers. \<open>clock n\<close> is the answer of the \<open>n\<close>-th call of the clock.
\<close>

datatype HandlerOutcome =
    HandlerOk
  | HandlerPermanent jsstring "json option"
  | HandlerRetryable jsstring "json option"
  | HandlerThrew

record reaction_runner =
  rn_part :: jsstring
  rn_workerId :: jsstring
  rn_handlers :: "(jsstring \<times> (StoredReaction \<Rightarrow> HandlerOutcome)) list"
  rn_leaseDurationMs :: int
  rn_batchSize :: int
  rn_initialBackoffMs :: int
  rn_maxBackoffMs :: int

datatype RunnerError = BadWorkerId | BadHandlers | NotPositive | BatchTooLarge | BackoffOrder

definition newReactionRunner :: "reaction_runner \<Rightarrow> RunnerError + reaction_runner" where
  "newReactionRunner options =
     (if assertName (rn_workerId options) 128 = Inl BadName then Inl BadWorkerId
      else if rn_handlers options = [] \<or> length (rn_handlers options) > 64
        \<or> \<not> list_all (\<lambda>(t, _). assertName t 128 = Inr ()) (rn_handlers options) then Inl BadHandlers
      else if \<not> list_all (\<lambda>n. 1 \<le> n \<and> n \<le> max_safe)
        [rn_leaseDurationMs options, rn_batchSize options, rn_initialBackoffMs options, rn_maxBackoffMs options]
        then Inl NotPositive
      else if rn_batchSize options > 100 then Inl BatchTooLarge
      else if rn_initialBackoffMs options > rn_maxBackoffMs options then Inl BackoffOrder
      else Inr options)"

record ReactionRunResult =
  rr_claimed :: int
  rr_completed :: int
  rr_retried :: int
  rr_deadLettered :: int
  rr_lostLeases :: int

definition is_permanent :: "HandlerOutcome \<Rightarrow> bool" where
  "is_permanent out = (case out of HandlerPermanent _ _ \<Rightarrow> True | _ \<Rightarrow> False)"

definition failure_of :: "HandlerOutcome \<Rightarrow> int \<Rightarrow> ReactionFailure" where
  "failure_of out atMs =
     (case out of
        HandlerPermanent code details \<Rightarrow> \<lparr>rf_code = code, rf_atMs = atMs, rf_details = details\<rparr>
      | HandlerRetryable code details \<Rightarrow> \<lparr>rf_code = code, rf_atMs = atMs, rf_details = details\<rparr>
      | _ \<Rightarrow> \<lparr>rf_code = js ''reaction.handler_failed'', rf_atMs = atMs, rf_details = None\<rparr>)"

definition retry_at :: "reaction_runner \<Rightarrow> StoredReaction \<Rightarrow> int \<Rightarrow> int" where
  "retry_at runner r atMs =
     min max_safe (atMs + min (rn_maxBackoffMs runner)
       (rn_initialBackoffMs runner * 2 ^ nat (min 30 (rx_attempts r - 1))))"

definition runReaction ::
    "reaction_runner \<Rightarrow> jsstring \<Rightarrow> (StoredReaction \<Rightarrow> db \<Rightarrow> db) \<Rightarrow> (nat \<Rightarrow> int)
     \<Rightarrow> StoredReaction \<Rightarrow> db \<times> nat \<times> ReactionRunResult \<Rightarrow> db \<times> nat \<times> ReactionRunResult" where
  "runReaction runner leaseOwner during clock r = (\<lambda>(d, n, res).
     (let startedAtMs = clock n;
          (stillOwned, d1) = extendReactionLease (rn_part runner) (rx_idempotencyKey r) leaseOwner
                               (min max_safe (startedAtMs + rn_leaseDurationMs runner)) d in
      if \<not> stillOwned then (d1, n + 1, res\<lparr>rr_lostLeases := rr_lostLeases res + 1\<rparr>)
      else
        (let out = (case map_of (rn_handlers runner) (rx_type r) of
               None \<Rightarrow> HandlerPermanent (js ''reaction.handler_missing'') None | Some handler \<Rightarrow> handler r);
             d2 = during r d1; atMs = clock (n + 1) in
         if out = HandlerOk then
           (let (acknowledged, d3) = completeReaction (rn_part runner) (rx_idempotencyKey r) leaseOwner atMs d2 in
            if \<not> acknowledged then (d3, n + 2, res\<lparr>rr_lostLeases := rr_lostLeases res + 1\<rparr>)
            else (d3, n + 2, res\<lparr>rr_completed := rr_completed res + 1\<rparr>))
         else
           (let deadLetter = is_permanent out \<or> rx_attempts r \<ge> rx_maxAttempts r;
                retryAtMs = (if deadLetter then None else Some (retry_at runner r atMs));
                (recorded, d3) = failReaction (rn_part runner) (rx_idempotencyKey r)
                  \<lparr>fu_leaseOwner = leaseOwner, fu_failure = failure_of out atMs, fu_retryAtMs = retryAtMs\<rparr> d2 in
            if \<not> recorded then (d3, n + 2, res\<lparr>rr_lostLeases := rr_lostLeases res + 1\<rparr>)
            else if retryAtMs \<noteq> None then (d3, n + 2, res\<lparr>rr_retried := rr_retried res + 1\<rparr>)
            else (d3, n + 2, res\<lparr>rr_deadLettered := rr_deadLettered res + 1\<rparr>)))))"

definition runOnce ::
    "collation \<Rightarrow> reaction_runner \<Rightarrow> jsstring \<Rightarrow> (StoredReaction \<Rightarrow> db \<Rightarrow> db) \<Rightarrow> (nat \<Rightarrow> int) \<Rightarrow> db \<Rightarrow> db \<times> ReactionRunResult" where
  "runOnce collate runner uuid during clock d =
     (let leaseOwner = rn_workerId runner @ js '':'' @ uuid;
          (reactions, d1) = claimReactions collate (rn_part runner)
            \<lparr>rq_leaseOwner = leaseOwner, rq_types = sort (map fst (rn_handlers runner)), rq_nowMs = clock 0,
             rq_leaseDurationMs = rn_leaseDurationMs runner, rq_limit = rn_batchSize runner\<rparr> d;
          (d2, n, res) = fold (runReaction runner leaseOwner during clock) reactions
            (d1, 1, \<lparr>rr_claimed = int (length reactions), rr_completed = 0, rr_retried = 0, rr_deadLettered = 0,
                     rr_lostLeases = 0\<rparr>) in
      (d2, res))"

record ReactionRetentionPolicy =
  rt_completedRetentionMs :: int
  rt_deadLetterRetentionMs :: int
  rt_batchSize :: int

definition DEFAULT_REACTION_RETENTION :: ReactionRetentionPolicy where
  "DEFAULT_REACTION_RETENTION = \<lparr>rt_completedRetentionMs = 30 * 24 * 60 * 60 * 1000,
     rt_deadLetterRetentionMs = 90 * 24 * 60 * 60 * 1000, rt_batchSize = 1000\<rparr>"

record ReactionPruneResult =
  pr_completedBeforeMs :: int
  pr_deadLetterBeforeMs :: int
  pr_removedCompleted :: int
  pr_removedDeadLetter :: int
  pr_mayHaveMore :: bool

datatype PruneError = NowNotSafe | RetentionNotSafe | BatchOutOfRange

definition pruneReactions ::
    "jsstring \<Rightarrow> int \<Rightarrow> ReactionRetentionPolicy \<Rightarrow> db \<Rightarrow> PruneError + (ReactionPruneResult \<times> db)" where
  "pruneReactions part nowMs retention d =
     (if \<not> (- max_safe \<le> nowMs \<and> nowMs \<le> max_safe) then Inl NowNotSafe
      else if \<not> list_all (\<lambda>n. 0 \<le> n \<and> n \<le> max_safe) [rt_completedRetentionMs retention, rt_deadLetterRetentionMs retention]
        then Inl RetentionNotSafe
      else if \<not> (1 \<le> rt_batchSize retention \<and> rt_batchSize retention \<le> 10000) then Inl BatchOutOfRange
      else
        (let completedBeforeMs = max (- max_safe) (nowMs - rt_completedRetentionMs retention);
             deadLetterBeforeMs = max (- max_safe) (nowMs - rt_deadLetterRetentionMs retention);
             ((completed, deadLetter), d') = storage_pruneReactions part
               \<lparr>rpq_completedBeforeMs = completedBeforeMs, rpq_deadLetterBeforeMs = deadLetterBeforeMs,
                rpq_limit = rt_batchSize retention\<rparr> d in
         Inr (\<lparr>pr_completedBeforeMs = completedBeforeMs, pr_deadLetterBeforeMs = deadLetterBeforeMs,
               pr_removedCompleted = completed, pr_removedDeadLetter = deadLetter,
               pr_mayHaveMore = (completed + deadLetter = rt_batchSize retention)\<rparr>, d')))"

section \<open>The life cycle\<close>

text \<open>
  What each status says of the row: a lease, and only a lease, has an owner and an expiry; a
  completed row has its time; a leased or finished row was attempted.
\<close>

definition reaction_ok :: "StoredReaction \<Rightarrow> bool" where
  "reaction_ok r \<longleftrightarrow> 0 \<le> rx_attempts r \<and>
     (case rx_status r of
        RxPending \<Rightarrow> rx_leaseOwner r = None \<and> rx_leaseExpiresAtMs r = None \<and> rx_completedAtMs r = None
      | RxLeased \<Rightarrow> rx_leaseOwner r \<noteq> None \<and> rx_leaseExpiresAtMs r \<noteq> None \<and> rx_completedAtMs r = None \<and> 1 \<le> rx_attempts r
      | RxCompleted \<Rightarrow> rx_leaseOwner r = None \<and> rx_leaseExpiresAtMs r = None \<and> rx_completedAtMs r \<noteq> None \<and> 1 \<le> rx_attempts r
      | RxDeadLetter \<Rightarrow> rx_leaseOwner r = None \<and> rx_leaseExpiresAtMs r = None \<and> rx_completedAtMs r = None
          \<and> rx_lastFailure r \<noteq> None \<and> 1 \<le> rx_attempts r)"

definition reactions_ok :: "db \<Rightarrow> bool" where
  "reactions_ok d \<longleftrightarrow> distinct (map reaction_key (db_reactions d)) \<and> list_all (\<lambda>(p, r). reaction_ok r) (db_reactions d)"

text \<open>The moves of the life cycle.\<close>

inductive reaction_step :: "db \<Rightarrow> db \<Rightarrow> bool" where
  enqueue: "enqueue_db part (toNewReactions prepared c i s t) d = Inr d' \<Longrightarrow> reaction_step d d'"
| claim: "claimReactions collate part query d = (rs, d') \<Longrightarrow> reaction_step d d'"
| complete: "completeReaction part key owner t d = (b, d') \<Longrightarrow> reaction_step d d'"
| extend: "extendReactionLease part key owner t d = (b, d') \<Longrightarrow> reaction_step d d'"
| fail: "failReaction part key update d = (b, d') \<Longrightarrow> reaction_step d d'"
| retry: "retryReaction part key t d = (b, d') \<Longrightarrow> reaction_step d d'"
| prune: "storage_pruneReactions part q d = (c, d') \<Longrightarrow> reaction_step d d'"

inductive_cases reaction_stepE: "reaction_step d d'"

lemma update_where_ok:
  assumes "reactions_ok d" and "\<And>x. reaction_key (f x) = reaction_key x"
    and "\<And>p r. (p, r) \<in> set (db_reactions d) \<Longrightarrow> reaction_ok r \<Longrightarrow> P (p, r) \<Longrightarrow> reaction_ok (snd (f (p, r)))"
  shows "reactions_ok (d\<lparr>db_reactions := update_where P f (db_reactions d)\<rparr>)"
proof -
  have "reaction_ok (snd y)" if y: "y \<in> set (update_where P f (db_reactions d))" for y
  proof -
    obtain x where "x \<in> set (db_reactions d)" "y = (if P x then f x else x)"
      using y unfolding update_where_def set_map by (rule imageE)
    then obtain p r where x: "(p, r) \<in> set (db_reactions d)" "y = (if P (p, r) then f (p, r) else (p, r))"
      by (metis surj_pair)
    moreover have "reaction_ok r" using assms(1) x(1) by (auto simp: reactions_ok_def list_all_iff)
    ultimately show ?thesis using assms(3) by (cases "P (p, r)") auto
  qed
  then show ?thesis using assms(1,2) by (auto simp: reactions_ok_def keys_update_where list_all_iff)
qed

lemma claimable_status: "claimable types now r \<Longrightarrow> rx_status r = RxPending \<or> rx_status r = RxLeased"
  by (auto simp: claimable_def)

lemma claim_keys_rows:
  assumes "reactions_ok d" and "(p, r) \<in> set (db_reactions d)" and "(p, rx_idempotencyKey r) \<in> set (claim_keys d part query)"
  shows "p = part \<and> claimable (rq_types query) (rq_nowMs query) r"
proof -
  obtain r' where "(p, r') \<in> set (db_reactions d)" "rx_idempotencyKey r' = rx_idempotencyKey r"
      "p = part" "claimable (rq_types query) (rq_nowMs query) r'"
    using assms(3) by (auto simp: claim_keys_def dest!: in_set_takeD)
  moreover have "inj_on reaction_key (set (db_reactions d))" using assms(1) by (simp add: reactions_ok_def distinct_map)
  ultimately have "r' = r" using assms(2) by (fastforce simp: inj_on_def)
  with \<open>p = part\<close> \<open>claimable _ _ r'\<close> show ?thesis by simp
qed

lemma enqueue_db_ok:
  assumes "enqueue_db part rs d = Inr d'" and "reactions_ok d" and "list_all reaction_ok rs"
  shows "reactions_ok d'"
  using assms
proof (induction rs arbitrary: d)
  case (Cons r rs)
  have fresh: "(part, rx_idempotencyKey r) \<notin> reaction_key ` set (db_reactions d)"
    and rest: "enqueue_db part rs (d\<lparr>db_reactions := db_reactions d @ [(part, r)]\<rparr>) = Inr d'"
    using Cons.prems(1) by (auto simp: find_by_None_iff split: if_splits)
  show ?case using Cons.prems(2,3) fresh by (intro Cons.IH [OF rest]) (auto simp: reactions_ok_def)
qed simp

lemma reaction_step_ok:
  assumes "reaction_step d d'" and "reactions_ok d"
  shows "reactions_ok d'"
  using assms(1)
proof cases
  case (enqueue part prepared c i s t)
  then show ?thesis using assms(2)
    by (auto intro!: enqueue_db_ok [of part _ d d'] simp: toNewReactions_def list_all_iff reaction_ok_def)
next
  case (claim collate part query rs)
  show ?thesis
  proof (cases "rq_types query = [] \<or> rq_limit query \<le> 0")
    case True
    then show ?thesis using claim assms(2) by (auto simp: claimReactions_def)
  next
    case False
    then have d': "d' = d\<lparr>db_reactions := update_where (\<lambda>x. reaction_key x \<in> set (claim_keys d part query))
        (claim_row query) (db_reactions d)\<rparr>"
      using claim by (auto simp: claimReactions_def Let_def)
    show ?thesis unfolding d'
      by (rule update_where_ok [OF assms(2)]) (auto simp: claim_row_def reaction_ok_def split: ReactionStatus.splits)
  qed
next
  case (prune part q c)
  then show ?thesis using assms(2)
    by (auto simp: storage_pruneReactions_def Let_def reactions_ok_def distinct_delete_where list_all_iff split: if_splits)
qed (auto simp: completeReaction_def extendReactionLease_def failReaction_def retryReaction_def update_reaction_def
      reaction_ok_def holds_lease_def intro!: update_where_ok [OF assms(2)] split: ReactionStatus.splits)

section \<open>Leases are exclusive\<close>

lemma reaction_key_alt: "reaction_key x = (fst x, rx_idempotencyKey (snd x))"
  by (cases x) simp

lemma claim_row_key: "reaction_key (claim_row query x) = reaction_key x"
  by (cases x) (simp add: claim_row_def)

lemma getReaction_key: "getReaction d part key = Some r \<Longrightarrow> rx_idempotencyKey r = key"
  by (auto simp: getReaction_def dest!: find_by_SomeD)

lemma update_reaction_result:
  assumes "reactions_ok d"
  shows "fst (update_reaction part key guard f d) = (case getReaction d part key of None \<Rightarrow> False | Some r \<Rightarrow> guard r)"
  using assms length_filter_distinct_keys [of reaction_key "db_reactions d" "(part, key)" "\<lambda>x. guard (snd x)"]
  by (auto simp: update_reaction_def reactions_ok_def getReaction_def split: option.splits)

lemma getReaction_update:
  assumes "\<And>r. rx_idempotencyKey (f r) = rx_idempotencyKey r"
  shows "getReaction (snd (update_reaction part key guard f d)) p k =
    (if (p, k) = (part, key) then map_option (\<lambda>r. if guard r then f r else r) (getReaction d p k) else getReaction d p k)"
proof -
  have "find_by reaction_key (p, k) (db_reactions (snd (update_reaction part key guard f d))) =
      map_option (\<lambda>x. if reaction_key x = (part, key) \<and> guard (snd x) then (fst x, f (snd x)) else x)
        (find_by reaction_key (p, k) (db_reactions d))"
    using assms by (simp add: update_reaction_def find_by_update_where split_paired_all case_prod_unfold reaction_key_alt)
  then show ?thesis
    by (auto simp: getReaction_def option.map_comp comp_def case_prod_unfold dest!: find_by_SomeD
        intro!: option.map_cong)
qed

lemma update_reaction_keeps:
  assumes "\<And>r. rx_idempotencyKey (f r) = rx_idempotencyKey r" "getReaction d p k = Some r" "\<not> guard r"
  shows "getReaction (snd (update_reaction part key guard f d)) p k = Some r"
  using assms by (cases "(p, k) = (part, key)") (auto simp: getReaction_update)

lemma update_reaction_skip:
  assumes "reactions_ok d" and "fst (update_reaction part key guard f d) = False"
  shows "snd (update_reaction part key guard f d) = d"
proof -
  have "\<not> (reaction_key x = (part, key) \<and> guard (snd x))" if "x \<in> set (db_reactions d)" for x
  proof
    assume x: "reaction_key x = (part, key) \<and> guard (snd x)"
    then have "find_by reaction_key (part, key) (db_reactions d) = Some x"
      using assms(1) that by (simp add: find_by_Some_iff reactions_ok_def)
    then show False using assms(2) x by (auto simp: update_reaction_result [OF assms(1)] getReaction_def)
  qed
  then have "update_where (\<lambda>x. reaction_key x = (part, key) \<and> guard (snd x)) (\<lambda>(p, r). (p, f r)) (db_reactions d) = db_reactions d"
    unfolding update_where_def by (intro map_idI) auto
  then show ?thesis by (simp add: update_reaction_def)
qed

text \<open>A worker that does not hold the lease changes nothing and is told so.\<close>

lemma lost_lease:
  assumes ok: "reactions_ok d" and r: "getReaction d part key = Some r" and no: "\<not> holds_lease owner r"
  shows "completeReaction part key owner t d = (False, d)"
    and "extendReactionLease part key owner t d = (False, d)"
    and "failReaction part key \<lparr>fu_leaseOwner = owner, fu_failure = e, fu_retryAtMs = ra\<rparr> d = (False, d)"
proof -
  have "update_reaction part key (holds_lease owner) f d = (False, d)" for f
  proof -
    have "fst (update_reaction part key (holds_lease owner) f d) = False"
      by (simp add: update_reaction_result [OF ok] r no)
    with update_reaction_skip [OF ok this] show ?thesis by (metis prod.collapse)
  qed
  then show "completeReaction part key owner t d = (False, d)"
    and "extendReactionLease part key owner t d = (False, d)"
    and "failReaction part key \<lparr>fu_leaseOwner = owner, fu_failure = e, fu_retryAtMs = ra\<rparr> d = (False, d)"
    by (simp_all add: completeReaction_def extendReactionLease_def failReaction_def)
qed

lemma claimed_rows_leased:
  assumes "claimReactions collate part query d = (rs, d')" and "r \<in> set rs"
  shows "holds_lease (rq_leaseOwner query) r"
proof -
  have "r \<in> snd ` set (filter (\<lambda>x. reaction_key x \<in> set (claim_keys d part query))
      (update_where (\<lambda>x. reaction_key x \<in> set (claim_keys d part query)) (claim_row query) (db_reactions d)))"
    using assms by (auto simp: claimReactions_def Let_def split: if_splits)
  then show ?thesis
    by (auto simp: update_where_def claim_row_def holds_lease_def split: if_splits)
qed

section \<open>Completed reactions stay completed\<close>

lemma enqueue_db_lookup:
  "enqueue_db part rs d = Inr d' \<Longrightarrow> getReaction d p k = Some r \<Longrightarrow> getReaction d' p k = Some r"
proof (induction rs arbitrary: d)
  case (Cons x rs)
  have "getReaction (d\<lparr>db_reactions := db_reactions d @ [(part, x)]\<rparr>) p k = Some r"
    using Cons.prems(2) by (auto simp: getReaction_def find_by_append split: option.splits)
  then show ?case using Cons.prems(1) by (intro Cons.IH) (auto split: if_splits)
qed simp

lemma claim_lookup:
  assumes "claimReactions collate part query d = (rs, d')" and "reactions_ok d"
    and "getReaction d p k = Some r" and "\<not> claimable (rq_types query) (rq_nowMs query) r"
  shows "getReaction d' p k = Some r"
proof (cases "rq_types query = [] \<or> rq_limit query \<le> 0")
  case True
  then show ?thesis using assms(1,3) by (auto simp: claimReactions_def)
next
  case False
  then have d': "d' = d\<lparr>db_reactions := update_where (\<lambda>x. reaction_key x \<in> set (claim_keys d part query))
      (claim_row query) (db_reactions d)\<rparr>"
    using assms(1) by (auto simp: claimReactions_def Let_def)
  have row: "find_by reaction_key (p, k) (db_reactions d) = Some (p, r)"
    using assms(3) find_by_SomeD [of reaction_key "(p, k)"] by (fastforce simp: getReaction_def)
  then have "(p, rx_idempotencyKey r) \<notin> set (claim_keys d part query)"
    using claim_keys_rows [OF assms(2)] assms(4) find_by_SomeD [OF row] by blast
  then show ?thesis
    using row by (simp add: d' getReaction_def find_by_update_where claim_row_key)
qed

lemma completed_stays:
  assumes "reaction_step d d'" and ok: "reactions_ok d"
    and r: "getReaction d p k = Some r" "rx_status r = RxCompleted"
  shows "getReaction d' p k = Some r \<or> getReaction d' p k = None"
  using assms(1)
proof cases
  case (enqueue part prepared c i s t)
  then show ?thesis using enqueue_db_lookup r by blast
next
  case (claim collate part query rs)
  then have "\<not> claimable (rq_types query) (rq_nowMs query) r" using r(2) claimable_status by force
  then show ?thesis using claim_lookup [OF claim ok r(1)] by blast
next
  case (prune part q c)
  show ?thesis
  proof (cases "rpq_limit q \<le> 0")
    case True
    then show ?thesis using prune r(1) by (auto simp: storage_pruneReactions_def)
  next
    case False
    then obtain gone where "db_reactions d' = delete_where gone (db_reactions d)"
      using prune by (auto simp: storage_pruneReactions_def Let_def)
    then have "find_by reaction_key (p, k) (db_reactions d') = Some z \<Longrightarrow> find_by reaction_key (p, k) (db_reactions d) = Some z" for z
      using ok by (simp add: reactions_ok_def find_by_Some_iff distinct_delete_where)
    then show ?thesis using r(1)
      by (cases "find_by reaction_key (p, k) (db_reactions d')") (simp_all add: getReaction_def)
  qed
next
  case (complete part key owner t b)
  then have "d' = snd (completeReaction part key owner t d)" by simp
  then show ?thesis using r by (simp add: completeReaction_def update_reaction_keeps holds_lease_def)
next
  case (extend part key owner t b)
  then have "d' = snd (extendReactionLease part key owner t d)" by simp
  then show ?thesis using r by (simp add: extendReactionLease_def update_reaction_keeps holds_lease_def)
next
  case (fail part key update b)
  then have "d' = snd (failReaction part key update d)" by simp
  then show ?thesis using r by (simp add: failReaction_def update_reaction_keeps holds_lease_def)
next
  case (retry part key t b)
  then have "d' = snd (retryReaction part key t d)" by simp
  then show ?thesis using r by (simp add: retryReaction_def update_reaction_keeps)
qed

section \<open>Keys and the worker's accounting\<close>

lemma reactionIdempotencyKey_inj:
  "reactionIdempotencyKey p c i k = reactionIdempotencyKey p' c' i' k' \<longleftrightarrow> p = p' \<and> c = c' \<and> i = i' \<and> k = k'"
proof -
  have parse: "json_parse (reactionIdempotencyKey p c i k) = Some (JArray (map JString [p, c, i, k]))" for p c i k
    unfolding reactionIdempotencyKey_def by (rule json_parse_stringify) simp
  show ?thesis
  proof
    assume "reactionIdempotencyKey p c i k = reactionIdempotencyKey p' c' i' k'"
    then have "JArray (map JString [p, c, i, k]) = JArray (map JString [p', c', i', k'])"
      by (metis parse option.inject)
    then show "p = p' \<and> c = c' \<and> i = i' \<and> k = k'" by simp
  qed simp
qed

definition settled :: "ReactionRunResult \<Rightarrow> int" where
  "settled res = rr_completed res + rr_retried res + rr_deadLettered res + rr_lostLeases res"

lemma runReaction_counts:
  "settled (snd (snd (runReaction runner owner during clock r s))) = settled (snd (snd s)) + 1 \<and>
   rr_claimed (snd (snd (runReaction runner owner during clock r s))) = rr_claimed (snd (snd s))"
  by (cases s) (simp add: runReaction_def Let_def settled_def case_prod_unfold)

lemma runReaction_fold_counts:
  "settled (snd (snd (fold (runReaction runner owner during clock) rs s))) = settled (snd (snd s)) + int (length rs) \<and>
   rr_claimed (snd (snd (fold (runReaction runner owner during clock) rs s))) = rr_claimed (snd (snd s))"
  by (induction rs arbitrary: s) (simp_all add: runReaction_counts)

lemma retry_at_bounds:
  assumes "1 \<le> rn_initialBackoffMs runner" "rn_initialBackoffMs runner \<le> rn_maxBackoffMs runner"
    and "1 \<le> rx_attempts r" "atMs + rn_maxBackoffMs runner \<le> max_safe"
  shows "atMs + rn_initialBackoffMs runner \<le> retry_at runner r atMs \<and> retry_at runner r atMs \<le> atMs + rn_maxBackoffMs runner"
proof -
  have "1 * rn_initialBackoffMs runner \<le> 2 ^ nat (min 30 (rx_attempts r - 1)) * rn_initialBackoffMs runner"
    using assms(1) by (intro mult_right_mono) simp_all
  then show ?thesis using assms(2,4) by (auto simp: retry_at_def mult.commute)
qed

end
