(* ===== verification/Push.thy ===== *)
theory Push
  imports Reactions Blob_Ref
begin

text \<open>
  The push path: \<open>server/src/push.ts\<close> with the row view of \<open>validate.ts\<close>. One call applies one
  commit in one storage transaction: idempotency lookup, the operations in order with their
  write authorization, the whole-commit validator, reactions, the log entry and the recorded
  outcome.

  What the host configures is the record \<open>push_env\<close>: write validators, CRDT mergers, the blob
  store's existence test, the commit validator, the reaction planner, the engine's constraint
  check and the texts of exceptions. A hook's exception is a value of its result type.
\<close>

section \<open>The host's hooks\<close>

type_synonym ValidateRow = "(jsstring \<times> RowValue) list"

record ValidateOperation =
  vo_op :: OpKind
  vo_table :: jsstring
  vo_rowId :: jsstring
  vo_row :: "ValidateRow option"
  vo_stored :: "ValidateRow option"

record ValidateCommitOperation = ValidateOperation +
  vc_opIndex :: int
  vc_storedServerVersion :: "int option"
  vc_nextServerVersion :: "int option"

datatype ValidatorOutcome =
    ValidatorAccepts
  | ValidationRejection jsstring jsstring "RejectionDetails option"
  | ValidatorThrows jsstring

datatype CommitValidatorOutcome =
    CommitAccepts
  | CommitValidationRejection int jsstring jsstring "RejectionDetails option"
  | CommitPlainRejection jsstring jsstring "RejectionDetails option"
  | CommitValidatorThrows jsstring

record ValidateCommitInput =
  vi_clientId :: jsstring
  vi_clientCommitId :: jsstring
  vi_actorId :: jsstring
  vi_part :: jsstring
  vi_operations :: "ValidateCommitOperation list"

record push_env =
  pv_constraint_fails :: constraint_check
  pv_validators :: "jsstring \<Rightarrow> (ValidateOperation \<Rightarrow> jsstring \<Rightarrow> jsstring \<Rightarrow> ValidatorOutcome) option"
  pv_crdtMergers :: "jsstring \<Rightarrow> (byte list option \<Rightarrow> byte list \<Rightarrow> jsstring + byte list) option"
  pv_blobs :: "(jsstring \<Rightarrow> jsstring \<Rightarrow> bool) option"
  pv_commitValidator :: "(ValidateCommitInput \<Rightarrow> db \<Rightarrow> CommitValidatorOutcome) option"
  pv_reactionPlanner :: "(ValidateCommitInput \<Rightarrow> db \<Rightarrow> ReactionError + ReactionPlan list) option"
  pv_collate :: collation
  pv_errorText :: "error \<Rightarrow> jsstring"

datatype PushThrow = ThrowStorage StorageError | ThrowDecode error | ThrowReaction ReactionError | ThrowBuilder

definition liftS :: "StorageError + 'a \<Rightarrow> PushThrow + 'a" where
  "liftS r = (case r of Inl e \<Rightarrow> Inl (ThrowStorage e) | Inr x \<Rightarrow> Inr x)"

definition liftD :: "error + 'a \<Rightarrow> PushThrow + 'a" where
  "liftD r = (case r of Inl e \<Rightarrow> Inl (ThrowDecode e) | Inr x \<Rightarrow> Inr x)"

lemma lift_eq_Inr: "liftS r = Inr x \<longleftrightarrow> r = Inr x" "liftD s = Inr y \<longleftrightarrow> s = Inr y"
  by (auto simp: liftS_def liftD_def split: sum.splits)

section \<open>Outcomes\<close>

datatype OperationOutcome =
    Applied (oc_change: "NewChange option") (oc_operation: ValidateCommitOperation)
  | Terminate PushOperationResult

text \<open>The paragraph sign of the message texts.\<close>

definition sect :: "string \<Rightarrow> jsstring" where
  "sect s = 0xA7 # js s"

definition errorRecord :: "int \<Rightarrow> string \<Rightarrow> jsstring \<Rightarrow> PushOperationResult" where
  "errorRecord i code msg = OpError i (js code) msg False None"

definition conflictRecord :: "int \<Rightarrow> int \<Rightarrow> byte list \<Rightarrow> PushOperationResult" where
  "conflictRecord i serverVersion serverRow =
     OpConflict i (js ''sync.version_conflict'')
       (js ''row version does not match baseVersion ('' @ sect ''6.2)'') serverVersion serverRow"

definition toValidateRow :: "RowColumn list \<Rightarrow> RowValue list \<Rightarrow> ValidateRow" where
  "toValidateRow columns vals =
     fold (\<lambda>(c, i) row. AList.update (rc_name c) (case at vals i of None \<Rightarrow> VNull | Some v \<Rightarrow> v) row)
       (zip columns [0..<length columns]) []"

section \<open>Blobs, validators, CRDT columns\<close>

definition blobIdsInRow :: "CompiledTable \<Rightarrow> RowValue list \<Rightarrow> error + jsstring list" where
  "blobIdsInRow table vals =
     bindE (mapE (\<lambda>index. case at vals index of
                 Some (VString s) \<Rightarrow> bindE (parseBlobRef s) (\<lambda>ref. Inr [br_blobId ref])
               | _ \<Rightarrow> Inr []) (ct_blobRefColumnIndices table)) (\<lambda>ids. Inr (concat ids))"

definition runValidator ::
    "push_env \<Rightarrow> CompiledTable \<Rightarrow> OpKind \<Rightarrow> jsstring \<Rightarrow> RowValue list option \<Rightarrow> RowValue list option \<Rightarrow> int
     \<Rightarrow> jsstring \<Rightarrow> jsstring \<Rightarrow> PushOperationResult option" where
  "runValidator env table op rowId vals storedValues i part actorId =
     (case pv_validators env (ct_name table) of
        None \<Rightarrow> None
      | Some validator \<Rightarrow>
          (case validator \<lparr>vo_op = op, vo_table = ct_name table, vo_rowId = rowId,
                    vo_row = map_option (toValidateRow (ct_columns table)) vals,
                    vo_stored = map_option (toValidateRow (ct_columns table)) storedValues\<rparr> actorId part of
             ValidatorAccepts \<Rightarrow> None
           | ValidationRejection code msg details \<Rightarrow> Some (OpError i code msg False details)
           | ValidatorThrows msg \<Rightarrow>
               Some (errorRecord i ''sync.constraint_violation''
                 (js ''write validator for table '' @ quote_string (ct_name table) @ js '' threw: '' @ msg))))"

text \<open>The loop over the CRDT columns; \<open>Inl\<close> is the terminating record.\<close>

fun mergeLoop ::
    "push_env \<Rightarrow> RowValue list option \<Rightarrow> int \<Rightarrow> (nat \<times> jsstring) list \<Rightarrow> RowValue list \<Rightarrow> bool
     \<Rightarrow> PushOperationResult + (bool \<times> RowValue list)" where
  "mergeLoop env storedValues i [] vals changed = Inr (changed, vals)"
| "mergeLoop env storedValues i ((index, crdtType) # rest) vals changed =
     (case at vals index of
        Some (VBytes incoming) \<Rightarrow>
          (case pv_crdtMergers env crdtType of
             None \<Rightarrow> Inl (errorRecord i ''sync.crdt_merge_failed''
                       (js ''no CRDT merger registered for crdtType '' @ quote_string crdtType @ js '' ('' @ sect ''5.10.2)''))
           | Some merger \<Rightarrow>
               (let stored = (case storedValues of
                      None \<Rightarrow> None
                    | Some svs \<Rightarrow> (case at svs index of Some (VBytes b) \<Rightarrow> Some b | _ \<Rightarrow> None)) in
                case merger stored incoming of
                  Inl msg \<Rightarrow> Inl (errorRecord i ''sync.crdt_merge_failed''
                               (js ''CRDT merger for '' @ quote_string crdtType @ js '' threw: '' @ msg))
                | Inr merged \<Rightarrow> mergeLoop env storedValues i rest (vals[index := VBytes merged]) True))
      | _ \<Rightarrow> mergeLoop env storedValues i rest vals changed)"

definition mergeCrdtColumns ::
    "push_env \<Rightarrow> CompiledTable \<Rightarrow> RowValue list \<Rightarrow> RowValue list option \<Rightarrow> int \<Rightarrow> PushOperationResult + (bool \<times> RowValue list)" where
  "mergeCrdtColumns env table vals storedValues i =
     (if ct_crdtColumns table = [] then Inr (False, vals)
      else mergeLoop env storedValues i (ct_crdtColumns table) vals False)"

definition checkAndRecordBlobs ::
    "push_env \<Rightarrow> SqliteTransaction \<Rightarrow> CompiledTable \<Rightarrow> jsstring \<Rightarrow> RowValue list \<Rightarrow> int \<Rightarrow> jsstring
     \<Rightarrow> PushThrow + (PushOperationResult option \<times> SqliteTransaction)" where
  "checkAndRecordBlobs env tx table rowId vals i part =
     (if ct_blobRefColumnIndices table = [] then Inr (None, tx)
      else bindE (liftD (blobIdsInRow table vals)) (\<lambda>blobIds.
        (let missing =
               (if blobIds = [] then None
                else (case pv_blobs env of
                  None \<Rightarrow> Some (js ''row references a blob but the server has no blob store ('' @ sect ''5.9.6)'')
                | Some has \<Rightarrow>
                    map_option (\<lambda>b. js ''push references blob '' @ b @ js '' which has not been uploaded ('' @ sect ''5.9.6)'')
                      (find (\<lambda>b. \<not> has part b) blobIds))) in
         case missing of
           Some msg \<Rightarrow> Inr (Some (errorRecord i ''blob.not_found'' msg), tx)
         | None \<Rightarrow> bindE (liftS (setBlobRefs tx (ct_name table) rowId blobIds)) (\<lambda>tx'. Inr (None, tx')))))"

definition missingScopeVariable :: "CompiledTable \<Rightarrow> StoredScopes \<Rightarrow> jsstring option" where
  "missingScopeVariable table scopes =
     map_option sp_variable (find (\<lambda>p. case map_of scopes (sp_variable p) of None \<Rightarrow> True | Some v \<Rightarrow> v = [])
       (ct_scopePatterns table))"

section \<open>One operation\<close>

text \<open>
  \<open>a === b\<close> on row values: two byte arrays decoded from two payloads are never the same object,
  \<open>NaN\<close> differs from itself and the two zeros are equal.
\<close>

fun strict_eq :: "RowValue \<Rightarrow> RowValue \<Rightarrow> bool" where
  "strict_eq (VBytes a) (VBytes b) \<longleftrightarrow> False"
| "strict_eq (VNumber x) (VNumber y) \<longleftrightarrow>
     \<not> (unat x div 2 ^ 52 mod 2048 = 2047 \<and> unat x mod 2 ^ 52 \<noteq> 0) \<and> (x = y \<or> x \<in> {0, negative_zero} \<and> y \<in> {0, negative_zero})"
| "strict_eq a b \<longleftrightarrow> a = b"

text \<open>Scope columns keep the stored value; the flag says whether a value was replaced.\<close>

fun keepScopes :: "CompiledScopePattern list \<Rightarrow> RowValue list \<Rightarrow> RowValue list \<Rightarrow> bool \<Rightarrow> bool \<times> RowValue list" where
  "keepScopes [] storedValues vals mutated = (mutated, vals)"
| "keepScopes (pattern # ps) storedValues vals mutated =
     (let storedValue = (case at storedValues (sp_columnIndex pattern) of None \<Rightarrow> VNull | Some v \<Rightarrow> v) in
      if (case at vals (sp_columnIndex pattern) of None \<Rightarrow> False | Some v \<Rightarrow> strict_eq v storedValue)
      then keepScopes ps storedValues vals mutated
      else keepScopes ps storedValues (vals[sp_columnIndex pattern := storedValue]) True)"

definition commit_op ::
    "int \<Rightarrow> OpKind \<Rightarrow> jsstring \<Rightarrow> jsstring \<Rightarrow> ValidateRow option \<Rightarrow> ValidateRow option \<Rightarrow> int option \<Rightarrow> int option
     \<Rightarrow> ValidateCommitOperation" where
  "commit_op i op table rowId row stored storedVersion nextVersion =
     \<lparr>vo_op = op, vo_table = table, vo_rowId = rowId, vo_row = row, vo_stored = stored, vc_opIndex = i,
      vc_storedServerVersion = storedVersion, vc_nextServerVersion = nextVersion\<rparr>"

definition denied :: "string \<Rightarrow> jsstring" where
  "denied what = js what @ js '' denied by scope authorization ('' @ sect ''3.4)''"

definition applyDelete ::
    "push_env \<Rightarrow> SqliteTransaction \<Rightarrow> CompiledTable \<Rightarrow> ResolvedScopes \<Rightarrow> PushOperation \<Rightarrow> StoredRow option \<Rightarrow> int
     \<Rightarrow> jsstring \<Rightarrow> jsstring \<Rightarrow> PushThrow + (OperationOutcome \<times> SqliteTransaction)" where
  "applyDelete env tx table resolved op stored i part actorId =
     (case stored of
        None \<Rightarrow> Inr (Applied None (commit_op i Delete (ct_name table) (po_rowId op) None None None None), tx)
      | Some row \<Rightarrow>
          if \<not> authorizeWrite table (st_scopes row) resolved
          then Inr (Terminate (errorRecord i ''sync.forbidden'' (denied ''delete'')), tx)
          else (case missingScopeVariable table (st_scopes row) of
            Some missing \<Rightarrow> Inr (Terminate (errorRecord i ''sync.missing_scopes''
                (js ''stored row lacks scope variable '' @ quote_string missing @ js '' ('' @ sect ''3.1)'')), tx)
          | None \<Rightarrow>
              bindE (liftD (decodeRow (ct_columns table) (st_payload row))) (\<lambda>storedValues.
                case runValidator env table Delete (po_rowId op) None (Some storedValues) i part actorId of
                  Some rejected \<Rightarrow> Inr (Terminate rejected, tx)
                | None \<Rightarrow>
                    bindE (liftS (deleteRow tx (po_table op) (po_rowId op))) (\<lambda>tx'.
                      Inr (Applied (Some \<lparr>ch_table = po_table op, ch_rowId = po_rowId op, ch_op = Delete,
                                          ch_rowVersion = None, ch_scopes = st_scopes row, ch_payload = None\<rparr>)
                             (commit_op i Delete (ct_name table) (po_rowId op) None
                               (Some (toValidateRow (ct_columns table) storedValues)) (Some (st_serverVersion row)) None), tx')))))"

text \<open>
  The common end of the update and the insert path: blobs, validator, write. \<open>stored\<close> is the
  decoded stored row and its version on an update.
\<close>

definition finishUpsert ::
    "push_env \<Rightarrow> SqliteTransaction \<Rightarrow> CompiledTable \<Rightarrow> PushOperation \<Rightarrow> int \<Rightarrow> jsstring \<Rightarrow> jsstring
     \<Rightarrow> RowValue list \<Rightarrow> byte list \<Rightarrow> StoredScopes \<Rightarrow> int \<Rightarrow> (RowValue list \<times> int) option
     \<Rightarrow> PushThrow + (OperationOutcome \<times> SqliteTransaction)" where
  "finishUpsert env tx table op i part actorId vals newPayload scopes newVersion stored =
     bindE (checkAndRecordBlobs env tx table (po_rowId op) vals i part) (\<lambda>(blobCheck, tx1).
       case blobCheck of
         Some rejected \<Rightarrow> Inr (Terminate rejected, tx1)
       | None \<Rightarrow>
           (case runValidator env table Upsert (po_rowId op) (Some vals) (map_option fst stored) i part actorId of
              Some rejected \<Rightarrow> Inr (Terminate rejected, tx1)
            | None \<Rightarrow>
                bindE (liftS (upsertRow (pv_constraint_fails env) tx1 (po_table op)
                  \<lparr>st_rowId = po_rowId op, st_serverVersion = newVersion, st_scopes = scopes, st_payload = newPayload\<rparr> i)) (\<lambda>tx2.
                Inr (Applied (Some \<lparr>ch_table = po_table op, ch_rowId = po_rowId op, ch_op = Upsert,
                                    ch_rowVersion = Some newVersion, ch_scopes = scopes, ch_payload = Some newPayload\<rparr>)
                       (commit_op i Upsert (ct_name table) (po_rowId op) (Some (toValidateRow (ct_columns table) vals))
                         (map_option (\<lambda>(svs, _). toValidateRow (ct_columns table) svs) stored) (map_option snd stored)
                         (Some newVersion)), tx2))))"

definition applyUpdate ::
    "push_env \<Rightarrow> SqliteTransaction \<Rightarrow> CompiledTable \<Rightarrow> ResolvedScopes \<Rightarrow> PushOperation \<Rightarrow> StoredRow \<Rightarrow> RowValue list \<Rightarrow> byte list
     \<Rightarrow> int \<Rightarrow> jsstring \<Rightarrow> jsstring \<Rightarrow> PushThrow + (OperationOutcome \<times> SqliteTransaction)" where
  "applyUpdate env tx table resolved op row vals payload i part actorId =
     (if \<not> authorizeWrite table (st_scopes row) resolved
      then Inr (Terminate (errorRecord i ''sync.forbidden'' (denied ''write'')), tx)
      else if po_baseVersion op = Some 0
      then Inr (Terminate (conflictRecord i (st_serverVersion row) (st_payload row)), tx)
      else if po_baseVersion op \<noteq> None \<and> po_baseVersion op \<noteq> Some (st_serverVersion row)
      then Inr (Terminate (conflictRecord i (st_serverVersion row) (st_payload row)), tx)
      else
        bindE (liftD (decodeRow (ct_columns table) (st_payload row))) (\<lambda>storedValues.
          (let (mutated, vals1) = keepScopes (ct_scopePatterns table) storedValues vals False in
           case mergeCrdtColumns env table vals1 (Some storedValues) i of
             Inl rejected \<Rightarrow> Inr (Terminate rejected, tx)
           | Inr (changed, vals2) \<Rightarrow>
               bindE (liftD (if mutated \<or> changed then encodeRow (ct_columns table) vals2 else Inr payload)) (\<lambda>newPayload.
                 finishUpsert env tx table op i part actorId vals2 newPayload (st_scopes row)
                   (st_serverVersion row + 1) (Some (storedValues, st_serverVersion row))))))"

definition applyInsert ::
    "push_env \<Rightarrow> SqliteTransaction \<Rightarrow> CompiledTable \<Rightarrow> ResolvedScopes \<Rightarrow> PushOperation \<Rightarrow> RowValue list \<Rightarrow> byte list
     \<Rightarrow> int \<Rightarrow> jsstring \<Rightarrow> jsstring \<Rightarrow> PushThrow + (OperationOutcome \<times> SqliteTransaction)" where
  "applyInsert env tx table resolved op vals payload i part actorId =
     (if po_baseVersion op \<noteq> None \<and> po_baseVersion op \<noteq> Some 0 then
        (case storedScopesForRow table vals of
           Inl missing \<Rightarrow> Inr (Terminate (errorRecord i ''sync.forbidden'' (denied ''write'')), tx)
         | Inr scopes \<Rightarrow>
             if \<not> authorizeWrite table scopes resolved
             then Inr (Terminate (errorRecord i ''sync.forbidden'' (denied ''write'')), tx)
             else Inr (Terminate (errorRecord i ''sync.row_missing''
                    (js ''upsert with baseVersion targets an absent row ('' @ sect ''6.2)'')), tx))
      else
        (case storedScopesForRow table vals of
           Inl missing \<Rightarrow> Inr (Terminate (errorRecord i ''sync.forbidden''
               (js ''insert missing scope column value for '' @ quote_string missing @ js '' ('' @ sect ''3.4)'')), tx)
         | Inr scopes \<Rightarrow>
             if \<not> authorizeWrite table scopes resolved
             then Inr (Terminate (errorRecord i ''sync.forbidden'' (denied ''insert'')), tx)
             else (case mergeCrdtColumns env table vals None i of
                 Inl rejected \<Rightarrow> Inr (Terminate rejected, tx)
               | Inr (changed, vals1) \<Rightarrow>
                   bindE (liftD (if changed then encodeRow (ct_columns table) vals1 else Inr payload)) (\<lambda>insertPayload.
                     finishUpsert env tx table op i part actorId vals1 insertPayload scopes 1 None))))"

definition applyOperation ::
    "push_env \<Rightarrow> SqliteTransaction \<Rightarrow> CompiledSchema \<Rightarrow> ResolvedScopes \<Rightarrow> PushOperation \<Rightarrow> int \<Rightarrow> jsstring \<Rightarrow> jsstring
     \<Rightarrow> PushThrow + (OperationOutcome \<times> SqliteTransaction)" where
  "applyOperation env tx schema resolved op i part actorId =
     (case map_of (cs_tables schema) (po_table op) of
        None \<Rightarrow> Inr (Terminate (errorRecord i ''sync.unknown_table''
                  (js ''table '' @ quote_string (po_table op) @ js '' is not handled by this server'')), tx)
      | Some table \<Rightarrow>
          if resolved = ResolvedFailed
          then Inr (Terminate (errorRecord i ''sync.forbidden'' (js ''scope resolution failed ('' @ sect ''3.4 step 4)'')), tx)
          else bindE (liftS (tx_getRow tx (po_table op) (po_rowId op))) (\<lambda>stored.
            if po_op op = Delete then applyDelete env tx table resolved op stored i part actorId
            else (case po_payload op of
              None \<Rightarrow> Inr (Terminate (errorRecord i ''sync.invalid_request'' (js ''upsert without payload'')), tx)
            | Some payload \<Rightarrow>
                (case decodeRow (ct_columns table) payload of
                   Inl e \<Rightarrow> Inr (Terminate (errorRecord i ''sync.invalid_request''
                       (js ''row payload failed row-codec decode ('' @ sect ''1.7): '' @ pv_errorText env e)), tx)
                 | Inr vals \<Rightarrow>
                     if renderScopeValue (at vals (ct_primaryKeyIndex table)) \<noteq> Some (po_rowId op)
                     then Inr (Terminate (errorRecord i ''sync.invalid_request''
                            (js ''payload primary key does not match rowId'')), tx)
                     else (case stored of
                         Some row \<Rightarrow> applyUpdate env tx table resolved op row vals payload i part actorId
                       | None \<Rightarrow> applyInsert env tx table resolved op vals payload i part actorId)))))"

section \<open>The whole commit\<close>

definition runCommitValidator ::
    "push_env \<Rightarrow> db \<Rightarrow> ValidateCommitInput \<Rightarrow> PushOperationResult option" where
  "runCommitValidator env d input =
     (case pv_commitValidator env of
        None \<Rightarrow> None
      | Some validator \<Rightarrow>
          (let firstIndex = (case vi_operations input of [] \<Rightarrow> 0 | o1 # _ \<Rightarrow> vc_opIndex o1) in
           case validator input d of
             CommitAccepts \<Rightarrow> None
           | CommitValidationRejection i code msg details \<Rightarrow>
               if i \<ge> int (length (vi_operations input))
               then Some (errorRecord 0 ''sync.constraint_violation''
                      (js ''commit validator rejection names unavailable opIndex '' @ int_to_string i))
               else Some (OpError i code msg False details)
           | CommitPlainRejection code msg details \<Rightarrow> Some (OpError firstIndex code msg False details)
           | CommitValidatorThrows msg \<Rightarrow>
               Some (errorRecord firstIndex ''sync.constraint_violation'' (js ''whole-commit validator threw: '' @ msg))))"

definition resultFrame :: "jsstring \<Rightarrow> StoredPushResult \<Rightarrow> bool \<Rightarrow> PushResultFrame" where
  "resultFrame clientCommitId stored replay =
     \<lparr>pr_clientCommitId = clientCommitId,
      pr_status = (if spr_status stored = StApplied then (if replay then PushCached else PushApplied) else PushRejected),
      pr_commitSeq = (if spr_status stored = StApplied then spr_commitSeq stored else None),
      pr_results = spr_results stored\<rparr>"

record ProcessedPushCommit =
  pc_frame :: PushResultFrame
  pc_replayed :: bool
  pc_recordedAtMs :: "int option"
  pc_cacheIdentity :: "jsstring option"

definition processedPushCommit :: "jsstring \<Rightarrow> StoredPushResult \<Rightarrow> bool \<Rightarrow> ProcessedPushCommit" where
  "processedPushCommit clientCommitId stored replayed =
     \<lparr>pc_frame = resultFrame clientCommitId stored replayed, pc_replayed = replayed,
      pc_recordedAtMs = spr_recordedAtMs stored, pc_cacheIdentity = spr_cacheIdentity stored\<rparr>"

definition newStoredPushResult :: "int \<Rightarrow> jsstring \<Rightarrow> StoredStatus \<Rightarrow> int option \<Rightarrow> PushOperationResult list \<Rightarrow> StoredPushResult" where
  "newStoredPushResult recordedAtMs uuid status commitSeq results =
     \<lparr>spr_status = status, spr_commitSeq = commitSeq, spr_recordedAtMs = Some recordedAtMs,
      spr_cacheIdentity = Some uuid, spr_results = results\<rparr>"

definition idempotencyCacheMiss :: "jsstring \<Rightarrow> ProcessedPushCommit" where
  "idempotencyCacheMiss clientCommitId =
     \<lparr>pc_frame = \<lparr>pr_clientCommitId = clientCommitId, pr_status = PushRejected, pr_commitSeq = None,
        pr_results = [OpError 0 (js ''sync.idempotency_cache_miss'')
          (js ''persisted push result unreadable ('' @ sect ''6.3)'') True None]\<rparr>,
      pc_replayed = False, pc_recordedAtMs = None, pc_cacheIdentity = None\<rparr>"

text \<open>
  The loop over the operations: \<open>Inl\<close> of the inner sum is the record that terminated it.
\<close>

record applied_ops =
  ao_results :: "PushOperationResult list"
  ao_changes :: "NewChange list"
  ao_operations :: "ValidateCommitOperation list"

fun applyLoop ::
    "push_env \<Rightarrow> CompiledSchema \<Rightarrow> ResolvedScopes \<Rightarrow> jsstring \<Rightarrow> jsstring \<Rightarrow> PushOperation list \<Rightarrow> int \<Rightarrow> SqliteTransaction \<Rightarrow> applied_ops
     \<Rightarrow> PushThrow + ((PushOperationResult + applied_ops) \<times> SqliteTransaction)" where
  "applyLoop env schema resolved part actorId [] i tx acc = Inr (Inr acc, tx)"
| "applyLoop env schema resolved part actorId (op # ops) i tx acc =
     bindE (applyOperation env tx schema resolved op i part actorId) (\<lambda>(outcome, tx').
       case outcome of
         Terminate r \<Rightarrow> Inr (Inl r, tx')
       | Applied change operation \<Rightarrow>
           applyLoop env schema resolved part actorId ops (i + 1) tx'
             \<lparr>ao_results = ao_results acc @ [OpApplied i],
              ao_changes = ao_changes acc @ (case change of None \<Rightarrow> [] | Some c \<Rightarrow> [c]),
              ao_operations = ao_operations acc @ [operation]\<rparr>)"

text \<open>The identity of the request.\<close>

record push_request =
  rq_part :: jsstring
  rq_actorId :: jsstring
  rq_clientId :: jsstring
  rq_clientCommitId :: jsstring
  rq_resolved :: ResolvedScopes
  rq_createdAtMs :: int
  rq_uuid :: jsstring

definition commit_input :: "push_request \<Rightarrow> ValidateCommitOperation list \<Rightarrow> ValidateCommitInput" where
  "commit_input req ops = \<lparr>vi_clientId = rq_clientId req, vi_clientCommitId = rq_clientCommitId req,
     vi_actorId = rq_actorId req, vi_part = rq_part req, vi_operations = ops\<rparr>"

text \<open>The reactions the planner asks for, prepared for the queue.\<close>

definition plannedReactions :: "push_env \<Rightarrow> push_request \<Rightarrow> ValidateCommitOperation list \<Rightarrow> db \<Rightarrow> PushThrow + PreparedReaction list" where
  "plannedReactions env req operations d =
     (case pv_reactionPlanner env of
        None \<Rightarrow> Inr []
      | Some planner \<Rightarrow>
          (case prepareReactions (pv_collate env) (rq_part req) (rq_clientId req) (rq_clientCommitId req)
                  (planner (commit_input req operations) d) of
             Inl e \<Rightarrow> Inl (ThrowReaction e) | Inr ps \<Rightarrow> Inr ps))"

text \<open>The log entry, the queued reactions, the recorded outcome and the commit of the transaction.\<close>

definition commitPush ::
    "push_request \<Rightarrow> applied_ops \<Rightarrow> PreparedReaction list \<Rightarrow> SqliteTransaction
     \<Rightarrow> StorageError + ((StoredPushResult \<times> StoredCommit \<times> StoredReaction list) \<times> SqliteTransaction)" where
  "commitPush req acc prepared tx1 =
     bindE (appendCommit tx1 \<lparr>nc_clientId = rq_clientId req, nc_clientCommitId = rq_clientCommitId req,
              nc_actorId = rq_actorId req, nc_createdAtMs = rq_createdAtMs req, nc_changes = ao_changes acc\<rparr>) (\<lambda>(commitSeq, tx2).
     (let newReactions = toNewReactions prepared (rq_clientId req) (rq_clientCommitId req) commitSeq (rq_createdAtMs req);
          stored = newStoredPushResult (rq_createdAtMs req) (rq_uuid req) StApplied (Some commitSeq) (ao_results acc) in
      bindE (if newReactions = [] then Inr tx2 else enqueueReactions tx2 newReactions) (\<lambda>tx3.
      bindE (putPushResult tx3 (rq_clientId req) (rq_clientCommitId req) stored) (\<lambda>tx4.
      bindE (commit_tx tx4) (\<lambda>tx5.
      Inr ((stored, \<lparr>cm_commitSeq = commitSeq, cm_createdAtMs = rq_createdAtMs req,
                     cm_actorId = rq_actorId req, cm_changes = ao_changes acc\<rparr>, newReactions), tx5))))))"

text \<open>
  The transaction body after the lock and the second lookup: the operations, the commit
  validator, the planner and the commit; \<open>Inl\<close> of the inner sum is a terminating record.
\<close>

definition pushBody ::
    "push_env \<Rightarrow> CompiledSchema \<Rightarrow> push_request \<Rightarrow> (SqliteTransaction \<Rightarrow> PushThrow + PushOperation list) \<Rightarrow> SqliteTransaction
     \<Rightarrow> PushThrow + ((PushOperationResult + (StoredPushResult \<times> StoredCommit \<times> StoredReaction list)) \<times> SqliteTransaction)" where
  "pushBody env schema req buildOperations tx =
     bindE (buildOperations tx) (\<lambda>operations.
     bindE (applyLoop env schema (rq_resolved req) (rq_part req) (rq_actorId req) operations 0 tx
              \<lparr>ao_results = [], ao_changes = [], ao_operations = []\<rparr>) (\<lambda>(loop, tx1).
       case loop of
         Inl r \<Rightarrow> Inr (Inl r, tx1)
       | Inr acc \<Rightarrow>
           (case runCommitValidator env (tx_db tx1) (commit_input req (ao_operations acc)) of
              Some r \<Rightarrow> Inr (Inl r, tx1)
            | None \<Rightarrow>
                bindE (plannedReactions env req (ao_operations acc) (tx_db tx1)) (\<lambda>prepared.
                bindE (liftS (commitPush req acc prepared tx1)) (\<lambda>(committed, tx2).
                Inr (Inr committed, tx2))))))"

record push_outcome =
  po_db :: db
  po_result :: "PushThrow + ProcessedPushCommit"
  po_notify :: "StoredCommit option"
  po_queued :: "StoredReaction list"

text \<open>
  Recording a rejection: the writes are rolled back to the savepoint and the outcome is stored
  in the same transaction; then the stored outcome is read back.
\<close>

definition finalizeRejection :: "push_request \<Rightarrow> PushOperationResult \<Rightarrow> SqliteTransaction \<Rightarrow> push_outcome" where
  "finalizeRejection req rejected tx =
     (let stored = newStoredPushResult (rq_createdAtMs req) (rq_uuid req) StRejected None [rejected] in
      case commitRejectedPushResult tx (rq_clientId req) (rq_clientCommitId req) stored of
        Inl e \<Rightarrow> \<lparr>po_db = tx_db (rollback_tx tx), po_result = Inl (ThrowStorage e), po_notify = None, po_queued = []\<rparr>
      | Inr tx' \<Rightarrow>
          (case getPushResult (tx_db tx') (rq_part req) (rq_clientId req) (rq_clientCommitId req) of
             FoundPushResult canonical \<Rightarrow>
               \<lparr>po_db = tx_db tx', po_result = Inr (processedPushCommit (rq_clientCommitId req) canonical
                  (spr_cacheIdentity canonical \<noteq> spr_cacheIdentity stored)), po_notify = None, po_queued = []\<rparr>
           | _ \<Rightarrow> \<lparr>po_db = tx_db tx', po_result = Inl ThrowBuilder, po_notify = None, po_queued = []\<rparr>))"

text \<open>
  \<open>d0\<close> is the database at the first, optimistic lookup and \<open>d\<close> the one when the partition lock
  is held: other deliveries may have committed in between.
\<close>

definition processPushOperationsWithTrace ::
    "push_env \<Rightarrow> CompiledSchema \<Rightarrow> push_request \<Rightarrow> (SqliteTransaction \<Rightarrow> PushThrow + PushOperation list) \<Rightarrow> db \<Rightarrow> db \<Rightarrow> push_outcome" where
  "processPushOperationsWithTrace env schema req buildOperations d0 d =
     (let answer = (\<lambda>r. \<lparr>po_db = d, po_result = Inr r, po_notify = None, po_queued = []\<rparr>) in
      case getPushResult d0 (rq_part req) (rq_clientId req) (rq_clientCommitId req) of
        UnreadablePushResult \<Rightarrow> answer (idempotencyCacheMiss (rq_clientCommitId req))
      | FoundPushResult persisted \<Rightarrow> answer (processedPushCommit (rq_clientCommitId req) persisted True)
      | NoPushResult \<Rightarrow>
          (case lockPartitionForPush (begin_tx d (rq_part req)) of
             Inl e \<Rightarrow> \<lparr>po_db = d, po_result = Inl (ThrowStorage e), po_notify = None, po_queued = []\<rparr>
           | Inr tx \<Rightarrow>
               (case tx_getPushResult tx (rq_clientId req) (rq_clientCommitId req) of
                  Inl e \<Rightarrow> \<lparr>po_db = d, po_result = Inl (ThrowStorage e), po_notify = None, po_queued = []\<rparr>
                | Inr (FoundPushResult persisted) \<Rightarrow> answer (processedPushCommit (rq_clientCommitId req) persisted True)
                | Inr UnreadablePushResult \<Rightarrow> answer (idempotencyCacheMiss (rq_clientCommitId req))
                | Inr NoPushResult \<Rightarrow>
                    (case pushBody env schema req buildOperations tx of
                       Inr (Inl rejected, tx') \<Rightarrow> finalizeRejection req rejected tx'
                     | Inr (Inr (stored, commit, reactions), tx') \<Rightarrow>
                         \<lparr>po_db = tx_db tx', po_result = Inr (processedPushCommit (rq_clientCommitId req) stored False),
                          po_notify = (if cm_changes commit = [] then None else Some commit), po_queued = reactions\<rparr>
                     | Inl (ThrowStorage (StorageConstraintError opIx)) \<Rightarrow>
                         finalizeRejection req (OpError (case opIx of None \<Rightarrow> 0 | Some i \<Rightarrow> i)
                           (js ''sync.constraint_violation'') (js ''write violates a relational constraint'') False None) tx
                     | Inl e \<Rightarrow> \<lparr>po_db = d, po_result = Inl e, po_notify = None, po_queued = []\<rparr>))))"

definition processPushCommit :: "push_env \<Rightarrow> CompiledSchema \<Rightarrow> push_request \<Rightarrow> PushCommitFrame \<Rightarrow> db \<Rightarrow> db \<Rightarrow> push_outcome" where
  "processPushCommit env schema req frame d0 d =
     processPushOperationsWithTrace env schema (req\<lparr>rq_clientCommitId := pc_clientCommitId frame\<rparr>)
       (\<lambda>tx. Inr (pc_operations frame)) d0 d"

end
