(* ===== verification/Push_Correct.thy ===== *)
theory Push_Correct
  imports Push
begin

text \<open>
  What a push does to the database. The lemmas go from one operation over the loop to the whole
  commit: only rows named by the commit's own changes move, every change is lawful (authorized
  against the stored row when there is one, scopes kept, version counted up), a commit that does
  not apply leaves the data untouched, and an outcome once recorded is replayed.
\<close>

section \<open>What an operation may touch\<close>

text \<open>The tables a row operation leaves alone.\<close>

definition same_log :: "db \<Rightarrow> db \<Rightarrow> bool" where
  "same_log d d' \<longleftrightarrow>
     db_tables d' = db_tables d \<and> db_partitions d' = db_partitions d \<and> db_registry d' = db_registry d \<and>
     db_commits d' = db_commits d \<and> db_changes d' = db_changes d \<and> db_change_scopes d' = db_change_scopes d \<and>
     db_push_results d' = db_push_results d \<and> db_reactions d' = db_reactions d \<and> db_clients d' = db_clients d"

lemma same_log_refl [simp]: "same_log d d"
  by (simp add: same_log_def)

lemma same_log_trans: "same_log a b \<Longrightarrow> same_log b c \<Longrightarrow> same_log a c"
  by (simp add: same_log_def)

lemma same_log_ok: "same_log d d' \<Longrightarrow> log_ok d' = log_ok d"
  by (simp add: same_log_def log_ok_def getMaxCommitSeq_def getHorizonSeq_def)

lemma same_log_seqs:
  "same_log d d' \<Longrightarrow> getMaxCommitSeq d' p = getMaxCommitSeq d p"
  "same_log d d' \<Longrightarrow> getHorizonSeq d' p = getHorizonSeq d p"
  by (simp_all add: same_log_def getMaxCommitSeq_def getHorizonSeq_def)

lemma put_row_log [simp]: "same_log d (put_row v d)"
  by (cases v) (simp add: same_log_def put_row_def)

lemma remove_row_log [simp]: "same_log d (remove_row k d)"
  by (cases k) (simp add: same_log_def remove_row_def)

text \<open>The effect of a logged change on the row tables.\<close>

definition row_change_of :: "jsstring \<Rightarrow> NewChange \<Rightarrow> (row_key, placed_row) row_change" where
  "row_change_of p c =
     (case ch_op c of
        Delete \<Rightarrow> Del (p, ch_table c, ch_rowId c)
      | Upsert \<Rightarrow> Put (p, ch_table c,
          \<lparr>st_rowId = ch_rowId c, st_serverVersion = (case ch_rowVersion c of None \<Rightarrow> 0 | Some v \<Rightarrow> v),
           st_scopes = ch_scopes c, st_payload = (case ch_payload c of None \<Rightarrow> [] | Some b \<Rightarrow> b)\<rparr>))"

abbreviation apply_change :: "jsstring \<Rightarrow> NewChange \<Rightarrow> (row_key \<Rightarrow> placed_row option) \<Rightarrow> (row_key \<Rightarrow> placed_row option)" where
  "apply_change p c \<equiv> change_map placed_key (row_change_of p c)"

text \<open>
  A lawful change: it is authorized by the resolved scopes; over a stored row it keeps the
  row's scopes and counts its version up by one; without a stored row it is the insert of
  version one under a well-formed row id. A delete always removes a stored row.
\<close>

definition lawful_change ::
    "CompiledSchema \<Rightarrow> ResolvedScopes \<Rightarrow> jsstring \<Rightarrow> (row_key \<Rightarrow> placed_row option) \<Rightarrow> NewChange \<Rightarrow> bool" where
  "lawful_change schema resolved p m c \<longleftrightarrow>
     (case map_of (cs_tables schema) (ch_table c) of
        None \<Rightarrow> False | Some table \<Rightarrow> authorizeWrite table (ch_scopes c) resolved) \<and>
     (case m (p, ch_table c, ch_rowId c) of
        None \<Rightarrow> ch_op c = Upsert \<and> ch_rowVersion c = Some 1 \<and> ch_payload c \<noteq> None \<and> well_formed (ch_rowId c) \<and> ch_rowId c \<noteq> []
      | Some (_, _, row) \<Rightarrow> ch_scopes c = st_scopes row \<and>
          (if ch_op c = Upsert then ch_rowVersion c = Some (st_serverVersion row + 1) \<and> ch_payload c \<noteq> None
           else ch_rowVersion c = None \<and> ch_payload c = None))"

fun lawful_changes ::
    "CompiledSchema \<Rightarrow> ResolvedScopes \<Rightarrow> jsstring \<Rightarrow> (row_key \<Rightarrow> placed_row option) \<Rightarrow> NewChange list \<Rightarrow> bool" where
  "lawful_changes schema resolved p m [] \<longleftrightarrow> True"
| "lawful_changes schema resolved p m (c # cs) \<longleftrightarrow>
     lawful_change schema resolved p m c \<and> lawful_changes schema resolved p (apply_change p c m) cs"

lemma lawful_changes_append:
  "lawful_changes schema resolved p m (xs @ ys) \<longleftrightarrow>
     lawful_changes schema resolved p m xs \<and> lawful_changes schema resolved p (fold (apply_change p) xs m) ys"
  by (induction xs arbitrary: m) auto

text \<open>The transaction frame of an operation: it stays open, on the same snapshots.\<close>

definition tx_step :: "SqliteTransaction \<Rightarrow> SqliteTransaction \<Rightarrow> bool" where
  "tx_step tx tx' \<longleftrightarrow> tx' = tx\<lparr>tx_db := tx_db tx'\<rparr> \<and> same_log (tx_db tx) (tx_db tx') \<and>
     (rows_ok (tx_db tx) \<longrightarrow> rows_ok (tx_db tx'))"

lemma tx_step_refl [simp]: "tx_step tx tx"
  by (simp add: tx_step_def)

lemma tx_step_trans: "tx_step a b \<Longrightarrow> tx_step b c \<Longrightarrow> tx_step a c"
  by (cases a; cases b; cases c) (auto simp: tx_step_def intro: same_log_trans)

lemma tx_step_fields:
  "tx_step tx tx' \<Longrightarrow> tx_partition tx' = tx_partition tx \<and> tx_open tx' = tx_open tx \<and> tx_begin tx' = tx_begin tx
     \<and> tx_savepoint tx' = tx_savepoint tx"
  by (cases tx; cases tx') (auto simp: tx_step_def)

lemma storage_writeRow_Inr:
  "storage_writeRow cf p table row d = Inr d' \<Longrightarrow> d' = put_row (p, table, row) d"
  unfolding storage_writeRow_def bindE_eq_Inr
  by (elim exE conjE, split sum.split_asm) (auto split: if_split_asm)

lemma upsertRow_Inr:
  assumes "upsertRow cf tx table row i = Inr tx'"
  shows "tx' = tx\<lparr>tx_db := put_row (tx_partition tx, table, row) (tx_db tx)\<rparr>"
  using assms storage_writeRow_Inr
  by (auto simp: upsertRow_def bindE_eq_Inr split: sum.splits StorageError.splits)

lemma deleteRow_Inr:
  assumes "deleteRow tx table rowId = Inr tx'"
  shows "tx' = tx\<lparr>tx_db := remove_row (tx_partition tx, table, rowId) (tx_db tx)\<rparr>"
  using assms by (auto simp: deleteRow_def bindE_eq_Inr)

lemma setBlobRefs_Inr:
  assumes "setBlobRefs tx table rowId ids = Inr tx'"
  shows "tx_step tx tx' \<and> placed_row_at (tx_db tx') = placed_row_at (tx_db tx)"
  using assms
  by (auto simp: setBlobRefs_def bindE_eq_Inr Let_def tx_step_def same_log_def rows_ok_def placed_row_at_def fun_eq_iff)

lemma checkAndRecordBlobs_Inr:
  assumes "checkAndRecordBlobs env tx table rowId vals i part = Inr (r, tx')"
  shows "tx_step tx tx' \<and> placed_row_at (tx_db tx') = placed_row_at (tx_db tx)"
  using assms setBlobRefs_Inr
  by (auto simp: checkAndRecordBlobs_def bindE_eq_Inr lift_eq_Inr Let_def split: if_splits option.splits)

lemma tx_step_put [simp]: "tx_step tx (tx\<lparr>tx_db := put_row v (tx_db tx)\<rparr>)"
  by (simp add: tx_step_def put_row_ok)

lemma tx_step_remove [simp]: "tx_step tx (tx\<lparr>tx_db := remove_row k (tx_db tx)\<rparr>)"
  by (simp add: tx_step_def remove_row_ok)

section \<open>One operation\<close>

text \<open>A row id taken from a decoded row is not empty and well-formed.\<close>

lemma renderScopeValue_wf:
  assumes "decodeRow columns bs = Inr vals" and "renderScopeValue (at vals i) = Some r"
  shows "well_formed r \<and> r \<noteq> []"
proof -
  obtain v where v: "v \<in> set vals" "renderScopeValue (Some v) = Some r"
  proof (cases "i < length vals")
    case True
    then show thesis using that [of "vals ! i"] assms(2) by (simp add: at_def)
  next
    case False
    then show thesis using assms(2) by (simp add: at_def renderScopeValue_def)
  qed
  have "well_formed r"
  proof (cases v)
    case (VString s)
    then show ?thesis using v decodeRow_wf [OF assms(1)] by (auto simp: renderScopeValue_def split: if_splits)
  next
    case (VNumber x)
    have "well_formed (number_to_string x)" using number_to_string_ascii [of x] by (intro well_formed_ascii) (simp add: ascii_def)
    then show ?thesis using v VNumber by (auto simp: renderScopeValue_def split: if_splits)
  next
    case (VBool b)
    then show ?thesis using v by (auto simp: renderScopeValue_def js_def is_high_def is_low_def split: if_splits)
  qed (use v in \<open>simp_all add: renderScopeValue_def\<close>)
  then show ?thesis using renderScopeValue_nonempty [OF assms(2)] by simp
qed

definition row_map :: "SqliteTransaction \<Rightarrow> row_key \<Rightarrow> placed_row option" where
  "row_map tx = placed_row_at (tx_db tx)"

lemma row_map_put: "row_map (tx\<lparr>tx_db := put_row v (tx_db tx)\<rparr>) = (row_map tx)(placed_key v := Some v)"
  by (simp add: row_map_def fun_eq_iff rows.get_put)

lemma row_map_remove: "row_map (tx\<lparr>tx_db := remove_row k (tx_db tx)\<rparr>) = (row_map tx)(k := None)"
  by (simp add: row_map_def fun_eq_iff rows.get_del)

text \<open>The contract of an operation on the transaction it runs in.\<close>

definition op_post :: "CompiledSchema \<Rightarrow> ResolvedScopes \<Rightarrow> SqliteTransaction \<Rightarrow> OperationOutcome \<Rightarrow> SqliteTransaction \<Rightarrow> bool" where
  "op_post schema resolved tx outcome tx' \<longleftrightarrow> tx_step tx tx' \<and>
     (case outcome of
        Terminate r \<Rightarrow> True
      | Applied change operation \<Rightarrow>
          (case change of
             None \<Rightarrow> row_map tx' = row_map tx
           | Some c \<Rightarrow> lawful_change schema resolved (tx_partition tx) (row_map tx) c \<and>
               row_map tx' = apply_change (tx_partition tx) c (row_map tx)))"

lemma op_post_terminate [simp]: "op_post schema resolved tx (Terminate r) tx' \<longleftrightarrow> tx_step tx tx'"
  by (simp add: op_post_def)

lemma finishUpsert_post:
  assumes "finishUpsert env tx table op i part actorId vals newPayload scopes newVersion stored = Inr (outcome, tx')"
    and "lawful_change schema resolved (tx_partition tx) (row_map tx)
      \<lparr>ch_table = po_table op, ch_rowId = po_rowId op, ch_op = Upsert, ch_rowVersion = Some newVersion,
       ch_scopes = scopes, ch_payload = Some newPayload\<rparr>"
  shows "op_post schema resolved tx outcome tx'"
proof -
  from assms(1) obtain blobCheck tx1 where
    blobs: "checkAndRecordBlobs env tx table (po_rowId op) vals i part = Inr (blobCheck, tx1)"
    and rest: "(case blobCheck of
         Some rejected \<Rightarrow> Inr (Terminate rejected, tx1)
       | None \<Rightarrow>
           (case runValidator env table Upsert (po_rowId op) (Some vals) (map_option fst stored) i part actorId of
              Some rejected \<Rightarrow> Inr (Terminate rejected, tx1)
            | None \<Rightarrow>
                bindE (liftS (upsertRow (pv_constraint_fails env) tx1 (po_table op)
                  \<lparr>st_rowId = po_rowId op, st_serverVersion = newVersion, st_scopes = scopes, st_payload = newPayload\<rparr> i)) (\<lambda>tx2.
                Inr (Applied (Some \<lparr>ch_table = po_table op, ch_rowId = po_rowId op, ch_op = Upsert,
                                    ch_rowVersion = Some newVersion, ch_scopes = scopes, ch_payload = Some newPayload\<rparr>)
                       (commit_op i Upsert (ct_name table) (po_rowId op) (Some (toValidateRow (ct_columns table) vals))
                         (map_option (\<lambda>(svs, _). toValidateRow (ct_columns table) svs) stored) (map_option snd stored)
                         (Some newVersion)), tx2)))) = Inr (outcome, tx')"
    by (auto simp: finishUpsert_def bindE_eq_Inr)
  have step: "tx_step tx tx1" and rows: "row_map tx1 = row_map tx"
    using checkAndRecordBlobs_Inr [OF blobs] by (simp_all add: row_map_def)
  have part: "tx_partition tx1 = tx_partition tx" using tx_step_fields [OF step] by simp
  show ?thesis
  proof (cases "\<exists>r. outcome = Terminate r")
    case True
    then show ?thesis using rest step by (auto simp: bindE_eq_Inr split: option.splits)
  next
    case False
    then obtain operation where outcome: "outcome = Applied (Some \<lparr>ch_table = po_table op, ch_rowId = po_rowId op, ch_op = Upsert,
           ch_rowVersion = Some newVersion, ch_scopes = scopes, ch_payload = Some newPayload\<rparr>) operation"
      and up: "upsertRow (pv_constraint_fails env) tx1 (po_table op)
          \<lparr>st_rowId = po_rowId op, st_serverVersion = newVersion, st_scopes = scopes, st_payload = newPayload\<rparr> i = Inr tx'"
      using rest by (auto simp: bindE_eq_Inr lift_eq_Inr split: option.splits)
    note tx' = upsertRow_Inr [OF up]
    have "tx_step tx tx'" unfolding tx' by (rule tx_step_trans [OF step tx_step_put])
    moreover have "row_map tx' = apply_change (tx_partition tx) (the (oc_change outcome)) (row_map tx)"
      unfolding tx' row_map_put rows outcome by (simp add: row_change_of_def part)
    ultimately show ?thesis using assms(2) by (simp add: op_post_def outcome)
  qed
qed

lemma tx_getRow_Inr:
  "tx_getRow tx table rowId = Inr stored \<Longrightarrow>
   row_map tx (tx_partition tx, table, rowId) = map_option (\<lambda>row. (tx_partition tx, table, row)) stored"
  using placed_row_at_key [of "tx_db tx" "(tx_partition tx, table, rowId)"]
  by (auto simp: tx_getRow_def getRow_def bindE_eq_Inr stored_row_placed row_map_def map_option_case split: option.splits)

lemma applyDelete_post:
  assumes tbl: "map_of (cs_tables schema) (po_table op) = Some table"
    and stored: "row_map tx (tx_partition tx, po_table op, po_rowId op) = map_option (\<lambda>row. (tx_partition tx, po_table op, row)) stored"
    and del: "applyDelete env tx table resolved op stored i part actorId = Inr (outcome, tx')"
  shows "op_post schema resolved tx outcome tx'"
proof (cases stored)
  case None
  then show ?thesis using del by (auto simp: applyDelete_def op_post_def)
next
  case (Some row)
  show ?thesis
  proof (cases "\<exists>r. outcome = Terminate r")
    case True
    then show ?thesis using del Some by (auto simp: applyDelete_def bindE_eq_Inr split: if_splits option.splits)
  next
    case False
    then obtain operation where outcome: "outcome = Applied (Some \<lparr>ch_table = po_table op, ch_rowId = po_rowId op, ch_op = Delete,
           ch_rowVersion = None, ch_scopes = st_scopes row, ch_payload = None\<rparr>) operation"
      and delR: "deleteRow tx (po_table op) (po_rowId op) = Inr tx'" and auth: "authorizeWrite table (st_scopes row) resolved"
      using del Some by (auto simp: applyDelete_def bindE_eq_Inr lift_eq_Inr split: if_splits option.splits)
    show ?thesis using deleteRow_Inr [OF delR] auth tbl stored
      by (simp add: op_post_def outcome row_map_remove row_change_of_def lawful_change_def Some)
  qed
qed

lemma applyUpdate_post:
  assumes tbl: "map_of (cs_tables schema) (po_table op) = Some table"
    and stored: "row_map tx (tx_partition tx, po_table op, po_rowId op) = Some (tx_partition tx, po_table op, row)"
    and upd: "applyUpdate env tx table resolved op row vals payload i part actorId = Inr (outcome, tx')"
  shows "op_post schema resolved tx outcome tx'"
proof (cases "authorizeWrite table (st_scopes row) resolved")
  case True
  then have "lawful_change schema resolved (tx_partition tx) (row_map tx)
      \<lparr>ch_table = po_table op, ch_rowId = po_rowId op, ch_op = Upsert, ch_rowVersion = Some (st_serverVersion row + 1),
       ch_scopes = st_scopes row, ch_payload = Some newPayload\<rparr>" for newPayload
    using tbl stored by (simp add: lawful_change_def)
  note finish = finishUpsert_post [OF _ this]
  have rest: "op_post schema resolved tx outcome tx'"
    if "(let (mutated, vals1) = keepScopes (ct_scopePatterns table) storedValues vals False in
           case mergeCrdtColumns env table vals1 (Some storedValues) i of
             Inl rejected \<Rightarrow> Inr (Terminate rejected, tx)
           | Inr (changed, vals2) \<Rightarrow>
               bindE (liftD (if mutated \<or> changed then encodeRow (ct_columns table) vals2 else Inr payload)) (\<lambda>newPayload.
                 finishUpsert env tx table op i part actorId vals2 newPayload (st_scopes row)
                   (st_serverVersion row + 1) (Some (storedValues, st_serverVersion row)))) = Inr (outcome, tx')" for storedValues
    using that by (auto simp: Let_def bindE_eq_Inr split: prod.split_asm sum.split_asm intro: finish)
  show ?thesis using upd True rest by (auto simp: applyUpdate_def bindE_eq_Inr split: if_split_asm)
next
  case False
  then show ?thesis using upd by (auto simp: applyUpdate_def)
qed

lemma applyInsert_post:
  assumes tbl: "map_of (cs_tables schema) (po_table op) = Some table"
    and stored: "row_map tx (tx_partition tx, po_table op, po_rowId op) = None"
    and ins: "applyInsert env tx table resolved op vals payload i part actorId = Inr (outcome, tx')"
    and rowId: "well_formed (po_rowId op)" "po_rowId op \<noteq> []"
  shows "op_post schema resolved tx outcome tx'"
proof -
  have lawful: "lawful_change schema resolved (tx_partition tx) (row_map tx)
      \<lparr>ch_table = po_table op, ch_rowId = po_rowId op, ch_op = Upsert, ch_rowVersion = Some 1,
       ch_scopes = scopes, ch_payload = Some newPayload\<rparr>" if "authorizeWrite table scopes resolved" for scopes newPayload
    using tbl stored that rowId by (simp add: lawful_change_def)
  show ?thesis using ins
    by (auto simp: applyInsert_def bindE_eq_Inr split: if_splits sum.splits prod.splits intro: finishUpsert_post lawful)
qed

lemma applyOperation_post:
  assumes "applyOperation env tx schema resolved op i part actorId = Inr (outcome, tx')"
  shows "op_post schema resolved tx outcome tx'"
proof (cases "map_of (cs_tables schema) (po_table op) = None \<or> resolved = ResolvedFailed")
  case True
  then show ?thesis using assms by (auto simp: applyOperation_def split: option.splits)
next
  case False
  then obtain table stored where tbl: "map_of (cs_tables schema) (po_table op) = Some table" and
    get: "tx_getRow tx (po_table op) (po_rowId op) = Inr stored"
    using assms by (auto simp: applyOperation_def bindE_eq_Inr lift_eq_Inr split: option.splits if_splits)
  note run = assms [unfolded applyOperation_def tbl option.case get, unfolded liftS_def sum.case bindE_simps]
  note row = tx_getRow_Inr [OF get]
  show ?thesis
  proof (cases "po_op op = Delete")
    case True
    then show ?thesis using run False row by (auto intro: applyDelete_post [OF tbl])
  next
    case up: False
    then show ?thesis using run False row
      by (auto split: option.splits sum.splits if_splits dest: renderScopeValue_wf
          intro: applyUpdate_post [OF tbl] applyInsert_post [OF tbl])
  qed
qed

section \<open>The loop over the operations\<close>

text \<open>
  After the loop the row tables are the old ones with the collected changes applied in order,
  and each of them was lawful when it was made.
\<close>

definition changes_from :: "CompiledSchema \<Rightarrow> ResolvedScopes \<Rightarrow> SqliteTransaction \<Rightarrow> NewChange list \<Rightarrow> SqliteTransaction \<Rightarrow> bool" where
  "changes_from schema resolved tx changes tx' \<longleftrightarrow> tx_step tx tx' \<and>
     lawful_changes schema resolved (tx_partition tx) (row_map tx) changes \<and>
     row_map tx' = fold (apply_change (tx_partition tx)) changes (row_map tx)"

lemma changes_from_refl: "changes_from schema resolved tx [] tx"
  by (simp add: changes_from_def)

lemma changes_from_step:
  assumes "changes_from schema resolved tx changes tx1" and "op_post schema resolved tx1 (Applied change operation) tx2"
  shows "changes_from schema resolved tx (changes @ (case change of None \<Rightarrow> [] | Some c \<Rightarrow> [c])) tx2"
  using assms tx_step_trans [of tx tx1 tx2] tx_step_fields [of tx tx1]
  by (auto simp: changes_from_def op_post_def lawful_changes_append split: option.splits)

lemma applyLoop_post:
  assumes "applyLoop env schema resolved part actorId ops i tx1 acc = Inr (loop, tx')"
    and "changes_from schema resolved tx (ao_changes acc) tx1"
  shows "tx_step tx tx' \<and> (\<forall>acc'. loop = Inr acc' \<longrightarrow> changes_from schema resolved tx (ao_changes acc') tx')"
  using assms
proof (induction ops arbitrary: i tx1 acc)
  case Nil
  then show ?case by (auto simp: changes_from_def)
next
  case (Cons op ops)
  then obtain outcome tx2 where op: "applyOperation env tx1 schema resolved op i part actorId = Inr (outcome, tx2)"
    and rest: "(case outcome of
         Terminate r \<Rightarrow> Inr (Inl r, tx2)
       | Applied change operation \<Rightarrow>
           applyLoop env schema resolved part actorId ops (i + 1) tx2
             \<lparr>ao_results = ao_results acc @ [OpApplied i],
              ao_changes = ao_changes acc @ (case change of None \<Rightarrow> [] | Some c \<Rightarrow> [c]),
              ao_operations = ao_operations acc @ [operation]\<rparr>) = Inr (loop, tx')"
    by (auto simp: bindE_eq_Inr)
  note post = applyOperation_post [OF op]
  show ?case
  proof (cases outcome)
    case (Terminate r)
    then show ?thesis using rest post Cons.prems(2) tx_step_trans [of tx tx1 tx2]
      by (auto simp: op_post_def changes_from_def)
  next
    case (Applied change operation)
    show ?thesis
      using Cons.IH [OF rest [unfolded Applied OperationOutcome.case]] changes_from_step [OF Cons.prems(2) post [unfolded Applied]]
      by simp
  qed
qed

section \<open>The whole commit\<close>

text \<open>The stages after the operations leave the rows alone and append exactly one commit.\<close>

lemma enqueue_db_fields:
  "enqueue_db p rs d = Inr d' \<Longrightarrow> \<exists>reactions. d' = d\<lparr>db_reactions := reactions\<rparr>"
proof (induction rs arbitrary: d)
  case Nil
  then have "d' = d\<lparr>db_reactions := db_reactions d\<rparr>" by simp
  then show ?case by blast
next
  case (Cons r rs)
  then have "enqueue_db p rs (d\<lparr>db_reactions := db_reactions d @ [(p, r)]\<rparr>) = Inr d'" by (simp split: if_splits)
  from Cons.IH [OF this] show ?case by auto
qed

definition new_commit :: "push_request \<Rightarrow> NewChange list \<Rightarrow> NewCommit" where
  "new_commit req changes = \<lparr>nc_clientId = rq_clientId req, nc_clientCommitId = rq_clientCommitId req,
     nc_actorId = rq_actorId req, nc_createdAtMs = rq_createdAtMs req, nc_changes = changes\<rparr>"

text \<open>What a pushed commit leaves: the rows of \<open>d1\<close>, the log of \<open>d1\<close> with the commit, the outcome.\<close>

definition record_outcome :: "push_request \<Rightarrow> StoredPushResult \<Rightarrow> db \<Rightarrow> db" where
  "record_outcome req stored d =
     d\<lparr>db_push_results := insert_or_ignore push_result_key
         (rq_part req, rq_clientId req, rq_clientCommitId req, serializePushResult stored) (db_push_results d)\<rparr>"

definition pushed :: "push_request \<Rightarrow> db \<Rightarrow> NewChange list \<Rightarrow> StoredPushResult \<Rightarrow> int \<Rightarrow> db \<Rightarrow> bool" where
  "pushed req d1 changes stored seq d' \<longleftrightarrow>
     (\<exists>d2 reactions. append_commit_db (rq_part req) (new_commit req changes) d1 = Inr (seq, d2) \<and>
        d' = record_outcome req stored (d2\<lparr>db_reactions := reactions\<rparr>))"

text \<open>The body up to its last stage.\<close>

definition after_loop :: "push_env \<Rightarrow> push_request \<Rightarrow> (PushOperationResult + applied_ops) \<Rightarrow> SqliteTransaction
    \<Rightarrow> PushThrow + ((PushOperationResult + (StoredPushResult \<times> StoredCommit \<times> StoredReaction list)) \<times> SqliteTransaction)" where
  "after_loop env req loop tx1 =
     (case loop of
         Inl r \<Rightarrow> Inr (Inl r, tx1)
       | Inr acc \<Rightarrow>
           (case runCommitValidator env (tx_db tx1) (commit_input req (ao_operations acc)) of
              Some r \<Rightarrow> Inr (Inl r, tx1)
            | None \<Rightarrow>
                bindE (plannedReactions env req (ao_operations acc) (tx_db tx1)) (\<lambda>prepared.
                bindE (liftS (commitPush req acc prepared tx1)) (\<lambda>(committed, tx2).
                Inr (Inr committed, tx2)))))"

lemma pushBody_Inr:
  assumes "pushBody env schema req build tx = Inr (r, tx')"
  obtains ops loop tx1 where "build tx = Inr ops"
    and "applyLoop env schema (rq_resolved req) (rq_part req) (rq_actorId req) ops 0 tx
       \<lparr>ao_results = [], ao_changes = [], ao_operations = []\<rparr> = Inr (loop, tx1)"
    and "after_loop env req loop tx1 = Inr (r, tx')"
  using assms unfolding pushBody_def bindE_eq_Inr after_loop_def [symmetric] by (auto simp: after_loop_def [symmetric])

lemma after_loop_applied:
  assumes "after_loop env req loop tx1 = Inr (Inr committed, tx')"
  obtains acc prepared where "loop = Inr acc" and "commitPush req acc prepared tx1 = Inr (committed, tx')"
  using assms by (cases loop) (auto simp: after_loop_def bindE_eq_Inr lift_eq_Inr split: option.split_asm)

lemma after_loop_rejected:
  assumes "after_loop env req loop tx1 = Inr (Inl r, tx')"
  shows "tx' = tx1"
  using assms by (cases loop) (auto simp: after_loop_def bindE_eq_Inr lift_eq_Inr split: option.split_asm)

lemma pushBody_applied:
  assumes body: "pushBody env schema req build tx = Inr (Inr (stored, commit, reactions), tx')"
    and part: "tx_partition tx = rq_part req"
  obtains tx1 where "changes_from schema (rq_resolved req) tx (cm_changes commit) tx1"
    and "pushed req (tx_db tx1) (cm_changes commit) stored (cm_commitSeq commit) (tx_db tx')"
    and "stored = newStoredPushResult (rq_createdAtMs req) (rq_uuid req) StApplied (Some (cm_commitSeq commit)) (spr_results stored)"
    and "cm_actorId commit = rq_actorId req" and "cm_createdAtMs commit = rq_createdAtMs req"
proof -
  from body obtain ops acc tx1 prepared where
    loop: "applyLoop env schema (rq_resolved req) (rq_part req) (rq_actorId req) ops 0 tx
       \<lparr>ao_results = [], ao_changes = [], ao_operations = []\<rparr> = Inr (Inr acc, tx1)" and
    com: "commitPush req acc prepared tx1 = Inr ((stored, commit, reactions), tx')"
    by (elim pushBody_Inr after_loop_applied) blast
  from com obtain seq tx2 tx3 tx4 where
    app: "appendCommit tx1 (new_commit req (ao_changes acc)) = Inr (seq, tx2)" and
    enq: "reactions = [] \<and> tx3 = tx2 \<or> enqueueReactions tx2 reactions = Inr tx3" and
    putR: "putPushResult tx3 (rq_clientId req) (rq_clientCommitId req) stored = Inr tx4" and
    com: "commit_tx tx4 = Inr tx'" and
    commit: "commit = \<lparr>cm_commitSeq = seq, cm_createdAtMs = rq_createdAtMs req, cm_actorId = rq_actorId req,
       cm_changes = ao_changes acc\<rparr>" and
    st: "stored = newStoredPushResult (rq_createdAtMs req) (rq_uuid req) StApplied (Some seq) (ao_results acc)"
    by (auto simp: commitPush_def Let_def new_commit_def bindE_eq_Inr split: if_split_asm)
  have post: "changes_from schema (rq_resolved req) tx (ao_changes acc) tx1"
    using applyLoop_post [OF loop] changes_from_refl [of schema "rq_resolved req" tx] by simp
  then have part1: "tx_partition tx1 = rq_part req" using tx_step_fields part by (auto simp: changes_from_def)
  obtain d2 where d2: "append_commit_db (rq_part req) (new_commit req (ao_changes acc)) (tx_db tx1) = Inr (seq, d2)"
    and tx2: "tx2 = tx1\<lparr>tx_db := d2\<rparr>"
    using app by (auto simp: appendCommit_def bindE_eq_Inr part1)
  obtain rs where tx3: "tx3 = tx1\<lparr>tx_db := d2\<lparr>db_reactions := rs\<rparr>\<rparr>"
  proof (cases "reactions = [] \<and> tx3 = tx2")
    case True
    then show thesis using that [of "db_reactions d2"] tx2 by simp
  next
    case False
    then show thesis using enq tx2 that by (auto simp: enqueueReactions_def bindE_eq_Inr dest!: enqueue_db_fields)
  qed
  have "tx_db tx' = record_outcome req stored (d2\<lparr>db_reactions := rs\<rparr>)"
    using putR com by (auto simp: tx3 record_outcome_def putPushResult_def commit_tx_def bindE_eq_Inr part1)
  then have "pushed req (tx_db tx1) (ao_changes acc) stored seq (tx_db tx')" unfolding pushed_def using d2 by blast
  then show thesis using that [of tx1] post by (simp add: commit st newStoredPushResult_def)
qed

lemma pushBody_rejected:
  assumes "pushBody env schema req build tx = Inr (Inl r, tx')"
  shows "tx_step tx tx'"
proof -
  from assms obtain ops loop tx1 where
    loop: "applyLoop env schema (rq_resolved req) (rq_part req) (rq_actorId req) ops 0 tx
       \<lparr>ao_results = [], ao_changes = [], ao_operations = []\<rparr> = Inr (loop, tx1)" and
    rest: "after_loop env req loop tx1 = Inr (Inl r, tx')"
    by (elim pushBody_Inr)
  show ?thesis
    using applyLoop_post [OF loop, of tx] changes_from_refl [of schema "rq_resolved req" tx] after_loop_rejected [OF rest] by simp
qed

lemma record_outcome_same:
  "placed_row_at (record_outcome req stored d) = placed_row_at d"
  "storage_ok (record_outcome req stored d) = storage_ok d"
  "db_commits (record_outcome req stored d) = db_commits d"
  "db_changes (record_outcome req stored d) = db_changes d"
  "getMaxCommitSeq (record_outcome req stored d) p = getMaxCommitSeq d p"
  "getHorizonSeq (record_outcome req stored d) p = getHorizonSeq d p"
  by (simp_all add: record_outcome_def fun_eq_iff placed_row_at_def storage_ok_def rows_ok_def log_ok_def
      getMaxCommitSeq_def getHorizonSeq_def)

lemma finalizeRejection_db:
  assumes "tx_open tx" "tx_savepoint tx = Some d" "tx_partition tx = rq_part req"
  shows "po_db (finalizeRejection req r tx) =
      record_outcome req (newStoredPushResult (rq_createdAtMs req) (rq_uuid req) StRejected None [r]) d"
    and "po_notify (finalizeRejection req r tx) = None" and "po_queued (finalizeRejection req r tx) = []"
  using assms
  by (auto simp: finalizeRejection_def Let_def commitRejectedPushResult_def assertOpen_def putPushResult_def commit_tx_def
      record_outcome_def split: PushLookup.split)

text \<open>The lock sets the savepoint the rejections return to.\<close>

definition locked_tx :: "db \<Rightarrow> jsstring \<Rightarrow> SqliteTransaction" where
  "locked_tx d p = (begin_tx d p)\<lparr>tx_savepoint := Some d\<rparr>"

lemma lock_begin [simp]: "lockPartitionForPush (begin_tx d p) = Inr (locked_tx d p)"
  by (simp add: lockPartitionForPush_def assertOpen_def begin_tx_def locked_tx_def)

lemma locked_tx_fields [simp]:
  "tx_db (locked_tx d p) = d" "tx_partition (locked_tx d p) = p" "tx_open (locked_tx d p)"
  "tx_savepoint (locked_tx d p) = Some d" "row_map (locked_tx d p) = placed_row_at d"
  by (simp_all add: locked_tx_def begin_tx_def row_map_def)

lemma tx_getPushResult_locked [simp]:
  "tx_getPushResult (locked_tx d p) c i = Inr (getPushResult d p c i)"
  by (simp add: tx_getPushResult_def assertOpen_def)

text \<open>The three ways a delivery ends.\<close>

lemma push_cases:
  assumes out_def: "out = processPushOperationsWithTrace env schema req build d0 d"
  obtains (untouched) "po_db out = d" and "po_notify out = None" and "po_queued out = []"
      and "\<And>r. po_result out = Inr r \<Longrightarrow> getPushResult d0 (rq_part req) (rq_clientId req) (rq_clientCommitId req) \<noteq> NoPushResult
          \<or> getPushResult d (rq_part req) (rq_clientId req) (rq_clientCommitId req) \<noteq> NoPushResult"
  | (rejected) r where "po_db out = record_outcome req (newStoredPushResult (rq_createdAtMs req) (rq_uuid req) StRejected None [r]) d"
      and "po_notify out = None" and "po_queued out = []"
      and "getPushResult d (rq_part req) (rq_clientId req) (rq_clientCommitId req) = NoPushResult"
  | (applied) stored commit reactions tx' where
      "pushBody env schema req build (locked_tx d (rq_part req)) = Inr (Inr (stored, commit, reactions), tx')"
      and "out = \<lparr>po_db = tx_db tx', po_result = Inr (processedPushCommit (rq_clientCommitId req) stored False),
             po_notify = (if cm_changes commit = [] then None else Some commit), po_queued = reactions\<rparr>"
      and "getPushResult d0 (rq_part req) (rq_clientId req) (rq_clientCommitId req) = NoPushResult"
      and "getPushResult d (rq_part req) (rq_clientId req) (rq_clientCommitId req) = NoPushResult"
proof (cases "getPushResult d0 (rq_part req) (rq_clientId req) (rq_clientCommitId req) = NoPushResult \<and>
    getPushResult d (rq_part req) (rq_clientId req) (rq_clientCommitId req) = NoPushResult")
  case False
  then show thesis
    by (intro untouched; auto simp: out_def processPushOperationsWithTrace_def Let_def split: PushLookup.splits)
next
  case True
  let ?tx = "locked_tx d (rq_part req)"
  let ?body = "pushBody env schema req build ?tx"
  have rej: thesis if "out = finalizeRejection req r tx'" "tx_step ?tx tx'" for r tx'
    using that(1) True tx_step_fields [OF that(2)] finalizeRejection_db [of tx' d req r]
    by (intro rejected [of r]) simp_all
  consider (throw) e where "?body = Inl e" | (ended) r tx' where "?body = Inr (Inl r, tx')"
    | (ok) stored commit reactions tx' where "?body = Inr (Inr (stored, commit, reactions), tx')"
    by (cases ?body) (auto, metis old.sum.exhaust prod_cases3)
  then show thesis
  proof cases
    case throw
    show thesis
    proof (cases "\<exists>ix. e = ThrowStorage (StorageConstraintError ix)")
      case ce: True
      then obtain ix where "e = ThrowStorage (StorageConstraintError ix)" by blast
      then show thesis using throw True
        by (intro rej [OF _ tx_step_refl]) (simp add: out_def processPushOperationsWithTrace_def Let_def)
    next
      case False
      then have "out = \<lparr>po_db = d, po_result = Inl e, po_notify = None, po_queued = []\<rparr>" using throw True
        by (auto simp: out_def processPushOperationsWithTrace_def Let_def split: PushThrow.split StorageError.split)
      then show thesis by (intro untouched) simp_all
    qed
  next
    case ended
    then show thesis using True
      by (intro rej [OF _ pushBody_rejected [OF ended]]) (simp add: out_def processPushOperationsWithTrace_def Let_def)
  next
    case ok
    then show thesis using True by (intro applied [OF ok]) (simp_all add: out_def processPushOperationsWithTrace_def Let_def)
  qed
qed

section \<open>Atomicity\<close>

text \<open>
  The data of the database: everything but the table of recorded outcomes. A delivery either
  leaves the data as it was, or it applied every operation.
\<close>

definition same_data :: "db \<Rightarrow> db \<Rightarrow> bool" where
  "same_data d d' \<longleftrightarrow> d' = d\<lparr>db_push_results := db_push_results d'\<rparr>"

lemma same_data_refl [simp]: "same_data d d" and same_data_record [simp]: "same_data d (record_outcome req stored d)"
  by (simp_all add: same_data_def record_outcome_def)

definition applied_push :: "CompiledSchema \<Rightarrow> push_request \<Rightarrow> db \<Rightarrow> StoredCommit \<Rightarrow> db \<Rightarrow> bool" where
  "applied_push schema req d commit d' \<longleftrightarrow>
     lawful_changes schema (rq_resolved req) (rq_part req) (placed_row_at d) (cm_changes commit) \<and>
     placed_row_at d' = fold (apply_change (rq_part req)) (cm_changes commit) (placed_row_at d) \<and>
     cm_commitSeq commit = getMaxCommitSeq d (rq_part req) + 1 \<and>
     (\<forall>p. getMaxCommitSeq d' p = (if p = rq_part req then cm_commitSeq commit else getMaxCommitSeq d p)) \<and>
     (\<forall>p. getHorizonSeq d' p = getHorizonSeq d p) \<and>
     db_commits d' = db_commits d @ [commit_row (rq_part req) (cm_commitSeq commit) (new_commit req (cm_changes commit))] \<and>
     db_changes d' = db_changes d @ change_rows (rq_part req) (cm_commitSeq commit) (cm_changes commit) \<and>
     (storage_ok d \<longrightarrow> storage_ok d')"

lemma pushed_applied:
  assumes body: "pushBody env schema req build (locked_tx d (rq_part req)) = Inr (Inr (stored, commit, reactions), tx')"
  shows "applied_push schema req d commit (tx_db tx')"
proof -
  obtain tx1 where from_: "changes_from schema (rq_resolved req) (locked_tx d (rq_part req)) (cm_changes commit) tx1"
    and to: "pushed req (tx_db tx1) (cm_changes commit) stored (cm_commitSeq commit) (tx_db tx')"
    using body by (elim pushBody_applied) simp_all
  obtain d2 rs where app: "append_commit_db (rq_part req) (new_commit req (cm_changes commit)) (tx_db tx1) = Inr (cm_commitSeq commit, d2)"
    and d': "tx_db tx' = record_outcome req stored (d2\<lparr>db_reactions := rs\<rparr>)" using to by (auto simp: pushed_def)
  note new = append_commit_db_Inr [OF app]
  have log: "same_log d (tx_db tx1)" and rows: "rows_ok d \<longrightarrow> rows_ok (tx_db tx1)"
    and lawful: "lawful_changes schema (rq_resolved req) (rq_part req) (placed_row_at d) (cm_changes commit)"
    and map: "placed_row_at (tx_db tx1) = fold (apply_change (rq_part req)) (cm_changes commit) (placed_row_at d)"
    using from_ by (simp_all add: changes_from_def tx_step_def row_map_def)
  have keep: "storage_ok (d2\<lparr>db_reactions := rs\<rparr>) = storage_ok d2"
    "placed_row_at (d2\<lparr>db_reactions := rs\<rparr>) = placed_row_at d2"
    "getMaxCommitSeq (d2\<lparr>db_reactions := rs\<rparr>) p = getMaxCommitSeq d2 p"
    "getHorizonSeq (d2\<lparr>db_reactions := rs\<rparr>) p = getHorizonSeq d2 p" for p
    by (simp_all add: fun_eq_iff placed_row_at_def storage_ok_def rows_ok_def log_ok_def getMaxCommitSeq_def getHorizonSeq_def)
  have "storage_ok d \<longrightarrow> storage_ok d2"
    using rows append_commit_db_ok [OF _ app] append_commit_db_rows [OF app] same_log_ok [OF log] by (simp add: storage_ok_def)
  moreover have "placed_row_at d2 = placed_row_at (tx_db tx1)" using new(8) by (simp add: fun_eq_iff placed_row_at_def)
  moreover have "getMaxCommitSeq (tx_db tx1) p = getMaxCommitSeq d p" "getHorizonSeq (tx_db tx1) p = getHorizonSeq d p" for p
    using same_log_seqs [OF log] by simp_all
  moreover have "db_commits (tx_db tx1) = db_commits d" "db_changes (tx_db tx1) = db_changes d"
    using log by (simp_all add: same_log_def)
  ultimately show ?thesis
    using lawful map new(1-5) by (simp add: applied_push_def d' record_outcome_same keep new_commit_def)
qed

lemma push_atomic_lemma:
  fixes env :: push_env
  shows "same_data d (po_db (processPushOperationsWithTrace env schema req build d0 d)) \<or>
    (\<exists>commit. applied_push schema req d commit (po_db (processPushOperationsWithTrace env schema req build d0 d)))"
proof -
  let ?out = "processPushOperationsWithTrace env schema req build d0 d"
  show ?thesis
  proof (rule push_cases [OF refl, of env schema req build d0 d])
    fix stored commit reactions tx'
    assume body: "pushBody env schema req build (locked_tx d (rq_part req)) = Inr (Inr (stored, commit, reactions), tx')"
      and out: "?out = \<lparr>po_db = tx_db tx', po_result = Inr (processedPushCommit (rq_clientCommitId req) stored False),
             po_notify = (if cm_changes commit = [] then None else Some commit), po_queued = reactions\<rparr>"
    show ?thesis using pushed_applied [OF body] out by auto
  qed simp_all
qed

lemma push_storage_ok:
  assumes "storage_ok d"
  shows "storage_ok (po_db (processPushOperationsWithTrace env schema req build d0 d))"
proof -
  have "storage_ok d' = storage_ok d" if "same_data d d'" for d'
  proof -
    from that obtain rs where "d' = d\<lparr>db_push_results := rs\<rparr>" by (auto simp: same_data_def)
    then show ?thesis by (simp add: storage_ok_def rows_ok_def log_ok_def getMaxCommitSeq_def getHorizonSeq_def)
  qed
  then show ?thesis
    using push_atomic_lemma [of d env schema req build d0] assms by (auto simp: applied_push_def)
qed

section \<open>At most once\<close>

abbreviation lookup_of :: "push_request \<Rightarrow> db \<Rightarrow> PushLookup" where
  "lookup_of req d \<equiv> getPushResult d (rq_part req) (rq_clientId req) (rq_clientCommitId req)"

lemma recorded_found: "lookup_of req (record_outcome req stored d) \<noteq> NoPushResult"
  by (auto simp: getPushResult_def record_outcome_def find_by_insert_or_ignore push_result_key_def split: option.splits)

lemma push_recorded_untouched:
  assumes "lookup_of req d \<noteq> NoPushResult"
  shows "po_db (processPushOperationsWithTrace env schema req build d0 d) = d"
  by (rule push_cases [OF refl, of env schema req build d0 d]) (use assms in simp_all)

lemma push_records:
  assumes "po_result (processPushOperationsWithTrace env schema req build d0 d) = Inr r"
    and "lookup_of req d0 \<noteq> NoPushResult \<Longrightarrow> lookup_of req d \<noteq> NoPushResult"
  shows "lookup_of req (po_db (processPushOperationsWithTrace env schema req build d0 d)) \<noteq> NoPushResult"
proof (rule push_cases [OF refl, of env schema req build d0 d])
  fix stored commit reactions tx'
  assume body: "pushBody env schema req build (locked_tx d (rq_part req)) = Inr (Inr (stored, commit, reactions), tx')"
    and out: "processPushOperationsWithTrace env schema req build d0 d =
        \<lparr>po_db = tx_db tx', po_result = Inr (processedPushCommit (rq_clientCommitId req) stored False),
         po_notify = (if cm_changes commit = [] then None else Some commit), po_queued = reactions\<rparr>"
  have "\<exists>d2. tx_db tx' = record_outcome req stored d2" using body by (elim pushBody_applied) (auto simp: pushed_def)
  then show ?thesis using recorded_found out by auto
qed (use assms recorded_found in auto)

section \<open>Replay\<close>

lemma applyLoop_results:
  "applyLoop env schema resolved part actorId ops i tx acc = Inr (Inr acc', tx') \<Longrightarrow>
   ao_results acc' = ao_results acc @ map (\<lambda>k. OpApplied (i + int k)) [0..<length ops]"
proof (induction ops arbitrary: i tx acc)
  case (Cons op ops)
  then obtain outcome tx2 where "applyOperation env tx schema resolved op i part actorId = Inr (outcome, tx2)"
    and rest: "(case outcome of
         Terminate r \<Rightarrow> Inr (Inl r, tx2)
       | Applied change operation \<Rightarrow>
           applyLoop env schema resolved part actorId ops (i + 1) tx2
             \<lparr>ao_results = ao_results acc @ [OpApplied i],
              ao_changes = ao_changes acc @ (case change of None \<Rightarrow> [] | Some c \<Rightarrow> [c]),
              ao_operations = ao_operations acc @ [operation]\<rparr>) = Inr (Inr acc', tx')"
    by (auto simp: bindE_eq_Inr)
  have shift: "map (\<lambda>k. OpApplied (i + 1 + int k)) [0..<n] = map (\<lambda>k. OpApplied (i + int k)) [1..<Suc n]" for n
    unfolding map_Suc_upt [symmetric] One_nat_def by (simp add: comp_def ac_simps)
  show ?case
  proof (cases outcome)
    case (Applied change operation)
    from Cons.IH [OF rest [unfolded Applied OperationOutcome.case]] show ?thesis
      by (simp add: shift upt_conv_Cons del: upt_Suc)
  qed (use rest in simp)
qed simp

lemma pushBody_results:
  assumes "pushBody env schema req build tx = Inr (Inr (stored, commit, reactions), tx')" and "build tx = Inr ops"
  shows "spr_results stored = map (\<lambda>k. OpApplied (int k)) [0..<length ops]"
proof -
  from assms(1) obtain ops' acc tx1 prepared where "build tx = Inr ops'" and
    loop: "applyLoop env schema (rq_resolved req) (rq_part req) (rq_actorId req) ops' 0 tx
       \<lparr>ao_results = [], ao_changes = [], ao_operations = []\<rparr> = Inr (Inr acc, tx1)" and
    com: "commitPush req acc prepared tx1 = Inr ((stored, commit, reactions), tx')"
    by (elim pushBody_Inr after_loop_applied) blast
  moreover have "spr_results stored = ao_results acc"
    using com by (auto simp: commitPush_def Let_def bindE_eq_Inr newStoredPushResult_def)
  ultimately show ?thesis using applyLoop_results [OF loop] assms(2) by simp
qed

text \<open>Delivering an announced commit again, on whatever the first delivery left.\<close>

lemma push_replay:
  assumes out: "out = processPushOperationsWithTrace env schema req build d0 d" and note_: "po_notify out = Some commit"
    and r: "po_result out = Inr r"
    and ops: "build (locked_tx d (rq_part req)) = Inr ops"
    and safe: "safe_nat (int (length ops))" "safe_nat (cm_commitSeq commit)" "safe_nat (rq_createdAtMs req)"
    and same: "rq_part req' = rq_part req" "rq_clientId req' = rq_clientId req" "rq_clientCommitId req' = rq_clientCommitId req"
    and early: "lookup_of req d0' = NoPushResult \<or> d0' = po_db out"
  shows "processPushOperationsWithTrace env' schema' req' build' d0' (po_db out) =
    \<lparr>po_db = po_db out, po_result = Inr (r\<lparr>pc_frame := (pc_frame r)\<lparr>pr_status := PushCached\<rparr>, pc_replayed := True\<rparr>),
     po_notify = None, po_queued = []\<rparr>"
proof (rule push_cases [OF out])
  fix stored commit' reactions tx'
  assume body: "pushBody env schema req build (locked_tx d (rq_part req)) = Inr (Inr (stored, commit', reactions), tx')"
    and out': "out = \<lparr>po_db = tx_db tx', po_result = Inr (processedPushCommit (rq_clientCommitId req) stored False),
             po_notify = (if cm_changes commit' = [] then None else Some commit'), po_queued = reactions\<rparr>"
    and fresh: "lookup_of req d = NoPushResult"
  have commit: "commit' = commit" using note_ out' by (auto split: if_splits)
  obtain tx1 where "changes_from schema (rq_resolved req) (locked_tx d (rq_part req)) (cm_changes commit) tx1"
    and to: "pushed req (tx_db tx1) (cm_changes commit) stored (cm_commitSeq commit) (tx_db tx')"
    and st: "stored = newStoredPushResult (rq_createdAtMs req) (rq_uuid req) StApplied (Some (cm_commitSeq commit)) (spr_results stored)"
    using body unfolding commit by (elim pushBody_applied) simp_all
  then have log: "same_log d (tx_db tx1)" by (simp add: changes_from_def tx_step_def)
  obtain d2 rs where app: "append_commit_db (rq_part req) (new_commit req (cm_changes commit)) (tx_db tx1) = Inr (cm_commitSeq commit, d2)"
    and d': "tx_db tx' = record_outcome req stored (d2\<lparr>db_reactions := rs\<rparr>)" using to by (auto simp: pushed_def)
  have "db_push_results d2 = db_push_results d" using append_commit_db_Inr(11) [OF app] log by (simp add: same_log_def)
  then have no: "lookup_of req (d2\<lparr>db_reactions := rs\<rparr>) = NoPushResult" using fresh by (simp add: getPushResult_def)
  have "push_result_ok stored"
    using safe pushBody_results [OF body ops]
    by (subst st) (auto simp: push_result_ok_def newStoredPushResult_def list_all_iff safe_nat_def)
  then have found: "lookup_of req (po_db out) = FoundPushResult stored"
    using getPushResult_put [OF no] by (simp add: out' d' record_outcome_def)
  have status: "spr_status stored = StApplied" by (subst st) (simp add: newStoredPushResult_def)
  have res: "r = processedPushCommit (rq_clientCommitId req) stored False" using r out' by simp
  have "processedPushCommit (rq_clientCommitId req) stored True =
      r\<lparr>pc_frame := (pc_frame r)\<lparr>pr_status := PushCached\<rparr>, pc_replayed := True\<rparr>"
    unfolding res by (simp add: processedPushCommit_def resultFrame_def status)
  then show ?thesis
    using found early same by (auto simp: processPushOperationsWithTrace_def Let_def)
qed (use note_ in simp_all)

section \<open>All operations\<close>

text \<open>
  What it means that a pushed operation was carried out, on the rows as the operations before it
  left them. An upsert names a row of a known table by the primary key of its payload, its base
  version is the stored one, and the change writes the payload, except for the scope columns, which
  keep their stored values, and the CRDT columns, which are merged. A delete without a change finds
  no row.
\<close>

definition written_payload :: "CompiledTable \<Rightarrow> byte list \<Rightarrow> RowValue list \<Rightarrow> byte list \<Rightarrow> bool" where
  "written_payload table payload vals written \<longleftrightarrow> written = payload \<or>
     (\<exists>vals'. encodeRow (ct_columns table) vals' = Inr written \<and> length vals' = length vals \<and>
        (\<forall>i<length vals. i \<notin> sp_columnIndex ` set (ct_scopePatterns table) \<union> fst ` set (ct_crdtColumns table) \<longrightarrow> vals' ! i = vals ! i))"

definition upsert_done :: "CompiledSchema \<Rightarrow> placed_row option \<Rightarrow> PushOperation \<Rightarrow> NewChange \<Rightarrow> bool" where
  "upsert_done schema stored op c \<longleftrightarrow>
     (\<exists>table payload vals written. map_of (cs_tables schema) (po_table op) = Some table \<and> po_payload op = Some payload \<and>
        decodeRow (ct_columns table) payload = Inr vals \<and> renderScopeValue (at vals (ct_primaryKeyIndex table)) = Some (po_rowId op) \<and>
        ch_payload c = Some written \<and> written_payload table payload vals written) \<and>
     (case stored of
        None \<Rightarrow> po_baseVersion op = None \<or> po_baseVersion op = Some 0
      | Some (_, _, row) \<Rightarrow> po_baseVersion op = None \<or> po_baseVersion op = Some (st_serverVersion row) \<and> st_serverVersion row \<noteq> 0)"

definition op_done :: "CompiledSchema \<Rightarrow> jsstring \<Rightarrow> (row_key \<Rightarrow> placed_row option) \<Rightarrow> PushOperation \<Rightarrow> NewChange option \<Rightarrow> bool" where
  "op_done schema p m op change \<longleftrightarrow>
     (case change of
        None \<Rightarrow> po_op op = Delete \<and> m (p, po_table op, po_rowId op) = None
      | Some c \<Rightarrow> ch_table c = po_table op \<and> ch_rowId c = po_rowId op \<and> ch_op c = po_op op \<and>
          (po_op op = Upsert \<longrightarrow> upsert_done schema (m (p, po_table op, po_rowId op)) op c))"

text \<open>Every operation of the list, in order, with the changes it made.\<close>

fun carried_out :: "CompiledSchema \<Rightarrow> jsstring \<Rightarrow> (row_key \<Rightarrow> placed_row option) \<Rightarrow> PushOperation list \<Rightarrow> NewChange list \<Rightarrow> bool" where
  "carried_out schema p m [] changes \<longleftrightarrow> changes = []"
| "carried_out schema p m (op # ops) changes \<longleftrightarrow>
     op_done schema p m op None \<and> carried_out schema p m ops changes \<or>
     (\<exists>c cs. changes = c # cs \<and> op_done schema p m op (Some c) \<and> carried_out schema p (apply_change p c m) ops cs)"

lemma keepScopes_others:
  "keepScopes ps stored vals mutated = (mutated', vals') \<Longrightarrow>
   length vals' = length vals \<and> (\<forall>i. i \<notin> sp_columnIndex ` set ps \<longrightarrow> vals' ! i = vals ! i)"
  by (induction ps stored vals mutated rule: keepScopes.induct) (fastforce simp: Let_def split: if_splits option.splits)+

lemma mergeLoop_others:
  "mergeLoop env stored i cols vals changed = Inr (changed', vals') \<Longrightarrow>
   length vals' = length vals \<and> (\<forall>j. j \<notin> fst ` set cols \<longrightarrow> vals' ! j = vals ! j)"
proof (induction env stored i cols vals changed rule: mergeLoop.induct)
  case (2 env stored i index crdtType rest vals changed)
  then show ?case by (auto simp: Let_def split: option.splits RowValue.splits sum.splits)
qed simp

lemma merged_others:
  assumes "mergeCrdtColumns env table vals stored i = Inr (changed, vals')"
  shows "length vals' = length vals \<and> (\<forall>j. j \<notin> fst ` set (ct_crdtColumns table) \<longrightarrow> vals' ! j = vals ! j)"
  using assms mergeLoop_others [of env stored i "ct_crdtColumns table" vals False changed vals']
  by (auto simp: mergeCrdtColumns_def split: if_splits)

lemma finishUpsert_change:
  assumes "finishUpsert env tx table op i part actorId vals newPayload scopes newVersion stored = Inr (Applied change operation, tx')"
  shows "change = Some \<lparr>ch_table = po_table op, ch_rowId = po_rowId op, ch_op = Upsert, ch_rowVersion = Some newVersion,
    ch_scopes = scopes, ch_payload = Some newPayload\<rparr>"
  using assms by (auto simp: finishUpsert_def bindE_eq_Inr split: option.splits prod.splits)

lemma applyUpdate_Applied:
  assumes "applyUpdate env tx table resolved op row vals payload i part actorId = Inr (Applied change operation, tx')"
  obtains stored mutated vals1 changed vals2 written where
    "decodeRow (ct_columns table) (st_payload row) = Inr stored"
    "keepScopes (ct_scopePatterns table) stored vals False = (mutated, vals1)"
    "mergeCrdtColumns env table vals1 (Some stored) i = Inr (changed, vals2)"
    "(if mutated \<or> changed then encodeRow (ct_columns table) vals2 else Inr payload) = Inr written"
    "finishUpsert env tx table op i part actorId vals2 written (st_scopes row) (st_serverVersion row + 1)
      (Some (stored, st_serverVersion row)) = Inr (Applied change operation, tx')"
    "po_baseVersion op = None \<or> po_baseVersion op = Some (st_serverVersion row) \<and> st_serverVersion row \<noteq> 0"
proof -
  have guards: "\<not> \<not> authorizeWrite table (st_scopes row) resolved" "po_baseVersion op \<noteq> Some 0"
    "\<not> (po_baseVersion op \<noteq> None \<and> po_baseVersion op \<noteq> Some (st_serverVersion row))"
    using assms by (auto simp: applyUpdate_def split: if_split_asm)
  have "\<exists>stored. decodeRow (ct_columns table) (st_payload row) = Inr stored \<and>
      (let (mutated, vals1) = keepScopes (ct_scopePatterns table) stored vals False in
       case mergeCrdtColumns env table vals1 (Some stored) i of
         Inl rejected \<Rightarrow> Inr (Terminate rejected, tx)
       | Inr (changed, vals2) \<Rightarrow>
           bindE (liftD (if mutated \<or> changed then encodeRow (ct_columns table) vals2 else Inr payload)) (\<lambda>newPayload.
             finishUpsert env tx table op i part actorId vals2 newPayload (st_scopes row)
               (st_serverVersion row + 1) (Some (stored, st_serverVersion row)))) = Inr (Applied change operation, tx')"
    using assms unfolding applyUpdate_def if_not_P [OF guards(2)] if_not_P [OF guards(3)] if_not_P [OF guards(1)]
      bindE_eq_Inr [of "liftD (decodeRow _ _)"] lift_eq_Inr .
  then obtain stored where dec: "decodeRow (ct_columns table) (st_payload row) = Inr stored" and
    body: "(let (mutated, vals1) = keepScopes (ct_scopePatterns table) stored vals False in
       case mergeCrdtColumns env table vals1 (Some stored) i of
         Inl rejected \<Rightarrow> Inr (Terminate rejected, tx)
       | Inr (changed, vals2) \<Rightarrow>
           bindE (liftD (if mutated \<or> changed then encodeRow (ct_columns table) vals2 else Inr payload)) (\<lambda>newPayload.
             finishUpsert env tx table op i part actorId vals2 newPayload (st_scopes row)
               (st_serverVersion row + 1) (Some (stored, st_serverVersion row)))) = Inr (Applied change operation, tx')" by blast
  obtain mutated vals1 where keep: "keepScopes (ct_scopePatterns table) stored vals False = (mutated, vals1)" by fastforce
  have base: "po_baseVersion op = None \<or> po_baseVersion op = Some (st_serverVersion row) \<and> st_serverVersion row \<noteq> 0"
    using guards by auto
  show thesis
    using body by (auto simp: keep bindE_eq_Inr lift_eq_Inr split: sum.split_asm intro: that [OF dec keep _ _ _ base])
qed

lemma applyUpdate_writes:
  assumes "applyUpdate env tx table resolved op row vals payload i part actorId = Inr (Applied change operation, tx')"
  shows "\<exists>c written. change = Some c \<and> ch_table c = po_table op \<and> ch_rowId c = po_rowId op \<and> ch_op c = Upsert \<and> ch_payload c = Some written \<and>
    written_payload table payload vals written \<and>
    (po_baseVersion op = None \<or> po_baseVersion op = Some (st_serverVersion row) \<and> st_serverVersion row \<noteq> 0)"
proof (rule applyUpdate_Applied [OF assms])
  fix stored mutated vals1 changed vals2 written
  assume keep: "keepScopes (ct_scopePatterns table) stored vals False = (mutated, vals1)"
    and merge: "mergeCrdtColumns env table vals1 (Some stored) i = Inr (changed, vals2)"
    and enc: "(if mutated \<or> changed then encodeRow (ct_columns table) vals2 else Inr payload) = Inr written"
    and finish: "finishUpsert env tx table op i part actorId vals2 written (st_scopes row) (st_serverVersion row + 1)
      (Some (stored, st_serverVersion row)) = Inr (Applied change operation, tx')"
    and base: "po_baseVersion op = None \<or> po_baseVersion op = Some (st_serverVersion row) \<and> st_serverVersion row \<noteq> 0"
  have "written_payload table payload vals written"
    using enc keepScopes_others [OF keep] merged_others [OF merge] by (auto simp: written_payload_def split: if_splits)
  then show ?thesis using finishUpsert_change [OF finish] base by auto
qed

lemma applyInsert_writes:
  assumes "applyInsert env tx table resolved op vals payload i part actorId = Inr (Applied change operation, tx')"
  shows "\<exists>c written. change = Some c \<and> ch_table c = po_table op \<and> ch_rowId c = po_rowId op \<and> ch_op c = Upsert \<and> ch_payload c = Some written \<and>
    written_payload table payload vals written \<and> (po_baseVersion op = None \<or> po_baseVersion op = Some 0)"
proof -
  from assms have base: "po_baseVersion op = None \<or> po_baseVersion op = Some 0"
    by (auto simp: applyInsert_def split: if_splits sum.splits)
  obtain scopes changed vals1 written where merge: "mergeCrdtColumns env table vals None i = Inr (changed, vals1)" and
    enc: "(if changed then encodeRow (ct_columns table) vals1 else Inr payload) = Inr written" and
    finish: "finishUpsert env tx table op i part actorId vals1 written scopes 1 None = Inr (Applied change operation, tx')"
    using assms base by (auto simp: applyInsert_def bindE_eq_Inr lift_eq_Inr split: if_split_asm prod.split_asm sum.split_asm)
  have "written_payload table payload vals written"
    using enc merged_others [OF merge] by (auto simp: written_payload_def split: if_splits)
  then show ?thesis using finishUpsert_change [OF finish] base by auto
qed

lemma applyDelete_removes:
  assumes "applyDelete env tx table resolved op stored i part actorId = Inr (Applied change operation, tx')"
  shows "case change of None \<Rightarrow> stored = None | Some c \<Rightarrow> ch_table c = po_table op \<and> ch_rowId c = po_rowId op \<and> ch_op c = Delete"
  using assms by (auto simp: applyDelete_def bindE_eq_Inr split: option.splits if_splits)

lemma applyOperation_done:
  assumes "applyOperation env tx schema resolved op i part actorId = Inr (Applied change operation, tx')"
  shows "op_done schema (tx_partition tx) (row_map tx) op change"
proof -
  obtain table stored where tbl: "map_of (cs_tables schema) (po_table op) = Some table" and
    get: "tx_getRow tx (po_table op) (po_rowId op) = Inr stored" and ok: "resolved \<noteq> ResolvedFailed"
    using assms by (auto simp: applyOperation_def bindE_eq_Inr lift_eq_Inr split: option.splits if_splits)
  note run = assms [unfolded applyOperation_def tbl option.case get, unfolded liftS_def sum.case bindE_simps]
  note row = tx_getRow_Inr [OF get]
  show ?thesis
  proof (cases "po_op op")
    case Delete
    then show ?thesis using run ok row applyDelete_removes [of env tx table resolved op stored i part actorId change operation tx']
      by (auto simp: op_done_def split: option.splits)
  next
    case Upsert
    obtain payload vals where vals: "po_payload op = Some payload" "decodeRow (ct_columns table) payload = Inr vals"
      "renderScopeValue (at vals (ct_primaryKeyIndex table)) = Some (po_rowId op)"
      and rest: "(case stored of Some row \<Rightarrow> applyUpdate env tx table resolved op row vals payload i part actorId
         | None \<Rightarrow> applyInsert env tx table resolved op vals payload i part actorId) = Inr (Applied change operation, tx')"
      using run ok Upsert by (auto split: option.split_asm sum.split_asm if_split_asm)
    show ?thesis
    proof (cases stored)
      case None
      then show ?thesis using applyInsert_writes [of env tx table resolved op vals payload i part actorId] rest vals tbl row Upsert
        by (fastforce simp: op_done_def upsert_done_def)
    next
      case (Some srow)
      then show ?thesis using applyUpdate_writes [of env tx table resolved op srow vals payload i part actorId] rest vals tbl row Upsert
        by (fastforce simp: op_done_def upsert_done_def)
    qed
  qed
qed

lemma applyLoop_done:
  assumes "applyLoop env schema resolved part actorId ops i tx acc = Inr (Inr acc', tx')"
  shows "\<exists>changes. ao_changes acc' = ao_changes acc @ changes \<and> carried_out schema (tx_partition tx) (row_map tx) ops changes"
  using assms
proof (induction ops arbitrary: i tx acc)
  case (Cons op ops)
  obtain outcome tx2 where run: "applyOperation env tx schema resolved op i part actorId = Inr (outcome, tx2)"
    and cont: "(case outcome of
         Terminate r \<Rightarrow> Inr (Inl r, tx2)
       | Applied change operation \<Rightarrow>
           applyLoop env schema resolved part actorId ops (i + 1) tx2
             \<lparr>ao_results = ao_results acc @ [OpApplied i],
              ao_changes = ao_changes acc @ (case change of None \<Rightarrow> [] | Some c \<Rightarrow> [c]),
              ao_operations = ao_operations acc @ [operation]\<rparr>) = Inr (Inr acc', tx')"
    using Cons.prems by (auto simp: bindE_eq_Inr)
  then obtain change operation where applied: "outcome = Applied change operation" by (cases outcome) auto
  note op = run [unfolded applied] and rest = cont [unfolded applied OperationOutcome.case]
  note done_ = applyOperation_done [OF op] and post = applyOperation_post [OF op]
  obtain changes where later: "ao_changes acc' = (ao_changes acc @ (case change of None \<Rightarrow> [] | Some c \<Rightarrow> [c])) @ changes"
    "carried_out schema (tx_partition tx2) (row_map tx2) ops changes"
    using Cons.IH [OF rest] by auto
  have "tx_partition tx2 = tx_partition tx" using post tx_step_fields by (auto simp: op_post_def)
  then show ?case using later done_ post by (cases change) (fastforce simp: op_post_def)+
qed simp

lemma pushBody_done:
  assumes "pushBody env schema req build tx = Inr (Inr (stored, commit, reactions), tx')"
  obtains ops where "build tx = Inr ops" and "carried_out schema (tx_partition tx) (row_map tx) ops (cm_changes commit)"
proof -
  from assms obtain ops acc tx1 prepared where "build tx = Inr ops" and
    loop: "applyLoop env schema (rq_resolved req) (rq_part req) (rq_actorId req) ops 0 tx
       \<lparr>ao_results = [], ao_changes = [], ao_operations = []\<rparr> = Inr (Inr acc, tx1)" and
    com: "commitPush req acc prepared tx1 = Inr ((stored, commit, reactions), tx')"
    by (elim pushBody_Inr after_loop_applied) blast
  moreover have "cm_changes commit = ao_changes acc" using com by (auto simp: commitPush_def Let_def bindE_eq_Inr)
  ultimately show thesis using that applyLoop_done [OF loop] by simp
qed

text \<open>
  A delivery that changes the data carried out all operations of the request and says so.
\<close>

definition applied_answer :: "push_request \<Rightarrow> nat \<Rightarrow> int \<Rightarrow> PushThrow + ProcessedPushCommit \<Rightarrow> bool" where
  "applied_answer req n seq result \<longleftrightarrow> (\<exists>r. result = Inr r \<and> \<not> pc_replayed r \<and>
     pc_frame r = \<lparr>pr_clientCommitId = rq_clientCommitId req, pr_status = PushApplied, pr_commitSeq = Some seq,
       pr_results = map (\<lambda>k. OpApplied (int k)) [0..<n]\<rparr>)"

lemma push_all_lemma:
  fixes env :: push_env
  assumes out: "out = processPushOperationsWithTrace env schema req build d0 d"
  shows "same_data d (po_db out) \<or>
    (\<exists>ops commit. build (locked_tx d (rq_part req)) = Inr ops \<and>
       carried_out schema (rq_part req) (placed_row_at d) ops (cm_changes commit) \<and>
       applied_push schema req d commit (po_db out) \<and> applied_answer req (length ops) (cm_commitSeq commit) (po_result out))"
proof (rule push_cases [OF out])
  fix stored commit reactions tx'
  assume body: "pushBody env schema req build (locked_tx d (rq_part req)) = Inr (Inr (stored, commit, reactions), tx')"
    and out': "out = \<lparr>po_db = tx_db tx', po_result = Inr (processedPushCommit (rq_clientCommitId req) stored False),
             po_notify = (if cm_changes commit = [] then None else Some commit), po_queued = reactions\<rparr>"
  obtain ops where ops: "build (locked_tx d (rq_part req)) = Inr ops" "carried_out schema (rq_part req) (placed_row_at d) ops (cm_changes commit)"
    using body by (elim pushBody_done) simp
  have st: "stored = newStoredPushResult (rq_createdAtMs req) (rq_uuid req) StApplied (Some (cm_commitSeq commit)) (spr_results stored)"
    using body by (elim pushBody_applied) simp_all
  have "applied_answer req (length ops) (cm_commitSeq commit) (po_result out)"
    unfolding applied_answer_def out' using pushBody_results [OF body ops(1)]
    by (subst st) (simp add: processedPushCommit_def resultFrame_def newStoredPushResult_def)
  then show ?thesis using ops pushed_applied [OF body] out' by auto
qed simp_all

end
