(* ===== verification/Commit_Window.thy ===== *)
theory Commit_Window
  imports Storage
begin

text \<open>
  The two paged reads of the storage: \<open>readCommitWindow\<close> over the change-scope index, with
  \<open>collectCommitWindowPage\<close> of \<open>sqlite-dialect.ts\<close>, and \<open>scanRows\<close> over the row-scope index.
  Each is shown equal to a plain filter of the log or of the rows: paging, candidate selection
  by one variable and the check of the other variables drop nothing and repeat nothing.
\<close>

record CommitWindowQuery =
  cw_table :: jsstring
  cw_scopeFilter :: scope_map
  cw_afterSeq :: int
  cw_throughSeq :: int
  cw_limitChanges :: int

record RowScanQuery =
  sq_table :: jsstring
  sq_scopeFilter :: scope_map
  sq_afterRowId :: "jsstring option"
  sq_limit :: int

section \<open>The commit window\<close>

text \<open>
  One row of \<open>commitWindowPageSql\<close>: the commit's metadata and the change columns are \<open>NULL\<close>
  together when the joined row does not exist.
\<close>

record SqliteCommitWindowRecord =
  wr_commitSeq :: int
  wr_meta :: "(jsstring \<times> int) option"
  wr_change :: "NewChange option"

definition window_candidates ::
    "db \<Rightarrow> jsstring \<Rightarrow> jsstring \<Rightarrow> jsstring \<Rightarrow> jsstring list \<Rightarrow> int \<Rightarrow> int \<Rightarrow> int list" where
  "window_candidates d p tbl variable values afterSeq throughSeq =
     sort (remdups (map (\<lambda>(_, _, _, _, s). s)
       (filter (\<lambda>(p', t, x, v, s). p' = p \<and> t = tbl \<and> x = variable \<and> v \<in> set values \<and> s > afterSeq \<and> s \<le> throughSeq)
         (db_change_scopes d))))"

definition commit_meta :: "db \<Rightarrow> jsstring \<Rightarrow> int \<Rightarrow> (jsstring \<times> int) option" where
  "commit_meta d p seq = map_option (\<lambda>c. (co_actorId c, co_createdAtMs c)) (find_by commit_key (p, seq) (db_commits d))"

definition commit_changes :: "db \<Rightarrow> jsstring \<Rightarrow> int \<Rightarrow> jsstring \<Rightarrow> NewChange list" where
  "commit_changes d p seq tbl =
     map cg_change (sort_key cg_idx
       (filter (\<lambda>c. cg_partition c = p \<and> cg_commitSeq c = seq \<and> ch_table (cg_change c) = tbl) (db_changes d)))"

definition window_records_of :: "db \<Rightarrow> jsstring \<Rightarrow> jsstring \<Rightarrow> int \<Rightarrow> SqliteCommitWindowRecord list" where
  "window_records_of d p tbl seq =
     (let meta = commit_meta d p seq; changes = commit_changes d p seq tbl in
      if changes = [] then [\<lparr>wr_commitSeq = seq, wr_meta = meta, wr_change = None\<rparr>]
      else map (\<lambda>change. \<lparr>wr_commitSeq = seq, wr_meta = meta, wr_change = Some change\<rparr>) changes)"

definition commitWindowPage ::
    "db \<Rightarrow> jsstring \<Rightarrow> jsstring \<Rightarrow> jsstring \<Rightarrow> jsstring list \<Rightarrow> int \<Rightarrow> int \<Rightarrow> int \<Rightarrow> SqliteCommitWindowRecord list" where
  "commitWindowPage d p tbl variable values afterSeq throughSeq limit =
     concat (map (window_records_of d p tbl)
       (take (nat limit) (window_candidates d p tbl variable values afterSeq throughSeq)))"

record WindowPage =
  wp_commits :: "StoredCommit list"
  wp_delivered :: int
  wp_lastSeq :: int
  wp_candidateCount :: int

definition matching_changes :: "scope_map \<Rightarrow> SqliteCommitWindowRecord list \<Rightarrow> NewChange list" where
  "matching_changes scopeFilter records =
     filter (\<lambda>change. matchesEffective (ch_scopes change) scopeFilter) (List.map_filter wr_change records)"

function collectLoop ::
    "scope_map \<Rightarrow> int \<Rightarrow> SqliteCommitWindowRecord list \<Rightarrow> WindowPage \<Rightarrow> WindowPage" where
  "collectLoop scopeFilter remaining [] page = page"
| "collectLoop scopeFilter remaining (head # records) page =
     (let seq = wr_commitSeq head;
          group = head # takeWhile (\<lambda>r. wr_commitSeq r = seq) records;
          rest = dropWhile (\<lambda>r. wr_commitSeq r = seq) records;
          page1 = page\<lparr>wp_candidateCount := wp_candidateCount page + 1, wp_lastSeq := seq\<rparr>;
          changes = matching_changes scopeFilter group in
      case wr_meta head of
        None \<Rightarrow> collectLoop scopeFilter remaining rest page1
      | Some (actorId, createdAtMs) \<Rightarrow>
          if changes = [] then collectLoop scopeFilter remaining rest page1
          else
            (let page2 = page1\<lparr>wp_commits := wp_commits page1 @
                   [\<lparr>cm_commitSeq = seq, cm_createdAtMs = createdAtMs, cm_actorId = actorId, cm_changes = changes\<rparr>],
                   wp_delivered := wp_delivered page1 + int (length changes)\<rparr> in
             if wp_delivered page2 \<ge> remaining then page2
             else collectLoop scopeFilter remaining rest page2))"
  by pat_completeness auto
termination
  by (relation "measure (\<lambda>(_, _, records, _). length records)") (auto simp: le_imp_less_Suc length_dropWhile_le)

definition collectCommitWindowPage :: "SqliteCommitWindowRecord list \<Rightarrow> scope_map \<Rightarrow> int \<Rightarrow> WindowPage" where
  "collectCommitWindowPage records scopeFilter remaining =
     collectLoop scopeFilter remaining records
       \<lparr>wp_commits = [], wp_delivered = 0, wp_lastSeq = 0, wp_candidateCount = 0\<rparr>"

section \<open>One page\<close>

text \<open>What one candidate commit contributes to the window.\<close>

definition window_commit :: "db \<Rightarrow> jsstring \<Rightarrow> jsstring \<Rightarrow> scope_map \<Rightarrow> int \<Rightarrow> StoredCommit option" where
  "window_commit d p tbl scopeFilter seq =
     (let changes = filter (\<lambda>change. matchesEffective (ch_scopes change) scopeFilter) (commit_changes d p seq tbl) in
      case commit_meta d p seq of
        None \<Rightarrow> None
      | Some (actorId, createdAtMs) \<Rightarrow>
          if changes = [] then None
          else Some \<lparr>cm_commitSeq = seq, cm_createdAtMs = createdAtMs, cm_actorId = actorId, cm_changes = changes\<rparr>)"

fun take_budget :: "int \<Rightarrow> StoredCommit list \<Rightarrow> StoredCommit list" where
  "take_budget n [] = []"
| "take_budget n (c # cs) = (if n \<le> 0 then [] else c # take_budget (n - int (length (cm_changes c))) cs)"

definition change_count :: "StoredCommit list \<Rightarrow> int" where
  "change_count cs = sum_list (map (\<lambda>c. int (length (cm_changes c))) cs)"

lemma change_count_simps [simp]:
  "change_count [] = 0" "change_count (c # cs) = int (length (cm_changes c)) + change_count cs"
  "change_count (xs @ ys) = change_count xs + change_count ys"
  by (simp_all add: change_count_def)

lemma change_count_nonneg: "0 \<le> change_count cs"
  by (induction cs) auto

lemma take_budget_0: "n \<le> 0 \<Longrightarrow> take_budget n cs = []"
  by (cases cs) auto

lemma take_budget_append:
  "take_budget n (xs @ ys) = take_budget n xs @ take_budget (n - change_count (take_budget n xs)) ys"
  by (induction xs arbitrary: n) (simp_all add: take_budget_0 diff_diff_eq)

lemma take_budget_full: "change_count (take_budget n xs) < n \<Longrightarrow> take_budget n xs = xs"
  by (induction xs arbitrary: n) auto

lemma window_records_seq: "r \<in> set (window_records_of d p tbl seq) \<Longrightarrow> wr_commitSeq r = seq \<and> wr_meta r = commit_meta d p seq"
  by (auto simp: window_records_of_def Let_def split: if_splits)

lemma window_records_Cons:
  obtains r rs where "window_records_of d p tbl seq = r # rs"
  by (cases "window_records_of d p tbl seq") (auto simp: window_records_of_def Let_def split: if_splits)

lemma window_records_changes:
  "matching_changes f (window_records_of d p tbl seq) =
     filter (\<lambda>change. matchesEffective (ch_scopes change) f) (commit_changes d p seq tbl)"
proof -
  have "List.map_filter wr_change (map (\<lambda>change. \<lparr>wr_commitSeq = seq, wr_meta = m, wr_change = Some change\<rparr>) xs) = xs" for m xs
    by (induction xs) (auto simp: List.map_filter_simps)
  then show ?thesis
    by (auto simp: window_records_of_def Let_def matching_changes_def List.map_filter_simps)
qed

text \<open>The page loop, seen on the candidates instead of on the joined rows.\<close>

fun collectSeqs :: "(int \<Rightarrow> StoredCommit option) \<Rightarrow> int \<Rightarrow> int list \<Rightarrow> WindowPage \<Rightarrow> WindowPage" where
  "collectSeqs f remaining [] page = page"
| "collectSeqs f remaining (seq # seqs) page =
     (let page1 = page\<lparr>wp_candidateCount := wp_candidateCount page + 1, wp_lastSeq := seq\<rparr> in
      case f seq of
        None \<Rightarrow> collectSeqs f remaining seqs page1
      | Some c \<Rightarrow>
          (let page2 = page1\<lparr>wp_commits := wp_commits page1 @ [c],
                 wp_delivered := wp_delivered page1 + int (length (cm_changes c))\<rparr> in
           if wp_delivered page2 \<ge> remaining then page2 else collectSeqs f remaining seqs page2))"

lemma while_block:
  "\<forall>x\<in>set xs. P x \<Longrightarrow> \<forall>y\<in>set ys. \<not> P y \<Longrightarrow> takeWhile P (xs @ ys) = xs \<and> dropWhile P (xs @ ys) = ys"
  by (cases ys) (simp_all add: takeWhile_append2 dropWhile_append2)

lemma collectLoop_seqs:
  "distinct seqs \<Longrightarrow>
   collectLoop f remaining (concat (map (window_records_of d p tbl) seqs)) page =
     collectSeqs (window_commit d p tbl f) remaining seqs page"
proof (induction seqs arbitrary: page)
  case (Cons seq seqs)
  obtain r rs where r: "window_records_of d p tbl seq = r # rs" by (rule window_records_Cons)
  let ?rest = "concat (map (window_records_of d p tbl) seqs)"
  have r_seq: "wr_commitSeq r = seq" "wr_meta r = commit_meta d p seq"
    using window_records_seq [of r d p tbl seq] by (simp_all add: r)
  have rs_seq: "\<forall>x\<in>set rs. wr_commitSeq x = seq"
    by (intro ballI conjunct1 [OF window_records_seq [of _ d p tbl seq]]) (simp add: r)
  have rest: "\<forall>x\<in>set ?rest. wr_commitSeq x \<noteq> seq"
    using Cons.prems window_records_seq [of _ d p tbl] by fastforce
  have tw: "takeWhile (\<lambda>x. wr_commitSeq x = seq) (rs @ ?rest) = rs"
       "dropWhile (\<lambda>x. wr_commitSeq x = seq) (rs @ ?rest) = ?rest"
    using while_block [OF rs_seq rest] by blast+
  have ch: "matching_changes f (r # rs) = filter (\<lambda>change. matchesEffective (ch_scopes change) f) (commit_changes d p seq tbl)"
    using window_records_changes [of f d p tbl seq] by (simp add: r)
  have IH: "collectLoop f remaining ?rest page = collectSeqs (window_commit d p tbl f) remaining seqs page" for page
    using Cons.IH Cons.prems by simp
  show ?case
  proof (cases "commit_meta d p seq")
    case None
    then show ?thesis by (simp add: r r_seq tw IH window_commit_def [of _ _ _ _ seq] Let_def)
  next
    case (Some m)
    then show ?thesis by (cases m) (simp add: r r_seq tw ch IH window_commit_def [of _ _ _ _ seq] Let_def)
  qed
qed simp

lemma collectSeqs_result:
  fixes page :: WindowPage
  assumes "wp_delivered page < remaining"
  shows "wp_commits (collectSeqs f remaining seqs page) =
        wp_commits page @ take_budget (remaining - wp_delivered page) (List.map_filter f seqs)"
    and "wp_delivered (collectSeqs f remaining seqs page) =
        wp_delivered page + change_count (take_budget (remaining - wp_delivered page) (List.map_filter f seqs))"
    and "wp_delivered (collectSeqs f remaining seqs page) < remaining \<Longrightarrow> seqs \<noteq> [] \<Longrightarrow>
      wp_lastSeq (collectSeqs f remaining seqs page) = List.last seqs \<and>
      wp_candidateCount (collectSeqs f remaining seqs page) = wp_candidateCount page + int (length seqs)"
    and "seqs \<noteq> [] \<Longrightarrow> wp_lastSeq (collectSeqs f remaining seqs page) \<in> set seqs"
  using assms
proof (induction seqs arbitrary: page)
  case (Cons seq seqs)
  {
    case 1
    then show ?case using Cons.IH(1)
      by (auto simp: Let_def List.map_filter_simps diff_diff_eq take_budget_0 split: option.splits)
  next
    case 2
    then show ?case using Cons.IH(2)
      by (auto simp: Let_def List.map_filter_simps diff_diff_eq take_budget_0 split: option.splits)
  next
    case 3
    then show ?case using Cons.IH(3)
      by (cases "seqs = []") (auto simp: Let_def split: option.splits if_splits)
  next
    case 4
    then show ?case using Cons.IH(4)
      by (cases "seqs = []") (auto simp: Let_def split: option.splits if_splits)
  }
qed (simp_all add: List.map_filter_simps)

section \<open>Paging\<close>

lemma collect_page:
  "collectCommitWindowPage (concat (map (window_records_of d p tbl)
       (take n (window_candidates d p tbl variable values afterSeq throughSeq)))) f remaining =
     collectSeqs (window_commit d p tbl f) remaining
       (take n (window_candidates d p tbl variable values afterSeq throughSeq))
       \<lparr>wp_commits = [], wp_delivered = 0, wp_lastSeq = 0, wp_candidateCount = 0\<rparr>"
  unfolding collectCommitWindowPage_def by (rule collectLoop_seqs) (simp add: window_candidates_def)

lemma window_records_ne: "window_records_of d p tbl seq \<noteq> []"
  by (rule window_records_Cons [of d p tbl seq]) simp

lemma window_page_empty:
  "concat (map (window_records_of d p tbl) seqs) = [] \<longleftrightarrow> seqs = []"
  by (cases seqs) (simp_all add: window_records_ne)

lemma window_candidates_set:
  "s \<in> set (window_candidates d p tbl variable values afterSeq throughSeq) \<longleftrightarrow>
     afterSeq < s \<and> s \<le> throughSeq \<and> (\<exists>v\<in>set values. (p, tbl, variable, v, s) \<in> set (db_change_scopes d))"
  by (force simp: window_candidates_def)

lemma candidates_after:
  "window_candidates d p tbl variable values s throughSeq =
     filter (\<lambda>x. s < x) (window_candidates d p tbl variable values afterSeq throughSeq)" if "afterSeq \<le> s"
proof (rule sorted_distinct_set_unique)
  show "set (window_candidates d p tbl variable values s throughSeq) =
      set (filter ((<) s) (window_candidates d p tbl variable values afterSeq throughSeq))"
    using that by (auto simp: window_candidates_set)
qed (simp_all add: window_candidates_def sorted_wrt_filter)

lemma candidates_bounds:
  "s \<in> set (window_candidates d p tbl variable values afterSeq throughSeq) \<Longrightarrow> afterSeq < s \<and> s \<le> throughSeq"
  by (simp add: window_candidates_set)

function windowLoop ::
    "db \<Rightarrow> jsstring \<Rightarrow> CommitWindowQuery \<Rightarrow> jsstring \<Rightarrow> jsstring list \<Rightarrow> int \<Rightarrow> int \<Rightarrow> StoredCommit list \<Rightarrow> StoredCommit list" where
  "windowLoop d p query firstVariable firstValues afterSeq deliveredChanges commits =
     (if \<not> deliveredChanges < cw_limitChanges query then commits
      else
        (let batchSize = max 64 (cw_limitChanges query);
             records = commitWindowPage d p (cw_table query) firstVariable firstValues afterSeq
                         (cw_throughSeq query) batchSize in
         if records = [] then commits
         else
           (let page = collectCommitWindowPage records (cw_scopeFilter query) (cw_limitChanges query - deliveredChanges) in
            if wp_candidateCount page < batchSize then commits @ wp_commits page
            else windowLoop d p query firstVariable firstValues (wp_lastSeq page)
                   (deliveredChanges + wp_delivered page) (commits @ wp_commits page))))"
  by pat_completeness auto
termination
proof (relation "measure (\<lambda>(d, p, query, v, vs, after, _). length (window_candidates d p (cw_table query) v vs after (cw_throughSeq query)))", goal_cases)
  case (2 d p query v vs after delivered commits batch records page)
  let ?cands = "window_candidates d p (cw_table query) v vs after (cw_throughSeq query)"
  let ?seqs = "take (nat batch) ?cands"
  have rem: "0 < cw_limitChanges query - delivered" using 2(1) by simp
  have records: "records = concat (map (window_records_of d p (cw_table query)) ?seqs)"
    using 2(3) by (simp add: commitWindowPage_def)
  then have ne: "?seqs \<noteq> []" using 2(4) window_page_empty by metis
  have "wp_lastSeq page \<in> set ?seqs"
    using collectSeqs_result(4) [OF _ ne, of _ "cw_limitChanges query - delivered"] rem
    unfolding 2(5) records collect_page by simp
  then have in_c: "wp_lastSeq page \<in> set ?cands" by (rule in_set_takeD)
  have "window_candidates d p (cw_table query) v vs (wp_lastSeq page) (cw_throughSeq query)
      = filter ((<) (wp_lastSeq page)) ?cands"
    using candidates_bounds [OF in_c] by (intro candidates_after) simp
  then show ?case using length_filter_less [OF in_c, of "(<) (wp_lastSeq page)"] by simp
qed simp

declare windowLoop.simps [simp del]

definition readCommitWindow :: "db \<Rightarrow> jsstring \<Rightarrow> CommitWindowQuery \<Rightarrow> StoredCommit list" where
  "readCommitWindow d p query =
     (case sort (map fst (cw_scopeFilter query)) of
        [] \<Rightarrow> []
      | firstVariable # _ \<Rightarrow>
          (let firstValues = (case map_of (cw_scopeFilter query) firstVariable of None \<Rightarrow> [] | Some vs \<Rightarrow> vs) in
           if firstValues = [] then []
           else windowLoop d p query firstVariable firstValues (cw_afterSeq query) 0 []))"

lemma filter_after_page:
  fixes xs :: "'a::linorder list"
  assumes "sorted xs" "distinct xs" "take n xs \<noteq> []"
  shows "filter ((<) (List.last (take n xs))) xs = drop n xs"
proof -
  obtain ys y where y: "take n xs = ys @ [y]" using assms(3) by (cases "take n xs" rule: rev_cases) auto
  then have xs: "xs = ys @ y # drop n xs" by (metis append.assoc append_Cons append_Nil append_take_drop_id)
  then have "\<forall>a\<in>set ys. a \<le> y" and "\<forall>b\<in>set (drop n xs). y \<le> b \<and> y \<noteq> b"
    using assms(1,2) by (metis sorted_append list.set_intros(1), metis sorted_append sorted_simps(2) distinct_append distinct.simps(2))
  then have "filter ((<) y) ys = []" and "filter ((<) y) (drop n xs) = drop n xs"
    by (auto simp: filter_empty_conv filter_id_conv)
  then have "filter ((<) y) (ys @ y # drop n xs) = drop n xs" by simp
  then show ?thesis using xs y by simp
qed

lemma windowLoop_spec:
  "windowLoop d p query v vs after delivered commits =
     commits @ take_budget (cw_limitChanges query - delivered)
       (List.map_filter (window_commit d p (cw_table query) (cw_scopeFilter query))
          (window_candidates d p (cw_table query) v vs after (cw_throughSeq query)))"
proof (induction d p query v vs after delivered commits rule: windowLoop.induct)
  case (1 d p query v vs after delivered commits)
  let ?limit = "cw_limitChanges query"
  let ?batch = "max 64 ?limit"
  let ?cands = "\<lambda>after. window_candidates d p (cw_table query) v vs after (cw_throughSeq query)"
  let ?f = "window_commit d p (cw_table query) (cw_scopeFilter query)"
  let ?seqs = "take (nat ?batch) (?cands after)" and ?rest = "drop (nat ?batch) (?cands after)"
  let ?records = "commitWindowPage d p (cw_table query) v vs after (cw_throughSeq query) ?batch"
  let ?page = "collectCommitWindowPage ?records (cw_scopeFilter query) (?limit - delivered)"
  let ?got = "take_budget (?limit - delivered) (List.map_filter ?f ?seqs)"
  show ?case
  proof (cases "delivered < ?limit")
    case False
    then show ?thesis by (simp add: windowLoop.simps take_budget_0)
  next
    case open_: True
    then have rem: "0 < ?limit - delivered" by simp
    have split: "take_budget (?limit - delivered) (List.map_filter ?f (?cands after)) =
        ?got @ take_budget (?limit - delivered - change_count ?got) (List.map_filter ?f ?rest)"
      using take_budget_append [of "?limit - delivered" "List.map_filter ?f ?seqs" "List.map_filter ?f ?rest"]
      by (simp add: map_filter_def flip: filter_append map_append)
    have records: "?records = concat (map (window_records_of d p (cw_table query)) ?seqs)"
      by (simp add: commitWindowPage_def)
    show ?thesis
    proof (cases "?seqs = []")
      case True
      then have "?cands after = []" by (cases "?cands after") auto
      then show ?thesis using open_ True records by (simp add: windowLoop.simps List.map_filter_simps)
    next
      case ne: False
      then have rne: "?records \<noteq> []" unfolding records window_page_empty .
      let ?start = "\<lparr>wp_commits = [], wp_delivered = 0, wp_lastSeq = 0, wp_candidateCount = 0\<rparr> :: WindowPage"
      have page: "?page = collectSeqs ?f (?limit - delivered) ?seqs ?start"
        unfolding records by (rule collect_page)
      have commits: "wp_commits ?page = ?got" and count: "wp_delivered ?page = change_count ?got"
        using collectSeqs_result(1,2) [of ?start "?limit - delivered" ?f ?seqs] rem unfolding page by simp_all
      have step: "windowLoop d p query v vs after delivered commits =
          (if wp_candidateCount ?page < ?batch then commits @ wp_commits ?page
           else windowLoop d p query v vs (wp_lastSeq ?page) (delivered + wp_delivered ?page) (commits @ wp_commits ?page))"
        using open_ rne by (subst windowLoop.simps) (simp only: Let_def not_not if_True if_False simp_thms)
      show ?thesis
      proof (cases "change_count ?got < ?limit - delivered")
        case True
        then have lastSeq: "wp_lastSeq ?page = List.last ?seqs" and cnt: "wp_candidateCount ?page = int (length ?seqs)"
          using collectSeqs_result(3) [of ?start "?limit - delivered" ?f ?seqs] rem ne count unfolding page by simp_all
        show ?thesis
        proof (cases "int (length ?seqs) < ?batch")
          case short: True
          then have "?rest = []" by auto
          then have "take_budget n (List.map_filter ?f ?rest) = []" for n by (simp add: List.map_filter_simps)
          then show ?thesis unfolding step split cnt if_P [OF short] commits by simp
        next
          case full: False
          have "after < List.last ?seqs"
            using candidates_bounds [of "List.last ?seqs" d p "cw_table query" v vs after] ne
            by (meson in_set_takeD last_in_set)
          then have "?cands (List.last ?seqs) = filter ((<) (List.last ?seqs)) (?cands after)"
            by (intro candidates_after) simp
          also have "\<dots> = ?rest"
            using ne by (intro filter_after_page) (simp_all add: window_candidates_def)
          finally have rest: "?cands (List.last ?seqs) = ?rest" .
          have "windowLoop d p query v vs (wp_lastSeq ?page) (delivered + wp_delivered ?page) (commits @ wp_commits ?page) =
              (commits @ ?got) @ take_budget (?limit - (delivered + change_count ?got)) (List.map_filter ?f ?rest)"
            using "1.IH" [OF _ refl refl rne refl] open_ full cnt unfolding commits count lastSeq rest by simp
          then show ?thesis unfolding step split cnt if_not_P [OF full] by (simp only: append_assoc diff_diff_eq)
        qed
      next
        case stop: False
        have "windowLoop d p query v vs s (delivered + wp_delivered ?page) cs = cs" for s cs
          using stop count by (subst windowLoop.simps) simp
        moreover have "take_budget (?limit - delivered - change_count ?got) cs = []" for cs
          using stop by (intro take_budget_0) simp
        ultimately show ?thesis unfolding step split by (simp add: commits)
      qed
    qed
  qed
qed

section \<open>The window as a filter of the log\<close>

text \<open>
  The reference: every logged commit of the partition in the window, in ascending order, with
  its changes of the table that match the scope filter, if there are any.
\<close>

definition log_seqs :: "db \<Rightarrow> jsstring \<Rightarrow> int \<Rightarrow> int \<Rightarrow> int list" where
  "log_seqs d p afterSeq throughSeq =
     sort (map co_commitSeq (filter (\<lambda>c. co_partition c = p \<and> afterSeq < co_commitSeq c \<and> co_commitSeq c \<le> throughSeq) (db_commits d)))"

definition matching_commits :: "db \<Rightarrow> jsstring \<Rightarrow> jsstring \<Rightarrow> scope_map \<Rightarrow> int \<Rightarrow> int \<Rightarrow> StoredCommit list" where
  "matching_commits d p tbl scopeFilter afterSeq throughSeq =
     List.map_filter (window_commit d p tbl scopeFilter) (log_seqs d p afterSeq throughSeq)"

definition scope_filter_ok :: "scope_map \<Rightarrow> bool" where
  "scope_filter_ok f \<longleftrightarrow> f \<noteq> [] \<and> distinct (map fst f) \<and> list_all (\<lambda>(k, vs). vs \<noteq> []) f"

lemma map_filter_subset:
  fixes xs ys :: "'a::linorder list"
  assumes "sorted xs" "distinct xs" "sorted ys" "distinct ys" "set xs \<subseteq> set ys"
    and "\<And>y. y \<in> set ys \<Longrightarrow> y \<notin> set xs \<Longrightarrow> f y = None"
  shows "List.map_filter f xs = List.map_filter f ys"
proof -
  have "xs = filter (\<lambda>y. y \<in> set xs) ys"
    using assms(1-5) by (intro sorted_distinct_set_unique) (auto simp: sorted_wrt_filter)
  moreover have "List.map_filter f (filter (\<lambda>y. y \<in> set xs) ys) = List.map_filter f ys"
    using assms(6) by (induction ys) (auto simp: List.map_filter_simps split: option.splits)
  ultimately show ?thesis by simp
qed

lemma log_seqs_set:
  "s \<in> set (log_seqs d p afterSeq throughSeq) \<longleftrightarrow>
     afterSeq < s \<and> s \<le> throughSeq \<and> (p, s) \<in> commit_key ` set (db_commits d)"
  by (force simp: log_seqs_def commit_key_def)

lemma log_seqs_sorted: "log_ok d \<Longrightarrow> sorted (log_seqs d p a b) \<and> distinct (log_seqs d p a b)"
  by (auto simp: log_seqs_def log_ok_def distinct_map inj_on_def commit_key_def)

lemma commit_changes_set:
  "change \<in> set (commit_changes d p seq tbl) \<longleftrightarrow>
     (\<exists>c\<in>set (db_changes d). cg_partition c = p \<and> cg_commitSeq c = seq \<and> ch_table change = tbl \<and> cg_change c = change)"
  by (auto simp: commit_changes_def)

lemma window_commit_Some:
  "window_commit d p tbl f seq = Some c \<longleftrightarrow>
     (\<exists>actor at. commit_meta d p seq = Some (actor, at) \<and>
        c = \<lparr>cm_commitSeq = seq, cm_createdAtMs = at, cm_actorId = actor,
             cm_changes = filter (\<lambda>ch. matchesEffective (ch_scopes ch) f) (commit_changes d p seq tbl)\<rparr> \<and>
        cm_changes c \<noteq> [])"
  by (auto simp: window_commit_def Let_def split: option.splits if_splits)

lemma candidates_cover:
  assumes "log_ok d" and "(variable, values) \<in> set f" and "window_commit d p tbl f seq \<noteq> None"
    and "afterSeq < seq" "seq \<le> throughSeq"
  shows "seq \<in> set (window_candidates d p tbl variable values afterSeq throughSeq)"
proof -
  from assms(3) obtain ch where "ch \<in> set (commit_changes d p seq tbl)" "matchesEffective (ch_scopes ch) f"
    by (fastforce simp: window_commit_Some filter_empty_conv)
  then obtain c where c: "c \<in> set (db_changes d)" "cg_partition c = p" "cg_commitSeq c = seq"
      "ch_table (cg_change c) = tbl" "matchesEffective (ch_scopes (cg_change c)) f"
    by (auto simp: commit_changes_set)
  then obtain v where v: "v \<in> set values" "map_of (ch_scopes (cg_change c)) variable = Some v"
    using assms(2) by (fastforce simp: matchesEffective_iff)
  then have "(p, tbl, variable, v, seq) \<in> change_index_of c"
    using c by (force simp: change_index_of_def dest: map_of_SomeD)
  then have "(p, tbl, variable, v, seq) \<in> set (db_change_scopes d)"
    using assms(1) c(1) by (auto simp: log_ok_def)
  then show ?thesis using assms(4,5) v(1) by (auto simp: window_candidates_set)
qed

lemma candidates_logged:
  assumes "log_ok d"
  shows "set (window_candidates d p tbl variable values afterSeq throughSeq) \<subseteq> set (log_seqs d p afterSeq throughSeq)"
proof
  fix s assume "s \<in> set (window_candidates d p tbl variable values afterSeq throughSeq)"
  then obtain v where s: "afterSeq < s" "s \<le> throughSeq" "(p, tbl, variable, v, s) \<in> set (db_change_scopes d)"
    by (auto simp: window_candidates_set)
  then obtain c where "c \<in> set (db_changes d)" "fst (change_key c) = (p, s)"
    using assms by (auto simp: log_ok_def change_index_of_def change_key_def)
  then show "s \<in> set (log_seqs d p afterSeq throughSeq)"
    using assms s by (force simp: log_seqs_set log_ok_def)
qed

lemma readCommitWindow_spec:
  assumes "log_ok d" and ok: "scope_filter_ok (cw_scopeFilter query)"
  shows "readCommitWindow d p query =
    take_budget (cw_limitChanges query)
      (matching_commits d p (cw_table query) (cw_scopeFilter query) (cw_afterSeq query) (cw_throughSeq query))"
proof -
  let ?f = "cw_scopeFilter query"
  obtain variable keys where keys: "sort (map fst ?f) = variable # keys"
    using ok by (cases "sort (map fst ?f)") (auto simp: scope_filter_ok_def dest!: arg_cong [of _ _ length])
  then have "variable \<in> fst ` set ?f" by (metis list.set_intros(1) set_map set_sort)
  then obtain vals where v: "(variable, vals) \<in> set ?f" by auto
  then have m: "map_of ?f variable = Some vals" and ne: "vals \<noteq> []"
    using ok by (auto simp: scope_filter_ok_def list_all_iff)
  have "readCommitWindow d p query = windowLoop d p query variable vals (cw_afterSeq query) 0 []"
    using ne by (simp add: readCommitWindow_def keys m)
  also have "\<dots> = take_budget (cw_limitChanges query)
      (List.map_filter (window_commit d p (cw_table query) ?f)
        (window_candidates d p (cw_table query) variable vals (cw_afterSeq query) (cw_throughSeq query)))"
    by (simp add: windowLoop_spec)
  also have "List.map_filter (window_commit d p (cw_table query) ?f)
        (window_candidates d p (cw_table query) variable vals (cw_afterSeq query) (cw_throughSeq query)) =
      matching_commits d p (cw_table query) ?f (cw_afterSeq query) (cw_throughSeq query)"
    unfolding matching_commits_def
    using log_seqs_sorted [OF assms(1)] candidates_logged [OF assms(1)] candidates_cover [OF assms(1) v]
    by (intro map_filter_subset) (simp add: window_candidates_def, simp add: window_candidates_def, blast, blast, blast,
        metis log_seqs_set)
  finally show ?thesis .
qed

end
