(* ===== verification/Row_Scan.thy ===== *)
theory Row_Scan
  imports Commit_Window
begin

text \<open>
  \<open>scanRows\<close> of \<open>sqlite-storage.ts\<close>: keyset paging over the row-scope index with the statement of
  \<open>scanRowPageSql\<close>. It returns the rows of the table that match the scope filter, in the order of
  their ids, after the given id and up to the limit: snapshots are complete.
\<close>

section \<open>The loop\<close>

definition text_key :: "jsstring \<Rightarrow> byte list" where
  "text_key s = text_encode s"

definition scan_candidates :: "db \<Rightarrow> jsstring \<Rightarrow> jsstring \<Rightarrow> jsstring \<Rightarrow> jsstring list \<Rightarrow> jsstring \<Rightarrow> jsstring list" where
  "scan_candidates d p tbl variable values afterRowId =
     sort_key text_key (remdups (map (\<lambda>(_, _, _, _, r). r)
       (filter (\<lambda>(p', t, x, v, r). p' = p \<and> t = tbl \<and> x = variable \<and> v \<in> set values \<and> text_key afterRowId < text_key r)
         (db_row_scopes d))))"

text \<open>A page: the candidates left-joined to the row table.\<close>

definition scanRowPage ::
    "db \<Rightarrow> jsstring \<Rightarrow> jsstring \<Rightarrow> jsstring \<Rightarrow> jsstring list \<Rightarrow> jsstring \<Rightarrow> int \<Rightarrow> (jsstring \<times> StoredRow option) list" where
  "scanRowPage d p tbl variable values afterRowId limit =
     map (\<lambda>r. (r, stored_row d (p, tbl, r)))
       (take (nat limit) (scan_candidates d p tbl variable values afterRowId))"

fun scanPageLoop ::
    "scope_map \<Rightarrow> int \<Rightarrow> (jsstring \<times> StoredRow option) list \<Rightarrow> StoredRow list \<Rightarrow> jsstring \<Rightarrow> StoredRow list \<times> jsstring" where
  "scanPageLoop scopeFilter limit [] rows afterRowId = (rows, afterRowId)"
| "scanPageLoop scopeFilter limit ((rowId, payload) # records) rows afterRowId =
     (case payload of
        None \<Rightarrow> scanPageLoop scopeFilter limit records rows rowId
      | Some stored \<Rightarrow>
          if \<not> matchesEffective (st_scopes stored) scopeFilter then scanPageLoop scopeFilter limit records rows rowId
          else if int (length (rows @ [stored])) \<ge> limit then (rows @ [stored], rowId)
          else scanPageLoop scopeFilter limit records (rows @ [stored]) rowId)"

lemma text_key_inj: "well_formed a \<Longrightarrow> well_formed b \<Longrightarrow> text_key a = text_key b \<Longrightarrow> a = b"
  by (metis option.inject scalar_code_points text_encode_def text_key_def units_code_points utf8_decode_bytes)

lemma scan_candidates_set:
  "r \<in> set (scan_candidates d p tbl variable values afterRowId) \<longleftrightarrow>
     text_key afterRowId < text_key r \<and> (\<exists>v\<in>set values. (p, tbl, variable, v, r) \<in> set (db_row_scopes d))"
  by (force simp: scan_candidates_def)

lemma scanPageLoop_cursor: "snd (scanPageLoop f limit records rows after) \<in> insert after (fst ` set records)"
  by (induction f limit records rows after rule: scanPageLoop.induct) (auto split: option.splits)

lemma scanPageLoop_after:
  assumes "records \<noteq> []"
  shows "snd (scanPageLoop f limit records rows after) \<in> fst ` set records"
proof -
  obtain r pl rest where "records = (r, pl) # rest" using assms by (cases records) auto
  then show ?thesis
    using scanPageLoop_cursor [of f limit rest rows r] scanPageLoop_cursor [of f limit rest "rows @ [the pl]" r]
    by (cases pl) simp_all
qed

lemma scan_candidates_after:
  assumes "s \<in> set (scan_candidates d p tbl variable values afterRowId)"
  shows "set (scan_candidates d p tbl variable values s) \<subset> set (scan_candidates d p tbl variable values afterRowId)"
  using assms by (auto simp: scan_candidates_set intro: less_trans)

function scanLoop ::
    "db \<Rightarrow> jsstring \<Rightarrow> RowScanQuery \<Rightarrow> jsstring \<Rightarrow> jsstring list \<Rightarrow> jsstring \<Rightarrow> StoredRow list \<Rightarrow> StoredRow list" where
  "scanLoop d p query firstVariable firstValues afterRowId rows =
     (if \<not> int (length rows) < sq_limit query then rows
      else
        (let batchSize = max 64 (sq_limit query);
             records = scanRowPage d p (sq_table query) firstVariable firstValues afterRowId batchSize in
         if records = [] then rows
         else
           (let out = scanPageLoop (sq_scopeFilter query) (sq_limit query) records rows afterRowId in
            if int (length records) < batchSize then fst out
            else scanLoop d p query firstVariable firstValues (snd out) (fst out))))"
  by pat_completeness auto
termination
proof (relation "measure (\<lambda>(d, p, query, v, vs, after, _). card (set (scan_candidates d p (sq_table query) v vs after)))", goal_cases)
  case (2 d p query v vs after rows batch records out)
  have "snd out \<in> fst ` set records" using scanPageLoop_after [OF 2(4)] 2(5) by simp
  then have "snd out \<in> set (scan_candidates d p (sq_table query) v vs after)"
    using 2(3) by (auto simp: scanRowPage_def dest: in_set_takeD)
  then show ?case using scan_candidates_after by (simp add: psubset_card_mono)
qed simp

declare scanLoop.simps [simp del]

definition assertScopeIndexedScan :: "RowScanQuery \<Rightarrow> StorageError + jsstring" where
  "assertScopeIndexedScan query =
     (case sort (map fst (sq_scopeFilter query)) of [] \<Rightarrow> Inl ScanRequiresScope | firstVariable # _ \<Rightarrow> Inr firstVariable)"

definition scanRows :: "db \<Rightarrow> jsstring \<Rightarrow> RowScanQuery \<Rightarrow> StorageError + StoredRow list" where
  "scanRows d p query =
     bindE (assertScopeIndexedScan query) (\<lambda>firstVariable.
       (let firstValues = (case map_of (sq_scopeFilter query) firstVariable of None \<Rightarrow> [] | Some vs \<Rightarrow> vs) in
        if firstValues = [] then Inr []
        else bindE (table_of d (sq_table query)) (\<lambda>_.
          Inr (scanLoop d p query firstVariable firstValues
                (case sq_afterRowId query of None \<Rightarrow> [] | Some r \<Rightarrow> r) []))))"

section \<open>The scan as a filter of the rows\<close>

text \<open>The row of an id, when it matches the filter.\<close>

definition scanned_row :: "db \<Rightarrow> jsstring \<Rightarrow> jsstring \<Rightarrow> scope_map \<Rightarrow> jsstring \<Rightarrow> StoredRow option" where
  "scanned_row d p tbl f r =
     (case stored_row d (p, tbl, r) of
        None \<Rightarrow> None | Some row \<Rightarrow> if matchesEffective (st_scopes row) f then Some row else None)"

definition matching_rows :: "db \<Rightarrow> jsstring \<Rightarrow> jsstring \<Rightarrow> scope_map \<Rightarrow> jsstring \<Rightarrow> StoredRow list" where
  "matching_rows d p tbl f afterRowId =
     filter (\<lambda>row. matchesEffective (st_scopes row) f \<and> text_key afterRowId < text_key (st_rowId row))
       (sort_key (\<lambda>row. text_key (st_rowId row))
         (map (\<lambda>(_, _, row). row) (filter (\<lambda>(p', t, _). p' = p \<and> t = tbl) (db_rows d))))"

definition row_ids_ok :: "db \<Rightarrow> bool" where
  "row_ids_ok d \<longleftrightarrow> (\<forall>(p, t, row)\<in>set (db_rows d). well_formed (st_rowId row))"

lemma filter_after_key:
  fixes key :: "'a \<Rightarrow> 'b::linorder"
  assumes "sorted (map key xs)" "distinct (map key xs)" "take n xs \<noteq> []"
  shows "filter (\<lambda>x. key (List.last (take n xs)) < key x) xs = drop n xs"
proof -
  have "filter ((<) (List.last (take n (map key xs)))) (map key xs) = drop n (map key xs)"
    using assms by (intro filter_after_page) auto
  then have "map key (filter (\<lambda>x. key (List.last (take n xs)) < key x) xs) = map key (drop n xs)"
    using assms(3) by (simp add: filter_map comp_def take_map drop_map last_map)
  moreover have "inj_on key (set xs)" using assms(2) by (simp add: distinct_map)
  ultimately show ?thesis
    by (metis (no_types, lifting) filter_is_subset inj_on_map_eq_map inj_on_subset le_sup_iff set_drop_subset)
qed

lemma sorted_keys_unique:
  fixes key :: "'a \<Rightarrow> 'b::linorder"
  assumes "inj_on key (set xs \<union> set ys)" "set xs = set ys" "distinct xs" "distinct ys"
    and "sorted (map key xs)" "sorted (map key ys)"
  shows "xs = ys"
proof -
  have "map key xs = map key ys"
    using assms by (intro sorted_distinct_set_unique) (auto simp: distinct_map intro: inj_on_subset)
  then show ?thesis using assms(1) inj_on_map_eq_map by blast
qed

lemma scanPageLoop_result:
  assumes "int (length rows) < limit"
  shows "fst (scanPageLoop f limit (map (\<lambda>r. (r, stored_row d (p, tbl, r))) seqs) rows after) =
      rows @ take (nat limit - length rows) (List.map_filter (scanned_row d p tbl f) seqs)"
    and "int (length (fst (scanPageLoop f limit (map (\<lambda>r. (r, stored_row d (p, tbl, r))) seqs) rows after))) < limit \<Longrightarrow>
      seqs \<noteq> [] \<Longrightarrow>
      snd (scanPageLoop f limit (map (\<lambda>r. (r, stored_row d (p, tbl, r))) seqs) rows after) = List.last seqs"
  using assms
proof (induction seqs arbitrary: rows after)
  case (Cons r seqs)
  {
    case 1
    have "nat limit - length rows = Suc (nat limit - Suc (length rows))" using 1 by simp
    then show ?case using 1 Cons.IH(1)
      by (auto simp: List.map_filter_simps scanned_row_def split: option.splits)
  next
    case 2
    then show ?case using Cons.IH(2) by (cases "seqs = []") (auto split: option.splits if_splits)
  }
qed (simp_all add: List.map_filter_simps)

lemma scan_candidates_sorted:
  "sorted (map text_key (scan_candidates d p tbl v vs after))" "distinct (scan_candidates d p tbl v vs after)"
  by (simp_all add: scan_candidates_def)

lemma scan_candidates_wf:
  assumes "rows_ok d" "row_ids_ok d" "r \<in> set (scan_candidates d p tbl v vs after)"
  shows "well_formed r"
  using assms by (fastforce simp: scan_candidates_set rows_ok_def row_ids_ok_def row_index_of_def)

lemma scan_candidates_inj:
  assumes "rows_ok d" "row_ids_ok d"
  shows "inj_on text_key (set (scan_candidates d p tbl v vs after))"
  using scan_candidates_wf [OF assms] text_key_inj unfolding inj_on_def by blast

lemma scan_candidates_rest:
  assumes ok: "rows_ok d" "row_ids_ok d" and ne: "take n (scan_candidates d p tbl v vs after) \<noteq> []"
  shows "scan_candidates d p tbl v vs (List.last (take n (scan_candidates d p tbl v vs after))) =
    drop n (scan_candidates d p tbl v vs after)"
proof -
  let ?c = "scan_candidates d p tbl v vs"
  let ?s = "List.last (take n (?c after))"
  have "?s \<in> set (?c after)" using ne by (meson in_set_takeD last_in_set)
  then have gt: "text_key after < text_key ?s" by (simp add: scan_candidates_set)
  have "?c ?s = filter (\<lambda>x. text_key ?s < text_key x) (?c after)"
  proof (rule sorted_keys_unique [where key = text_key])
    show "set (?c ?s) = set (filter (\<lambda>x. text_key ?s < text_key x) (?c after))"
      using gt by (auto simp: scan_candidates_set intro: less_trans)
    then show "inj_on text_key (set (?c ?s) \<union> set (filter (\<lambda>x. text_key ?s < text_key x) (?c after)))"
      by (intro inj_on_subset [OF scan_candidates_inj [OF ok, of p tbl v vs after]]) auto
  qed (auto simp: scan_candidates_sorted sorted_filter)
  also have "\<dots> = drop n (?c after)"
    using ne scan_candidates_inj [OF ok]
    by (intro filter_after_key) (auto simp: scan_candidates_sorted distinct_map)
  finally show ?thesis .
qed

lemma scanLoop_spec:
  assumes "rows_ok d" "row_ids_ok d"
  shows "scanLoop d p query v vs after rows =
     rows @ take (nat (sq_limit query) - length rows)
       (List.map_filter (scanned_row d p (sq_table query) (sq_scopeFilter query))
          (scan_candidates d p (sq_table query) v vs after))"
  using assms
proof (induction d p query v vs after rows rule: scanLoop.induct)
  case (1 d p query v vs after rows)
  let ?limit = "sq_limit query" and ?tbl = "sq_table query"
  let ?batch = "max 64 ?limit"
  let ?c = "scan_candidates d p ?tbl v vs"
  let ?f = "scanned_row d p ?tbl (sq_scopeFilter query)"
  let ?ids = "take (nat ?batch) (?c after)" and ?rest = "drop (nat ?batch) (?c after)"
  let ?records = "scanRowPage d p ?tbl v vs after ?batch"
  let ?out = "scanPageLoop (sq_scopeFilter query) ?limit ?records rows after"
  let ?got = "take (nat ?limit - length rows) (List.map_filter ?f ?ids)"
  show ?case
  proof (cases "int (length rows) < ?limit")
    case False
    then show ?thesis by (simp add: scanLoop.simps)
  next
    case open_: True
    have records: "?records = map (\<lambda>r. (r, stored_row d (p, ?tbl, r))) ?ids" by (simp add: scanRowPage_def)
    have cat: "List.map_filter ?f (?c after) = List.map_filter ?f ?ids @ List.map_filter ?f ?rest"
      by (simp add: map_filter_def flip: filter_append map_append)
    show ?thesis
    proof (cases "?ids = []")
      case True
      then have "?c after = []" by (cases "?c after") auto
      then show ?thesis using open_ True records by (simp add: scanLoop.simps List.map_filter_simps)
    next
      case ne: False
      then have rne: "?records \<noteq> []" unfolding records by simp
      have step: "scanLoop d p query v vs after rows =
          (if int (length ?records) < ?batch then fst ?out else scanLoop d p query v vs (snd ?out) (fst ?out))"
        using open_ rne by (subst scanLoop.simps) (simp only: Let_def not_not if_True if_False simp_thms)
      have out: "fst ?out = rows @ ?got" unfolding records using open_ by (rule scanPageLoop_result(1))
      show ?thesis
      proof (cases "int (length ?records) < ?batch")
        case True
        then have "?rest = []" unfolding records by auto
        then have "List.map_filter ?f ?rest = []" by (simp add: List.map_filter_simps)
        then show ?thesis unfolding step if_P [OF True] out cat by simp
      next
        case full: False
        have rec: "scanLoop d p query v vs (snd ?out) (fst ?out) = fst ?out @ take (nat ?limit - length (fst ?out))
            (List.map_filter ?f (?c (snd ?out)))"
          using "1.IH" [OF _ refl refl rne refl full] open_ "1.prems" by simp
        show ?thesis
        proof (cases "int (length (fst ?out)) < ?limit")
          case True
          have "snd ?out = List.last ?ids"
            using True ne unfolding records by (intro scanPageLoop_result(2) [OF open_]) simp_all
          then have rest: "?c (snd ?out) = ?rest" using scan_candidates_rest [OF "1.prems" ne] by simp
          have "?got = List.map_filter ?f ?ids" using True unfolding out by simp
          then show ?thesis using rec unfolding step if_not_P [OF full] rest cat by (simp add: out)
        next
          case stop: False
          then have "nat ?limit - length rows \<le> length (List.map_filter ?f ?ids)" unfolding out by simp
          then show ?thesis unfolding step if_not_P [OF full] rec cat using stop by (simp add: out)
        qed
      qed
    qed
  qed
qed

lemma stored_row_rows:
  assumes "rows_ok d"
  shows "stored_row d (p, t, r) = Some row \<longleftrightarrow> (p, t, row) \<in> set (db_rows d) \<and> st_rowId row = r"
  using assms find_by_Some_iff [of placed_key "db_rows d" "(p, t, r)"]
  by (force simp: rows_ok_def stored_row_def)

definition table_rows :: "db \<Rightarrow> jsstring \<Rightarrow> jsstring \<Rightarrow> StoredRow list" where
  "table_rows d p tbl = map (\<lambda>(_, _, row). row) (filter (\<lambda>(p', t, _). p' = p \<and> t = tbl) (db_rows d))"

lemma table_rows_set: "row \<in> set (table_rows d p tbl) \<longleftrightarrow> (p, tbl, row) \<in> set (db_rows d)"
  by (force simp: table_rows_def)

lemma table_rows_distinct: "rows_ok d \<Longrightarrow> distinct (map st_rowId (table_rows d p tbl))"
  by (fastforce simp: rows_ok_def table_rows_def distinct_map inj_on_def)

text \<open>The index candidates that have a matching row are the ids of the matching rows, in order.\<close>

lemma scan_candidates_rows:
  assumes ok: "rows_ok d" "row_ids_ok d" and v: "(v, vs) \<in> set f"
  shows "List.map_filter (scanned_row d p tbl f) (scan_candidates d p tbl v vs after) = matching_rows d p tbl f after"
proof -
  let ?c = "scan_candidates d p tbl v vs after"
  let ?hits = "filter (\<lambda>r. scanned_row d p tbl f r \<noteq> None) ?c"
  let ?rows = "matching_rows d p tbl f after"
  have hit: "r \<in> set ?hits \<longleftrightarrow> (\<exists>row\<in>set ?rows. st_rowId row = r)" for r
  proof
    assume "r \<in> set ?hits"
    then show "\<exists>row\<in>set ?rows. st_rowId row = r"
      by (auto simp: scanned_row_def scan_candidates_set stored_row_rows [OF ok(1)] matching_rows_def
          split: option.splits if_splits)
  next
    assume "\<exists>row\<in>set ?rows. st_rowId row = r"
    then obtain row where row: "(p, tbl, row) \<in> set (db_rows d)" "st_rowId row = r"
        "matchesEffective (st_scopes row) f" "text_key after < text_key r"
      by (auto simp: matching_rows_def)
    then have "scanned_row d p tbl f r = Some row"
      using stored_row_rows [OF ok(1), of p tbl r row] by (simp add: scanned_row_def)
    moreover obtain x where "x \<in> set vs" "map_of (st_scopes row) v = Some x"
      using row(3) v by (fastforce simp: matchesEffective_iff)
    then have "(p, tbl, v, x, r) \<in> row_index_of (p, tbl, row)" "x \<in> set vs"
      using row(2) by (auto simp: row_index_of_def dest!: map_of_SomeD)
    ultimately show "r \<in> set ?hits"
      using row ok(1) by (auto simp: scan_candidates_set rows_ok_def)
  qed
  have rows_dist: "distinct (map st_rowId ?rows)"
    using table_rows_distinct [OF ok(1), of p tbl] unfolding matching_rows_def table_rows_def [symmetric]
    by (auto simp: distinct_map intro: inj_on_subset)
  have ids: "?hits = map st_rowId ?rows"
  proof (rule sorted_keys_unique [where key = text_key])
    show "set ?hits = set (map st_rowId ?rows)" using hit by auto
    then show "inj_on text_key (set ?hits \<union> set (map st_rowId ?rows))"
      by (intro inj_on_subset [OF scan_candidates_inj [OF ok, of p tbl v vs after]]) auto
    show "sorted (map text_key (map st_rowId ?rows))"
      by (simp add: matching_rows_def comp_def sorted_filter)
  qed (simp_all add: scan_candidates_sorted sorted_filter rows_dist)
  have "List.map_filter (scanned_row d p tbl f) ?c = map (\<lambda>r. the (scanned_row d p tbl f r)) ?hits"
    by (simp add: map_filter_def comp_def)
  also have "\<dots> = map (\<lambda>row. the (scanned_row d p tbl f (st_rowId row))) ?rows" unfolding ids by simp
  also have "\<dots> = ?rows"
    by (rule map_idI) (auto simp: matching_rows_def scanned_row_def stored_row_rows [OF ok(1), THEN iffD2])
  finally show ?thesis .
qed

lemma scanRows_spec:
  assumes ok: "rows_ok d" "row_ids_ok d" and f: "scope_filter_ok (sq_scopeFilter query)"
    and t: "map_of (db_tables d) (sq_table query) \<noteq> None"
  shows "scanRows d p query = Inr (take (nat (sq_limit query))
    (matching_rows d p (sq_table query) (sq_scopeFilter query) (case sq_afterRowId query of None \<Rightarrow> [] | Some r \<Rightarrow> r)))"
proof -
  let ?f = "sq_scopeFilter query"
  obtain v keys where keys: "sort (map fst ?f) = v # keys"
    using f by (cases "sort (map fst ?f)") (auto simp: scope_filter_ok_def dest!: arg_cong [of _ _ length])
  then have "v \<in> fst ` set ?f" by (metis list.set_intros(1) set_map set_sort)
  then obtain vs where v: "(v, vs) \<in> set ?f" by auto
  then have m: "map_of ?f v = Some vs" and ne: "vs \<noteq> []"
    using f by (auto simp: scope_filter_ok_def list_all_iff)
  show ?thesis using t
    by (simp add: scanRows_def assertScopeIndexedScan_def keys m ne table_of_def scanLoop_spec [OF ok]
        scan_candidates_rows [OF ok v] split: option.splits)
qed

end
