(* ===== verification/Segment_Store.thy ===== *)
theory Segment_Store
  imports Storage
begin

text \<open>
  The content-addressed segment store (\<open>server/src/segment-store.ts\<close>) and the authorized download
  of a segment (\<open>segment-download.ts\<close>). SHA-256 is the parameter \<open>sha256\<close>; the host's
  \<open>resolveScopes\<close> is given by its outcome.
\<close>

section \<open>Records\<close>

record SegmentMetadata =
  sm_partition :: jsstring
  sm_logEpoch :: jsstring
  sm_table :: jsstring
  sm_schemaVersion :: int
  sm_mediaType :: SegmentMediaType
  sm_scopeDigest :: jsstring
  sm_asOfCommitSeq :: int
  sm_rowCount :: int
  sm_rowCursor :: "jsstring option"
  sm_nextRowCursor :: "jsstring option"

record SegmentRecord = SegmentMetadata +
  sm_segmentId :: jsstring
  sm_byteLength :: int
  sm_createdAtMs :: int
  sm_expiresAtMs :: int

record SegmentFindKey =
  sf_partition :: jsstring
  sf_logEpoch :: jsstring
  sf_table :: jsstring
  sf_schemaVersion :: int
  sf_mediaType :: SegmentMediaType
  sf_scopeDigest :: jsstring
  sf_asOfCommitSeq :: int

record SegmentStoreStats =
  sx_count :: int
  sx_bytes :: int
  sx_rowsSegments :: int
  sx_sqliteSegments :: int

definition DEFAULT_SEGMENT_TTL_MS :: int where
  "DEFAULT_SEGMENT_TTL_MS = 24 * 60 * 60 * 1000"

section \<open>The memory store\<close>

text \<open>The entries in the insertion order of the \<open>Map\<close>; setting an existing key keeps its place.\<close>

record MemorySegmentStore =
  ms_ttlMs :: int
  ms_entries :: "(jsstring \<times> SegmentRecord \<times> byte list) list"

definition newMemorySegmentStore :: "int option \<Rightarrow> MemorySegmentStore" where
  "newMemorySegmentStore ttlMs =
     \<lparr>ms_ttlMs = (case ttlMs of None \<Rightarrow> DEFAULT_SEGMENT_TTL_MS | Some t \<Rightarrow> t), ms_entries = []\<rparr>"

definition segmentIdFor :: "(byte list \<Rightarrow> byte list) \<Rightarrow> byte list \<Rightarrow> jsstring" where
  "segmentIdFor sha256 bytes = js ''sha256:'' @ sha256Hex sha256 bytes"

definition seg_put ::
    "(byte list \<Rightarrow> byte list) \<Rightarrow> SegmentMetadata \<Rightarrow> byte list \<Rightarrow> int \<Rightarrow> MemorySegmentStore \<Rightarrow> SegmentRecord \<times> MemorySegmentStore" where
  "seg_put sha256 m bytes nowMs store =
     (let segmentId = segmentIdFor sha256 bytes;
          rec = SegmentMetadata.extend m
                  (SegmentRecord.fields segmentId (int (length bytes)) nowMs (nowMs + ms_ttlMs store)) in
      (rec, store\<lparr>ms_entries := AList.update segmentId (rec, bytes) (ms_entries store)\<rparr>))"

definition seg_get :: "jsstring \<Rightarrow> MemorySegmentStore \<Rightarrow> (SegmentRecord \<times> byte list) option" where
  "seg_get segmentId store = map_of (ms_entries store) segmentId"

definition seg_matches :: "SegmentFindKey \<Rightarrow> int \<Rightarrow> SegmentRecord \<Rightarrow> bool" where
  "seg_matches key nowMs rec \<longleftrightarrow>
     sm_partition rec = sf_partition key \<and> sm_logEpoch rec = sf_logEpoch key \<and> sm_table rec = sf_table key \<and>
     sm_schemaVersion rec = sf_schemaVersion key \<and> sm_mediaType rec = sf_mediaType key \<and>
     sm_scopeDigest rec = sf_scopeDigest key \<and> sm_asOfCommitSeq rec = sf_asOfCommitSeq key \<and>
     sm_rowCursor rec = None \<and> sm_expiresAtMs rec > nowMs"

definition seg_find :: "SegmentFindKey \<Rightarrow> int \<Rightarrow> MemorySegmentStore \<Rightarrow> SegmentRecord option" where
  "seg_find key nowMs store = find (seg_matches key nowMs) (map (fst \<circ> snd) (ms_entries store))"

definition seg_stats :: "MemorySegmentStore \<Rightarrow> SegmentStoreStats" where
  "seg_stats store =
     (let recs = map (fst \<circ> snd) (ms_entries store) in
      \<lparr>sx_count = int (length recs), sx_bytes = sum_list (map sm_byteLength recs),
       sx_rowsSegments = int (length (filter (\<lambda>r. sm_mediaType r \<noteq> MediaSqlite) recs)),
       sx_sqliteSegments = int (length (filter (\<lambda>r. sm_mediaType r = MediaSqlite) recs))\<rparr>)"

section \<open>Download\<close>

datatype DownloadError =
    SegmentNotFound | SegmentExpired | TableNotServed | InvalidScopesHeader | InvalidRequestedScopes
  | ScopesNotHeld | DigestMismatch

fun header_entries :: "(jsstring \<times> json) list \<Rightarrow> scope_map \<Rightarrow> DownloadError + scope_map" where
  "header_entries [] scopes = Inr scopes"
| "header_entries ((key, JArray vs) # ms) scopes =
     (case those (map (\<lambda>v. case v of JString s \<Rightarrow> Some s | _ \<Rightarrow> None) vs) of
        None \<Rightarrow> Inl InvalidScopesHeader
      | Some strings \<Rightarrow> header_entries ms (AList.update key strings scopes))"
| "header_entries ((key, _) # ms) scopes = Inl InvalidScopesHeader"

definition parseScopesHeader :: "jsstring \<Rightarrow> DownloadError + scope_map" where
  "parseScopesHeader header =
     (case json_parse header of
        Some (JObject ms) \<Rightarrow> header_entries ms []
      | _ \<Rightarrow> Inl InvalidScopesHeader)"

text \<open>
  \<open>downloadSegment\<close> after the registry was touched; \<open>logEpoch\<close> is the partition's log epoch and
  \<open>resolved\<close> the outcome of the scope resolver, an outage or an exception being a failure.
\<close>

definition downloadSegment ::
    "(byte list \<Rightarrow> byte list) \<Rightarrow> CompiledSchema \<Rightarrow> jsstring \<Rightarrow> jsstring \<Rightarrow> ResolvedScopes \<Rightarrow> int \<Rightarrow> jsstring \<Rightarrow> jsstring
     \<Rightarrow> MemorySegmentStore \<Rightarrow> DownloadError + (SegmentRecord \<times> byte list)" where
  "downloadSegment sha256 schema part logEpoch resolved nowMs segmentId scopesHeader store =
     (case seg_get segmentId store of
        None \<Rightarrow> Inl SegmentNotFound
      | Some (rec, bytes) \<Rightarrow>
          if sm_partition rec \<noteq> part \<or> sm_logEpoch rec \<noteq> logEpoch then Inl SegmentNotFound
          else if sm_expiresAtMs rec \<le> nowMs then Inl SegmentExpired
          else (case map_of (cs_tables schema) (sm_table rec) of
              None \<Rightarrow> Inl TableNotServed
            | Some table \<Rightarrow>
                bindE (parseScopesHeader scopesHeader) (\<lambda>requested.
                  if list_ex (\<lambda>(key, vs). key \<notin> set (ct_declaredVariables table) \<or> star \<in> set vs) requested
                  then Inl InvalidRequestedScopes
                  else (case computeEffective requested resolved of
                      EffActive effective \<Rightarrow>
                        if scopeDigest sha256 effective \<noteq> sm_scopeDigest rec then Inl DigestMismatch
                        else Inr (rec, bytes)
                    | _ \<Rightarrow> Inl ScopesNotHeld))))"

section \<open>Lemmas\<close>

lemma seg_get_put:
  "seg_get k (snd (seg_put sha256 m bytes nowMs store)) =
     (if k = segmentIdFor sha256 bytes then Some (fst (seg_put sha256 m bytes nowMs store), bytes) else seg_get k store)"
  by (simp add: seg_get_def seg_put_def Let_def update_conv')

lemma seg_find_Some:
  assumes "seg_find key nowMs store = Some rec"
  shows "seg_matches key nowMs rec \<and> (\<exists>k bytes. (k, rec, bytes) \<in> set (ms_entries store))"
proof -
  have "seg_matches key nowMs rec" "rec \<in> set (map (fst \<circ> snd) (ms_entries store))"
    using assms unfolding seg_find_def find_Some_iff by auto
  then show ?thesis by force
qed

text \<open>What a store keeps of each entry: its id is the hash of its bytes and its length theirs.\<close>

definition segments_ok :: "(byte list \<Rightarrow> byte list) \<Rightarrow> MemorySegmentStore \<Rightarrow> bool" where
  "segments_ok sha256 store \<longleftrightarrow> distinct (map fst (ms_entries store)) \<and>
     (\<forall>(k, rec, bytes)\<in>set (ms_entries store).
        k = segmentIdFor sha256 bytes \<and> sm_segmentId rec = k \<and> sm_byteLength rec = int (length bytes) \<and>
        sm_expiresAtMs rec = sm_createdAtMs rec + ms_ttlMs store)"

lemma seg_put_fields:
  "sm_segmentId (fst (seg_put sha256 m bytes nowMs store)) = segmentIdFor sha256 bytes"
  "sm_byteLength (fst (seg_put sha256 m bytes nowMs store)) = int (length bytes)"
  "sm_createdAtMs (fst (seg_put sha256 m bytes nowMs store)) = nowMs"
  "sm_expiresAtMs (fst (seg_put sha256 m bytes nowMs store)) = nowMs + ms_ttlMs store"
  "SegmentMetadata.truncate (fst (seg_put sha256 m bytes nowMs store)) = m"
  by (simp_all add: seg_put_def Let_def SegmentMetadata.defs SegmentRecord.defs)

lemma segments_ok_put:
  assumes "segments_ok sha256 store"
  shows "segments_ok sha256 (snd (seg_put sha256 m bytes nowMs store))"
proof -
  let ?s = "snd (seg_put sha256 m bytes nowMs store)"
  have e: "ms_entries ?s = AList.update (segmentIdFor sha256 bytes) (fst (seg_put sha256 m bytes nowMs store), bytes) (ms_entries store)"
    "ms_ttlMs ?s = ms_ttlMs store"
    by (simp_all add: seg_put_def Let_def)
  have d: "distinct (map fst (ms_entries ?s))" using assms by (simp add: segments_ok_def e distinct_update)
  have "k = segmentIdFor sha256 b \<and> sm_segmentId rec = k \<and> sm_byteLength rec = int (length b) \<and>
      sm_expiresAtMs rec = sm_createdAtMs rec + ms_ttlMs ?s" if mem: "(k, rec, b) \<in> set (ms_entries ?s)" for k rec b
  proof -
    have get: "seg_get k ?s = Some (rec, b)" using mem d by (simp add: seg_get_def)
    show ?thesis
    proof (cases "k = segmentIdFor sha256 bytes")
      case True
      then show ?thesis using get e(2) by (auto simp: seg_get_put seg_put_fields)
    next
      case False
      then have "(k, rec, b) \<in> set (ms_entries store)" using get unfolding seg_get_put by (simp add: seg_get_def map_of_SomeD)
      then show ?thesis using assms by (auto simp: segments_ok_def e(2))
    qed
  qed
  with d show ?thesis by (auto simp: segments_ok_def)
qed

text \<open>A download that succeeds was authorized now.\<close>

lemma downloadSegment_Inr:
  assumes "downloadSegment sha256 schema part logEpoch resolved nowMs segmentId scopesHeader store = Inr (rec, bytes)"
  obtains requested effective where "seg_get segmentId store = Some (rec, bytes)"
    and "sm_partition rec = part" "sm_logEpoch rec = logEpoch" "nowMs < sm_expiresAtMs rec"
    and "parseScopesHeader scopesHeader = Inr requested"
    and "computeEffective requested resolved = EffActive effective"
    and "sm_scopeDigest rec = scopeDigest sha256 effective"
  using assms
  by (auto simp: downloadSegment_def bindE_eq_Inr split: option.split_asm if_split_asm prod.split_asm EffectiveOutcome.split_asm)

text \<open>
  Identical bytes share one entry, so a later put of the same bytes for another partition takes
  the entry over, and the descriptor handed out first answers as unknown.
\<close>

lemma shared_entry_lost:
  assumes "sm_partition m \<noteq> part"
  shows "downloadSegment sha256 schema part logEpoch resolved nowMs (segmentIdFor sha256 bytes) scopesHeader
    (snd (seg_put sha256 m bytes t store)) = Inl SegmentNotFound"
proof -
  have "sm_partition (fst (seg_put sha256 m bytes t store)) = sm_partition m"
    by (simp add: seg_put_def Let_def SegmentMetadata.defs)
  then show ?thesis using assms by (simp add: downloadSegment_def seg_get_put)
qed

end
