(* ===== verification/Pull.thy ===== *)
theory Pull
  imports Row_Scan Push_Result Segment Segment_Store
begin

text \<open>
  The pull path: \<open>server/src/pull.ts\<close>. One section answers one subscription with a revocation, a
  reset, a bootstrap of segments or the commits after its cursor.

  The storage is read several times while other requests go on: \<open>rd n\<close> is the database at the
  \<open>n\<close>-th read of the section. What the host configures is the record \<open>pull_env\<close>: SHA-256, the
  clock at its two readings, the inline limit, the issuer of signed URLs and the image builder.
  Events are left out.
\<close>

section \<open>Limits\<close>

definition ACCEPT_INLINE_ROWS :: nat where "ACCEPT_INLINE_ROWS = 0"
definition ACCEPT_EXTERNAL_ROWS :: nat where "ACCEPT_EXTERNAL_ROWS = 1"
definition ACCEPT_SQLITE :: nat where "ACCEPT_SQLITE = 2"
definition ACCEPT_SIGNED_URLS :: nat where "ACCEPT_SIGNED_URLS = 3"

record PullLimits =
  pl_limitCommits :: int
  pl_limitSnapshotRows :: int
  pl_maxSnapshotPages :: int
  pl_accept :: int

definition clamp :: "int \<Rightarrow> int \<Rightarrow> int \<Rightarrow> int \<Rightarrow> int" where
  "clamp v lo hi dflt = (if v = 0 then dflt else min hi (max lo v))"

definition clampPullLimits :: "PullHeaderFrame \<Rightarrow> PullLimits" where
  "clampPullLimits header =
     \<lparr>pl_limitCommits = clamp (ph_limitCommits header) 1 1000 1000,
      pl_limitSnapshotRows = clamp (ph_limitSnapshotRows header) 1 50000 1000,
      pl_maxSnapshotPages = clamp (ph_maxSnapshotPages header) 1 50 4,
      pl_accept = ph_accept header\<rparr>"

text \<open>A set bit of the accept mask.\<close>

definition accepts :: "PullLimits \<Rightarrow> nat \<Rightarrow> bool" where
  "accepts limits b \<longleftrightarrow> bit (pl_accept limits) b"

record SubscriptionPlan =
  sn_frame :: SubscriptionFrame
  sn_table :: CompiledTable
  sn_active :: bool
  sn_effective :: scope_map

record SubscriptionResult =
  sr_nextCursor :: int
  sr_active :: bool

section \<open>The bootstrap token\<close>

record BootstrapToken =
  bt_asOfCommitSeq :: js_number
  bt_tables :: "json list"
  bt_tableIndex :: js_number
  bt_rowCursor :: "jsstring option"

definition parseBootstrapToken :: "jsstring option \<Rightarrow> jsstring \<Rightarrow> BootstrapToken option" where
  "parseBootstrapToken raw table =
     (case raw of
        None \<Rightarrow> None
      | Some text \<Rightarrow>
          (case json_parse text of
             Some (JObject ms) \<Rightarrow>
               (case (map_of ms (js ''asOfCommitSeq''), map_of ms (js ''tables''), map_of ms (js ''tableIndex''),
                      map_of ms (js ''rowCursor'')) of
                  (Some (JNumber asOf), Some (JArray (JString t # ts)), Some (JNumber ix), Some JNull) \<Rightarrow>
                    if t = table then Some \<lparr>bt_asOfCommitSeq = asOf, bt_tables = JString t # ts, bt_tableIndex = ix, bt_rowCursor = None\<rparr>
                    else None
                | (Some (JNumber asOf), Some (JArray (JString t # ts)), Some (JNumber ix), Some (JString r)) \<Rightarrow>
                    if t = table then Some \<lparr>bt_asOfCommitSeq = asOf, bt_tables = JString t # ts, bt_tableIndex = ix, bt_rowCursor = Some r\<rparr>
                    else None
                | _ \<Rightarrow> None)
           | _ \<Rightarrow> None))"

text \<open>\<open>JSON.stringify\<close> of the next token.\<close>

definition token_text :: "int \<Rightarrow> jsstring \<Rightarrow> jsstring option \<Rightarrow> jsstring" where
  "token_text asOf table rowCursor = json_stringify (JObject
     [(js ''asOfCommitSeq'', num asOf), (js ''tables'', JArray [JString table]), (js ''tableIndex'', num 0),
      (js ''rowCursor'', (case rowCursor of None \<Rightarrow> JNull | Some r \<Rightarrow> JString r))])"

text \<open>\<open>x >= n\<close> for a number and an integer; the value of a finite number is \<open>sg * m * 2 ^ e\<close>.\<close>

definition number_at_least :: "js_number \<Rightarrow> int \<Rightarrow> bool" where
  "number_at_least x n =
     (let b = unat x; ex = b div 2 ^ 52 mod 2048; frac = b mod 2 ^ 52;
          sg = (if b div 2 ^ 63 = 1 then - 1 else 1) in
      if ex = 2047 then frac = 0 \<and> sg = 1
      else (let m = sg * int (if ex = 0 then frac else 2 ^ 52 + frac); e = (if ex = 0 then - 1074 else int ex - 1075) in
            if 0 \<le> e then n \<le> m * 2 ^ nat e else n * 2 ^ nat (- e) \<le> m))"

section \<open>Frames\<close>

definition commitFrame :: "jsstring \<Rightarrow> StoredCommit \<Rightarrow> ResponseFrame" where
  "commitFrame table commit = Commit
     \<lparr>cf_commitSeq = cm_commitSeq commit, cf_createdAtMs = cm_createdAtMs commit, cf_actorId = cm_actorId commit,
      cf_tables = [table],
      cf_changes = map (\<lambda>change. \<lparr>cc_tableIndex = 0, cc_rowId = ch_rowId change, cc_op = ch_op change,
        cc_rowVersion = ch_rowVersion change, cc_scopes = ch_scopes change, cc_row = ch_payload change\<rparr>) (cm_changes commit)\<rparr>"

function chunkRows :: "'a list \<Rightarrow> nat \<Rightarrow> 'a list list" where
  "chunkRows rows n = (if rows = [] \<or> n = 0 then [] else take n rows # chunkRows (drop n rows) n)"
  by pat_completeness auto
termination by (relation "measure (length \<circ> fst)") auto

declare chunkRows.simps [simp del]

record pull_env =
  pu_part :: jsstring
  pu_sha256 :: "byte list \<Rightarrow> byte list"
  pu_clock :: "nat \<Rightarrow> int"
  pu_inlineMax :: int
  pu_signedUrls :: "(jsstring \<Rightarrow> jsstring \<Rightarrow> jsstring \<Rightarrow> int \<Rightarrow> jsstring \<times> int) option"
  pu_imageBuilder :: "(CompiledTable \<Rightarrow> int \<Rightarrow> int \<Rightarrow> jsstring \<Rightarrow> StoredRow list \<Rightarrow> byte list) option"

definition signedUrlFields :: "pull_env \<Rightarrow> PullLimits \<Rightarrow> jsstring \<Rightarrow> jsstring \<Rightarrow> int \<Rightarrow> (jsstring \<times> int) option" where
  "signedUrlFields env limits segmentId digest now =
     (if \<not> accepts limits ACCEPT_SIGNED_URLS then None
      else map_option (\<lambda>issue. issue segmentId (pu_part env) digest now) (pu_signedUrls env))"

definition segmentRefFrame :: "SegmentRecord \<Rightarrow> (jsstring \<times> int) option \<Rightarrow> ResponseFrame" where
  "segmentRefFrame rec extra = SegmentRef
     \<lparr>sg_segmentId = sm_segmentId rec, sg_mediaType = sm_mediaType rec, sg_table = sm_table rec,
      sg_byteLength = sm_byteLength rec, sg_rowCount = sm_rowCount rec, sg_asOfCommitSeq = sm_asOfCommitSeq rec,
      sg_scopeDigest = sm_scopeDigest rec, sg_rowCursor = sm_rowCursor rec, sg_nextRowCursor = sm_nextRowCursor rec,
      sg_url = map_option fst extra, sg_urlExpiresAtMs = map_option snd extra\<rparr>"

datatype PullError =
    PullStorage StorageError
  | PullCodec error
  | PullTokenNotInteger
  | PullNoEpoch
  | PullOutOfFuel

definition liftPS :: "StorageError + 'a \<Rightarrow> PullError + 'a" where
  "liftPS r = (case r of Inl e \<Rightarrow> Inl (PullStorage e) | Inr x \<Rightarrow> Inr x)"

definition liftPD :: "error + 'a \<Rightarrow> PullError + 'a" where
  "liftPD r = (case r of Inl e \<Rightarrow> Inl (PullCodec e) | Inr x \<Rightarrow> Inr x)"

lemma liftP_eq_Inr: "liftPS r = Inr x \<longleftrightarrow> r = Inr x" "liftPD s = Inr y \<longleftrightarrow> s = Inr y"
  by (auto simp: liftPS_def liftPD_def split: sum.splits)

text \<open>The state a section threads: the frames yielded so far, the segment store, the next read.\<close>

record section_state =
  xs_frames :: "ResponseFrame list"
  xs_store :: MemorySegmentStore
  xs_read :: nat

definition yield_frame :: "ResponseFrame \<Rightarrow> section_state \<Rightarrow> section_state" where
  "yield_frame f st = st\<lparr>xs_frames := xs_frames st @ [f]\<rparr>"

section \<open>Bootstrap\<close>

definition snapshot_query :: "SubscriptionPlan \<Rightarrow> jsstring option \<Rightarrow> int \<Rightarrow> RowScanQuery" where
  "snapshot_query plan afterRowId limit =
     \<lparr>sq_table = ct_name (sn_table plan), sq_scopeFilter = sn_effective plan, sq_afterRowId = afterRowId, sq_limit = limit\<rparr>"

text \<open>
  The scan loop of an image: pages of 50000 rows until a short one. Rows may be added while it
  runs, so it is bounded by fuel.
\<close>

fun imageRows ::
    "nat \<Rightarrow> pull_env \<Rightarrow> (nat \<Rightarrow> db) \<Rightarrow> SubscriptionPlan \<Rightarrow> jsstring option \<Rightarrow> nat \<Rightarrow> StoredRow list
     \<Rightarrow> PullError + (StoredRow list \<times> nat)" where
  "imageRows 0 env rd plan afterRowId n rows = Inl PullOutOfFuel"
| "imageRows (Suc fuel) env rd plan afterRowId n rows =
     bindE (liftPS (scanRows (rd n) (pu_part env) (snapshot_query plan afterRowId 50000))) (\<lambda>scanned.
       if length scanned < 50000 then Inr (rows @ scanned, n + 1)
       else imageRows fuel env rd plan (Some (st_rowId (List.last scanned))) (n + 1) (rows @ scanned))"

definition sqliteImageSegment ::
    "nat \<Rightarrow> pull_env \<Rightarrow> (nat \<Rightarrow> db) \<Rightarrow> CompiledSchema \<Rightarrow> PullLimits \<Rightarrow> SubscriptionPlan \<Rightarrow> int \<Rightarrow> jsstring \<Rightarrow> jsstring \<Rightarrow> section_state
     \<Rightarrow> PullError + (bool \<times> section_state)" where
  "sqliteImageSegment fuel env rd schema limits plan asOf digest logEpoch st =
     (let now = pu_clock env 1 in
      case seg_find \<lparr>sf_partition = pu_part env, sf_logEpoch = logEpoch, sf_table = ct_name (sn_table plan),
             sf_schemaVersion = cs_version schema, sf_mediaType = MediaSqlite, sf_scopeDigest = digest, sf_asOfCommitSeq = asOf\<rparr>
             now (xs_store st) of
        Some existing \<Rightarrow>
          Inr (True, yield_frame (segmentRefFrame existing (signedUrlFields env limits (sm_segmentId existing) digest now)) st)
      | None \<Rightarrow>
          bindE (liftPS (scanRows (rd (xs_read st)) (pu_part env) (snapshot_query plan None (pl_limitSnapshotRows limits + 1)))) (\<lambda>probe.
            (let st1 = st\<lparr>xs_read := xs_read st + 1\<rparr> in
             if int (length probe) \<le> pl_limitSnapshotRows limits then Inr (False, st1)
             else (case pu_imageBuilder env of
                 None \<Rightarrow> Inr (False, st1)
               | Some buildImage \<Rightarrow>
                   bindE (imageRows fuel env rd plan (Some (st_rowId (List.last probe))) (xs_read st1) probe) (\<lambda>(rows, n).
                     (let bytes = buildImage (sn_table plan) (cs_version schema) asOf digest rows;
                          (rec, store) = seg_put (pu_sha256 env)
                            \<lparr>sm_partition = pu_part env, sm_logEpoch = logEpoch, sm_table = ct_name (sn_table plan),
                             sm_schemaVersion = cs_version schema, sm_mediaType = MediaSqlite, sm_scopeDigest = digest,
                             sm_asOfCommitSeq = asOf, sm_rowCount = int (length rows), sm_rowCursor = None, sm_nextRowCursor = None\<rparr>
                            bytes now (xs_store st1) in
                      Inr (True, yield_frame (segmentRefFrame rec (signedUrlFields env limits (sm_segmentId rec) digest now))
                             (st1\<lparr>xs_store := store, xs_read := n\<rparr>))))))))"

text \<open>The bytes of one page.\<close>

definition pageBytes :: "CompiledSchema \<Rightarrow> SubscriptionPlan \<Rightarrow> StoredRow list \<Rightarrow> error + byte list" where
  "pageBytes schema plan pageRows =
     bindE (mapE (\<lambda>row. bindE (decodeRow (ct_columns (sn_table plan)) (st_payload row)) (\<lambda>vs.
              Inr \<lparr>sr_serverVersion = st_serverVersion row, sr_values = vs\<rparr>)) pageRows) (\<lambda>decoded.
       encodeRowsSegment \<lparr>rs_table = ct_name (sn_table plan), rs_schemaVersion = cs_version schema,
         rs_columns = ct_columns (sn_table plan), rs_blocks = chunkRows decoded 1000\<rparr>)"

text \<open>The page loop; \<open>pages\<close> counts the pages left.\<close>

fun pageLoop ::
    "pull_env \<Rightarrow> (nat \<Rightarrow> db) \<Rightarrow> CompiledSchema \<Rightarrow> PullLimits \<Rightarrow> SubscriptionPlan \<Rightarrow> int \<Rightarrow> jsstring \<Rightarrow> jsstring \<Rightarrow> nat
     \<Rightarrow> jsstring option \<Rightarrow> section_state \<Rightarrow> PullError + (bool \<times> jsstring option \<times> section_state)" where
  "pageLoop env rd schema limits plan asOf digest logEpoch 0 rowCursor st = Inr (False, rowCursor, st)"
| "pageLoop env rd schema limits plan asOf digest logEpoch (Suc pages) rowCursor st =
     bindE (liftPS (scanRows (rd (xs_read st)) (pu_part env)
              (snapshot_query plan rowCursor (pl_limitSnapshotRows limits + 1)))) (\<lambda>scanned.
     (let pageRows = take (nat (pl_limitSnapshotRows limits)) scanned;
          hasMore = int (length scanned) > pl_limitSnapshotRows limits;
          st1 = st\<lparr>xs_read := xs_read st + 1\<rparr> in
      bindE (liftPD (pageBytes schema plan pageRows)) (\<lambda>bytes.
      (let nextRowCursor = (if hasMore \<and> pageRows \<noteq> [] then Some (st_rowId (List.last pageRows)) else None);
           inline = accepts limits ACCEPT_INLINE_ROWS \<and>
             (int (length bytes) \<le> pu_inlineMax env \<or> \<not> accepts limits ACCEPT_EXTERNAL_ROWS);
           st2 = (if inline then yield_frame (SegmentInline bytes) st1
                  else (let (rec, store) = seg_put (pu_sha256 env)
                              \<lparr>sm_partition = pu_part env, sm_logEpoch = logEpoch, sm_table = ct_name (sn_table plan),
                               sm_schemaVersion = cs_version schema, sm_mediaType = MediaRows, sm_scopeDigest = digest,
                               sm_asOfCommitSeq = asOf, sm_rowCount = int (length pageRows), sm_rowCursor = rowCursor,
                               sm_nextRowCursor = nextRowCursor\<rparr> bytes (pu_clock env 0) (xs_store st1) in
                        yield_frame (segmentRefFrame rec (signedUrlFields env limits (sm_segmentId rec) digest (pu_clock env 0)))
                          (st1\<lparr>xs_store := store\<rparr>))) in
       if \<not> hasMore then Inr (True, None, st2)
       else pageLoop env rd schema limits plan asOf digest logEpoch pages nextRowCursor st2))))"

definition bootstrapSegments ::
    "nat \<Rightarrow> pull_env \<Rightarrow> (nat \<Rightarrow> db) \<Rightarrow> CompiledSchema \<Rightarrow> PullLimits \<Rightarrow> SubscriptionPlan \<Rightarrow> int \<Rightarrow> jsstring option \<Rightarrow> jsstring
     \<Rightarrow> section_state \<Rightarrow> PullError + (bool \<times> jsstring option \<times> section_state)" where
  "bootstrapSegments fuel env rd schema limits plan asOf startRowCursor logEpoch st =
     (let digest = scopeDigest (pu_sha256 env) (sn_effective plan) in
      bindE (if accepts limits ACCEPT_SQLITE \<and> startRowCursor = None \<and> ct_encryptedColumnIndices (sn_table plan) = []
             then sqliteImageSegment fuel env rd schema limits plan asOf digest logEpoch st else Inr (False, st)) (\<lambda>(imaged, st1).
        if imaged then Inr (True, None, st1)
        else pageLoop env rd schema limits plan asOf digest logEpoch (nat (pl_maxSnapshotPages limits)) startRowCursor st1))"

section \<open>One subscription\<close>

text \<open>The delivery loop over the commits read: never splitting one, cut at the limit.\<close>

fun deliverLoop :: "int \<Rightarrow> StoredCommit list \<Rightarrow> int \<Rightarrow> StoredCommit list" where
  "deliverLoop limitCommits [] delivered = []"
| "deliverLoop limitCommits (commit # commits) delivered =
     (if delivered > 0 \<and> delivered + int (length (cm_changes commit)) > limitCommits then []
      else commit # (let delivered' = delivered + int (length (cm_changes commit)) in
        if delivered' \<ge> limitCommits then [] else deliverLoop limitCommits commits delivered'))"

definition incrementalSection ::
    "pull_env \<Rightarrow> (nat \<Rightarrow> db) \<Rightarrow> PullLimits \<Rightarrow> SubscriptionPlan \<Rightarrow> int \<Rightarrow> nat \<Rightarrow> StoredCommit list \<times> int" where
  "incrementalSection env rd limits plan maxSeq n =
     (let sub = sn_frame plan;
          commits = readCommitWindow (rd n) (pu_part env)
            \<lparr>cw_table = sb_table sub, cw_scopeFilter = sn_effective plan, cw_afterSeq = sb_cursor sub, cw_throughSeq = maxSeq,
             cw_limitChanges = pl_limitCommits limits + 1\<rparr>;
          delivered = deliverLoop (pl_limitCommits limits) commits 0;
          lastDeliveredSeq = (if delivered = [] then sb_cursor sub else cm_commitSeq (List.last delivered));
          exhausted = change_count commits \<le> pl_limitCommits limits \<and> length delivered = length commits in
      (delivered, if exhausted then max (sb_cursor sub) maxSeq else max (sb_cursor sub) lastDeliveredSeq))"

definition sub_start :: "jsstring \<Rightarrow> SubStatus \<Rightarrow> string \<Rightarrow> scope_map \<Rightarrow> bool \<Rightarrow> ResponseFrame" where
  "sub_start i status reason effective bootstrap = SubStart
     \<lparr>ss_id = i, ss_status = status, ss_reasonCode = js reason, ss_effectiveScopes = effective, ss_bootstrap = bootstrap\<rparr>"

definition sub_end :: "int \<Rightarrow> jsstring option \<Rightarrow> ResponseFrame" where
  "sub_end cursor bootstrapState = SubEnd \<lparr>se_nextCursor = cursor, se_bootstrapState = bootstrapState\<rparr>"

text \<open>
  A pin that is not a safe integer cannot be written to the \<open>SUB_END\<close> frame: the section then
  ends in the encoder's exception.
\<close>

definition subscriptionSection ::
    "nat \<Rightarrow> pull_env \<Rightarrow> (nat \<Rightarrow> db) \<Rightarrow> CompiledSchema \<Rightarrow> PullLimits \<Rightarrow> SubscriptionPlan \<Rightarrow> int \<Rightarrow> int \<Rightarrow> jsstring option
     \<Rightarrow> section_state \<Rightarrow> PullError + (SubscriptionResult \<times> section_state)" where
  "subscriptionSection fuel env rd schema limits plan maxSeq horizonSeq logEpoch st =
     (let sub = sn_frame plan in
      case logEpoch of None \<Rightarrow> Inl PullNoEpoch | Some epoch \<Rightarrow>
      if epoch = [] then Inl PullNoEpoch
      else if \<not> sn_active plan then
        Inr (\<lparr>sr_nextCursor = sb_cursor sub, sr_active = False\<rparr>,
             yield_frame (sub_end (sb_cursor sub) None)
               (yield_frame (sub_start (sb_id sub) SubRevoked ''sync.scope_revoked'' [] False) st))
      else
        (let token = parseBootstrapToken (sb_bootstrapState sub) (sb_table sub) in
         if token = None \<and> 0 \<le> sb_cursor sub \<and> sb_cursor sub < horizonSeq then
           Inr (\<lparr>sr_nextCursor = sb_cursor sub, sr_active = False\<rparr>,
                yield_frame (sub_end (sb_cursor sub) None)
                  (yield_frame (sub_start (sb_id sub) SubReset ''sync.cursor_expired'' [] False) st))
         else if token \<noteq> None \<or> sb_cursor sub < 0 \<or> sb_cursor sub > maxSeq then
           (let resume = (case token of None \<Rightarrow> None | Some t \<Rightarrow> if number_at_least (bt_asOfCommitSeq t) horizonSeq then Some t else None);
                startCursor = (case resume of None \<Rightarrow> None | Some t \<Rightarrow> bt_rowCursor t) in
            case (case resume of None \<Rightarrow> Some maxSeq | Some t \<Rightarrow> safe_int (bt_asOfCommitSeq t)) of
              None \<Rightarrow> Inl PullTokenNotInteger
            | Some asOf \<Rightarrow>
                bindE (bootstrapSegments fuel env rd schema limits plan asOf startCursor epoch
                         (yield_frame (sub_start (sb_id sub) SubActive '''' (sn_effective plan) True) st)) (\<lambda>(complete, rowCursor, st1).
                  Inr (\<lparr>sr_nextCursor = asOf, sr_active = True\<rparr>,
                       yield_frame (sub_end asOf (if complete then None else Some (token_text asOf (sb_table sub) rowCursor))) st1)))
         else
           (let (commits, nextCursor) = incrementalSection env rd limits plan maxSeq (xs_read st) in
            Inr (\<lparr>sr_nextCursor = nextCursor, sr_active = True\<rparr>,
                 st\<lparr>xs_frames := xs_frames st @ [sub_start (sb_id sub) SubActive '''' (sn_effective plan) False]
                      @ map (commitFrame (sb_table sub)) commits @ [sub_end nextCursor None],
                    xs_read := xs_read st + 1\<rparr>))))"

end
