(* ===== verification/Prune.thy ===== *)
theory Prune
  imports Storage
begin

text \<open>
  Commit-log pruning (\<open>server/src/prune.ts\<close>): the horizon advances to the slowest active client,
  or past commits older than the age limit, and always leaves the newest commits. A run is one step
  here. The code reads and writes across several awaits outside a transaction and sets the horizon
  unconditionally, so what two interleaved prunes do is not covered.
\<close>

record RetentionPolicy =
  rp_activeWindowMs :: int
  rp_ageForceMs :: int
  rp_minRetainedCommits :: int

definition DEFAULT_RETENTION :: RetentionPolicy where
  "DEFAULT_RETENTION = \<lparr>rp_activeWindowMs = 14 * 24 * 60 * 60 * 1000, rp_ageForceMs = 30 * 24 * 60 * 60 * 1000,
     rp_minRetainedCommits = 1000\<rparr>"

definition activeCursors :: "RetentionPolicy \<Rightarrow> int \<Rightarrow> jsstring \<Rightarrow> db \<Rightarrow> int list" where
  "activeCursors policy nowMs part d =
     map (\<lambda>(_, cursor, _). cursor)
       (filter (\<lambda>(_, _, updatedAtMs). updatedAtMs \<ge> nowMs - rp_activeWindowMs policy) (listClientCursors d part))"

definition prune_target :: "RetentionPolicy \<Rightarrow> int \<Rightarrow> jsstring \<Rightarrow> db \<Rightarrow> int" where
  "prune_target policy nowMs part d =
     (let maxSeq = getMaxCommitSeq d part;
          cursorFloor = (case activeCursors policy nowMs part d of [] \<Rightarrow> max_safe | c # cs \<Rightarrow> fold min cs c);
          forcedSeq = getCommitSeqBefore d part (nowMs - rp_ageForceMs policy);
          retainFloor = maxSeq - rp_minRetainedCommits policy in
      min (max cursorFloor forcedSeq) retainFloor)"

text \<open>The new horizon, the number of commits removed (reported in the event) and the database.\<close>

definition pruneCommitLog :: "RetentionPolicy \<Rightarrow> int \<Rightarrow> jsstring \<Rightarrow> db \<Rightarrow> int \<times> int \<times> db" where
  "pruneCommitLog policy nowMs part d =
     (let target = prune_target policy nowMs part d;
          current = getHorizonSeq d part;
          horizon = max current (max 0 target) in
      if horizon > current
      then (let (removed, d') = pruneCommitsThrough part horizon (setHorizonSeq part horizon d) in (horizon, removed, d'))
      else (horizon, 0, d))"

lemma pruneCommitLog_cases:
  obtains (kept) "pruneCommitLog policy nowMs part d = (getHorizonSeq d part, 0, d)"
    and "max 0 (prune_target policy nowMs part d) \<le> getHorizonSeq d part"
  | (advanced) s where "s = max 0 (prune_target policy nowMs part d)" and "getHorizonSeq d part < s"
    and "pruneCommitLog policy nowMs part d =
      (s, fst (pruneCommitsThrough part s (setHorizonSeq part s d)), snd (pruneCommitsThrough part s (setHorizonSeq part s d)))"
  by (cases "max 0 (prune_target policy nowMs part d) \<le> getHorizonSeq d part")
     (auto simp: pruneCommitLog_def Let_def case_prod_unfold max_def)

lemma fold_min_le: "c \<in> set (x # xs) \<Longrightarrow> fold min xs x \<le> (c :: int)"
  unfolding Min.set_eq_fold [symmetric] by (intro Min_le) auto

text \<open>The retention floors.\<close>

lemma prune_target_floors:
  "prune_target policy nowMs part d \<le> getMaxCommitSeq d part - rp_minRetainedCommits policy"
  "c \<in> set (activeCursors policy nowMs part d) \<Longrightarrow>
     prune_target policy nowMs part d \<le> max c (getCommitSeqBefore d part (nowMs - rp_ageForceMs policy))"
proof -
  show "prune_target policy nowMs part d \<le> getMaxCommitSeq d part - rp_minRetainedCommits policy"
    by (simp add: prune_target_def Let_def)
  assume c: "c \<in> set (activeCursors policy nowMs part d)"
  then obtain x xs where xs: "activeCursors policy nowMs part d = x # xs" by (cases "activeCursors policy nowMs part d") auto
  then show "prune_target policy nowMs part d \<le> max c (getCommitSeqBefore d part (nowMs - rp_ageForceMs policy))"
    using c fold_min_le [of c x xs] by (simp add: prune_target_def Let_def xs)
qed

text \<open>A commit at or below the forced sequence number is no newer than an aged one.\<close>

lemma getCommitSeqBefore_aged:
  assumes "getCommitSeqBefore d part t \<noteq> 0"
  shows "\<exists>c\<in>set (db_commits d). co_partition c = part \<and> co_createdAtMs c < t \<and> co_commitSeq c = getCommitSeqBefore d part t"
proof -
  let ?cs = "filter (\<lambda>c. co_partition c = part \<and> co_createdAtMs c < t) (db_commits d)"
  have mem: "fold max ss s \<in> set (s # ss)" for s :: int and ss
    by (induction ss arbitrary: s) (auto simp: max_def)
  obtain s ss where s: "map co_commitSeq ?cs = s # ss"
    using assms by (cases "map co_commitSeq ?cs") (auto simp: getCommitSeqBefore_def)
  then have "getCommitSeqBefore d part t \<in> set (map co_commitSeq ?cs)"
    using mem [of ss s] by (simp add: getCommitSeqBefore_def)
  then show ?thesis by auto
qed

lemma pruneCommitLog_ok:
  assumes ok: "storage_ok d" and retain: "0 \<le> rp_minRetainedCommits policy"
  shows "storage_ok (snd (snd (pruneCommitLog policy nowMs part d)))"
proof (cases rule: pruneCommitLog_cases [of policy nowMs part d])
  case kept
  then show ?thesis using ok by simp
next
  case (advanced s)
  have "0 \<le> getHorizonSeq d part" "getHorizonSeq d part \<le> getMaxCommitSeq d part" using ok by (simp_all add: storage_ok_def log_ok_def)
  then have "s \<le> getMaxCommitSeq d part"
    using advanced(1,2) prune_target_floors(1) [of policy nowMs part d] retain by linarith
  then show ?thesis using advanced advance_horizon_ok [OF ok, of part s] by simp
qed

text \<open>Rows and the newer log are untouched.\<close>

lemma pruneCommitLog_fields:
  "db_rows (snd (snd (pruneCommitLog policy nowMs part d))) = db_rows d"
  "getMaxCommitSeq (snd (snd (pruneCommitLog policy nowMs part d))) q = getMaxCommitSeq d q"
  "getHorizonSeq (snd (snd (pruneCommitLog policy nowMs part d))) q =
     (if q = part then fst (pruneCommitLog policy nowMs part d) else getHorizonSeq d q)"
  "db_commits (snd (snd (pruneCommitLog policy nowMs part d))) =
     (if getHorizonSeq d part < fst (pruneCommitLog policy nowMs part d)
      then delete_where (\<lambda>c. co_partition c = part \<and> co_commitSeq c \<le> fst (pruneCommitLog policy nowMs part d)) (db_commits d)
      else db_commits d)"
  "db_changes (snd (snd (pruneCommitLog policy nowMs part d))) =
     (if getHorizonSeq d part < fst (pruneCommitLog policy nowMs part d)
      then delete_where (\<lambda>c. cg_partition c = part \<and> cg_commitSeq c \<le> fst (pruneCommitLog policy nowMs part d)) (db_changes d)
      else db_changes d)"
  by (auto simp: pruneCommitLog_def Let_def case_prod_unfold prune_fields)
     (simp_all add: setHorizonSeq_def Let_def ensure_partition_def)

end
