(* ===== verification/Convergence.thy ===== *)
theory Convergence
  imports Push_Correct Pull Prune
begin

text \<open>
  A client of a subscription and the server together. The client keeps the rows it was sent and a
  cursor; the server's rows and log move by pushes of any client and by pruning. The invariant
  says that replaying the rest of the log on the client's rows gives the server's current rows of
  the subscription, so a client whose cursor has reached the end of the log holds exactly them.
\<close>

section \<open>The rows of a subscription\<close>

text \<open>The rows of partition \<open>p\<close> and table \<open>t\<close> that match the effective scopes \<open>f\<close>.\<close>

definition in_view :: "jsstring \<Rightarrow> jsstring \<Rightarrow> scope_map \<Rightarrow> placed_row \<Rightarrow> bool" where
  "in_view p t f = (\<lambda>(p', t', row). p' = p \<and> t' = t \<and> matchesEffective (st_scopes row) f)"

abbreviation server_view :: "jsstring \<Rightarrow> jsstring \<Rightarrow> scope_map \<Rightarrow> db \<Rightarrow> row_key \<Rightarrow> placed_row option" where
  "server_view p t f d \<equiv> visible (in_view p t f) (placed_row_at d)"

definition seen_change :: "jsstring \<Rightarrow> scope_map \<Rightarrow> NewChange \<Rightarrow> bool" where
  "seen_change t f c \<longleftrightarrow> ch_table c = t \<and> matchesEffective (ch_scopes c) f"

definition keyed :: "(row_key \<Rightarrow> placed_row option) \<Rightarrow> bool" where
  "keyed m \<longleftrightarrow> (\<forall>k v. m k = Some v \<longrightarrow> placed_key v = k)"

lemma keyed_placed: "keyed (placed_row_at d)"
  by (auto simp: keyed_def placed_row_at_key)

lemma keyed_change: "keyed m \<Longrightarrow> keyed (apply_change p c m)"
  by (auto simp: keyed_def row_change_of_def split: OpKind.splits)

text \<open>Lawful changes never move a row into or out of a subscription.\<close>

lemma lawful_stable:
  assumes "lawful_change schema resolved p m c" and "keyed m"
  shows "stable_change placed_key (in_view p t f) m (row_change_of p c, seen_change t f c)"
proof (cases "m (p, ch_table c, ch_rowId c)")
  case None
  then show ?thesis using assms(1)
    by (auto simp: stable_change_def lawful_change_def row_change_of_def in_view_def seen_change_def)
next
  case (Some w)
  obtain p' t' row where w: "w = (p', t', row)" by (cases w)
  then have "p' = p" "t' = ch_table c" using assms(2) Some by (auto simp: keyed_def)
  then show ?thesis using assms(1) Some w
    by (auto simp: stable_change_def lawful_change_def row_change_of_def in_view_def seen_change_def split: OpKind.splits)
qed

lemma lawful_stable_log:
  "lawful_changes schema resolved p m cs \<Longrightarrow> keyed m \<Longrightarrow>
   stable_log placed_key (in_view p t f) m (map (\<lambda>c. (row_change_of p c, seen_change t f c)) cs)"
  by (induction cs arbitrary: m) (auto intro: lawful_stable keyed_change)

lemma fold_apply_change: "fold (apply_change p) cs m = fold (change_map placed_key) (map (row_change_of p) cs) m"
  by (simp add: fold_map comp_def)

lemma view_after_changes:
  assumes "lawful_changes schema resolved p (placed_row_at d) cs"
  shows "visible (in_view p t f) (fold (apply_change p) cs (placed_row_at d)) =
    fold (apply_change p) (filter (seen_change t f) cs) (server_view p t f d)"
proof -
  have "map fst (filter snd (map (\<lambda>c. (row_change_of p c, seen_change t f c)) cs)) = map (row_change_of p) (filter (seen_change t f) cs)"
    by (induction cs) simp_all
  then show ?thesis
    using visible_replay [OF lawful_stable_log [OF assms keyed_placed, of t f]] by (simp add: fold_apply_change comp_def)
qed

text \<open>Changes of another partition are not seen at all.\<close>

lemma view_other_partition:
  assumes "q \<noteq> p" and "keyed m"
  shows "visible (in_view p t f) (fold (apply_change q) cs m) = visible (in_view p t f) m"
  using assms(2)
proof (induction cs arbitrary: m)
  case (Cons c cs)
  have "visible (in_view p t f) (apply_change q c m) = visible (in_view p t f) m"
  proof
    fix k
    show "visible (in_view p t f) (apply_change q c m) k = visible (in_view p t f) m k"
    proof (cases "k = (q, ch_table c, ch_rowId c)")
      case True
      have "\<not> in_view p t f v" if v: "m k = Some v" for v
      proof -
        have "placed_key v = (q, ch_table c, ch_rowId c)" using Cons.prems v True unfolding keyed_def by blast
        then show ?thesis using assms(1) by (cases v) (auto simp: in_view_def)
      qed
      then show ?thesis using True assms(1)
        by (auto simp: visible_def row_change_of_def in_view_def split: OpKind.splits option.splits)
    next
      case False
      then show ?thesis by (auto simp: visible_def row_change_of_def split: OpKind.splits)
    qed
  qed
  then show ?case using Cons.IH [OF keyed_change [OF Cons.prems, of q c]] by simp
qed simp

section \<open>The log under push and prune\<close>

text \<open>A commit of the window depends only on its own log entries.\<close>

lemma window_commit_cong:
  assumes "filter (\<lambda>c. co_partition c = p \<and> co_commitSeq c = s) (db_commits d') = filter (\<lambda>c. co_partition c = p \<and> co_commitSeq c = s) (db_commits d)"
    and "filter (\<lambda>c. cg_partition c = p \<and> cg_commitSeq c = s) (db_changes d') = filter (\<lambda>c. cg_partition c = p \<and> cg_commitSeq c = s) (db_changes d)"
  shows "window_commit d' p t f s = window_commit d p t f s"
proof -
  have find: "find_by commit_key (p, s) xs = (case filter (\<lambda>c. co_partition c = p \<and> co_commitSeq c = s) xs of [] \<Rightarrow> None | x # _ \<Rightarrow> Some x)" for xs
    by (induction xs) (auto simp: find_by_def commit_key_def)
  have split: "filter (\<lambda>c. cg_partition c = p \<and> cg_commitSeq c = s \<and> ch_table (cg_change c) = t) xs =
      filter (\<lambda>c. ch_table (cg_change c) = t) (filter (\<lambda>c. cg_partition c = p \<and> cg_commitSeq c = s) xs)" for xs
    by (simp add: conj_assoc)
  show ?thesis unfolding window_commit_def commit_meta_def commit_changes_def find split assms ..
qed

lemma matching_commits_cong:
  assumes "\<And>s. a < s \<Longrightarrow> s \<le> b \<Longrightarrow>
      filter (\<lambda>c. co_partition c = p \<and> co_commitSeq c = s) (db_commits d') = filter (\<lambda>c. co_partition c = p \<and> co_commitSeq c = s) (db_commits d)"
    and "\<And>s. a < s \<Longrightarrow> s \<le> b \<Longrightarrow>
      filter (\<lambda>c. cg_partition c = p \<and> cg_commitSeq c = s) (db_changes d') = filter (\<lambda>c. cg_partition c = p \<and> cg_commitSeq c = s) (db_changes d)"
    and "log_ok d" "log_ok d'"
  shows "matching_commits d' p t f a b = matching_commits d p t f a b"
proof -
  have mem: "(p, s) \<in> commit_key ` set xs \<longleftrightarrow> filter (\<lambda>c. co_partition c = p \<and> co_commitSeq c = s) xs \<noteq> []" for s xs
    by (force simp: commit_key_def filter_empty_conv)
  have "set (log_seqs d' p a b) = set (log_seqs d p a b)"
    using assms(1) by (auto simp: log_seqs_set mem)
  then have "log_seqs d' p a b = log_seqs d p a b"
    using log_seqs_sorted [OF assms(3)] log_seqs_sorted [OF assms(4)] by (metis sorted_distinct_set_unique)
  moreover have "List.map_filter (window_commit d' p t f) xs = List.map_filter (window_commit d p t f) xs"
    if "\<forall>s\<in>set xs. a < s \<and> s \<le> b" for xs
    using that
  proof (induction xs)
    case (Cons s xs)
    have "window_commit d' p t f s = window_commit d p t f s"
      using Cons.prems by (intro window_commit_cong assms(1,2)) simp_all
    then show ?case using Cons by (simp add: List.map_filter_simps split: option.split)
  qed (simp add: List.map_filter_simps)
  ultimately show ?thesis unfolding matching_commits_def by (simp add: log_seqs_set)
qed

lemma window_append:
  assumes "a \<le> b" "b \<le> c"
  shows "log_ok d \<Longrightarrow> matching_commits d p t f a c = matching_commits d p t f a b @ matching_commits d p t f b c"
proof -
  assume ok: "log_ok d"
  have "log_seqs d p a c = log_seqs d p a b @ log_seqs d p b c"
    using log_seqs_sorted [OF ok] assms
    by (intro sorted_distinct_set_unique) (auto simp: sorted_append log_seqs_set)
  then show ?thesis by (simp add: matching_commits_def List.map_filter_def)
qed

lemma window_commit_seq: "window_commit d p t f s = Some c \<Longrightarrow> cm_commitSeq c = s"
  by (auto simp: window_commit_Some)

lemma matching_seqs: "c \<in> set (matching_commits d p t f a b) \<Longrightarrow> a < cm_commitSeq c \<and> cm_commitSeq c \<le> b"
  by (auto simp: matching_commits_def List.map_filter_def log_seqs_set dest: window_commit_seq)

lemma matching_sorted:
  assumes "log_ok d"
  shows "sorted_wrt (<) (map cm_commitSeq (matching_commits d p t f a b))"
proof -
  have "map cm_commitSeq (List.map_filter (window_commit d p t f) xs) = filter (\<lambda>s. window_commit d p t f s \<noteq> None) xs" for xs
    by (induction xs) (auto simp: List.map_filter_simps dest: window_commit_seq split: option.split)
  then show ?thesis
    using log_seqs_sorted [OF assms, of p a b]
    by (simp add: matching_commits_def strict_sorted_iff sorted_wrt_filter)
qed

text \<open>What is left after a prefix of the window is the window after its last commit.\<close>

lemma matching_rest:
  assumes ok: "log_ok d" and split: "matching_commits d p t f a b = xs @ ys" and ne: "xs \<noteq> []"
  shows "ys = matching_commits d p t f (cm_commitSeq (List.last xs)) b"
proof -
  let ?s = "cm_commitSeq (List.last xs)"
  have "List.last xs \<in> set (matching_commits d p t f a b)" using split ne by simp
  then have "a < ?s" "?s \<le> b" using matching_seqs by blast+
  then have parts: "xs @ ys = matching_commits d p t f a ?s @ matching_commits d p t f ?s b"
    using window_append [OF _ _ ok, of a ?s b p t f] split by simp
  have sorted: "sorted_wrt (<) (map cm_commitSeq (xs @ ys))" using matching_sorted [OF ok, of p t f a b] split by simp
  have "filter (\<lambda>c. ?s < cm_commitSeq c) (xs @ ys) = ys"
  proof -
    obtain zs where xs: "xs = zs @ [List.last xs]" using ne by (metis append_butlast_last_id)
    have "\<forall>c\<in>set xs. cm_commitSeq c \<le> ?s" "\<forall>c\<in>set ys. ?s < cm_commitSeq c"
      using sorted by (subst (asm) xs, subst xs, fastforce simp: sorted_wrt_append, subst (asm) xs, simp add: sorted_wrt_append)
    then show ?thesis by (simp add: filter_empty_conv filter_id_conv linorder_not_less)
  qed
  moreover have "filter (\<lambda>c. ?s < cm_commitSeq c) (matching_commits d p t f a ?s @ matching_commits d p t f ?s b) =
      matching_commits d p t f ?s b"
    using matching_seqs by (force simp: filter_empty_conv filter_id_conv)
  ultimately show ?thesis using parts by simp
qed

section \<open>The invariant\<close>

definition rest_of_log :: "db \<Rightarrow> jsstring \<Rightarrow> jsstring \<Rightarrow> scope_map \<Rightarrow> int \<Rightarrow> NewChange list" where
  "rest_of_log d p t f cursor = concat (map cm_changes (matching_commits d p t f cursor (getMaxCommitSeq d p)))"

definition in_sync :: "jsstring \<Rightarrow> jsstring \<Rightarrow> scope_map \<Rightarrow> (row_key \<Rightarrow> placed_row option) \<Rightarrow> int \<Rightarrow> db \<Rightarrow> bool" where
  "in_sync p t f v cursor d \<longleftrightarrow>
     fold (apply_change p) (rest_of_log d p t f cursor) v = server_view p t f d"

lemma matching_none [simp]: "matching_commits d p t f a a = []"
  by (simp add: matching_commits_def log_seqs_def List.map_filter_simps)

lemma in_sync_fresh: "in_sync p t f (server_view p t f d) (getMaxCommitSeq d p) d"
  by (simp add: in_sync_def rest_of_log_def)

lemma in_sync_end: "in_sync p t f v (getMaxCommitSeq d p) d \<Longrightarrow> v = server_view p t f d"
  by (simp add: in_sync_def rest_of_log_def)

text \<open>A push.\<close>

lemma applied_window_old:
  assumes ok: "storage_ok d" and push: "applied_push schema req d commit d'"
  shows "matching_commits d' p t f a (getMaxCommitSeq d p) = matching_commits d p t f a (getMaxCommitSeq d p)"
proof (rule matching_commits_cong)
  show "log_ok d" "log_ok d'" using ok push by (simp_all add: applied_push_def storage_ok_def)
  fix s assume "s \<le> getMaxCommitSeq d p"
  then have ne: "\<not> (rq_part req = p \<and> cm_commitSeq commit = s)" using push by (auto simp: applied_push_def)
  then show "filter (\<lambda>c. co_partition c = p \<and> co_commitSeq c = s) (db_commits d') = filter (\<lambda>c. co_partition c = p \<and> co_commitSeq c = s) (db_commits d)"
    using push by (auto simp: applied_push_def commit_row_def)
  have "filter (\<lambda>c. cg_partition c = p \<and> cg_commitSeq c = s) (change_rows (rq_part req) (cm_commitSeq commit) (cm_changes commit)) = []"
    using ne by (auto simp: filter_empty_conv change_rows_def)
  then show "filter (\<lambda>c. cg_partition c = p \<and> cg_commitSeq c = s) (db_changes d') = filter (\<lambda>c. cg_partition c = p \<and> cg_commitSeq c = s) (db_changes d)"
    using push by (simp add: applied_push_def)
qed

lemma new_commit_changes:
  assumes ok: "storage_ok d" and push: "applied_push schema req d commit d'"
  shows "commit_changes d' (rq_part req) (cm_commitSeq commit) t = filter (\<lambda>c. ch_table c = t) (cm_changes commit)"
proof -
  let ?p = "rq_part req" and ?s = "cm_commitSeq commit"
  have fresh: "cg_commitSeq c \<noteq> ?s" if c: "c \<in> set (db_changes d)" "cg_partition c = ?p" for c
  proof -
    have "fst (change_key c) \<in> commit_key ` set (db_commits d)" using ok c(1) by (auto simp: storage_ok_def log_ok_def)
    then obtain m where m: "m \<in> set (db_commits d)" "co_partition m = ?p" "co_commitSeq m = cg_commitSeq c"
      using c(2) by (auto simp: change_key_def commit_key_def)
    then have "cg_commitSeq c \<le> getMaxCommitSeq d ?p" using ok by (auto simp: storage_ok_def log_ok_def)
    then show ?thesis using push by (auto simp: applied_push_def)
  qed
  have rows: "filter (\<lambda>c. ch_table (cg_change c) = t) (change_rows ?p ?s cs) =
      map (\<lambda>(i, c). \<lparr>cg_partition = ?p, cg_commitSeq = ?s, cg_idx = i, cg_change = c\<rparr>)
        (filter (\<lambda>(i, c). ch_table c = t) (zip [0..<length cs] cs))" for cs
    by (auto simp: change_rows_def filter_map comp_def case_prod_unfold)
  have "filter (\<lambda>c. cg_partition c = ?p \<and> cg_commitSeq c = ?s \<and> ch_table (cg_change c) = t) (db_changes d') =
      filter (\<lambda>c. ch_table (cg_change c) = t) (change_rows ?p ?s (cm_changes commit))" (is "?l = ?r")
  proof -
    have "filter (\<lambda>c. cg_partition c = ?p \<and> cg_commitSeq c = ?s \<and> ch_table (cg_change c) = t) (db_changes d) = []"
      using fresh by (auto simp: filter_empty_conv)
    moreover have "filter (\<lambda>c. cg_partition c = ?p \<and> cg_commitSeq c = ?s \<and> ch_table (cg_change c) = t)
        (change_rows ?p ?s (cm_changes commit)) = ?r"
      by (intro filter_cong) (auto simp: change_rows_def)
    ultimately show ?thesis using push by (simp add: applied_push_def)
  qed
  moreover have "sorted (map cg_idx ?r)"
    unfolding rows using sorted_filter [of fst "zip [0..<length (cm_changes commit)] (cm_changes commit)" "\<lambda>(i, c). ch_table c = t"]
    by (simp add: comp_def case_prod_unfold)
  moreover have "map snd (filter (\<lambda>(i, c). ch_table c = t) (zip xs cs)) = filter (\<lambda>c. ch_table c = t) cs"
    if "length xs = length cs" for xs :: "nat list" and cs :: "NewChange list"
    using that by (induction xs cs rule: list_induct2) auto
  ultimately show ?thesis
    unfolding commit_changes_def by (simp add: sort_key_id_if_sorted rows comp_def case_prod_unfold)
qed

lemma applied_window_new:
  assumes ok: "storage_ok d" and push: "applied_push schema req d commit d'"
  shows "concat (map cm_changes (matching_commits d' (rq_part req) t f (getMaxCommitSeq d (rq_part req)) (getMaxCommitSeq d' (rq_part req)))) =
    filter (seen_change t f) (cm_changes commit)"
proof -
  let ?p = "rq_part req" and ?s = "cm_commitSeq commit"
  have seq: "?s = getMaxCommitSeq d ?p + 1" "getMaxCommitSeq d' ?p = ?s" and ok': "log_ok d'"
    using ok push by (simp_all add: applied_push_def storage_ok_def)
  have logged: "(?p, ?s) \<in> commit_key ` set (db_commits d')" using push by (force simp: applied_push_def commit_row_def commit_key_def)
  have "log_seqs d' ?p (getMaxCommitSeq d ?p) (getMaxCommitSeq d' ?p) = [?s]"
    using log_seqs_sorted [OF ok'] logged seq
    by (intro sorted_distinct_set_unique) (auto simp: log_seqs_set)
  moreover obtain actor at where "commit_meta d' ?p ?s = Some (actor, at)"
    using logged by (cases "find_by commit_key (?p, ?s) (db_commits d')") (auto simp: commit_meta_def find_by_None_iff)
  moreover have "filter (\<lambda>c. matchesEffective (ch_scopes c) f) (filter (\<lambda>c. ch_table c = t) (cm_changes commit)) =
      filter (seen_change t f) (cm_changes commit)"
    by (simp add: seen_change_def [abs_def] conj_commute)
  ultimately show ?thesis
    by (simp add: matching_commits_def List.map_filter_simps window_commit_def new_commit_changes [OF ok push] Let_def
        del: filter_filter)
qed

lemma in_sync_applied:
  assumes ok: "storage_ok d" and push: "applied_push schema req d commit d'"
    and sync: "in_sync p t f v cursor d" and c: "cursor \<le> getMaxCommitSeq d p"
  shows "in_sync p t f v cursor d'"
proof -
  have ok': "log_ok d'" and up: "getMaxCommitSeq d p \<le> getMaxCommitSeq d' p"
    using ok push by (auto simp: applied_push_def storage_ok_def)
  have rest: "rest_of_log d' p t f cursor = rest_of_log d p t f cursor @
      concat (map cm_changes (matching_commits d' p t f (getMaxCommitSeq d p) (getMaxCommitSeq d' p)))"
    using window_append [OF c up ok', of p t f] applied_window_old [OF ok push, of p t f cursor] by (simp add: rest_of_log_def)
  show ?thesis
  proof (cases "rq_part req = p")
    case True
    then have "rest_of_log d' p t f cursor = rest_of_log d p t f cursor @ filter (seen_change t f) (cm_changes commit)"
      using applied_window_new [OF ok push, of t f] rest by simp
    then show ?thesis
      using sync push view_after_changes [of schema "rq_resolved req" p d "cm_changes commit" t f] True
      by (simp add: in_sync_def applied_push_def)
  next
    case False
    then have "matching_commits d' p t f (getMaxCommitSeq d p) (getMaxCommitSeq d' p) = []"
      using push by (simp add: applied_push_def)
    then show ?thesis
      using sync push view_other_partition [OF False keyed_placed, of t f] rest by (simp add: in_sync_def applied_push_def)
  qed
qed

text \<open>A step that leaves the rows and the log alone.\<close>

definition same_rows_and_log :: "db \<Rightarrow> db \<Rightarrow> bool" where
  "same_rows_and_log d d' \<longleftrightarrow> db_rows d' = db_rows d \<and> db_row_scopes d' = db_row_scopes d \<and> db_partitions d' = db_partitions d \<and>
     db_commits d' = db_commits d \<and> db_changes d' = db_changes d \<and> db_change_scopes d' = db_change_scopes d"

lemma same_rows_and_log_ok: "same_rows_and_log d d' \<Longrightarrow> storage_ok d' = storage_ok d"
  by (simp add: same_rows_and_log_def storage_ok_def rows_ok_def log_ok_def getMaxCommitSeq_def getHorizonSeq_def)

lemma same_rows_and_log_seqs:
  "same_rows_and_log d d' \<Longrightarrow> getMaxCommitSeq d' p = getMaxCommitSeq d p"
  "same_rows_and_log d d' \<Longrightarrow> getHorizonSeq d' p = getHorizonSeq d p"
  by (simp_all add: same_rows_and_log_def getMaxCommitSeq_def getHorizonSeq_def)

lemma in_sync_same:
  assumes "same_rows_and_log d d'" and "in_sync p t f v cursor d"
  shows "in_sync p t f v cursor d'"
proof -
  have "placed_row_at d' = placed_row_at d" using assms(1) by (simp add: same_rows_and_log_def fun_eq_iff placed_row_at_def)
  moreover have "matching_commits d' p t f a b = matching_commits d p t f a b" for a b
    using assms(1)
    by (simp add: same_rows_and_log_def matching_commits_def log_seqs_def window_commit_def [abs_def] commit_meta_def commit_changes_def)
  ultimately show ?thesis
    using assms same_rows_and_log_seqs [OF assms(1)] by (simp add: in_sync_def rest_of_log_def)
qed

lemma same_data_rows_and_log: "same_data d d' \<Longrightarrow> same_rows_and_log d d'"
  by (cases d; cases d') (simp add: same_data_def same_rows_and_log_def)

text \<open>Pruning below the cursor.\<close>

lemma in_sync_prune:
  assumes ok: "storage_ok d" and retain: "0 \<le> rp_minRetainedCommits policy"
    and prune: "pruneCommitLog policy now q d = (horizon, removed, d')"
    and c: "getHorizonSeq d' p \<le> cursor" and sync: "in_sync p t f v cursor d"
  shows "in_sync p t f v cursor d'"
proof -
  note fields = pruneCommitLog_fields [of policy now q d, unfolded prune fst_conv snd_conv]
  have ok': "log_ok d'" using pruneCommitLog_ok [OF ok retain, of now q] prune by (simp add: storage_ok_def)
  have "matching_commits d' p t f cursor m = matching_commits d p t f cursor m" for m
  proof (rule matching_commits_cong)
    fix s assume s: "cursor < s"
    have keep: "\<not> (p = q \<and> s \<le> horizon)" using c s fields(3) [of p] by auto
    show "filter (\<lambda>c. co_partition c = p \<and> co_commitSeq c = s) (db_commits d') = filter (\<lambda>c. co_partition c = p \<and> co_commitSeq c = s) (db_commits d)"
      using keep by (auto simp: fields(4) delete_where_def intro!: filter_cong)
    show "filter (\<lambda>c. cg_partition c = p \<and> cg_commitSeq c = s) (db_changes d') = filter (\<lambda>c. cg_partition c = p \<and> cg_commitSeq c = s) (db_changes d)"
      using keep by (auto simp: fields(5) delete_where_def intro!: filter_cong)
  qed (use ok ok' in \<open>simp_all add: storage_ok_def\<close>)
  moreover have "placed_row_at d' = placed_row_at d" by (simp add: fields(1) fun_eq_iff placed_row_at_def)
  ultimately show ?thesis using sync by (simp add: in_sync_def rest_of_log_def fields(2))
qed

section \<open>Reading at different times\<close>

text \<open>A view whose every key agrees with some view in sync is in sync.\<close>

lemma in_sync_pointwise:
  assumes "\<And>k. \<exists>w. v k = w k \<and> in_sync p t f w c d"
  shows "in_sync p t f v c d"
  unfolding in_sync_def
proof
  fix k
  obtain w where "v k = w k" "in_sync p t f w c d" using assms by blast
  then show "fold (apply_change p) (rest_of_log d p t f c) v k = server_view p t f d k"
    using replay_pointwise [of v k w placed_key "map (row_change_of p) (rest_of_log d p t f c)"]
    by (simp add: in_sync_def fold_apply_change)
qed

text \<open>Replaying a part of the log on rows that already contain it changes nothing.\<close>

lemma in_sync_current:
  assumes "in_sync p t f v c d"
  shows "in_sync p t f (server_view p t f d) c d"
  using assms replay_idem [of placed_key "map (row_change_of p) (rest_of_log d p t f c)" v]
  by (simp add: in_sync_def fold_apply_change)

section \<open>Server steps\<close>

text \<open>Row ids are never empty and are well-formed.\<close>

definition ids_ok :: "db \<Rightarrow> bool" where
  "ids_ok d \<longleftrightarrow> (\<forall>p t r. placed_row_at d (p, t, r) \<noteq> None \<longrightarrow> well_formed r \<and> r \<noteq> [])"

lemma ids_ok_changes:
  assumes "lawful_changes schema resolved p m cs"
    and "\<And>p t r. m (p, t, r) \<noteq> None \<Longrightarrow> well_formed r \<and> r \<noteq> []"
  shows "fold (apply_change p) cs m (q, t, r) \<noteq> None \<Longrightarrow> well_formed r \<and> r \<noteq> []"
  using assms
proof (induction cs arbitrary: m)
  case (Cons c cs)
  have "well_formed r' \<and> r' \<noteq> []" if "apply_change p c m (p', t', r') \<noteq> None" for p' t' r'
  proof (cases "m (p', t', r') = None")
    case False
    then show ?thesis using Cons.prems(3) by blast
  next
    case True
    then have "(p', t', r') = (p, ch_table c, ch_rowId c)" "m (p, ch_table c, ch_rowId c) = None"
      using that by (auto simp: row_change_of_def split: OpKind.splits if_splits)
    then show ?thesis using Cons.prems(2) by (simp add: lawful_change_def)
  qed
  then show ?case using Cons.IH [of "apply_change p c m"] Cons.prems by simp
qed simp

text \<open>A step of the server: a push, an undisturbed prune, or anything else that leaves rows and log alone.\<close>

inductive server_step :: "db \<Rightarrow> db \<Rightarrow> bool" where
  push: "server_step d (po_db (processPushOperationsWithTrace env schema req build d0 d))"
| prune: "pruneCommitLog policy now q d = (horizon, removed, d') \<Longrightarrow> 0 \<le> rp_minRetainedCommits policy \<Longrightarrow> server_step d d'"
| other: "same_rows_and_log d d' \<Longrightarrow> server_step d d'"

text \<open>What every server step keeps: the invariants, and the sync state of any client above the horizon.\<close>

definition step_ok :: "db \<Rightarrow> db \<Rightarrow> bool" where
  "step_ok d d' \<longleftrightarrow> storage_ok d' \<and> ids_ok d' \<and>
     (\<forall>p. getMaxCommitSeq d p \<le> getMaxCommitSeq d' p \<and> getHorizonSeq d p \<le> getHorizonSeq d' p) \<and>
     (\<forall>p t f v c. c \<le> getMaxCommitSeq d p \<longrightarrow> getHorizonSeq d' p \<le> c \<longrightarrow> in_sync p t f v c d \<longrightarrow> in_sync p t f v c d')"

lemma same_rows_step:
  assumes "same_rows_and_log d d'" "storage_ok d" "ids_ok d"
  shows "step_ok d d'"
proof -
  have "placed_row_at d' = placed_row_at d" using assms(1) by (simp add: same_rows_and_log_def fun_eq_iff placed_row_at_def)
  then show ?thesis
    using assms same_rows_and_log_ok same_rows_and_log_seqs in_sync_same by (simp add: step_ok_def ids_ok_def)
qed

lemma applied_push_step:
  assumes push: "applied_push schema req d commit d'" and ok: "storage_ok d" "ids_ok d"
  shows "step_ok d d'"
proof -
  have "ids_ok d'"
    using push ok(2) ids_ok_changes [of schema "rq_resolved req" "rq_part req" "placed_row_at d" "cm_changes commit"]
    unfolding ids_ok_def applied_push_def by metis
  then show ?thesis
    using ok push in_sync_applied [OF ok(1) push] by (auto simp: step_ok_def applied_push_def)
qed

lemma prune_step:
  assumes prune: "pruneCommitLog policy now q d = (horizon, removed, d')" and retain: "0 \<le> rp_minRetainedCommits policy"
    and ok: "storage_ok d" "ids_ok d"
  shows "step_ok d d'"
proof -
  note fields = pruneCommitLog_fields [of policy now q d, unfolded prune fst_conv snd_conv]
  have "getHorizonSeq d q \<le> horizon" using prune by (auto simp: pruneCommitLog_def Let_def case_prod_unfold split: if_splits)
  moreover have "placed_row_at d' = placed_row_at d" by (simp add: fields(1) fun_eq_iff placed_row_at_def)
  moreover have "storage_ok d'" using pruneCommitLog_ok [OF ok(1) retain, of now q] prune by simp
  ultimately show ?thesis
    using ok fields(2,3) in_sync_prune [OF ok(1) retain prune] by (auto simp: step_ok_def ids_ok_def)
qed

lemma server_step_ok:
  assumes "server_step d d'" "storage_ok d" "ids_ok d"
  shows "step_ok d d'"
  using assms
proof cases
  case (push env schema req build d0)
  then show ?thesis
    using push_atomic_lemma [of d env schema req build d0] same_data_rows_and_log same_rows_step applied_push_step assms(2,3)
    by blast
qed (auto intro: prune_step same_rows_step assms(2,3))

end
