(* ===== verification/Page_Delivery.thy ===== *)
theory Page_Delivery
  imports Pull Row_Scan
begin

text \<open>
  What a client gets out of a bootstrap page. A page is one frame of the response: the bytes of a
  segment, inline or by reference to the segment store. The receiving side decodes the segment it
  was sent and rebuilds its rows from the decoded values: the row id is the primary key, the scopes
  are the scope columns, the payload is the encoding of the values. For rows as an encoder writes
  them, what is received is exactly the page the server read.
\<close>

section \<open>The bytes of a page\<close>

lemma concat_chunkRows: "0 < n \<Longrightarrow> concat (chunkRows rows n) = rows"
  by (induction rows n rule: chunkRows.induct) (subst chunkRows.simps, simp)

lemma chunkRows_blocks: "block \<in> set (chunkRows rows n) \<Longrightarrow> block \<noteq> [] \<and> length block \<le> n \<and> set block \<subseteq> set rows"
proof (induction rows n rule: chunkRows.induct)
  case (1 rows n)
  then show ?case by (subst (asm) (2) chunkRows.simps) (force split: if_splits dest: in_set_takeD in_set_dropD)
qed

text \<open>The rows of a page as the segment carries them.\<close>

definition segment_rows :: "RowColumn list \<Rightarrow> StoredRow list \<Rightarrow> SegmentRow list \<Rightarrow> bool" where
  "segment_rows columns = list_all2 (\<lambda>row out. sr_serverVersion out = st_serverVersion row \<and>
     decodeRow columns (st_payload row) = Inr (sr_values out))"

lemma mapE_rows:
  "mapE (\<lambda>row. bindE (decodeRow columns (st_payload row)) (\<lambda>vs.
      Inr \<lparr>sr_serverVersion = st_serverVersion row, sr_values = vs\<rparr>)) rows = Inr out \<Longrightarrow> segment_rows columns rows out"
  by (induction rows arbitrary: out) (auto simp: segment_rows_def bindE_eq_Inr)

lemma pageBytes_exact:
  assumes bytes: "pageBytes schema plan rows = Inr bytes"
    and names: "str_ok (ct_name (sn_table plan))" "list_all (\<lambda>c. str_ok (rc_name c)) (ct_columns (sn_table plan))"
    and ok: "\<And>row vs. row \<in> set rows \<Longrightarrow> decodeRow (ct_columns (sn_table plan)) (st_payload row) = Inr vs \<Longrightarrow> row_ok (ct_columns (sn_table plan)) vs"
  obtains seg where "decodeRowsSegment bytes = Inr seg" "rs_table seg = ct_name (sn_table plan)" "rs_schemaVersion seg = cs_version schema"
    "rs_columns seg = map wire_column (ct_columns (sn_table plan))" "segment_rows (ct_columns (sn_table plan)) rows (concat (rs_blocks seg))"
proof -
  let ?cols = "ct_columns (sn_table plan)"
  obtain out where out: "mapE (\<lambda>row. bindE (decodeRow ?cols (st_payload row)) (\<lambda>vs.
      Inr \<lparr>sr_serverVersion = st_serverVersion row, sr_values = vs\<rparr>)) rows = Inr out"
    and enc: "encodeRowsSegment \<lparr>rs_table = ct_name (sn_table plan), rs_schemaVersion = cs_version schema,
      rs_columns = ?cols, rs_blocks = chunkRows out 1000\<rparr> = Inr bytes"
    using bytes by (auto simp: pageBytes_def bindE_eq_Inr)
  note rows = mapE_rows [OF out]
  have "row_ok ?cols (sr_values x)" if x: "x \<in> set out" for x
  proof -
    obtain row where "row \<in> set rows" "decodeRow ?cols (st_payload row) = Inr (sr_values x)"
      using rows x by (fastforce simp: segment_rows_def list_all2_conv_all_nth in_set_conv_nth)
    then show ?thesis using ok by blast
  qed
  then have "segment_ok \<lparr>rs_table = ct_name (sn_table plan), rs_schemaVersion = cs_version schema,
      rs_columns = ?cols, rs_blocks = chunkRows out 1000\<rparr>"
    using names chunkRows_blocks [of _ out 1000] by (auto simp: segment_ok_def list_all_iff)
  note seg = decode_encode_segment [OF enc this]
  show thesis by (rule that [OF seg]) (use rows concat_chunkRows [of 1000 out] in simp_all)
qed

section \<open>The receiving side\<close>

definition received_row :: "CompiledTable \<Rightarrow> SegmentRow \<Rightarrow> StoredRow option" where
  "received_row table r =
     (case (renderScopeValue (at (sr_values r) (ct_primaryKeyIndex table)), storedScopesForRow table (sr_values r),
            encodeRow (ct_columns table) (sr_values r)) of
        (Some rowId, Inr scopes, Inr payload) \<Rightarrow>
          Some \<lparr>st_rowId = rowId, st_serverVersion = sr_serverVersion r, st_scopes = scopes, st_payload = payload\<rparr>
      | _ \<Rightarrow> None)"

definition received_segment :: "CompiledTable \<Rightarrow> byte list \<Rightarrow> StoredRow list option" where
  "received_segment table bytes =
     (case decodeRowsSegment bytes of
        Inl _ \<Rightarrow> None
      | Inr seg \<Rightarrow> if rs_table seg \<noteq> ct_name table then None else those (map (received_row table) (concat (rs_blocks seg))))"

text \<open>A reference is resolved in the segment store as the section left it.\<close>

fun frame_rows :: "CompiledTable \<Rightarrow> MemorySegmentStore \<Rightarrow> ResponseFrame \<Rightarrow> StoredRow list option" where
  "frame_rows table store (SegmentInline bytes) = received_segment table bytes"
| "frame_rows table store (SegmentRef f) =
     (case seg_get (sg_segmentId f) store of None \<Rightarrow> None | Some (_, bytes) \<Rightarrow> received_segment table bytes)"
| "frame_rows table store _ = Some []"

text \<open>The rows of the frames a section yielded between two of its states.\<close>

definition received :: "CompiledTable \<Rightarrow> section_state \<Rightarrow> section_state \<Rightarrow> StoredRow list option" where
  "received table st st' =
     map_option concat (those (map (frame_rows table (xs_store st')) (drop (length (xs_frames st)) (xs_frames st'))))"

text \<open>
  A row as an encoder writes it: its payload is the encoding of its values, which the codec gives
  back unchanged, and its id and scopes are those of the values.
\<close>

definition wire_row :: "CompiledTable \<Rightarrow> StoredRow \<Rightarrow> bool" where
  "wire_row table row \<longleftrightarrow>
     (case decodeRow (ct_columns table) (st_payload row) of
        Inl _ \<Rightarrow> False
      | Inr vals \<Rightarrow> row_ok (ct_columns table) vals \<and> encodeRow (ct_columns table) vals = Inr (st_payload row) \<and>
          renderScopeValue (at vals (ct_primaryKeyIndex table)) = Some (st_rowId row) \<and>
          storedScopesForRow table vals = Inr (st_scopes row))"

definition wire_rows :: "CompiledTable \<Rightarrow> jsstring \<Rightarrow> db \<Rightarrow> bool" where
  "wire_rows table p d \<longleftrightarrow> str_ok (ct_name table) \<and> list_all (\<lambda>c. str_ok (rc_name c)) (ct_columns table) \<and>
     list_all (\<lambda>(p', t, row). p' = p \<and> t = ct_name table \<longrightarrow> wire_row table row) (db_rows d)"

lemma received_wire:
  assumes "wire_row table row" "sr_serverVersion out = st_serverVersion row" "decodeRow (ct_columns table) (st_payload row) = Inr (sr_values out)"
  shows "received_row table out = Some row"
  using assms by (cases row) (simp add: wire_row_def received_row_def)

lemma received_wires:
  "segment_rows (ct_columns table) rows out \<Longrightarrow> list_all (wire_row table) rows \<Longrightarrow> those (map (received_row table) out) = Some rows"
proof (induction rows arbitrary: out)
  case (Cons row rows)
  then obtain x xs where "out = x # xs" "received_row table x = Some row" "segment_rows (ct_columns table) rows xs"
    using received_wire by (auto simp: segment_rows_def list_all2_Cons1)
  then show ?case using Cons by simp
qed (simp add: segment_rows_def)

text \<open>A single turn of the page loop yields one frame.\<close>

lemma pageLoop_one:
  assumes "pageLoop env rd schema limits plan asOf digest epoch 1 cur st = Inr (complete, cur', st')"
  obtains scanned bytes frame where
      "scanRows (rd (xs_read st)) (pu_part env) (snapshot_query plan cur (pl_limitSnapshotRows limits + 1)) = Inr scanned"
    and "complete \<longleftrightarrow> int (length scanned) \<le> pl_limitSnapshotRows limits"
    and "\<not> complete \<Longrightarrow> take (nat (pl_limitSnapshotRows limits)) scanned \<noteq> [] \<Longrightarrow>
      cur' = Some (st_rowId (List.last (take (nat (pl_limitSnapshotRows limits)) scanned)))"
    and "pageBytes schema plan (take (nat (pl_limitSnapshotRows limits)) scanned) = Inr bytes"
    and "xs_frames st' = xs_frames st @ [frame]"
    and "\<And>table. frame_rows table (xs_store st') frame = received_segment table bytes"
proof -
  let ?n = "pl_limitSnapshotRows limits"
  obtain scanned where scan: "scanRows (rd (xs_read st)) (pu_part env) (snapshot_query plan cur (?n + 1)) = Inr scanned"
    using assms by (auto simp: bindE_eq_Inr liftP_eq_Inr)
  let ?page = "take (nat ?n) scanned"
  obtain bytes where bytes: "pageBytes schema plan ?page = Inr bytes"
    using assms scan by (auto simp: bindE_eq_Inr liftP_eq_Inr Let_def)
  define st1 where "st1 = st\<lparr>xs_read := xs_read st + 1\<rparr>"
  define put where "put = seg_put (pu_sha256 env)
      \<lparr>sm_partition = pu_part env, sm_logEpoch = epoch, sm_table = ct_name (sn_table plan),
       sm_schemaVersion = cs_version schema, sm_mediaType = MediaRows, sm_scopeDigest = digest,
       sm_asOfCommitSeq = asOf, sm_rowCount = int (length ?page), sm_rowCursor = cur,
       sm_nextRowCursor = (if int (length scanned) > ?n \<and> ?page \<noteq> [] then Some (st_rowId (List.last ?page)) else None)\<rparr>
      bytes (pu_clock env 0) (xs_store st1)"
  define inline where "inline \<longleftrightarrow> accepts limits ACCEPT_INLINE_ROWS \<and>
      (int (length bytes) \<le> pu_inlineMax env \<or> \<not> accepts limits ACCEPT_EXTERNAL_ROWS)"
  define st2 where "st2 = (if inline then yield_frame (SegmentInline bytes) st1
      else yield_frame (segmentRefFrame (fst put) (signedUrlFields env limits (sm_segmentId (fst put)) digest (pu_clock env 0)))
        (st1\<lparr>xs_store := snd put\<rparr>))"
  have run: "(if \<not> int (length scanned) > ?n then Inr (True, None, st2)
      else Inr (False, if int (length scanned) > ?n \<and> ?page \<noteq> [] then Some (st_rowId (List.last ?page)) else None, st2)) =
      (Inr (complete, cur', st') :: PullError + _)"
    using assms unfolding One_nat_def pageLoop.simps scan liftPS_def sum.case bindE_simps Let_def bytes liftPD_def
      case_prod_unfold st2_def inline_def put_def st1_def by simp
  then have st': "st' = st2" by (simp split: if_splits)
  define frame where "frame = List.last (xs_frames st2)"
  have frames: "xs_frames st2 = xs_frames st @ [frame]" unfolding frame_def st2_def st1_def by (simp add: yield_frame_def)
  have get: "seg_get (sm_segmentId (fst put)) (snd put) = Some (fst put, bytes)"
    unfolding put_def seg_get_put by (simp add: seg_put_fields)
  have "frame_rows table (xs_store st2) frame = received_segment table bytes" for table
    unfolding frame_def st2_def using get by (simp add: yield_frame_def segmentRefFrame_def)
  with frames show thesis
    using that [OF scan _ _ bytes, of frame] run st' by (auto split: if_splits)
qed

lemma page_received:
  assumes "pageLoop env rd schema limits plan asOf digest epoch 1 cur st = Inr (complete, cur', st')"
    and scan: "scanRows (rd (xs_read st)) (pu_part env) (snapshot_query plan cur (pl_limitSnapshotRows limits + 1)) = Inr scanned"
    and names: "str_ok (ct_name (sn_table plan))" "list_all (\<lambda>c. str_ok (rc_name c)) (ct_columns (sn_table plan))"
    and wire: "list_all (wire_row (sn_table plan)) (take (nat (pl_limitSnapshotRows limits)) scanned)"
  shows "received (sn_table plan) st st' = Some (take (nat (pl_limitSnapshotRows limits)) scanned)"
proof (rule pageLoop_one [OF assms(1)])
  fix scanned' bytes frame
  assume "scanRows (rd (xs_read st)) (pu_part env) (snapshot_query plan cur (pl_limitSnapshotRows limits + 1)) = Inr scanned'"
    and bytes: "pageBytes schema plan (take (nat (pl_limitSnapshotRows limits)) scanned') = Inr bytes"
    and frames: "xs_frames st' = xs_frames st @ [frame]"
    and rows: "\<And>table. frame_rows table (xs_store st') frame = received_segment table bytes"
  then have page: "pageBytes schema plan (take (nat (pl_limitSnapshotRows limits)) scanned) = Inr bytes" using scan by simp
  have ok: "row_ok (ct_columns (sn_table plan)) vs" if "row \<in> set (take (nat (pl_limitSnapshotRows limits)) scanned)"
    "decodeRow (ct_columns (sn_table plan)) (st_payload row) = Inr vs" for row vs
    using wire that by (auto simp: list_all_iff wire_row_def)
  obtain seg where "decodeRowsSegment bytes = Inr seg" "rs_table seg = ct_name (sn_table plan)"
    "segment_rows (ct_columns (sn_table plan)) (take (nat (pl_limitSnapshotRows limits)) scanned) (concat (rs_blocks seg))"
    by (rule pageBytes_exact [OF page names ok])
  then have "received_segment (sn_table plan) bytes = Some (take (nat (pl_limitSnapshotRows limits)) scanned)"
    using received_wires wire by (simp add: received_segment_def)
  then show ?thesis by (simp add: received_def frames rows)
qed

text \<open>A request of several pages is a sequence of single ones.\<close>

lemma pageLoop_pages:
  "pageLoop env rd schema limits plan asOf digest epoch (Suc pages) cur st =
     bindE (pageLoop env rd schema limits plan asOf digest epoch 1 cur st) (\<lambda>(complete, cur', st').
       if complete then Inr (True, None, st') else pageLoop env rd schema limits plan asOf digest epoch pages cur' st')"
  by (simp add: bindE_def Let_def split: sum.split)

end
