(* ===== verification/Sync_Run.thy ===== *)
theory Sync_Run
  imports Convergence Page_Delivery
begin

text \<open>
  The runs of one subscribed client against the server: pushes of any client, pruning, pulls and
  the pages of a bootstrap, one after the other. The client applies what the server sent: the
  commits of the frames of a pull, the rows decoded from the segments of a page. Whenever its cursor
  is at the end of the log it holds exactly the server's rows of its subscription, and repeated
  pulls take it there.
\<close>

section \<open>Applying a pull\<close>

text \<open>What a client does with the commits of a section: the changes of each frame in order.\<close>

definition frame_changes :: "CommitFrame \<Rightarrow> NewChange list" where
  "frame_changes fr = map (\<lambda>c. \<lparr>ch_table = cf_tables fr ! nat (cc_tableIndex c), ch_rowId = cc_rowId c, ch_op = cc_op c,
     ch_rowVersion = cc_rowVersion c, ch_scopes = cc_scopes c, ch_payload = cc_row c\<rparr>) (cf_changes fr)"

fun client_apply :: "jsstring \<Rightarrow> ResponseFrame list \<Rightarrow> (row_key \<Rightarrow> placed_row option) \<Rightarrow> (row_key \<Rightarrow> placed_row option)" where
  "client_apply p [] v = v"
| "client_apply p (Commit fr # frames) v = client_apply p frames (fold (apply_change p) (frame_changes fr) v)"
| "client_apply p (_ # frames) v = client_apply p frames v"

lemma client_apply_append: "client_apply p (xs @ ys) v = client_apply p ys (client_apply p xs v)"
proof (induction xs arbitrary: v)
  case (Cons x xs)
  then show ?case by (cases x) simp_all
qed simp

definition of_table :: "jsstring \<Rightarrow> StoredCommit \<Rightarrow> bool" where
  "of_table t commit \<longleftrightarrow> list_all (\<lambda>c. ch_table c = t) (cm_changes commit)"

lemma commitFrame_changes:
  assumes "of_table t commit"
  shows "client_apply p [commitFrame t commit] v = fold (apply_change p) (cm_changes commit) v"
proof -
  have "map (\<lambda>c. \<lparr>ch_table = t, ch_rowId = ch_rowId c, ch_op = ch_op c, ch_rowVersion = ch_rowVersion c,
      ch_scopes = ch_scopes c, ch_payload = ch_payload c\<rparr>) cs = cs" if "list_all (\<lambda>c. ch_table c = t) cs" for cs
    using that by (induction cs) auto
  then show ?thesis using assms by (simp add: commitFrame_def frame_changes_def of_table_def comp_def)
qed

lemma client_apply_commits:
  "list_all (of_table t) commits \<Longrightarrow>
   client_apply p (map (commitFrame t) commits) v = fold (apply_change p) (concat (map cm_changes commits)) v"
proof (induction commits arbitrary: v)
  case (Cons c cs)
  then have "client_apply p [commitFrame t c] v = fold (apply_change p) (cm_changes c) v" by (intro commitFrame_changes) simp
  then show ?case using Cons client_apply_append [of p "[commitFrame t c]" "map (commitFrame t) cs" v] by simp
qed simp

lemma matching_of_table: "c \<in> set (matching_commits d p t f a b) \<Longrightarrow> of_table t c"
  by (auto simp: matching_commits_def List.map_filter_def of_table_def list_all_iff window_commit_def Let_def commit_changes_def
      split: option.splits if_splits)

section \<open>The delivery loop\<close>

lemma deliverLoop_prefix: "\<exists>k. deliverLoop limit commits n = take k commits"
proof (induction commits arbitrary: n)
  case (Cons c cs)
  show ?case
  proof (cases "n > 0 \<and> n + int (length (cm_changes c)) > limit")
    case True
    then have "deliverLoop limit (c # cs) n = take 0 (c # cs)" by simp
    then show ?thesis by blast
  next
    case False
    obtain k where k: "deliverLoop limit cs (n + int (length (cm_changes c))) = take k cs" using Cons.IH by blast
    have "deliverLoop limit (c # cs) n = take (if n + int (length (cm_changes c)) \<ge> limit then 1 else Suc k) (c # cs)"
      using False k by (simp add: Let_def)
    then show ?thesis by blast
  qed
qed simp

lemma deliverLoop_first: "commits \<noteq> [] \<Longrightarrow> deliverLoop limit commits 0 \<noteq> []"
  by (cases commits) simp_all

lemma take_budget_prefix: "\<exists>ys. xs = take_budget n xs @ ys"
  by (induction xs arbitrary: n) (auto intro: exI [where x = "_ # _"])

text \<open>The section delivers a prefix of the matching commits; the cursor is the end of what it covers.\<close>

lemma incremental_prefix:
  assumes ok: "log_ok (rd n)" "scope_filter_ok (sn_effective plan)"
    and range: "sb_cursor (sn_frame plan) \<le> maxSeq" and limit: "1 \<le> pl_limitCommits limits"
    and sec: "incrementalSection env rd limits plan maxSeq n = (commits, cursor)"
  defines "M \<equiv> matching_commits (rd n) (pu_part env) (sb_table (sn_frame plan)) (sn_effective plan) (sb_cursor (sn_frame plan)) maxSeq"
  obtains (all) "commits = M" and "cursor = maxSeq"
  | (part) ys where "M = commits @ ys" and "commits \<noteq> []" and "cursor = cm_commitSeq (List.last commits)"
proof -
  let ?c = "sb_cursor (sn_frame plan)" and ?l = "pl_limitCommits limits"
  let ?q = "\<lparr>cw_table = sb_table (sn_frame plan), cw_scopeFilter = sn_effective plan, cw_afterSeq = ?c, cw_throughSeq = maxSeq,
    cw_limitChanges = ?l + 1\<rparr>"
  let ?read = "readCommitWindow (rd n) (pu_part env) ?q"
  have read: "?read = take_budget (?l + 1) M" using readCommitWindow_spec [OF ok(1), of ?q] ok(2) by (simp add: M_def)
  have commits: "commits = deliverLoop ?l ?read 0"
    and cursor: "cursor = (if change_count ?read \<le> ?l \<and> length commits = length ?read then max ?c maxSeq
      else max ?c (if commits = [] then ?c else cm_commitSeq (List.last commits)))"
    using sec by (auto simp: incrementalSection_def Let_def)
  obtain k where k: "commits = take k ?read" using deliverLoop_prefix commits by metis
  obtain zs where zs: "M = ?read @ zs" using take_budget_prefix [of M "?l + 1"] read by auto
  show thesis
  proof (cases "change_count ?read \<le> ?l \<and> length commits = length ?read")
    case True
    then have "take_budget (?l + 1) M = M" using read by (intro take_budget_full) simp
    moreover have "commits = ?read" using True k by (metis length_take min.absorb_iff1 take_all)
    ultimately show thesis using True cursor range read by (intro all) simp_all
  next
    case False
    have "commits \<noteq> []"
    proof
      assume "commits = []"
      then have "?read = []" using deliverLoop_first commits by metis
      then show False using False \<open>commits = []\<close> limit by simp
    qed
    moreover have "M = commits @ (drop k ?read @ zs)" using k zs by simp
    moreover have "?c < cm_commitSeq (List.last commits)"
    proof -
      have "List.last commits \<in> set M" using \<open>commits \<noteq> []\<close> \<open>M = commits @ (drop k ?read @ zs)\<close> by simp
      then show ?thesis using matching_seqs by (auto simp: M_def)
    qed
    ultimately show thesis using cursor False by (intro part [of "drop k ?read @ zs"]) simp_all
  qed
qed

lemma in_sync_incremental:
  assumes ok: "log_ok d" "scope_filter_ok f" and d: "rd n = d"
    and plan: "pu_part env = p" "sb_table (sn_frame plan) = t" "sn_effective plan = f"
    and range: "sb_cursor (sn_frame plan) \<le> maxSeq" "maxSeq \<le> getMaxCommitSeq d p" and limit: "1 \<le> pl_limitCommits limits"
    and sec: "incrementalSection env rd limits plan maxSeq n = (commits, cursor)"
    and sync: "in_sync p t f v (sb_cursor (sn_frame plan)) d"
  shows "in_sync p t f (client_apply p (map (commitFrame t) commits) v) cursor d"
    and "sb_cursor (sn_frame plan) \<le> cursor" "cursor \<le> maxSeq" "cursor = maxSeq \<or> sb_cursor (sn_frame plan) < cursor"
proof -
  let ?c = "sb_cursor (sn_frame plan)"
  let ?M = "matching_commits d p t f ?c maxSeq"
  have whole: "matching_commits d p t f ?c (getMaxCommitSeq d p) = ?M @ matching_commits d p t f maxSeq (getMaxCommitSeq d p)"
    by (rule window_append [OF range ok(1)])
  have rest: "\<exists>ys. matching_commits d p t f ?c (getMaxCommitSeq d p) = commits @ ys \<and>
      ys = matching_commits d p t f cursor (getMaxCommitSeq d p) \<and> ?c \<le> cursor \<and> cursor \<le> maxSeq \<and> (cursor = maxSeq \<or> ?c < cursor)"
  proof (rule incremental_prefix [of rd n plan maxSeq limits env commits cursor, unfolded d plan])
    assume "commits = ?M" "cursor = maxSeq"
    then show ?thesis using whole range(1) by simp
  next
    fix ys assume ys: "?M = commits @ ys" "commits \<noteq> []" and c: "cursor = cm_commitSeq (List.last commits)"
    have "List.last commits \<in> set ?M" using ys by simp
    then have "?c < cursor \<and> cursor \<le> maxSeq" using matching_seqs c by blast
    moreover have "ys @ matching_commits d p t f maxSeq (getMaxCommitSeq d p) = matching_commits d p t f cursor (getMaxCommitSeq d p)"
      unfolding c using ys whole by (intro matching_rest [OF ok(1)]) simp_all
    ultimately show ?thesis using whole ys by auto
  qed (use ok d plan range limit sec in simp_all)
  then have "list_all (of_table t) commits" by (metis list_all_iff matching_of_table Un_iff set_append)
  then show "in_sync p t f (client_apply p (map (commitFrame t) commits) v) cursor d"
    using sync rest by (auto simp: in_sync_def rest_of_log_def client_apply_commits)
  show "?c \<le> cursor" "cursor \<le> maxSeq" "cursor = maxSeq \<or> ?c < cursor" using rest by blast+
qed

section \<open>Pages\<close>

text \<open>The rows of one page read from \<open>d\<close> after a row cursor.\<close>

definition page_rows :: "db \<Rightarrow> jsstring \<Rightarrow> SubscriptionPlan \<Rightarrow> PullLimits \<Rightarrow> jsstring option \<Rightarrow> StoredRow list" where
  "page_rows d p plan limits cur =
     (case scanRows d p (snapshot_query plan cur (pl_limitSnapshotRows limits + 1)) of
        Inl _ \<Rightarrow> [] | Inr scanned \<Rightarrow> take (nat (pl_limitSnapshotRows limits)) scanned)"

definition put_rows :: "jsstring \<Rightarrow> jsstring \<Rightarrow> StoredRow list \<Rightarrow> (row_key \<Rightarrow> placed_row option) \<Rightarrow> (row_key \<Rightarrow> placed_row option)" where
  "put_rows p t rows w = fold (\<lambda>row m. m((p, t, st_rowId row) := Some (p, t, row))) rows w"

lemma put_rows_other: "(\<And>row. row \<in> set rows \<Longrightarrow> k \<noteq> (p, t, st_rowId row)) \<Longrightarrow> put_rows p t rows w k = w k"
  by (induction rows arbitrary: w) (auto simp: put_rows_def)

lemma put_rows_member:
  "distinct (map st_rowId rows) \<Longrightarrow> row \<in> set rows \<Longrightarrow> put_rows p t rows w (p, t, st_rowId row) = Some (p, t, row)"
proof (induction rows arbitrary: w)
  case (Cons x xs)
  show ?case
  proof (cases "row = x")
    case True
    have "put_rows p t xs (w((p, t, st_rowId x) := Some (p, t, x))) (p, t, st_rowId x) = Some (p, t, x)"
      using Cons.prems(1) by (subst put_rows_other) auto
    then show ?thesis using True by (simp add: put_rows_def)
  next
    case False
    then show ?thesis using Cons by (simp add: put_rows_def)
  qed
qed simp

definition cursor_key :: "jsstring option \<Rightarrow> byte list" where
  "cursor_key cur = text_key (case cur of None \<Rightarrow> [] | Some r \<Rightarrow> r)"

lemma scanRows_table:
  assumes "scanRows d p query = Inr rows" and "scope_filter_ok (sq_scopeFilter query)"
  shows "map_of (db_tables d) (sq_table query) \<noteq> None"
proof -
  let ?f = "sq_scopeFilter query"
  obtain v keys where keys: "sort (map fst ?f) = v # keys"
    using assms(2) by (cases "sort (map fst ?f)") (auto simp: scope_filter_ok_def dest!: arg_cong [of _ _ length])
  then have "v \<in> fst ` set ?f" by (metis list.set_intros(1) set_map set_sort)
  then obtain vs where "map_of ?f v = Some vs" "vs \<noteq> []"
    using assms(2) by (force simp: scope_filter_ok_def list_all_iff)
  then show ?thesis
    using assms(1) by (auto simp: scanRows_def assertScopeIndexedScan_def keys bindE_eq_Inr table_of_def split: option.splits)
qed

text \<open>The matching rows after a cursor, and the server's view of their keys.\<close>

lemma ids_row_ids: "ids_ok d \<Longrightarrow> rows_ok d \<Longrightarrow> row_ids_ok d"
proof -
  assume ids: "ids_ok d" and ok: "rows_ok d"
  have "well_formed (st_rowId row)" if row: "(p, t, row) \<in> set (db_rows d)" for p t row
  proof -
    have "stored_row d (p, t, st_rowId row) = Some row" using stored_row_rows [OF ok] row by simp
    then have "placed_row_at d (p, t, st_rowId row) \<noteq> None" by (auto simp: stored_row_placed)
    then show ?thesis using ids by (auto simp: ids_ok_def)
  qed
  then show ?thesis by (auto simp: row_ids_ok_def)
qed

lemma matching_rows_keys:
  assumes "rows_ok d" "ids_ok d"
  shows "sorted (map (\<lambda>row. text_key (st_rowId row)) (matching_rows d p t f after))"
    and "distinct (map (\<lambda>row. text_key (st_rowId row)) (matching_rows d p t f after))"
    and "distinct (map st_rowId (matching_rows d p t f after))"
proof -
  let ?rows = "sort_key (\<lambda>row. text_key (st_rowId row)) (table_rows d p t)"
  have M: "matching_rows d p t f after =
      filter (\<lambda>row. matchesEffective (st_scopes row) f \<and> text_key after < text_key (st_rowId row)) ?rows"
    by (simp add: matching_rows_def table_rows_def)
  have "distinct (map st_rowId ?rows)" using table_rows_distinct [OF assms(1), of p t] by (simp add: distinct_map)
  then show ids: "distinct (map st_rowId (matching_rows d p t f after))" unfolding M by (rule distinct_map_filter)
  have "\<forall>row\<in>set (matching_rows d p t f after). well_formed (st_rowId row)"
    using ids_row_ids [OF assms(2,1)] by (auto simp: M table_rows_set row_ids_ok_def)
  then have "inj_on text_key (st_rowId ` set (matching_rows d p t f after))" using text_key_inj by (auto simp: inj_on_def)
  then show "distinct (map (\<lambda>row. text_key (st_rowId row)) (matching_rows d p t f after))"
    using ids by (auto simp: distinct_map comp_inj_on comp_def intro!: comp_inj_on [of st_rowId _ text_key, unfolded comp_def])
  have "sorted (map (\<lambda>row. text_key (st_rowId row)) ?rows)" by simp
  then show "sorted (map (\<lambda>row. text_key (st_rowId row)) (matching_rows d p t f after))" unfolding M by (rule sorted_filter)
qed

lemma visible_Some: "visible P m k = Some v \<longleftrightarrow> m k = Some v \<and> P v"
  by (auto simp: visible_def split: option.splits if_splits)

lemma server_view_rows:
  assumes "rows_ok d" and "text_key after < text_key r"
  shows "server_view p t f d (p, t, r) = Some v \<longleftrightarrow> (\<exists>row\<in>set (matching_rows d p t f after). st_rowId row = r \<and> v = (p, t, row))"
proof -
  have "placed_row_at d (p, t, r) = Some w \<longleftrightarrow> (\<exists>row. w = (p, t, row) \<and> (p, t, row) \<in> set (db_rows d) \<and> st_rowId row = r)" for w
  proof -
    have "placed_row_at d (p, t, r) = Some w \<longleftrightarrow> (\<exists>row. w = (p, t, row) \<and> stored_row d (p, t, r) = Some row)"
      using placed_row_at_key [of d "(p, t, r)"] by (cases w) (auto simp: stored_row_placed)
    then show ?thesis by (simp add: stored_row_rows [OF assms(1)])
  qed
  then show ?thesis using assms(2)
    by (auto simp: visible_Some in_view_def matching_rows_def table_rows_def [symmetric] table_rows_set)
qed

text \<open>After a page, every key up to the new cursor holds what the server held when the page was read.\<close>

lemma page_covers:
  assumes ok: "rows_ok d" "ids_ok d" and f: "scope_filter_ok f" and limit: "1 \<le> pl_limitSnapshotRows limits"
    and plan: "ct_name (sn_table plan) = t" "sn_effective plan = f"
    and scan: "scanRows d p (snapshot_query plan cur (pl_limitSnapshotRows limits + 1)) = Inr scanned"
  defines "rows \<equiv> page_rows d p plan limits cur"
  assumes key: "cursor_key cur < text_key r"
    and upto: "int (length scanned) \<le> pl_limitSnapshotRows limits \<or> text_key r \<le> text_key (st_rowId (List.last rows))"
    and w: "w (p, t, r) = None"
  shows "put_rows p t rows w (p, t, r) = server_view p t f d (p, t, r)"
proof -
  let ?n = "nat (pl_limitSnapshotRows limits)" and ?after = "case cur of None \<Rightarrow> [] | Some r \<Rightarrow> r"
  let ?M = "matching_rows d p t f ?after"
  have spec: "scanned = take (nat (pl_limitSnapshotRows limits + 1)) ?M"
    using scanRows_spec [OF ok(1) ids_row_ids [OF ok(2,1)], of "snapshot_query plan cur (pl_limitSnapshotRows limits + 1)" p]
      scanRows_table [OF scan] scan f plan by (simp add: snapshot_query_def)
  have rows: "rows = take ?n ?M" unfolding rows_def page_rows_def scan sum.case spec by (simp add: min_def)
  have dist: "distinct (map st_rowId rows)" using matching_rows_keys(3) [OF ok] unfolding rows by (simp add: distinct_take flip: take_map)
  have all: "row \<in> set rows" if row: "row \<in> set ?M" "st_rowId row = r" for row
  proof (cases "int (length scanned) \<le> pl_limitSnapshotRows limits")
    case True
    then have "length ?M \<le> ?n" using spec limit by (auto simp: min_def split: if_splits)
    then show ?thesis using row by (simp add: rows)
  next
    case False
    then have ne: "take ?n ?M \<noteq> []" using limit spec by auto
    have "\<not> text_key (st_rowId (List.last rows)) < text_key r" using upto False by auto
    then have "row \<notin> set (drop ?n ?M)"
      using filter_after_key [OF matching_rows_keys(1,2) [OF ok] ne] row(2) rows by (metis (mono_tags, lifting) mem_Collect_eq set_filter)
    then show ?thesis using row(1) rows by (metis Un_iff append_take_drop_id set_append)
  qed
  have after: "text_key ?after < text_key r" using key by (simp add: cursor_key_def)
  show ?thesis
  proof (cases "\<exists>row\<in>set ?M. st_rowId row = r")
    case True
    then obtain row where row: "row \<in> set ?M" "st_rowId row = r" by blast
    then have "server_view p t f d (p, t, r) = Some (p, t, row)" using server_view_rows [OF ok(1) after] by blast
    then show ?thesis using put_rows_member [OF dist all [OF row], of p t w] row(2) by simp
  next
    case False
    then have "server_view p t f d (p, t, r) = None" using server_view_rows [OF ok(1) after, of p t f] by (metis option.exhaust)
    moreover have "put_rows p t rows w (p, t, r) = w (p, t, r)" using False rows by (intro put_rows_other) (auto dest: in_set_takeD)
    ultimately show ?thesis using w by simp
  qed
qed

lemma page_rows_after:
  assumes ok: "rows_ok d" "ids_ok d" and f: "scope_filter_ok f" and plan: "ct_name (sn_table plan) = t" "sn_effective plan = f"
    and row: "row \<in> set (page_rows d p plan limits cur)"
  shows "cursor_key cur < text_key (st_rowId row)"
proof -
  obtain scanned where scan: "scanRows d p (snapshot_query plan cur (pl_limitSnapshotRows limits + 1)) = Inr scanned" "row \<in> set scanned"
    using row by (cases "scanRows d p (snapshot_query plan cur (pl_limitSnapshotRows limits + 1))")
      (auto simp: page_rows_def dest: in_set_takeD)
  have "row \<in> set (matching_rows d p t f (case cur of None \<Rightarrow> [] | Some r \<Rightarrow> r))"
    using scanRows_spec [OF ok(1) ids_row_ids [OF ok(2,1)], of "snapshot_query plan cur (pl_limitSnapshotRows limits + 1)" p]
      scanRows_table [OF scan(1)] scan f plan by (auto simp: snapshot_query_def dest: in_set_takeD)
  then show ?thesis by (simp add: matching_rows_def cursor_key_def)
qed

section \<open>Runs\<close>

text \<open>
  A bootstrap under way: the pinned sequence number, the row cursor and the rows received so far.
\<close>

type_synonym boot = "int \<times> jsstring option \<times> (row_key \<Rightarrow> placed_row option)"
type_synonym sync_state = "(row_key \<Rightarrow> placed_row option) \<times> int \<times> db \<times> boot option"

text \<open>
  The steps. The server moves by itself. A client without a cursor starts a bootstrap, which pins
  the maximal sequence number and begins with cleared rows; then the pages follow one by one, each
  read from the database of that moment, and the client puts the rows it decodes from the yielded
  segment. An incremental section was planned with the maximal sequence number and the horizon of
  an earlier moment.

  What the steps leave out: a prune that passes the cursor between the handler's reading of the
  horizon and its reading of the commits (the section then skips commits), a bootstrap restarted
  because its pin fell behind the horizon (the client does not clear then), pages with rows the
  codec does not give back unchanged (a text with a leading byte order mark), and SQLite images.
\<close>

inductive sync_step :: "jsstring \<Rightarrow> jsstring \<Rightarrow> scope_map \<Rightarrow> sync_state \<Rightarrow> sync_state \<Rightarrow> bool" for p t f where
  server: "server_step d d' \<Longrightarrow> sync_step p t f (v, c, d, b) (v, c, d', b)"
| reset: "sync_step p t f (v, c, d, b) (v, - 1, d, None)"
| pin: "c < 0 \<Longrightarrow> sync_step p t f (v, c, d, None) (v, c, d, Some (getMaxCommitSeq d p, None, \<lambda>_. None))"
| page: "pageLoop env rd schema limits plan asOf digest epoch 1 cur st = Inr (complete, cur', st') \<Longrightarrow>
    rd (xs_read st) = d \<Longrightarrow> pu_part env = p \<Longrightarrow> ct_name (sn_table plan) = t \<Longrightarrow> sn_effective plan = f \<Longrightarrow>
    1 \<le> pl_limitSnapshotRows limits \<Longrightarrow> wire_rows (sn_table plan) p d \<Longrightarrow>
    received (sn_table plan) st st' = Some rows \<Longrightarrow> w' = put_rows p t rows w \<Longrightarrow>
    sync_step p t f (v, c, d, Some (asOf, cur, w)) (if complete then (w', asOf, d, None) else (v, c, d, Some (asOf, cur', w')))"
| pull: "subscriptionSection fuel env rd schema limits plan maxSeq horizonSeq (Some epoch)
      \<lparr>xs_frames = [], xs_store = store, xs_read = n\<rparr> = Inr (result, st) \<Longrightarrow>
    rd n = d \<Longrightarrow> pu_part env = p \<Longrightarrow> sb_table (sn_frame plan) = t \<Longrightarrow> sn_effective plan = f \<Longrightarrow> sb_cursor (sn_frame plan) = c \<Longrightarrow>
    sn_active plan \<Longrightarrow> sb_bootstrapState (sn_frame plan) = None \<Longrightarrow> 1 \<le> pl_limitCommits limits \<Longrightarrow>
    horizonSeq \<le> c \<Longrightarrow> 0 \<le> c \<Longrightarrow> c \<le> maxSeq \<Longrightarrow> maxSeq \<le> getMaxCommitSeq d p \<Longrightarrow> getHorizonSeq d p \<le> c \<Longrightarrow>
    sync_step p t f (v, c, d, None) (client_apply p (xs_frames st) v, sr_nextCursor result, d, None)"

text \<open>
  The invariant of a bootstrap: as long as the horizon has not passed the pin, the keys up to the
  row cursor hold a value that is in sync from the pin on, and the others are still empty.
\<close>

definition boot_inv :: "jsstring \<Rightarrow> jsstring \<Rightarrow> scope_map \<Rightarrow> db \<Rightarrow> boot \<Rightarrow> bool" where
  "boot_inv p t f d = (\<lambda>(asOf, cur, w). asOf \<le> getMaxCommitSeq d p \<and>
     (\<forall>p' t' r. \<not> (p' = p \<and> t' = t \<and> cursor_key cur \<ge> text_key r) \<longrightarrow> w (p', t', r) = None) \<and>
     (getHorizonSeq d p \<le> asOf \<longrightarrow> in_sync p t f (server_view p t f d) asOf d \<and>
        (\<forall>r. text_key r \<le> cursor_key cur \<longrightarrow> (\<exists>u. w (p, t, r) = u (p, t, r) \<and> in_sync p t f u asOf d))))"

definition sync_inv :: "jsstring \<Rightarrow> jsstring \<Rightarrow> scope_map \<Rightarrow> sync_state \<Rightarrow> bool" where
  "sync_inv p t f = (\<lambda>(v, c, d, b). storage_ok d \<and> ids_ok d \<and> c \<le> getMaxCommitSeq d p \<and>
     (getHorizonSeq d p \<le> c \<longrightarrow> in_sync p t f v c d) \<and> pred_option (boot_inv p t f d) b)"

lemma server_view_outside:
  assumes "ids_ok d" and "\<not> (p' = p \<and> t' = t)"
  shows "server_view p t f d (p', t', r) = None"
proof -
  have "v = (p', t', snd (snd v))" if "placed_row_at d (p', t', r) = Some v" for v
    using placed_row_at_key [OF that] by (cases v) auto
  then show ?thesis using assms(2) by (auto simp: visible_def in_view_def split: option.splits)
qed

lemma pin_inv:
  assumes "ids_ok d"
  shows "boot_inv p t f d (getMaxCommitSeq d p, None, \<lambda>_. None)"
proof -
  have "server_view p t f d (p, t, r) = None" if "text_key r \<le> cursor_key None" for r
  proof (rule ccontr)
    assume "server_view p t f d (p, t, r) \<noteq> None"
    then have "placed_row_at d (p, t, r) \<noteq> None" by (auto simp: visible_Some)
    then have r: "well_formed r" "r \<noteq> []" using assms by (auto simp: ids_ok_def)
    have "text_key r = text_key []" using that by (simp add: cursor_key_def text_key_def text_encode_def code_points.simps utf8_bytes_def)
    then show False using text_key_inj [of r "[]"] r by simp
  qed
  then have "\<exists>u. None = u (p, t, r) \<and> in_sync p t f u (getMaxCommitSeq d p) d" if "text_key r \<le> cursor_key None" for r
    using that in_sync_fresh [of p t f d] by (intro exI [of _ "server_view p t f d"]) simp
  then show ?thesis using in_sync_fresh by (simp add: boot_inv_def)
qed

lemma boot_inv_step:
  assumes "boot_inv p t f d b" and "step_ok d d'"
  shows "boot_inv p t f d' b"
proof -
  obtain asOf cur w where b: "b = (asOf, cur, w)" by (cases b)
  have mono: "getMaxCommitSeq d p \<le> getMaxCommitSeq d' p" "getHorizonSeq d p \<le> getHorizonSeq d' p"
    and keep: "\<And>v. getHorizonSeq d' p \<le> asOf \<Longrightarrow> asOf \<le> getMaxCommitSeq d p \<Longrightarrow> in_sync p t f v asOf d \<Longrightarrow> in_sync p t f v asOf d'"
    using assms(2) by (auto simp: step_ok_def)
  show ?thesis
    using assms(1) mono keep in_sync_current by (simp add: boot_inv_def b) (meson dual_order.trans)
qed

text \<open>One more page.\<close>

lemma boot_inv_page:
  assumes ok: "rows_ok d" "ids_ok d" and f: "scope_filter_ok f" and limit: "1 \<le> pl_limitSnapshotRows limits"
    and plan: "ct_name (sn_table plan) = t" "sn_effective plan = f"
    and scan: "scanRows d p (snapshot_query plan cur (pl_limitSnapshotRows limits + 1)) = Inr scanned"
    and inv: "boot_inv p t f d (asOf, cur, w)" and horizon: "getHorizonSeq d p \<le> asOf"
    and upto: "int (length scanned) \<le> pl_limitSnapshotRows limits \<or> text_key r \<le> text_key (st_rowId (List.last (page_rows d p plan limits cur)))"
  shows "\<exists>u. put_rows p t (page_rows d p plan limits cur) w (p, t, r) = u (p, t, r) \<and> in_sync p t f u asOf d"
proof (cases "cursor_key cur < text_key r")
  case True
  then have "w (p, t, r) = None" using inv by (auto simp: boot_inv_def)
  then show ?thesis
    using page_covers [OF ok f limit plan scan True upto] inv horizon by (auto simp: boot_inv_def)
next
  case False
  then have "put_rows p t (page_rows d p plan limits cur) w (p, t, r) = w (p, t, r)"
    using page_rows_after [OF ok f plan] by (intro put_rows_other) auto
  then show ?thesis using inv horizon False by (auto simp: boot_inv_def)
qed

lemma page_rows_sorted:
  assumes ok: "rows_ok d" "ids_ok d" and f: "scope_filter_ok f" and plan: "ct_name (sn_table plan) = t" "sn_effective plan = f"
    and row: "row \<in> set (page_rows d p plan limits cur)"
  shows "text_key (st_rowId row) \<le> text_key (st_rowId (List.last (page_rows d p plan limits cur)))"
proof -
  let ?rows = "page_rows d p plan limits cur"
  have "sorted (map (\<lambda>row. text_key (st_rowId row)) ?rows)"
  proof (cases "scanRows d p (snapshot_query plan cur (pl_limitSnapshotRows limits + 1))")
    case (Inr scanned)
    have "scanned = take (nat (pl_limitSnapshotRows limits + 1)) (matching_rows d p t f (case cur of None \<Rightarrow> [] | Some r \<Rightarrow> r))"
      using scanRows_spec [OF ok(1) ids_row_ids [OF ok(2,1)], of "snapshot_query plan cur (pl_limitSnapshotRows limits + 1)" p]
        scanRows_table [OF Inr] Inr f plan by (simp add: snapshot_query_def)
    then show ?thesis using matching_rows_keys(1) [OF ok] Inr by (simp add: page_rows_def sorted_wrt_take flip: take_map)
  qed (simp add: page_rows_def)
  then have "sorted (map (\<lambda>row. text_key (st_rowId row)) (butlast ?rows @ [List.last ?rows]))" using row by (cases "?rows = []") simp_all
  moreover have "row \<in> set (butlast ?rows) \<or> row = List.last ?rows" using row by (metis append_butlast_last_id empty_iff list.set(1) rotate1.simps(2) set_ConsD set_rotate1)
  ultimately show ?thesis by (auto simp: sorted_append)
qed

lemma page_inv:
  assumes page: "pageLoop env rd schema limits plan asOf digest epoch 1 cur st = Inr (complete, cur', st')"
    and rd: "rd (xs_read st) = d" "pu_part env = p" and plan: "ct_name (sn_table plan) = t" "sn_effective plan = f"
    and limit: "1 \<le> pl_limitSnapshotRows limits" and ok: "rows_ok d" "ids_ok d" and f: "scope_filter_ok f"
    and inv: "boot_inv p t f d (asOf, cur, w)"
  defines "w' \<equiv> put_rows p t (page_rows d p plan limits cur) w"
  shows "if complete then getHorizonSeq d p \<le> asOf \<longrightarrow> in_sync p t f w' asOf d else boot_inv p t f d (asOf, cur', w')"
proof -
  let ?rows = "page_rows d p plan limits cur"
  obtain scanned where scan: "scanRows d p (snapshot_query plan cur (pl_limitSnapshotRows limits + 1)) = Inr scanned"
    and complete: "complete \<longleftrightarrow> int (length scanned) \<le> pl_limitSnapshotRows limits"
    and cur': "\<not> complete \<Longrightarrow> take (nat (pl_limitSnapshotRows limits)) scanned \<noteq> [] \<Longrightarrow>
      cur' = Some (st_rowId (List.last (take (nat (pl_limitSnapshotRows limits)) scanned)))"
    by (rule pageLoop_one [OF page]) (simp add: rd)
  have rows: "?rows = take (nat (pl_limitSnapshotRows limits)) scanned" using scan by (simp add: page_rows_def)
  note covered = boot_inv_page [OF ok f limit plan scan inv, folded w'_def]
  have outside: "w' (p', t', r) = None" if "\<not> (p' = p \<and> t' = t)" for p' t' r
    using that inv unfolding w'_def by (subst put_rows_other) (auto simp: boot_inv_def)
  show ?thesis
  proof (cases complete)
    case True
    have "in_sync p t f w' asOf d" if horizon: "getHorizonSeq d p \<le> asOf"
    proof (rule in_sync_pointwise)
      fix k :: row_key
      obtain p' t' r where k: "k = (p', t', r)" by (cases k)
      show "\<exists>u. w' k = u k \<and> in_sync p t f u asOf d"
      proof (cases "p' = p \<and> t' = t")
        case True
        then show ?thesis using covered [OF horizon, of r] \<open>complete\<close> complete k by auto
      next
        case False
        then have "w' k = server_view p t f d k" using outside server_view_outside [OF ok(2)] k by simp
        then show ?thesis using inv horizon by (auto simp: boot_inv_def)
      qed
    qed
    then show ?thesis using True by simp
  next
    case False
    then have ne: "?rows \<noteq> []" using complete limit rows by auto
    then have c': "cursor_key cur' = text_key (st_rowId (List.last ?rows))" using cur' [OF False] rows by (simp add: cursor_key_def)
    have "cursor_key cur < cursor_key cur'" using page_rows_after [OF ok f plan, of "List.last ?rows" p limits cur] ne c' by simp
    then have empty: "w' (p, t, r) = None" if "\<not> text_key r \<le> cursor_key cur'" for r
      using that inv page_rows_sorted [OF ok f plan, of _ p limits cur] c' unfolding w'_def
      by (subst put_rows_other) (auto simp: boot_inv_def)
    have "w' (p', t', r) = None" if "\<not> (p' = p \<and> t' = t \<and> text_key r \<le> cursor_key cur')" for p' t' r
      using that outside empty by (cases "p' = p \<and> t' = t") auto
    then have "boot_inv p t f d (asOf, cur', w')" using inv covered c' by (simp add: boot_inv_def)
    then show ?thesis using False by simp
  qed
qed

text \<open>What the client receives is the page.\<close>

lemma page_rows_received:
  assumes page: "pageLoop env rd schema limits plan asOf digest epoch 1 cur st = Inr (complete, cur', st')"
    and rd: "rd (xs_read st) = d" "pu_part env = p" and ok: "rows_ok d" "ids_ok d" and f: "scope_filter_ok (sn_effective plan)"
    and wire: "wire_rows (sn_table plan) p d"
  shows "received (sn_table plan) st st' = Some (page_rows d p plan limits cur)"
proof -
  let ?t = "ct_name (sn_table plan)" and ?n = "nat (pl_limitSnapshotRows limits)"
  obtain scanned where scan: "scanRows d p (snapshot_query plan cur (pl_limitSnapshotRows limits + 1)) = Inr scanned"
    by (rule pageLoop_one [OF page]) (simp add: rd)
  have "scanned = take (nat (pl_limitSnapshotRows limits + 1)) (matching_rows d p ?t (sn_effective plan) (case cur of None \<Rightarrow> [] | Some r \<Rightarrow> r))"
    using scanRows_spec [OF ok(1) ids_row_ids [OF ok(2,1)], of "snapshot_query plan cur (pl_limitSnapshotRows limits + 1)" p]
      scanRows_table [OF scan] scan f by (simp add: snapshot_query_def)
  then have "set scanned \<subseteq> set (table_rows d p ?t)" by (auto simp: matching_rows_def table_rows_def dest!: in_set_takeD)
  then have "list_all (wire_row (sn_table plan)) (take ?n scanned)"
    using wire by (fastforce simp: wire_rows_def list_all_iff table_rows_set dest: in_set_takeD)
  then show ?thesis
    using page_received [OF page, of scanned] scan rd wire by (simp add: wire_rows_def page_rows_def)
qed

lemma section_incremental:
  assumes "subscriptionSection fuel env rd schema limits plan maxSeq horizonSeq (Some epoch)
      \<lparr>xs_frames = [], xs_store = store, xs_read = n\<rparr> = Inr (result, st)"
    and "sn_active plan" "sb_bootstrapState (sn_frame plan) = None"
    and "horizonSeq \<le> sb_cursor (sn_frame plan)" "0 \<le> sb_cursor (sn_frame plan)" "sb_cursor (sn_frame plan) \<le> maxSeq"
  obtains commits where "incrementalSection env rd limits plan maxSeq n = (commits, sr_nextCursor result)"
    and "\<And>p v. client_apply p (xs_frames st) v = client_apply p (map (commitFrame (sb_table (sn_frame plan))) commits) v"
    and "sr_active result"
proof -
  obtain commits cursor where sec: "incrementalSection env rd limits plan maxSeq n = (commits, cursor)" by fastforce
  have token: "parseBootstrapToken (sb_bootstrapState (sn_frame plan)) (sb_table (sn_frame plan)) = None"
    using assms(3) by (simp add: parseBootstrapToken_def)
  have run: "result = \<lparr>sr_nextCursor = cursor, sr_active = True\<rparr>"
    "xs_frames st = [sub_start (sb_id (sn_frame plan)) SubActive '''' (sn_effective plan) False]
      @ map (commitFrame (sb_table (sn_frame plan))) commits @ [sub_end cursor None]"
    using assms sec token by (auto simp: subscriptionSection_def Let_def split: if_splits)
  then show thesis using sec that [of commits] by (simp add: client_apply_append sub_start_def sub_end_def)
qed

lemma sync_step_inv:
  assumes "sync_step p t f s s'" and "sync_inv p t f s" and f: "scope_filter_ok f"
  shows "sync_inv p t f s'"
  using assms(1,2)
proof cases
  case (server d d' v c b)
  then have ok: "storage_ok d" "ids_ok d" and inv: "c \<le> getMaxCommitSeq d p" "getHorizonSeq d p \<le> c \<longrightarrow> in_sync p t f v c d"
    "pred_option (boot_inv p t f d) b" using assms(2) by (simp_all add: sync_inv_def)
  have step: "step_ok d d'" using server_step_ok [OF server(3) ok] .
  then have "getMaxCommitSeq d p \<le> getMaxCommitSeq d' p" "getHorizonSeq d p \<le> getHorizonSeq d' p" "storage_ok d'" "ids_ok d'"
    "getHorizonSeq d' p \<le> c \<longrightarrow> in_sync p t f v c d \<longrightarrow> in_sync p t f v c d'" using inv(1) by (auto simp: step_ok_def)
  then show ?thesis using server inv boot_inv_step [OF _ step] by (cases b) (auto simp: sync_inv_def)
next
  case (reset v c d b)
  then have "0 \<le> getHorizonSeq d p" "getHorizonSeq d p \<le> getMaxCommitSeq d p"
    using assms(2) by (simp_all add: sync_inv_def storage_ok_def log_ok_def)
  then show ?thesis using reset assms(2) by (simp add: sync_inv_def)
next
  case (pin c v d)
  then show ?thesis using assms(2) pin_inv [of d p t f] by (simp add: sync_inv_def)
next
  case (page env rd schema limits plan asOf digest epoch cur st complete cur' st' d rows w' w v c)
  then have inv: "storage_ok d" "ids_ok d" "boot_inv p t f d (asOf, cur, w)" using assms(2) by (simp_all add: sync_inv_def)
  have "rows = page_rows d p plan limits cur"
    using page_rows_received [OF page(3-5)] inv f page by (simp add: storage_ok_def)
  then show ?thesis
    using page_inv [OF page(3-8) _ _ f inv(3)] page assms(2) by (auto simp: sync_inv_def storage_ok_def boot_inv_def)
next
  case (pull fuel env rd schema limits plan maxSeq horizonSeq epoch store n result st d c v)
  have inv: "storage_ok d" "ids_ok d" "in_sync p t f v c d" using assms(2) pull by (simp_all add: sync_inv_def)
  obtain commits where sec: "incrementalSection env rd limits plan maxSeq n = (commits, sr_nextCursor result)"
    and apply_: "\<And>p v. client_apply p (xs_frames st) v = client_apply p (map (commitFrame t) commits) v"
    using section_incremental [OF pull(3)] pull by metis
  have "in_sync p t f (client_apply p (map (commitFrame t) commits) v) (sr_nextCursor result) d"
    "sr_nextCursor result \<le> maxSeq"
    using in_sync_incremental(1,3) [of d f rd n env p plan t maxSeq limits commits "sr_nextCursor result" v] inv f sec pull
    by (simp_all add: storage_ok_def)
  then show ?thesis using pull inv apply_ by (simp add: sync_inv_def)
qed

lemma sync_run_inv:
  assumes "(sync_step p t f)\<^sup>*\<^sup>* s s'" and "sync_inv p t f s" and "scope_filter_ok f"
  shows "sync_inv p t f s'"
  using assms by (induction rule: rtranclp_induct) (auto intro: sync_step_inv)

text \<open>A client that has never synced.\<close>

lemma fresh_inv: "storage_ok d \<Longrightarrow> ids_ok d \<Longrightarrow> sync_inv p t f (v, - 1, d, None)"
  by (auto simp: sync_inv_def storage_ok_def log_ok_def) (smt (verit))+

lemma run_in_sync:
  assumes run: "(sync_step p t f)\<^sup>*\<^sup>* (v0, - 1, d0, None) (v, c, d, b)"
    and ok: "storage_ok d0" "ids_ok d0" "scope_filter_ok f" and c: "getHorizonSeq d p \<le> c"
  shows "storage_ok d" "in_sync p t f v c d" "c \<le> getMaxCommitSeq d p"
  using sync_run_inv [OF run fresh_inv [OF ok(1,2)] ok(3)] c by (simp_all add: sync_inv_def)

lemma run_converges:
  assumes run: "(sync_step p t f)\<^sup>*\<^sup>* (v0, - 1, d0, None) (v, c, d, b)"
    and ok: "storage_ok d0" "ids_ok d0" "scope_filter_ok f" and fin: "c = getMaxCommitSeq d p"
  shows "v = server_view p t f d"
proof -
  have "sync_inv p t f (v, c, d, b)" using sync_run_inv [OF run fresh_inv [OF ok(1,2)] ok(3)] .
  then have "getHorizonSeq d p \<le> c" using fin by (simp add: sync_inv_def storage_ok_def log_ok_def)
  then show ?thesis using run_in_sync(2) [OF run ok] fin in_sync_end by simp
qed

section \<open>Catching up\<close>

text \<open>One pull of an undisturbed server, as the handler plans it, by a client with cursor \<open>c\<close>.\<close>

definition pull_once ::
    "pull_env \<Rightarrow> CompiledSchema \<Rightarrow> PullLimits \<Rightarrow> SubscriptionPlan \<Rightarrow> jsstring \<Rightarrow> MemorySegmentStore \<Rightarrow> db
     \<Rightarrow> (row_key \<Rightarrow> placed_row option) \<times> int \<Rightarrow> (row_key \<Rightarrow> placed_row option) \<times> int" where
  "pull_once env schema limits plan epoch store d = (\<lambda>(v, c).
     (let plan' = plan\<lparr>sn_frame := (sn_frame plan)\<lparr>sb_cursor := c, sb_bootstrapState := None\<rparr>\<rparr> in
      case subscriptionSection 0 env (\<lambda>_. d) schema limits plan' (getMaxCommitSeq d (pu_part env)) (getHorizonSeq d (pu_part env))
             (Some epoch) \<lparr>xs_frames = [], xs_store = store, xs_read = 0\<rparr> of
        Inl e \<Rightarrow> (v, c)
      | Inr (result, st) \<Rightarrow> (client_apply (pu_part env) (xs_frames st) v, sr_nextCursor result)))"

lemma pull_once_progress:
  assumes ok: "log_ok d" "scope_filter_ok f" and plan: "pu_part env = p" "sb_table (sn_frame plan) = t" "sn_effective plan = f"
    and active: "sn_active plan" "epoch \<noteq> []" "1 \<le> pl_limitCommits limits"
    and c: "getHorizonSeq d p \<le> c" "c \<le> getMaxCommitSeq d p" and sync: "in_sync p t f v c d"
    and once: "pull_once env schema limits plan epoch store d (v, c) = (v', c')"
  shows "in_sync p t f v' c' d" "c \<le> c'" "c' \<le> getMaxCommitSeq d p" "c' = getMaxCommitSeq d p \<or> c < c'"
proof -
  let ?plan = "plan\<lparr>sn_frame := (sn_frame plan)\<lparr>sb_cursor := c, sb_bootstrapState := None\<rparr>\<rparr>"
  let ?m = "getMaxCommitSeq d p"
  have nonneg: "0 \<le> c" using ok(1) c(1) by (auto simp: log_ok_def intro: order_trans)
  obtain commits cursor where sec: "incrementalSection env (\<lambda>_. d) limits ?plan ?m 0 = (commits, cursor)" by fastforce
  have token: "parseBootstrapToken None (sb_table (sn_frame plan)) = None" by (simp add: parseBootstrapToken_def)
  have run: "v' = client_apply p (map (commitFrame t) commits) v" "c' = cursor"
    using once sec token c nonneg active plan
    by (auto simp: pull_once_def subscriptionSection_def Let_def client_apply_append sub_start_def sub_end_def)
  show "in_sync p t f v' c' d" "c \<le> c'" "c' \<le> ?m" "c' = ?m \<or> c < c'"
    using in_sync_incremental [of d f "\<lambda>_. d" 0 env p ?plan t ?m limits commits cursor v] ok plan active(3) c sync sec run by simp_all
qed

lemma pulls_reach_end:
  assumes ok: "log_ok d" "scope_filter_ok f" and plan: "pu_part env = p" "sb_table (sn_frame plan) = t" "sn_effective plan = f"
    and active: "sn_active plan" "epoch \<noteq> []" "1 \<le> pl_limitCommits limits"
    and c: "getHorizonSeq d p \<le> c" "c \<le> getMaxCommitSeq d p" and sync: "in_sync p t f v c d"
    and n: "getMaxCommitSeq d p - c \<le> int n"
  shows "(pull_once env schema limits plan epoch store d ^^ n) (v, c) = (server_view p t f d, getMaxCommitSeq d p)"
  using c sync n
proof (induction n arbitrary: v c)
  case 0
  then have "c = getMaxCommitSeq d p" by simp
  then show ?case using in_sync_end 0 by simp
next
  case (Suc n)
  obtain v' c' where once: "pull_once env schema limits plan epoch store d (v, c) = (v', c')" by fastforce
  note step = pull_once_progress [OF ok plan active Suc.prems(1,2,3) once]
  have "getMaxCommitSeq d p - c' \<le> int n" using step(2-4) Suc.prems(4) by auto
  then show ?case using Suc.IH [of c' v'] Suc.prems step once by (simp add: funpow_swap1)
qed

end
