(* ===== verification/Samples.thy ===== *)
theory Samples
  imports Push_Correct Row_Scan
begin

text \<open>
  A small server, the running example of the witnesses: one table \<open>t\<close> with an id and an owner
  column, scoped by the owner, and one push that inserts a row.
\<close>

definition plain_column :: "string \<Rightarrow> RowColumn" where
  "plain_column name = \<lparr>rc_name = js name, rc_type = TString, rc_nullable = False, rc_crdtType = None,
     rc_encrypted = None, rc_declaredType = None\<rparr>"

definition sample_schema :: ServerSchema where
  "sample_schema = \<lparr>sv_version = 1, sv_tables =
     [\<lparr>ts_name = js ''t'', ts_columns = [plain_column ''id'', plain_column ''o''], ts_primaryKey = js ''id'',
       ts_scopes = [PatternShorthand (js ''o:{o}'')], ts_indexes = None, ts_materialize = None\<rparr>]\<rparr>"

definition sample_table :: CompiledTable where
  "sample_table = \<lparr>ct_name = js ''t'', ct_columns = [plain_column ''id'', plain_column ''o''], ct_primaryKeyIndex = 0,
     ct_scopePatterns = [\<lparr>sp_variable = js ''o'', sp_prefix = js ''o'', sp_column = js ''o'', sp_columnIndex = 1\<rparr>],
     ct_indexes = [], ct_materialize = True, ct_columnIndex = [(js ''id'', 0), (js ''o'', 1)],
     ct_declaredVariables = [js ''o''], ct_blobRefColumnIndices = [], ct_crdtColumns = [], ct_encryptedColumnIndices = []\<rparr>"

definition sample_compiled :: CompiledSchema where
  "sample_compiled = \<lparr>cs_version = 1, cs_tables = [(js ''t'', sample_table)], cs_declaredVariables = [js ''o'']\<rparr>"

lemma sample_compiles: "compileSchema sample_schema = Inr sample_compiled"
  by (simp add: compileSchema_def sample_schema_def sample_compiled_def sample_table_def compileTable_def plain_column_def
      checkIdentifier_def validatePortableRelationalIdentifier_def text_encode_eval js_def lower_unit_def
      PORTABLE_RELATIONAL_IDENTIFIER_MAX_BYTES_def compilePattern_def PATTERN_RE_def add_to_set_def fullyEncrypted_def Let_def)

definition sample_values :: "RowValue list" where
  "sample_values = [VString (js ''r''), VString (js ''x'')]"

definition sample_payload :: "byte list" where
  "sample_payload = (case encodeRow (ct_columns sample_table) sample_values of Inl _ \<Rightarrow> [] | Inr b \<Rightarrow> b)"

lemma sample_decodes: "decodeRow (ct_columns sample_table) sample_payload = Inr sample_values"
proof -
  obtain b where b: "encodeRow (ct_columns sample_table) sample_values = Inr b"
    by (simp add: encodeRow_def writeRow_def sample_table_def sample_values_def plain_column_def writeValue_def bitmapLength_def
        writer_eval)
  have "row_ok (ct_columns sample_table) sample_values"
    by (simp add: row_ok_def value_ok_def sample_table_def sample_values_def plain_column_def str_ok_def js_def is_high_def is_low_def)
  then show ?thesis using b decodeRow_encodeRow [OF b] by (simp add: sample_payload_def)
qed

definition sample_op :: PushOperation where
  "sample_op = \<lparr>po_table = js ''t'', po_rowId = js ''r'', po_op = Upsert, po_baseVersion = None, po_payload = Some sample_payload\<rparr>"

definition sample_frame :: PushCommitFrame where
  "sample_frame = \<lparr>pc_clientCommitId = js ''k'', pc_operations = [sample_op]\<rparr>"

text \<open>A host without hooks.\<close>

definition sample_env :: push_env where
  "sample_env = \<lparr>pv_constraint_fails = (\<lambda>_ _ _ _. False), pv_validators = (\<lambda>_. None), pv_crdtMergers = (\<lambda>_. None),
     pv_blobs = None, pv_commitValidator = None, pv_reactionPlanner = None, pv_collate = (\<lambda>s. []), pv_errorText = (\<lambda>_. [])\<rparr>"

definition sample_req :: push_request where
  "sample_req = \<lparr>rq_part = js ''p'', rq_actorId = js ''a'', rq_clientId = js ''c'', rq_clientCommitId = js ''k'',
     rq_resolved = ResolvedOk [(js ''o'', [js ''x''])], rq_createdAtMs = 5, rq_uuid = js ''u''\<rparr>"

definition sample_db :: db where
  "sample_db = empty_db [(js ''t'', sample_table)]"

definition sample_out :: push_outcome where
  "sample_out = processPushCommit sample_env sample_compiled sample_req sample_frame sample_db sample_db"

definition sample_stored :: StoredRow where
  "sample_stored = \<lparr>st_rowId = js ''r'', st_serverVersion = 1, st_scopes = [(js ''o'', js ''x'')], st_payload = sample_payload\<rparr>"

definition sample_change :: NewChange where
  "sample_change = \<lparr>ch_table = js ''t'', ch_rowId = js ''r'', ch_op = Upsert, ch_rowVersion = Some 1,
     ch_scopes = [(js ''o'', js ''x'')], ch_payload = Some sample_payload\<rparr>"

definition sample_commit :: StoredCommit where
  "sample_commit = \<lparr>cm_commitSeq = 1, cm_createdAtMs = 5, cm_actorId = js ''a'', cm_changes = [sample_change]\<rparr>"

lemmas sample_push_eval = applyOperation_def applyInsert_def finishUpsert_def checkAndRecordBlobs_def runValidator_def
  mergeCrdtColumns_def upsertRow_def storage_writeRow_def tx_getRow_def getRow_def assertOpen_def table_of_def stored_row_def
  liftS_def liftD_def

lemma sample_storedScopes: "storedScopesForRow sample_table sample_values = Inr [(js ''o'', js ''x'')]"
  by (simp add: storedScopesForRow_def sample_table_def sample_values_def renderScopeValue_def at_def js_def)

lemma sample_authorized: "authorizeWrite sample_table [(js ''o'', js ''x'')] (rq_resolved sample_req)"
  by (simp add: authorizeWrite_allowed sample_req_def sample_table_def scope_allowed_def js_def)

lemma sample_applied:
  "applyOperation sample_env (locked_tx sample_db (js ''p'')) sample_compiled (rq_resolved sample_req) sample_op 0 (js ''p'') (js ''a'') =
     Inr (Applied (Some sample_change) (commit_op 0 Upsert (js ''t'') (js ''r'') (Some (toValidateRow (ct_columns sample_table) sample_values))
            None None (Some 1)),
          (locked_tx sample_db (js ''p''))\<lparr>tx_db := put_row (js ''p'', js ''t'', sample_stored) sample_db\<rparr>)"
proof -
  have key: "renderScopeValue (at sample_values (ct_primaryKeyIndex sample_table)) = Some (js ''r'')"
    by (simp add: renderScopeValue_def at_def sample_values_def sample_table_def js_def)
  have name: "ct_name sample_table = js ''t''" "ct_materialize sample_table" "ct_crdtColumns sample_table = []"
    "ct_blobRefColumnIndices sample_table = []"
    by (simp_all add: sample_table_def)
  have resolved: "rq_resolved sample_req \<noteq> ResolvedFailed" by (simp add: sample_req_def)
  have dbs: "map_of (db_tables sample_db) (js ''t'') = Some sample_table" "db_rows sample_db = []"
    by (simp_all add: sample_db_def empty_db_def)
  show ?thesis
    using sample_storedScopes sample_authorized sample_decodes key name resolved dbs
    by (simp add: sample_push_eval sample_compiled_def sample_op_def sample_env_def sample_change_def sample_stored_def
        find_by_def)
qed

text \<open>What the push leaves behind.\<close>

definition sample_after :: db where
  "sample_after = po_db sample_out"

lemma sample_runs:
  "pushBody sample_env sample_compiled sample_req (\<lambda>tx. Inr [sample_op]) (locked_tx sample_db (js ''p'')) =
     Inr (Inr (newStoredPushResult 5 (js ''u'') StApplied (Some 1) [OpApplied 0], sample_commit, []),
       (locked_tx sample_db (js ''p''))\<lparr>tx_open := False, tx_db := record_outcome sample_req
          (newStoredPushResult 5 (js ''u'') StApplied (Some 1) [OpApplied 0])
          (snd (projr (append_commit_db (js ''p'') (new_commit sample_req [sample_change])
             (put_row (js ''p'', js ''t'', sample_stored) sample_db))))\<rparr>)"
proof -
  have loop: "applyLoop sample_env sample_compiled (rq_resolved sample_req) (js ''p'') (js ''a'') [sample_op] 0 (locked_tx sample_db (js ''p''))
      \<lparr>ao_results = [], ao_changes = [], ao_operations = []\<rparr> =
    Inr (Inr \<lparr>ao_results = [OpApplied 0], ao_changes = [sample_change], ao_operations =
        [commit_op 0 Upsert (js ''t'') (js ''r'') (Some (toValidateRow (ct_columns sample_table) sample_values)) None None (Some 1)]\<rparr>,
      (locked_tx sample_db (js ''p''))\<lparr>tx_db := put_row (js ''p'', js ''t'', sample_stored) sample_db\<rparr>)"
    by (simp add: sample_applied)
  have req: "rq_part sample_req = js ''p''" "rq_actorId sample_req = js ''a''" "rq_clientId sample_req = js ''c''"
    "rq_clientCommitId sample_req = js ''k''" "rq_createdAtMs sample_req = 5" "rq_uuid sample_req = js ''u''"
    by (simp_all add: sample_req_def)
  have env: "pv_commitValidator sample_env = None" "pv_reactionPlanner sample_env = None" by (simp_all add: sample_env_def)
  have "getMaxCommitSeq (put_row (js ''p'', js ''t'', sample_stored) sample_db) (js ''p'') = 0"
    "db_commits (put_row (js ''p'', js ''t'', sample_stored) sample_db) = []"
    by (simp_all add: getMaxCommitSeq_def put_row_def sample_db_def empty_db_def find_by_def)
  then obtain d where app: "append_commit_db (js ''p'') (new_commit sample_req [sample_change])
      (put_row (js ''p'', js ''t'', sample_stored) sample_db) = Inr (1, d)"
    by (simp add: append_commit_db_eq Let_def)
  show ?thesis
    unfolding pushBody_def bindE_simps req loop
    by (simp add: runCommitValidator_def plannedReactions_def commitPush_def env appendCommit_def assertOpen_def req
        app [unfolded new_commit_def req] Let_def toNewReactions_def putPushResult_def commit_tx_def liftS_def
        sample_commit_def record_outcome_def new_commit_def)
qed

lemma sample_out_eq:
  "po_result sample_out = Inr (processedPushCommit (js ''k'') (newStoredPushResult 5 (js ''u'') StApplied (Some 1) [OpApplied 0]) False)"
  "po_notify sample_out = Some sample_commit"
proof -
  have req: "sample_req\<lparr>rq_clientCommitId := pc_clientCommitId sample_frame\<rparr> = sample_req" "rq_part sample_req = js ''p''"
    "pc_operations sample_frame = [sample_op]"
    by (simp_all add: sample_req_def sample_frame_def)
  have "lookup_of sample_req sample_db = NoPushResult" by (simp add: getPushResult_def sample_db_def empty_db_def find_by_def)
  then have out: "sample_out = \<lparr>po_db = po_db sample_out, po_result = Inr (processedPushCommit (js ''k'')
      (newStoredPushResult 5 (js ''u'') StApplied (Some 1) [OpApplied 0]) False), po_notify = Some sample_commit, po_queued = []\<rparr>"
    using sample_runs
    by (simp add: sample_out_def processPushCommit_def req processPushOperationsWithTrace_def Let_def sample_commit_def)
       (simp add: sample_req_def)
  show "po_result sample_out = Inr (processedPushCommit (js ''k'') (newStoredPushResult 5 (js ''u'') StApplied (Some 1) [OpApplied 0]) False)"
    "po_notify sample_out = Some sample_commit"
    by (subst out, simp)+
qed

end
