(* ===== verification/Server_Properties.thy ===== *)
theory Server_Properties
  imports Samples
begin

text \<open>
  The properties of the server package up to the push path: schema compilation, scopes, the
  storage and its reads, reactions and push, each with a concrete instance where it has
  hypotheses.
\<close>

section \<open>Push\<close>

text \<open>C2. A delivered push commit takes effect whole or not at all. Either the data (rows, indexes, log,
  reactions, clients) is as before and at most its outcome was recorded; or every operation of the
  request was carried out, in order, each on the rows the ones before it left. An upsert then wrote
  its payload (scope columns kept, CRDT columns merged) to the row its payload names, against the
  stored version it was based on; a delete removed its row or found none. Every change is lawful:
  authorized by the resolved scopes, keeping the scopes of a stored row and counting its version up
  by one, inserting a missing row with version one. The rows are the old rows with exactly these
  changes applied, the log has grown by exactly this commit under the next sequence number of its
  partition, and the answer reports every operation as applied under this number.\<close>

theorem push_all_or_nothing:
  fixes env :: push_env
  shows "same_data d (po_db (processPushOperationsWithTrace env schema req build d0 d)) \<or>
    (\<exists>ops commit. build (locked_tx d (rq_part req)) = Inr ops \<and>
       carried_out schema (rq_part req) (placed_row_at d) ops (cm_changes commit) \<and>
       applied_push schema req d commit (po_db (processPushOperationsWithTrace env schema req build d0 d)) \<and>
       applied_answer req (length ops) (cm_commitSeq commit) (po_result (processPushOperationsWithTrace env schema req build d0 d)))"
  by (rule push_all_lemma [OF refl])

text \<open>Every delivery keeps the storage invariant: unique primary keys, both scope indexes exact, and
  every logged commit between the horizon and the maximal sequence number.\<close>

theorem push_keeps_invariant:
  assumes "storage_ok d"
  shows "storage_ok (po_db (processPushCommit env schema req frame d0 d))"
  unfolding processPushCommit_def using assms by (rule push_storage_ok)

theorem push_keeps_invariant_witness:
  "storage_ok sample_db \<and> storage_ok sample_after \<and> po_notify sample_out = Some sample_commit"
  using push_keeps_invariant [of sample_db sample_env sample_compiled sample_req sample_frame sample_db]
    storage_ok_empty [of "[(js ''t'', sample_table)]"] sample_out_eq
  by (simp add: sample_after_def sample_out_def sample_db_def)

text \<open>C25. At most once: after a delivery that answered, delivering the same client commit again changes
  nothing, whatever the second delivery carries and whatever its first, unlocked lookup saw. The
  hypothesis says that an outcome seen by the unlocked lookup is still there under the lock.\<close>

theorem push_at_most_once:
  assumes "po_result (processPushOperationsWithTrace env schema req build d0 d) = Inr r"
    and "getPushResult d0 (rq_part req) (rq_clientId req) (rq_clientCommitId req) \<noteq> NoPushResult \<Longrightarrow>
      getPushResult d (rq_part req) (rq_clientId req) (rq_clientCommitId req) \<noteq> NoPushResult"
    and "rq_part req' = rq_part req" "rq_clientId req' = rq_clientId req" "rq_clientCommitId req' = rq_clientCommitId req"
  shows "po_db (processPushOperationsWithTrace env' schema' req' build' d0'
      (po_db (processPushOperationsWithTrace env schema req build d0 d))) =
    po_db (processPushOperationsWithTrace env schema req build d0 d)"
  using push_records [OF assms(1,2)] assms(3-5) by (intro push_recorded_untouched) simp

lemma sample_out_trace:
  "sample_out = processPushOperationsWithTrace sample_env sample_compiled sample_req (\<lambda>tx. Inr [sample_op]) sample_db sample_db"
proof -
  have "sample_req\<lparr>rq_clientCommitId := pc_clientCommitId sample_frame\<rparr> = sample_req" "pc_operations sample_frame = [sample_op]"
    by (simp_all add: sample_req_def sample_frame_def)
  then show ?thesis by (simp add: sample_out_def processPushCommit_def)
qed

theorem push_at_most_once_witness:
  "\<exists>r. po_result sample_out = Inr r \<and>
     po_db (processPushOperationsWithTrace sample_env sample_compiled sample_req (\<lambda>tx. Inr [sample_op]) sample_db sample_after)
       = sample_after"
  using push_at_most_once [of sample_env sample_compiled sample_req "\<lambda>tx. Inr [sample_op]" sample_db sample_db _ sample_req
      sample_env sample_compiled "\<lambda>tx. Inr [sample_op]" sample_db] sample_out_eq(1)
  by (simp add: sample_after_def sample_out_trace)

text \<open>Replay: delivering an announced commit again answers with the frame of the first delivery, now
  marked cached, and does not announce it again.\<close>

theorem push_replay_answers:
  assumes "out = processPushOperationsWithTrace env schema req build d0 d" and "po_notify out = Some commit"
    and "po_result out = Inr r"
    and "build (locked_tx d (rq_part req)) = Inr ops"
    and "safe_nat (int (length ops))" "safe_nat (cm_commitSeq commit)" "safe_nat (rq_createdAtMs req)"
    and "rq_part req' = rq_part req" "rq_clientId req' = rq_clientId req" "rq_clientCommitId req' = rq_clientCommitId req"
    and "lookup_of req d0' = NoPushResult \<or> d0' = po_db out"
  shows "processPushOperationsWithTrace env' schema' req' build' d0' (po_db out) =
    \<lparr>po_db = po_db out, po_result = Inr (r\<lparr>pc_frame := (pc_frame r)\<lparr>pr_status := PushCached\<rparr>, pc_replayed := True\<rparr>),
     po_notify = None, po_queued = []\<rparr>"
  using assms by (rule push_replay)

theorem push_replay_answers_witness:
  "\<exists>r. po_result sample_out = Inr r \<and> pr_status (pc_frame r) = PushApplied \<and>
     po_result (processPushOperationsWithTrace sample_env sample_compiled sample_req (\<lambda>tx. Inr []) sample_after sample_after) =
       Inr (r\<lparr>pc_frame := (pc_frame r)\<lparr>pr_status := PushCached\<rparr>, pc_replayed := True\<rparr>)"
proof -
  have safe: "safe_nat 1" "safe_nat 5" by (simp_all add: safe_nat_def max_safe_def)
  show ?thesis
    using push_replay_answers [OF sample_out_trace sample_out_eq(2,1), of "[sample_op]" sample_req sample_after
        sample_env sample_compiled "\<lambda>tx. Inr []"] safe
    by (simp add: sample_commit_def sample_after_def sample_out_eq)
       (simp add: sample_req_def processedPushCommit_def resultFrame_def newStoredPushResult_def)
qed

section \<open>Schema and scopes\<close>

text \<open>C26. A compiled schema is well formed: distinct tables and columns, the column index maps every column
  name to its position, the primary key and the scope columns exist, one variable is bound to one
  column, index columns exist, and the blob, CRDT and encrypted column lists are exactly the
  columns of that kind.\<close>

theorem compiled_schema_well_formed:
  assumes "compileSchema schema = Inr s"
  shows "schema_wf s"
  using assms by (rule compileSchema_wf)

theorem compiled_schema_well_formed_witness:
  "compileSchema sample_schema = Inr sample_compiled \<and> schema_wf sample_compiled"
  using compiled_schema_well_formed [OF sample_compiles] sample_compiles by simp

text \<open>C27. Scope resolution computes the intersection: the subscription is active exactly when it requests
  something and every requested variable keeps an allowed value, and then it has, variable by
  variable in the order requested, the requested values that are allowed.\<close>

theorem effective_scopes_intersection:
  assumes "distinct (map fst requested)"
  shows "computeEffective requested (ResolvedOk allowed) =
     (if requested \<noteq> [] \<and> (\<forall>key\<in>fst ` set requested. granted requested allowed key \<noteq> [])
      then EffActive (map (\<lambda>key. (key, granted requested allowed key)) (map fst requested)) else EffRevoked)"
  using assms by (rule computeEffective_spec)

theorem effective_scopes_intersection_witness:
  "computeEffective [(js ''o'', [js ''x'', js ''y''])] (ResolvedOk [(js ''o'', [js ''x''])]) = EffActive [(js ''o'', [js ''x''])]"
  using effective_scopes_intersection [of "[(js ''o'', [js ''x'', js ''y''])]" "[(js ''o'', [js ''x''])]"]
  by (simp add: granted_def scope_allowed_def star_def js_def)

text \<open>No row escapes its scopes: a row that matches the effective scopes of a subscription has, for
  every requested variable, a value the actor is allowed.\<close>

theorem delivered_rows_allowed:
  assumes "computeEffective requested (ResolvedOk allowed) = EffActive effective"
    and "distinct (map fst requested)" and "matchesEffective scopes effective" and "key \<in> fst ` set requested"
  shows "\<exists>v. map_of scopes key = Some v \<and> scope_allowed allowed key v"
  using assms by (rule matched_allowed)

theorem delivered_rows_allowed_witness:
  "\<exists>v. map_of [(js ''o'', js ''x'')] (js ''o'') = Some v \<and> scope_allowed [(js ''o'', [js ''x''])] (js ''o'') v"
  by (rule delivered_rows_allowed [of "[(js ''o'', [js ''x''])]" _ "[(js ''o'', [js ''x''])]"])
     (simp_all add: computeEffective_spec granted_def scope_allowed_def matchesEffective_iff)

text \<open>The text that is hashed into a scope digest is canonical: two scope maps have the same text
  exactly when they bind the same variables to the same sets of values.\<close>

theorem scope_text_canonical:
  assumes "distinct (map fst a)" and "distinct (map fst b)"
  shows "canonicalScopeJson a = canonicalScopeJson b \<longleftrightarrow> same_scopes a b"
  using assms by (rule canonicalScopeJson_eq_iff)

theorem scope_text_canonical_witness:
  "canonicalScopeJson [(js ''a'', [js ''x'', js ''y'']), (js ''b'', [])] =
     canonicalScopeJson [(js ''b'', []), (js ''a'', [js ''y'', js ''x'', js ''y''])]"
  using scope_text_canonical [of "[(js ''a'', [js ''x'', js ''y'']), (js ''b'', [])]"
      "[(js ''b'', []), (js ''a'', [js ''y'', js ''x'', js ''y''])]"]
  by (simp add: same_scopes_def js_def insert_commute)

section \<open>Reads\<close>

text \<open>C28. The commit window is complete and in order: whatever the page size, the index-driven read
  returns, from the oldest on, every commit of the window that has changes of the table matching
  the filter, with exactly these changes, and stops with the commit that exhausts the budget.\<close>

theorem commit_window_complete:
  assumes "log_ok d" and "scope_filter_ok (cw_scopeFilter query)"
  shows "readCommitWindow d p query =
    take_budget (cw_limitChanges query)
      (matching_commits d p (cw_table query) (cw_scopeFilter query) (cw_afterSeq query) (cw_throughSeq query))"
  using assms by (rule readCommitWindow_spec)

theorem commit_window_complete_witness:
  "log_ok sample_after \<and>
   readCommitWindow sample_after (js ''p'')
       \<lparr>cw_table = js ''t'', cw_scopeFilter = [(js ''o'', [js ''x''])], cw_afterSeq = 0, cw_throughSeq = 1, cw_limitChanges = 10\<rparr> =
     take_budget 10 (matching_commits sample_after (js ''p'') (js ''t'') [(js ''o'', [js ''x''])] 0 1)"
proof -
  have ok: "log_ok sample_after"
    using push_storage_ok [of sample_db sample_env sample_compiled sample_req "\<lambda>tx. Inr [sample_op]" sample_db] storage_ok_empty
    by (simp add: sample_after_def sample_out_trace sample_db_def storage_ok_def)
  then show ?thesis
    using commit_window_complete [OF ok, of "\<lparr>cw_table = js ''t'', cw_scopeFilter = [(js ''o'', [js ''x''])],
        cw_afterSeq = 0, cw_throughSeq = 1, cw_limitChanges = 10\<rparr>" "js ''p''"]
    by (simp add: scope_filter_ok_def)
qed

text \<open>A row scan returns, in the order of the row ids after the cursor, the first rows of the table
  that match the filter, up to the limit, whatever the page size of the index reads.\<close>

theorem row_scan_complete:
  assumes "rows_ok d" "row_ids_ok d" and "scope_filter_ok (sq_scopeFilter query)"
    and "map_of (db_tables d) (sq_table query) \<noteq> None"
  shows "scanRows d p query = Inr (take (nat (sq_limit query))
    (matching_rows d p (sq_table query) (sq_scopeFilter query) (case sq_afterRowId query of None \<Rightarrow> [] | Some r \<Rightarrow> r)))"
  using assms by (rule scanRows_spec)

theorem row_scan_complete_witness:
  "scanRows (put_row (js ''p'', js ''t'', sample_stored) sample_db) (js ''p'')
     \<lparr>sq_table = js ''t'', sq_scopeFilter = [(js ''o'', [js ''x''])], sq_afterRowId = None, sq_limit = 1\<rparr> = Inr [sample_stored]"
proof -
  let ?d = "put_row (js ''p'', js ''t'', sample_stored) sample_db"
  have rows: "db_rows ?d = [(js ''p'', js ''t'', sample_stored)]" and tables: "db_tables ?d = [(js ''t'', sample_table)]"
    by (simp_all add: put_row_def sample_db_def empty_db_def)
  have "rows_ok ?d" using storage_ok_empty [of "[(js ''t'', sample_table)]"] by (simp add: put_row_ok storage_ok_def sample_db_def)
  moreover have "row_ids_ok ?d" unfolding row_ids_ok_def rows by (simp add: sample_stored_def js_def is_high_def is_low_def)
  moreover have "matching_rows ?d (js ''p'') (js ''t'') [(js ''o'', [js ''x''])] [] = [sample_stored]"
    unfolding matching_rows_def rows by (simp add: matchesEffective_def sample_stored_def text_key_def text_encode_eval js_def)
  ultimately show ?thesis
    using row_scan_complete [of ?d "\<lparr>sq_table = js ''t'', sq_scopeFilter = [(js ''o'', [js ''x''])], sq_afterRowId = None, sq_limit = 1\<rparr>"
        "js ''p''"]
    by (simp add: scope_filter_ok_def tables)
qed

text \<open>A recorded push outcome survives the trip through its JSON column, payloads of conflicting rows
  included.\<close>

theorem push_result_roundtrip:
  assumes "push_result_ok r"
  shows "deserializePushResult (serializePushResult r) = Some r"
  using assms by (rule deserialize_serialize)

theorem push_result_roundtrip_witness:
  "deserializePushResult (serializePushResult \<lparr>spr_status = StRejected, spr_commitSeq = None, spr_recordedAtMs = Some 5,
      spr_cacheIdentity = Some (js ''u''), spr_results = [OpConflict 0 (js ''c'') (js ''m'') 3 [1, 2, 255]]\<rparr>) =
     Some \<lparr>spr_status = StRejected, spr_commitSeq = None, spr_recordedAtMs = Some 5,
      spr_cacheIdentity = Some (js ''u''), spr_results = [OpConflict 0 (js ''c'') (js ''m'') 3 [1, 2, 255]]\<rparr>"
  by (rule push_result_roundtrip) (simp add: push_result_ok_def safe_nat_def max_safe_def)

section \<open>Reactions\<close>

definition sample_reaction :: StoredReaction where
  "sample_reaction = \<lparr>rx_idempotencyKey = js ''i'', rx_type = js ''e'', rx_version = 1, rx_payload = JNull,
     rx_sourceClientId = js ''c'', rx_sourceClientCommitId = js ''k'', rx_sourceCommitSeq = 1, rx_createdAtMs = 5,
     rx_maxAttempts = 3, rx_status = RxLeased, rx_attempts = 1, rx_availableAtMs = 5, rx_leaseOwner = Some (js ''w''),
     rx_leaseExpiresAtMs = Some 9, rx_completedAtMs = None, rx_lastFailure = None\<rparr>"

definition sample_queue :: db where
  "sample_queue = sample_db\<lparr>db_reactions := [(js ''p'', sample_reaction)]\<rparr>"

lemma sample_queue_ok: "reactions_ok sample_queue" "getReaction sample_queue (js ''p'') (js ''i'') = Some sample_reaction"
  by (simp_all add: reactions_ok_def reaction_ok_def sample_queue_def sample_reaction_def getReaction_def find_by_def)

text \<open>C29. The life cycle of reactions: every storage operation keeps the keys unique and each row
  consistent with its status (a lease exactly while leased, a completion time exactly when
  completed, a failure when dead-lettered, at least one attempt once claimed).\<close>

theorem reaction_lifecycle:
  assumes "reaction_step d d'" and "reactions_ok d"
  shows "reactions_ok d'"
  using assms by (rule reaction_step_ok)

theorem reaction_lifecycle_witness:
  "reactions_ok sample_queue \<and> reactions_ok (snd (completeReaction (js ''p'') (js ''i'') (js ''w'') 7 sample_queue))"
  using reaction_lifecycle [OF reaction_step.complete [OF surjective_pairing] sample_queue_ok(1),
      of "js ''p''" "js ''i''" "js ''w''" 7] sample_queue_ok(1) by simp

text \<open>A worker without the lease of a reaction cannot complete, extend or fail it: the call reports
  that and changes nothing.\<close>

theorem lease_is_exclusive:
  assumes "reactions_ok d" and "getReaction d part key = Some r" and "\<not> holds_lease owner r"
  shows "completeReaction part key owner t d = (False, d) \<and> extendReactionLease part key owner t d = (False, d) \<and>
    failReaction part key \<lparr>fu_leaseOwner = owner, fu_failure = e, fu_retryAtMs = ra\<rparr> d = (False, d)"
  using lost_lease [OF assms] by simp

theorem lease_is_exclusive_witness:
  "completeReaction (js ''p'') (js ''i'') (js ''v'') 7 sample_queue = (False, sample_queue)"
  using lease_is_exclusive [OF sample_queue_ok, of "js ''v''"]
  by (simp add: holds_lease_def sample_reaction_def js_def)

text \<open>A completed reaction is never run again: whatever operation follows, its row stays as it is until
  it is pruned.\<close>

theorem completed_is_final:
  assumes "reaction_step d d'" and "reactions_ok d" and "getReaction d p k = Some r" "rx_status r = RxCompleted"
  shows "getReaction d' p k = Some r \<or> getReaction d' p k = None"
  using assms by (rule completed_stays)

theorem completed_is_final_witness:
  "\<exists>d r. reactions_ok d \<and> getReaction d (js ''p'') (js ''i'') = Some r \<and> rx_status r = RxCompleted \<and>
     getReaction (snd (retryReaction (js ''p'') (js ''i'') 9 d)) (js ''p'') (js ''i'') \<in> {Some r, None}"
proof -
  let ?r = "sample_reaction\<lparr>rx_status := RxCompleted, rx_leaseOwner := None, rx_leaseExpiresAtMs := None, rx_completedAtMs := Some 7\<rparr>"
  let ?d = "sample_db\<lparr>db_reactions := [(js ''p'', ?r)]\<rparr>"
  have ok: "reactions_ok ?d" "getReaction ?d (js ''p'') (js ''i'') = Some ?r" "rx_status ?r = RxCompleted"
    by (simp_all add: reactions_ok_def reaction_ok_def sample_reaction_def getReaction_def find_by_def)
  show ?thesis
    using completed_is_final [OF reaction_step.retry [OF surjective_pairing] ok, of "js ''p''" "js ''i''" 9] ok by blast
qed

text \<open>The idempotency key of a reaction determines the partition, the client, the commit and the
  plan's own key it was made of.\<close>

theorem idempotency_key_injective:
  "reactionIdempotencyKey p c i k = reactionIdempotencyKey p' c' i' k' \<longleftrightarrow> p = p' \<and> c = c' \<and> i = i' \<and> k = k'"
  by (rule reactionIdempotencyKey_inj)

text \<open>A worker pass accounts for every reaction it claimed exactly once: completed, put back for a
  retry, dead-lettered or lost to another worker.\<close>

theorem worker_accounts_for_claims:
  "settled (snd (runOnce collate runner uuid during clock d)) = rr_claimed (snd (runOnce collate runner uuid during clock d))"
proof -
  let ?owner = "rn_workerId runner @ js '':'' @ uuid"
  obtain rs d1 where claim: "claimReactions collate (rn_part runner)
      \<lparr>rq_leaseOwner = ?owner, rq_types = sort (map fst (rn_handlers runner)), rq_nowMs = clock 0,
       rq_leaseDurationMs = rn_leaseDurationMs runner, rq_limit = rn_batchSize runner\<rparr> d = (rs, d1)" by fastforce
  let ?start = "(d1, 1, \<lparr>rr_claimed = int (length rs), rr_completed = 0, rr_retried = 0, rr_deadLettered = 0, rr_lostLeases = 0\<rparr>)"
  show ?thesis using runReaction_fold_counts [of runner ?owner during clock rs ?start]
    by (simp add: runOnce_def claim Let_def case_prod_unfold settled_def)
qed

text \<open>The retry of a failed reaction lies between the initial and the maximal backoff after the
  failure.\<close>

theorem retry_backoff_bounds:
  assumes "1 \<le> rn_initialBackoffMs runner" "rn_initialBackoffMs runner \<le> rn_maxBackoffMs runner"
    and "1 \<le> rx_attempts r" "atMs + rn_maxBackoffMs runner \<le> max_safe"
  shows "atMs + rn_initialBackoffMs runner \<le> retry_at runner r atMs \<and> retry_at runner r atMs \<le> atMs + rn_maxBackoffMs runner"
  using assms by (rule retry_at_bounds)

definition sample_runner :: reaction_runner where
  "sample_runner = \<lparr>rn_part = js ''p'', rn_workerId = js ''w'', rn_handlers = [],
     rn_leaseDurationMs = 30000, rn_batchSize = 10, rn_initialBackoffMs = 1000, rn_maxBackoffMs = 300000\<rparr>"

theorem retry_backoff_bounds_witness:
  "1000 \<le> retry_at sample_runner sample_reaction 0 \<and> retry_at sample_runner sample_reaction 0 \<le> 300000"
  using retry_backoff_bounds [of sample_runner sample_reaction 0]
  by (simp add: sample_runner_def sample_reaction_def max_safe_def)

end
