(* ===== verification/Sync_Samples.thy ===== *)
theory Sync_Samples
  imports Sync_Run Server_Properties
begin

text \<open>
  The running example continued: the database after the sample push, and a client subscribed to
  the sample table that bootstraps while the push goes on and then pulls.
\<close>

lemma sample_after_eq:
  obtains d where "append_commit_db (js ''p'') (new_commit sample_req [sample_change]) (put_row (js ''p'', js ''t'', sample_stored) sample_db) = Inr (1, d)"
    and "sample_after = record_outcome sample_req (newStoredPushResult 5 (js ''u'') StApplied (Some 1) [OpApplied 0]) d"
proof -
  let ?d1 = "put_row (js ''p'', js ''t'', sample_stored) sample_db"
  have "getMaxCommitSeq ?d1 (js ''p'') = 0" "db_commits ?d1 = []"
    by (simp_all add: getMaxCommitSeq_def put_row_def sample_db_def empty_db_def find_by_def)
  then obtain d where app: "append_commit_db (js ''p'') (new_commit sample_req [sample_change]) ?d1 = Inr (1, d)"
    by (simp add: append_commit_db_eq Let_def)
  have "lookup_of sample_req sample_db = NoPushResult" by (simp add: getPushResult_def sample_db_def empty_db_def find_by_def)
  moreover have "rq_part sample_req = js ''p''" by (simp add: sample_req_def)
  ultimately have "sample_after = record_outcome sample_req (newStoredPushResult 5 (js ''u'') StApplied (Some 1) [OpApplied 0]) d"
    using sample_runs app by (simp add: sample_after_def sample_out_trace processPushOperationsWithTrace_def Let_def)
  with app show thesis by (rule that)
qed

lemma sample_after_facts:
  "db_rows sample_after = [(js ''p'', js ''t'', sample_stored)]" "db_tables sample_after = [(js ''t'', sample_table)]"
  "getMaxCommitSeq sample_after (js ''p'') = 1" "getHorizonSeq sample_after (js ''p'') = 0"
  "db_clients sample_after = []"
proof -
  obtain d where app: "append_commit_db (js ''p'') (new_commit sample_req [sample_change]) (put_row (js ''p'', js ''t'', sample_stored) sample_db) = Inr (1, d)"
    and after: "sample_after = record_outcome sample_req (newStoredPushResult 5 (js ''u'') StApplied (Some 1) [OpApplied 0]) d"
    by (rule sample_after_eq)
  have d: "db_rows d = db_rows (put_row (js ''p'', js ''t'', sample_stored) sample_db)"
    "db_tables d = db_tables (put_row (js ''p'', js ''t'', sample_stored) sample_db)"
    "db_clients d = db_clients (put_row (js ''p'', js ''t'', sample_stored) sample_db)"
    using app by (auto simp: append_commit_db_eq Let_def set_max_seq_def ensure_partition_def split: if_splits)
  show "db_rows sample_after = [(js ''p'', js ''t'', sample_stored)]" "db_tables sample_after = [(js ''t'', sample_table)]"
    "db_clients sample_after = []"
    by (simp_all add: after record_outcome_def d put_row_def sample_db_def empty_db_def)
  show "getMaxCommitSeq sample_after (js ''p'') = 1" "getHorizonSeq sample_after (js ''p'') = 0"
    using append_commit_db_Inr(2,3) [OF app, of "js ''p''"]
    by (simp_all add: after record_outcome_def getMaxCommitSeq_def getHorizonSeq_def put_row_def sample_db_def empty_db_def find_by_def)
qed

lemma sample_ok:
  "storage_ok sample_db" "ids_ok sample_db" "storage_ok sample_after" "ids_ok sample_after" "server_step sample_db sample_after"
proof -
  show db: "storage_ok sample_db" using storage_ok_empty by (simp add: sample_db_def)
  show ids: "ids_ok sample_db" by (simp add: ids_ok_def placed_row_at_def sample_db_def empty_db_def find_by_def)
  show step: "server_step sample_db sample_after" unfolding sample_after_def sample_out_trace by (rule server_step.push)
  from server_step_ok [OF step db ids] show "storage_ok sample_after" "ids_ok sample_after" by (simp_all add: step_ok_def)
qed

section \<open>A client\<close>

definition sample_scopes :: scope_map where
  "sample_scopes = [(js ''o'', [js ''x''])]"

definition sample_plan :: SubscriptionPlan where
  "sample_plan = \<lparr>sn_frame = \<lparr>sb_id = js ''s'', sb_table = js ''t'', sb_scopes = sample_scopes, sb_params = None, sb_cursor = 0,
     sb_bootstrapState = None\<rparr>, sn_table = sample_table, sn_active = True, sn_effective = sample_scopes\<rparr>"

text \<open>Limits of one row and one change, inline rows accepted.\<close>

definition sample_limits :: PullLimits where
  "sample_limits = \<lparr>pl_limitCommits = 1, pl_limitSnapshotRows = 1, pl_maxSnapshotPages = 1, pl_accept = 1\<rparr>"

definition sample_pull_env :: pull_env where
  "sample_pull_env = \<lparr>pu_part = js ''p'', pu_sha256 = (\<lambda>b. b), pu_clock = (\<lambda>_. 0), pu_inlineMax = 100000, pu_signedUrls = None,
     pu_imageBuilder = None\<rparr>"

definition sample_store :: MemorySegmentStore where
  "sample_store = newMemorySegmentStore None"

abbreviation sample_view :: "db \<Rightarrow> row_key \<Rightarrow> placed_row option" where
  "sample_view d \<equiv> server_view (js ''p'') (js ''t'') sample_scopes d"

lemma sample_plan_fields:
  "scope_filter_ok sample_scopes" "ct_name (sn_table sample_plan) = js ''t''" "sn_effective sample_plan = sample_scopes"
  "sb_table (sn_frame sample_plan) = js ''t''" "sn_active sample_plan" "sb_bootstrapState (sn_frame sample_plan) = None"
  "sb_cursor (sn_frame sample_plan) = 0" "pu_part sample_pull_env = js ''p''" "pl_limitSnapshotRows sample_limits = 1"
  "pl_limitCommits sample_limits = 1"
  by (simp_all add: sample_plan_def sample_scopes_def scope_filter_ok_def sample_pull_env_def sample_limits_def sample_table_def)

lemma sample_matching: "matching_rows sample_after (js ''p'') (js ''t'') sample_scopes [] = [sample_stored]"
  unfolding matching_rows_def sample_after_facts
  by (simp add: sample_scopes_def matchesEffective_def sample_stored_def text_key_def text_encode_eval js_def)

lemma sample_page:
  "scanRows sample_after (js ''p'') (snapshot_query sample_plan None 2) = Inr [sample_stored]"
proof -
  have "row_ids_ok sample_after" using ids_row_ids sample_ok(3,4) by (simp add: storage_ok_def)
  moreover note sample_matching
  ultimately show ?thesis
    using scanRows_spec [of sample_after "snapshot_query sample_plan None 2" "js ''p''"] sample_ok(3) sample_plan_fields
    by (simp add: snapshot_query_def storage_ok_def sample_after_facts)
qed

lemma sample_wire: "wire_rows sample_table (js ''p'') sample_after"
proof -
  obtain b where b: "encodeRow (ct_columns sample_table) sample_values = Inr b"
    by (simp add: encodeRow_def writeRow_def sample_table_def sample_values_def plain_column_def writeValue_def bitmapLength_def
        writer_eval)
  have "row_ok (ct_columns sample_table) sample_values"
    by (simp add: row_ok_def value_ok_def sample_table_def sample_values_def plain_column_def str_ok_def js_def is_high_def is_low_def)
  moreover have "renderScopeValue (at sample_values (ct_primaryKeyIndex sample_table)) = Some (js ''r'')"
    by (simp add: renderScopeValue_def at_def sample_values_def sample_table_def js_def)
  moreover have "encodeRow (ct_columns sample_table) sample_values = Inr sample_payload" using b by (simp add: sample_payload_def)
  ultimately have "wire_row sample_table sample_stored"
    using sample_decodes sample_storedScopes by (simp add: wire_row_def sample_stored_def)
  then show ?thesis
    by (simp add: wire_rows_def sample_after_facts) (simp add: sample_table_def plain_column_def str_ok_def js_def is_high_def is_low_def)
qed

lemma sample_page_bytes: "\<exists>bytes. pageBytes sample_compiled sample_plan [sample_stored] = Inr bytes"
proof -
  have cols: "ct_columns (sn_table sample_plan) = ct_columns sample_table" "ct_name (sn_table sample_plan) = js ''t''"
    by (simp_all add: sample_plan_def sample_table_def)
  have chunk: "chunkRows [x] 1000 = [[x]]" for x :: SegmentRow by (simp add: chunkRows.simps)
  have payload: "st_payload sample_stored = sample_payload" "st_serverVersion sample_stored = 1" by (simp_all add: sample_stored_def)
  have "\<exists>bytes. encodeRowsSegment \<lparr>rs_table = js ''t'', rs_schemaVersion = 1, rs_columns = ct_columns sample_table,
      rs_blocks = [[\<lparr>sr_serverVersion = 1, sr_values = sample_values\<rparr>]]\<rparr> = Inr bytes"
    by (simp add: encodeRowsSegment_def sample_table_def plain_column_def writeColumn_def writeBlock_def writeSegmentRow_def writeRow_def
        sample_values_def writeValue_def bitmapLength_def writer_eval ROWS_SEGMENT_FORMAT_VERSION_def ROWS_SEGMENT_MAGIC_def
        text_encode_eval js_def Let_def)
  then show ?thesis
    by (simp add: pageBytes_def cols payload sample_decodes chunk sample_compiled_def)
qed


lemma sample_page_loop:
  "\<exists>cur' st'. pageLoop sample_pull_env (\<lambda>_. sample_after) sample_compiled sample_limits sample_plan 0 digest epoch 1 None
     \<lparr>xs_frames = [], xs_store = sample_store, xs_read = 0\<rparr> = Inr (True, cur', st')"
proof -
  obtain bytes where bytes: "pageBytes sample_compiled sample_plan [sample_stored] = Inr bytes" using sample_page_bytes by blast
  show ?thesis
    using sample_page bytes by (auto simp: sample_plan_fields liftPS_def liftPD_def Let_def case_prod_unfold)
qed

text \<open>The client bootstraps while the push is committed.\<close>

lemma sample_bootstrap:
  "\<exists>v. (sync_step (js ''p'') (js ''t'') sample_scopes)\<^sup>*\<^sup>* (\<lambda>_. None, - 1, sample_db, None) (v, 0, sample_after, None)"
proof -
  let ?step = "sync_step (js ''p'') (js ''t'') sample_scopes"
  let ?rows = "page_rows sample_after (js ''p'') sample_plan sample_limits None"
  let ?w = "put_rows (js ''p'') (js ''t'') ?rows (\<lambda>_. None)"
  have max0: "getMaxCommitSeq sample_db (js ''p'') = 0" by (simp add: getMaxCommitSeq_def sample_db_def empty_db_def find_by_def)
  have pin: "?step (\<lambda>_. None, - 1, sample_db, None) (\<lambda>_. None, - 1, sample_db, Some (0, None, \<lambda>_. None))"
    using sync_step.pin [of "- 1" "js ''p''" "js ''t''" sample_scopes "\<lambda>_. None" sample_db] max0 by simp
  have push: "?step (\<lambda>_. None, - 1, sample_db, Some (0, None, \<lambda>_. None)) (\<lambda>_. None, - 1, sample_after, Some (0, None, \<lambda>_. None))"
    by (rule sync_step.server [OF sample_ok(5)])
  obtain cur' st' where loop: "pageLoop sample_pull_env (\<lambda>_. sample_after) sample_compiled sample_limits sample_plan 0 [] [] 1 None
     \<lparr>xs_frames = [], xs_store = sample_store, xs_read = 0\<rparr> = Inr (True, cur', st')" using sample_page_loop by blast
  have table: "sn_table sample_plan = sample_table" by (simp add: sample_plan_def)
  have "received (sn_table sample_plan) \<lparr>xs_frames = [], xs_store = sample_store, xs_read = 0\<rparr> st' = Some ?rows"
    using page_rows_received [OF loop, of sample_after "js ''p''"] sample_plan_fields sample_ok(3,4) sample_wire
    by (simp add: storage_ok_def table)
  then have page: "?step (\<lambda>_. None, - 1, sample_after, Some (0, None, \<lambda>_. None)) (?w, 0, sample_after, None)"
    using sync_step.page [OF loop, of sample_after "js ''p''" "js ''t''" sample_scopes ?rows ?w "\<lambda>_. None" "\<lambda>_. None" "- 1"]
      sample_plan_fields sample_wire
    by (simp add: table)
  from pin push page have "?step\<^sup>*\<^sup>* (\<lambda>_. None, - 1, sample_db, None) (?w, 0, sample_after, None)"
    by (meson converse_rtranclp_into_rtranclp r_into_rtranclp)
  then show ?thesis by blast
qed

text \<open>Then it pulls the push from the log.\<close>

lemma sample_run:
  "\<exists>v. (sync_step (js ''p'') (js ''t'') sample_scopes)\<^sup>*\<^sup>* (\<lambda>_. None, - 1, sample_db, None) (v, 1, sample_after, None)"
proof -
  let ?step = "sync_step (js ''p'') (js ''t'') sample_scopes"
  obtain w where run: "?step\<^sup>*\<^sup>* (\<lambda>_. None, - 1, sample_db, None) (w, 0, sample_after, None)" using sample_bootstrap by blast
  have sync: "in_sync (js ''p'') (js ''t'') sample_scopes w 0 sample_after"
    using run_in_sync(2) [OF run sample_ok(1,2) sample_plan_fields(1)] sample_after_facts(4) by simp
  obtain commits cursor where sec: "incrementalSection sample_pull_env (\<lambda>_. sample_after) sample_limits sample_plan 1 0 = (commits, cursor)"
    by fastforce
  have cursor: "cursor = 1"
    using in_sync_incremental(2-4) [of sample_after sample_scopes "\<lambda>_. sample_after" 0 sample_pull_env "js ''p''" sample_plan "js ''t''" 1
        sample_limits commits cursor w] sec sync sample_plan_fields sample_ok(3) sample_after_facts
    by (auto simp: storage_ok_def)
  obtain result st where sub: "subscriptionSection 0 sample_pull_env (\<lambda>_. sample_after) sample_compiled sample_limits sample_plan 1 0 (Some [0])
      \<lparr>xs_frames = [], xs_store = sample_store, xs_read = 0\<rparr> = Inr (result, st)" "sr_nextCursor result = 1"
    using sec cursor sample_plan_fields by (simp add: subscriptionSection_def parseBootstrapToken_def Let_def)
  have "?step (w, 0, sample_after, None) (client_apply (js ''p'') (xs_frames st) w, 1, sample_after, None)"
    using sync_step.pull [OF sub(1), of sample_after "js ''p''" "js ''t''" sample_scopes 0 w] sub(2) sample_plan_fields sample_after_facts
    by simp
  with run show ?thesis by (meson rtranclp.rtrancl_into_rtrancl)
qed

section \<open>A pruned log\<close>

definition sample_policy :: RetentionPolicy where
  "sample_policy = \<lparr>rp_activeWindowMs = 1, rp_ageForceMs = 1, rp_minRetainedCommits = 0\<rparr>"

definition sample_pruned :: db where
  "sample_pruned = snd (snd (pruneCommitLog sample_policy 100 (js ''p'') sample_after))"

lemma sample_prune: "\<exists>removed. pruneCommitLog sample_policy 100 (js ''p'') sample_after = (1, removed, sample_pruned)"
proof -
  obtain horizon removed where run: "pruneCommitLog sample_policy 100 (js ''p'') sample_after = (horizon, removed, sample_pruned)"
    by (metis prod.collapse sample_pruned_def)
  have "horizon = 1"
    using run sample_after_facts(3,4,5)
    by (auto simp: sample_policy_def pruneCommitLog_def prune_target_def activeCursors_def listClientCursors_def Let_def case_prod_unfold
        max_safe_def split: if_splits)
  then show ?thesis using run by blast
qed

end
