(* ===== verification/Pull_Correct.thy ===== *)
theory Pull_Correct
  imports Sync_Run
begin

text \<open>
  What the pull path delivers besides the pages: the image scan collects every matching row and
  ends, and a resume token is read back as it was written.
\<close>

section \<open>Images\<close>

text \<open>On a database at rest the scan of an image ends: one turn per 50000 rows and one more.\<close>

lemma matching_rows_rest:
  assumes ok: "rows_ok d" "ids_ok d" and ne: "take n (matching_rows d p t f after) \<noteq> []"
  shows "matching_rows d p t f (st_rowId (List.last (take n (matching_rows d p t f after)))) = drop n (matching_rows d p t f after)"
proof -
  let ?M = "matching_rows d p t f after" and ?last = "List.last (take n (matching_rows d p t f after))"
  have "?last \<in> set ?M" using ne by (metis in_set_takeD last_in_set)
  then have after: "text_key after < text_key (st_rowId ?last)" by (simp add: matching_rows_def)
  have "matching_rows d p t f (st_rowId ?last) = filter (\<lambda>row. text_key (st_rowId ?last) < text_key (st_rowId row)) ?M"
    using after unfolding matching_rows_def filter_filter by (intro filter_cong) auto
  also have "\<dots> = drop n ?M" using filter_after_key [OF matching_rows_keys(1,2) [OF ok] ne] by simp
  finally show ?thesis .
qed

lemma imageRows_all:
  assumes ok: "rows_ok d" "ids_ok d" and f: "scope_filter_ok (sn_effective plan)"
    and t: "map_of (db_tables d) (ct_name (sn_table plan)) \<noteq> None"
    and fuel: "length (matching_rows d (pu_part env) (ct_name (sn_table plan)) (sn_effective plan) after) < 50000 * fuel"
  shows "\<exists>n'. imageRows fuel env (\<lambda>_. d) plan (Some after) n rows =
    Inr (rows @ matching_rows d (pu_part env) (ct_name (sn_table plan)) (sn_effective plan) after, n')"
  using fuel
proof (induction fuel arbitrary: after n rows)
  case (Suc fuel)
  let ?M = "\<lambda>a. matching_rows d (pu_part env) (ct_name (sn_table plan)) (sn_effective plan) a"
  have scan: "scanRows d (pu_part env) (snapshot_query plan (Some after) 50000) = Inr (take 50000 (?M after))"
    using scanRows_spec [OF ok(1) ids_row_ids [OF ok(2,1)], of "snapshot_query plan (Some after) 50000" "pu_part env"] f t
    by (simp add: snapshot_query_def)
  show ?case
  proof (cases "length (?M after) < 50000")
    case True
    then show ?thesis by (simp add: scan liftPS_def)
  next
    case False
    then have ne: "take 50000 (?M after) \<noteq> []" by auto
    have rest: "?M (st_rowId (List.last (take 50000 (?M after)))) = drop 50000 (?M after)" by (rule matching_rows_rest [OF ok ne])
    have "length (drop 50000 (?M after)) < 50000 * fuel" using Suc.prems False by simp
    then obtain n' where "imageRows fuel env (\<lambda>_. d) plan (Some (st_rowId (List.last (take 50000 (?M after))))) (n + 1) (rows @ take 50000 (?M after)) =
        Inr ((rows @ take 50000 (?M after)) @ drop 50000 (?M after), n')"
      using Suc.IH [of "st_rowId (List.last (take 50000 (?M after)))" "n + 1" "rows @ take 50000 (?M after)"] rest by auto
    then show ?thesis using False by (simp add: scan liftPS_def)
  qed
qed simp

section \<open>Resume tokens\<close>

lemma token_json:
  assumes "safe_nat asOf"
  shows "json_parse (token_text asOf table cur) = Some (JObject [(js ''asOfCommitSeq'', num asOf),
    (js ''tables'', JArray [JString table]), (js ''tableIndex'', num 0),
    (js ''rowCursor'', (case cur of None \<Rightarrow> JNull | Some r \<Rightarrow> JString r))])"
  unfolding token_text_def using num_ok [OF assms] num_ok [of 0]
  by (intro json_parse_stringify) (simp add: js_def safe_nat_def max_safe_def split: option.split)

lemma token_parsed:
  assumes "safe_nat asOf"
  shows "parseBootstrapToken (Some (token_text asOf table cur)) table' = (if table' = table
    then Some \<lparr>bt_asOfCommitSeq = number_of_int asOf, bt_tables = [JString table], bt_tableIndex = number_of_int 0, bt_rowCursor = cur\<rparr>
    else None)"
  by (cases cur) (simp_all add: parseBootstrapToken_def token_json [OF assms] js_def num_def)

lemma number_at_least_int:
  assumes "double_to_int x = Some n"
  shows "number_at_least x m \<longleftrightarrow> m \<le> n"
proof -
  define b e f where "b = unat x" and "e = b div 2 ^ 52 mod 2048" and "f = b mod 2 ^ 52"
  define sg :: int where "sg = (if b div 2 ^ 63 = 1 then - 1 else 1)"
  have dbl: "(if e = 2047 then None else if e = 0 then (if f = 0 then Some 0 else None)
      else if 1075 \<le> e then Some (sg * int ((2 ^ 52 + f) * 2 ^ (e - 1075)))
      else if (2 ^ (1075 - e)) dvd (2 ^ 52 + f) then Some (sg * int ((2 ^ 52 + f) div 2 ^ (1075 - e))) else None) = Some n"
    using assms unfolding double_to_int_def Let_def b_def e_def f_def sg_def .
  have nal: "number_at_least x m \<longleftrightarrow> (if e = 2047 then f = 0 \<and> sg = 1
      else (let v = sg * int (if e = 0 then f else 2 ^ 52 + f); k = (if e = 0 then - 1074 else int e - 1075) in
            if 0 \<le> k then m \<le> v * 2 ^ nat k else m * 2 ^ nat (- k) \<le> v))"
    unfolding number_at_least_def Let_def b_def e_def f_def sg_def ..
  consider (zero) "e = 0" "f = 0" "n = 0" | (up) "e \<noteq> 2047" "1075 \<le> e" "n = sg * int ((2 ^ 52 + f) * 2 ^ (e - 1075))"
    | (down) "e \<noteq> 0" "e < 1075" "2 ^ (1075 - e) dvd (2 ^ 52 + f)" "n = sg * int ((2 ^ 52 + f) div 2 ^ (1075 - e))"
    using dbl by (auto split: if_splits)
  then show ?thesis
  proof cases
    case zero
    then show ?thesis unfolding nal by (simp add: mult_le_0_iff)
  next
    case up
    then have "nat (int e - 1075) = e - 1075" by simp
    then show ?thesis using up unfolding nal by (simp add: Let_def algebra_simps)
  next
    case down
    let ?k = "1075 - e"
    have k: "nat (- (int e - 1075)) = ?k" "\<not> 0 \<le> int e - 1075" using down by simp_all
    obtain q where q: "2 ^ 52 + f = 2 ^ ?k * q" using down(3) by blast
    then have n: "n = sg * int q" using down(4) by simp
    have v: "sg * int (2 ^ 52 + f) = n * 2 ^ ?k" unfolding q n by simp
    have "number_at_least x m \<longleftrightarrow> m * 2 ^ ?k \<le> sg * int (2 ^ 52 + f)"
      using down(1,2) k unfolding nal Let_def by (simp only: if_False) auto
    then show ?thesis unfolding v by simp
  qed
qed

lemma safe_int_at_least: "safe_int x = Some n \<Longrightarrow> number_at_least x m \<longleftrightarrow> m \<le> n"
  by (auto simp: safe_int_def number_at_least_int split: option.splits if_splits)

text \<open>A section that resumes from its own token continues at the pin and the row cursor of the token.\<close>

lemma section_resumes:
  assumes token: "sb_bootstrapState (sn_frame plan) = Some (token_text asOf (sb_table (sn_frame plan)) cur)" and safe: "safe_nat asOf"
    and plan: "sn_active plan" "epoch \<noteq> []"
  shows "subscriptionSection fuel env rd schema limits plan maxSeq horizonSeq (Some epoch) st =
    (let pin = (if horizonSeq \<le> asOf then asOf else maxSeq); start = (if horizonSeq \<le> asOf then cur else None) in
     bindE (bootstrapSegments fuel env rd schema limits plan pin start epoch
              (yield_frame (sub_start (sb_id (sn_frame plan)) SubActive '''' (sn_effective plan) True) st)) (\<lambda>(complete, rowCursor, st1).
       Inr (\<lparr>sr_nextCursor = pin, sr_active = True\<rparr>,
            yield_frame (sub_end pin (if complete then None else Some (token_text pin (sb_table (sn_frame plan)) rowCursor))) st1)))"
proof -
  have int: "safe_int (number_of_int asOf) = Some asOf" using safe by (simp add: safe_nat_number)
  show ?thesis
    using plan by (simp add: subscriptionSection_def token token_parsed [OF safe] safe_int_at_least [OF int] int Let_def)
qed

end
