(* ===== verification/Wire_Rows.thy ===== *)
theory Wire_Rows
  imports Page_Delivery Push_Correct
begin

text \<open>
  Rows stay as an encoder writes them. When the payloads of a push are encodings of their values
  that the codec gives back unchanged, so are the rows the push stores, also after the server has
  put back the scope columns of a stored row or merged CRDT columns; and their ids and scopes are
  those of their values.
\<close>

section \<open>Values\<close>

lemma zero_texts: "number_to_string 0 = number_to_string negative_zero"
  by (simp add: number_to_string_def safe_int_def double_to_int_def negative_zero_def max_safe_def)

lemma render_strict_eq: "strict_eq a b \<Longrightarrow> renderScopeValue (Some a) = renderScopeValue (Some b)"
  by (cases a; cases b) (auto simp: renderScopeValue_def zero_texts)

lemma row_ok_update:
  assumes "row_ok columns vals" and "i < length columns \<Longrightarrow> value_ok (columns ! i) v"
  shows "row_ok columns (vals[i := v])"
proof -
  have "value_ok (columns ! j) (vals[i := v] ! j)" if "j < length vals" for j
    using assms that by (cases "j = i") (auto simp: row_ok_def list_all2_conv_all_nth)
  then show ?thesis using assms(1) by (simp add: row_ok_def list_all2_conv_all_nth)
qed

text \<open>A CRDT column holds bytes before and after the merge, so nothing rendered from the row changes.\<close>

lemma mergeLoop_render:
  "mergeLoop env stored i cols vals changed = Inr (changed', vals') \<Longrightarrow>
   (\<forall>j. renderScopeValue (at vals' j) = renderScopeValue (at vals j)) \<and> (row_ok columns vals \<longrightarrow> row_ok columns vals') \<and>
   (\<not> changed' \<longrightarrow> vals' = vals \<and> \<not> changed)"
proof (induction cols arbitrary: vals changed)
  case (Cons col rest)
  obtain index crdtType where col: "col = (index, crdtType)" by (cases col)
  show ?case
  proof (cases "\<exists>incoming. at vals index = Some (VBytes incoming)")
    case True
    then obtain incoming where incoming: "at vals index = Some (VBytes incoming)" by blast
    obtain merged where run: "mergeLoop env stored i rest (vals[index := VBytes merged]) True = Inr (changed', vals')"
      using Cons.prems by (auto simp: col incoming Let_def split: option.split_asm sum.split_asm)
    have "renderScopeValue (at (vals[index := VBytes merged]) j) = renderScopeValue (at vals j)" for j
      using incoming by (cases "j = index") (auto simp: at_def renderScopeValue_def)
    then show ?thesis using Cons.IH [OF run] row_ok_update [of columns vals index "VBytes merged"] by (simp add: value_ok_def)
  next
    case False
    then have "mergeLoop env stored i rest vals changed = Inr (changed', vals')"
      using Cons.prems by (auto simp: col split: option.split_asm RowValue.split_asm)
    then show ?thesis by (rule Cons.IH)
  qed
qed simp

lemma merged_render:
  assumes "mergeCrdtColumns env table vals stored i = Inr (changed, vals')"
  shows "renderScopeValue (at vals' j) = renderScopeValue (at vals j)" "row_ok columns vals \<Longrightarrow> row_ok columns vals'"
    "\<not> changed \<Longrightarrow> vals' = vals"
  using assms mergeLoop_render [of env stored i "ct_crdtColumns table" vals False changed vals' columns]
  by (auto simp: mergeCrdtColumns_def split: if_splits)

text \<open>The scope columns render as the stored ones.\<close>

lemma keepScopes_render:
  "keepScopes ps stored vals mutated = (mutated', vals') \<Longrightarrow> \<forall>p\<in>set ps. sp_columnIndex p < length vals \<Longrightarrow>
   (\<forall>j. renderScopeValue (at vals' j) = renderScopeValue (at (if j \<in> sp_columnIndex ` set ps then stored else vals) j)) \<and>
   (row_ok columns vals \<longrightarrow> row_ok columns stored \<longrightarrow> row_ok columns vals') \<and> (\<not> mutated' \<longrightarrow> vals' = vals \<and> \<not> mutated)"
proof (induction ps stored vals mutated rule: keepScopes.induct)
  case (2 pattern ps stored vals mutated)
  let ?i = "sp_columnIndex pattern" and ?v = "case at stored (sp_columnIndex pattern) of None \<Rightarrow> VNull | Some v \<Rightarrow> v"
  have i: "?i < length vals" using 2(4) by simp
  have stored: "renderScopeValue (Some ?v) = renderScopeValue (at stored ?i)" by (simp add: renderScopeValue_def split: option.split)
  show ?case
  proof (cases "case at vals ?i of None \<Rightarrow> False | Some v \<Rightarrow> strict_eq v ?v")
    case True
    then have run: "keepScopes ps stored vals mutated = (mutated', vals')" using 2(3) by (simp add: Let_def)
    have "renderScopeValue (at vals ?i) = renderScopeValue (at stored ?i)"
      using render_strict_eq [of "vals ! ?i" ?v] True stored i by (simp add: at_def)
    then have "renderScopeValue (at (if j \<in> sp_columnIndex ` set ps then stored else vals) j) =
        renderScopeValue (at (if j \<in> sp_columnIndex ` set (pattern # ps) then stored else vals) j)" for j by auto
    then show ?thesis using 2(1) [OF refl True run] 2(4) by simp
  next
    case False
    then have run: "keepScopes ps stored (vals[?i := ?v]) True = (mutated', vals')" using 2(3) by (simp add: Let_def)
    have upd: "renderScopeValue (at (vals[?i := ?v]) j) = renderScopeValue (at (if j = ?i then stored else vals) j)" for j
      using stored i by (cases "j = ?i") (auto simp: at_def)
    have cols: "renderScopeValue (at (if j \<in> sp_columnIndex ` set ps then stored else vals[?i := ?v]) j) =
        renderScopeValue (at (if j \<in> sp_columnIndex ` set (pattern # ps) then stored else vals) j)" for j using upd [of j] by auto
    have "row_ok columns (vals[?i := ?v])" if "row_ok columns vals" "row_ok columns stored"
      using that by (intro row_ok_update) (auto simp: row_ok_def list_all2_conv_all_nth at_def value_ok_def)
    then show ?thesis using 2(2) [OF refl False run] 2(4) cols by simp
  qed
qed simp

lemma storedScopes_cong:
  "(\<And>p. p \<in> set ps \<Longrightarrow> renderScopeValue (at vals (sp_columnIndex p)) = renderScopeValue (at vals' (sp_columnIndex p))) \<Longrightarrow>
   storedScopesLoop ps vals scopes = storedScopesLoop ps vals' scopes"
  by (induction ps arbitrary: scopes) (auto split: option.split)

section \<open>One operation\<close>

text \<open>The payload of an operation on the table, as an encoder writes it.\<close>

definition wire_op :: "CompiledTable \<Rightarrow> PushOperation \<Rightarrow> bool" where
  "wire_op table op \<longleftrightarrow>
     (case po_payload op of
        None \<Rightarrow> True
      | Some payload \<Rightarrow>
          (case decodeRow (ct_columns table) payload of
             Inl _ \<Rightarrow> True
           | Inr vals \<Rightarrow> row_ok (ct_columns table) vals \<and> encodeRow (ct_columns table) vals = Inr payload))"

lemma wire_rowI:
  assumes "row_ok (ct_columns table) vals" "encodeRow (ct_columns table) vals = Inr payload"
    "renderScopeValue (at vals (ct_primaryKeyIndex table)) = Some rowId" "storedScopesForRow table vals = Inr scopes"
  shows "wire_row table \<lparr>st_rowId = rowId, st_serverVersion = version, st_scopes = scopes, st_payload = payload\<rparr>"
  using assms decodeRow_encodeRow [OF assms(2,1)] by (simp add: wire_row_def)

definition change_wire :: "CompiledTable \<Rightarrow> NewChange \<Rightarrow> bool" where
  "change_wire table c \<longleftrightarrow> (\<forall>q q' t row. row_change_of q c = Put (q', t, row) \<longrightarrow> wire_row table row)"

lemma change_wireI:
  "wire_row table \<lparr>st_rowId = rowId, st_serverVersion = version, st_scopes = scopes, st_payload = payload\<rparr> \<Longrightarrow>
   change_wire table \<lparr>ch_table = t, ch_rowId = rowId, ch_op = Upsert, ch_rowVersion = Some version, ch_scopes = scopes, ch_payload = Some payload\<rparr>"
  by (simp add: change_wire_def row_change_of_def)

lemma applyInsert_wire:
  assumes run: "applyInsert env tx table resolved op vals payload i part actorId = Inr (Applied (Some c) operation, tx')"
    and vals: "row_ok (ct_columns table) vals" "encodeRow (ct_columns table) vals = Inr payload"
      "renderScopeValue (at vals (ct_primaryKeyIndex table)) = Some (po_rowId op)"
  shows "change_wire table c"
proof -
  obtain scopes changed vals1 written where scopes: "storedScopesForRow table vals = Inr scopes" and
    merge: "mergeCrdtColumns env table vals None i = Inr (changed, vals1)" and
    enc: "(if changed then encodeRow (ct_columns table) vals1 else Inr payload) = Inr written" and
    finish: "finishUpsert env tx table op i part actorId vals1 written scopes 1 None = Inr (Applied (Some c) operation, tx')"
    using run by (auto simp: applyInsert_def bindE_eq_Inr lift_eq_Inr split: if_split_asm prod.split_asm sum.split_asm)
  note m = merged_render [OF merge]
  have "encodeRow (ct_columns table) vals1 = Inr written" using enc m(3) vals(2) by (auto split: if_splits)
  moreover have "storedScopesForRow table vals1 = Inr scopes"
    using scopes storedScopes_cong [of "ct_scopePatterns table" vals1 vals] m(1) by (simp add: storedScopesForRow_def)
  ultimately have "wire_row table \<lparr>st_rowId = po_rowId op, st_serverVersion = 1, st_scopes = scopes, st_payload = written\<rparr>"
    using wire_rowI [of table vals1] m(1,2) vals by simp
  then show ?thesis using finishUpsert_change [OF finish] change_wireI by auto
qed

lemma applyUpdate_wire:
  assumes run: "applyUpdate env tx table resolved op row vals payload i part actorId = Inr (Applied (Some c) operation, tx')"
    and vals: "row_ok (ct_columns table) vals" "encodeRow (ct_columns table) vals = Inr payload"
      "renderScopeValue (at vals (ct_primaryKeyIndex table)) = Some (po_rowId op)"
    and row: "wire_row table row" "st_rowId row = po_rowId op" and wf: "table_wf table"
  shows "change_wire table c"
proof (rule applyUpdate_Applied [OF run])
  fix stored mutated vals1 changed vals2 written
  assume dec: "decodeRow (ct_columns table) (st_payload row) = Inr stored"
    and keep: "keepScopes (ct_scopePatterns table) stored vals False = (mutated, vals1)"
    and merge: "mergeCrdtColumns env table vals1 (Some stored) i = Inr (changed, vals2)"
    and enc: "(if mutated \<or> changed then encodeRow (ct_columns table) vals2 else Inr payload) = Inr written"
    and finish: "finishUpsert env tx table op i part actorId vals2 written (st_scopes row) (st_serverVersion row + 1)
      (Some (stored, st_serverVersion row)) = Inr (Applied (Some c) operation, tx')"
  have old: "row_ok (ct_columns table) stored" "renderScopeValue (at stored (ct_primaryKeyIndex table)) = Some (po_rowId op)"
    "storedScopesForRow table stored = Inr (st_scopes row)" using row dec by (simp_all add: wire_row_def)
  have "list_all (\<lambda>p. sp_columnIndex p < length (ct_columns table) \<and> rc_name (ct_columns table ! sp_columnIndex p) = sp_column p)
      (ct_scopePatterns table)" using wf unfolding table_wf_def by blast
  then have "\<forall>p\<in>set (ct_scopePatterns table). sp_columnIndex p < length vals"
    using list_all2_lengthD [OF vals(1) [unfolded row_ok_def]] by (simp add: list_all_iff)
  note k = keepScopes_render [OF keep this, of "ct_columns table"] and m = merged_render [OF merge]
  have "encodeRow (ct_columns table) vals2 = Inr written" using enc m(3) k vals(2) by (auto split: if_splits)
  moreover have "storedScopesForRow table vals2 = Inr (st_scopes row)"
    using old(3) storedScopes_cong [of "ct_scopePatterns table" vals2 stored] m(1) k by (simp add: storedScopesForRow_def)
  moreover have "renderScopeValue (at vals2 (ct_primaryKeyIndex table)) = Some (po_rowId op)" using m(1) k vals(3) old(2) by simp
  moreover have "row_ok (ct_columns table) vals2" using m(2) k vals(1) old(1) by blast
  ultimately have "wire_row table \<lparr>st_rowId = po_rowId op, st_serverVersion = st_serverVersion row + 1, st_scopes = st_scopes row, st_payload = written\<rparr>"
    using wire_rowI by blast
  then show ?thesis using finishUpsert_change [OF finish] change_wireI by auto
qed

section \<open>The whole commit\<close>

definition wire_map :: "CompiledTable \<Rightarrow> jsstring \<Rightarrow> (row_key \<Rightarrow> placed_row option) \<Rightarrow> bool" where
  "wire_map table p m \<longleftrightarrow> (\<forall>r p' t row. m (p, ct_name table, r) = Some (p', t, row) \<longrightarrow> wire_row table row)"

lemma wire_map_change:
  assumes "wire_map table p m" and "ch_table c = ct_name table \<Longrightarrow> change_wire table c"
  shows "wire_map table p (apply_change q c m)"
proof (cases "ch_table c = ct_name table")
  case True
  then show ?thesis using assms by (cases "ch_op c") (auto simp: wire_map_def change_wire_def row_change_of_def)
next
  case False
  then show ?thesis using assms(1) by (cases "ch_op c") (auto simp: wire_map_def row_change_of_def)
qed

lemma applyOperation_wire:
  assumes run: "applyOperation env tx schema resolved op i part actorId = Inr (Applied change operation, tx')"
    and table: "map_of (cs_tables schema) (ct_name table) = Some table" "table_wf table"
    and wire: "po_table op = ct_name table \<Longrightarrow> wire_op table op" and m: "wire_map table (tx_partition tx) (row_map tx)"
    and keyed: "\<And>k v. row_map tx k = Some v \<Longrightarrow> placed_key v = k"
  shows "wire_map table (tx_partition tx) (row_map tx')"
proof -
  note done_ = applyOperation_done [OF run] and post = applyOperation_post [OF run]
  have "change_wire table c" if c: "change = Some c" and t: "po_table op = ct_name table" for c
  proof (cases "po_op op")
    case Delete
    then show ?thesis using done_ c by (simp add: op_done_def change_wire_def row_change_of_def)
  next
    case Upsert
    obtain payload vals where vals: "po_payload op = Some payload" "decodeRow (ct_columns table) payload = Inr vals"
      "renderScopeValue (at vals (ct_primaryKeyIndex table)) = Some (po_rowId op)"
      using done_ c t table Upsert by (auto simp: op_done_def upsert_done_def)
    have ok: "row_ok (ct_columns table) vals" "encodeRow (ct_columns table) vals = Inr payload"
      using wire [OF t] vals by (simp_all add: wire_op_def)
    obtain stored where get: "tx_getRow tx (po_table op) (po_rowId op) = Inr stored" and
      rest: "(case stored of Some row \<Rightarrow> applyUpdate env tx table resolved op row vals payload i part actorId
         | None \<Rightarrow> applyInsert env tx table resolved op vals payload i part actorId) = Inr (Applied (Some c) operation, tx')"
      using run t table(1) vals Upsert c
      by (auto simp: applyOperation_def bindE_eq_Inr lift_eq_Inr split: if_split_asm)
    show ?thesis
    proof (cases stored)
      case None
      then show ?thesis using applyInsert_wire [OF _ ok vals(3)] rest by simp
    next
      case (Some row)
      note at = tx_getRow_Inr [OF get, unfolded Some option.map]
      have "wire_row table row" "st_rowId row = po_rowId op"
        using m at keyed [OF at] t by (auto simp: wire_map_def)
      then show ?thesis using applyUpdate_wire [OF _ ok vals(3) _ _ table(2)] rest Some by simp
    qed
  qed
  moreover have "ch_table c = po_table op" if "change = Some c" for c using done_ that by (simp add: op_done_def)
  ultimately show ?thesis
    using post m wire_map_change by (cases change) (auto simp: op_post_def)
qed

lemma applyLoop_wire:
  assumes table: "map_of (cs_tables schema) (ct_name table) = Some table" "table_wf table"
  shows "applyLoop env schema resolved part actorId ops i tx acc = Inr (Inr acc', tx') \<Longrightarrow>
    \<forall>op\<in>set ops. po_table op = ct_name table \<longrightarrow> wire_op table op \<Longrightarrow> wire_map table (tx_partition tx) (row_map tx) \<Longrightarrow>
    wire_map table (tx_partition tx) (row_map tx')"
proof (induction ops arbitrary: i tx acc)
  case (Cons op ops)
  obtain outcome tx2 where run: "applyOperation env tx schema resolved op i part actorId = Inr (outcome, tx2)"
    and cont: "(case outcome of
         Terminate r \<Rightarrow> Inr (Inl r, tx2)
       | Applied change operation \<Rightarrow>
           applyLoop env schema resolved part actorId ops (i + 1) tx2
             \<lparr>ao_results = ao_results acc @ [OpApplied i],
              ao_changes = ao_changes acc @ (case change of None \<Rightarrow> [] | Some c \<Rightarrow> [c]),
              ao_operations = ao_operations acc @ [operation]\<rparr>) = Inr (Inr acc', tx')"
    using Cons.prems(1) by (auto simp: bindE_eq_Inr)
  then obtain change operation where applied: "outcome = Applied change operation" by (cases outcome) auto
  note op = run [unfolded applied] and rest = cont [unfolded applied OperationOutcome.case]
  have part: "tx_partition tx2 = tx_partition tx" using applyOperation_post [OF op] tx_step_fields by (auto simp: op_post_def)
  have "placed_key v = k" if "row_map tx k = Some v" for k v using that placed_row_at_key by (simp add: row_map_def)
  then have "wire_map table (tx_partition tx) (row_map tx2)"
    using applyOperation_wire [OF op table _ Cons.prems(3)] Cons.prems(2) by simp
  then show ?case using Cons.IH [OF rest] Cons.prems(2) part by simp
qed simp

lemma wire_map_rows:
  assumes "rows_ok d"
  shows "wire_rows table p d \<longleftrightarrow> str_ok (ct_name table) \<and> list_all (\<lambda>c. str_ok (rc_name c)) (ct_columns table) \<and> wire_map table p (placed_row_at d)"
proof -
  have "placed_row_at d (p, ct_name table, r) = Some (p', t, row) \<longleftrightarrow>
      p' = p \<and> t = ct_name table \<and> st_rowId row = r \<and> (p, ct_name table, row) \<in> set (db_rows d)" for r p' t row
  proof -
    have "placed_row_at d (p, ct_name table, r) = Some (p', t, row) \<longleftrightarrow> p' = p \<and> t = ct_name table \<and> stored_row d (p, ct_name table, r) = Some row"
      using placed_row_at_key [of d "(p, ct_name table, r)"] by (auto simp: stored_row_placed)
    then show ?thesis using stored_row_rows [OF assms] by auto
  qed
  then have "wire_map table p (placed_row_at d) \<longleftrightarrow> (\<forall>row. (p, ct_name table, row) \<in> set (db_rows d) \<longrightarrow> wire_row table row)"
    by (auto simp: wire_map_def)
  then show ?thesis by (auto simp: wire_rows_def list_all_iff)
qed

text \<open>A push of encoded payloads keeps the rows of every partition as an encoder writes them.\<close>

lemma push_keeps_wire:
  assumes out: "out = processPushOperationsWithTrace env schema req build d0 d" and ok: "storage_ok d"
    and table: "map_of (cs_tables schema) (ct_name table) = Some table" "table_wf table"
    and ops: "\<And>ops op. build (locked_tx d (rq_part req)) = Inr ops \<Longrightarrow> op \<in> set ops \<Longrightarrow> po_table op = ct_name table \<Longrightarrow> wire_op table op"
    and wire: "wire_rows table p d"
  shows "wire_rows table p (po_db out)"
proof (rule push_cases [OF out])
  fix stored commit reactions tx'
  assume body: "pushBody env schema req build (locked_tx d (rq_part req)) = Inr (Inr (stored, commit, reactions), tx')"
    and out': "out = \<lparr>po_db = tx_db tx', po_result = Inr (processedPushCommit (rq_clientCommitId req) stored False),
             po_notify = (if cm_changes commit = [] then None else Some commit), po_queued = reactions\<rparr>"
  let ?tx = "locked_tx d (rq_part req)"
  from body obtain os acc tx1 prepared where build: "build ?tx = Inr os" and
    loop: "applyLoop env schema (rq_resolved req) (rq_part req) (rq_actorId req) os 0 ?tx
       \<lparr>ao_results = [], ao_changes = [], ao_operations = []\<rparr> = Inr (Inr acc, tx1)" and
    com: "commitPush req acc prepared tx1 = Inr ((stored, commit, reactions), tx')"
    by (elim pushBody_Inr after_loop_applied) blast
  have "cm_changes commit = ao_changes acc" using com by (auto simp: commitPush_def Let_def bindE_eq_Inr)
  then have rows: "row_map tx1 = placed_row_at (po_db out)" and fold: "placed_row_at (po_db out) = fold (apply_change (rq_part req)) (cm_changes commit) (placed_row_at d)"
    using pushed_applied [OF body] applyLoop_post [OF loop, of ?tx] changes_from_refl [of schema "rq_resolved req" ?tx]
    by (simp_all add: applied_push_def changes_from_def out')
  have ok': "rows_ok d" "rows_ok (po_db out)"
    using ok push_storage_ok [OF ok, of env schema req build d0] out by (simp_all add: storage_ok_def)
  have old: "wire_map table p (placed_row_at d)" using wire wire_map_rows [OF ok'(1)] by blast
  have "wire_map table p (placed_row_at (po_db out))"
  proof (cases "p = rq_part req")
    case True
    then show ?thesis using applyLoop_wire [OF table loop] ops [OF build] old rows by simp
  next
    case False
    have "fold (apply_change (rq_part req)) cs m (p, t, r) = m (p, t, r)" for cs m t r
      using False by (induction cs arbitrary: m) (auto simp: row_change_of_def split: OpKind.split)
    then show ?thesis using old by (simp add: fold wire_map_def)
  qed
  then show ?thesis using wire wire_map_rows [OF ok'(1)] wire_map_rows [OF ok'(2)] by blast
qed (use wire in \<open>simp_all add: wire_rows_def record_outcome_def\<close>)

end
