(* ===== verification/Sync_Properties.thy ===== *)
theory Sync_Properties
  imports Sync_Samples Pull_Correct Wire_Rows
begin

text \<open>
  The properties of the pull path, of pruning and of segment delivery, and the convergence of a
  client, each with a concrete instance where it has hypotheses.
\<close>

section \<open>Convergence\<close>



text \<open>C4. Pulling catches up: from any state of such a run whose cursor is not behind the horizon, as many
  pulls as there are commits after the cursor bring the client of a server at rest to the end of
  the log and to exactly the server's rows, however small the commit limit.\<close>

theorem pulls_catch_up:
  assumes "(sync_step p t f)\<^sup>*\<^sup>* (v0, - 1, d0, None) (v, c, d, None)"
    and "storage_ok d0" "ids_ok d0" "scope_filter_ok f" and "getHorizonSeq d p \<le> c"
    and "pu_part env = p" "sb_table (sn_frame plan) = t" "sn_effective plan = f" "sn_active plan" "epoch \<noteq> []"
    and "1 \<le> pl_limitCommits limits" and "getMaxCommitSeq d p - c \<le> int n"
  shows "(pull_once env schema limits plan epoch store d ^^ n) (v, c) = (server_view p t f d, getMaxCommitSeq d p)"
  using run_in_sync [OF assms(1-5)] assms(4-) by (intro pulls_reach_end) (simp_all add: storage_ok_def)

theorem pulls_catch_up_witness:
  "\<exists>v. (sync_step (js ''p'') (js ''t'') sample_scopes)\<^sup>*\<^sup>* (\<lambda>_. None, - 1, sample_db, None) (v, 0, sample_after, None) \<and>
     (pull_once sample_pull_env sample_compiled sample_limits sample_plan [0] sample_store sample_after ^^ 1) (v, 0) =
       (sample_view sample_after, 1)"
proof -
  obtain v where run: "(sync_step (js ''p'') (js ''t'') sample_scopes)\<^sup>*\<^sup>* (\<lambda>_. None, - 1, sample_db, None) (v, 0, sample_after, None)"
    using sample_bootstrap by blast
  show ?thesis
    using run pulls_catch_up [OF run sample_ok(1,2) sample_plan_fields(1), of sample_pull_env sample_plan "[0]" sample_limits 1 sample_compiled sample_store]
      sample_plan_fields sample_after_facts by auto
qed

section \<open>Pruning\<close>

text \<open>C30. A prune that runs undisturbed keeps its promises: the storage invariant holds afterwards, the
  horizon never moves back and equals the returned value, the rows and every commit above the
  horizon are untouched, and when the horizon moves it leaves the newest commits to be retained and
  stays at or below the cursor of every active client, except for commits past the age limit.\<close>

theorem prune_keeps_floors:
  assumes "storage_ok d" and "0 \<le> rp_minRetainedCommits policy"
    and "pruneCommitLog policy nowMs part d = (horizon, removed, d')"
  shows "storage_ok d' \<and> getHorizonSeq d' part = horizon \<and> getHorizonSeq d part \<le> horizon \<and> db_rows d' = db_rows d \<and>
    filter (\<lambda>c. co_partition c \<noteq> part \<or> horizon < co_commitSeq c) (db_commits d') =
      filter (\<lambda>c. co_partition c \<noteq> part \<or> horizon < co_commitSeq c) (db_commits d) \<and>
    (getHorizonSeq d part < horizon \<longrightarrow> horizon \<le> max 0 (getMaxCommitSeq d part - rp_minRetainedCommits policy) \<and>
       (\<forall>c\<in>set (activeCursors policy nowMs part d).
          horizon \<le> max 0 (max c (getCommitSeqBefore d part (nowMs - rp_ageForceMs policy)))))"
proof -
  note fields = pruneCommitLog_fields [of policy nowMs part d, unfolded assms(3) fst_conv snd_conv]
  have ok: "storage_ok d'" using pruneCommitLog_ok [OF assms(1,2), of nowMs part] assms(3) by simp
  have mono: "getHorizonSeq d part \<le> horizon"
    using assms(3) by (auto simp: pruneCommitLog_def Let_def case_prod_unfold split: if_splits)
  have "horizon = max 0 (prune_target policy nowMs part d)" if "getHorizonSeq d part < horizon"
    using that assms(3) by (cases rule: pruneCommitLog_cases [of policy nowMs part d]) auto
  then have floors: "horizon \<le> max 0 (getMaxCommitSeq d part - rp_minRetainedCommits policy)"
      "\<And>c. c \<in> set (activeCursors policy nowMs part d) \<Longrightarrow> horizon \<le> max 0 (max c (getCommitSeqBefore d part (nowMs - rp_ageForceMs policy)))"
    if "getHorizonSeq d part < horizon"
    using that prune_target_floors [where policy = policy and nowMs = nowMs and part = part and d = d] by fastforce+
  have "filter (\<lambda>c. co_partition c \<noteq> part \<or> horizon < co_commitSeq c) (db_commits d') =
      filter (\<lambda>c. co_partition c \<noteq> part \<or> horizon < co_commitSeq c) (db_commits d)"
    by (auto simp: fields(4) delete_where_def intro!: filter_cong)
  then show ?thesis using ok mono floors fields(1,3) by auto
qed

theorem prune_keeps_floors_witness:
  "\<exists>removed. pruneCommitLog sample_policy 100 (js ''p'') sample_after = (1, removed, sample_pruned) \<and>
     getHorizonSeq sample_after (js ''p'') = 0 \<and> storage_ok sample_pruned \<and> getHorizonSeq sample_pruned (js ''p'') = 1"
proof -
  obtain removed where run: "pruneCommitLog sample_policy 100 (js ''p'') sample_after = (1, removed, sample_pruned)" using sample_prune by blast
  show ?thesis using run prune_keeps_floors [OF sample_ok(3) _ run] sample_after_facts(4) by (auto simp: sample_policy_def)
qed

text \<open>C31. The horizon a pull checks is read once, before the commits: when pruning passes the cursor in
  between, the section still answers as active, delivers nothing and moves the cursor past the
  pruned commits, although the client has not seen them.\<close>

theorem stale_horizon_skips:
  assumes "log_ok (rd n)" "scope_filter_ok (sn_effective plan)" and "maxSeq \<le> getHorizonSeq (rd n) (pu_part env)"
    and "sn_active plan" "sb_bootstrapState (sn_frame plan) = None" "epoch \<noteq> []" "1 \<le> pl_limitCommits limits"
    and "horizonSeq \<le> sb_cursor (sn_frame plan)" "0 \<le> sb_cursor (sn_frame plan)" "sb_cursor (sn_frame plan) \<le> maxSeq"
  shows "subscriptionSection fuel env rd schema limits plan maxSeq horizonSeq (Some epoch)
      \<lparr>xs_frames = [], xs_store = store, xs_read = n\<rparr> =
    Inr (\<lparr>sr_nextCursor = maxSeq, sr_active = True\<rparr>,
      \<lparr>xs_frames = [sub_start (sb_id (sn_frame plan)) SubActive '''' (sn_effective plan) False, sub_end maxSeq None],
       xs_store = store, xs_read = n + 1\<rparr>)"
proof -
  have "log_seqs (rd n) (pu_part env) (sb_cursor (sn_frame plan)) maxSeq = []"
  proof (rule ccontr)
    assume "log_seqs (rd n) (pu_part env) (sb_cursor (sn_frame plan)) maxSeq \<noteq> []"
    then obtain s where "s \<in> set (log_seqs (rd n) (pu_part env) (sb_cursor (sn_frame plan)) maxSeq)" by fastforce
    then show False using assms(1,3) by (fastforce simp: log_seqs_set log_ok_def commit_key_def)
  qed
  then have "matching_commits (rd n) (pu_part env) (sb_table (sn_frame plan)) (sn_effective plan) (sb_cursor (sn_frame plan)) maxSeq = []"
    by (simp add: matching_commits_def List.map_filter_simps)
  then have "incrementalSection env rd limits plan maxSeq n = ([], maxSeq)"
    using readCommitWindow_spec [OF assms(1), of "\<lparr>cw_table = sb_table (sn_frame plan), cw_scopeFilter = sn_effective plan,
        cw_afterSeq = sb_cursor (sn_frame plan), cw_throughSeq = maxSeq, cw_limitChanges = pl_limitCommits limits + 1\<rparr>" "pu_part env"] assms
    by (simp add: incrementalSection_def Let_def)
  then show ?thesis using assms(4-) by (simp add: subscriptionSection_def parseBootstrapToken_def Let_def)
qed

theorem stale_horizon_skips_witness:
  "\<exists>st. subscriptionSection 0 sample_pull_env (\<lambda>_. sample_pruned) sample_compiled sample_limits sample_plan 1 0 (Some [0])
       \<lparr>xs_frames = [], xs_store = sample_store, xs_read = 0\<rparr> = Inr (\<lparr>sr_nextCursor = 1, sr_active = True\<rparr>, st) \<and>
     client_apply (js ''p'') (xs_frames st) (\<lambda>_. None) = (\<lambda>_. None) \<and>
     sample_view sample_pruned (js ''p'', js ''t'', js ''r'') = Some (js ''p'', js ''t'', sample_stored)"
proof -
  obtain removed where run: "pruneCommitLog sample_policy 100 (js ''p'') sample_after = (1, removed, sample_pruned)" using sample_prune by blast
  have step: "step_ok sample_after sample_pruned" using prune_step [OF run _ sample_ok(3,4)] by (simp add: sample_policy_def)
  have "getHorizonSeq sample_pruned (js ''p'') = 1" "db_rows sample_pruned = db_rows sample_after"
    using pruneCommitLog_fields(1,3) [of sample_policy 100 "js ''p''" sample_after] run by simp_all
  then show ?thesis
    using stale_horizon_skips [of "\<lambda>_. sample_pruned" 0 sample_plan 1 sample_pull_env "[0]" sample_limits 0 0 sample_compiled sample_store]
      sample_plan_fields step
    by (simp add: step_ok_def storage_ok_def sub_start_def sub_end_def)
       (simp add: visible_def placed_row_at_def sample_after_facts find_by_def in_view_def sample_stored_def sample_scopes_def matchesEffective_def js_def)
qed

section \<open>Bootstrap\<close>

text \<open>The segment of a bootstrap page decodes to exactly the rows of the page, in their order: for every
  row its server version and the values its stored payload decodes to, under the table's name,
  schema version and columns, cut into blocks of at most 1000 rows.\<close>

theorem page_segment_exact:
  assumes "pageBytes schema plan rows = Inr bytes"
    and "str_ok (ct_name (sn_table plan))" "list_all (\<lambda>c. str_ok (rc_name c)) (ct_columns (sn_table plan))"
    and "\<And>row vs. row \<in> set rows \<Longrightarrow> decodeRow (ct_columns (sn_table plan)) (st_payload row) = Inr vs \<Longrightarrow>
      row_ok (ct_columns (sn_table plan)) vs"
  shows "\<exists>seg. decodeRowsSegment bytes = Inr seg \<and> rs_table seg = ct_name (sn_table plan) \<and> rs_schemaVersion seg = cs_version schema \<and>
    rs_columns seg = map wire_column (ct_columns (sn_table plan)) \<and>
    list_all2 (\<lambda>row out. sr_serverVersion out = st_serverVersion row \<and>
      decodeRow (ct_columns (sn_table plan)) (st_payload row) = Inr (sr_values out)) rows (concat (rs_blocks seg))"
  using assms by (rule pageBytes_exact) (auto simp: segment_rows_def)

theorem page_segment_exact_witness:
  "\<exists>bytes seg. pageBytes sample_compiled sample_plan [sample_stored] = Inr bytes \<and> decodeRowsSegment bytes = Inr seg \<and>
     concat (rs_blocks seg) = [\<lparr>sr_serverVersion = 1, sr_values = sample_values\<rparr>]"
proof -
  obtain bytes where bytes: "pageBytes sample_compiled sample_plan [sample_stored] = Inr bytes" using sample_page_bytes by blast
  have cols: "ct_columns (sn_table sample_plan) = ct_columns sample_table" "st_payload sample_stored = sample_payload"
    "st_serverVersion sample_stored = 1" by (simp_all add: sample_plan_def sample_stored_def)
  have "row_ok (ct_columns sample_table) sample_values"
    by (simp add: row_ok_def value_ok_def sample_table_def sample_values_def plain_column_def str_ok_def js_def is_high_def is_low_def)
  moreover have "str_ok (js ''t'')" "list_all (\<lambda>c. str_ok (rc_name c)) (ct_columns sample_table)"
    by (simp_all add: sample_table_def plain_column_def str_ok_def js_def is_high_def is_low_def)
  ultimately obtain seg where "decodeRowsSegment bytes = Inr seg"
    "list_all2 (\<lambda>row out. sr_serverVersion out = st_serverVersion row \<and>
      decodeRow (ct_columns sample_table) (st_payload row) = Inr (sr_values out)) [sample_stored] (concat (rs_blocks seg))"
    using page_segment_exact [OF bytes] cols sample_plan_fields(2) sample_decodes by auto
  moreover have "concat (rs_blocks seg) = [\<lparr>sr_serverVersion = 1, sr_values = sample_values\<rparr>]"
    using calculation(2) cols(2,3) sample_decodes by (auto simp: list_all2_Cons1 intro!: SegmentRow.equality)
  ultimately show ?thesis using bytes by blast
qed

text \<open>C32. The scan of an image ends and is complete: on a database at rest, one turn of the loop per 50000
  matching rows and one more collect exactly the matching rows after the start, in order.\<close>

theorem image_scan_terminates:
  assumes "storage_ok d" "ids_ok d" "scope_filter_ok (sn_effective plan)"
    and "map_of (db_tables d) (ct_name (sn_table plan)) \<noteq> None"
    and "length (matching_rows d (pu_part env) (ct_name (sn_table plan)) (sn_effective plan) after) < 50000 * fuel"
  shows "\<exists>n'. imageRows fuel env (\<lambda>_. d) plan (Some after) n rows =
    Inr (rows @ matching_rows d (pu_part env) (ct_name (sn_table plan)) (sn_effective plan) after, n')"
  using assms by (intro imageRows_all) (simp_all add: storage_ok_def)

theorem image_scan_terminates_witness:
  "\<exists>n'. imageRows 1 sample_pull_env (\<lambda>_. sample_after) sample_plan (Some []) 0 [] = Inr ([sample_stored], n')"
  using image_scan_terminates [OF sample_ok(3,4), of sample_plan sample_pull_env "[]" 1 0 "[]"] sample_plan_fields sample_matching
  by (simp add: sample_after_facts)

text \<open>A resume token is taken up where it was written: a section that presents the token of an
  unfinished bootstrap continues at its row cursor under the same pin, as long as the horizon has
  not passed the pin; otherwise it starts again at a new pin. Every answer carries the pin as its
  cursor and, while rows are left, the token of the next page.\<close>

theorem bootstrap_resumes:
  assumes "sb_bootstrapState (sn_frame plan) = Some (token_text asOf (sb_table (sn_frame plan)) cur)" and "safe_nat asOf"
    and "sn_active plan" "epoch \<noteq> []"
  shows "subscriptionSection fuel env rd schema limits plan maxSeq horizonSeq (Some epoch) st =
    (let pin = (if horizonSeq \<le> asOf then asOf else maxSeq); start = (if horizonSeq \<le> asOf then cur else None) in
     bindE (bootstrapSegments fuel env rd schema limits plan pin start epoch
              (yield_frame (sub_start (sb_id (sn_frame plan)) SubActive '''' (sn_effective plan) True) st)) (\<lambda>(complete, rowCursor, st1).
       Inr (\<lparr>sr_nextCursor = pin, sr_active = True\<rparr>,
            yield_frame (sub_end pin (if complete then None else Some (token_text pin (sb_table (sn_frame plan)) rowCursor))) st1)))"
  using assms by (rule section_resumes)

theorem bootstrap_resumes_witness:
  "\<exists>st. subscriptionSection 0 sample_pull_env (\<lambda>_. sample_after) sample_compiled sample_limits
     (sample_plan\<lparr>sn_frame := (sn_frame sample_plan)\<lparr>sb_bootstrapState := Some (token_text 0 (js ''t'') None)\<rparr>\<rparr>) 1 0 (Some [0])
     \<lparr>xs_frames = [], xs_store = sample_store, xs_read = 0\<rparr> = Inr (\<lparr>sr_nextCursor = 0, sr_active = True\<rparr>, st)"
proof -
  let ?plan = "sample_plan\<lparr>sn_frame := (sn_frame sample_plan)\<lparr>sb_bootstrapState := Some (token_text 0 (js ''t'') None)\<rparr>\<rparr>"
  obtain bytes where bytes: "pageBytes sample_compiled sample_plan [sample_stored] = Inr bytes" using sample_page_bytes by blast
  have same: "pageBytes sample_compiled ?plan = pageBytes sample_compiled sample_plan" "snapshot_query ?plan = snapshot_query sample_plan"
    by (simp_all add: fun_eq_iff pageBytes_def snapshot_query_def)
  have mask: "\<not> accepts sample_limits ACCEPT_SQLITE" "nat (pl_maxSnapshotPages sample_limits) = Suc 0"
    by (simp_all add: accepts_def sample_limits_def ACCEPT_SQLITE_def bit_1_iff)
  have "\<exists>out. bootstrapSegments 0 sample_pull_env (\<lambda>_. sample_after) sample_compiled sample_limits ?plan 0 None [0]
      (yield_frame (sub_start (sb_id (sn_frame ?plan)) SubActive '''' (sn_effective ?plan) True)
        \<lparr>xs_frames = [], xs_store = sample_store, xs_read = 0\<rparr>) = Inr out"
    using sample_page bytes
    by (auto simp: bootstrapSegments_def mask same sample_plan_fields liftPS_def liftPD_def Let_def case_prod_unfold)
  then show ?thesis
    using bootstrap_resumes [of ?plan 0 None "[0]" 0 sample_pull_env "\<lambda>_. sample_after" sample_compiled sample_limits 1 0
        "\<lparr>xs_frames = [], xs_store = sample_store, xs_read = 0\<rparr>"] sample_plan_fields
    by (auto simp: safe_nat_def max_safe_def case_prod_unfold)
qed

section \<open>Segments\<close>

text \<open>C33. A segment is handed out only under an authorization that holds now: the bytes hash to the requested
  id, they belong to the partition and its current log epoch and have not expired, and the scopes
  granted at this moment, intersected with the requested ones, have the digest the segment was
  built for.\<close>

theorem download_authorized:
  assumes "downloadSegment sha256 schema part logEpoch resolved nowMs segmentId scopesHeader store = Inr (rec, bytes)"
    and "segments_ok sha256 store"
  shows "segmentIdFor sha256 bytes = segmentId \<and> sm_partition rec = part \<and> sm_logEpoch rec = logEpoch \<and> nowMs < sm_expiresAtMs rec \<and>
    (\<exists>requested effective. parseScopesHeader scopesHeader = Inr requested \<and>
       computeEffective requested resolved = EffActive effective \<and> sm_scopeDigest rec = scopeDigest sha256 effective)"
  using assms(1)
proof (rule downloadSegment_Inr)
  fix requested effective
  assume get: "seg_get segmentId store = Some (rec, bytes)" and auth: "sm_partition rec = part" "sm_logEpoch rec = logEpoch"
    "nowMs < sm_expiresAtMs rec" "parseScopesHeader scopesHeader = Inr requested"
    "computeEffective requested resolved = EffActive effective" "sm_scopeDigest rec = scopeDigest sha256 effective"
  have "(segmentId, rec, bytes) \<in> set (ms_entries store)" using get by (simp add: seg_get_def map_of_SomeD)
  then have "segmentId = segmentIdFor sha256 bytes" using assms(2) by (auto simp: segments_ok_def)
  then show ?thesis using auth by blast
qed

definition sample_metadata :: "jsstring \<Rightarrow> SegmentMetadata" where
  "sample_metadata part = \<lparr>sm_partition = part, sm_logEpoch = js ''e'', sm_table = js ''t'', sm_schemaVersion = 1, sm_mediaType = MediaRows,
     sm_scopeDigest = scopeDigest (\<lambda>b. b) sample_scopes, sm_asOfCommitSeq = 1, sm_rowCount = 1, sm_rowCursor = None, sm_nextRowCursor = None\<rparr>"

definition sample_segments :: MemorySegmentStore where
  "sample_segments = snd (seg_put (\<lambda>b. b) (sample_metadata (js ''p'')) [1, 2] 0 sample_store)"

definition sample_header :: jsstring where
  "sample_header = json_stringify (JObject [(js ''o'', JArray [JString (js ''x'')])])"

lemma sample_header_parses: "parseScopesHeader sample_header = Inr sample_scopes"
proof -
  have "json_parse sample_header = Some (JObject [(js ''o'', JArray [JString (js ''x'')])])"
    unfolding sample_header_def by (rule json_parse_stringify) simp
  then show ?thesis by (simp add: parseScopesHeader_def sample_scopes_def)
qed

lemma sample_segments_ok: "segments_ok (\<lambda>b. b) sample_segments"
  unfolding sample_segments_def by (rule segments_ok_put) (simp add: segments_ok_def sample_store_def newMemorySegmentStore_def)

lemma sample_download:
  "\<exists>rec. downloadSegment (\<lambda>b. b) sample_compiled (js ''p'') (js ''e'') (ResolvedOk [(js ''o'', [js ''x''])]) 5
     (segmentIdFor (\<lambda>b. b) [1, 2]) sample_header sample_segments = Inr (rec, [1, 2])"
proof -
  let ?rec = "fst (seg_put (\<lambda>b. b) (sample_metadata (js ''p'')) [1, 2] 0 sample_store)"
  have get: "seg_get (segmentIdFor (\<lambda>b. b) [1, 2]) sample_segments = Some (?rec, [1, 2])"
    by (simp add: sample_segments_def seg_get_put)
  have rec: "sm_partition ?rec = js ''p''" "sm_logEpoch ?rec = js ''e''" "sm_table ?rec = js ''t''" "sm_expiresAtMs ?rec = 86400000"
    "sm_scopeDigest ?rec = scopeDigest (\<lambda>b. b) sample_scopes"
    by (simp_all add: seg_put_def Let_def sample_metadata_def SegmentMetadata.defs SegmentRecord.defs sample_store_def newMemorySegmentStore_def
        DEFAULT_SEGMENT_TTL_MS_def)
  have eff: "computeEffective sample_scopes (ResolvedOk [(js ''o'', [js ''x''])]) = EffActive sample_scopes"
    by (simp add: computeEffective_spec sample_scopes_def granted_def scope_allowed_def)
  have vars: "\<not> list_ex (\<lambda>(key, vs). key \<notin> set (ct_declaredVariables sample_table) \<or> star \<in> set vs) sample_scopes"
    unfolding sample_scopes_def by (simp add: sample_table_def star_def js_def)
  show ?thesis
    using vars by (simp add: downloadSegment_def get rec sample_compiled_def sample_header_parses eff)
qed

theorem download_authorized_witness:
  "segments_ok (\<lambda>b. b) sample_segments \<and> (\<exists>rec. downloadSegment (\<lambda>b. b) sample_compiled (js ''p'') (js ''e'') (ResolvedOk [(js ''o'', [js ''x''])]) 5
     (segmentIdFor (\<lambda>b. b) [1, 2]) sample_header sample_segments = Inr (rec, [1, 2]) \<and> sm_partition rec = js ''p'' \<and> 5 < sm_expiresAtMs rec)"
proof -
  obtain rec where run: "downloadSegment (\<lambda>b. b) sample_compiled (js ''p'') (js ''e'') (ResolvedOk [(js ''o'', [js ''x''])]) 5
     (segmentIdFor (\<lambda>b. b) [1, 2]) sample_header sample_segments = Inr (rec, [1, 2])" using sample_download by blast
  show ?thesis using download_authorized [OF run sample_segments_ok] run sample_segments_ok by blast
qed

text \<open>C34. Identical bytes share one entry of the store whatever they were stored for, so a put for another
  partition takes the entry over: the descriptor handed out before answers as unknown although
  its bytes are still stored and it has not expired.\<close>

theorem shared_segment_lost:
  assumes "downloadSegment sha256 schema part logEpoch resolved nowMs (segmentIdFor sha256 bytes) scopesHeader store = Inr (rec, bytes)"
    and "sm_partition m \<noteq> part"
  shows "downloadSegment sha256 schema part logEpoch resolved nowMs (segmentIdFor sha256 bytes) scopesHeader
      (snd (seg_put sha256 m bytes t store)) = Inl SegmentNotFound \<and>
    (\<exists>rec'. seg_get (segmentIdFor sha256 bytes) (snd (seg_put sha256 m bytes t store)) = Some (rec', bytes))"
  using shared_entry_lost [OF assms(2)] by (simp add: seg_get_put)

theorem shared_segment_lost_witness:
  "(\<exists>rec. downloadSegment (\<lambda>b. b) sample_compiled (js ''p'') (js ''e'') (ResolvedOk [(js ''o'', [js ''x''])]) 5
     (segmentIdFor (\<lambda>b. b) [1, 2]) sample_header sample_segments = Inr (rec, [1, 2])) \<and>
   downloadSegment (\<lambda>b. b) sample_compiled (js ''p'') (js ''e'') (ResolvedOk [(js ''o'', [js ''x''])]) 5
     (segmentIdFor (\<lambda>b. b) [1, 2]) sample_header (snd (seg_put (\<lambda>b. b) (sample_metadata (js ''q'')) [1, 2] 1 sample_segments)) =
     Inl SegmentNotFound"
proof -
  obtain rec where run: "downloadSegment (\<lambda>b. b) sample_compiled (js ''p'') (js ''e'') (ResolvedOk [(js ''o'', [js ''x''])]) 5
     (segmentIdFor (\<lambda>b. b) [1, 2]) sample_header sample_segments = Inr (rec, [1, 2])" using sample_download by blast
  have "sm_partition (sample_metadata (js ''q'')) \<noteq> js ''p''" by (simp add: sample_metadata_def js_def)
  from shared_segment_lost [OF run this] show ?thesis using run by blast
qed

end
