(* ===== verification/Client_Schema.thy ===== *)
theory Client_Schema
  imports Scopes Tables Frames
begin

text \<open>
  The client schema and its value conversions: \<open>web-client/src/schema.ts\<close> and \<open>naming.ts\<close>.
  \<open>compileClientSchema\<close> with every error it throws, one constructor of \<open>ClientSchemaError\<close> per
  \<open>throw\<close>; the conversions between row values, cells of the local database and the JSON form of
  the outbox. Local DDL and the full-text projections are text handed to SQLite and left out.
\<close>

section \<open>Naming\<close>

abbreviation underscore :: code_unit where "underscore \<equiv> 95"

definition is_letter :: "code_unit \<Rightarrow> bool" where
  "is_letter u \<longleftrightarrow> 65 \<le> unat u \<and> unat u \<le> 90 \<or> 97 \<le> unat u \<and> unat u \<le> 122"

definition is_digit :: "code_unit \<Rightarrow> bool" where
  "is_digit u \<longleftrightarrow> 48 \<le> unat u \<and> unat u \<le> 57"

text \<open>\<open>/^_*[A-Za-z][A-Za-z0-9_]*$/\<close>\<close>

definition MAPPABLE_RE :: "jsstring \<Rightarrow> bool" where
  "MAPPABLE_RE name \<longleftrightarrow>
     (case dropWhile (\<lambda>u. u = underscore) name of
        [] \<Rightarrow> False
      | u # us \<Rightarrow> is_letter u \<and> list_all (\<lambda>v. is_letter v \<or> is_digit v \<or> v = underscore) us)"

text \<open>\<open>split('_')\<close> without the empty parts.\<close>

function split_parts :: "jsstring \<Rightarrow> jsstring list" where
  "split_parts s =
     (let rest = dropWhile (\<lambda>u. u = underscore) s in
      if rest = [] then [] else takeWhile (\<lambda>u. u \<noteq> underscore) rest # split_parts (dropWhile (\<lambda>u. u \<noteq> underscore) rest))"
  by pat_completeness auto
termination
proof (relation "measure length", goal_cases)
  case (2 s rest)
  then obtain u us where rest: "dropWhile (\<lambda>u. u = underscore) s = u # us" by (cases "dropWhile (\<lambda>u. u = underscore) s") auto
  then have "u \<noteq> underscore" using hd_dropWhile [of "\<lambda>u. u = underscore" s] by simp
  then have "length (dropWhile (\<lambda>u. u \<noteq> underscore) (u # us)) \<le> length us" by (simp add: length_dropWhile_le)
  moreover have "length (u # us) \<le> length s" using length_dropWhile_le [of "\<lambda>u. u = underscore" s] rest by simp
  ultimately show ?case using 2 rest by simp
qed simp

declare split_parts.simps [simp del]

definition upper_unit :: "code_unit \<Rightarrow> code_unit" where
  "upper_unit u = (if 97 \<le> unat u \<and> unat u \<le> 122 then u - 32 else u)"

definition capitalize :: "jsstring \<Rightarrow> jsstring" where
  "capitalize s = map upper_unit (take 1 s) @ drop 1 s"

definition snakeToCamel :: "jsstring \<Rightarrow> jsstring" where
  "snakeToCamel name =
     (if \<not> MAPPABLE_RE name then name
      else
        (let lead = takeWhile (\<lambda>u. u = underscore) name;
             bare = drop (length lead) name;
             trail = rev (takeWhile (\<lambda>u. u = underscore) (rev bare));
             middle = take (length bare - length trail) bare in
         case split_parts middle of
           [] \<Rightarrow> name
         | first # rest \<Rightarrow> lead @ first @ concat (map capitalize rest) @ trail))"

section \<open>Schemas\<close>

record ClientIndexSpec =
  ci_name :: jsstring
  ci_columns :: "jsstring list"
  ci_unique :: bool

record ClientFtsIndexSpec =
  cx_name :: jsstring
  cx_columns :: "jsstring list"
  cx_tokenize :: jsstring

record ClientTableSchema =
  ck_name :: jsstring
  ck_columns :: "RowColumn list"
  ck_primaryKey :: jsstring
  ck_scopes :: "ScopePatternSpec list"
  ck_indexes :: "ClientIndexSpec list option"
  ck_ftsIndexes :: "ClientFtsIndexSpec list option"

record ClientSchema =
  cq_version :: int
  cq_tables :: "ClientTableSchema list"

record CompiledClientTable =
  lt_name :: jsstring
  lt_columns :: "RowColumn list"
  lt_primaryKey :: jsstring
  lt_primaryKeyIndex :: nat
  lt_columnIndex :: "(jsstring \<times> nat) list"
  lt_columnIndexByCamel :: "(jsstring \<times> nat) list"
  lt_scopeColumnByVariable :: "(jsstring \<times> jsstring) list"
  lt_scopePrefixByVariable :: "(jsstring \<times> jsstring) list"
  lt_indexes :: "ClientIndexSpec list"
  lt_ftsIndexes :: "ClientFtsIndexSpec list"
  lt_hasEncryptedColumns :: bool

record CompiledClientSchema =
  ls_version :: int
  ls_tables :: "(jsstring \<times> CompiledClientTable) list"

datatype ClientSchemaError =
    CDuplicateTable jsstring
  | CTableConflicts jsstring
  | CDuplicateColumn jsstring jsstring
  | CUnknownPrimaryKey jsstring jsstring
  | CNoScopePattern jsstring
  | CBadScopePattern jsstring jsstring
  | CUnknownScopeColumn jsstring jsstring
  | CAmbiguousVariable jsstring jsstring
  | CIndexConflicts jsstring jsstring
  | CUnknownIndexColumn jsstring jsstring
  | CFtsConflicts jsstring jsstring
  | CFtsColumnCount jsstring jsstring
  | CFtsRepeatedColumn jsstring jsstring
  | CFtsUnknownColumn jsstring jsstring
  | CFtsNotText jsstring jsstring
  | CFtsTokenizer jsstring jsstring

definition localColumnType :: "RowColumn \<Rightarrow> ColumnType" where
  "localColumnType column =
     (if rc_encrypted column = Some True then (case rc_declaredType column of None \<Rightarrow> rc_type column | Some ty \<Rightarrow> ty)
      else rc_type column)"

definition ALLOWED_FTS_TOKENIZERS :: "jsstring list" where
  "ALLOWED_FTS_TOKENIZERS = [js ''unicode61'', js ''unicode61 remove_diacritics 0'', js ''unicode61 remove_diacritics 1'',
     js ''unicode61 remove_diacritics 2'', js ''porter unicode61'', js ''trigram'']"

fun clientColumnIndex :: "jsstring \<Rightarrow> RowColumn list \<Rightarrow> nat \<Rightarrow> (jsstring \<times> nat) list \<Rightarrow> ClientSchemaError + (jsstring \<times> nat) list" where
  "clientColumnIndex t [] i columnIndex = Inr columnIndex"
| "clientColumnIndex t (column # cs) i columnIndex =
     (if map_of columnIndex (rc_name column) \<noteq> None then Inl (CDuplicateColumn t (rc_name column))
      else clientColumnIndex t cs (Suc i) (columnIndex @ [(rc_name column, i)]))"

text \<open>The scope loop fills the two maps of a variable: its column and its prefix.\<close>

fun clientScopes ::
    "jsstring \<Rightarrow> (jsstring \<times> nat) list \<Rightarrow> ScopePatternSpec list \<Rightarrow> (jsstring \<times> jsstring) list \<Rightarrow> (jsstring \<times> jsstring) list
     \<Rightarrow> ClientSchemaError + ((jsstring \<times> jsstring) list \<times> (jsstring \<times> jsstring) list)" where
  "clientScopes t columnIndex [] columnBy prefixBy = Inr (columnBy, prefixBy)"
| "clientScopes t columnIndex (spec # specs) columnBy prefixBy =
     (let pattern = (case spec of PatternShorthand s \<Rightarrow> s | PatternExplicit p c \<Rightarrow> p) in
      case PATTERN_RE pattern of
        None \<Rightarrow> Inl (CBadScopePattern t pattern)
      | Some (prefix, variable) \<Rightarrow>
          (let column = (case spec of PatternShorthand s \<Rightarrow> variable | PatternExplicit p c \<Rightarrow> c) in
           if map_of columnIndex column = None then Inl (CUnknownScopeColumn t column)
           else if (case map_of columnBy variable of None \<Rightarrow> False | Some existing \<Rightarrow> existing \<noteq> column)
           then Inl (CAmbiguousVariable t variable)
           else clientScopes t columnIndex specs (AList.update variable column columnBy) (AList.update variable prefix prefixBy)))"

text \<open>The camel-case aliases; \<open>ambiguous\<close> collects the aliases to drop at the end.\<close>

fun camelLoop ::
    "(jsstring \<times> nat) list \<Rightarrow> RowColumn list \<Rightarrow> nat \<Rightarrow> (jsstring \<times> nat) list \<Rightarrow> jsstring list \<Rightarrow> (jsstring \<times> nat) list \<times> jsstring list" where
  "camelLoop columnIndex [] i byCamel ambiguous = (byCamel, ambiguous)"
| "camelLoop columnIndex (column # cs) i byCamel ambiguous =
     (let alias = snakeToCamel (rc_name column) in
      if alias = rc_name column \<or> map_of columnIndex alias \<noteq> None then camelLoop columnIndex cs (Suc i) byCamel ambiguous
      else if map_of byCamel alias \<noteq> None then camelLoop columnIndex cs (Suc i) byCamel (alias # ambiguous)
      else camelLoop columnIndex cs (Suc i) (byCamel @ [(alias, i)]) ambiguous)"

definition columnIndexByCamel :: "(jsstring \<times> nat) list \<Rightarrow> RowColumn list \<Rightarrow> (jsstring \<times> nat) list" where
  "columnIndexByCamel columnIndex columns =
     (let (byCamel, ambiguous) = camelLoop columnIndex columns 0 [] [] in filter (\<lambda>(alias, _). alias \<notin> set ambiguous) byCamel)"

fun clientIndexes ::
    "jsstring \<Rightarrow> (jsstring \<times> nat) list \<Rightarrow> ClientIndexSpec list \<Rightarrow> jsstring list \<Rightarrow> ClientSchemaError + jsstring list" where
  "clientIndexes t columnIndex [] names = Inr names"
| "clientIndexes t columnIndex (index # is) names =
     (if ci_name index \<in> set names then Inl (CIndexConflicts t (ci_name index))
      else if list_ex (\<lambda>c. map_of columnIndex c = None) (ci_columns index) then Inl (CUnknownIndexColumn t (ci_name index))
      else clientIndexes t columnIndex is (names @ [ci_name index]))"

fun ftsColumns :: "jsstring \<Rightarrow> RowColumn list \<Rightarrow> jsstring list \<Rightarrow> jsstring list \<Rightarrow> ClientSchemaError + unit" where
  "ftsColumns t columns [] seen = Inr ()"
| "ftsColumns t columns (c # cs) seen =
     (if c \<in> set seen then Inl (CFtsRepeatedColumn t c)
      else (case find (\<lambda>column. rc_name column = c) columns of
              None \<Rightarrow> Inl (CFtsUnknownColumn t c)
            | Some column \<Rightarrow> if localColumnType column \<noteq> TString then Inl (CFtsNotText t c) else ftsColumns t columns cs (c # seen)))"

fun clientFtsIndexes ::
    "jsstring \<Rightarrow> RowColumn list \<Rightarrow> ClientFtsIndexSpec list \<Rightarrow> jsstring list \<Rightarrow> ClientSchemaError + jsstring list" where
  "clientFtsIndexes t columns [] names = Inr names"
| "clientFtsIndexes t columns (index # is) names =
     (if cx_name index \<in> set names then Inl (CFtsConflicts t (cx_name index))
      else if cx_columns index = [] \<or> 32 < length (cx_columns index) then Inl (CFtsColumnCount t (cx_name index))
      else bindE (ftsColumns t columns (cx_columns index) []) (\<lambda>_.
        if cx_tokenize index \<notin> set ALLOWED_FTS_TOKENIZERS then Inl (CFtsTokenizer t (cx_name index))
        else clientFtsIndexes t columns is (names @ [cx_name index])))"

definition compileClientTable :: "ClientTableSchema \<Rightarrow> jsstring list \<Rightarrow> ClientSchemaError + (CompiledClientTable \<times> jsstring list)" where
  "compileClientTable table names =
     bindE (clientColumnIndex (ck_name table) (ck_columns table) 0 []) (\<lambda>columnIndex.
     case map_of columnIndex (ck_primaryKey table) of
       None \<Rightarrow> Inl (CUnknownPrimaryKey (ck_name table) (ck_primaryKey table))
     | Some primaryKeyIndex \<Rightarrow>
         if ck_scopes table = [] then Inl (CNoScopePattern (ck_name table))
         else bindE (clientScopes (ck_name table) columnIndex (ck_scopes table) [] []) (\<lambda>(columnBy, prefixBy).
           (let indexes = (case ck_indexes table of None \<Rightarrow> [] | Some is \<Rightarrow> is);
                fts = (case ck_ftsIndexes table of None \<Rightarrow> [] | Some is \<Rightarrow> is) in
            bindE (clientIndexes (ck_name table) columnIndex indexes names) (\<lambda>names1.
            bindE (clientFtsIndexes (ck_name table) (ck_columns table) fts names1) (\<lambda>names2.
              Inr (\<lparr>lt_name = ck_name table, lt_columns = ck_columns table, lt_primaryKey = ck_primaryKey table,
                    lt_primaryKeyIndex = primaryKeyIndex, lt_columnIndex = columnIndex,
                    lt_columnIndexByCamel = columnIndexByCamel columnIndex (ck_columns table),
                    lt_scopeColumnByVariable = columnBy, lt_scopePrefixByVariable = prefixBy, lt_indexes = indexes,
                    lt_ftsIndexes = fts,
                    lt_hasEncryptedColumns = list_ex (\<lambda>c. rc_encrypted c = Some True) (ck_columns table)\<rparr>, names2))))))"

fun compileClientTables ::
    "ClientTableSchema list \<Rightarrow> (jsstring \<times> CompiledClientTable) list \<Rightarrow> jsstring list
     \<Rightarrow> ClientSchemaError + (jsstring \<times> CompiledClientTable) list" where
  "compileClientTables [] tables names = Inr tables"
| "compileClientTables (table # ts) tables names =
     (if map_of tables (ck_name table) \<noteq> None then Inl (CDuplicateTable (ck_name table))
      else if ck_name table \<in> set names then Inl (CTableConflicts (ck_name table))
      else bindE (compileClientTable table (names @ [ck_name table])) (\<lambda>(compiled, names').
        compileClientTables ts (tables @ [(ck_name table, compiled)]) names'))"

definition compileClientSchema :: "ClientSchema \<Rightarrow> ClientSchemaError + CompiledClientSchema" where
  "compileClientSchema schema =
     bindE (compileClientTables (cq_tables schema) [] []) (\<lambda>tables. Inr \<lparr>ls_version = cq_version schema, ls_tables = tables\<rparr>)"

section \<open>Values\<close>

text \<open>A cell of the local database. Booleans are bound as 0 and 1.\<close>

datatype SqlValue = SqlNull | SqlText jsstring | SqlNumber js_number | SqlBlob "byte list"

fun toSqlValue :: "RowValue \<Rightarrow> SqlValue" where
  "toSqlValue VNull = SqlNull"
| "toSqlValue (VString s) = SqlText s"
| "toSqlValue (VNumber x) = SqlNumber x"
| "toSqlValue (VBool b) = SqlNumber (number_of_int (if b then 1 else 0))"
| "toSqlValue (VBytes bs) = SqlBlob bs"

fun plain_value :: "SqlValue \<Rightarrow> RowValue" where
  "plain_value SqlNull = VNull"
| "plain_value (SqlText s) = VString s"
| "plain_value (SqlNumber x) = VNumber x"
| "plain_value (SqlBlob bs) = VBytes bs"

definition fromSqlValue :: "RowColumn \<Rightarrow> SqlValue \<Rightarrow> RowValue" where
  "fromSqlValue column value =
     (if value = SqlNull then VNull
      else if localColumnType column = TBoolean then VBool (value \<notin> {SqlNumber 0, SqlNumber negative_zero})
      else plain_value value)"

text \<open>What an application passes for a column.\<close>

datatype AppValue = AppUndefined | AppValue RowValue

datatype ClientError =
    ClientInvalidRequest | ClientSchemaMismatch | ClientScopeRevoked | ClientUnknownTable | ClientEmptyCommit
  | ClientOutboxIncompatible | ClientLocalCorrupt | ClientDecode error | ClientDecryptFailed | EngineConstraint
  | ClientInvalidHostResponse | ClientServerError (ce_code: jsstring) (ce_retryable: bool) | ClientSegmentExpired | ClientSegmentMismatch
  | ClientFetchFailed

fun normalizeLoop :: "CompiledClientTable \<Rightarrow> (jsstring \<times> AppValue) list \<Rightarrow> (jsstring \<times> AppValue) list \<Rightarrow> ClientError + (jsstring \<times> AppValue) list" where
  "normalizeLoop table [] normalized = Inr normalized"
| "normalizeLoop table ((key, value) # rest) normalized =
     (case (case map_of (lt_columnIndex table) key of Some i \<Rightarrow> Some i | None \<Rightarrow> map_of (lt_columnIndexByCamel table) key) of
        None \<Rightarrow> Inl ClientInvalidRequest
      | Some index \<Rightarrow>
          (let sqlName = rc_name (lt_columns table ! index) in
           if map_of normalized sqlName \<noteq> None then Inl ClientInvalidRequest
           else normalizeLoop table rest (normalized @ [(sqlName, value)])))"

definition normalizeRecordKeys :: "CompiledClientTable \<Rightarrow> (jsstring \<times> AppValue) list \<Rightarrow> ClientError + (jsstring \<times> AppValue) list" where
  "normalizeRecordKeys table entries = normalizeLoop table entries []"

definition coerceSqlRepresentation :: "RowColumn \<Rightarrow> RowValue \<Rightarrow> RowValue" where
  "coerceSqlRepresentation column value =
     (if localColumnType column = TBoolean then
        (case value of VNumber x \<Rightarrow> if x \<in> {0, negative_zero} then VBool False else if x = number_of_int 1 then VBool True else value
                     | _ \<Rightarrow> value)
      else value)"

definition recordToRowValues :: "CompiledClientTable \<Rightarrow> (jsstring \<times> AppValue) list \<Rightarrow> ClientError + RowValue list" where
  "recordToRowValues table entries =
     bindE (normalizeRecordKeys table entries) (\<lambda>normalized.
       mapE (\<lambda>column. case map_of normalized (rc_name column) of
           Some (AppValue value) \<Rightarrow>
             if value = VNull then (if rc_nullable column then Inr VNull else Inl ClientInvalidRequest)
             else Inr (coerceSqlRepresentation column value)
         | _ \<Rightarrow> if rc_nullable column then Inr VNull else Inl ClientInvalidRequest) (lt_columns table))"

section \<open>The JSON form\<close>

text \<open>\<open>JsonBytes\<close> is the object \<open>{ $bytes: hex }\<close>.\<close>

datatype JsonRowValue = JsonNull | JsonString jsstring | JsonNumber js_number | JsonBool bool | JsonBytes jsstring

definition hex_digit :: "nat \<Rightarrow> code_unit" where
  "hex_digit n = (if n < 10 then of_nat (48 + n) else of_nat (87 + n))"

definition bytesToHex :: "byte list \<Rightarrow> jsstring" where
  "bytesToHex bytes = concat (map (\<lambda>b. [hex_digit (unat b div 16), hex_digit (unat b mod 16)]) bytes)"

text \<open>
  \<open>Number.parseInt(text, 16)\<close> of two characters, assigned to a byte: the hexadecimal digits up to
  the first other character, and \<open>NaN\<close>, stored as 0, without one. Blanks and signs are skipped by
  \<open>parseInt\<close>; the hexadecimal text of the outbox has none.
\<close>

definition hex_value :: "code_unit \<Rightarrow> nat option" where
  "hex_value u =
     (let n = unat u in
      if 48 \<le> n \<and> n \<le> 57 then Some (n - 48) else if 97 \<le> n \<and> n \<le> 102 then Some (n - 87)
      else if 65 \<le> n \<and> n \<le> 70 then Some (n - 55) else None)"

definition parse_hex :: "code_unit \<Rightarrow> code_unit \<Rightarrow> byte" where
  "parse_hex a b =
     (case hex_value a of None \<Rightarrow> 0
      | Some h \<Rightarrow> (case hex_value b of None \<Rightarrow> of_nat h | Some l \<Rightarrow> of_nat (16 * h + l)))"

fun hexToBytes :: "jsstring \<Rightarrow> byte list" where
  "hexToBytes (a # b # rest) = parse_hex a b # hexToBytes rest"
| "hexToBytes _ = []"

fun rowValueToJson :: "RowValue \<Rightarrow> JsonRowValue" where
  "rowValueToJson VNull = JsonNull"
| "rowValueToJson (VString s) = JsonString s"
| "rowValueToJson (VNumber x) = JsonNumber x"
| "rowValueToJson (VBool b) = JsonBool b"
| "rowValueToJson (VBytes bs) = JsonBytes (bytesToHex bs)"

fun jsonToRowValue :: "JsonRowValue \<Rightarrow> RowValue" where
  "jsonToRowValue JsonNull = VNull"
| "jsonToRowValue (JsonString s) = VString s"
| "jsonToRowValue (JsonNumber x) = VNumber x"
| "jsonToRowValue (JsonBool b) = VBool b"
| "jsonToRowValue (JsonBytes hex) = VBytes (hexToBytes hex)"

text \<open>
  \<open>JSON.parse\<close> after \<open>JSON.stringify\<close>: a number that is not finite becomes \<open>null\<close> and \<open>-0\<close> becomes 0.
\<close>

definition finite_number :: "js_number \<Rightarrow> bool" where
  "finite_number x \<longleftrightarrow> unat x div 2 ^ 52 mod 2048 \<noteq> 2047"

fun reparsed :: "JsonRowValue \<Rightarrow> JsonRowValue" where
  "reparsed (JsonNumber x) = (if \<not> finite_number x then JsonNull else if x = negative_zero then JsonNumber 0 else JsonNumber x)"
| "reparsed v = v"

text \<open>A value that survives the way through the outbox.\<close>

fun json_safe :: "RowValue \<Rightarrow> bool" where
  "json_safe (VNumber x) \<longleftrightarrow> finite_number x \<and> x \<noteq> negative_zero"
| "json_safe v \<longleftrightarrow> True"

lemma client_hex_digit: "n < 16 \<Longrightarrow> hex_value (hex_digit n) = Some n"
proof -
  assume n: "n < 16"
  have "unat (of_nat (48 + n) :: code_unit) = 48 + n" "unat (of_nat (87 + n) :: code_unit) = 87 + n"
    using n by (intro unat_of_nat_16; simp)+
  then show ?thesis using n by (simp add: hex_value_def hex_digit_def Let_def del: of_nat_add)
qed

lemma hexToBytes_bytesToHex: "hexToBytes (bytesToHex bs) = bs"
proof (induction bs)
  case (Cons b bs)
  have "unat b < 256" using unsigned_less [of b] by simp
  then have "hex_value (hex_digit (unat b div 16)) = Some (unat b div 16)" "hex_value (hex_digit (unat b mod 16)) = Some (unat b mod 16)"
    by (simp_all add: client_hex_digit)
  then have "parse_hex (hex_digit (unat b div 16)) (hex_digit (unat b mod 16)) = b"
    by (simp add: parse_hex_def del: of_nat_add of_nat_mult)
  then show ?case using Cons by (simp add: bytesToHex_def)
qed (simp add: bytesToHex_def)

lemma json_value_roundtrip: "json_safe v \<Longrightarrow> jsonToRowValue (reparsed (rowValueToJson v)) = v"
  by (cases v) (simp_all add: hexToBytes_bytesToHex)

end
