(* ===== verification/Client_Apply.thy ===== *)
theory Client_Apply
  imports Client_Schema
begin

text \<open>
  Local application of server data: \<open>web-client/src/apply.ts\<close>. The synced tables of the local
  database are one list of rows tagged with their table. SQLite itself is a parameter where its
  behaviour goes beyond the statements: \<open>ev_store\<close> is the value a column keeps of a bound value
  (type affinity) and \<open>ev_eq\<close> compares a cell with a bound text under that affinity. Decryption is
  the parameter \<open>ev_decrypt\<close>, absent without an encryption configuration.
\<close>

section \<open>Local tables\<close>

record local_row =
  lr_cells :: "SqlValue list"
  lr_version :: int

type_synonym local_rows = "(jsstring \<times> local_row) list"

record client_env =
  ev_store :: "RowColumn \<Rightarrow> SqlValue \<Rightarrow> SqlValue"
  ev_eq :: "RowColumn \<Rightarrow> SqlValue \<Rightarrow> jsstring \<Rightarrow> bool"
  ev_decrypt :: "(CompiledClientTable \<Rightarrow> RowValue list \<Rightarrow> RowValue list option) option"

definition cell :: "nat \<Rightarrow> local_row \<Rightarrow> SqlValue" where
  "cell i row = (if i < length (lr_cells row) then lr_cells row ! i else SqlNull)"

definition local_key :: "nat \<Rightarrow> jsstring \<times> local_row \<Rightarrow> jsstring \<times> SqlValue" where
  "local_key i = (\<lambda>(t, row). (t, cell i row))"

text \<open>The local table as a keyed row store.\<close>

interpretation local: row_store "local_key i" "\<lambda>s k. find_by (local_key i) k s" "upsert_by (local_key i)"
  "\<lambda>k. delete_where (\<lambda>x. local_key i x = k)" for i
  by unfold_locales (simp_all add: find_by_upsert find_by_delete_keys [where Q = "\<lambda>x. x = _"])

section \<open>Row statements\<close>

text \<open>The constraints of the local table: \<open>NOT NULL\<close> columns and unique indexes.\<close>

definition column_cell :: "CompiledClientTable \<Rightarrow> local_row \<Rightarrow> jsstring \<Rightarrow> SqlValue" where
  "column_cell table row column =
     (case map_of (lt_columnIndex table) column of None \<Rightarrow> SqlNull | Some i \<Rightarrow> cell i row)"

definition index_clash :: "CompiledClientTable \<Rightarrow> local_row \<Rightarrow> local_row \<Rightarrow> ClientIndexSpec \<Rightarrow> bool" where
  "index_clash table row other index \<longleftrightarrow> ci_unique index \<and>
     list_all (\<lambda>c. column_cell table row c \<noteq> SqlNull \<and> column_cell table other c = column_cell table row c) (ci_columns index)"

definition violates :: "CompiledClientTable \<Rightarrow> local_row \<Rightarrow> local_rows \<Rightarrow> bool" where
  "violates table row rows \<longleftrightarrow>
     list_ex (\<lambda>(c, v). \<not> rc_nullable c \<and> v = SqlNull) (zip (lt_columns table) (lr_cells row)) \<or>
     list_ex (\<lambda>(t, other). t = lt_name table \<and> cell (lt_primaryKeyIndex table) other \<noteq> cell (lt_primaryKeyIndex table) row \<and>
       list_ex (index_clash table row other) (lt_indexes table)) rows"

definition stored_cells :: "client_env \<Rightarrow> CompiledClientTable \<Rightarrow> RowValue list \<Rightarrow> SqlValue list" where
  "stored_cells env table vals = map (\<lambda>(c, v). ev_store env c (toSqlValue v)) (zip (lt_columns table) vals)"

text \<open>\<open>INSERT \<dots> ON CONFLICT (primary key) DO UPDATE\<close>; a \<open>NULL\<close> key never conflicts.\<close>

definition upsertLocalRow :: "client_env \<Rightarrow> CompiledClientTable \<Rightarrow> RowValue list \<Rightarrow> int \<Rightarrow> local_rows \<Rightarrow> ClientError + local_rows" where
  "upsertLocalRow env table vals version rows =
     (let row = \<lparr>lr_cells = stored_cells env table vals, lr_version = version\<rparr> in
      if length vals \<noteq> length (lt_columns table) \<or> violates table row rows then Inl EngineConstraint
      else if cell (lt_primaryKeyIndex table) row = SqlNull then Inr (rows @ [(lt_name table, row)])
      else Inr (upsert_by (local_key (lt_primaryKeyIndex table)) (lt_name table, row) rows))"

definition key_is :: "client_env \<Rightarrow> CompiledClientTable \<Rightarrow> jsstring \<Rightarrow> jsstring \<times> local_row \<Rightarrow> bool" where
  "key_is env table rowId = (\<lambda>(t, row). t = lt_name table \<and>
     ev_eq env (lt_columns table ! lt_primaryKeyIndex table) (cell (lt_primaryKeyIndex table) row) rowId)"

definition deleteLocalRow :: "client_env \<Rightarrow> CompiledClientTable \<Rightarrow> jsstring \<Rightarrow> local_rows \<Rightarrow> local_rows" where
  "deleteLocalRow env table rowId rows = delete_where (key_is env table rowId) rows"

definition selectLocalRow :: "client_env \<Rightarrow> CompiledClientTable \<Rightarrow> jsstring \<Rightarrow> local_rows \<Rightarrow> local_row option" where
  "selectLocalRow env table rowId rows = map_option snd (find (key_is env table rowId) rows)"

section \<open>Commits\<close>

datatype Resolved =
    ResolvedDelete CompiledClientTable jsstring
  | ResolvedUpsert CompiledClientTable "RowValue list" int

definition decrypted :: "client_env \<Rightarrow> CompiledClientTable \<Rightarrow> RowValue list \<Rightarrow> ClientError + RowValue list" where
  "decrypted env table vals =
     (case ev_decrypt env of
        None \<Rightarrow> Inr vals
      | Some decrypt \<Rightarrow>
          if lt_hasEncryptedColumns table
          then (case decrypt table vals of None \<Rightarrow> Inl ClientDecryptFailed | Some vs \<Rightarrow> Inr vs) else Inr vals)"

definition liftC :: "error + 'a \<Rightarrow> ClientError + 'a" where
  "liftC r = (case r of Inl e \<Rightarrow> Inl (ClientDecode e) | Inr x \<Rightarrow> Inr x)"

lemma liftC_eq_Inr: "liftC r = Inr x \<longleftrightarrow> r = Inr x"
  by (auto simp: liftC_def split: sum.splits)

definition resolveChange :: "client_env \<Rightarrow> CompiledClientSchema \<Rightarrow> jsstring list \<Rightarrow> CommitChange \<Rightarrow> ClientError + Resolved" where
  "resolveChange env schema tables change =
     (if \<not> (0 \<le> cc_tableIndex change \<and> nat (cc_tableIndex change) < length tables) then Inl ClientInvalidRequest
      else (case map_of (ls_tables schema) (tables ! nat (cc_tableIndex change)) of
          None \<Rightarrow> Inl ClientSchemaMismatch
        | Some table \<Rightarrow>
            if cc_op change = Delete then Inr (ResolvedDelete table (cc_rowId change))
            else (case (cc_row change, cc_rowVersion change) of
                (Some row, Some version) \<Rightarrow>
                  bindE (liftC (decodeRow (lt_columns table) row)) (\<lambda>vals.
                  bindE (decrypted env table vals) (\<lambda>vals'. Inr (ResolvedUpsert table vals' version)))
              | _ \<Rightarrow> Inl ClientInvalidRequest)))"

fun applyResolved :: "client_env \<Rightarrow> Resolved list \<Rightarrow> local_rows \<Rightarrow> ClientError + local_rows" where
  "applyResolved env [] rows = Inr rows"
| "applyResolved env (ResolvedDelete table rowId # rest) rows = applyResolved env rest (deleteLocalRow env table rowId rows)"
| "applyResolved env (ResolvedUpsert table vals version # rest) rows =
     bindE (upsertLocalRow env table vals version rows) (applyResolved env rest)"

text \<open>Every change is resolved first; the writes are one transaction.\<close>

definition applyCommitFrame :: "client_env \<Rightarrow> CompiledClientSchema \<Rightarrow> CommitFrame \<Rightarrow> local_rows \<Rightarrow> ClientError + local_rows" where
  "applyCommitFrame env schema frame rows =
     bindE (mapE (resolveChange env schema (cf_tables frame)) (cf_changes frame)) (\<lambda>resolved. applyResolved env resolved rows)"

section \<open>Scoped deletes\<close>

text \<open>
  The clauses of a scope map: \<open>Inl\<close> when a variable has no column, \<open>None\<close> when a variable has no
  value before that.
\<close>

fun scopeClauses :: "CompiledClientTable \<Rightarrow> scope_map \<Rightarrow> (jsstring \<times> jsstring list) list \<Rightarrow> ClientError + (jsstring \<times> jsstring list) list option" where
  "scopeClauses table [] clauses = Inr (Some clauses)"
| "scopeClauses table ((variable, vals) # rest) clauses =
     (case map_of (lt_scopeColumnByVariable table) variable of
        None \<Rightarrow> Inl ClientScopeRevoked
      | Some column \<Rightarrow> if vals = [] then Inr None else scopeClauses table rest (clauses @ [(column, vals)]))"

definition column_of :: "CompiledClientTable \<Rightarrow> jsstring \<Rightarrow> RowColumn" where
  "column_of table column = lt_columns table ! (case map_of (lt_columnIndex table) column of None \<Rightarrow> 0 | Some i \<Rightarrow> i)"

definition clauses_match :: "client_env \<Rightarrow> CompiledClientTable \<Rightarrow> (jsstring \<times> jsstring list) list \<Rightarrow> jsstring \<times> local_row \<Rightarrow> bool" where
  "clauses_match env table clauses = (\<lambda>(t, row). t = lt_name table \<and>
     list_all (\<lambda>(column, vals). list_ex (ev_eq env (column_of table column) (column_cell table row column)) vals) clauses)"

definition deleteScopedRows :: "client_env \<Rightarrow> CompiledClientTable \<Rightarrow> scope_map \<Rightarrow> local_rows \<Rightarrow> ClientError + local_rows" where
  "deleteScopedRows env table effective rows =
     (if effective = [] then Inr rows
      else bindE (scopeClauses table effective []) (\<lambda>clauses.
        case clauses of None \<Rightarrow> Inr rows | Some cs \<Rightarrow> Inr (delete_where (clauses_match env table cs) rows)))"

definition scopedRowsExist :: "client_env \<Rightarrow> CompiledClientTable \<Rightarrow> scope_map \<Rightarrow> local_rows \<Rightarrow> bool" where
  "scopedRowsExist env table effective rows =
     (effective \<noteq> [] \<and> (case scopeClauses table effective [] of Inr (Some cs) \<Rightarrow> list_ex (clauses_match env table cs) rows | _ \<Rightarrow> False))"

text \<open>
  Eviction spares the pinned rows. \<open>String(row.pk)\<close> of the survivors is \<open>cell_text\<close>.
\<close>

fun cell_text :: "SqlValue \<Rightarrow> jsstring" where
  "cell_text SqlNull = js ''null''"
| "cell_text (SqlText s) = s"
| "cell_text (SqlNumber x) = number_to_string x"
| "cell_text (SqlBlob bs) = join_comma (map (\<lambda>b. nat_digits (unat b)) bs)"

definition evictScopedRows ::
    "client_env \<Rightarrow> CompiledClientTable \<Rightarrow> scope_map \<Rightarrow> jsstring list \<Rightarrow> local_rows \<Rightarrow> ClientError + (bool \<times> local_rows)" where
  "evictScopedRows env table effective pinned rows =
     (if effective = [] then Inr (False, rows)
      else bindE (scopeClauses table effective []) (\<lambda>clauses.
        case clauses of
          None \<Rightarrow> Inr (False, rows)
        | Some cs \<Rightarrow>
            (let pk = lt_primaryKeyIndex table;
                 is_pinned = (\<lambda>(t, row). cell pk row = SqlNull \<or> list_ex (ev_eq env (lt_columns table ! pk) (cell pk row)) pinned);
                 rows' = delete_where (\<lambda>x. clauses_match env table cs x \<and> (pinned = [] \<or> \<not> is_pinned x)) rows in
             Inr (pinned \<noteq> [] \<and> list_ex (\<lambda>x. clauses_match env table cs x \<and> cell_text (cell pk (snd x)) \<in> set pinned) rows', rows'))))"

section \<open>Segments\<close>

definition column_matches :: "RowColumn \<Rightarrow> RowColumn \<Rightarrow> bool" where
  "column_matches expected actual \<longleftrightarrow>
     rc_name expected = rc_name actual \<and> rc_type expected = rc_type actual \<and> rc_nullable expected = rc_nullable actual"

definition validateSegmentColumns :: "CompiledClientSchema \<Rightarrow> CompiledClientTable \<Rightarrow> RowsSegment \<Rightarrow> ClientError + unit" where
  "validateSegmentColumns schema table segment =
     (if rs_table segment \<noteq> lt_name table \<or> rs_schemaVersion segment \<noteq> ls_version schema
         \<or> length (rs_columns segment) \<noteq> length (lt_columns table)
         \<or> \<not> list_all2 column_matches (lt_columns table) (rs_columns segment)
      then Inl ClientSchemaMismatch else Inr ())"

fun upsertRows :: "client_env \<Rightarrow> CompiledClientTable \<Rightarrow> (RowValue list \<times> int) list \<Rightarrow> local_rows \<Rightarrow> ClientError + local_rows" where
  "upsertRows env table [] rows = Inr rows"
| "upsertRows env table ((vals, version) # rest) rows = bindE (upsertLocalRow env table vals version rows) (upsertRows env table rest)"

text \<open>
  The block loop: each block is decrypted first and then one transaction, so an error keeps the
  blocks before it. The result is the number of rows applied and the local tables.
\<close>

fun applyBlocks ::
    "client_env \<Rightarrow> CompiledClientTable \<Rightarrow> scope_map \<Rightarrow> bool \<Rightarrow> SegmentRow list list \<Rightarrow> nat \<Rightarrow> local_rows
     \<Rightarrow> (ClientError + nat) \<times> local_rows" where
  "applyBlocks env table effective clear [] applied rows = (Inr applied, rows)"
| "applyBlocks env table effective clear (block # blocks) applied rows =
     (case mapE (\<lambda>row. bindE (decrypted env table (sr_values row)) (\<lambda>vals. Inr (vals, sr_serverVersion row))) block of
        Inl e \<Rightarrow> (Inl e, rows)
      | Inr new \<Rightarrow>
          if \<not> clear \<and> new = [] then applyBlocks env table effective False blocks applied rows
          else (case bindE (if clear then deleteScopedRows env table effective rows else Inr rows) (upsertRows env table new) of
              Inl e \<Rightarrow> (Inl e, rows)
            | Inr rows' \<Rightarrow> applyBlocks env table effective False blocks (applied + length new) rows'))"

definition applyRowsSegment ::
    "client_env \<Rightarrow> CompiledClientSchema \<Rightarrow> CompiledClientTable \<Rightarrow> RowsSegment \<Rightarrow> bool \<Rightarrow> scope_map \<Rightarrow> local_rows
     \<Rightarrow> (ClientError + nat) \<times> local_rows" where
  "applyRowsSegment env schema table segment clearFirst effective rows =
     (case validateSegmentColumns schema table segment of
        Inl e \<Rightarrow> (Inl e, rows)
      | Inr _ \<Rightarrow> applyBlocks env table effective clearFirst (if rs_blocks segment = [] then [[]] else rs_blocks segment) 0 rows)"

text \<open>
  An attached image as the client reads it: the rows of its metadata table, the column names of
  the data table and its rows with their version.
\<close>

record SqliteSegmentDescriptor =
  sd_table :: jsstring
  sd_rowCount :: int
  sd_asOfCommitSeq :: int
  sd_scopeDigest :: jsstring

record image_meta =
  im_format :: int
  im_table :: jsstring
  im_schemaVersion :: int
  im_asOfCommitSeq :: int
  im_scopeDigest :: jsstring
  im_rowCount :: int

record sqlite_image =
  si_meta :: "image_meta list"
  si_columns :: "jsstring list"
  si_rows :: "(SqlValue list \<times> int) list"

definition image_meta_ok :: "CompiledClientSchema \<Rightarrow> CompiledClientTable \<Rightarrow> SqliteSegmentDescriptor \<Rightarrow> sqlite_image \<Rightarrow> bool" where
  "image_meta_ok schema table descriptor img \<longleftrightarrow>
     (case si_meta img of
        [m] \<Rightarrow> im_format m = 1 \<and> im_table m = lt_name table \<and> im_schemaVersion m = ls_version schema \<and>
               im_asOfCommitSeq m = sd_asOfCommitSeq descriptor \<and> im_scopeDigest m = sd_scopeDigest descriptor \<and>
               im_rowCount m = sd_rowCount descriptor
      | _ \<Rightarrow> False)"

text \<open>\<open>INSERT \<dots> SELECT\<close> from the image, row by row under the same conflict clause.\<close>

fun copyImageRows :: "client_env \<Rightarrow> CompiledClientTable \<Rightarrow> (SqlValue list \<times> int) list \<Rightarrow> local_rows \<Rightarrow> ClientError + local_rows" where
  "copyImageRows env table [] rows = Inr rows"
| "copyImageRows env table ((cells, version) # rest) rows =
     (let row = \<lparr>lr_cells = map (\<lambda>(c, v). ev_store env c v) (zip (lt_columns table) cells), lr_version = version\<rparr> in
      if violates table row rows then Inl EngineConstraint
      else copyImageRows env table rest
        (if cell (lt_primaryKeyIndex table) row = SqlNull then rows @ [(lt_name table, row)]
         else upsert_by (local_key (lt_primaryKeyIndex table)) (lt_name table, row) rows))"

definition applySqliteSegment ::
    "(byte list \<Rightarrow> sqlite_image option) \<Rightarrow> client_env \<Rightarrow> CompiledClientSchema \<Rightarrow> CompiledClientTable \<Rightarrow> byte list \<Rightarrow> SqliteSegmentDescriptor
     \<Rightarrow> bool \<Rightarrow> scope_map \<Rightarrow> local_rows \<Rightarrow> ClientError + (nat \<times> local_rows)" where
  "applySqliteSegment attach env schema table bytes descriptor clearFirst effective rows =
     (if sd_table descriptor \<noteq> lt_name table then Inl ClientInvalidRequest
      else (case attach bytes of
          None \<Rightarrow> Inl ClientInvalidRequest
        | Some img \<Rightarrow>
            if \<not> image_meta_ok schema table descriptor img then Inl ClientInvalidRequest
            else if si_columns img \<noteq> map rc_name (lt_columns table) @ [js ''_syncular_version''] then Inl ClientSchemaMismatch
            else bindE (if clearFirst then deleteScopedRows env table effective rows else Inr rows) (\<lambda>rows1.
                 bindE (copyImageRows env table (si_rows img) rows1) (\<lambda>rows2.
                   if int (length (si_rows img)) \<noteq> sd_rowCount descriptor then Inl ClientInvalidRequest
                   else Inr (length (si_rows img), rows2)))))"

section \<open>Text keys\<close>

text \<open>
  What the text columns of SQLite do: they keep a bound text and compare it byte by byte.
\<close>

definition text_column :: "RowColumn \<Rightarrow> bool" where
  "text_column c \<longleftrightarrow> localColumnType c \<in> {TString, TJson, TBlobRef}"

definition text_engine :: "client_env \<Rightarrow> bool" where
  "text_engine env \<longleftrightarrow> (\<forall>c. text_column c \<longrightarrow>
     (\<forall>s. ev_store env c (SqlText s) = SqlText s) \<and> (\<forall>v r. ev_eq env c v r \<longleftrightarrow> v = SqlText r))"

definition text_keyed :: "CompiledClientTable \<Rightarrow> bool" where
  "text_keyed table \<longleftrightarrow> lt_primaryKeyIndex table < length (lt_columns table) \<and> text_column (lt_columns table ! lt_primaryKeyIndex table)"

definition local_at :: "CompiledClientTable \<Rightarrow> local_rows \<Rightarrow> jsstring \<Rightarrow> local_row option" where
  "local_at table rows r = map_option snd (find_by (local_key (lt_primaryKeyIndex table)) (lt_name table, SqlText r) rows)"

lemma key_is_text:
  assumes "text_engine env" "text_keyed table"
  shows "key_is env table r x \<longleftrightarrow> local_key (lt_primaryKeyIndex table) x = (lt_name table, SqlText r)"
  using assms by (cases x) (auto simp: key_is_def local_key_def text_engine_def text_keyed_def)

lemma local_at_delete:
  assumes "text_engine env" "text_keyed table"
  shows "local_at table (deleteLocalRow env table r rows) r' = (if r' = r then None else local_at table rows r')"
proof -
  have "deleteLocalRow env table r rows = delete_where (\<lambda>x. local_key (lt_primaryKeyIndex table) x = (lt_name table, SqlText r)) rows"
    using key_is_text [OF assms] by (simp add: deleteLocalRow_def delete_where_def)
  then show ?thesis by (simp add: local_at_def local.get_del)
qed

lemma select_local_at:
  assumes "text_engine env" "text_keyed table"
  shows "selectLocalRow env table r rows = local_at table rows r"
proof -
  have "key_is env table r = (\<lambda>x. local_key (lt_primaryKeyIndex table) x = (lt_name table, SqlText r))"
    using key_is_text [OF assms] by (intro ext)
  then show ?thesis by (simp add: selectLocalRow_def local_at_def find_by_def)
qed

definition kept_row :: "client_env \<Rightarrow> CompiledClientTable \<Rightarrow> RowValue list \<Rightarrow> int \<Rightarrow> local_row" where
  "kept_row env table vals version = \<lparr>lr_cells = stored_cells env table vals, lr_version = version\<rparr>"

lemma kept_row_key:
  assumes "text_engine env" "text_keyed table" "length vals = length (lt_columns table)" "vals ! lt_primaryKeyIndex table = VString r"
  shows "cell (lt_primaryKeyIndex table) (kept_row env table vals version) = SqlText r"
  using assms by (auto simp: cell_def kept_row_def stored_cells_def text_keyed_def text_engine_def)

lemma local_at_upsert:
  assumes "text_engine env" "text_keyed table" "vals ! lt_primaryKeyIndex table = VString r"
    and up: "upsertLocalRow env table vals version rows = Inr rows'"
  shows "local_at table rows' r' = (if r' = r then Some (kept_row env table vals version) else local_at table rows r')"
proof -
  have len: "length vals = length (lt_columns table)" using up by (auto simp: upsertLocalRow_def Let_def split: if_splits)
  note key = kept_row_key [OF assms(1,2) len assms(3), of version]
  then have "rows' = upsert_by (local_key (lt_primaryKeyIndex table)) (lt_name table, kept_row env table vals version) rows"
    using up by (auto simp: upsertLocalRow_def Let_def kept_row_def split: if_splits)
  then show ?thesis using key by (simp add: local_at_def local.get_put) (simp add: local_key_def)
qed

text \<open>Other tables are not touched.\<close>

lemma find_by_upsert_other:
  "fst x \<noteq> t \<Longrightarrow> find_by (local_key j) (t, k) (upsert_by (local_key i) x rows) = find_by (local_key j) (t, k) rows"
proof (induction rows)
  case Nil
  then show ?case by (cases x) (simp add: find_by_Cons local_key_def)
next
  case (Cons y ys)
  then show ?case by (cases x; cases y) (auto simp: find_by_Cons local_key_def)
qed

lemma local_at_upsert_other:
  assumes "upsertLocalRow env table vals version rows = Inr rows'" and "lt_name other \<noteq> lt_name table"
  shows "local_at other rows' r = local_at other rows r"
  using assms find_by_upsert_other [of "(lt_name table, _)" "lt_name other"]
  by (auto simp: upsertLocalRow_def Let_def local_at_def find_by_append find_by_Cons local_key_def split: if_splits option.splits)

lemma local_at_delete_other:
  assumes "lt_name other \<noteq> lt_name table"
  shows "local_at other (deleteLocalRow env table rowId rows) r = local_at other rows r"
  using assms by (induction rows)
    (auto simp: deleteLocalRow_def delete_where_def local_at_def find_by_Cons local_key_def key_is_def split: prod.splits)

section \<open>What a scoped delete removes\<close>

text \<open>The columns and values a scope map asks for, when every variable has a column and a value.\<close>

definition scope_clauses :: "CompiledClientTable \<Rightarrow> scope_map \<Rightarrow> (jsstring \<times> jsstring list) list" where
  "scope_clauses table effective = map (\<lambda>(variable, vals). (the (map_of (lt_scopeColumnByVariable table) variable), vals)) effective"

lemma scopeClauses_spec:
  "scopeClauses table effective acc =
     (if list_all (\<lambda>(x, vs). map_of (lt_scopeColumnByVariable table) x \<noteq> None \<and> vs \<noteq> []) effective
      then Inr (Some (acc @ scope_clauses table effective))
      else if (case find (\<lambda>(x, vs). map_of (lt_scopeColumnByVariable table) x = None \<or> vs = []) effective of
          None \<Rightarrow> False | Some (x, _) \<Rightarrow> map_of (lt_scopeColumnByVariable table) x = None)
      then Inl ClientScopeRevoked else Inr None)"
  by (induction table effective acc rule: scopeClauses.induct) (auto simp: scope_clauses_def split: option.splits)

lemma deleteScopedRows_exact:
  assumes "effective \<noteq> []" and "list_all (\<lambda>(x, vs). map_of (lt_scopeColumnByVariable table) x \<noteq> None \<and> vs \<noteq> []) effective"
  shows "deleteScopedRows env table effective rows = Inr (filter (\<lambda>x. \<not> clauses_match env table (scope_clauses table effective) x) rows)"
  using assms by (simp add: deleteScopedRows_def scopeClauses_spec delete_where_def)

lemma evictScopedRows_exact:
  assumes "effective \<noteq> []" and "list_all (\<lambda>(x, vs). map_of (lt_scopeColumnByVariable table) x \<noteq> None \<and> vs \<noteq> []) effective"
    and "text_engine env" "text_keyed table" and "evictScopedRows env table effective pinned rows = Inr (deferred, rows')"
    and keys: "\<And>x. x \<in> set rows \<Longrightarrow> fst x = lt_name table \<Longrightarrow> \<exists>r. cell (lt_primaryKeyIndex table) (snd x) = SqlText r"
  shows "rows' = filter (\<lambda>x. \<not> (clauses_match env table (scope_clauses table effective) x \<and>
      cell (lt_primaryKeyIndex table) (snd x) \<notin> SqlText ` set pinned)) rows"
    and "deferred \<longleftrightarrow> (\<exists>x\<in>set rows'. clauses_match env table (scope_clauses table effective) x)"
proof -
  let ?pk = "lt_primaryKeyIndex table" and ?m = "clauses_match env table (scope_clauses table effective)"
  have eq: "ev_eq env (lt_columns table ! ?pk) v r \<longleftrightarrow> v = SqlText r" for v r
    using assms(3,4) by (simp add: text_engine_def text_keyed_def)
  have run: "rows' = delete_where (\<lambda>x. ?m x \<and> (pinned = [] \<or> \<not> (case x of (t, row) \<Rightarrow> cell ?pk row = SqlNull \<or>
        list_ex (ev_eq env (lt_columns table ! ?pk) (cell ?pk row)) pinned))) rows"
    "deferred \<longleftrightarrow> pinned \<noteq> [] \<and> list_ex (\<lambda>x. ?m x \<and> cell_text (cell ?pk (snd x)) \<in> set pinned) rows'"
    using assms(1,2,5) by (auto simp: evictScopedRows_def scopeClauses_spec Let_def)
  have pin: "(case x of (t, row) \<Rightarrow> cell ?pk row = SqlNull \<or> list_ex (ev_eq env (lt_columns table ! ?pk) (cell ?pk row)) pinned) \<longleftrightarrow>
      cell ?pk (snd x) \<in> SqlText ` set pinned" if x: "x \<in> set rows" "?m x" for x
  proof -
    have "fst x = lt_name table" using x(2) by (auto simp: clauses_match_def)
    then obtain r where "cell ?pk (snd x) = SqlText r" using keys x(1) by blast
    then show ?thesis by (cases x) (auto simp: eq list_ex_iff)
  qed
  show rows': "rows' = filter (\<lambda>x. \<not> (?m x \<and> cell ?pk (snd x) \<notin> SqlText ` set pinned)) rows"
    unfolding run(1) delete_where_def using pin by (intro filter_cong) auto
  have "cell ?pk (snd x) \<in> SqlText ` set pinned \<longleftrightarrow> cell_text (cell ?pk (snd x)) \<in> set pinned" if x: "x \<in> set rows" "?m x" for x
  proof -
    have "fst x = lt_name table" using x(2) by (auto simp: clauses_match_def)
    then obtain r where "cell ?pk (snd x) = SqlText r" using keys x(1) by blast
    then show ?thesis by auto
  qed
  then have "\<exists>x\<in>set rows'. ?m x \<and> cell_text (cell ?pk (snd x)) \<in> set pinned" if "\<exists>x\<in>set rows'. ?m x"
    using that unfolding rows' by (metis (no_types, lifting) filter_is_subset mem_Collect_eq set_filter)
  then show "deferred \<longleftrightarrow> (\<exists>x\<in>set rows'. ?m x)" unfolding run(2) by (fastforce simp: list_ex_iff)
qed

end
