(* ===== verification/Client_Outbox.thy ===== *)
theory Client_Outbox
  imports Client_Apply
begin

text \<open>
  The durable outbox and the optimistic layer: \<open>web-client/src/outbox.ts\<close> and the part of
  \<open>client.ts\<close> that records mutations, applies them to the local tables, replays them and takes a
  failed commit back. Values written to a JSON column are kept as \<open>JSON.parse\<close> reads them back.
  The batches of change notifications are left out; a transaction that throws changes nothing.
\<close>

section \<open>State\<close>

record OutboxOperation =
  oo_table :: jsstring
  oo_rowId :: jsstring
  oo_op :: OpKind
  oo_baseVersion :: "int option"
  oo_values :: "(jsstring \<times> JsonRowValue) list option"
  oo_changedFields :: "jsstring list option"

record OutboxCommit =
  ob_seq :: int
  ob_clientCommitId :: jsstring
  ob_createdAtMs :: int
  ob_operations :: "OutboxOperation list"

record OutboxBeforeImage =
  bi_opIndex :: nat
  bi_existed :: bool
  bi_syncVersion :: "int option"
  bi_values :: "(jsstring \<times> JsonRowValue) list option"

text \<open>The synced tables, the outbox with its last sequence number, and the before-images by commit.\<close>

record client_db =
  cd_rows :: local_rows
  cd_outbox :: "OutboxCommit list"
  cd_outboxSeq :: int
  cd_images :: "(jsstring \<times> OutboxBeforeImage) list"

section \<open>The outbox\<close>

definition reparsed_values :: "(jsstring \<times> JsonRowValue) list \<Rightarrow> (jsstring \<times> JsonRowValue) list" where
  "reparsed_values vals = map (\<lambda>(k, v). (k, reparsed v)) vals"

definition reparsed_op :: "OutboxOperation \<Rightarrow> OutboxOperation" where
  "reparsed_op op = op\<lparr>oo_values := map_option reparsed_values (oo_values op)\<rparr>"

definition reparsed_image :: "OutboxBeforeImage \<Rightarrow> OutboxBeforeImage" where
  "reparsed_image img = img\<lparr>bi_values := map_option reparsed_values (bi_values img)\<rparr>"

definition image_key :: "jsstring \<times> OutboxBeforeImage \<Rightarrow> jsstring \<times> nat" where
  "image_key = (\<lambda>(i, img). (i, bi_opIndex img))"

fun insertImages :: "jsstring \<Rightarrow> OutboxBeforeImage list \<Rightarrow> (jsstring \<times> OutboxBeforeImage) list \<Rightarrow> ClientError + (jsstring \<times> OutboxBeforeImage) list" where
  "insertImages i [] images = Inr images"
| "insertImages i (img # rest) images =
     (if find_by image_key (i, bi_opIndex img) images \<noteq> None then Inl EngineConstraint
      else insertImages i rest (images @ [(i, reparsed_image img)]))"

definition appendOutboxCommit ::
    "jsstring \<Rightarrow> OutboxOperation list \<Rightarrow> int \<Rightarrow> OutboxBeforeImage list \<Rightarrow> client_db \<Rightarrow> ClientError + client_db" where
  "appendOutboxCommit clientCommitId operations nowMs beforeImages db =
     (if operations = [] then Inl ClientEmptyCommit
      else if find_by ob_clientCommitId clientCommitId (cd_outbox db) \<noteq> None then Inl EngineConstraint
      else bindE (insertImages clientCommitId beforeImages (cd_images db)) (\<lambda>images.
        Inr (db\<lparr>cd_outbox := cd_outbox db @ [\<lparr>ob_seq = cd_outboxSeq db + 1, ob_clientCommitId = clientCommitId, ob_createdAtMs = nowMs,
                  ob_operations = map reparsed_op operations\<rparr>],
                cd_outboxSeq := cd_outboxSeq db + 1, cd_images := images\<rparr>)))"

definition deleteOutboxCommit :: "jsstring \<Rightarrow> client_db \<Rightarrow> client_db" where
  "deleteOutboxCommit clientCommitId db =
     db\<lparr>cd_images := delete_where (\<lambda>(i, _). i = clientCommitId) (cd_images db),
        cd_outbox := delete_where (\<lambda>c. ob_clientCommitId c = clientCommitId) (cd_outbox db)\<rparr>"

definition listOutboxBeforeImages :: "client_db \<Rightarrow> jsstring \<Rightarrow> OutboxBeforeImage list" where
  "listOutboxBeforeImages db clientCommitId =
     sort_key bi_opIndex (map snd (filter (\<lambda>(i, _). i = clientCommitId) (cd_images db)))"

definition replaceOutboxBeforeImages ::
    "jsstring \<Rightarrow> OutboxBeforeImage list \<Rightarrow> (jsstring \<times> OutboxBeforeImage) list \<Rightarrow> (jsstring \<times> OutboxBeforeImage) list" where
  "replaceOutboxBeforeImages clientCommitId replacements images =
     fold (\<lambda>img ims. delete_where (\<lambda>x. image_key x = (clientCommitId, bi_opIndex img)) ims @ [(clientCommitId, reparsed_image img)])
       replacements images"

section \<open>Encoding a commit\<close>

definition orderedValues :: "CompiledClientTable \<Rightarrow> (jsstring \<times> JsonRowValue) list \<Rightarrow> ClientError + RowValue list" where
  "orderedValues table vals =
     (if list_ex (\<lambda>(key, _). map_of (lt_columnIndex table) key = None) vals then Inl ClientOutboxIncompatible
      else Inr (map (\<lambda>column. case map_of vals (rc_name column) of None \<Rightarrow> VNull | Some v \<Rightarrow> jsonToRowValue v) (lt_columns table)))"

definition encodeOutboxOperation ::
    "(CompiledClientTable \<Rightarrow> jsstring \<Rightarrow> RowValue list \<Rightarrow> RowValue list option) option \<Rightarrow> CompiledClientSchema \<Rightarrow> OutboxOperation
     \<Rightarrow> ClientError + PushOperation" where
  "encodeOutboxOperation encryption schema op =
     (if oo_op op = Delete
      then Inr \<lparr>po_table = oo_table op, po_rowId = oo_rowId op, po_op = Delete, po_baseVersion = oo_baseVersion op, po_payload = None\<rparr>
      else (case map_of (ls_tables schema) (oo_table op) of
          None \<Rightarrow> Inl ClientOutboxIncompatible
        | Some table \<Rightarrow>
            (case oo_values op of
               None \<Rightarrow> Inl ClientInvalidRequest
             | Some vals \<Rightarrow>
                 bindE (orderedValues table vals) (\<lambda>vs.
                 bindE (case encryption of
                     None \<Rightarrow> Inr vs
                   | Some encrypt \<Rightarrow>
                       if lt_hasEncryptedColumns table
                       then (case encrypt table (oo_rowId op) vs of None \<Rightarrow> Inl ClientDecryptFailed | Some ws \<Rightarrow> Inr ws) else Inr vs) (\<lambda>ws.
                 bindE (liftC (encodeRow (lt_columns table) ws)) (\<lambda>payload.
                   Inr \<lparr>po_table = oo_table op, po_rowId = oo_rowId op, po_op = Upsert, po_baseVersion = oo_baseVersion op,
                        po_payload = Some payload\<rparr>))))))"

definition encodeOutboxCommit ::
    "(CompiledClientTable \<Rightarrow> jsstring \<Rightarrow> RowValue list \<Rightarrow> RowValue list option) option \<Rightarrow> CompiledClientSchema \<Rightarrow> OutboxCommit
     \<Rightarrow> ClientError + PushCommitFrame" where
  "encodeOutboxCommit encryption schema commit =
     bindE (mapE (encodeOutboxOperation encryption schema) (ob_operations commit)) (\<lambda>operations.
       Inr \<lparr>pc_clientCommitId = ob_clientCommitId commit, pc_operations = operations\<rparr>)"

text \<open>Pending commits that write into a revoked scope.\<close>

definition op_in_scope :: "CompiledClientTable \<Rightarrow> scope_map \<Rightarrow> OutboxOperation \<Rightarrow> bool" where
  "op_in_scope table effective op \<longleftrightarrow>
     (case oo_values op of
        None \<Rightarrow> False
      | Some vals \<Rightarrow> oo_table op = lt_name table \<and>
          list_all (\<lambda>(variable, allowed).
            case map_of (lt_scopeColumnByVariable table) variable of
              None \<Rightarrow> False
            | Some column \<Rightarrow> (case map_of vals column of Some (JsonString s) \<Rightarrow> s \<in> set allowed | _ \<Rightarrow> False)) effective)"

definition dropOutboxCommitsInScope :: "CompiledClientTable \<Rightarrow> scope_map \<Rightarrow> client_db \<Rightarrow> jsstring list \<times> client_db" where
  "dropOutboxCommitsInScope table effective db =
     (if effective = [] then ([], db)
      else (let dropped = map ob_clientCommitId (filter (\<lambda>c. list_ex (op_in_scope table effective) (ob_operations c)) (cd_outbox db)) in
            (dropped, fold deleteOutboxCommit dropped db)))"

section \<open>Optimistic application\<close>

definition OPTIMISTIC_VERSION :: int where "OPTIMISTIC_VERSION = - 1"

text \<open>The values of a stored operation, in column order.\<close>

definition op_values :: "CompiledClientTable \<Rightarrow> OutboxOperation \<Rightarrow> RowValue list" where
  "op_values table op = map (\<lambda>column.
     case oo_values op of
       None \<Rightarrow> VNull
     | Some vals \<Rightarrow> (case map_of vals (rc_name column) of None \<Rightarrow> VNull | Some v \<Rightarrow> jsonToRowValue v)) (lt_columns table)"

fun applyOperationsLocally :: "client_env \<Rightarrow> CompiledClientSchema \<Rightarrow> OutboxOperation list \<Rightarrow> local_rows \<Rightarrow> ClientError + local_rows" where
  "applyOperationsLocally env schema [] rows = Inr rows"
| "applyOperationsLocally env schema (op # ops) rows =
     (case map_of (ls_tables schema) (oo_table op) of
        None \<Rightarrow> Inl ClientUnknownTable
      | Some table \<Rightarrow>
          if oo_op op = Delete then applyOperationsLocally env schema ops (deleteLocalRow env table (oo_rowId op) rows)
          else (let version = (case selectLocalRow env table (oo_rowId op) rows of
                      None \<Rightarrow> OPTIMISTIC_VERSION | Some existing \<Rightarrow> lr_version existing) in
                bindE (upsertLocalRow env table (op_values table op) version rows) (applyOperationsLocally env schema ops)))"

definition image_values :: "CompiledClientTable \<Rightarrow> local_row \<Rightarrow> (jsstring \<times> JsonRowValue) list" where
  "image_values table row =
     fold (\<lambda>(column, i) vals. AList.update (rc_name column) (rowValueToJson (fromSqlValue column (cell i row))) vals)
       (zip (lt_columns table) [0..<length (lt_columns table)]) []"

definition captureBeforeImage ::
    "client_env \<Rightarrow> CompiledClientSchema \<Rightarrow> local_rows \<Rightarrow> OutboxOperation \<Rightarrow> nat \<Rightarrow> OutboxBeforeImage" where
  "captureBeforeImage env schema rows op opIx =
     (case map_of (ls_tables schema) (oo_table op) of
        None \<Rightarrow> \<lparr>bi_opIndex = opIx, bi_existed = False, bi_syncVersion = None, bi_values = None\<rparr>
      | Some table \<Rightarrow>
          (case selectLocalRow env table (oo_rowId op) rows of
             None \<Rightarrow> \<lparr>bi_opIndex = opIx, bi_existed = False, bi_syncVersion = None, bi_values = None\<rparr>
           | Some row \<Rightarrow> \<lparr>bi_opIndex = opIx, bi_existed = True, bi_syncVersion = Some (lr_version row),
                          bi_values = Some (image_values table row)\<rparr>))"

text \<open>\<open>`${table}\<^bold>\0${rowId}`\<close>\<close>

definition op_key :: "OutboxOperation \<Rightarrow> jsstring" where
  "op_key op = oo_table op @ [0] @ oo_rowId op"

definition captureBeforeImages ::
    "client_env \<Rightarrow> CompiledClientSchema \<Rightarrow> local_rows \<Rightarrow> OutboxOperation list \<Rightarrow> jsstring set option \<Rightarrow> OutboxBeforeImage list" where
  "captureBeforeImages env schema rows operations onlyKeys =
     map (\<lambda>(op, i). captureBeforeImage env schema rows op i)
       (filter (\<lambda>(op, i). case onlyKeys of None \<Rightarrow> True | Some keys \<Rightarrow> op_key op \<in> keys) (zip operations [0..<length operations]))"

definition restoreBeforeImage ::
    "client_env \<Rightarrow> CompiledClientSchema \<Rightarrow> OutboxOperation \<Rightarrow> OutboxBeforeImage \<Rightarrow> local_rows \<Rightarrow> ClientError + local_rows" where
  "restoreBeforeImage env schema op img rows =
     (case map_of (ls_tables schema) (oo_table op) of
        None \<Rightarrow> Inr rows
      | Some table \<Rightarrow>
          if \<not> bi_existed img then Inr (deleteLocalRow env table (oo_rowId op) rows)
          else (case (bi_values img, bi_syncVersion img) of
              (Some vals, Some version) \<Rightarrow>
                upsertLocalRow env table (map (\<lambda>column. case map_of vals (rc_name column) of
                    None \<Rightarrow> VNull | Some v \<Rightarrow> jsonToRowValue v) (lt_columns table)) version rows
            | _ \<Rightarrow> Inl ClientLocalCorrupt))"

section \<open>Taking a failed commit back\<close>

fun legacyUndoOptimisticRows :: "client_env \<Rightarrow> CompiledClientSchema \<Rightarrow> OutboxOperation list \<Rightarrow> local_rows \<Rightarrow> local_rows" where
  "legacyUndoOptimisticRows env schema [] rows = rows"
| "legacyUndoOptimisticRows env schema (op # ops) rows =
     legacyUndoOptimisticRows env schema ops
       (case map_of (ls_tables schema) (oo_table op) of
          None \<Rightarrow> rows
        | Some table \<Rightarrow>
            (case selectLocalRow env table (oo_rowId op) rows of
               Some row \<Rightarrow> if oo_op op = Upsert \<and> lr_version row = OPTIMISTIC_VERSION
                            then deleteLocalRow env table (oo_rowId op) rows else rows
             | None \<Rightarrow> rows))"

text \<open>The restore loop: the first image of every key.\<close>

fun restoreLoop ::
    "client_env \<Rightarrow> CompiledClientSchema \<Rightarrow> OutboxBeforeImage list \<Rightarrow> OutboxOperation list \<Rightarrow> nat \<Rightarrow> jsstring set \<Rightarrow> local_rows
     \<Rightarrow> ClientError + local_rows" where
  "restoreLoop env schema images [] i restored rows = Inr rows"
| "restoreLoop env schema images (op # ops) i restored rows =
     (if op_key op \<in> restored then restoreLoop env schema images ops (Suc i) restored rows
      else (case find_by bi_opIndex i images of
          None \<Rightarrow> restoreLoop env schema images ops (Suc i) (insert (op_key op) restored) rows
        | Some img \<Rightarrow> bindE (restoreBeforeImage env schema op img rows)
            (restoreLoop env schema images ops (Suc i) (insert (op_key op) restored))))"

text \<open>The loop over the later commits: rebase their images of the affected rows and reapply their operations.\<close>

fun rebaseLoop ::
    "client_env \<Rightarrow> CompiledClientSchema \<Rightarrow> jsstring set \<Rightarrow> OutboxCommit list \<Rightarrow> local_rows \<Rightarrow> (jsstring \<times> OutboxBeforeImage) list
     \<Rightarrow> ClientError + (local_rows \<times> (jsstring \<times> OutboxBeforeImage) list)" where
  "rebaseLoop env schema keys [] rows images = Inr (rows, images)"
| "rebaseLoop env schema keys (later # rest) rows images =
     (let affected = filter (\<lambda>op. op_key op \<in> keys) (ob_operations later) in
      if affected = [] then rebaseLoop env schema keys rest rows images
      else (let images' = replaceOutboxBeforeImages (ob_clientCommitId later)
                  (captureBeforeImages env schema rows (ob_operations later) (Some keys)) images in
            bindE (applyOperationsLocally env schema affected rows) (\<lambda>rows'. rebaseLoop env schema keys rest rows' images')))"

definition rollbackFailedCommit :: "client_env \<Rightarrow> CompiledClientSchema \<Rightarrow> OutboxCommit \<Rightarrow> client_db \<Rightarrow> ClientError + client_db" where
  "rollbackFailedCommit env schema commit db =
     (let images = listOutboxBeforeImages db (ob_clientCommitId commit);
          complete = list_all (\<lambda>i. find_by bi_opIndex i images \<noteq> None) [0..<length (ob_operations commit)];
          keys = op_key ` set (ob_operations commit) in
      if complete then
        bindE (restoreLoop env schema images (ob_operations commit) 0 {} (cd_rows db)) (\<lambda>rows1.
          (let db1 = deleteOutboxCommit (ob_clientCommitId commit) (db\<lparr>cd_rows := rows1\<rparr>) in
           bindE (rebaseLoop env schema keys (filter (\<lambda>later. ob_seq commit < ob_seq later) (cd_outbox db1)) (cd_rows db1) (cd_images db1))
             (\<lambda>(rows2, images2). Inr (db1\<lparr>cd_rows := rows2, cd_images := images2\<rparr>))))
      else Inr (deleteOutboxCommit (ob_clientCommitId commit)
             (db\<lparr>cd_rows := legacyUndoOptimisticRows env schema (ob_operations commit) (cd_rows db)\<rparr>)))"

section \<open>Mutations\<close>

datatype MutationInput =
    MutUpsert (mi_table: jsstring) (mi_values: "(jsstring \<times> AppValue) list") (mi_baseVersion: "int option")
  | MutDelete (mi_table: jsstring) (mi_rowId: jsstring) (mi_baseVersion: "int option")

definition mutationOperation :: "CompiledClientSchema \<Rightarrow> MutationInput \<Rightarrow> jsstring list option \<Rightarrow> ClientError + OutboxOperation" where
  "mutationOperation schema mutation changedFields =
     (case map_of (ls_tables schema) (mi_table mutation) of
        None \<Rightarrow> Inl ClientUnknownTable
      | Some table \<Rightarrow>
          (case mutation of
             MutDelete t rowId baseVersion \<Rightarrow>
               Inr \<lparr>oo_table = t, oo_rowId = rowId, oo_op = Delete, oo_baseVersion = baseVersion, oo_values = None, oo_changedFields = None\<rparr>
           | MutUpsert t vals baseVersion \<Rightarrow>
               bindE (recordToRowValues table vals) (\<lambda>vs.
                 case at vs (lt_primaryKeyIndex table) of
                   Some (VString pk) \<Rightarrow>
                     if pk = [] then Inl ClientInvalidRequest
                     else Inr \<lparr>oo_table = t, oo_rowId = pk, oo_op = Upsert, oo_baseVersion = baseVersion,
                            oo_values = Some (map (\<lambda>(column, v). (rc_name column, rowValueToJson v)) (zip (lt_columns table) vs)),
                            oo_changedFields = changedFields\<rparr>
                 | _ \<Rightarrow> Inl ClientInvalidRequest)))"

definition recordMutations ::
    "client_env \<Rightarrow> CompiledClientSchema \<Rightarrow> jsstring \<Rightarrow> int \<Rightarrow> MutationInput list \<Rightarrow> jsstring list option list \<Rightarrow> client_db
     \<Rightarrow> ClientError + client_db" where
  "recordMutations env schema clientCommitId nowMs mutations changedFieldsByIndex db =
     bindE (mapE (\<lambda>(mutation, i). mutationOperation schema mutation
                    (if i < length changedFieldsByIndex then changedFieldsByIndex ! i else None))
              (zip mutations [0..<length mutations])) (\<lambda>operations.
     bindE (appendOutboxCommit clientCommitId operations nowMs (captureBeforeImages env schema (cd_rows db) operations None) db) (\<lambda>db1.
     bindE (applyOperationsLocally env schema operations (cd_rows db1)) (\<lambda>rows. Inr (db1\<lparr>cd_rows := rows\<rparr>))))"

text \<open>Every pending commit again on top of fresh server state.\<close>

definition replayOutbox :: "client_env \<Rightarrow> CompiledClientSchema \<Rightarrow> client_db \<Rightarrow> ClientError + client_db" where
  "replayOutbox env schema db =
     bindE (applyOperationsLocally env schema (concat (map ob_operations (cd_outbox db))) (cd_rows db)) (\<lambda>rows. Inr (db\<lparr>cd_rows := rows\<rparr>))"

definition pinnedRowIds :: "jsstring \<Rightarrow> client_db \<Rightarrow> jsstring list" where
  "pinnedRowIds table db =
     remdups (map oo_rowId (filter (\<lambda>op. oo_table op = table) (concat (map ob_operations (cd_outbox db)))))"

end
