(* ===== verification/Client_Outcomes.thy ===== *)
theory Client_Outcomes
  imports Client_Outbox
begin

text \<open>
  The durable journal of commit outcomes: \<open>web-client/src/outcomes.ts\<close> and \<open>resolveCommitOutcome\<close>
  of \<open>client.ts\<close>. A row keeps its values as \<open>JSON.parse\<close> reads them back; the details of a
  rejection are JSON already.
\<close>

section \<open>Records\<close>

record ConflictRecord =
  cr_clientCommitId :: jsstring
  cr_opIndex :: int
  cr_table :: jsstring
  cr_rowId :: jsstring
  cr_code :: jsstring
  cr_message :: jsstring
  cr_serverVersion :: int
  cr_serverRow :: "(jsstring \<times> RowValue) list"
  cr_operation :: "OutboxOperation option"

record RejectionRecord =
  rj_clientCommitId :: jsstring
  rj_opIndex :: int
  rj_code :: jsstring
  rj_message :: jsstring
  rj_retryable :: bool
  rj_details :: "RejectionDetails option"
  rj_operation :: "OutboxOperation option"

datatype CommitOutcomeStatus = OutApplied | OutCached | OutConflict | OutRejected

datatype CommitOutcomeResolution = ResActive | ResKeepServer | ResSuperseded | ResDismissed

datatype CommitOperationOutcome =
    ResultApplied int
  | ResultConflict ConflictRecord
  | ResultError RejectionRecord

record CommitOutcome =
  co_sequence :: int
  co_clientCommitId :: jsstring
  co_status :: CommitOutcomeStatus
  co_recordedAtMs :: int
  co_results :: "CommitOperationOutcome list"
  co_operations :: "OutboxOperation list option"
  co_resolution :: CommitOutcomeResolution
  co_resolvedAtMs :: "int option"
  co_replacementClientCommitId :: "jsstring option"

text \<open>The table with its last \<open>AUTOINCREMENT\<close> value.\<close>

record outcome_journal =
  oj_rows :: "CommitOutcome list"
  oj_seq :: int

section \<open>Operations\<close>

text \<open>\<open>decodeResults\<close> after \<open>encodeResults\<close>.\<close>

definition stored_row :: "(jsstring \<times> RowValue) list \<Rightarrow> (jsstring \<times> RowValue) list" where
  "stored_row row = map (\<lambda>(k, v). (k, jsonToRowValue (reparsed (rowValueToJson v)))) row"

fun stored_result :: "CommitOperationOutcome \<Rightarrow> CommitOperationOutcome" where
  "stored_result (ResultApplied i) = ResultApplied i"
| "stored_result (ResultConflict c) =
     ResultConflict (c\<lparr>cr_serverRow := stored_row (cr_serverRow c), cr_operation := map_option reparsed_op (cr_operation c)\<rparr>)"
| "stored_result (ResultError r) = ResultError (r\<lparr>rj_operation := map_option reparsed_op (rj_operation r)\<rparr>)"

definition commitOutcome :: "outcome_journal \<Rightarrow> jsstring \<Rightarrow> CommitOutcome option" where
  "commitOutcome journal clientCommitId = find_by co_clientCommitId clientCommitId (oj_rows journal)"

definition recordCommitOutcome ::
    "jsstring \<Rightarrow> CommitOutcomeStatus \<Rightarrow> int \<Rightarrow> CommitOperationOutcome list \<Rightarrow> OutboxOperation list option \<Rightarrow> outcome_journal
     \<Rightarrow> ClientError + outcome_journal" where
  "recordCommitOutcome clientCommitId status recordedAtMs results operations journal =
     (if commitOutcome journal clientCommitId \<noteq> None then Inl EngineConstraint
      else Inr (journal\<lparr>
        oj_rows := oj_rows journal @ [\<lparr>co_sequence = oj_seq journal + 1, co_clientCommitId = clientCommitId, co_status = status,
          co_recordedAtMs = recordedAtMs, co_results = map stored_result results,
          co_operations = map_option (map reparsed_op) operations, co_resolution = ResActive, co_resolvedAtMs = None,
          co_replacementClientCommitId = None\<rparr>],
        oj_seq := oj_seq journal + 1\<rparr>))"

definition failure :: "CommitOutcome \<Rightarrow> bool" where
  "failure row \<longleftrightarrow> co_resolution row = ResActive \<and> co_status row \<in> {OutConflict, OutRejected}"

definition positive_safe :: "int \<Rightarrow> bool" where
  "positive_safe n \<longleftrightarrow> 1 \<le> n \<and> n \<le> max_safe"

text \<open>Newest first.\<close>

definition listCommitOutcomes :: "outcome_journal \<Rightarrow> int option \<Rightarrow> bool \<Rightarrow> ClientError + CommitOutcome list" where
  "listCommitOutcomes journal limit activeOnly =
     (case limit of
        Some n \<Rightarrow> if \<not> positive_safe n then Inl ClientInvalidRequest
                  else Inr (take (nat n) (rev (sort_key co_sequence (filter (\<lambda>row. activeOnly \<longrightarrow> failure row) (oj_rows journal)))))
      | None \<Rightarrow> Inr (rev (sort_key co_sequence (filter (\<lambda>row. activeOnly \<longrightarrow> failure row) (oj_rows journal)))))"

definition persistCommitOutcomeResolution ::
    "jsstring \<Rightarrow> CommitOutcomeResolution \<Rightarrow> jsstring option \<Rightarrow> int \<Rightarrow> outcome_journal \<Rightarrow> outcome_journal" where
  "persistCommitOutcomeResolution clientCommitId resolution replacement nowMs journal =
     journal\<lparr>oj_rows := update_where (\<lambda>row. co_clientCommitId row = clientCommitId \<and> co_resolution row = ResActive)
       (\<lambda>row. row\<lparr>co_resolution := resolution, co_resolvedAtMs := Some nowMs, co_replacementClientCommitId := replacement\<rparr>) (oj_rows journal)\<rparr>"

text \<open>The oldest outcomes that are no active failure, as many as the journal is over its bound.\<close>

definition prunable :: "CommitOutcome \<Rightarrow> bool" where
  "prunable row \<longleftrightarrow> co_status row \<in> {OutApplied, OutCached} \<or> co_resolution row \<noteq> ResActive"

definition prune_candidates :: "nat \<Rightarrow> outcome_journal \<Rightarrow> CommitOutcome list" where
  "prune_candidates excess journal = take excess (sort_key co_sequence (filter prunable (oj_rows journal)))"

definition pruneCommitOutcomes :: "int \<Rightarrow> outcome_journal \<Rightarrow> ClientError + (nat \<times> outcome_journal)" where
  "pruneCommitOutcomes maxEntries journal =
     (if \<not> positive_safe maxEntries then Inl ClientInvalidRequest
      else (let excess = length (oj_rows journal) - nat maxEntries; candidates = prune_candidates excess journal in
            if excess = 0 then Inr (0, journal)
            else Inr (length candidates,
                   journal\<lparr>oj_rows := delete_where (\<lambda>row. co_sequence row \<in> co_sequence ` set candidates) (oj_rows journal)\<rparr>)))"

definition activeFailureRecords :: "CommitOutcome list \<Rightarrow> ConflictRecord list \<times> RejectionRecord list" where
  "activeFailureRecords outcomes =
     (let results = concat (map co_results (filter (\<lambda>row. co_resolution row = ResActive) outcomes)) in
      (List.map_filter (\<lambda>r. case r of ResultConflict c \<Rightarrow> Some c | _ \<Rightarrow> None) results,
       List.map_filter (\<lambda>r. case r of ResultError e \<Rightarrow> Some e | _ \<Rightarrow> None) results))"

section \<open>Resolving an outcome\<close>

datatype OutcomeError = OutcomeNotFound | OutcomeInvalid | OutcomeStore ClientError

definition resolution_allowed :: "CommitOutcomeStatus \<Rightarrow> CommitOutcomeResolution \<Rightarrow> bool" where
  "resolution_allowed status resolution \<longleftrightarrow>
     status = OutConflict \<and> resolution \<in> {ResKeepServer, ResSuperseded} \<or>
     status = OutRejected \<and> resolution = ResSuperseded \<or>
     status \<in> {OutApplied, OutCached} \<and> resolution = ResDismissed"

record failure_lists =
  fl_conflicts :: "ConflictRecord list"
  fl_rejections :: "RejectionRecord list"

definition resolveCommitOutcome ::
    "jsstring \<Rightarrow> CommitOutcomeResolution \<Rightarrow> jsstring option \<Rightarrow> int \<Rightarrow> int \<Rightarrow> outcome_journal \<times> failure_lists
     \<Rightarrow> OutcomeError + (CommitOutcome \<times> outcome_journal \<times> failure_lists)" where
  "resolveCommitOutcome clientCommitId resolution replacement nowMs maxEntries = (\<lambda>(journal, lists).
     case commitOutcome journal clientCommitId of
       None \<Rightarrow> Inl OutcomeNotFound
     | Some current \<Rightarrow>
         if co_resolution current \<noteq> ResActive then Inr (current, journal, lists)
         else if resolution = ResSuperseded \<and> (replacement = None \<or> replacement = Some [] \<or> replacement = Some clientCommitId)
         then Inl OutcomeInvalid
         else if resolution \<noteq> ResSuperseded \<and> replacement \<noteq> None then Inl OutcomeInvalid
         else if \<not> resolution_allowed (co_status current) resolution then Inl OutcomeInvalid
         else (let journal1 = persistCommitOutcomeResolution clientCommitId resolution replacement nowMs journal in
               case commitOutcome journal1 clientCommitId of
                 None \<Rightarrow> Inl OutcomeNotFound
               | Some resolved \<Rightarrow>
                   (case pruneCommitOutcomes maxEntries journal1 of
                      Inl e \<Rightarrow> Inl (OutcomeStore e)
                    | Inr (_, journal2) \<Rightarrow>
                        Inr (resolved, journal2,
                             \<lparr>fl_conflicts = filter (\<lambda>c. cr_clientCommitId c \<noteq> clientCommitId) (fl_conflicts lists),
                              fl_rejections = filter (\<lambda>r. rj_clientCommitId r \<noteq> clientCommitId) (fl_rejections lists)\<rparr>))))"

section \<open>The journal's invariant\<close>

definition journal_ok :: "outcome_journal \<Rightarrow> bool" where
  "journal_ok journal \<longleftrightarrow> distinct (map co_sequence (oj_rows journal)) \<and> distinct (map co_clientCommitId (oj_rows journal)) \<and>
     (\<forall>row\<in>set (oj_rows journal). co_sequence row \<le> oj_seq journal)"

lemma journal_ok_record:
  assumes "journal_ok journal" "recordCommitOutcome c status now results ops journal = Inr journal'"
  shows "journal_ok journal'"
  using assms by (auto simp: journal_ok_def recordCommitOutcome_def commitOutcome_def find_by_None_iff split: if_splits) force+

lemma prunable_iff: "prunable row \<longleftrightarrow> \<not> failure row"
  by (cases "co_status row") (auto simp: prunable_def failure_def)

lemma prune_kept:
  assumes "journal_ok journal" "pruneCommitOutcomes maxEntries journal = Inr (n, journal')"
  shows "oj_rows journal' = filter (\<lambda>row. row \<notin> set (prune_candidates (length (oj_rows journal) - nat maxEntries) journal)) (oj_rows journal)"
proof -
  have "inj_on co_sequence (set (oj_rows journal))" using assms(1) by (simp add: journal_ok_def distinct_map)
  moreover have "set (prune_candidates k journal) \<subseteq> set (oj_rows journal)" for k
    by (auto simp: prune_candidates_def dest!: in_set_takeD)
  ultimately have "co_sequence row \<in> co_sequence ` set (prune_candidates k journal) \<longleftrightarrow> row \<in> set (prune_candidates k journal)"
    if "row \<in> set (oj_rows journal)" for row k
    using that by (auto simp: inj_on_def subset_iff)
  then have drop: "delete_where (\<lambda>row. co_sequence row \<in> co_sequence ` set (prune_candidates k journal)) (oj_rows journal) =
      filter (\<lambda>row. row \<notin> set (prune_candidates k journal)) (oj_rows journal)" for k
    unfolding delete_where_def by (intro filter_cong) simp_all
  have "prune_candidates 0 journal = []" by (simp add: prune_candidates_def)
  then show ?thesis using assms(2) drop by (auto simp: pruneCommitOutcomes_def Let_def split: if_splits)
qed

lemma filter_notin_length:
  assumes "distinct xs" "set ys \<subseteq> set xs" "distinct ys"
  shows "length (filter (\<lambda>x. x \<notin> set ys) xs) = length xs - length ys"
proof -
  have "length (filter (\<lambda>x. x \<in> set ys) xs) = card (set (filter (\<lambda>x. x \<in> set ys) xs))"
    by (rule distinct_card [symmetric]) (simp add: assms(1))
  also have "set (filter (\<lambda>x. x \<in> set ys) xs) = set xs \<inter> set ys" by auto
  also have "set xs \<inter> set ys = set ys" using assms(2) by blast
  also have "card (set ys) = length ys" using assms(3) by (rule distinct_card)
  finally show ?thesis using sum_length_filter_compl [of "\<lambda>x. x \<in> set ys" xs] by simp
qed

lemma prune_effect:
  assumes ok: "journal_ok journal" and run: "pruneCommitOutcomes maxEntries journal = Inr (n, journal')"
  shows "\<And>row. row \<in> set (oj_rows journal) \<Longrightarrow> failure row \<Longrightarrow> row \<in> set (oj_rows journal')"
    and "length (oj_rows journal') = max (min (length (oj_rows journal)) (nat maxEntries)) (length (filter failure (oj_rows journal)))"
    and "\<And>old new. old \<in> set (oj_rows journal') \<Longrightarrow> \<not> failure old \<Longrightarrow> new \<in> set (oj_rows journal) \<Longrightarrow> new \<notin> set (oj_rows journal')
      \<Longrightarrow> co_sequence new < co_sequence old"
    and "n = length (oj_rows journal) - length (oj_rows journal')"
proof -
  let ?rows = "oj_rows journal" and ?k = "length (oj_rows journal) - nat maxEntries"
  let ?sorted = "sort_key co_sequence (filter prunable ?rows)" and ?gone = "prune_candidates ?k journal"
  note kept = prune_kept [OF ok run]
  have dist: "distinct ?rows" "distinct (map co_sequence ?rows)" using ok by (auto simp: journal_ok_def distinct_map)
  have gone: "set ?gone \<subseteq> set ?rows" "distinct ?gone" "\<And>row. row \<in> set ?gone \<Longrightarrow> \<not> failure row"
    using dist(1) by (auto simp: prune_candidates_def prunable_iff dest!: in_set_takeD)
  show "row \<in> set (oj_rows journal')" if "row \<in> set ?rows" "failure row" for row
    using that gone(3) by (auto simp: kept)
  have len: "length (oj_rows journal') = length ?rows - length ?gone"
    unfolding kept by (rule filter_notin_length [OF dist(1) gone(1,2)])
  have "filter prunable ?rows = filter (\<lambda>row. \<not> failure row) ?rows" by (intro filter_cong) (simp_all add: prunable_iff)
  then have count: "length (filter prunable ?rows) = length ?rows - length (filter failure ?rows)"
    using sum_length_filter_compl [of failure ?rows] by simp
  have arith: "f \<le> a \<Longrightarrow> a - min (a - f) (a - b) = max (min a b) f" for a b f :: nat by (auto simp: min_def max_def)
  have "length ?gone = min (length (filter prunable ?rows)) ?k" by (simp add: prune_candidates_def)
  then show "length (oj_rows journal') = max (min (length ?rows) (nat maxEntries)) (length (filter failure ?rows))"
    unfolding len by (simp only: count arith [OF length_filter_le])
  show "n = length ?rows - length (oj_rows journal')"
  proof -
    have "prune_candidates 0 journal = []" by (simp add: prune_candidates_def)
    then have "n = length ?gone" using run by (auto simp: pruneCommitOutcomes_def Let_def split: if_splits)
    moreover have "length ?gone \<le> length ?rows"
      using card_mono [OF _ gone(1)] distinct_card [OF gone(2)] distinct_card [OF dist(1)] by simp
    ultimately show ?thesis using len by linarith
  qed
  show "co_sequence new < co_sequence old"
    if "old \<in> set (oj_rows journal')" "\<not> failure old" "new \<in> set ?rows" "new \<notin> set (oj_rows journal')" for old new
  proof -
    have old: "old \<in> set ?rows" "old \<notin> set ?gone" using that(1) by (auto simp: kept)
    have new: "new \<in> set (take ?k ?sorted)" using that(3,4) by (auto simp: kept prune_candidates_def)
    have "old \<in> set ?sorted" using old(1) that(2) by (simp add: prunable_iff)
    then have "old \<in> set (drop ?k ?sorted)" using old(2) by (metis Un_iff append_take_drop_id prune_candidates_def set_append)
    moreover have "sorted (map co_sequence (take ?k ?sorted) @ map co_sequence (drop ?k ?sorted))"
      by (simp flip: map_append)
    ultimately have "co_sequence new \<le> co_sequence old" using new unfolding sorted_append set_map by blast
    moreover have "co_sequence new \<noteq> co_sequence old"
    proof
      assume "co_sequence new = co_sequence old"
      then have "new = old" using dist(2) that(3) old(1) unfolding distinct_map by (meson inj_onD)
      then show False using that(1,4) by simp
    qed
    ultimately show ?thesis by simp
  qed
qed

end
