(* ===== verification/Client_State.thy ===== *)
theory Client_State
  imports Client_Outcomes
begin

text \<open>
  The durable sync state of the client: subscriptions and metadata (\<open>web-client/src/state.ts\<close>),
  the registry of windows (\<open>window.ts\<close>), and the operations of \<open>client.ts\<close> that edit them
  (\<open>subscribe\<close>, \<open>unsubscribe\<close>, \<open>setWindowCommand\<close>, \<open>windowState\<close>, \<open>#evictUnit\<close>,
  \<open>#drainPendingEvictions\<close>, the resets). The wake-up callbacks, the change notifications with
  their revision, and the blob cache are left out.
\<close>

section \<open>State\<close>

datatype SubscriptionStatus = StatusActive | StatusRevoked | StatusFailed

record SubscriptionRecord =
  su_id :: jsstring
  su_table :: jsstring
  su_scopes :: scope_map
  su_params :: "jsstring option"
  su_cursor :: int
  su_bootstrapState :: "jsstring option"
  su_effectiveScopes :: "scope_map option"
  su_status :: SubscriptionStatus
  su_reasonCode :: "jsstring option"

record WindowUnit =
  wu_base :: jsstring
  wu_unit :: jsstring
  wu_subId :: jsstring

record PendingEviction =
  pv_subId :: jsstring
  pv_table :: jsstring
  pv_effective :: scope_map

record LeaseState =
  le_leaseId :: "jsstring option"
  le_expiresAtMs :: "int option"
  le_errorCode :: "jsstring option"

record SchemaFloor =
  sf_required :: int
  sf_latest :: "int option"

text \<open>The database of the client and the fields of \<open>SyncClient\<close> the operations use.\<close>

record client_state =
  cs_db :: client_db
  cs_subs :: "SubscriptionRecord list"
  cs_windows :: "WindowUnit list"
  cs_evictions :: "PendingEviction list"
  cs_outcomes :: outcome_journal
  cs_logEpoch :: "jsstring option"
  cs_conflicts :: "ConflictRecord list"
  cs_rejections :: "RejectionRecord list"
  cs_leaseState :: "LeaseState option"
  cs_schemaFloor :: "SchemaFloor option"
  cs_upgrading :: bool
  cs_needsPull :: bool
  cs_localResetEpoch :: nat
  cs_acks :: "int list"

section \<open>Subscriptions\<close>

definition getSubscription :: "client_state \<Rightarrow> jsstring \<Rightarrow> SubscriptionRecord option" where
  "getSubscription s i = find_by su_id i (cs_subs s)"

text \<open>\<open>INSERT OR REPLACE\<close>: the row moves to the end of the table.\<close>

definition saveSubscription :: "SubscriptionRecord \<Rightarrow> client_state \<Rightarrow> client_state" where
  "saveSubscription sub s = s\<lparr>cs_subs := delete_where (\<lambda>x. su_id x = su_id sub) (cs_subs s) @ [sub]\<rparr>"

definition deleteSubscription :: "jsstring \<Rightarrow> client_state \<Rightarrow> client_state" where
  "deleteSubscription i s = s\<lparr>cs_subs := delete_where (\<lambda>x. su_id x = i) (cs_subs s)\<rparr>"

definition resetSubscriptionsForBump :: "client_state \<Rightarrow> client_state" where
  "resetSubscriptionsForBump s = s\<lparr>cs_subs := map (\<lambda>sub. sub\<lparr>su_cursor := -1, su_bootstrapState := None,
     su_effectiveScopes := None, su_status := StatusActive, su_reasonCode := None\<rparr>) (cs_subs s)\<rparr>"

definition pruneUnknownSubscriptions :: "jsstring list \<Rightarrow> client_state \<Rightarrow> client_state" where
  "pruneUnknownSubscriptions tableNames s =
     (let stale = map su_id (filter (\<lambda>sub. su_table sub \<notin> set tableNames) (cs_subs s)) in
      s\<lparr>cs_windows := delete_where (\<lambda>w. wu_subId w \<in> set stale) (cs_windows s),
        cs_evictions := delete_where (\<lambda>e. pv_subId e \<in> set stale) (cs_evictions s),
        cs_subs := delete_where (\<lambda>sub. su_id sub \<in> set stale) (cs_subs s)\<rparr>)"

datatype SubscribeError = SubscribeUnknownTable | SubscribeIntentMismatch

definition subscribe ::
    "CompiledClientSchema \<Rightarrow> jsstring \<Rightarrow> jsstring \<Rightarrow> scope_map \<Rightarrow> jsstring option \<Rightarrow> client_state \<Rightarrow> SubscribeError + client_state" where
  "subscribe schema i table scopes params s =
     (if map_of (ls_tables schema) table = None then Inl SubscribeUnknownTable
      else (case getSubscription s i of
          Some existing \<Rightarrow>
            if su_table existing = table \<and> canonicalScopeJson (su_scopes existing) = canonicalScopeJson scopes \<and> su_params existing = params
            then Inr s else Inl SubscribeIntentMismatch
        | None \<Rightarrow>
            Inr ((saveSubscription \<lparr>su_id = i, su_table = table, su_scopes = scopes, su_params = params, su_cursor = -1,
                    su_bootstrapState = None, su_effectiveScopes = None, su_status = StatusActive, su_reasonCode = None\<rparr> s)
                  \<lparr>cs_needsPull := True\<rparr>)))"

definition unsubscribe :: "jsstring \<Rightarrow> client_state \<Rightarrow> client_state" where
  "unsubscribe i s = (if getSubscription s i = None then s else (deleteSubscription i s)\<lparr>cs_needsPull := True\<rparr>)"

section \<open>Windows\<close>

record WindowBase =
  wb_table :: jsstring
  wb_variable :: jsstring
  wb_fixedScopes :: scope_map
  wb_params :: "jsstring option"

definition windowBaseKey :: "WindowBase \<Rightarrow> jsstring" where
  "windowBaseKey base = wb_table base @ [0] @ wb_variable base @ [0] @ canonicalScopeJson (wb_fixedScopes base)"

definition unitScopes :: "WindowBase \<Rightarrow> jsstring \<Rightarrow> scope_map" where
  "unitScopes base unit = AList.update (wb_variable base) [unit] (wb_fixedScopes base)"

definition deriveSubId :: "(byte list \<Rightarrow> byte list) \<Rightarrow> WindowBase \<Rightarrow> jsstring \<Rightarrow> jsstring" where
  "deriveSubId sha256 base unit =
     js ''w:'' @ wb_table base @ js '':'' @ take 16 (sha256Hex sha256 (text_encode (canonicalScopeJson (unitScopes base unit))))"

definition loadWindowUnits :: "client_state \<Rightarrow> jsstring \<Rightarrow> WindowUnit list" where
  "loadWindowUnits s baseKey = sort_key (\<lambda>w. text_encode (wu_unit w)) (filter (\<lambda>w. wu_base w = baseKey) (cs_windows s))"

definition window_key :: "WindowUnit \<Rightarrow> jsstring \<times> jsstring" where
  "window_key w = (wu_base w, wu_unit w)"

definition insertWindowUnit :: "jsstring \<Rightarrow> jsstring \<Rightarrow> jsstring \<Rightarrow> client_state \<Rightarrow> client_state" where
  "insertWindowUnit baseKey unit subId s =
     s\<lparr>cs_windows := delete_where (\<lambda>w. window_key w = (baseKey, unit)) (cs_windows s) @
        [\<lparr>wu_base = baseKey, wu_unit = unit, wu_subId = subId\<rparr>]\<rparr>"

definition deleteWindowUnit :: "jsstring \<Rightarrow> jsstring \<Rightarrow> client_state \<Rightarrow> client_state" where
  "deleteWindowUnit baseKey unit s = s\<lparr>cs_windows := delete_where (\<lambda>w. window_key w = (baseKey, unit)) (cs_windows s)\<rparr>"

definition savePendingEviction :: "jsstring \<Rightarrow> jsstring \<Rightarrow> scope_map \<Rightarrow> client_state \<Rightarrow> client_state" where
  "savePendingEviction subId table effective s =
     s\<lparr>cs_evictions := delete_where (\<lambda>e. pv_subId e = subId) (cs_evictions s) @
        [\<lparr>pv_subId = subId, pv_table = table, pv_effective = effective\<rparr>]\<rparr>"

definition deletePendingEviction :: "jsstring \<Rightarrow> client_state \<Rightarrow> client_state" where
  "deletePendingEviction subId s = s\<lparr>cs_evictions := delete_where (\<lambda>e. pv_subId e = subId) (cs_evictions s)\<rparr>"

definition set_rows :: "local_rows \<Rightarrow> client_state \<Rightarrow> client_state" where
  "set_rows rows s = s\<lparr>cs_db := (cs_db s)\<lparr>cd_rows := rows\<rparr>\<rparr>"

text \<open>
  One departing unit: eviction, unregistration and unsubscription in one transaction. An error
  leaves the state as it was.
\<close>

definition evictUnit ::
    "client_env \<Rightarrow> CompiledClientSchema \<Rightarrow> jsstring \<Rightarrow> WindowBase \<Rightarrow> jsstring \<Rightarrow> jsstring \<Rightarrow> client_state \<Rightarrow> ClientError + client_state" where
  "evictUnit env schema baseKey base unit subId s =
     (case map_of (ls_tables schema) (wb_table base) of
        None \<Rightarrow> Inl ClientUnknownTable
      | Some table \<Rightarrow>
          (let effective = (case Option.bind (getSubscription s subId) su_effectiveScopes of
                 Some scopes \<Rightarrow> scopes | None \<Rightarrow> unitScopes base unit);
               pinned = pinnedRowIds (wb_table base) (cs_db s) in
           bindE (evictScopedRows env table effective pinned (cd_rows (cs_db s))) (\<lambda>(deferred, rows).
             (let s1 = deleteSubscription subId (deleteWindowUnit baseKey unit (set_rows rows s));
                  s2 = (if deferred then savePendingEviction subId (wb_table base) effective s1 else deletePendingEviction subId s1) in
              Inr (s2\<lparr>cs_needsPull := True\<rparr>)))))"

text \<open>A unit that enters.\<close>

definition widenUnit :: "(byte list \<Rightarrow> byte list) \<Rightarrow> jsstring \<Rightarrow> WindowBase \<Rightarrow> jsstring \<Rightarrow> client_state \<Rightarrow> client_state" where
  "widenUnit sha256 baseKey base unit s =
     (let subId = deriveSubId sha256 base unit in
      (saveSubscription \<lparr>su_id = subId, su_table = wb_table base, su_scopes = unitScopes base unit, su_params = wb_params base,
         su_cursor = -1, su_bootstrapState = None, su_effectiveScopes = None, su_status = StatusActive, su_reasonCode = None\<rparr>
        (insertWindowUnit baseKey unit subId (deletePendingEviction subId s)))\<lparr>cs_needsPull := True\<rparr>)"

fun evictUnits ::
    "client_env \<Rightarrow> CompiledClientSchema \<Rightarrow> jsstring \<Rightarrow> WindowBase \<Rightarrow> WindowUnit list \<Rightarrow> client_state \<Rightarrow> (ClientError + unit) \<times> client_state" where
  "evictUnits env schema baseKey base [] s = (Inr (), s)"
| "evictUnits env schema baseKey base (w # ws) s =
     (case evictUnit env schema baseKey base (wu_unit w) (wu_subId w) s of
        Inl e \<Rightarrow> (Inl e, s)
      | Inr s' \<Rightarrow> evictUnits env schema baseKey base ws s')"

definition setWindowCommand ::
    "(byte list \<Rightarrow> byte list) \<Rightarrow> client_env \<Rightarrow> CompiledClientSchema \<Rightarrow> WindowBase \<Rightarrow> jsstring list \<Rightarrow> client_state
     \<Rightarrow> (ClientError + bool) \<times> client_state" where
  "setWindowCommand sha256 env schema base unitList s =
     (case map_of (ls_tables schema) (wb_table base) of
        None \<Rightarrow> (Inl ClientUnknownTable, s)
      | Some table \<Rightarrow>
          if map_of (lt_scopeColumnByVariable table) (wb_variable base) = None then (Inl ClientInvalidRequest, s)
          else (let baseKey = windowBaseKey base;
                    wanted = rev (remdups (rev unitList));
                    live = loadWindowUnits s baseKey;
                    added = filter (\<lambda>u. u \<notin> wu_unit ` set live) wanted;
                    removed = filter (\<lambda>w. wu_unit w \<notin> set wanted) live;
                    (r, s') = evictUnits env schema baseKey base removed (fold (widenUnit sha256 baseKey base) added s) in
                (case r of Inl e \<Rightarrow> Inl e | Inr _ \<Rightarrow> Inr (added \<noteq> [] \<or> removed \<noteq> []), s')))"

definition unit_pending :: "client_state \<Rightarrow> WindowUnit \<Rightarrow> bool" where
  "unit_pending s w \<longleftrightarrow>
     (case getSubscription s (wu_subId w) of
        None \<Rightarrow> True
      | Some sub \<Rightarrow> su_status sub \<noteq> StatusActive \<or> su_cursor sub < 0 \<or> su_bootstrapState sub \<noteq> None)"

record WindowState =
  ws_units :: "jsstring list"
  ws_pending :: "jsstring list"

definition windowState :: "WindowBase \<Rightarrow> client_state \<Rightarrow> WindowState" where
  "windowState base s =
     (let live = loadWindowUnits s (windowBaseKey base) in
      \<lparr>ws_units = map wu_unit live, ws_pending = map wu_unit (filter (unit_pending s) live)\<rparr>)"

definition windowComplete :: "WindowState \<Rightarrow> jsstring \<Rightarrow> bool" where
  "windowComplete state unit \<longleftrightarrow> unit \<in> set (ws_units state) \<and> unit \<notin> set (ws_pending state)"

text \<open>Deferred evictions, retried one transaction each; an error stops the loop.\<close>

fun drainEvictions :: "client_env \<Rightarrow> CompiledClientSchema \<Rightarrow> PendingEviction list \<Rightarrow> client_state \<Rightarrow> (ClientError + unit) \<times> client_state" where
  "drainEvictions env schema [] s = (Inr (), s)"
| "drainEvictions env schema (entry # rest) s =
     (case map_of (ls_tables schema) (pv_table entry) of
        None \<Rightarrow> drainEvictions env schema rest (deletePendingEviction (pv_subId entry) s)
      | Some table \<Rightarrow>
          (case evictScopedRows env table (pv_effective entry) (pinnedRowIds (pv_table entry) (cs_db s)) (cd_rows (cs_db s)) of
             Inl e \<Rightarrow> (Inl e, s)
           | Inr (deferred, rows) \<Rightarrow>
               drainEvictions env schema rest
                 (if deferred then set_rows rows s else deletePendingEviction (pv_subId entry) (set_rows rows s))))"

definition drainPendingEvictions :: "client_env \<Rightarrow> CompiledClientSchema \<Rightarrow> client_state \<Rightarrow> (ClientError + unit) \<times> client_state" where
  "drainPendingEvictions env schema s = drainEvictions env schema (cs_evictions s) s"

section \<open>Resets\<close>

text \<open>
  Empty synced tables, subscriptions rewound, the pending commits applied again: one transaction.
\<close>

definition rebuild :: "client_env \<Rightarrow> CompiledClientSchema \<Rightarrow> client_state \<Rightarrow> ClientError + client_state" where
  "rebuild env schema s =
     bindE (applyOperationsLocally env schema (concat (map ob_operations (cd_outbox (cs_db s)))) []) (\<lambda>rows.
       Inr (resetSubscriptionsForBump (set_rows rows s)))"

definition runLogEpochReset ::
    "client_env \<Rightarrow> CompiledClientSchema \<Rightarrow> jsstring \<Rightarrow> client_state \<Rightarrow> (ClientError + jsstring list) \<times> client_state" where
  "runLogEpochReset env schema logEpoch s0 =
     (let s = s0\<lparr>cs_upgrading := True\<rparr> in
      case rebuild env schema s of
        Inl e \<Rightarrow> (Inl e, s)
      | Inr s1 \<Rightarrow> (Inr (map su_id (cs_subs s)),
          s1\<lparr>cs_logEpoch := Some logEpoch, cs_localResetEpoch := Suc (cs_localResetEpoch s1), cs_needsPull := True\<rparr>))"

text \<open>The reset of a schema bump replays the outbox in a transaction of its own.\<close>

definition runSchemaReset :: "client_env \<Rightarrow> CompiledClientSchema \<Rightarrow> client_state \<Rightarrow> (ClientError + unit) \<times> client_state" where
  "runSchemaReset env schema s0 =
     (let s = (resetSubscriptionsForBump (set_rows [] (s0\<lparr>cs_upgrading := True\<rparr>)))\<lparr>cs_schemaFloor := None\<rparr> in
      case replayOutbox env schema (cs_db s) of
        Inl e \<Rightarrow> (Inl e, s)
      | Inr db \<Rightarrow> (Inr (), s\<lparr>cs_db := db\<rparr>))"

text \<open>The body of \<open>rebootstrapLocalData\<close> for an id without a receipt.\<close>

definition rebootstrapLocalData :: "client_env \<Rightarrow> CompiledClientSchema \<Rightarrow> client_state \<Rightarrow> (ClientError + nat \<times> nat) \<times> client_state" where
  "rebootstrapLocalData env schema s =
     (if cs_schemaFloor s \<noteq> None then (Inl ClientInvalidRequest, s)
      else (case rebuild env schema s of
          Inl e \<Rightarrow> (Inl e, s)
        | Inr s1 \<Rightarrow> (Inr (length (cd_outbox (cs_db s)), length (cs_subs s)),
            s1\<lparr>cs_upgrading := True, cs_needsPull := True, cs_localResetEpoch := Suc (cs_localResetEpoch s1)\<rparr>)))"

end
