(* ===== verification/Client_Response.thy ===== *)
theory Client_Response
  imports Client_State
begin

text \<open>
  What the client does with a response: \<open>#processResponse\<close> of \<open>web-client/src/client.ts\<close> and the
  handlers it calls. SHA-256, the attached image, the downloader and the clock are fields of
  \<open>session\<close>. Every handler returns the state it leaves, also when it throws: a transaction that
  throws leaves the database as it was, the lists held in memory keep what was pushed to them.
\<close>

section \<open>The session\<close>

record downloader =
  dl_direct :: "jsstring \<Rightarrow> jsstring \<Rightarrow> jsstring \<Rightarrow> byte list option"
  dl_fetchUrl :: "(jsstring \<Rightarrow> byte list option) option"

record session =
  sn_env :: client_env
  sn_schema :: CompiledClientSchema
  sn_now :: int
  sn_maxOutcomes :: int
  sn_accept :: int
  sn_socket :: bool
  sn_sha256 :: "byte list \<Rightarrow> byte list"
  sn_attach :: "byte list \<Rightarrow> sqlite_image option"
  sn_segments :: "downloader option"

definition accepts :: "session \<Rightarrow> nat \<Rightarrow> bool" where
  "accepts sn n \<longleftrightarrow> odd (sn_accept sn div 2 ^ n)"

record MutableSummary =
  sm_pushed :: nat
  sm_applied :: "jsstring list"
  sm_rejected :: "jsstring list"
  sm_retryable :: "jsstring list"
  sm_conflicts :: "ConflictRecord list"
  sm_commitsApplied :: nat
  sm_segmentRowsApplied :: nat
  sm_resets :: "jsstring list"
  sm_revoked :: "jsstring list"
  sm_failed :: "jsstring list"

definition emptySummary :: "nat \<Rightarrow> MutableSummary" where
  "emptySummary pushed = \<lparr>sm_pushed = pushed, sm_applied = [], sm_rejected = [], sm_retryable = [], sm_conflicts = [],
     sm_commitsApplied = 0, sm_segmentRowsApplied = 0, sm_resets = [], sm_revoked = [], sm_failed = []\<rparr>"

section \<open>Push results\<close>

definition cache_miss :: "PushOperationResult \<Rightarrow> bool" where
  "cache_miss r \<longleftrightarrow> (case r of OpError i code message retryable details \<Rightarrow> code = js ''sync.idempotency_cache_miss'' \<and> retryable | _ \<Rightarrow> False)"

definition isFinalPushResult :: "PushResultFrame \<Rightarrow> bool" where
  "isFinalPushResult frame \<longleftrightarrow> pr_status frame \<noteq> PushRejected \<or> \<not> list_ex cache_miss (pr_results frame)"

definition decodeServerRow :: "CompiledClientSchema \<Rightarrow> jsstring option \<Rightarrow> byte list \<Rightarrow> ClientError + (jsstring \<times> RowValue) list" where
  "decodeServerRow schema tableName payload =
     (case Option.bind tableName (map_of (ls_tables schema)) of
        None \<Rightarrow> Inr []
      | Some table \<Rightarrow> bindE (liftC (decodeRow (lt_columns table) payload)) (\<lambda>vals.
          Inr (map (\<lambda>(column, v). (rc_name column, v)) (zip (lt_columns table) vals))))"

definition op_at :: "OutboxOperation list \<Rightarrow> int \<Rightarrow> OutboxOperation option" where
  "op_at ops i = (if 0 \<le> i \<and> nat i < length ops then Some (ops ! nat i) else None)"

record result_lists =
  rl_results :: "CommitOperationOutcome list"
  rl_conflicts :: "ConflictRecord list"
  rl_rejections :: "RejectionRecord list"

text \<open>The loop over the results of a rejected commit; an error is a server row that does not decode.\<close>

fun resultLoop ::
    "CompiledClientSchema \<Rightarrow> OutboxCommit \<Rightarrow> (int \<Rightarrow> RejectionDetails option) \<Rightarrow> PushOperationResult list \<Rightarrow> result_lists
     \<Rightarrow> ClientError option \<times> result_lists" where
  "resultLoop schema commit details [] acc = (None, acc)"
| "resultLoop schema commit details (OpApplied i # rest) acc =
     resultLoop schema commit details rest (acc\<lparr>rl_results := rl_results acc @ [ResultApplied i]\<rparr>)"
| "resultLoop schema commit details (OpError i code message retryable embedded # rest) acc =
     (let rejection = \<lparr>rj_clientCommitId = ob_clientCommitId commit, rj_opIndex = i, rj_code = code, rj_message = message,
            rj_retryable = retryable, rj_details = details i, rj_operation = op_at (ob_operations commit) i\<rparr> in
      resultLoop schema commit details rest
        (acc\<lparr>rl_results := rl_results acc @ [ResultError rejection], rl_rejections := rl_rejections acc @ [rejection]\<rparr>))"
| "resultLoop schema commit details (OpConflict i code message version row # rest) acc =
     (let operation = op_at (ob_operations commit) i in
      case decodeServerRow schema (map_option oo_table operation) row of
        Inl e \<Rightarrow> (Some e, acc)
      | Inr serverRow \<Rightarrow>
          (let conflict = \<lparr>cr_clientCommitId = ob_clientCommitId commit, cr_opIndex = i,
                 cr_table = (case operation of None \<Rightarrow> [] | Some op \<Rightarrow> oo_table op),
                 cr_rowId = (case operation of None \<Rightarrow> [] | Some op \<Rightarrow> oo_rowId op),
                 cr_code = code, cr_message = message, cr_serverVersion = version, cr_serverRow = serverRow, cr_operation = operation\<rparr> in
           resultLoop schema commit details rest
             (acc\<lparr>rl_results := rl_results acc @ [ResultConflict conflict], rl_conflicts := rl_conflicts acc @ [conflict]\<rparr>)))"

definition pruneIf :: "bool \<Rightarrow> int \<Rightarrow> outcome_journal \<Rightarrow> ClientError + outcome_journal" where
  "pruneIf prune maxEntries journal =
     (if prune then bindE (pruneCommitOutcomes maxEntries journal) (\<lambda>(_, j). Inr j) else Inr journal)"

definition is_conflict :: "CommitOperationOutcome \<Rightarrow> bool" where
  "is_conflict r \<longleftrightarrow> (case r of ResultConflict c \<Rightarrow> True | _ \<Rightarrow> False)"

text \<open>The result says whether the commit left the outbox.\<close>

definition handlePushResult ::
    "session \<Rightarrow> OutboxCommit list \<Rightarrow> (int \<Rightarrow> RejectionDetails option) \<Rightarrow> bool \<Rightarrow> PushResultFrame \<Rightarrow> client_state \<times> MutableSummary
     \<Rightarrow> (ClientError + bool) \<times> client_state \<times> MutableSummary" where
  "handlePushResult sn sent details prune frame = (\<lambda>(s, summary).
     let i = pr_clientCommitId frame in
     case find_by ob_clientCommitId i (rev sent) of
       None \<Rightarrow> (Inr False, s, summary)
     | Some commit \<Rightarrow>
         if find_by ob_clientCommitId i (cd_outbox (cs_db s)) = None then (Inr False, s, summary)
         else if pr_status frame \<noteq> PushRejected then
           (let status = (if pr_status frame = PushApplied then OutApplied else OutCached) in
            case bindE (recordCommitOutcome i status (sn_now sn) (map (\<lambda>r. ResultApplied (opIndex r)) (pr_results frame)) None (cs_outcomes s))
                   (pruneIf prune (sn_maxOutcomes sn)) of
              Inl e \<Rightarrow> (Inl e, s, summary)
            | Inr journal \<Rightarrow>
                (Inr True, s\<lparr>cs_outcomes := journal, cs_db := deleteOutboxCommit i (cs_db s)\<rparr>,
                 summary\<lparr>sm_applied := sm_applied summary @ [i]\<rparr>))
         else if list_ex cache_miss (pr_results frame) then (Inr False, s, summary\<lparr>sm_retryable := sm_retryable summary @ [i]\<rparr>)
         else
           (let (err, lists) = resultLoop (sn_schema sn) commit details (pr_results frame)
                  \<lparr>rl_results = [], rl_conflicts = [], rl_rejections = []\<rparr>;
                s1 = s\<lparr>cs_conflicts := cs_conflicts s @ rl_conflicts lists, cs_rejections := cs_rejections s @ rl_rejections lists\<rparr>;
                summary1 = summary\<lparr>sm_conflicts := sm_conflicts summary @ rl_conflicts lists\<rparr>;
                status = (if list_ex is_conflict (rl_results lists) then OutConflict else OutRejected) in
            case err of
              Some e \<Rightarrow> (Inl e, s1, summary1)
            | None \<Rightarrow>
                (case bindE (recordCommitOutcome i status (sn_now sn) (rl_results lists) (Some (ob_operations commit)) (cs_outcomes s))
                        (pruneIf prune (sn_maxOutcomes sn)) of
                   Inl e \<Rightarrow> (Inl e, s1, summary1)
                 | Inr journal \<Rightarrow>
                     (case rollbackFailedCommit (sn_env sn) (sn_schema sn) commit (cs_db s) of
                        Inl e \<Rightarrow> (Inl e, s1, summary1)
                      | Inr db \<Rightarrow> (Inr True, s1\<lparr>cs_outcomes := journal, cs_db := db\<rparr>,
                                   summary1\<lparr>sm_rejected := sm_rejected summary1 @ [i]\<rparr>)))))"

section \<open>Sections\<close>

record OpenSection =
  os_start :: SubStartFrame
  os_sub :: "SubscriptionRecord option"
  os_fresh :: bool
  os_skip :: bool
  os_cleared :: bool

datatype response_mode = PullMode | DeltaMode

text \<open>\<open>SUB_START\<close>.\<close>

definition openSection :: "response_mode \<Rightarrow> SubscriptionRecord list \<Rightarrow> SubStartFrame \<Rightarrow> OpenSection" where
  "openSection mode subs frame =
     (let sub = find_by su_id (ss_id frame) (rev subs) in
      \<lparr>os_start = frame, os_sub = sub,
       os_fresh = (case sub of None \<Rightarrow> False | Some x \<Rightarrow> su_cursor x < 0 \<and> su_bootstrapState x = None \<and> ss_bootstrap frame),
       os_skip = (case sub of None \<Rightarrow> True | Some x \<Rightarrow> mode = DeltaMode \<and> (su_status x \<noteq> StatusActive \<or> su_bootstrapState x \<noteq> None)),
       os_cleared = False\<rparr>)"

definition applySegmentOrFail ::
    "session \<Rightarrow> OpenSection \<Rightarrow> (CompiledClientTable \<Rightarrow> bool \<Rightarrow> scope_map \<Rightarrow> local_rows \<Rightarrow> (ClientError + nat) \<times> local_rows) \<Rightarrow> bool
     \<Rightarrow> client_state \<times> MutableSummary \<Rightarrow> (ClientError + OpenSection) \<times> client_state \<times> MutableSummary" where
  "applySegmentOrFail sn section apply clearFirst = (\<lambda>(s, summary).
     case os_sub section of
       None \<Rightarrow> (Inr section, s, summary)
     | Some sub \<Rightarrow>
         (case map_of (ls_tables (sn_schema sn)) (su_table sub) of
            None \<Rightarrow> (Inl ClientUnknownTable, s, summary)
          | Some table \<Rightarrow>
              (let (r, rows) = apply table clearFirst (ss_effectiveScopes (os_start section)) (cd_rows (cs_db s));
                   s1 = set_rows rows s in
               case r of
                 Inr n \<Rightarrow> (Inr (section\<lparr>os_cleared := True\<rparr>), s1,
                           summary\<lparr>sm_segmentRowsApplied := sm_segmentRowsApplied summary + n\<rparr>)
               | Inl e \<Rightarrow>
                   if e = ClientScopeRevoked
                   then (Inr (section\<lparr>os_skip := True\<rparr>),
                         saveSubscription (sub\<lparr>su_bootstrapState := None, su_status := StatusFailed,
                           su_reasonCode := Some (js ''sync.scope_revoked'')\<rparr>) s1,
                         summary\<lparr>sm_failed := sm_failed summary @ [su_id sub]\<rparr>)
                   else (Inl e, s1, summary))))"

definition downloadSegment :: "session \<Rightarrow> SegmentRefFrame \<Rightarrow> SubscriptionRecord \<Rightarrow> ClientError + byte list" where
  "downloadSegment sn frame sub =
     (case sn_segments sn of
        None \<Rightarrow> Inl ClientInvalidRequest
      | Some dl \<Rightarrow>
          bindE (case sg_url frame of
              Some url \<Rightarrow>
                (case dl_fetchUrl dl of
                   None \<Rightarrow> Inl ClientInvalidRequest
                 | Some fetch \<Rightarrow>
                     if \<not> accepts sn 3 then Inl ClientInvalidRequest
                     else if (case sg_urlExpiresAtMs frame of None \<Rightarrow> False | Some t \<Rightarrow> t \<le> sn_now sn) then Inl ClientSegmentExpired
                     else (case fetch url of None \<Rightarrow> Inl ClientFetchFailed | Some bytes \<Rightarrow> Inr bytes))
            | None \<Rightarrow>
                (case dl_direct dl (sg_segmentId frame) (sg_table frame) (canonicalScopeJson (su_scopes sub)) of
                   None \<Rightarrow> Inl ClientFetchFailed | Some bytes \<Rightarrow> Inr bytes))
            (\<lambda>bytes. if js ''sha256:'' @ sha256Hex (sn_sha256 sn) bytes \<noteq> sg_segmentId frame then Inl ClientSegmentMismatch else Inr bytes))"

definition applyRows :: "session \<Rightarrow> byte list \<Rightarrow> OpenSection \<Rightarrow> bool \<Rightarrow> client_state \<times> MutableSummary
    \<Rightarrow> (ClientError + OpenSection) \<times> client_state \<times> MutableSummary" where
  "applyRows sn bytes section clearFirst st =
     (case decodeRowsSegment bytes of
        Inl e \<Rightarrow> (Inl (ClientDecode e), st)
      | Inr segment \<Rightarrow> applySegmentOrFail sn section
          (\<lambda>table clear effective rows. applyRowsSegment (sn_env sn) (sn_schema sn) table segment clear effective rows) clearFirst st)"

definition applyImage :: "session \<Rightarrow> SegmentRefFrame \<Rightarrow> byte list \<Rightarrow> OpenSection \<Rightarrow> client_state \<times> MutableSummary
    \<Rightarrow> (ClientError + OpenSection) \<times> client_state \<times> MutableSummary" where
  "applyImage sn frame bytes section st =
     (if sg_rowCursor frame \<noteq> None \<or> sg_nextRowCursor frame \<noteq> None then (Inl ClientInvalidRequest, st)
      else applySegmentOrFail sn section
        (\<lambda>table clear effective rows.
           case applySqliteSegment (sn_attach sn) (sn_env sn) (sn_schema sn) table bytes
                  \<lparr>sd_table = sg_table frame, sd_rowCount = sg_rowCount frame, sd_asOfCommitSeq = sg_asOfCommitSeq frame,
                   sd_scopeDigest = sg_scopeDigest frame\<rparr> clear effective rows of
             Inl e \<Rightarrow> (Inl e, rows)
           | Inr (n, rows') \<Rightarrow> (Inr n, rows'))
        (os_fresh section \<and> \<not> os_cleared section) st)"

definition applySegmentRef :: "session \<Rightarrow> SegmentRefFrame \<Rightarrow> OpenSection \<Rightarrow> SubscriptionRecord \<Rightarrow> client_state \<times> MutableSummary
    \<Rightarrow> (ClientError + OpenSection) \<times> client_state \<times> MutableSummary" where
  "applySegmentRef sn frame section sub st =
     (if sg_mediaType frame = MediaSqlite \<and> \<not> accepts sn 2 then (Inl ClientInvalidRequest, st)
      else (case downloadSegment sn frame sub of
          Inl e \<Rightarrow> (Inl e, st)
        | Inr bytes \<Rightarrow>
            if sg_mediaType frame = MediaSqlite then applyImage sn frame bytes section st
            else applyRows sn bytes section (os_fresh section \<and> \<not> os_cleared section \<and> sg_rowCursor frame = None) st))"

section \<open>The end of a section\<close>

definition revoked_rejection :: "OutboxCommit \<Rightarrow> OutboxOperation \<times> nat \<Rightarrow> RejectionRecord" where
  "revoked_rejection commit = (\<lambda>(operation, i). \<lparr>rj_clientCommitId = ob_clientCommitId commit, rj_opIndex = int i,
     rj_code = js ''sync.scope_revoked'',
     rj_message = js ''the commit was dropped because its effective scope was revoked'', rj_retryable = False, rj_details = None,
     rj_operation = Some operation\<rparr>)"

definition commit_rejections :: "OutboxCommit \<Rightarrow> RejectionRecord list" where
  "commit_rejections commit = map (revoked_rejection commit) (zip (ob_operations commit) [0..<length (ob_operations commit)])"

fun recordDropped :: "session \<Rightarrow> OutboxCommit list \<Rightarrow> outcome_journal \<Rightarrow> ClientError + outcome_journal" where
  "recordDropped sn [] journal = Inr journal"
| "recordDropped sn (commit # rest) journal =
     bindE (recordCommitOutcome (ob_clientCommitId commit) OutRejected (sn_now sn) (map ResultError (commit_rejections commit))
              (Some (ob_operations commit)) journal) (recordDropped sn rest)"

text \<open>
  The purge of a revoked subscription. \<open>Inl\<close> is a thrown error; the flag says that the table has
  no mapping for a scope of the subscription.
\<close>

definition purgeRevoked ::
    "session \<Rightarrow> CompiledClientTable \<Rightarrow> scope_map option \<Rightarrow> client_state \<Rightarrow> (ClientError + bool) \<times> client_state" where
  "purgeRevoked sn table lastEffective s =
     (case lastEffective of
        None \<Rightarrow> (Inr False, s)
      | Some effective \<Rightarrow>
          if effective = [] then (Inr False, s)
          else (case deleteScopedRows (sn_env sn) table effective (cd_rows (cs_db s)) of
              Inl e \<Rightarrow> (if e = ClientScopeRevoked then (Inr True, s) else (Inl e, s))
            | Inr rows \<Rightarrow>
                (let (droppedIds, db) = dropOutboxCommitsInScope table effective ((cs_db s)\<lparr>cd_rows := rows\<rparr>);
                     dropped = filter (\<lambda>c. ob_clientCommitId c \<in> set droppedIds) (cd_outbox (cs_db s));
                     s1 = s\<lparr>cs_rejections := cs_rejections s @ concat (map commit_rejections dropped)\<rparr> in
                 if droppedIds = [] then (Inr False, s\<lparr>cs_db := db\<rparr>)
                 else (case bindE (recordDropped sn dropped (cs_outcomes s)) (pruneIf True (sn_maxOutcomes sn)) of
                     Inl e \<Rightarrow> (Inl e, s1)
                   | Inr journal \<Rightarrow> (Inr False, s1\<lparr>cs_db := db, cs_outcomes := journal\<rparr>)))))"

definition finishSection ::
    "session \<Rightarrow> SubscriptionRecord \<Rightarrow> SubStartFrame \<Rightarrow> int \<Rightarrow> jsstring option \<Rightarrow> client_state \<times> MutableSummary
     \<Rightarrow> (ClientError + bool) \<times> client_state \<times> MutableSummary" where
  "finishSection sn sub start nextCursor bootstrapState = (\<lambda>(s, summary).
     case ss_status start of
       SubActive \<Rightarrow>
         (Inr True,
          saveSubscription (sub\<lparr>su_cursor := nextCursor, su_bootstrapState := bootstrapState,
            su_effectiveScopes := Some (ss_effectiveScopes start), su_status := StatusActive, su_reasonCode := None\<rparr>) s,
          summary)
     | SubReset \<Rightarrow>
         (Inr False,
          saveSubscription (sub\<lparr>su_cursor := -1, su_bootstrapState := None, su_status := StatusActive,
            su_reasonCode := Some (ss_reasonCode start)\<rparr>) s,
          summary\<lparr>sm_resets := sm_resets summary @ [su_id sub]\<rparr>)
     | SubRevoked \<Rightarrow>
         (case map_of (ls_tables (sn_schema sn)) (su_table sub) of
            None \<Rightarrow> (Inl ClientUnknownTable, s, summary)
          | Some table \<Rightarrow>
              (case purgeRevoked sn table (su_effectiveScopes sub) s of
                 (Inl e, s1) \<Rightarrow> (Inl e, s1, summary)
               | (Inr failed, s1) \<Rightarrow>
                   (Inr False,
                    saveSubscription (sub\<lparr>su_cursor := nextCursor, su_bootstrapState := None,
                      su_status := (if failed then StatusFailed else StatusRevoked), su_reasonCode := Some (ss_reasonCode start)\<rparr>) s1,
                    summary\<lparr>sm_revoked := sm_revoked summary @ [su_id sub],
                            sm_failed := sm_failed summary @ (if failed then [su_id sub] else [])\<rparr>))))"


section \<open>The frames of a response\<close>

record response_ctx =
  rc_mode :: response_mode
  rc_sent :: "OutboxCommit list"
  rc_subs :: "SubscriptionRecord list"
  rc_details :: "(jsstring \<times> DetailsEntry list) list"
  rc_lastFinal :: "nat option"
  rc_resetEpoch :: nat

record response_state =
  rp_state :: client_state
  rp_summary :: MutableSummary
  rp_section :: "OpenSection option"
  rp_deltaCursor :: int

definition rejectionDetailsByCommit :: "ResponseFrame list \<Rightarrow> (jsstring \<times> DetailsEntry list) list" where
  "rejectionDetailsByCommit frames =
     fold (\<lambda>frame m. case frame of PushResultDetails f \<Rightarrow> AList.update (prd_clientCommitId f) (prd_entries f) m | _ \<Rightarrow> m) frames []"

definition details_of :: "(jsstring \<times> DetailsEntry list) list \<Rightarrow> jsstring \<Rightarrow> int \<Rightarrow> RejectionDetails option" where
  "details_of m c i = Option.bind (map_of m c) (\<lambda>entries. map_option de_details (find_by de_opIndex i (rev entries)))"

definition lastFinalPushResult :: "OutboxCommit list \<Rightarrow> ResponseFrame list \<Rightarrow> nat option" where
  "lastFinalPushResult sent frames =
     fold (\<lambda>(frame, n) r. case frame of
         PushResult f \<Rightarrow> if find_by ob_clientCommitId (pr_clientCommitId f) sent \<noteq> None \<and> isFinalPushResult f then Some n else r
       | _ \<Rightarrow> r) (zip frames [0..<length frames]) None"

definition keep :: "response_state \<Rightarrow> client_state \<times> MutableSummary \<Rightarrow> response_state" where
  "keep rp st = rp\<lparr>rp_state := fst st, rp_summary := snd st\<rparr>"

text \<open>The section a data frame belongs to, when it is applied.\<close>

definition live_section :: "response_state \<Rightarrow> (OpenSection \<times> SubscriptionRecord) option" where
  "live_section rp = (case rp_section rp of
     None \<Rightarrow> None | Some sec \<Rightarrow> if os_skip sec then None else map_option (Pair sec) (os_sub sec))"

definition after_segment :: "response_state \<Rightarrow> (ClientError + OpenSection) \<times> client_state \<times> MutableSummary \<Rightarrow> ClientError option \<times> response_state" where
  "after_segment rp = (\<lambda>(r, st). case r of
     Inl e \<Rightarrow> (Some e, keep rp st)
   | Inr sec \<Rightarrow> (None, (keep rp st)\<lparr>rp_section := Some sec\<rparr>))"

text \<open>One turn of the loop; an error is thrown or is an \<open>ERROR\<close> frame, and ends it.\<close>

fun handleFrame :: "session \<Rightarrow> response_ctx \<Rightarrow> nat \<Rightarrow> ResponseFrame \<Rightarrow> response_state \<Rightarrow> ClientError option \<times> response_state" where
  "handleFrame sn ctx n (Lease f) rp =
     (None, rp\<lparr>rp_state := (rp_state rp)\<lparr>cs_leaseState := Some \<lparr>le_leaseId = Some (ls_leaseId f), le_expiresAtMs = Some (ls_expiresAtMs f),
        le_errorCode = None\<rparr>\<rparr>\<rparr>)"
| "handleFrame sn ctx n (PushResult f) rp =
     (case handlePushResult sn (rc_sent ctx) (details_of (rc_details ctx) (pr_clientCommitId f)) (rc_lastFinal ctx = Some n) f
             (rp_state rp, rp_summary rp) of
        (Inl e, st) \<Rightarrow> (Some e, keep rp st)
      | (Inr drained, st) \<Rightarrow> (None, keep rp st))"
| "handleFrame sn ctx n (SubStart f) rp = (None, rp\<lparr>rp_section := Some (openSection (rc_mode ctx) (rc_subs ctx) f)\<rparr>)"
| "handleFrame sn ctx n (Commit f) rp =
     (case rp_section rp of
        None \<Rightarrow> (None, rp)
      | Some sec \<Rightarrow>
          if os_skip sec then (None, rp)
          else (case applyCommitFrame (sn_env sn) (sn_schema sn) f (cd_rows (cs_db (rp_state rp))) of
              Inl e \<Rightarrow> (Some e, rp)
            | Inr rows \<Rightarrow> (None, rp\<lparr>rp_state := set_rows rows (rp_state rp),
                rp_summary := (rp_summary rp)\<lparr>sm_commitsApplied := Suc (sm_commitsApplied (rp_summary rp))\<rparr>\<rparr>)))"
| "handleFrame sn ctx n (SegmentInline payload) rp =
     (case live_section rp of
        None \<Rightarrow> (None, rp)
      | Some (sec, sub) \<Rightarrow> after_segment rp (applyRows sn payload sec (os_fresh sec \<and> \<not> os_cleared sec) (rp_state rp, rp_summary rp)))"
| "handleFrame sn ctx n (SegmentRef f) rp =
     (case live_section rp of
        None \<Rightarrow> (None, rp)
      | Some (sec, sub) \<Rightarrow> after_segment rp (applySegmentRef sn f sec sub (rp_state rp, rp_summary rp)))"
| "handleFrame sn ctx n (SubEnd f) rp =
     (case live_section rp of
        None \<Rightarrow> (None, rp\<lparr>rp_section := None\<rparr>)
      | Some (sec, sub) \<Rightarrow>
          if cs_localResetEpoch (rp_state rp) \<noteq> rc_resetEpoch ctx then (None, rp\<lparr>rp_section := None\<rparr>)
          else (case finishSection sn sub (os_start sec) (se_nextCursor f) (se_bootstrapState f) (rp_state rp, rp_summary rp) of
              (Inl e, st) \<Rightarrow> (Some e, keep rp st)
            | (Inr applied, st) \<Rightarrow>
                (None, (keep rp st)\<lparr>rp_section := None,
                   rp_deltaCursor := (if rc_mode ctx = DeltaMode \<and> applied then max (rp_deltaCursor rp) (se_nextCursor f) else rp_deltaCursor rp)\<rparr>)))"
| "handleFrame sn ctx n (ErrorF f) rp = (Some (ClientServerError (ef_code f) (ef_retryable f)), rp\<lparr>rp_section := None\<rparr>)"
| "handleFrame sn ctx n _ rp = (None, rp)"

fun handleFrames :: "session \<Rightarrow> response_ctx \<Rightarrow> nat \<Rightarrow> ResponseFrame list \<Rightarrow> response_state \<Rightarrow> ClientError option \<times> response_state" where
  "handleFrames sn ctx n [] rp = (None, rp)"
| "handleFrames sn ctx n (frame # frames) rp =
     (case handleFrame sn ctx n frame rp of
        (Some e, rp1) \<Rightarrow> (Some e, rp1)
      | (None, rp1) \<Rightarrow> handleFrames sn ctx (Suc n) frames rp1)"

section \<open>The response\<close>

record SyncSummary =
  sy_summary :: MutableSummary
  sy_bootstrapping :: "jsstring list"
  sy_schemaFloor :: "SchemaFloor option"

definition ackAfterPull :: "session \<Rightarrow> client_state \<Rightarrow> client_state" where
  "ackAfterPull sn s =
     (let cursors = filter (\<lambda>c. 0 \<le> c) (map su_cursor (filter (\<lambda>sub. su_status sub = StatusActive \<and> su_bootstrapState sub = None) (cs_subs s))) in
      if \<not> sn_socket sn \<or> cursors = [] then s else s\<lparr>cs_acks := cs_acks s @ [foldr min (tl cursors) (hd cursors)]\<rparr>)"

definition bootstrapping :: "client_state \<Rightarrow> jsstring list" where
  "bootstrapping s = map su_id (filter (\<lambda>sub. su_status sub = StatusActive \<and> su_bootstrapState sub \<noteq> None) (cs_subs s))"

text \<open>The frames after the header, the replay that follows in any case, and the acknowledgement.\<close>

definition processFrames ::
    "session \<Rightarrow> response_ctx \<Rightarrow> ResponseFrame list \<Rightarrow> MutableSummary \<Rightarrow> client_state \<Rightarrow> (ClientError + SyncSummary) \<times> client_state" where
  "processFrames sn ctx frames summary s =
     (let (err, rp) = handleFrames sn ctx 1 frames \<lparr>rp_state = s, rp_summary = summary, rp_section = None, rp_deltaCursor = -1\<rparr>;
          s1 = rp_state rp in
      case replayOutbox (sn_env sn) (sn_schema sn) (cs_db s1) of
        Inl e \<Rightarrow> (Inl e, s1)
      | Inr db \<Rightarrow>
          (let s2 = s1\<lparr>cs_db := db\<rparr> in
           case err of
             Some e \<Rightarrow> (Inl e, s2)
           | None \<Rightarrow>
               (let s3 = (if rc_mode ctx = PullMode then ackAfterPull sn s2
                          else if sn_socket sn \<and> 0 \<le> rp_deltaCursor rp then s2\<lparr>cs_acks := cs_acks s2 @ [rp_deltaCursor rp]\<rparr> else s2);
                    boot = bootstrapping s3;
                    s4 = (if cs_upgrading s3 \<and> rc_mode ctx = PullMode \<and> boot = [] \<and> cs_localResetEpoch s3 = rc_resetEpoch ctx
                          then s3\<lparr>cs_upgrading := False\<rparr> else s3) in
                (Inr \<lparr>sy_summary = rp_summary rp, sy_bootstrapping = boot, sy_schemaFloor = None\<rparr>, s4))))"

definition processResponse ::
    "session \<Rightarrow> int \<Rightarrow> ResponseFrame list \<Rightarrow> OutboxCommit list \<Rightarrow> SubscriptionRecord list option \<Rightarrow> response_mode \<Rightarrow> nat \<Rightarrow> client_state
     \<Rightarrow> (ClientError + SyncSummary) \<times> client_state" where
  "processResponse sn wireVersion frames sentCommits sentSubs mode resetEpoch s =
     (let summary = emptySummary (length sentCommits) in
      case frames of
        RespHeader header # rest \<Rightarrow>
          (case (rsh_logEpoch header, rsh_resetRequired header) of
             (Some logEpoch, Some resetRequired) \<Rightarrow>
               if wireVersion < 2 then (Inl ClientInvalidHostResponse, s)
               else (case rsh_requiredSchemaVersion header of
                   Some required \<Rightarrow>
                     (let floor = \<lparr>sf_required = required, sf_latest = rsh_latestSchemaVersion header\<rparr> in
                      (Inr \<lparr>sy_summary = summary, sy_bootstrapping = [], sy_schemaFloor = Some floor\<rparr>, s\<lparr>cs_schemaFloor := Some floor\<rparr>))
                 | None \<Rightarrow>
                     if resetRequired then
                       (if mode \<noteq> PullMode \<or> rest \<noteq> [] then (Inl ClientInvalidHostResponse, s)
                        else (case runLogEpochReset (sn_env sn) (sn_schema sn) logEpoch s of
                            (Inl e, s') \<Rightarrow> (Inl e, s')
                          | (Inr resets, s') \<Rightarrow>
                              (Inr \<lparr>sy_summary = summary\<lparr>sm_resets := resets\<rparr>, sy_bootstrapping = [], sy_schemaFloor = None\<rparr>, s')))
                     else if cs_logEpoch s \<noteq> Some logEpoch then (Inl ClientInvalidHostResponse, s)
                     else processFrames sn
                       \<lparr>rc_mode = mode, rc_sent = sentCommits, rc_subs = (case sentSubs of Some subs \<Rightarrow> subs | None \<Rightarrow> cs_subs s),
                        rc_details = rejectionDetailsByCommit frames, rc_lastFinal = lastFinalPushResult sentCommits frames,
                        rc_resetEpoch = resetEpoch\<rparr> rest summary s)
           | _ \<Rightarrow> (Inl ClientInvalidHostResponse, s))
      | _ \<Rightarrow> (Inl ClientInvalidRequest, s))"

end
