(* ===== verification/Client_Round.thy ===== *)
theory Client_Round
  imports Client_Response Message
begin

text \<open>
  A round of the client: \<open>#encodeOutboxForPush\<close>, \<open>#dropIncompatibleCommit\<close>, \<open>#runSync\<close> and
  \<open>syncUntilIdle\<close> of \<open>web-client/src/client.ts\<close>. The transport is a parameter that maps the bytes of
  the request to those of the response. Blob uploads, retry delays and diagnostics are left out.
\<close>

section \<open>Encoding the outbox\<close>

definition MAX_OPS_PER_REQUEST :: nat where "MAX_OPS_PER_REQUEST = 500"

definition incompatible_rejection :: "OutboxCommit \<Rightarrow> jsstring \<Rightarrow> RejectionRecord" where
  "incompatible_rejection commit message = \<lparr>rj_clientCommitId = ob_clientCommitId commit, rj_opIndex = 0,
     rj_code = js ''sync.outbox_incompatible'', rj_message = message, rj_retryable = False, rj_details = None,
     rj_operation = op_at (ob_operations commit) 0\<rparr>"

definition dropIncompatibleCommit :: "session \<Rightarrow> OutboxCommit \<Rightarrow> jsstring \<Rightarrow> client_state \<Rightarrow> (ClientError + unit) \<times> client_state" where
  "dropIncompatibleCommit sn commit message s =
     (let rejection = incompatible_rejection commit message;
          s1 = s\<lparr>cs_rejections := cs_rejections s @ [rejection]\<rparr> in
      case rollbackFailedCommit (sn_env sn) (sn_schema sn) commit (cs_db s) of
        Inl e \<Rightarrow> (Inl e, s)
      | Inr db \<Rightarrow>
          (case bindE (recordCommitOutcome (ob_clientCommitId commit) OutRejected (sn_now sn) [ResultError rejection]
                         (Some (ob_operations commit)) (cs_outcomes s)) (pruneIf True (sn_maxOutcomes sn)) of
             Inl e \<Rightarrow> (Inl e, s1)
           | Inr journal \<Rightarrow> (Inr (), s1\<lparr>cs_db := db, cs_outcomes := journal\<rparr>)))"

type_synonym encryption = "(CompiledClientTable \<Rightarrow> jsstring \<Rightarrow> RowValue list \<Rightarrow> RowValue list option) option"

record push_batch =
  pb_frames :: "PushCommitFrame list"
  pb_outbox :: "OutboxCommit list"
  pb_deferred :: nat
  pb_ops :: nat

text \<open>The message of the encode error is a parameter of the drop; the loop passes the empty text.\<close>

fun encodeLoop :: "session \<Rightarrow> encryption \<Rightarrow> OutboxCommit list \<Rightarrow> push_batch \<Rightarrow> client_state \<Rightarrow> (ClientError + push_batch) \<times> client_state" where
  "encodeLoop sn encryption [] b s = (Inr b, s)"
| "encodeLoop sn encryption (commit # rest) b s =
     (if pb_outbox b \<noteq> [] \<and> pb_ops b + length (ob_operations commit) > MAX_OPS_PER_REQUEST
      then encodeLoop sn encryption rest (b\<lparr>pb_deferred := Suc (pb_deferred b)\<rparr>) s
      else (case encodeOutboxCommit encryption (sn_schema sn) commit of
          Inr frame \<Rightarrow>
            encodeLoop sn encryption rest (b\<lparr>pb_frames := pb_frames b @ [frame], pb_outbox := pb_outbox b @ [commit],
              pb_ops := pb_ops b + length (ob_operations commit)\<rparr>) s
        | Inl e \<Rightarrow>
            if e = ClientOutboxIncompatible
            then (case dropIncompatibleCommit sn commit [] s of
                (Inl e', s') \<Rightarrow> (Inl e', s')
              | (Inr _, s') \<Rightarrow> encodeLoop sn encryption rest b s')
            else (Inl e, s)))"

definition encodeOutboxForPush :: "session \<Rightarrow> encryption \<Rightarrow> client_state \<Rightarrow> (ClientError + push_batch) \<times> client_state" where
  "encodeOutboxForPush sn encryption s =
     encodeLoop sn encryption (cd_outbox (cs_db s)) \<lparr>pb_frames = [], pb_outbox = [], pb_deferred = 0, pb_ops = 0\<rparr> s"

section \<open>One round\<close>

record round_env =
  re_clientId :: jsstring
  re_encryption :: encryption
  re_limits :: PullHeaderFrame

definition subscription_frame :: "SubscriptionRecord \<Rightarrow> RequestFrame" where
  "subscription_frame sub = Subscription \<lparr>sb_id = su_id sub, sb_table = su_table sub, sb_scopes = su_scopes sub, sb_params = su_params sub,
     sb_cursor = su_cursor sub, sb_bootstrapState = su_bootstrapState sub\<rparr>"

definition request_frames :: "session \<Rightarrow> round_env \<Rightarrow> push_batch \<Rightarrow> client_state \<Rightarrow> SubscriptionRecord list \<Rightarrow> RequestFrame list" where
  "request_frames sn env b s subs =
     ReqHeader \<lparr>rqh_clientId = re_clientId env, rqh_schemaVersion = ls_version (sn_schema sn), rqh_logEpoch = cs_logEpoch s\<rparr> #
     map PushCommit (pb_frames b) @ PullHeader ((re_limits env)\<lparr>ph_accept := sn_accept sn\<rparr>) # map subscription_frame subs"

definition is_lease_error :: "ClientError \<Rightarrow> jsstring option" where
  "is_lease_error e = (case e of
     ClientServerError code retryable \<Rightarrow>
       if code = js ''sync.auth_lease_required'' \<or> code = js ''sync.auth_lease_revoked'' then Some code else None
   | _ \<Rightarrow> None)"

definition note_lease_error :: "ClientError \<Rightarrow> client_state \<Rightarrow> client_state" where
  "note_lease_error e s = (case is_lease_error e of
     None \<Rightarrow> s
   | Some code \<Rightarrow> s\<lparr>cs_leaseState := Some (case cs_leaseState s of
       None \<Rightarrow> \<lparr>le_leaseId = None, le_expiresAtMs = None, le_errorCode = Some code\<rparr>
     | Some lease \<Rightarrow> lease\<lparr>le_errorCode := Some code\<rparr>)\<rparr>)"

record RoundResult =
  rr_summary :: SyncSummary
  rr_deferred :: nat

text \<open>The body of the \<open>try\<close> block.\<close>

definition roundBody ::
    "session \<Rightarrow> round_env \<Rightarrow> (byte list \<Rightarrow> byte list option) \<Rightarrow> client_state \<Rightarrow> (ClientError + RoundResult) \<times> client_state" where
  "roundBody sn env transport s =
     (case (if cs_logEpoch s = None then (Inr \<lparr>pb_frames = [], pb_outbox = [], pb_deferred = 0, pb_ops = 0\<rparr>, s)
            else encodeOutboxForPush sn (re_encryption env) s) of
        (Inl e, s1) \<Rightarrow> (Inl e, s1)
      | (Inr b, s1) \<Rightarrow>
          (let subs = filter (\<lambda>sub. su_status sub = StatusActive) (cs_subs s1) in
           case encodeMessage (RequestMessage PROTOCOL_WIRE_VERSION (request_frames sn env b s1 subs)) of
             Inl e \<Rightarrow> (Inl (ClientDecode e), s1)
           | Inr request \<Rightarrow>
               (case transport request of
                  None \<Rightarrow> (Inl ClientFetchFailed, s1)
                | Some response \<Rightarrow>
                    (case decodeMessage response of
                       Inl e \<Rightarrow> (Inl (ClientDecode e), s1)
                     | Inr (RequestMessage v fs) \<Rightarrow> (Inl ClientInvalidRequest, s1)
                     | Inr (ResponseMessage v fs) \<Rightarrow>
                         (case processResponse sn v fs (pb_outbox b) (Some subs) PullMode (cs_localResetEpoch s1) s1 of
                            (Inl e, s2) \<Rightarrow> (Inl e, s2)
                          | (Inr summary, s2) \<Rightarrow>
                              (case drainPendingEvictions (sn_env sn) (sn_schema sn) s2 of
                                 (Inl e, s3) \<Rightarrow> (Inl e, s3)
                               | (Inr _, s3) \<Rightarrow>
                                   (Inr \<lparr>rr_summary = summary, rr_deferred = pb_deferred b\<rparr>,
                                    if 0 < pb_deferred b then s3\<lparr>cs_needsPull := True\<rparr> else s3)))))))"

definition runSync ::
    "session \<Rightarrow> round_env \<Rightarrow> (byte list \<Rightarrow> byte list option) \<Rightarrow> client_state \<Rightarrow> (ClientError + RoundResult) \<times> client_state" where
  "runSync sn env transport s =
     (case cs_schemaFloor s of
        Some floor \<Rightarrow>
          (Inr \<lparr>rr_summary = \<lparr>sy_summary = emptySummary 0, sy_bootstrapping = [], sy_schemaFloor = Some floor\<rparr>, rr_deferred = 0\<rparr>, s)
      | None \<Rightarrow>
          (case roundBody sn env transport (s\<lparr>cs_needsPull := False\<rparr>) of
             (Inr r, s1) \<Rightarrow> (Inr r, s1)
           | (Inl e, s1) \<Rightarrow> (Inl e, note_lease_error e s1)))"

definition round_idle :: "RoundResult \<Rightarrow> bool" where
  "round_idle r \<longleftrightarrow>
     (let m = sy_summary (rr_summary r) in
      sm_commitsApplied m = 0 \<and> sm_segmentRowsApplied m = 0 \<and> sy_bootstrapping (rr_summary r) = [] \<and> sm_resets m = [] \<and> rr_deferred r = 0)"

text \<open>The transport of the \<open>i\<close>-th round is \<open>transport i\<close>.\<close>

fun syncRounds :: "session \<Rightarrow> round_env \<Rightarrow> (nat \<Rightarrow> byte list \<Rightarrow> byte list option) \<Rightarrow> nat \<Rightarrow> nat \<Rightarrow> client_state
    \<Rightarrow> (ClientError + RoundResult) \<times> client_state" where
  "syncRounds sn env transport i 0 s = (Inl ClientInvalidRequest, s)"
| "syncRounds sn env transport i (Suc rounds) s =
     (case runSync sn env (transport i) s of
        (Inl e, s1) \<Rightarrow> (Inl e, s1)
      | (Inr r, s1) \<Rightarrow>
          if sy_schemaFloor (rr_summary r) \<noteq> None \<or> round_idle r then (Inr r, s1)
          else syncRounds sn env transport (Suc i) rounds s1)"

definition syncUntilIdle :: "session \<Rightarrow> round_env \<Rightarrow> (nat \<Rightarrow> byte list \<Rightarrow> byte list option) \<Rightarrow> nat \<Rightarrow> client_state
    \<Rightarrow> (ClientError + RoundResult) \<times> client_state" where
  "syncUntilIdle sn env transport maxRounds s = syncRounds sn env transport 0 maxRounds s"

end
