(* ===== verification/Client_Outbox_Correct.thy ===== *)
theory Client_Outbox_Correct
  imports Client_Outbox
begin

text \<open>
  The optimistic layer is an overlay: the local rows are the confirmed rows with the operations of
  the pending commits applied in order, and every commit's before-images hold the rows as the
  commits before it left them. Mutations, the drain of the oldest commit and the rollback of any
  commit keep it so.
\<close>

section \<open>Views\<close>

type_synonym local_view = "jsstring \<times> jsstring \<Rightarrow> local_row option"

definition lview :: "CompiledClientSchema \<Rightarrow> local_rows \<Rightarrow> local_view" where
  "lview schema rows = (\<lambda>(t, r). case map_of (ls_tables schema) t of None \<Rightarrow> None | Some table \<Rightarrow> local_at table rows r)"

text \<open>Tables under their names, with text keys, and names without a NUL.\<close>

definition mirror_schema :: "CompiledClientSchema \<Rightarrow> bool" where
  "mirror_schema schema \<longleftrightarrow> (\<forall>t table. map_of (ls_tables schema) t = Some table \<longrightarrow>
     lt_name table = t \<and> text_keyed table \<and> 0 \<notin> set t \<and> distinct (map rc_name (lt_columns table)))"

definition okey :: "OutboxOperation \<Rightarrow> jsstring \<times> jsstring" where
  "okey op = (oo_table op, oo_rowId op)"

lemma lview_delete:
  assumes "text_engine env" "mirror_schema schema" "map_of (ls_tables schema) t = Some table"
  shows "lview schema (deleteLocalRow env table r rows) = (lview schema rows)((t, r) := None)"
proof
  fix k :: "jsstring \<times> jsstring"
  obtain t' r' where k: "k = (t', r')" by (cases k)
  show "lview schema (deleteLocalRow env table r rows) k = ((lview schema rows)((t, r) := None)) k"
  proof (cases "t' = t")
    case True
    then show ?thesis using assms local_at_delete [OF assms(1), of table r rows r'] k by (auto simp: lview_def mirror_schema_def)
  next
    case False
    have "lt_name other \<noteq> lt_name table" if "map_of (ls_tables schema) t' = Some other" for other
      using that assms(2,3) False by (auto simp: mirror_schema_def)
    then show ?thesis using False k local_at_delete_other by (auto simp: lview_def split: option.splits)
  qed
qed

lemma lview_upsert:
  assumes "text_engine env" "mirror_schema schema" "map_of (ls_tables schema) t = Some table"
    and up: "upsertLocalRow env table vals version rows = Inr rows'" and pk: "vals ! lt_primaryKeyIndex table = VString r"
  shows "lview schema rows' = (lview schema rows)((t, r) := Some (kept_row env table vals version))"
proof
  fix k :: "jsstring \<times> jsstring"
  obtain t' r' where k: "k = (t', r')" by (cases k)
  show "lview schema rows' k = ((lview schema rows)((t, r) := Some (kept_row env table vals version))) k"
  proof (cases "t' = t")
    case True
    have "text_keyed table" using assms(2,3) by (simp add: mirror_schema_def)
    then show ?thesis using True k assms(3) local_at_upsert [OF assms(1) _ pk up, of r'] by (simp add: lview_def)
  next
    case False
    have "lt_name other \<noteq> lt_name table" if "map_of (ls_tables schema) t' = Some other" for other
      using that assms(2,3) False by (auto simp: mirror_schema_def)
    then show ?thesis using False k local_at_upsert_other [OF up] by (auto simp: lview_def split: option.splits)
  qed
qed

lemma select_lview:
  assumes "text_engine env" "mirror_schema schema" "map_of (ls_tables schema) t = Some table"
  shows "selectLocalRow env table r rows = lview schema rows (t, r)"
  using assms select_local_at [OF assms(1), of table r rows] by (simp add: lview_def mirror_schema_def)

section \<open>Operations on views\<close>

definition op_row :: "client_env \<Rightarrow> CompiledClientSchema \<Rightarrow> OutboxOperation \<Rightarrow> local_row option \<Rightarrow> local_row option" where
  "op_row env schema op old =
     (if oo_op op = Delete then None
      else map_option (\<lambda>table. kept_row env table (op_values table op)
             (case old of None \<Rightarrow> OPTIMISTIC_VERSION | Some row \<Rightarrow> lr_version row)) (map_of (ls_tables schema) (oo_table op)))"

definition apply_op :: "client_env \<Rightarrow> CompiledClientSchema \<Rightarrow> OutboxOperation \<Rightarrow> local_view \<Rightarrow> local_view" where
  "apply_op env schema op v = v(okey op := op_row env schema op (v (okey op)))"

text \<open>An operation the client can have recorded: its table exists and an upsert carries its row id.\<close>

definition op_ok :: "CompiledClientSchema \<Rightarrow> OutboxOperation \<Rightarrow> bool" where
  "op_ok schema op \<longleftrightarrow> (case map_of (ls_tables schema) (oo_table op) of
      None \<Rightarrow> False
    | Some table \<Rightarrow> oo_op op = Upsert \<longrightarrow> op_values table op ! lt_primaryKeyIndex table = VString (oo_rowId op))"

lemma apply_ops_view:
  assumes "text_engine env" "mirror_schema schema"
  shows "applyOperationsLocally env schema ops rows = Inr rows' \<Longrightarrow> \<forall>op\<in>set ops. op_ok schema op \<Longrightarrow>
    lview schema rows' = fold (apply_op env schema) ops (lview schema rows)"
proof (induction ops arbitrary: rows)
  case (Cons op ops)
  obtain table where table: "map_of (ls_tables schema) (oo_table op) = Some table"
    and pk: "oo_op op = Upsert \<Longrightarrow> op_values table op ! lt_primaryKeyIndex table = VString (oo_rowId op)"
    using Cons.prems(2) by (auto simp: op_ok_def split: option.splits)
  show ?case
  proof (cases "oo_op op = Delete")
    case True
    then have "apply_op env schema op (lview schema rows) = lview schema (deleteLocalRow env table (oo_rowId op) rows)"
      using lview_delete [OF assms table, of "oo_rowId op" rows] by (simp add: apply_op_def op_row_def okey_def)
    then show ?thesis using Cons True table by simp
  next
    case False
    then have up: "oo_op op = Upsert" by (cases "oo_op op") simp_all
    let ?version = "case lview schema rows (okey op) of None \<Rightarrow> OPTIMISTIC_VERSION | Some row \<Rightarrow> lr_version row"
    obtain rows1 where rows1: "upsertLocalRow env table (op_values table op) ?version rows = Inr rows1"
      and rest: "applyOperationsLocally env schema ops rows1 = Inr rows'"
      using Cons.prems(1) table False select_lview [OF assms table, of "oo_rowId op" rows]
      by (auto simp: Let_def bindE_eq_Inr okey_def)
    have "apply_op env schema op (lview schema rows) = lview schema rows1"
      using lview_upsert [OF assms table rows1 pk [OF up]] False by (simp add: apply_op_def op_row_def okey_def table)
    then show ?thesis using Cons.IH [OF rest] Cons.prems(2) by simp
  qed
qed simp

text \<open>Only the operations of a key matter to it.\<close>

lemma ops_pointwise:
  "fold (apply_op env schema) ops v k = fold (op_row env schema) (filter (\<lambda>op. okey op = k) ops) (v k)"
  by (induction ops arbitrary: v) (auto simp: apply_op_def)

lemma ops_other: "\<forall>op\<in>set ops. okey op \<noteq> k \<Longrightarrow> fold (apply_op env schema) ops v k = v k"
  by (simp add: ops_pointwise filter_empty_conv)

text \<open>Applying the pending operations again changes nothing.\<close>

lemma op_rows_idem: "fold (op_row env schema) ops (fold (op_row env schema) ops x) = fold (op_row env schema) ops x"
proof -
  have version: "\<exists>y. \<forall>x. fold (op_row env schema) ops x = y" if "\<exists>op\<in>set ops. oo_op op = Delete \<or> map_of (ls_tables schema) (oo_table op) = None" for ops
    using that
  proof (induction ops)
    case (Cons op ops)
    then show ?case
      by (cases "\<exists>op\<in>set ops. oo_op op = Delete \<or> map_of (ls_tables schema) (oo_table op) = None") (auto simp: op_row_def)
  qed simp
  show ?thesis
  proof (cases "\<exists>op\<in>set ops. oo_op op = Delete \<or> map_of (ls_tables schema) (oo_table op) = None")
    case True
    then show ?thesis using version by metis
  next
    case False
    define ver :: "local_row option \<Rightarrow> int" where "ver = (\<lambda>x. case x of None \<Rightarrow> OPTIMISTIC_VERSION | Some row \<Rightarrow> lr_version row)"
    have step: "ver (op_row env schema op x) = ver x \<and> (\<forall>y. ver y = ver x \<longrightarrow> op_row env schema op y = op_row env schema op x)"
      if "oo_op op \<noteq> Delete" "map_of (ls_tables schema) (oo_table op) \<noteq> None" for op x
      using that by (auto simp: op_row_def ver_def kept_row_def)
    have "ver (fold (op_row env schema) ops x) = ver x \<and>
        (ops \<noteq> [] \<longrightarrow> (\<forall>y. ver y = ver x \<longrightarrow> fold (op_row env schema) ops y = fold (op_row env schema) ops x))" for x
      using False
    proof (induction ops arbitrary: x)
      case (Cons op ops)
      have op: "oo_op op \<noteq> Delete" "map_of (ls_tables schema) (oo_table op) \<noteq> None" using Cons.prems by auto
      note first = step [OF op, of x] and rest = Cons.IH [of "op_row env schema op x"]
      have "op_row env schema op y = op_row env schema op x" if "ver y = ver x" for y
        using first that by blast
      then show ?case using first rest Cons.prems by (metis fold_simps(2) list.set_intros(2))
    qed simp
    from this [of x] show ?thesis by (cases "ops = []") (simp, blast)
  qed
qed

lemma ops_idem: "fold (apply_op env schema) ops (fold (apply_op env schema) ops v) = fold (apply_op env schema) ops v"
  by (rule ext) (simp add: ops_pointwise op_rows_idem)

section \<open>Rows that come back as they were\<close>

text \<open>The values of a row as the client reads them, and a row that survives its before-image.\<close>

definition read_values :: "CompiledClientTable \<Rightarrow> local_row \<Rightarrow> RowValue list" where
  "read_values table row = map (\<lambda>(c, i). fromSqlValue c (cell i row)) (zip (lt_columns table) [0..<length (lt_columns table)])"

definition keeps_null :: "CompiledClientTable \<Rightarrow> SqlValue list \<Rightarrow> bool" where
  "keeps_null table cells \<longleftrightarrow> \<not> list_ex (\<lambda>(c, v). \<not> rc_nullable c \<and> v = SqlNull) (zip (lt_columns table) cells)"

definition settled_row :: "client_env \<Rightarrow> CompiledClientTable \<Rightarrow> jsstring \<Rightarrow> local_row \<Rightarrow> bool" where
  "settled_row env table r row \<longleftrightarrow>
     list_all json_safe (read_values table row) \<and> stored_cells env table (read_values table row) = lr_cells row \<and>
     read_values table row ! lt_primaryKeyIndex table = VString r \<and> keeps_null table (lr_cells row)"

definition settled_view :: "client_env \<Rightarrow> CompiledClientSchema \<Rightarrow> local_view \<Rightarrow> bool" where
  "settled_view env schema v \<longleftrightarrow>
     (\<forall>t r row. v (t, r) = Some row \<longrightarrow> (\<exists>table. map_of (ls_tables schema) t = Some table \<and> settled_row env table r row))"

text \<open>An operation of a known table whose values survive the outbox and give a settled row.\<close>

definition op_safe :: "client_env \<Rightarrow> CompiledClientSchema \<Rightarrow> OutboxOperation \<Rightarrow> bool" where
  "op_safe env schema op \<longleftrightarrow> reparsed_op op = op \<and>
     (case map_of (ls_tables schema) (oo_table op) of
        None \<Rightarrow> False
      | Some table \<Rightarrow> oo_op op = Upsert \<longrightarrow> op_values table op ! lt_primaryKeyIndex table = VString (oo_rowId op) \<and>
          settled_row env table (oo_rowId op) (kept_row env table (op_values table op) OPTIMISTIC_VERSION))"

lemma op_safe_ok: "op_safe env schema op \<Longrightarrow> op_ok schema op"
  by (auto simp: op_safe_def op_ok_def split: option.splits)

lemma op_safe_table: "op_safe env schema op \<Longrightarrow> \<exists>table. map_of (ls_tables schema) (oo_table op) = Some table"
  by (auto simp: op_safe_def split: option.splits)

lemma settled_row_version: "settled_row env table r (kept_row env table vals w) \<longleftrightarrow> settled_row env table r (kept_row env table vals v)"
  by (simp add: settled_row_def read_values_def kept_row_def cell_def cong: if_cong)

lemma settled_apply_op:
  assumes "op_safe env schema op" "settled_view env schema v"
  shows "settled_view env schema (apply_op env schema op v)"
proof -
  obtain table where table: "map_of (ls_tables schema) (oo_table op) = Some table" using op_safe_table [OF assms(1)] by blast
  then have "oo_op op \<noteq> Delete \<Longrightarrow> settled_row env table (oo_rowId op) (kept_row env table (op_values table op) w)" for w
    using assms(1) settled_row_version [of env table _ _ w OPTIMISTIC_VERSION] by (cases "oo_op op") (auto simp: op_safe_def)
  then show ?thesis using assms(2) table by (auto simp: settled_view_def apply_op_def op_row_def okey_def)
qed

lemma settled_apply_ops:
  "\<forall>op\<in>set ops. op_safe env schema op \<Longrightarrow> settled_view env schema v \<Longrightarrow> settled_view env schema (fold (apply_op env schema) ops v)"
  by (induction ops arbitrary: v) (simp_all add: settled_apply_op)

section \<open>Before-images\<close>

text \<open>The values an image holds, in column order, and the row it puts back.\<close>

definition named_values :: "CompiledClientTable \<Rightarrow> (jsstring \<times> JsonRowValue) list \<Rightarrow> RowValue list" where
  "named_values table vals = map (\<lambda>column. case map_of vals (rc_name column) of None \<Rightarrow> VNull | Some v \<Rightarrow> jsonToRowValue v) (lt_columns table)"

definition restores :: "client_env \<Rightarrow> CompiledClientSchema \<Rightarrow> local_view \<Rightarrow> OutboxOperation \<Rightarrow> OutboxBeforeImage \<Rightarrow> bool" where
  "restores env schema v op img \<longleftrightarrow>
     (case v (okey op) of
        None \<Rightarrow> \<not> bi_existed img
      | Some row \<Rightarrow> bi_existed img \<and> bi_syncVersion img = Some (lr_version row) \<and>
          (case (map_of (ls_tables schema) (oo_table op), bi_values img) of
             (Some table, Some vals) \<Rightarrow> named_values table vals = read_values table row
           | _ \<Rightarrow> False))"

lemma map_of_image_values:
  assumes "distinct (map rc_name (lt_columns table))" "i < length (lt_columns table)"
  shows "map_of (image_values table row) (rc_name (lt_columns table ! i)) = Some (rowValueToJson (fromSqlValue (lt_columns table ! i) (cell i row)))"
proof -
  have gen: "map_of (fold (\<lambda>(c, i) vals. AList.update (rc_name c) (f c i) vals) cs acc) (rc_name c) =
      (if (c, i) \<in> set cs then Some (f c i) else map_of acc (rc_name c))"
    if "distinct (map (rc_name \<circ> fst) cs)" "(c, i) \<in> set cs \<or> rc_name c \<notin> (rc_name \<circ> fst) ` set cs" for cs acc c i and f :: "RowColumn \<Rightarrow> nat \<Rightarrow> JsonRowValue"
    using that
  proof (induction cs arbitrary: acc)
    case (Cons d cs)
    obtain e j where d: "d = (e, j)" by (cases d)
    show ?case
    proof (cases "(c, i) \<in> set cs")
      case True
      then show ?thesis using Cons d by auto
    next
      case False
      have fresh: "rc_name c \<notin> (rc_name \<circ> fst) ` set cs" using Cons.prems d False by (force)
      then show ?thesis using Cons.IH [of "AList.update (rc_name e) (f e j) acc"] Cons.prems d False
        by (auto simp: update_conv')
    qed
  qed simp
  have "(lt_columns table ! i, i) \<in> set (zip (lt_columns table) [0..<length (lt_columns table)])"
    using assms(2) by (force simp: set_zip)
  moreover have "distinct (map (rc_name \<circ> fst) (zip (lt_columns table) [0..<length (lt_columns table)]))"
    using assms(1) by (simp flip: map_map)
  ultimately show ?thesis unfolding image_values_def by (subst gen) auto
qed

lemma map_of_reparsed: "map_of (reparsed_values vals) k = map_option reparsed (map_of vals k)"
  by (induction vals) (auto simp: reparsed_values_def)

lemma capture_restores:
  assumes "text_engine env" "mirror_schema schema" "op_safe env schema op" "settled_view env schema (lview schema rows)"
  shows "restores env schema (lview schema rows) op (reparsed_image (captureBeforeImage env schema rows op i))"
proof -
  obtain table where table: "map_of (ls_tables schema) (oo_table op) = Some table" using op_safe_table [OF assms(3)] by blast
  note select = select_lview [OF assms(1,2) table, of "oo_rowId op" rows]
  have same: "named_values table (reparsed_values (image_values table row)) = read_values table row"
    if "lview schema rows (okey op) = Some row" for row
  proof (rule nth_equalityI)
    fix i assume i: "i < length (named_values table (reparsed_values (image_values table row)))"
    have safe: "list_all json_safe (read_values table row)"
      using assms(4) that table by (fastforce simp: settled_view_def okey_def settled_row_def)
    have cell: "read_values table row ! i = fromSqlValue (lt_columns table ! i) (cell i row)" "i < length (read_values table row)"
      using i by (simp_all add: named_values_def read_values_def)
    have "distinct (map rc_name (lt_columns table))" using assms(2) table by (auto simp: mirror_schema_def)
    then show "named_values table (reparsed_values (image_values table row)) ! i = read_values table row ! i"
      using i map_of_image_values [of table i row] safe cell
      by (auto simp: named_values_def map_of_reparsed json_value_roundtrip list_all_length)
  qed (simp add: named_values_def read_values_def)
  show ?thesis
  proof (cases "lview schema rows (okey op)")
    case None
    then show ?thesis using table select by (simp add: restores_def captureBeforeImage_def reparsed_image_def okey_def)
  next
    case (Some row)
    then show ?thesis using table select same [OF Some]
      by (simp add: restores_def captureBeforeImage_def reparsed_image_def okey_def)
  qed
qed


section \<open>Restoring\<close>

lemma restoreBeforeImage_view:
  assumes env: "text_engine env" "mirror_schema schema" and op: "op_safe env schema op"
    and img: "restores env schema v op img" "settled_view env schema v"
    and run: "restoreBeforeImage env schema op img rows = Inr rows'"
  shows "lview schema rows' = (lview schema rows)(okey op := v (okey op))"
proof -
  obtain table where table: "map_of (ls_tables schema) (oo_table op) = Some table" using op_safe_table [OF op] by blast
  show ?thesis
  proof (cases "v (okey op)")
    case None
    then show ?thesis using img(1) run table lview_delete [OF env table, of "oo_rowId op" rows]
      by (auto simp: restores_def restoreBeforeImage_def okey_def)
  next
    case (Some row)
    then obtain vals where vals: "bi_existed img" "bi_syncVersion img = Some (lr_version row)" "bi_values img = Some vals"
      "named_values table vals = read_values table row"
      using img(1) table by (auto simp: restores_def split: option.splits)
    have settled: "settled_row env table (oo_rowId op) row"
      using img(2) Some table by (fastforce simp: settled_view_def okey_def)
    have "upsertLocalRow env table (read_values table row) (lr_version row) rows = Inr rows'"
      using run table vals by (simp add: restoreBeforeImage_def named_values_def)
    moreover have "kept_row env table (read_values table row) (lr_version row) = row"
      using settled by (simp add: settled_row_def kept_row_def)
    ultimately show ?thesis using lview_upsert [OF env table, of "read_values table row"] settled Some
      by (simp add: settled_row_def okey_def)
  qed
qed

text \<open>The key the loops compare is injective: no table name holds a NUL.\<close>

lemma append_zero_eq: "0 \<notin> set xs \<Longrightarrow> 0 \<notin> set ys \<Longrightarrow> xs @ 0 # us = ys @ 0 # vs \<longleftrightarrow> xs = ys \<and> us = vs" for xs :: "'a::zero list"
  by (induction xs arbitrary: ys) (case_tac ys; auto)+

lemma op_key_okey:
  assumes "mirror_schema schema" "op_safe env schema op" "op_safe env schema op'"
  shows "op_key op = op_key op' \<longleftrightarrow> okey op = okey op'"
proof -
  have "0 \<notin> set (oo_table op)" if "op_safe env schema op" for op
    using assms(1) op_safe_table [OF that] by (auto simp: mirror_schema_def)
  then show ?thesis using assms(2,3) append_zero_eq [of "oo_table op" "oo_table op'"] by (simp add: op_key_def okey_def)
qed

lemma restoreLoop_view:
  assumes env: "text_engine env" "mirror_schema schema" and v: "settled_view env schema v"
  shows "restoreLoop env schema images ops i restored rows = Inr rows' \<Longrightarrow> \<forall>op\<in>set ops. op_safe env schema op \<Longrightarrow>
    (\<forall>j<length ops. \<exists>img. find_by bi_opIndex (i + j) images = Some img \<and> restores env schema v (ops ! j) img) \<Longrightarrow>
    lview schema rows' k = (if \<exists>op\<in>set ops. okey op = k \<and> op_key op \<notin> restored then v k else lview schema rows k)"
proof (induction ops arbitrary: i restored rows)
  case (Cons op ops)
  have tail: "\<forall>j<length ops. \<exists>img. find_by bi_opIndex (Suc i + j) images = Some img \<and> restores env schema v (ops ! j) img"
    using Cons.prems(3) by (metis Suc_less_eq add_Suc_shift length_Cons nth_Cons_Suc)
  note IH = Cons.IH [OF _ _ tail]

  show ?case
  proof (cases "op_key op \<in> restored")
    case True
    then show ?thesis using IH [of restored rows] Cons.prems(1,2) by simp
  next
    case False
    obtain img where img: "find_by bi_opIndex i images = Some img" "restores env schema v op img"
      using Cons.prems(3) by fastforce
    then obtain rows1 where rows1: "restoreBeforeImage env schema op img rows = Inr rows1"
      and rest: "restoreLoop env schema images ops (Suc i) (insert (op_key op) restored) rows1 = Inr rows'"
      using Cons.prems(1) False by (auto simp: bindE_eq_Inr)
    have first: "lview schema rows1 = (lview schema rows)(okey op := v (okey op))"
      using restoreBeforeImage_view [OF env _ img(2) v rows1] Cons.prems(2) by simp
    have inj: "op_key op' = op_key op \<longleftrightarrow> okey op' = okey op" if "op' \<in> set ops" for op'
      using Cons.prems(2) that by (intro op_key_okey [OF env(2)]) auto
    have "(\<exists>op'\<in>set ops. okey op' = k \<and> op_key op' \<notin> insert (op_key op) restored) \<longleftrightarrow>
        k \<noteq> okey op \<and> (\<exists>op'\<in>set ops. okey op' = k \<and> op_key op' \<notin> restored)"
      using inj by auto
    then show ?thesis using IH [OF rest] Cons.prems(2) first False by auto
  qed
qed simp

section \<open>Nothing fails without a unique index\<close>

definition no_unique :: "CompiledClientSchema \<Rightarrow> bool" where
  "no_unique schema \<longleftrightarrow> (\<forall>t table. map_of (ls_tables schema) t = Some table \<longrightarrow> list_all (\<lambda>i. \<not> ci_unique i) (lt_indexes table))"

lemma upsert_succeeds:
  assumes "no_unique schema" "map_of (ls_tables schema) t = Some table"
    and "length vals = length (lt_columns table)" "keeps_null table (stored_cells env table vals)"
  shows "\<exists>rows'. upsertLocalRow env table vals version rows = Inr rows'"
proof -
  have "\<not> index_clash table row other i" if "i \<in> set (lt_indexes table)" for row other i
    using assms(1,2) that by (auto simp: no_unique_def list_all_iff index_clash_def)
  then have "\<not> list_ex (index_clash table row other) (lt_indexes table)" for row other by (auto simp: list_ex_iff)
  then show ?thesis using assms(3,4) by (auto simp: upsertLocalRow_def Let_def violates_def keeps_null_def list_ex_iff)
qed

lemma restore_succeeds:
  assumes "no_unique schema" "op_safe env schema op" "restores env schema v op img" "settled_view env schema v"
  shows "\<exists>rows'. restoreBeforeImage env schema op img rows = Inr rows'"
proof -
  obtain table where table: "map_of (ls_tables schema) (oo_table op) = Some table" using op_safe_table [OF assms(2)] by blast
  show ?thesis
  proof (cases "v (okey op)")
    case None
    then show ?thesis using assms(3) table by (simp add: restores_def restoreBeforeImage_def)
  next
    case (Some row)
    have "settled_row env table (oo_rowId op) row" using assms(4) Some table by (fastforce simp: settled_view_def okey_def)
    then have "\<exists>rows'. upsertLocalRow env table (read_values table row) (lr_version row) rows = Inr rows'"
      by (intro upsert_succeeds [OF assms(1) table]) (simp_all add: settled_row_def read_values_def)
    then show ?thesis using assms(3) Some table by (auto simp: restores_def restoreBeforeImage_def named_values_def split: option.splits)
  qed
qed

lemma apply_ops_succeed:
  assumes "no_unique schema"
  shows "\<forall>op\<in>set ops. op_safe env schema op \<Longrightarrow> \<exists>rows'. applyOperationsLocally env schema ops rows = Inr rows'"
proof (induction ops arbitrary: rows)
  case (Cons op ops)
  obtain table where table: "map_of (ls_tables schema) (oo_table op) = Some table"
    using op_safe_table Cons.prems by fastforce
  have "keeps_null table (stored_cells env table (op_values table op))" if "oo_op op \<noteq> Delete"
    using Cons.prems table that by (cases "oo_op op") (auto simp: op_safe_def settled_row_def kept_row_def)
  moreover have "length (op_values table op) = length (lt_columns table)" by (simp add: op_values_def)
  ultimately have "\<exists>rows1. upsertLocalRow env table (op_values table op) version rows = Inr rows1" if "oo_op op \<noteq> Delete" for version
    using upsert_succeeds [OF assms table] that by blast
  then obtain f where "oo_op op \<noteq> Delete \<Longrightarrow> upsertLocalRow env table (op_values table op) version rows = Inr (f version)" for version
    by metis
  then show ?case using Cons table by (auto simp: Let_def)
qed simp

lemma restoreLoop_succeeds:
  assumes "no_unique schema" "settled_view env schema v"
  shows "\<forall>op\<in>set ops. op_safe env schema op \<Longrightarrow>
    (\<forall>j<length ops. \<exists>img. find_by bi_opIndex (i + j) images = Some img \<and> restores env schema v (ops ! j) img) \<Longrightarrow>
    \<exists>rows'. restoreLoop env schema images ops i restored rows = Inr rows'"
proof (induction ops arbitrary: i restored rows)
  case (Cons op ops)
  have tail: "\<forall>j<length ops. \<exists>img. find_by bi_opIndex (Suc i + j) images = Some img \<and> restores env schema v (ops ! j) img"
    using Cons.prems(2) by (metis Suc_less_eq add_Suc_shift length_Cons nth_Cons_Suc)
  obtain img where img: "find_by bi_opIndex i images = Some img" "restores env schema v op img"
    using Cons.prems(2) by fastforce
  obtain rows1 where "restoreBeforeImage env schema op img rows = Inr rows1"
    using restore_succeeds [OF assms(1) _ img(2) assms(2)] Cons.prems(1) by (metis list.set_intros(1))
  then show ?case using Cons.IH [OF _ tail] Cons.prems(1) img by simp
qed simp


section \<open>Images by commit\<close>

definition commit_images :: "client_env \<Rightarrow> CompiledClientSchema \<Rightarrow> (jsstring \<times> OutboxBeforeImage) list \<Rightarrow> local_view \<Rightarrow> OutboxCommit \<Rightarrow> bool" where
  "commit_images env schema images v c \<longleftrightarrow> (\<forall>i<length (ob_operations c). \<exists>img.
     find_by image_key (ob_clientCommitId c, i) images = Some (ob_clientCommitId c, img) \<and> restores env schema v (ob_operations c ! i) img)"

text \<open>Every pending commit's images hold the rows as the commits before it left them.\<close>

fun images_ok :: "client_env \<Rightarrow> CompiledClientSchema \<Rightarrow> (jsstring \<times> OutboxBeforeImage) list \<Rightarrow> local_view \<Rightarrow> OutboxCommit list \<Rightarrow> bool" where
  "images_ok env schema images v [] \<longleftrightarrow> True"
| "images_ok env schema images v (c # cs) \<longleftrightarrow>
     commit_images env schema images v c \<and> images_ok env schema images (fold (apply_op env schema) (ob_operations c) v) cs"

definition pending :: "OutboxCommit list \<Rightarrow> OutboxOperation list" where
  "pending cs = concat (map ob_operations cs)"

lemma pending_simps [simp]: "pending [] = []" "pending (c # cs) = ob_operations c @ pending cs" "pending (cs @ ds) = pending cs @ pending ds"
  by (simp_all add: pending_def)

lemma images_ok_append:
  "images_ok env schema images v (cs @ ds) \<longleftrightarrow>
     images_ok env schema images v cs \<and> images_ok env schema images (fold (apply_op env schema) (pending cs) v) ds"
  by (induction cs arbitrary: v) auto

lemma images_ok_cong:
  "(\<And>c i. c \<in> set cs \<Longrightarrow> find_by image_key (ob_clientCommitId c, i) images' = find_by image_key (ob_clientCommitId c, i) images) \<Longrightarrow>
   images_ok env schema images' v cs = images_ok env schema images v cs"
  by (induction cs arbitrary: v) (auto simp: commit_images_def)

lemma find_listed:
  assumes "distinct (map image_key (cd_images db))"
  shows "find_by bi_opIndex i (listOutboxBeforeImages db c) = map_option snd (find_by image_key (c, i) (cd_images db))"
proof -
  let ?own = "filter (\<lambda>(i, _). i = c) (cd_images db)"
  have "distinct (map image_key ?own)" using assms by (simp add: distinct_map_filter)
  then have "distinct (map bi_opIndex (map snd ?own))"
    by (auto simp: distinct_map inj_on_def image_key_def)
  moreover have "distinct (map bi_opIndex imgs) \<Longrightarrow> distinct (map bi_opIndex (sort_key bi_opIndex imgs))" for imgs
    by (simp add: distinct_map)
  ultimately have dist: "distinct (map bi_opIndex (listOutboxBeforeImages db c))"
    unfolding listOutboxBeforeImages_def by blast
  have "find_by bi_opIndex i (listOutboxBeforeImages db c) = Some img \<longleftrightarrow> find_by image_key (c, i) (cd_images db) = Some (c, img)" for img
    unfolding find_by_Some_iff [OF dist] find_by_Some_iff [OF assms]
    by (force simp: listOutboxBeforeImages_def image_key_def)
  moreover have "fst x = c" if "find_by image_key (c, i) (cd_images db) = Some x" for x
    using find_by_SomeD [OF that] by (auto simp: image_key_def split: prod.splits)
  ultimately show ?thesis by (cases "find_by image_key (c, i) (cd_images db)") (force intro: option.exhaust)+
qed

section \<open>Replacing images\<close>

lemma find_replaced:
  "distinct (map bi_opIndex reps) \<Longrightarrow> find_by image_key (d, i) (replaceOutboxBeforeImages c reps images) =
     (case (if d = c then find_by bi_opIndex i reps else None) of
        None \<Rightarrow> find_by image_key (d, i) images | Some img \<Rightarrow> Some (c, reparsed_image img))"
proof (induction reps arbitrary: images)
  case (Cons img reps)
  let ?images = "delete_where (\<lambda>x. image_key x = (c, bi_opIndex img)) images @ [(c, reparsed_image img)]"
  have "replaceOutboxBeforeImages c (img # reps) images = replaceOutboxBeforeImages c reps ?images"
    by (simp add: replaceOutboxBeforeImages_def)
  moreover have "find_by image_key (d, i) ?images = (if (d, i) = (c, bi_opIndex img) then Some (c, reparsed_image img) else find_by image_key (d, i) images)"
    by (auto simp: find_by_append find_by_Cons find_by_delete_keys [where Q = "\<lambda>x. x = _"] image_key_def reparsed_image_def split: option.splits)
  moreover have "find_by bi_opIndex (bi_opIndex img) reps = None" using Cons.prems by (simp add: find_by_None_iff)
  ultimately show ?case using Cons by (auto simp: find_by_Cons split: option.splits)
qed (simp add: replaceOutboxBeforeImages_def)

lemma distinct_replaced:
  "distinct (map image_key images) \<Longrightarrow> distinct (map image_key (replaceOutboxBeforeImages c reps images))"
proof (induction reps arbitrary: images)
  case (Cons img reps)
  let ?images = "delete_where (\<lambda>x. image_key x = (c, bi_opIndex img)) images @ [(c, reparsed_image img)]"
  have "distinct (map image_key ?images)"
    using distinct_delete_where [OF Cons.prems] by (auto simp: image_key_def reparsed_image_def)
  then show ?case using Cons.IH [of ?images] by (simp add: replaceOutboxBeforeImages_def)
qed (simp add: replaceOutboxBeforeImages_def)

lemma captured_index [simp]: "bi_opIndex (captureBeforeImage env schema rows op i) = i"
  by (simp add: captureBeforeImage_def split: option.splits)

lemma captured_distinct: "distinct (map bi_opIndex (captureBeforeImages env schema rows ops only))"
proof -
  have "map bi_opIndex (captureBeforeImages env schema rows ops only) =
      map snd (filter (\<lambda>(op, i). case only of None \<Rightarrow> True | Some keys \<Rightarrow> op_key op \<in> keys) (zip ops [0..<length ops]))"
    by (auto simp: captureBeforeImages_def)
  moreover have "distinct (map snd (zip ops [0..<length ops]))" by simp
  ultimately show ?thesis using distinct_map_filter by metis
qed

lemma set_zip_upt: "set (zip xs [0..<length xs]) = (\<lambda>i. (xs ! i, i)) ` {..<length xs}"
  by (force simp: set_zip)

lemma find_captured:
  "find_by bi_opIndex i (captureBeforeImages env schema rows ops only) =
     (if i < length ops \<and> (case only of None \<Rightarrow> True | Some keys \<Rightarrow> op_key (ops ! i) \<in> keys)
      then Some (captureBeforeImage env schema rows (ops ! i) i) else None)"
proof -
  have "find_by bi_opIndex i (captureBeforeImages env schema rows ops only) = Some img \<longleftrightarrow>
      i < length ops \<and> (case only of None \<Rightarrow> True | Some keys \<Rightarrow> op_key (ops ! i) \<in> keys) \<and> img = captureBeforeImage env schema rows (ops ! i) i" for img
    unfolding find_by_Some_iff [OF captured_distinct] by (cases only) (auto simp: captureBeforeImages_def set_zip_upt)
  then show ?thesis by (cases "find_by bi_opIndex i (captureBeforeImages env schema rows ops only)") auto
qed


section \<open>Rebasing the later commits\<close>

lemma restores_cong: "v (okey op) = w (okey op) \<Longrightarrow> restores env schema v op img = restores env schema w op img"
  by (simp add: restores_def)

lemma settled_mixed:
  "settled_view env schema v \<Longrightarrow> settled_view env schema w \<Longrightarrow> (\<And>k. u k = v k \<or> u k = w k) \<Longrightarrow> settled_view env schema u"
  unfolding settled_view_def by metis

text \<open>
  \<open>w\<close> is the view with the failed commit, \<open>u\<close> the view without it; they differ on the keys \<open>K\<close>
  only. The local rows are already rebased on \<open>K\<close>.
\<close>

lemma rebase_step:
  assumes env: "text_engine env" "mirror_schema schema"
    and ops: "\<forall>op\<in>set (ob_operations c). op_safe env schema op" "\<And>op. op \<in> set (ob_operations c) \<Longrightarrow> op_key op \<in> keys \<longleftrightarrow> okey op \<in> K"
    and settled: "settled_view env schema u" "settled_view env schema (lview schema rows)"
    and uw: "\<And>k. k \<notin> K \<Longrightarrow> w k = u k" and rows: "\<And>k. k \<in> K \<Longrightarrow> lview schema rows k = u k"
    and images: "commit_images env schema images w c"
  shows "commit_images env schema (replaceOutboxBeforeImages (ob_clientCommitId c)
      (captureBeforeImages env schema rows (ob_operations c) (Some keys)) images) u c"
  unfolding commit_images_def
proof (intro allI impI)
  fix i assume i: "i < length (ob_operations c)"
  let ?op = "ob_operations c ! i"
  have op: "?op \<in> set (ob_operations c)" using i by simp
  show "\<exists>img. find_by image_key (ob_clientCommitId c, i) (replaceOutboxBeforeImages (ob_clientCommitId c)
      (captureBeforeImages env schema rows (ob_operations c) (Some keys)) images) = Some (ob_clientCommitId c, img) \<and> restores env schema u ?op img"
  proof (cases "okey ?op \<in> K")
    case True
    have "op_safe env schema ?op" using ops(1) op by blast
    then have "restores env schema u ?op (reparsed_image (captureBeforeImage env schema rows ?op i))"
      using capture_restores [OF env _ settled(2)] rows [OF True] restores_cong by metis
    then show ?thesis using True i ops(2) [OF op] by (simp add: find_replaced [OF captured_distinct] find_captured)
  next
    case False
    then show ?thesis using images i ops(2) [OF op] restores_cong [of u ?op w] uw
      by (simp add: find_replaced [OF captured_distinct] find_captured commit_images_def)
  qed
qed

lemma rebaseLoop_view:
  assumes env: "text_engine env" "mirror_schema schema"
  shows "rebaseLoop env schema keys cs rows images = Inr (rows', images') \<Longrightarrow>
    \<forall>op\<in>set (pending cs). op_safe env schema op \<and> (op_key op \<in> keys \<longleftrightarrow> okey op \<in> K) \<Longrightarrow>
    settled_view env schema u \<Longrightarrow> settled_view env schema w \<Longrightarrow> \<forall>k. k \<notin> K \<longrightarrow> w k = u k \<Longrightarrow>
    \<forall>k. lview schema rows k = (if k \<in> K then u k else fold (apply_op env schema) (pending cs) w k) \<Longrightarrow>
    images_ok env schema images w cs \<Longrightarrow> distinct (map ob_clientCommitId cs) \<Longrightarrow>
    lview schema rows' = fold (apply_op env schema) (pending cs) u \<and> images_ok env schema images' u cs \<and>
    (\<forall>d i. d \<notin> ob_clientCommitId ` set cs \<longrightarrow> find_by image_key (d, i) images' = find_by image_key (d, i) images) \<and>
    (distinct (map image_key images) \<longrightarrow> distinct (map image_key images'))"
proof (induction cs arbitrary: rows images u w)
  case Nil
  then show ?case by (auto simp: fun_eq_iff)
next
  case (Cons c cs)
  let ?ops = "ob_operations c" and ?apply = "fold (apply_op env schema)"
  let ?affected = "filter (\<lambda>op. op_key op \<in> keys) ?ops"
  let ?images = "replaceOutboxBeforeImages (ob_clientCommitId c) (captureBeforeImages env schema rows ?ops (Some keys)) images"
  have key: "op_key op \<in> keys \<longleftrightarrow> okey op \<in> K" if "op \<in> set ?ops" for op using Cons.prems(2) that by simp
  have safe: "\<forall>op\<in>set ?ops. op_safe env schema op" using Cons.prems(2) by simp
  have settled: "settled_view env schema (?apply ?ops u)" "settled_view env schema (?apply ?ops w)"
    using settled_apply_ops safe Cons.prems(3,4) by blast+
  have agree: "\<forall>k. k \<notin> K \<longrightarrow> ?apply ?ops w k = ?apply ?ops u k" using Cons.prems(5) by (simp add: ops_pointwise)
  note IH = Cons.IH [OF _ _ settled agree]
  have rest: "\<forall>op\<in>set (pending cs). op_safe env schema op \<and> (op_key op \<in> keys \<longleftrightarrow> okey op \<in> K)" using Cons.prems(2) by simp
  have "settled_view env schema (?apply (pending (c # cs)) w)"
    using settled_apply_ops [OF _ Cons.prems(4)] Cons.prems(2) by blast
  then have rows_settled: "settled_view env schema (lview schema rows)"
    using settled_mixed [OF Cons.prems(3)] Cons.prems(6) by metis
  have on: "?apply ?affected v k = (if k \<in> K then ?apply ?ops v k else v k)" for v k
  proof -
    have "filter (\<lambda>op. okey op = k) ?affected = (if k \<in> K then filter (\<lambda>op. okey op = k) ?ops else [])"
      using key by (auto simp: filter_empty_conv intro: filter_cong)
    then show ?thesis by (simp only: ops_pointwise if_distrib [of "\<lambda>x. fold _ x _"]) simp
  qed
  show ?case
  proof (cases "?affected = []")
    case True
    then have "rebaseLoop env schema keys cs rows images = Inr (rows', images')" using Cons.prems(1) by simp
    moreover have "\<forall>k. lview schema rows k = (if k \<in> K then ?apply ?ops u k else ?apply (pending cs) (?apply ?ops w) k)"
    proof
      fix k
      have "?apply ?ops u k = u k" if "k \<in> K" using on [of u k] that unfolding True by simp
      then show "lview schema rows k = (if k \<in> K then ?apply ?ops u k else ?apply (pending cs) (?apply ?ops w) k)"
        using spec [OF Cons.prems(6), of k] by simp
    qed
    moreover have "commit_images env schema images u c"
    proof -
      have "okey op \<notin> K" if "op \<in> set ?ops" for op using True key [OF that] that by (auto simp: filter_empty_conv)
      then have "restores env schema u op img = restores env schema w op img" if "op \<in> set ?ops" for op img
        using Cons.prems(5) that by (metis restores_cong)
      then show ?thesis using Cons.prems(7) by (simp add: commit_images_def)
    qed
    ultimately show ?thesis using IH [OF _ rest, of rows images] Cons.prems(7,8)
      by (auto simp: commit_images_def)
  next
    case False
    then obtain rows1 where rows1: "applyOperationsLocally env schema ?affected rows = Inr rows1"
      and loop: "rebaseLoop env schema keys cs rows1 ?images = Inr (rows', images')"
      using Cons.prems(1) by (auto simp: Let_def bindE_eq_Inr)
    have view1: "lview schema rows1 = ?apply ?affected (lview schema rows)"
      using apply_ops_view [OF env rows1] safe op_safe_ok by (metis filter_is_subset subset_eq)
    have "?apply ?ops (lview schema rows) k = ?apply ?ops u k" if "k \<in> K" for k
      using spec [OF Cons.prems(6), of k] that by (simp add: ops_pointwise)
    then have views: "\<forall>k. lview schema rows1 k = (if k \<in> K then ?apply ?ops u k else ?apply (pending cs) (?apply ?ops w) k)"
      using spec [OF Cons.prems(6)] by (simp add: view1 on del: split_paired_All)
    have other: "find_by image_key (d, i) ?images = find_by image_key (d, i) images" if "d \<noteq> ob_clientCommitId c" for d i
      using that by (simp add: find_replaced [OF captured_distinct])
    have "images_ok env schema ?images (?apply ?ops w) cs = images_ok env schema images (?apply ?ops w) cs"
      using Cons.prems(8) other by (intro images_ok_cong) (metis distinct.simps(2) image_eqI list.set_map list.simps(9))
    then have after: "lview schema rows' = ?apply (pending cs) (?apply ?ops u) \<and> images_ok env schema images' (?apply ?ops u) cs \<and>
        (\<forall>d i. d \<notin> ob_clientCommitId ` set cs \<longrightarrow> find_by image_key (d, i) images' = find_by image_key (d, i) ?images) \<and>
        (distinct (map image_key ?images) \<longrightarrow> distinct (map image_key images'))"
      using IH [OF loop rest views] Cons.prems(7,8) by simp
    have "commit_images env schema ?images u c"
      using Cons.prems(5,7) spec [OF Cons.prems(6)] by (intro rebase_step [OF env safe key Cons.prems(3) rows_settled, where w = w]) auto
    then have "commit_images env schema images' u c"
      using after Cons.prems(8) by (simp add: commit_images_def)
    then show ?thesis using after other distinct_replaced [of images] by simp
  qed
qed


section \<open>The invariant of the outbox\<close>

text \<open>
  The local rows are the base with the pending operations on top, and every commit's images are
  the rows below it.
\<close>

definition overlay :: "client_env \<Rightarrow> CompiledClientSchema \<Rightarrow> OutboxCommit list \<Rightarrow> local_view \<Rightarrow> local_view" where
  "overlay env schema cs base = fold (apply_op env schema) (pending cs) base"

definition outbox_inv :: "client_env \<Rightarrow> CompiledClientSchema \<Rightarrow> local_view \<Rightarrow> client_db \<Rightarrow> bool" where
  "outbox_inv env schema base db \<longleftrightarrow>
     settled_view env schema base \<and> lview schema (cd_rows db) = overlay env schema (cd_outbox db) base \<and>
     sorted_wrt (<) (map ob_seq (cd_outbox db)) \<and> (\<forall>c\<in>set (cd_outbox db). ob_seq c \<le> cd_outboxSeq db) \<and>
     distinct (map ob_clientCommitId (cd_outbox db)) \<and> (\<forall>op\<in>set (pending (cd_outbox db)). op_safe env schema op) \<and>
     distinct (map image_key (cd_images db)) \<and> images_ok env schema (cd_images db) base (cd_outbox db)"

lemma outbox_filter_ids:
  assumes "distinct (map ob_clientCommitId (pre @ c # post))"
  shows "delete_where (\<lambda>d. ob_clientCommitId d = ob_clientCommitId c) (pre @ c # post) = pre @ post"
proof -
  have "filter (\<lambda>d. ob_clientCommitId d \<noteq> ob_clientCommitId c) xs = xs" if "ob_clientCommitId c \<notin> ob_clientCommitId ` set xs" for xs
    using that by (force simp: filter_id_conv)
  from this [of pre] this [of post] show ?thesis using assms by (simp add: delete_where_def)
qed

lemma later_commits:
  assumes "sorted_wrt (<) (map ob_seq (pre @ c # post))"
  shows "filter (\<lambda>later. ob_seq c < ob_seq later) (pre @ post) = post"
proof -
  have "filter (\<lambda>later. ob_seq c < ob_seq later) pre = []" using assms by (auto simp: filter_empty_conv sorted_wrt_append)
  moreover have "filter (\<lambda>later. ob_seq c < ob_seq later) post = post" using assms by (auto simp: filter_id_conv sorted_wrt_append)
  ultimately show ?thesis by simp
qed

lemma find_deleted_images:
  "find_by image_key (d, i) (delete_where (\<lambda>(j, _). j = c) images) = (if d = c then None else find_by image_key (d, i) images)"
proof -
  have "delete_where (\<lambda>(j, _). j = c) images = delete_where (\<lambda>x. fst (image_key x) = c) images"
    by (auto simp: delete_where_def image_key_def intro: filter_cong)
  then show ?thesis by (simp add: find_by_delete_keys [where Q = "\<lambda>k. fst k = c"])
qed

text \<open>The oldest commit is confirmed: its rows join the base.\<close>

lemma inv_drain:
  assumes inv: "outbox_inv env schema base db" and first: "cd_outbox db = c # rest"
  shows "outbox_inv env schema (fold (apply_op env schema) (ob_operations c) base) (deleteOutboxCommit (ob_clientCommitId c) db)"
proof -
  have box: "cd_outbox (deleteOutboxCommit (ob_clientCommitId c) db) = rest"
    using inv outbox_filter_ids [of "[]" c rest] first by (simp add: outbox_inv_def deleteOutboxCommit_def)
  have "images_ok env schema (delete_where (\<lambda>(j, _). j = ob_clientCommitId c) (cd_images db)) v rest = images_ok env schema (cd_images db) v rest" for v
  proof (rule images_ok_cong)
    fix d i assume "d \<in> set rest"
    moreover have "ob_clientCommitId c \<notin> ob_clientCommitId ` set rest" using inv first by (simp add: outbox_inv_def)
    ultimately have "ob_clientCommitId d \<noteq> ob_clientCommitId c" by (metis image_eqI)
    then show "find_by image_key (ob_clientCommitId d, i) (delete_where (\<lambda>(j, _). j = ob_clientCommitId c) (cd_images db)) =
        find_by image_key (ob_clientCommitId d, i) (cd_images db)" by (simp add: find_deleted_images)
  qed
  then show ?thesis
    using inv first box settled_apply_ops [of "ob_operations c" env schema base] distinct_delete_where [of image_key "cd_images db"]
    unfolding outbox_inv_def by (simp add: deleteOutboxCommit_def overlay_def)
qed

lemma commit_views:
  assumes "outbox_inv env schema base db" and "cd_outbox db = pre @ c # post"
  shows "settled_view env schema (overlay env schema pre base)"
    and "commit_images env schema (cd_images db) (overlay env schema pre base) c"
    and "images_ok env schema (cd_images db) (overlay env schema (pre @ [c]) base) post"
    and "\<And>i. find_by bi_opIndex i (listOutboxBeforeImages db (ob_clientCommitId c)) =
      map_option snd (find_by image_key (ob_clientCommitId c, i) (cd_images db))"
  using assms settled_apply_ops [of "pending pre" env schema base] find_listed [of db]
  by (simp_all add: outbox_inv_def images_ok_append overlay_def)

lemma listed_restore:
  assumes "outbox_inv env schema base db" and "cd_outbox db = pre @ c # post"
  shows "\<forall>j<length (ob_operations c). \<exists>img. find_by bi_opIndex (0 + j) (listOutboxBeforeImages db (ob_clientCommitId c)) = Some img \<and>
    restores env schema (overlay env schema pre base) (ob_operations c ! j) img"
  using commit_views(2,4) [OF assms] by (fastforce simp: commit_images_def)


text \<open>Taking any pending commit back leaves the others over the same base.\<close>

lemma inv_rollback:
  assumes env: "text_engine env" "mirror_schema schema" and inv: "outbox_inv env schema base db"
    and box: "cd_outbox db = pre @ c # post" and run: "rollbackFailedCommit env schema c db = Inr db'"
  shows "outbox_inv env schema base db' \<and> cd_outbox db' = pre @ post"
proof -
  let ?id = "ob_clientCommitId c" and ?apply = "fold (apply_op env schema)" and ?ops = "ob_operations c"
  let ?u = "overlay env schema pre base" and ?w = "overlay env schema (pre @ [c]) base"
  let ?K = "okey ` set ?ops" and ?images = "delete_where (\<lambda>(i, _). i = ?id) (cd_images db)"
  note views = commit_views [OF inv box] and listed = listed_restore [OF inv box]
  have safe: "op_safe env schema op" if "op \<in> set (pending (pre @ c # post))" for op using inv box that by (auto simp: outbox_inv_def)
  have "list_all (\<lambda>i. find_by bi_opIndex i (listOutboxBeforeImages db ?id) \<noteq> None) [0..<length ?ops]"
    using listed by (auto simp: list_all_iff)
  moreover have drop: "delete_where (\<lambda>d. ob_clientCommitId d = ?id) (cd_outbox db) = pre @ post"
    using inv outbox_filter_ids [of pre c post] box by (simp add: outbox_inv_def)
  moreover have "filter (\<lambda>later. ob_seq c < ob_seq later) (pre @ post) = post"
    using inv later_commits [of pre c post] box by (simp add: outbox_inv_def)
  ultimately obtain rows1 rows2 images2 where rows1: "restoreLoop env schema (listOutboxBeforeImages db ?id) ?ops 0 {} (cd_rows db) = Inr rows1"
    and loop: "rebaseLoop env schema (op_key ` set ?ops) post rows1 ?images = Inr (rows2, images2)"
    and db': "db' = db\<lparr>cd_rows := rows2, cd_outbox := pre @ post, cd_images := images2\<rparr>"
    using run by (auto simp: rollbackFailedCommit_def Let_def bindE_eq_Inr deleteOutboxCommit_def)
  have "lview schema rows1 k = (if k \<in> ?K then ?u k else lview schema (cd_rows db) k)" for k
    using restoreLoop_view [OF env views(1) rows1 _ listed, of k] safe by (auto simp: image_iff)
  then have restored: "\<forall>k. lview schema rows1 k = (if k \<in> ?K then ?u k else ?apply (pending post) ?w k)"
    using inv box by (auto simp: outbox_inv_def overlay_def)
  have keys: "\<forall>op\<in>set (pending post). op_safe env schema op \<and> (op_key op \<in> op_key ` set ?ops \<longleftrightarrow> okey op \<in> ?K)"
  proof
    fix op assume op: "op \<in> set (pending post)"
    have "op_key op = op_key op' \<longleftrightarrow> okey op = okey op'" if "op' \<in> set ?ops" for op'
      using op that by (intro op_key_okey [OF env(2) safe safe]) simp_all
    then show "op_safe env schema op \<and> (op_key op \<in> op_key ` set ?ops \<longleftrightarrow> okey op \<in> ?K)" using safe op by (auto simp: image_iff)
  qed
  have settled: "settled_view env schema ?w"
    using settled_apply_ops [of ?ops env schema ?u] views(1) safe by (simp add: overlay_def)
  have agree: "\<forall>k. k \<notin> ?K \<longrightarrow> ?w k = ?u k" by (auto simp: overlay_def image_iff intro!: ops_other)
  have ids: "distinct (map ob_clientCommitId (pre @ c # post))" using inv box by (simp add: outbox_inv_def)
  have kept: "images_ok env schema ?images v cs = images_ok env schema (cd_images db) v cs" if "set cs \<subseteq> set pre \<union> set post" for v cs
  proof (rule images_ok_cong)
    fix d i assume "d \<in> set cs"
    then have "d \<in> set pre \<union> set post" using that by blast
    moreover have "?id \<notin> ob_clientCommitId ` (set pre \<union> set post)" using ids by auto
    ultimately have "ob_clientCommitId d \<noteq> ?id" by (metis image_eqI)
    then show "find_by image_key (ob_clientCommitId d, i) ?images = find_by image_key (ob_clientCommitId d, i) (cd_images db)"
      by (simp add: find_deleted_images)
  qed
  note after = rebaseLoop_view [OF env loop keys views(1) settled agree restored]
  have result: "lview schema rows2 = ?apply (pending post) ?u" "images_ok env schema images2 ?u post"
    "\<And>d i. d \<notin> ob_clientCommitId ` set post \<Longrightarrow> find_by image_key (d, i) images2 = find_by image_key (d, i) ?images"
    "distinct (map image_key images2)"
    using after kept [of post] views(3) ids inv distinct_delete_where [of image_key "cd_images db"] by (auto simp: outbox_inv_def)
  have "images_ok env schema images2 base pre = images_ok env schema ?images base pre"
    using ids by (intro images_ok_cong result(3)) auto
  then have "images_ok env schema images2 base (pre @ post)"
    using result(2) kept [of pre base] inv box by (simp add: outbox_inv_def images_ok_append overlay_def)
  moreover have "sorted_wrt (<) (map ob_seq (pre @ post))" using inv box by (auto simp: outbox_inv_def sorted_wrt_append)
  ultimately show ?thesis using inv result(1,4) ids box safe unfolding outbox_inv_def db' by (simp add: overlay_def ball_Un)
qed

end
