(* ===== verification/Client_Outbox_Run.thy ===== *)
theory Client_Outbox_Run
  imports Client_Outbox_Correct
begin

text \<open>
  Runs of the outbox: mutations, confirmations and rejections in any order keep the invariant of
  the optimistic layer, and a replay after server data gives the overlay over the new base.
\<close>

section \<open>Recording mutations\<close>

text \<open>A value its column keeps: it survives JSON, the engine gives it back, and it is null only where null may be.\<close>

definition value_settles :: "client_env \<Rightarrow> RowColumn \<Rightarrow> RowValue \<Rightarrow> bool" where
  "value_settles env c v \<longleftrightarrow> json_safe v \<and> fromSqlValue c (ev_store env c (toSqlValue v)) = v \<and>
     (rc_nullable c \<or> ev_store env c (toSqlValue v) \<noteq> SqlNull)"

definition mutation_settles :: "client_env \<Rightarrow> CompiledClientSchema \<Rightarrow> MutationInput \<Rightarrow> bool" where
  "mutation_settles env schema mutation \<longleftrightarrow>
     (case mutation of
        MutDelete t r b \<Rightarrow> True
      | MutUpsert t vals b \<Rightarrow>
          (case map_of (ls_tables schema) t of
             None \<Rightarrow> False
           | Some table \<Rightarrow> (case recordToRowValues table vals of
               Inl e \<Rightarrow> False | Inr vs \<Rightarrow> list_all2 (value_settles env) (lt_columns table) vs)))"

lemma settles_row:
  assumes "list_all2 (value_settles env) (lt_columns table) vs" "lt_primaryKeyIndex table < length (lt_columns table)"
    and "vs ! lt_primaryKeyIndex table = VString r"
  shows "settled_row env table r (kept_row env table vs version)"
proof -
  note len = list_all2_lengthD [OF assms(1)] and each = list_all2_nthD [OF assms(1)]
  have read: "read_values table (kept_row env table vs version) = vs"
    using len each by (intro nth_equalityI) (auto simp: read_values_def cell_def kept_row_def stored_cells_def value_settles_def)
  have "list_all json_safe vs" using len each by (auto simp: list_all_length value_settles_def)
  moreover have "keeps_null table (stored_cells env table vs)"
    using len each by (fastforce simp: keeps_null_def list_ex_iff in_set_zip stored_cells_def value_settles_def)
  ultimately show ?thesis using read assms(3) by (simp add: settled_row_def kept_row_def)
qed

lemma map_of_zip_names:
  assumes "distinct (map rc_name cols)" "length vs = length cols" "i < length cols"
  shows "map_of (map (\<lambda>(c, v). (rc_name c, f v)) (zip cols vs)) (rc_name (cols ! i)) = Some (f (vs ! i))"
proof -
  have "map (\<lambda>(c, v). (rc_name c, f v)) (zip cols vs) = zip (map rc_name cols) (map f vs)"
    by (simp add: zip_map_map)
  then show ?thesis using assms map_of_zip_nth [of "map rc_name cols" "map f vs" i] by simp
qed

lemma mutation_safe:
  assumes "text_engine env" "mirror_schema schema" "mutation_settles env schema m" "mutationOperation schema m changed = Inr op"
  shows "op_safe env schema op"
proof (cases m)
  case (MutDelete t r b)
  then show ?thesis using assms(4) by (auto simp: mutationOperation_def op_safe_def reparsed_op_def split: option.splits)
next
  case (MutUpsert t vals b)
  obtain table vs where table: "map_of (ls_tables schema) t = Some table" and vs: "recordToRowValues table vals = Inr vs"
    and settles: "list_all2 (value_settles env) (lt_columns table) vs"
    using assms(3) MutUpsert by (auto simp: mutation_settles_def split: option.splits sum.splits)
  have mirror: "lt_primaryKeyIndex table < length (lt_columns table)" "distinct (map rc_name (lt_columns table))"
    using assms(2) table by (auto simp: mirror_schema_def text_keyed_def)
  note len = list_all2_lengthD [OF settles] and each = list_all2_nthD [OF settles]
  let ?json = "map (\<lambda>(column, v). (rc_name column, rowValueToJson v)) (zip (lt_columns table) vs)"
  obtain pk where pk: "vs ! lt_primaryKeyIndex table = VString pk"
    and op: "oo_table op = t" "oo_rowId op = pk" "oo_op op = Upsert" "oo_values op = Some ?json" "reparsed_op op = op \<longleftrightarrow> reparsed_values ?json = ?json"
    using assms(4) MutUpsert table vs
    by (auto simp: mutationOperation_def at_def reparsed_op_def split: option.splits RowValue.splits if_splits)
  have safe: "json_safe (vs ! i)" if "i < length vs" for i using each that len by (auto simp: value_settles_def)
  have json: "reparsed (rowValueToJson v) = rowValueToJson v" if "json_safe v" for v using that by (cases v) auto
  have "reparsed_values ?json = ?json"
    using safe json by (auto simp: reparsed_values_def set_zip)
  moreover have "op_values table op = vs"
  proof (rule nth_equalityI)
    fix i assume "i < length (op_values table op)"
    then have i: "i < length (lt_columns table)" by (simp add: op_values_def)
    have "jsonToRowValue (rowValueToJson (vs ! i)) = vs ! i" using json_value_roundtrip [of "vs ! i"] json safe i len by simp
    then show "op_values table op ! i = vs ! i"
      using i op(4) map_of_zip_names [OF mirror(2) _ i, of vs rowValueToJson] len by (simp add: op_values_def)
  qed (simp add: op_values_def len)
  ultimately show ?thesis using op table pk settles_row [OF settles mirror(1) pk] by (simp add: op_safe_def)
qed

lemma insertImages_spec:
  "insertImages c imgs images = Inr images' \<Longrightarrow> images' = images @ map (\<lambda>img. (c, reparsed_image img)) imgs \<and>
     (\<forall>img\<in>set imgs. (c, bi_opIndex img) \<notin> image_key ` set images)"
    "insertImages c imgs images = Inr images' \<Longrightarrow> distinct (map image_key images) \<Longrightarrow> distinct (map image_key images')"
proof (induction c imgs images rule: insertImages.induct)
  case (2 c img rest images)
  have key: "image_key (c, reparsed_image img) = (c, bi_opIndex img)" by (simp add: image_key_def reparsed_image_def)
  have fresh: "find_by image_key (c, bi_opIndex img) images = None" "(c, bi_opIndex img) \<notin> image_key ` set images"
    and run: "insertImages c rest (images @ [(c, reparsed_image img)]) = Inr images'"
    if "insertImages c (img # rest) images = Inr images'"
    using that by (simp_all del: not_None_eq add: find_by_None_iff split: if_splits)
  {
    case 1
    show ?case using "2.IH"(1) [OF _ run [OF 1]] fresh [OF 1] by auto
  next
    case 2
    show ?case using "2.IH"(2) [OF _ run [OF 2(1)]] fresh [OF 2(1)] 2(2) key by auto
  }
qed simp_all

lemma find_tagged:
  "find_by image_key (d, i) (map (\<lambda>img. (c, reparsed_image img)) imgs) =
     (if d = c then map_option (\<lambda>img. (c, reparsed_image img)) (find_by bi_opIndex i imgs) else None)"
  by (induction imgs) (auto simp: find_by_Cons image_key_def reparsed_image_def)


lemma inv_append:
  assumes env: "text_engine env" "mirror_schema schema" and inv: "outbox_inv env schema base db"
    and safe: "\<forall>op\<in>set ops. op_safe env schema op"
    and append: "appendOutboxCommit c ops now (captureBeforeImages env schema (cd_rows db) ops None) db = Inr db1"
    and rows: "applyOperationsLocally env schema ops (cd_rows db1) = Inr rows"
  shows "outbox_inv env schema base (db1\<lparr>cd_rows := rows\<rparr>)"
proof -
  let ?new = "\<lparr>ob_seq = cd_outboxSeq db + 1, ob_clientCommitId = c, ob_createdAtMs = now, ob_operations = ops\<rparr>"
  let ?v = "overlay env schema (cd_outbox db) base"
  have reparsed: "map reparsed_op ops = ops" using safe by (intro map_idI) (simp add: op_safe_def)
  obtain images where images: "insertImages c (captureBeforeImages env schema (cd_rows db) ops None) (cd_images db) = Inr images"
    and fresh: "find_by ob_clientCommitId c (cd_outbox db) = None"
    and db1: "db1 = db\<lparr>cd_outbox := cd_outbox db @ [?new], cd_outboxSeq := cd_outboxSeq db + 1, cd_images := images\<rparr>"
    using append reparsed by (auto simp: appendOutboxCommit_def bindE_eq_Inr split: if_splits)
  note ins = insertImages_spec(1) [OF images]
  have view: "lview schema (cd_rows db) = ?v" and settled: "settled_view env schema ?v"
    using inv settled_apply_ops [of "pending (cd_outbox db)" env schema base] by (simp_all add: outbox_inv_def overlay_def)
  have other: "find_by image_key (d, i) images = find_by image_key (d, i) (cd_images db)" if "d \<noteq> c" for d i
    using ins that by (simp add: find_by_append find_tagged split: option.splits)
  have "c \<notin> ob_clientCommitId ` set (cd_outbox db)" using fresh by (simp add: find_by_None_iff)
  then have "images_ok env schema images base (cd_outbox db) = images_ok env schema (cd_images db) base (cd_outbox db)"
    by (intro images_ok_cong other) auto
  then have old: "images_ok env schema images base (cd_outbox db)" using inv by (simp add: outbox_inv_def)
  have "commit_images env schema images ?v ?new"
    unfolding commit_images_def
  proof (intro allI impI)
    fix i assume "i < length (ob_operations ?new)"
    then have i: "i < length ops" by simp
    note found = find_captured [of i env schema "cd_rows db" ops None]
    have "captureBeforeImage env schema (cd_rows db) (ops ! i) i \<in> set (captureBeforeImages env schema (cd_rows db) ops None)"
      using found i find_by_SomeD by fastforce
    then have none: "find_by image_key (c, i) (cd_images db) = None" using ins by (metis captured_index find_by_None_iff)
    have "op_safe env schema (ops ! i)" using safe i by simp
    then have "restores env schema ?v (ops ! i) (reparsed_image (captureBeforeImage env schema (cd_rows db) (ops ! i) i))"
      using capture_restores [OF env, of "ops ! i" "cd_rows db" i] settled view by simp
    then show "\<exists>img. find_by image_key (ob_clientCommitId ?new, i) images = Some (ob_clientCommitId ?new, img) \<and>
        restores env schema ?v (ob_operations ?new ! i) img"
      using ins none found i by (simp add: find_by_append find_tagged)
  qed
  then have all: "images_ok env schema images base (cd_outbox db @ [?new])"
    using old by (simp add: images_ok_append overlay_def)
  have "lview schema rows = overlay env schema (cd_outbox db @ [?new]) base"
    using apply_ops_view [OF env rows] safe op_safe_ok view db1 by (auto simp: overlay_def)
  moreover have "distinct (map image_key images)" using insertImages_spec(2) [OF images] inv by (simp add: outbox_inv_def)
  ultimately show ?thesis using inv all fresh safe unfolding outbox_inv_def db1
    by (auto simp: sorted_wrt_append find_by_None_iff)
qed

lemma mapE_all: "mapE f xs = Inr ys \<Longrightarrow> y \<in> set ys \<Longrightarrow> \<exists>x\<in>set xs. f x = Inr y"
  by (induction xs arbitrary: ys) (auto simp: bindE_eq_Inr)

lemma recorded_safe:
  assumes "text_engine env" "mirror_schema schema" "\<forall>m\<in>set mutations. mutation_settles env schema m"
    and "mapE (\<lambda>(m, i). mutationOperation schema m (g i)) (zip mutations is) = Inr ops"
  shows "\<forall>op\<in>set ops. op_safe env schema op"
proof
  fix op assume "op \<in> set ops"
  then obtain m i where "(m, i) \<in> set (zip mutations is)" "mutationOperation schema m (g i) = Inr op"
    using mapE_all [OF assms(4)] by fastforce
  then show "op_safe env schema op" using mutation_safe [OF assms(1,2)] assms(3) by (meson set_zip_leftD)
qed

lemma inv_record:
  assumes "text_engine env" "mirror_schema schema" "outbox_inv env schema base db"
    and "\<forall>m\<in>set mutations. mutation_settles env schema m"
    and "recordMutations env schema c now mutations changed db = Inr db'"
  shows "outbox_inv env schema base db'"
proof -
  obtain ops db1 rows where ops: "mapE (\<lambda>(m, i). mutationOperation schema m (if i < length changed then changed ! i else None))
      (zip mutations [0..<length mutations]) = Inr ops"
    and db1: "appendOutboxCommit c ops now (captureBeforeImages env schema (cd_rows db) ops None) db = Inr db1"
    and rows: "applyOperationsLocally env schema ops (cd_rows db1) = Inr rows" and db': "db' = db1\<lparr>cd_rows := rows\<rparr>"
    using assms(5) by (auto simp: recordMutations_def bindE_eq_Inr)
  show ?thesis unfolding db' using recorded_safe [OF assms(1,2,4) ops] by (rule inv_append [OF assms(1-3) _ db1 rows])
qed

section \<open>Runs\<close>

text \<open>
  A commit may be confirmed before older ones, since the push batch goes on past a commit that
  does not fit. Its rows join the base; the older commits stay as they are when they write other
  rows.
\<close>

lemma ops_commute:
  assumes "\<forall>x\<in>set xs. \<forall>y\<in>set ys. okey x \<noteq> okey y"
  shows "fold (apply_op env schema) xs (fold (apply_op env schema) ys v) = fold (apply_op env schema) ys (fold (apply_op env schema) xs v)"
proof
  fix k
  have "filter (\<lambda>op. okey op = k) xs = [] \<or> filter (\<lambda>op. okey op = k) ys = []" using assms by (auto simp: filter_empty_conv)
  then show "fold (apply_op env schema) xs (fold (apply_op env schema) ys v) k =
      fold (apply_op env schema) ys (fold (apply_op env schema) xs v) k" by (auto simp: ops_pointwise)
qed

lemma images_ok_base:
  "\<forall>op\<in>set (pending cs). v (okey op) = w (okey op) \<Longrightarrow> images_ok env schema images v cs = images_ok env schema images w cs"
proof (induction cs arbitrary: v w)
  case (Cons c cs)
  have "commit_images env schema images v c = commit_images env schema images w c"
    unfolding commit_images_def using Cons.prems restores_cong [of v _ w] by (metis Un_iff nth_mem pending_simps(2) set_append)
  moreover have "\<forall>op\<in>set (pending cs). fold (apply_op env schema) (ob_operations c) v (okey op) =
      fold (apply_op env schema) (ob_operations c) w (okey op)"
    using Cons.prems by (simp add: ops_pointwise)
  note same = this
  from Cons.IH [OF same] calculation show ?case by simp
qed simp

lemma inv_confirm:
  assumes inv: "outbox_inv env schema base db" and box: "cd_outbox db = pre @ c # post"
    and apart: "\<forall>x\<in>set (pending pre). \<forall>y\<in>set (ob_operations c). okey x \<noteq> okey y"
  shows "outbox_inv env schema (fold (apply_op env schema) (ob_operations c) base) (deleteOutboxCommit (ob_clientCommitId c) db)"
proof -
  let ?id = "ob_clientCommitId c" and ?base = "fold (apply_op env schema) (ob_operations c) base"
  let ?images = "delete_where (\<lambda>(j, _). j = ob_clientCommitId c) (cd_images db)"
  have ids: "distinct (map ob_clientCommitId (pre @ c # post))" using inv box by (simp add: outbox_inv_def)
  have box': "cd_outbox (deleteOutboxCommit ?id db) = pre @ post"
    using outbox_filter_ids [OF ids] box by (simp add: deleteOutboxCommit_def)
  have kept: "images_ok env schema ?images v cs = images_ok env schema (cd_images db) v cs" if "set cs \<subseteq> set pre \<union> set post" for v cs
  proof (rule images_ok_cong)
    fix d i assume "d \<in> set cs"
    then have "d \<in> set pre \<union> set post" using that by blast
    moreover have "?id \<notin> ob_clientCommitId ` (set pre \<union> set post)" using ids by auto
    ultimately have "ob_clientCommitId d \<noteq> ?id" by (metis image_eqI)
    then show "find_by image_key (ob_clientCommitId d, i) ?images = find_by image_key (ob_clientCommitId d, i) (cd_images db)"
      by (simp add: find_deleted_images)
  qed
  note swap = ops_commute [OF apart, of env schema base]
  have "images_ok env schema (cd_images db) base pre" using inv box by (simp add: outbox_inv_def images_ok_append)
  then have "images_ok env schema (cd_images db) ?base pre"
    using images_ok_base [of pre ?base base] ops_other [of "ob_operations c"] apart by metis
  moreover have "images_ok env schema (cd_images db) (fold (apply_op env schema) (pending pre) ?base) post"
    using inv box by (simp add: outbox_inv_def images_ok_append swap)
  ultimately have "images_ok env schema ?images ?base (pre @ post)" by (simp add: images_ok_append kept)
  moreover have "overlay env schema (pre @ c # post) base = overlay env schema (pre @ post) ?base" by (simp add: overlay_def swap)
  ultimately show ?thesis
    using inv box box' ids settled_apply_ops [of "ob_operations c" env schema base] distinct_delete_where [of image_key "cd_images db"]
    unfolding outbox_inv_def by (auto simp: deleteOutboxCommit_def sorted_wrt_append)
qed

text \<open>
  One step of the optimistic layer over its base: the application mutates, a commit is confirmed
  that overtakes no pending commit on a row of its own, or any commit is rejected.
\<close>

inductive outbox_step :: "client_env \<Rightarrow> CompiledClientSchema \<Rightarrow> local_view \<times> client_db \<Rightarrow> local_view \<times> client_db \<Rightarrow> bool"
  for env schema where
  mutate: "recordMutations env schema c now mutations changed db = Inr db' \<Longrightarrow> \<forall>m\<in>set mutations. mutation_settles env schema m \<Longrightarrow>
    outbox_step env schema (base, db) (base, db')"
| confirm: "cd_outbox db = pre @ c # post \<Longrightarrow> \<forall>x\<in>set (pending pre). \<forall>y\<in>set (ob_operations c). okey x \<noteq> okey y \<Longrightarrow>
    outbox_step env schema (base, db) (fold (apply_op env schema) (ob_operations c) base, deleteOutboxCommit (ob_clientCommitId c) db)"
| reject: "c \<in> set (cd_outbox db) \<Longrightarrow> rollbackFailedCommit env schema c db = Inr db' \<Longrightarrow> outbox_step env schema (base, db) (base, db')"

inductive_cases outbox_stepE: "outbox_step env schema (base, db) (base', db')"

lemma step_inv:
  assumes env: "text_engine env" "mirror_schema schema" and "outbox_step env schema s s'" "outbox_inv env schema (fst s) (snd s)"
  shows "outbox_inv env schema (fst s') (snd s')"
  using assms(3,4)
proof (induction rule: outbox_step.induct)
  case (mutate c now mutations changed db db' base)
  then show ?case using inv_record [OF env] by simp
next
  case (confirm db pre c post base)
  then show ?case using inv_confirm by simp
next
  case (reject c db db' base)
  obtain pre post where "cd_outbox db = pre @ c # post" using split_list [OF reject(1)] by blast
  from inv_rollback [OF env _ this reject(2)] reject(3) show ?case by simp
qed

lemma run_inv:
  assumes env: "text_engine env" "mirror_schema schema" and "(outbox_step env schema)\<^sup>*\<^sup>* s s'" "outbox_inv env schema (fst s) (snd s)"
  shows "outbox_inv env schema (fst s') (snd s')"
  using assms(3,4) by (induction rule: rtranclp_induct) (auto intro: step_inv [OF env])

text \<open>The empty outbox over the rows it finds.\<close>

lemma inv_initial:
  assumes "settled_view env schema (lview schema rows)"
  shows "outbox_inv env schema (lview schema rows) \<lparr>cd_rows = rows, cd_outbox = [], cd_outboxSeq = seq, cd_images = []\<rparr>"
  using assms by (simp add: outbox_inv_def overlay_def)

text \<open>Without a unique index a rejection always goes through.\<close>

lemma rebaseLoop_succeeds:
  assumes "no_unique schema"
  shows "\<forall>op\<in>set (pending cs). op_safe env schema op \<Longrightarrow> \<exists>r. rebaseLoop env schema keys cs rows images = Inr r"
proof (induction cs arbitrary: rows images)
  case (Cons c cs)
  have "\<forall>op\<in>set (filter (\<lambda>op. op_key op \<in> keys) (ob_operations c)). op_safe env schema op" using Cons.prems by auto
  then obtain rows1 where "applyOperationsLocally env schema (filter (\<lambda>op. op_key op \<in> keys) (ob_operations c)) rows = Inr rows1"
    using apply_ops_succeed [OF assms] by blast
  then show ?case using Cons by (auto simp: Let_def)
qed simp

lemma rollback_succeeds:
  assumes "no_unique schema" and inv: "outbox_inv env schema base db" and "c \<in> set (cd_outbox db)"
  shows "\<exists>db'. rollbackFailedCommit env schema c db = Inr db'"
proof -
  obtain pre post where box: "cd_outbox db = pre @ c # post" using split_list [OF assms(3)] by blast
  note listed = listed_restore [OF inv box] and settled = commit_views(1) [OF inv box]
  have safe: "\<forall>op\<in>set (ob_operations c). op_safe env schema op" "\<forall>op\<in>set (pending post). op_safe env schema op"
    using inv box by (auto simp: outbox_inv_def)
  have "list_all (\<lambda>i. find_by bi_opIndex i (listOutboxBeforeImages db (ob_clientCommitId c)) \<noteq> None) [0..<length (ob_operations c)]"
    using listed by (auto simp: list_all_iff)
  moreover obtain rows1 where "restoreLoop env schema (listOutboxBeforeImages db (ob_clientCommitId c)) (ob_operations c) 0 {} (cd_rows db) = Inr rows1"
    using restoreLoop_succeeds [OF assms(1) settled safe(1) listed] by blast
  moreover have "filter (\<lambda>later. ob_seq c < ob_seq later) (delete_where (\<lambda>d. ob_clientCommitId d = ob_clientCommitId c) (cd_outbox db)) = post"
    using inv box later_commits [of pre c post] outbox_filter_ids [of pre c post] by (simp add: outbox_inv_def)
  moreover obtain rows2 images2 where "rebaseLoop env schema (op_key ` set (ob_operations c)) post rows1
      (delete_where (\<lambda>(i, _). i = ob_clientCommitId c) (cd_images db)) = Inr (rows2, images2)"
    using rebaseLoop_succeeds [OF assms(1) safe(2)] by fast
  ultimately show ?thesis by (simp add: rollbackFailedCommit_def Let_def deleteOutboxCommit_def)
qed


section \<open>Server data under the outbox\<close>

text \<open>A resolved change overwrites the row it names.\<close>

fun change_key :: "Resolved \<Rightarrow> jsstring \<times> jsstring" where
  "change_key (ResolvedDelete table r) = (lt_name table, r)"
| "change_key (ResolvedUpsert table vals version) =
     (lt_name table, case vals ! lt_primaryKeyIndex table of VString r \<Rightarrow> r | _ \<Rightarrow> [])"

fun change_row :: "client_env \<Rightarrow> Resolved \<Rightarrow> local_row option" where
  "change_row env (ResolvedDelete table r) = None"
| "change_row env (ResolvedUpsert table vals version) = Some (kept_row env table vals version)"

definition apply_change :: "client_env \<Rightarrow> Resolved \<Rightarrow> local_view \<Rightarrow> local_view" where
  "apply_change env ch v = v(change_key ch := change_row env ch)"

fun change_ok :: "CompiledClientSchema \<Rightarrow> Resolved \<Rightarrow> bool" where
  "change_ok schema (ResolvedDelete table r) \<longleftrightarrow> map_of (ls_tables schema) (lt_name table) = Some table"
| "change_ok schema (ResolvedUpsert table vals version) \<longleftrightarrow> map_of (ls_tables schema) (lt_name table) = Some table \<and>
     (case vals ! lt_primaryKeyIndex table of VString r \<Rightarrow> True | _ \<Rightarrow> False)"

lemma applyResolved_view:
  assumes "text_engine env" "mirror_schema schema"
  shows "applyResolved env chs rows = Inr rows' \<Longrightarrow> list_all (change_ok schema) chs \<Longrightarrow>
    lview schema rows' = fold (apply_change env) chs (lview schema rows)"
proof (induction chs arbitrary: rows)
  case (Cons ch rest)
  have ok: "change_ok schema ch" "list_all (change_ok schema) rest" using Cons.prems(2) by simp_all
  show ?case
  proof (cases ch)
    case (ResolvedDelete table r)
    then have "lview schema (deleteLocalRow env table r rows) = apply_change env ch (lview schema rows)"
      using lview_delete [OF assms, of "lt_name table" table r rows] ok(1) by (simp add: apply_change_def)
    then show ?thesis using Cons.IH [of "deleteLocalRow env table r rows"] Cons.prems(1) ok(2) ResolvedDelete by simp
  next
    case (ResolvedUpsert table vals version)
    then obtain rows1 where rows1: "upsertLocalRow env table vals version rows = Inr rows1" "applyResolved env rest rows1 = Inr rows'"
      using Cons.prems(1) by (auto simp: bindE_eq_Inr)
    obtain r where r: "vals ! lt_primaryKeyIndex table = VString r" using ok(1) ResolvedUpsert by (auto split: RowValue.splits)
    have "lview schema rows1 = apply_change env ch (lview schema rows)"
      using lview_upsert [OF assms _ rows1(1) r, of "lt_name table"] ok(1) r ResolvedUpsert by (simp add: apply_change_def)
    then show ?thesis using Cons.IH [OF rows1(2) ok(2)] by simp
  qed
qed simp

lemma changes_pointwise:
  "fold (apply_change env) chs v k = (case find_by change_key k (rev chs) of None \<Rightarrow> v k | Some ch \<Rightarrow> change_row env ch)"
  by (induction chs arbitrary: v) (auto simp: apply_change_def find_by_append find_by_Cons split: option.splits)

lemma overlay_over_changes:
  "fold (apply_op env schema) ops (fold (apply_change env) chs (fold (apply_op env schema) ops v)) =
   fold (apply_op env schema) ops (fold (apply_change env) chs v)"
proof
  fix k
  show "fold (apply_op env schema) ops (fold (apply_change env) chs (fold (apply_op env schema) ops v)) k =
      fold (apply_op env schema) ops (fold (apply_change env) chs v) k"
    unfolding ops_pointwise [of env schema ops _ k] changes_pointwise [of env chs _ k]
    by (auto simp: op_rows_idem ops_pointwise split: option.splits)
qed

lemma replay_view:
  assumes env: "text_engine env" "mirror_schema schema" and free: "no_unique schema"
    and inv: "outbox_inv env schema base db" and chs: "list_all (change_ok schema) chs" "applyResolved env chs (cd_rows db) = Inr rows"
  shows "\<exists>db'. replayOutbox env schema (db\<lparr>cd_rows := rows\<rparr>) = Inr db' \<and> cd_outbox db' = cd_outbox db \<and>
    lview schema (cd_rows db') = overlay env schema (cd_outbox db) (fold (apply_change env) chs base)"
proof -
  have safe: "\<forall>op\<in>set (pending (cd_outbox db)). op_safe env schema op" using inv by (simp add: outbox_inv_def)
  then obtain rows' where rows': "applyOperationsLocally env schema (pending (cd_outbox db)) rows = Inr rows'"
    using apply_ops_succeed [OF free] by blast
  have "\<forall>op\<in>set (pending (cd_outbox db)). op_ok schema op" using safe op_safe_ok by blast
  then have "lview schema rows' = overlay env schema (cd_outbox db) (fold (apply_change env) chs base)"
    using apply_ops_view [OF env rows'] applyResolved_view [OF env chs(2,1)] inv
    by (simp add: overlay_def overlay_over_changes outbox_inv_def)
  then show ?thesis using rows' by (simp add: replayOutbox_def pending_def)
qed

section \<open>Before-images are not moved by server data\<close>

lemma rebaseLoop_other:
  assumes "text_engine env" "mirror_schema schema"
  shows "rebaseLoop env schema keys cs rows images = Inr (rows', images') \<Longrightarrow> \<forall>op\<in>set (pending cs). op_ok schema op \<and> okey op \<noteq> k \<Longrightarrow>
    lview schema rows' k = lview schema rows k"
proof (induction cs arbitrary: rows images)
  case (Cons c cs)
  let ?affected = "filter (\<lambda>op. op_key op \<in> keys) (ob_operations c)"
  show ?case
  proof (cases "?affected = []")
    case True
    then show ?thesis using Cons by simp
  next
    case False
    obtain rows1 images1 where rows1: "applyOperationsLocally env schema ?affected rows = Inr rows1"
      and rest: "rebaseLoop env schema keys cs rows1 images1 = Inr (rows', images')"
      using Cons.prems(1) False by (auto simp: Let_def bindE_eq_Inr)
    have "lview schema rows1 k = lview schema rows k"
      using apply_ops_view [OF assms rows1] Cons.prems(2) ops_other [of ?affected k] by simp
    then show ?thesis using Cons.IH [OF rest] Cons.prems(2) by simp
  qed
qed simp

text \<open>
  A rejection puts back the row the images were taken from, whatever the local rows hold by then.
\<close>

lemma rollback_stale:
  assumes env: "text_engine env" "mirror_schema schema" and inv: "outbox_inv env schema base db"
    and box: "cd_outbox db = pre @ c # post" and op: "k \<in> okey ` set (ob_operations c)"
    and only: "\<forall>op\<in>set (pending (pre @ post)). okey op \<noteq> k"
    and run: "rollbackFailedCommit env schema c (db\<lparr>cd_rows := rows\<rparr>) = Inr db'"
  shows "lview schema (cd_rows db') k = base k"
proof -
  let ?id = "ob_clientCommitId c" and ?ops = "ob_operations c"
  note listed = listed_restore [OF inv box] and settled = commit_views(1) [OF inv box]
  have safe: "op_safe env schema op" if "op \<in> set (pending (pre @ c # post))" for op using inv box that by (auto simp: outbox_inv_def)
  have same: "listOutboxBeforeImages (db\<lparr>cd_rows := rows\<rparr>) ?id = listOutboxBeforeImages db ?id" by (simp add: listOutboxBeforeImages_def)
  have "list_all (\<lambda>i. find_by bi_opIndex i (listOutboxBeforeImages db ?id) \<noteq> None) [0..<length ?ops]"
    using listed by (auto simp: list_all_iff)
  moreover have "filter (\<lambda>later. ob_seq c < ob_seq later) (delete_where (\<lambda>d. ob_clientCommitId d = ?id) (cd_outbox db)) = post"
    using inv box later_commits [of pre c post] outbox_filter_ids [of pre c post] by (simp add: outbox_inv_def)
  ultimately obtain rows1 rows2 images2 where rows1: "restoreLoop env schema (listOutboxBeforeImages db ?id) ?ops 0 {} rows = Inr rows1"
    and loop: "rebaseLoop env schema (op_key ` set ?ops) post rows1 (delete_where (\<lambda>(i, _). i = ?id) (cd_images db)) = Inr (rows2, images2)"
    and db': "cd_rows db' = rows2"
    using run same by (auto simp: rollbackFailedCommit_def Let_def bindE_eq_Inr deleteOutboxCommit_def)
  have "lview schema rows1 k = overlay env schema pre base k"
    using restoreLoop_view [OF env settled rows1 _ listed, of k] safe op by auto
  moreover have "lview schema rows2 k = lview schema rows1 k"
  proof (rule rebaseLoop_other [OF env loop], rule)
    fix op assume "op \<in> set (pending post)"
    then show "op_ok schema op \<and> okey op \<noteq> k" using only op_safe_ok [OF safe, of op] by simp
  qed
  moreover have "overlay env schema pre base k = base k" unfolding overlay_def using only by (intro ops_other) simp
  ultimately show ?thesis using db' by simp
qed

end
