(* ===== verification/Client_Round_Correct.thy ===== *)
theory Client_Round_Correct
  imports Client_Round Client_Outbox_Run "HOL-Library.Sublist"
begin

text \<open>
  What a push batch holds: the loop that encodes the outbox keeps the operation cap and sends a
  subsequence of the pending commits.
\<close>

section \<open>The batch\<close>

definition batch_bounded :: "push_batch \<Rightarrow> bool" where
  "batch_bounded b \<longleftrightarrow> pb_ops b \<le> MAX_OPS_PER_REQUEST \<or> length (pb_outbox b) \<le> 1"

definition op_count :: "OutboxCommit list \<Rightarrow> nat" where
  "op_count cs = sum_list (map (\<lambda>c. length (ob_operations c)) cs)"

definition incompatible :: "session \<Rightarrow> encryption \<Rightarrow> OutboxCommit \<Rightarrow> bool" where
  "incompatible sn encryption c \<longleftrightarrow> encodeOutboxCommit encryption (sn_schema sn) c = Inl ClientOutboxIncompatible"

text \<open>What one run of the loop adds to the batch.\<close>

definition batch_step :: "session \<Rightarrow> encryption \<Rightarrow> OutboxCommit list \<Rightarrow> push_batch \<Rightarrow> push_batch \<Rightarrow> OutboxCommit list \<Rightarrow> PushCommitFrame list \<Rightarrow> bool" where
  "batch_step sn encryption cs b b' sent frames \<longleftrightarrow>
     pb_outbox b' = pb_outbox b @ sent \<and> pb_frames b' = pb_frames b @ frames \<and> subseq sent cs \<and>
     list_all2 (\<lambda>c f. encodeOutboxCommit encryption (sn_schema sn) c = Inr f) sent frames \<and>
     pb_ops b' = pb_ops b + op_count sent \<and> (batch_bounded b \<longrightarrow> batch_bounded b') \<and> pb_deferred b \<le> pb_deferred b' \<and>
     length cs \<le> length sent + (pb_deferred b' - pb_deferred b) + length (filter (incompatible sn encryption) cs)"

lemma encodeLoop_spec:
  "encodeLoop sn encryption cs b s = (Inr b', s') \<Longrightarrow> \<exists>sent frames. batch_step sn encryption cs b b' sent frames"
proof (induction sn encryption cs b s rule: encodeLoop.induct)
  case (1 sn encryption b s)
  then show ?case by (auto simp: batch_step_def op_count_def)
next
  case (2 sn encryption c rest b s)
  let ?full = "pb_outbox b \<noteq> [] \<and> pb_ops b + length (ob_operations c) > MAX_OPS_PER_REQUEST"
  show ?case
  proof (cases ?full)
    case True
    then obtain sent frames where "batch_step sn encryption rest (b\<lparr>pb_deferred := Suc (pb_deferred b)\<rparr>) b' sent frames"
      using 2 by auto
    then have "batch_step sn encryption (c # rest) b b' sent frames"
      by (auto simp: batch_step_def batch_bounded_def)
    then show ?thesis by blast
  next
    case room: False
    show ?thesis
    proof (cases "encodeOutboxCommit encryption (sn_schema sn) c")
      case (Inr frame)
      let ?b = "b\<lparr>pb_frames := pb_frames b @ [frame], pb_outbox := pb_outbox b @ [c], pb_ops := pb_ops b + length (ob_operations c)\<rparr>"
      obtain sent frames where "batch_step sn encryption rest ?b b' sent frames"
        using "2.IH"(3) [OF room Inr] "2.prems" room Inr by auto
      moreover have "batch_bounded ?b" using room by (auto simp: batch_bounded_def)
      ultimately have "batch_step sn encryption (c # rest) b b' (c # sent) (frame # frames)"
        using Inr by (auto simp: batch_step_def op_count_def)
      then show ?thesis by blast
    next
      case (Inl e)
      then have e: "e = ClientOutboxIncompatible" using "2.prems" room by (auto split: if_splits)
      then obtain s1 where drop: "dropIncompatibleCommit sn c [] s = (Inr (), s1)" and rest: "encodeLoop sn encryption rest b s1 = (Inr b', s')"
        using "2.prems" room Inl by (auto split: prod.splits sum.splits)
      obtain sent frames where "batch_step sn encryption rest b b' sent frames"
        using "2.IH"(2) [OF room Inl e drop [symmetric] refl rest] by blast
      then have "batch_step sn encryption (c # rest) b b' sent frames"
        using Inl e by (auto simp: batch_step_def incompatible_def)
      then show ?thesis by blast
    qed
  qed
qed

lemma encodeOutbox_batch:
  assumes "encodeOutboxForPush sn encryption s = (Inr b, s')"
  shows "subseq (pb_outbox b) (cd_outbox (cs_db s))"
    and "list_all2 (\<lambda>c f. encodeOutboxCommit encryption (sn_schema sn) c = Inr f) (pb_outbox b) (pb_frames b)"
    and "op_count (pb_outbox b) \<le> MAX_OPS_PER_REQUEST \<or> length (pb_outbox b) \<le> 1"
    and "length (cd_outbox (cs_db s)) \<le> length (pb_outbox b) + pb_deferred b + length (filter (incompatible sn encryption) (cd_outbox (cs_db s)))"
  using encodeLoop_spec [OF assms [unfolded encodeOutboxForPush_def]] by (auto simp: batch_step_def batch_bounded_def)

section \<open>A later commit overtakes a deferred one\<close>

lemma encode_overtakes:
  assumes box: "cd_outbox (cs_db s) = [c1, c2, c3]"
    and enc: "encodeOutboxCommit encryption (sn_schema sn) c1 = Inr f1" "encodeOutboxCommit encryption (sn_schema sn) c3 = Inr f3"
    and size: "length (ob_operations c1) + length (ob_operations c2) > MAX_OPS_PER_REQUEST"
      "length (ob_operations c1) + length (ob_operations c3) \<le> MAX_OPS_PER_REQUEST"
  shows "encodeOutboxForPush sn encryption s =
    (Inr \<lparr>pb_frames = [f1, f3], pb_outbox = [c1, c3], pb_deferred = 1, pb_ops = length (ob_operations c1) + length (ob_operations c3)\<rparr>, s)"
  using assms by (simp add: encodeOutboxForPush_def)

lemma mapE_Inr: "(\<And>x. x \<in> set xs \<Longrightarrow> f x = Inr (g x)) \<Longrightarrow> mapE f xs = Inr (map g xs)"
  by (induction xs) simp_all

text \<open>A commit of deletes always encodes.\<close>

lemma encode_deletes:
  assumes "\<forall>op\<in>set (ob_operations c). oo_op op = Delete"
  shows "\<exists>f. encodeOutboxCommit encryption schema c = Inr f"
  using assms mapE_Inr [of "ob_operations c" "encodeOutboxOperation encryption schema"
    "\<lambda>op. \<lparr>po_table = oo_table op, po_rowId = oo_rowId op, po_op = Delete, po_baseVersion = oo_baseVersion op, po_payload = None\<rparr>"]
  by (simp add: encodeOutboxCommit_def encodeOutboxOperation_def)

end
