(* ===== verification/Client_Response_Correct.thy ===== *)
theory Client_Response_Correct
  imports Client_Response Client_Outbox_Run
begin

text \<open>
  What the handlers of a response keep: subscriptions move only at the end of their section, push
  results keep the optimistic overlay and leave an outcome, and segments of a resumed bootstrap
  never remove a row.
\<close>

section \<open>Subscriptions\<close>

lemma getSubscription_save:
  "getSubscription (saveSubscription sub s) i = (if i = su_id sub then Some sub else getSubscription s i)"
proof -
  have "find_by su_id i (delete_where (\<lambda>x. su_id x = su_id sub) (cs_subs s)) = (if i = su_id sub then None else find_by su_id i (cs_subs s))"
    by (rule find_by_delete_keys [where Q = "\<lambda>k. k = su_id sub" and key = su_id])
  then show ?thesis by (auto simp: getSubscription_def saveSubscription_def find_by_append find_by_Cons split: option.splits)
qed

lemma saveSubscription_db [simp]: "cs_db (saveSubscription sub s) = cs_db s"
  by (simp add: saveSubscription_def)

lemma set_rows_subs [simp]: "cs_subs (set_rows rows s) = cs_subs s"
  by (simp add: set_rows_def)

lemma getSubscription_set_rows [simp]: "getSubscription (set_rows rows s) i = getSubscription s i"
  by (simp add: getSubscription_def)

lemma getSubscription_subs: "cs_subs s' = cs_subs s \<Longrightarrow> getSubscription s' i = getSubscription s i"
  by (simp add: getSubscription_def)

lemma handlePushResult_subs: "handlePushResult sn sent details prune frame (s, m) = (r, s', m') \<Longrightarrow> cs_subs s' = cs_subs s"
  by (auto simp: handlePushResult_def Let_def split: option.splits sum.splits if_splits prod.splits)

text \<open>The ids of the sections a response closes before an \<open>ERROR\<close> frame.\<close>

fun closed_ids :: "jsstring option \<Rightarrow> ResponseFrame list \<Rightarrow> jsstring list" where
  "closed_ids opened [] = []"
| "closed_ids opened (SubStart f # fs) = closed_ids (Some (ss_id f)) fs"
| "closed_ids opened (SubEnd f # fs) = (case opened of None \<Rightarrow> [] | Some i \<Rightarrow> [i]) @ closed_ids None fs"
| "closed_ids opened (ErrorF f # fs) = []"
| "closed_ids opened (frame # fs) = closed_ids opened fs"

definition opened_at :: "response_ctx \<Rightarrow> jsstring option \<Rightarrow> response_state \<Rightarrow> bool" where
  "opened_at ctx opened rp \<longleftrightarrow> (\<forall>sec sub. rp_section rp = Some sec \<longrightarrow> os_sub sec = Some sub \<longrightarrow>
     opened = Some (su_id sub) \<and> sub \<in> set (rc_subs ctx))"

text \<open>A subscription stays as it is or fails closed with the cursor it sent.\<close>

definition sub_kept :: "response_ctx \<Rightarrow> jsstring \<Rightarrow> client_state \<Rightarrow> client_state \<Rightarrow> bool" where
  "sub_kept ctx i s s' \<longleftrightarrow> getSubscription s' i = getSubscription s i \<or>
     (\<exists>sub sent. getSubscription s' i = Some sub \<and> su_status sub = StatusFailed \<and> sent \<in> set (rc_subs ctx) \<and> su_id sent = i \<and>
        su_cursor sub = su_cursor sent)"

lemma sub_kept_refl: "cs_subs s' = cs_subs s \<Longrightarrow> sub_kept ctx i s s'"
  by (simp add: sub_kept_def getSubscription_def)

lemma sub_kept_trans: "sub_kept ctx i s1 s2 \<Longrightarrow> sub_kept ctx i s2 s3 \<Longrightarrow> sub_kept ctx i s1 s3"
  by (auto simp: sub_kept_def)

lemma openSection_sub: "os_sub (openSection mode subs f) = Some sub \<Longrightarrow> su_id sub = ss_id f \<and> sub \<in> set subs"
  using find_by_SomeD [of su_id "ss_id f" "rev subs" sub] by (auto simp: openSection_def Let_def)

lemma applySegmentOrFail_subs:
  assumes "applySegmentOrFail sn sec apply clearFirst (s, m) = (r, s', m')" "os_sub sec = Some sub" "sub \<in> set (rc_subs ctx)"
  shows "sub_kept ctx i s s' \<and> (\<forall>sec'. r = Inr sec' \<longrightarrow> os_sub sec' = os_sub sec)"
  using assms
  by (auto simp: applySegmentOrFail_def sub_kept_def getSubscription_save Let_def split: option.splits sum.splits if_splits prod.splits)

lemma applyRows_subs:
  assumes "applyRows sn bytes sec clearFirst (s, m) = (r, s', m')" "os_sub sec = Some sub" "sub \<in> set (rc_subs ctx)"
  shows "sub_kept ctx i s s' \<and> (\<forall>sec'. r = Inr sec' \<longrightarrow> os_sub sec' = os_sub sec)"
proof (cases "decodeRowsSegment bytes")
  case (Inl e)
  then show ?thesis using assms(1) by (auto simp: applyRows_def sub_kept_refl)
next
  case (Inr segment)
  then show ?thesis using assms(1) by (intro applySegmentOrFail_subs [OF _ assms(2,3)]) (auto simp: applyRows_def)
qed

lemma applySegmentRef_subs:
  assumes "applySegmentRef sn f sec sub0 (s, m) = (r, s', m')" "os_sub sec = Some sub" "sub \<in> set (rc_subs ctx)"
  shows "sub_kept ctx i s s' \<and> (\<forall>sec'. r = Inr sec' \<longrightarrow> os_sub sec' = os_sub sec)"
proof (cases "sg_mediaType f = MediaSqlite \<and> \<not> accepts sn 2")
  case True
  then show ?thesis using assms(1) by (auto simp: applySegmentRef_def sub_kept_refl)
next
  case False
  show ?thesis
  proof (cases "downloadSegment sn f sub0")
    case (Inl e)
    then show ?thesis using assms(1) False by (auto simp: applySegmentRef_def sub_kept_refl)
  next
    case (Inr bytes)
    then have run: "(if sg_mediaType f = MediaSqlite then applyImage sn f bytes sec (s, m)
        else applyRows sn bytes sec (os_fresh sec \<and> \<not> os_cleared sec \<and> sg_rowCursor f = None) (s, m)) = (r, s', m')"
      using assms(1) False by (simp add: applySegmentRef_def)
    show ?thesis
    proof (cases "sg_mediaType f = MediaSqlite")
      case True
      then have "applyImage sn f bytes sec (s, m) = (r, s', m')" using run by simp
      then show ?thesis
        by (cases "sg_rowCursor f \<noteq> None \<or> sg_nextRowCursor f \<noteq> None")
          (auto simp: applyImage_def sub_kept_refl intro: applySegmentOrFail_subs [OF _ assms(2,3), THEN conjunct1]
            dest: applySegmentOrFail_subs [OF _ assms(2,3), THEN conjunct2])
    next
      case False
      then show ?thesis using run applyRows_subs [OF _ assms(2,3)] by simp
    qed
  qed
qed

lemma live_section_Some: "live_section rp = Some (sec, sub) \<Longrightarrow> rp_section rp = Some sec \<and> os_sub sec = Some sub"
  by (auto simp: live_section_def split: option.splits if_splits)

lemma after_segment_kept:
  assumes "after_segment rp (r, s', m') = (e, rp')" "sub_kept ctx i (rp_state rp) s'" "\<forall>sec'. r = Inr sec' \<longrightarrow> os_sub sec' = os_sub sec"
    and "rp_section rp = Some sec" "opened_at ctx opened rp"
  shows "sub_kept ctx i (rp_state rp) (rp_state rp') \<and> opened_at ctx opened rp'"
  using assms by (auto simp: after_segment_def keep_def opened_at_def split: sum.splits)

lemma purgeRevoked_subs: "cs_subs (snd (purgeRevoked sn table eff s)) = cs_subs s"
  by (simp add: purgeRevoked_def Let_def split: option.split sum.split prod.split)

lemma finishSection_subs:
  assumes run: "finishSection sn sub start c b (s, m) = (r, s', m')" and other: "i \<noteq> su_id sub"
  shows "getSubscription s' i = getSubscription s i"
proof (cases "ss_status start")
  case SubRevoked
  show ?thesis
  proof (cases "map_of (ls_tables (sn_schema sn)) (su_table sub)")
    case None
    then show ?thesis using run SubRevoked by (simp add: finishSection_def)
  next
    case (Some table)
    obtain x s1 where purge: "purgeRevoked sn table (su_effectiveScopes sub) s = (x, s1)" by (cases "purgeRevoked sn table (su_effectiveScopes sub) s")
    have "getSubscription s1 i = getSubscription s i"
      using purgeRevoked_subs [of sn table "su_effectiveScopes sub" s] purge by (simp add: getSubscription_def)
    then show ?thesis using run other SubRevoked Some purge by (cases x) (auto simp: finishSection_def getSubscription_save)
  qed
qed (use run other in \<open>auto simp: finishSection_def getSubscription_save\<close>)

definition opens :: "jsstring option \<Rightarrow> ResponseFrame \<Rightarrow> jsstring option" where
  "opens opened frame = (case frame of SubStart f \<Rightarrow> Some (ss_id f) | SubEnd f \<Rightarrow> None | _ \<Rightarrow> opened)"

lemma handleFrame_kept:
  assumes run: "handleFrame sn ctx n frame rp = (e, rp')" and at: "opened_at ctx opened rp"
    and open_id: "\<And>f. frame = SubEnd f \<Longrightarrow> opened \<noteq> Some i"
  shows "sub_kept ctx i (rp_state rp) (rp_state rp') \<and> (e = None \<longrightarrow> opened_at ctx (opens opened frame) rp')"
proof (cases frame)
  case (PushResult f)
  obtain x s' m' where h: "handlePushResult sn (rc_sent ctx) (details_of (rc_details ctx) (pr_clientCommitId f)) (rc_lastFinal ctx = Some n) f
      (rp_state rp, rp_summary rp) = (x, s', m')" by (metis prod_cases3)
  from handlePushResult_subs [OF h] show ?thesis using run at h PushResult
    by (auto simp: opens_def keep_def opened_at_def sub_kept_refl split: sum.splits)
next
  case (SubStart f)
  then show ?thesis using run openSection_sub by (fastforce simp: opens_def opened_at_def sub_kept_refl)
next
  case (SegmentInline payload)
  show ?thesis
  proof (cases "live_section rp")
    case None
    then show ?thesis using run at SegmentInline by (simp add: opens_def sub_kept_refl)
  next
    case (Some p)
    then obtain sec sub where live: "live_section rp = Some (sec, sub)" by (cases p) simp
    note sec = live_section_Some [OF live]
    obtain r s' m' where h: "applyRows sn payload sec (os_fresh sec \<and> \<not> os_cleared sec) (rp_state rp, rp_summary rp) = (r, s', m')" by (metis prod_cases3)
    have "sub \<in> set (rc_subs ctx)" using at sec by (auto simp: opened_at_def)
    then show ?thesis using after_segment_kept [OF _ _ _ _ at, of r s' m' e rp' i sec] applyRows_subs [OF h, of sub ctx i] run live h sec SegmentInline
      by (simp add: opens_def)
  qed
next
  case (SegmentRef f)
  show ?thesis
  proof (cases "live_section rp")
    case None
    then show ?thesis using run at SegmentRef by (simp add: opens_def sub_kept_refl)
  next
    case (Some p)
    then obtain sec sub where live: "live_section rp = Some (sec, sub)" by (cases p) simp
    note sec = live_section_Some [OF live]
    obtain r s' m' where h: "applySegmentRef sn f sec sub (rp_state rp, rp_summary rp) = (r, s', m')" by (metis prod_cases3)
    have "sub \<in> set (rc_subs ctx)" using at sec by (auto simp: opened_at_def)
    then show ?thesis using after_segment_kept [OF _ _ _ _ at, of r s' m' e rp' i sec] applySegmentRef_subs [OF h, of sub ctx i] run live h sec SegmentRef
      by (simp add: opens_def)
  qed
next
  case (SubEnd f)
  show ?thesis
  proof (cases "live_section rp")
    case None
    then show ?thesis using run SubEnd by (auto simp: opened_at_def sub_kept_refl)
  next
    case (Some p)
    then obtain sec sub where live: "live_section rp = Some (sec, sub)" by (cases p) simp
    have "i \<noteq> su_id sub" using at live_section_Some [OF live] open_id [OF SubEnd] by (auto simp: opened_at_def)
    then have "getSubscription s' i = getSubscription (rp_state rp) i"
      if "finishSection sn sub (os_start sec) (se_nextCursor f) (se_bootstrapState f) (rp_state rp, rp_summary rp) = (r, s', m')" for r s' m'
      using finishSection_subs [OF that] by simp
    then show ?thesis using run live SubEnd
      by (auto simp: opened_at_def keep_def sub_kept_def split: if_splits prod.splits sum.splits)
  qed
next
  case (Commit f)
  then show ?thesis using run at
    by (auto simp: opens_def opened_at_def sub_kept_def split: option.splits if_splits sum.splits)
qed (use run at in \<open>auto simp: opens_def opened_at_def sub_kept_def getSubscription_def\<close>)

lemma handleFrames_kept:
  "handleFrames sn ctx n frames rp = (e, rp') \<Longrightarrow> opened_at ctx opened rp \<Longrightarrow> i \<notin> set (closed_ids opened frames) \<Longrightarrow>
   sub_kept ctx i (rp_state rp) (rp_state rp')"
proof (induction sn ctx n frames rp arbitrary: opened rule: handleFrames.induct)
  case (1 sn ctx n rp)
  then show ?case by (simp add: sub_kept_refl)
next
  case (2 sn ctx n frame frames rp)
  obtain e1 rp1 where first: "handleFrame sn ctx n frame rp = (e1, rp1)" by (cases "handleFrame sn ctx n frame rp")
  have step: "sub_kept ctx i (rp_state rp) (rp_state rp1) \<and> (e1 = None \<longrightarrow> opened_at ctx (opens opened frame) rp1)"
    using "2.prems"(3) by (intro handleFrame_kept [OF first "2.prems"(2)]) auto
  show ?case
  proof (cases e1)
    case None
    have "\<And>f. frame \<noteq> ErrorF f" using first None by auto
    then have "i \<notin> set (closed_ids (opens opened frame) frames)" using "2.prems"(3) by (cases frame) (auto simp: opens_def)
    then have "sub_kept ctx i (rp_state rp1) (rp_state rp')" using "2.IH" [OF first [symmetric] None, of "opens opened frame"] "2.prems"(1) step None first by simp
    then show ?thesis using step sub_kept_trans by blast
  next
    case (Some x)
    then show ?thesis using "2.prems"(1) first step by simp
  qed
qed


lemma processFrames_kept:
  assumes run: "processFrames sn ctx frames m s = (r, s')" and closed: "i \<notin> set (closed_ids None frames)"
  shows "sub_kept ctx i s s'"
proof -
  let ?rp = "\<lparr>rp_state = s, rp_summary = m, rp_section = None, rp_deltaCursor = -1\<rparr>"
  obtain e rp where loop: "handleFrames sn ctx 1 frames ?rp = (e, rp)" by (cases "handleFrames sn ctx 1 frames ?rp")
  have "opened_at ctx None ?rp" by (simp add: opened_at_def)
  then have "sub_kept ctx i s (rp_state rp)" using handleFrames_kept [OF loop _ closed] by simp
  moreover have "cs_subs s' = cs_subs (rp_state rp)"
    using run loop by (auto simp: processFrames_def Let_def ackAfterPull_def split: sum.splits option.splits if_splits)
  ultimately show ?thesis using sub_kept_refl sub_kept_trans by metis
qed

section \<open>Push results\<close>

lemma pruneIf_failure:
  assumes "journal_ok j" "pruneIf prune n j = Inr j'" "row \<in> set (oj_rows j)" "failure row"
  shows "row \<in> set (oj_rows j')"
  using assms prune_effect(1) [OF assms(1)] by (auto simp: pruneIf_def bindE_eq_Inr split: if_splits)

text \<open>A rejected commit leaves the outbox with its outcome in the journal, and the overlay of the others stays.\<close>

lemma handlePushResult_rejected:
  assumes env: "text_engine (sn_env sn)" "mirror_schema (sn_schema sn)" and inv: "outbox_inv (sn_env sn) (sn_schema sn) base (cs_db s)"
    and journal: "journal_ok (cs_outcomes s)" and sent: "set sent \<subseteq> set (cd_outbox (cs_db s))" and rejected: "pr_status frame = PushRejected"
    and run: "handlePushResult sn sent details prune frame (s, m) = (Inr True, s', m')"
  shows "outbox_inv (sn_env sn) (sn_schema sn) base (cs_db s')"
    and "cd_outbox (cs_db s') = filter (\<lambda>c. ob_clientCommitId c \<noteq> pr_clientCommitId frame) (cd_outbox (cs_db s))"
    and "\<exists>row\<in>set (oj_rows (cs_outcomes s')). failure row \<and> co_clientCommitId row = pr_clientCommitId frame"
proof -
  let ?i = "pr_clientCommitId frame"
  obtain c where c: "find_by ob_clientCommitId ?i (rev sent) = Some c"
    using run by (auto simp: handlePushResult_def Let_def split: option.splits)
  have c_in: "c \<in> set (cd_outbox (cs_db s))" "ob_clientCommitId c = ?i" using find_by_SomeD [OF c] sent by auto
  obtain j status results db where j: "bindE (recordCommitOutcome ?i status (sn_now sn) results (Some (ob_operations c)) (cs_outcomes s))
        (pruneIf prune (sn_maxOutcomes sn)) = Inr j" "status \<in> {OutConflict, OutRejected}"
    and db: "rollbackFailedCommit (sn_env sn) (sn_schema sn) c (cs_db s) = Inr db"
    and s': "cs_db s' = db" "cs_outcomes s' = j"
    using run c rejected by (auto simp: handlePushResult_def Let_def split: if_splits option.splits sum.splits prod.splits)
  obtain pre post where box: "cd_outbox (cs_db s) = pre @ c # post" using split_list [OF c_in(1)] by blast
  note after = inv_rollback [OF env inv box db]
  then show "outbox_inv (sn_env sn) (sn_schema sn) base (cs_db s')" using s' by simp
  have "pre @ post = delete_where (\<lambda>d. ob_clientCommitId d = ob_clientCommitId c) (pre @ c # post)"
    using outbox_filter_ids [of pre c post] inv box by (simp add: outbox_inv_def)
  then show "cd_outbox (cs_db s') = filter (\<lambda>c. ob_clientCommitId c \<noteq> ?i) (cd_outbox (cs_db s))"
    using after s' box c_in(2) by (simp add: delete_where_def)
  obtain j1 where j1: "recordCommitOutcome ?i status (sn_now sn) results (Some (ob_operations c)) (cs_outcomes s) = Inr j1"
    and prune: "pruneIf prune (sn_maxOutcomes sn) j1 = Inr j"
    using j(1) by (auto simp: bindE_eq_Inr)
  have "\<exists>row\<in>set (oj_rows j1). failure row \<and> co_clientCommitId row = ?i"
    using j1 j(2) by (auto simp: recordCommitOutcome_def failure_def split: if_splits)
  then show "\<exists>row\<in>set (oj_rows (cs_outcomes s')). failure row \<and> co_clientCommitId row = ?i"
    using pruneIf_failure [OF journal_ok_record [OF journal j1] prune] s'(2) by blast
qed

lemma handlePushResult_applied:
  assumes inv: "outbox_inv (sn_env sn) (sn_schema sn) base (cs_db s)" and first: "cd_outbox (cs_db s) = c # rest"
    and own: "ob_clientCommitId c = pr_clientCommitId frame" and status: "pr_status frame \<noteq> PushRejected"
    and run: "handlePushResult sn sent details prune frame (s, m) = (Inr True, s', m')"
  shows "outbox_inv (sn_env sn) (sn_schema sn) (fold (apply_op (sn_env sn) (sn_schema sn)) (ob_operations c) base) (cs_db s') \<and>
    cd_outbox (cs_db s') = rest \<and> cd_rows (cs_db s') = cd_rows (cs_db s)"
proof -
  have db: "cs_db s' = deleteOutboxCommit (ob_clientCommitId c) (cs_db s)"
    using run own status by (auto simp: handlePushResult_def Let_def split: if_splits option.splits sum.splits)
  have "cd_outbox (deleteOutboxCommit (ob_clientCommitId c) (cs_db s)) = rest"
    using inv outbox_filter_ids [of "[]" c rest] first by (simp add: outbox_inv_def deleteOutboxCommit_def)
  then show ?thesis using inv_drain [OF inv first] db by (simp add: deleteOutboxCommit_def)
qed

lemma handlePushResult_kept:
  assumes "handlePushResult sn sent details prune frame (s, m) = (Inr False, s', m')"
  shows "s' = s"
  using assms by (auto simp: handlePushResult_def Let_def split: if_splits option.splits sum.splits prod.splits)

section \<open>Segments of a resumed bootstrap\<close>

lemma upsert_keeps:
  assumes "mirror_schema schema" "map_of (ls_tables schema) t = Some table" "upsertLocalRow env table vals version rows = Inr rows'"
    and "lview schema rows k \<noteq> None"
  shows "lview schema rows' k \<noteq> None"
proof -
  obtain u r other where k: "k = (u, r)" and other: "map_of (ls_tables schema) u = Some other" "local_at other rows r \<noteq> None"
    using assms(4) by (cases k) (auto simp: lview_def split: option.splits)
  have "local_at other rows' r \<noteq> None"
  proof (cases "u = t")
    case True
    then have "other = table" using other assms(2) by simp
    then show ?thesis using other(2) assms(3)
      by (auto simp: upsertLocalRow_def Let_def local_at_def find_by_append local.get_put split: if_splits option.splits)
  next
    case False
    then have "lt_name other \<noteq> lt_name table" using assms(1,2) other(1) by (auto simp: mirror_schema_def)
    then show ?thesis using other(2) local_at_upsert_other [OF assms(3)] by simp
  qed
  then show ?thesis using k other(1) by (simp add: lview_def)
qed

lemma upsertRows_keep:
  assumes "mirror_schema schema" "map_of (ls_tables schema) t = Some table"
  shows "upsertRows env table new rows = Inr rows' \<Longrightarrow> lview schema rows k \<noteq> None \<Longrightarrow> lview schema rows' k \<noteq> None"
proof (induction new arbitrary: rows)
  case (Cons row new)
  obtain vals version where row: "row = (vals, version)" by (cases row)
  then obtain rows1 where "upsertLocalRow env table vals version rows = Inr rows1" "upsertRows env table new rows1 = Inr rows'"
    using Cons.prems(1) by (auto simp: bindE_eq_Inr)
  then show ?case using Cons.IH upsert_keeps [OF assms] Cons.prems(2) by blast
qed simp

lemma applyBlocks_keep:
  assumes "mirror_schema schema" "map_of (ls_tables schema) t = Some table"
  shows "applyBlocks env table effective False blocks n rows = (r, rows') \<Longrightarrow> lview schema rows k \<noteq> None \<Longrightarrow> lview schema rows' k \<noteq> None"
proof (induction blocks arbitrary: n rows)
  case (Cons block blocks)
  then show ?case using upsertRows_keep [OF assms]
    by (auto split: sum.splits if_splits)
qed simp

lemma applyRows_keeps:
  assumes "mirror_schema (sn_schema sn)" "applyRows sn bytes sec False (s, m) = (r, s', m')"
    and "lview (sn_schema sn) (cd_rows (cs_db s)) k \<noteq> None"
  shows "lview (sn_schema sn) (cd_rows (cs_db s')) k \<noteq> None"
proof (cases "decodeRowsSegment bytes")
  case (Inl e)
  then show ?thesis using assms by (auto simp: applyRows_def)
next
  case (Inr segment)
  have kept: "lview (sn_schema sn) rows' k \<noteq> None"
    if "map_of (ls_tables (sn_schema sn)) t = Some table"
      "applyRowsSegment (sn_env sn) (sn_schema sn) table segment False effective (cd_rows (cs_db s)) = (x, rows')" for t table effective x rows'
    using applyBlocks_keep [OF assms(1) that(1)] that(2) assms(3) by (auto simp: applyRowsSegment_def split: sum.splits)
  show ?thesis
  proof (cases "os_sub sec")
    case None
    then show ?thesis using assms(2,3) Inr by (auto simp: applyRows_def applySegmentOrFail_def)
  next
    case (Some sub)
    show ?thesis
    proof (cases "map_of (ls_tables (sn_schema sn)) (su_table sub)")
      case None
      then show ?thesis using assms(2,3) Inr Some by (auto simp: applyRows_def applySegmentOrFail_def)
    next
      case table: (Some table)
      obtain x rows' where seg: "applyRowsSegment (sn_env sn) (sn_schema sn) table segment False (ss_effectiveScopes (os_start sec)) (cd_rows (cs_db s)) = (x, rows')"
        by (cases "applyRowsSegment (sn_env sn) (sn_schema sn) table segment False (ss_effectiveScopes (os_start sec)) (cd_rows (cs_db s))")
      have "cd_rows (cs_db s') = rows'"
        using assms(2) Inr Some table seg
        by (auto simp: applyRows_def applySegmentOrFail_def Let_def set_rows_def saveSubscription_def split: sum.splits if_splits)
      then show ?thesis using kept [OF table seg] by simp
    qed
  qed
qed


lemma upsertRows_error: "upsertRows env table new rows = Inl e \<Longrightarrow> e = EngineConstraint"
proof (induction new arbitrary: rows)
  case (Cons row new)
  then show ?case by (cases row) (auto simp: bindE_eq_Inl upsertLocalRow_def Let_def split: if_splits)
qed simp

lemma mapE_error: "mapE f xs = Inl e \<Longrightarrow> \<exists>x\<in>set xs. f x = Inl e"
  by (induction xs) (auto simp: bindE_eq_Inl)

lemma block_error:
  "mapE (\<lambda>row. bindE (decrypted env table (sr_values row)) (\<lambda>vals. Inr (vals, sr_serverVersion row))) block = Inl e \<Longrightarrow> e = ClientDecryptFailed"
  by (drule mapE_error) (auto simp: bindE_eq_Inl decrypted_def split: option.splits if_splits)

text \<open>Only the clear raises the scope error that fails a subscription.\<close>

lemma applyBlocks_error: "applyBlocks env table effective False blocks n rows = (Inl e, rows') \<Longrightarrow> e \<noteq> ClientScopeRevoked"
proof (induction blocks arbitrary: n rows)
  case (Cons block blocks)
  then show ?case using block_error upsertRows_error by (fastforce split: sum.splits if_splits)
qed simp

lemma applyRows_section:
  assumes "applyRows sn bytes sec False (s, m) = (Inr sec', s', m')"
  shows "os_start sec' = os_start sec \<and> os_sub sec' = os_sub sec \<and> os_fresh sec' = os_fresh sec \<and> os_skip sec' = os_skip sec \<and>
    cs_localResetEpoch s' = cs_localResetEpoch s \<and> cs_subs s' = cs_subs s"
proof -
  obtain segment where segment: "decodeRowsSegment bytes = Inr segment" using assms by (auto simp: applyRows_def split: sum.splits)
  have err: "x \<noteq> Inl ClientScopeRevoked"
    if "applyRowsSegment (sn_env sn) (sn_schema sn) table segment False effective rows = (x, rows')" for table effective rows x rows'
    using that by (auto simp: applyRowsSegment_def validateSegmentColumns_def dest: applyBlocks_error split: sum.splits if_splits)
  show ?thesis
  proof (cases "os_sub sec")
    case None
    then show ?thesis using assms segment by (auto simp: applyRows_def applySegmentOrFail_def)
  next
    case (Some sub)
    then obtain table where table: "map_of (ls_tables (sn_schema sn)) (su_table sub) = Some table"
      using assms segment by (auto simp: applyRows_def applySegmentOrFail_def split: option.splits)
    obtain x rows' where run: "applyRowsSegment (sn_env sn) (sn_schema sn) table segment False (ss_effectiveScopes (os_start sec)) (cd_rows (cs_db s)) = (x, rows')"
      by (cases "applyRowsSegment (sn_env sn) (sn_schema sn) table segment False (ss_effectiveScopes (os_start sec)) (cd_rows (cs_db s))")
    show ?thesis using assms segment Some table run err [OF run]
      by (auto simp: applyRows_def applySegmentOrFail_def Let_def set_rows_def split: sum.splits if_splits)
  qed
qed

text \<open>The pages of a bootstrap that the client does not see as fresh.\<close>

lemma pages_keep:
  assumes mirror: "mirror_schema (sn_schema sn)"
  shows "handleFrames sn ctx n (map SegmentInline pages @ [SubEnd e]) rp = (None, rp') \<Longrightarrow> rp_section rp = Some sec \<Longrightarrow> os_sub sec = Some sub \<Longrightarrow>
    \<not> os_fresh sec \<Longrightarrow> \<not> os_skip sec \<Longrightarrow> ss_status (os_start sec) = SubActive \<Longrightarrow> cs_localResetEpoch (rp_state rp) = rc_resetEpoch ctx \<Longrightarrow>
    (lview (sn_schema sn) (cd_rows (cs_db (rp_state rp))) k \<noteq> None \<longrightarrow> lview (sn_schema sn) (cd_rows (cs_db (rp_state rp'))) k \<noteq> None) \<and>
    getSubscription (rp_state rp') (su_id sub) = Some (sub\<lparr>su_cursor := se_nextCursor e, su_bootstrapState := se_bootstrapState e,
      su_effectiveScopes := Some (ss_effectiveScopes (os_start sec)), su_status := StatusActive, su_reasonCode := None\<rparr>)"
proof (induction pages arbitrary: n rp sec)
  case Nil
  then have "live_section rp = Some (sec, sub)" by (simp add: live_section_def)
  then show ?case using Nil
    by (auto simp: finishSection_def keep_def getSubscription_save split: if_splits)
next
  case (Cons page pages)
  have live: "live_section rp = Some (sec, sub)" using Cons.prems by (simp add: live_section_def)
  obtain r s1 m1 where rows: "applyRows sn page sec False (rp_state rp, rp_summary rp) = (r, s1, m1)" by (metis prod_cases3)
  then obtain sec1 where r: "r = Inr sec1"
    using Cons.prems live by (cases r) (auto simp: after_segment_def)
  note same = applyRows_section [OF rows [unfolded r]]
  let ?rp = "(keep rp (s1, m1))\<lparr>rp_section := Some sec1\<rparr>"
  have rest: "handleFrames sn ctx (Suc n) (map SegmentInline pages @ [SubEnd e]) ?rp = (None, rp')"
    using Cons.prems live rows r by (simp add: after_segment_def)
  note IH = Cons.IH [OF rest, of sec1]
  show ?case using IH applyRows_keeps [OF mirror rows] same Cons.prems by (simp add: keep_def)
qed

lemma resumed_section_keeps:
  assumes mirror: "mirror_schema (sn_schema sn)" and sub: "find_by su_id (ss_id f) (rev (rc_subs ctx)) = Some sub"
    and resumed: "su_bootstrapState sub \<noteq> None" and mode: "rc_mode ctx = PullMode" "ss_status f = SubActive"
    and epoch: "cs_localResetEpoch (rp_state rp) = rc_resetEpoch ctx"
    and run: "handleFrames sn ctx n (SubStart f # map SegmentInline pages @ [SubEnd e]) rp = (None, rp')"
  shows "(lview (sn_schema sn) (cd_rows (cs_db (rp_state rp))) k \<noteq> None \<longrightarrow> lview (sn_schema sn) (cd_rows (cs_db (rp_state rp'))) k \<noteq> None) \<and>
    getSubscription (rp_state rp') (su_id sub) = Some (sub\<lparr>su_cursor := se_nextCursor e, su_bootstrapState := se_bootstrapState e,
      su_effectiveScopes := Some (ss_effectiveScopes f), su_status := StatusActive, su_reasonCode := None\<rparr>)"
proof -
  let ?sec = "openSection (rc_mode ctx) (rc_subs ctx) f"
  have "os_sub ?sec = Some sub" "\<not> os_fresh ?sec" "\<not> os_skip ?sec" "os_start ?sec = f"
    using sub resumed mode by (auto simp: openSection_def Let_def)
  then show ?thesis using pages_keep [OF mirror, of ctx "Suc n" pages e "rp\<lparr>rp_section := Some ?sec\<rparr>" rp' ?sec sub k] run mode epoch by simp
qed

section \<open>Revocation\<close>

lemma fold_deleteOutboxCommit:
  "cd_outbox (fold deleteOutboxCommit ids db) = filter (\<lambda>c. ob_clientCommitId c \<notin> set ids) (cd_outbox db) \<and>
   cd_rows (fold deleteOutboxCommit ids db) = cd_rows db"
  by (induction ids arbitrary: db) (auto simp: deleteOutboxCommit_def delete_where_def filter_filter intro!: filter_cong)

lemma dropOutboxCommits_exact:
  assumes "distinct (map ob_clientCommitId (cd_outbox db))" "effective \<noteq> []" "dropOutboxCommitsInScope table effective db = (ids, db')"
  shows "cd_outbox db' = filter (\<lambda>c. \<not> list_ex (op_in_scope table effective) (ob_operations c)) (cd_outbox db) \<and> cd_rows db' = cd_rows db"
proof -
  let ?doomed = "\<lambda>c. list_ex (op_in_scope table effective) (ob_operations c)"
  have ids: "ids = map ob_clientCommitId (filter ?doomed (cd_outbox db))" and db': "db' = fold deleteOutboxCommit ids db"
    using assms(2,3) by (auto simp: dropOutboxCommitsInScope_def Let_def)
  have "ob_clientCommitId c \<in> set ids \<longleftrightarrow> ?doomed c" if "c \<in> set (cd_outbox db)" for c
    using assms(1) that by (auto simp: ids distinct_map inj_on_def)
  then show ?thesis using fold_deleteOutboxCommit [of ids db] by (auto simp: db' intro!: filter_cong)
qed

lemma finishSection_revoked:
  assumes revoked: "ss_status start = SubRevoked" and table: "map_of (ls_tables (sn_schema sn)) (su_table sub) = Some table"
    and scopes: "su_effectiveScopes sub = Some effective" "effective \<noteq> []"
      "list_all (\<lambda>(x, vs). map_of (lt_scopeColumnByVariable table) x \<noteq> None \<and> vs \<noteq> []) effective"
    and ids: "distinct (map ob_clientCommitId (cd_outbox (cs_db s)))"
    and run: "finishSection sn sub start c b (s, m) = (Inr applied, s', m')"
  shows "cd_rows (cs_db s') = filter (\<lambda>x. \<not> clauses_match (sn_env sn) table (scope_clauses table effective) x) (cd_rows (cs_db s))"
    and "cd_outbox (cs_db s') = filter (\<lambda>c. \<not> list_ex (op_in_scope table effective) (ob_operations c)) (cd_outbox (cs_db s))"
    and "\<exists>sub'. getSubscription s' (su_id sub) = Some sub' \<and> su_status sub' = StatusRevoked"
proof -
  let ?rows = "filter (\<lambda>x. \<not> clauses_match (sn_env sn) table (scope_clauses table effective) x) (cd_rows (cs_db s))"
  obtain dropped db where drop: "dropOutboxCommitsInScope table effective ((cs_db s)\<lparr>cd_rows := ?rows\<rparr>) = (dropped, db)"
    by (cases "dropOutboxCommitsInScope table effective ((cs_db s)\<lparr>cd_rows := ?rows\<rparr>)")
  note exact = dropOutboxCommits_exact [OF _ scopes(2) drop]
  obtain failed s1 where purge: "purgeRevoked sn table (su_effectiveScopes sub) s = (Inr failed, s1)"
    and s': "s' = saveSubscription (sub\<lparr>su_cursor := c, su_bootstrapState := None,
        su_status := (if failed then StatusFailed else StatusRevoked), su_reasonCode := Some (ss_reasonCode start)\<rparr>) s1"
    using run revoked table by (auto simp: finishSection_def split: prod.splits sum.splits)
  have "\<not> failed \<and> cs_db s1 = db"
    using purge deleteScopedRows_exact [OF scopes(2,3), of "sn_env sn" "cd_rows (cs_db s)"] scopes(1,2) drop
    by (auto simp: purgeRevoked_def Let_def split: if_splits sum.splits)
  then show "cd_rows (cs_db s') = ?rows" "cd_outbox (cs_db s') = filter (\<lambda>c. \<not> list_ex (op_in_scope table effective) (ob_operations c)) (cd_outbox (cs_db s))"
    "\<exists>sub'. getSubscription s' (su_id sub) = Some sub' \<and> su_status sub' = StatusRevoked"
    using exact ids s' by (simp_all add: getSubscription_save)
qed

end
