(* ===== verification/Client_State_Correct.thy ===== *)
theory Client_State_Correct
  imports Client_State Client_Outbox_Run
begin

text \<open>
  Windows and resets: a window edit leaves exactly the wanted units in the registry, eviction
  spares the rows of pending commits, and a reset leaves the pending operations over empty tables.
\<close>

section \<open>The registry of a window\<close>

definition live_units :: "client_state \<Rightarrow> jsstring \<Rightarrow> jsstring set" where
  "live_units s baseKey = {u. (baseKey, u) \<in> window_key ` set (cs_windows s)}"

lemma live_units_load: "live_units s baseKey = wu_unit ` set (loadWindowUnits s baseKey)"
  by (force simp: live_units_def loadWindowUnits_def window_key_def)

lemma live_units_widen: "live_units (widenUnit sha256 baseKey base u s) baseKey = insert u (live_units s baseKey)"
  by (auto simp: widenUnit_def Let_def live_units_def saveSubscription_def insertWindowUnit_def deletePendingEviction_def window_key_def)

lemma live_units_widens: "live_units (fold (widenUnit sha256 baseKey base) us s) baseKey = live_units s baseKey \<union> set us"
  by (induction us arbitrary: s) (auto simp: live_units_widen)

lemma live_units_evict:
  assumes "evictUnit env schema baseKey base u subId s = Inr s'"
  shows "live_units s' baseKey = live_units s baseKey - {u}"
proof -
  have "cs_windows s' = delete_where (\<lambda>w. window_key w = (baseKey, u)) (cs_windows s)"
    using assms
    by (auto simp: evictUnit_def Let_def bindE_eq_Inr deleteSubscription_def deleteWindowUnit_def savePendingEviction_def deletePendingEviction_def
        set_rows_def split: option.splits if_splits)
  then show ?thesis by (auto simp: live_units_def)
qed

lemma live_units_evicts:
  "evictUnits env schema baseKey base ws s = (Inr (), s') \<Longrightarrow> live_units s' baseKey = live_units s baseKey - wu_unit ` set ws"
proof (induction env schema baseKey base ws s rule: evictUnits.induct)
  case (2 env schema baseKey base w ws s)
  then obtain s1 where "evictUnit env schema baseKey base (wu_unit w) (wu_subId w) s = Inr s1" by (auto split: sum.splits)
  then show ?case using 2 live_units_evict [of env schema baseKey base "wu_unit w" "wu_subId w" s s1] by auto
qed simp

lemma setWindow_units:
  assumes "setWindowCommand sha256 env schema base us s = (Inr changed, s')"
  shows "set (ws_units (windowState base s')) = set us"
proof -
  let ?key = "windowBaseKey base" and ?wanted = "rev (remdups (rev us))"
  let ?live = "loadWindowUnits s ?key"
  let ?added = "filter (\<lambda>u. u \<notin> wu_unit ` set ?live) ?wanted" and ?removed = "filter (\<lambda>w. wu_unit w \<notin> set ?wanted) ?live"
  have "evictUnits env schema ?key base ?removed (fold (widenUnit sha256 ?key base) ?added s) = (Inr (), s')"
    using assms by (auto simp: setWindowCommand_def Let_def split: option.splits if_splits prod.splits sum.splits)
  from live_units_evicts [OF this] have "live_units s' ?key = set us"
    using live_units_load [of s ?key] by (auto simp: live_units_widens)
  then show ?thesis using live_units_load [of s' ?key] by (simp add: windowState_def Let_def image_def)
qed

text \<open>A unit that enters waits for its bootstrap.\<close>

lemma widened_pending:
  assumes "wu_base w = baseKey" "wu_unit w = u" "w \<in> set (cs_windows (widenUnit sha256 baseKey base u s))"
  shows "unit_pending (widenUnit sha256 baseKey base u s) w"
proof -
  have w: "w = \<lparr>wu_base = baseKey, wu_unit = u, wu_subId = deriveSubId sha256 base u\<rparr>"
    using assms by (auto simp: widenUnit_def Let_def saveSubscription_def insertWindowUnit_def deletePendingEviction_def window_key_def)
  have "getSubscription (widenUnit sha256 baseKey base u s) (deriveSubId sha256 base u) \<noteq> None"
    by (auto simp: getSubscription_def widenUnit_def Let_def saveSubscription_def find_by_None_iff)
  moreover have "su_cursor sub = -1" if "getSubscription (widenUnit sha256 baseKey base u s) (deriveSubId sha256 base u) = Some sub" for sub
    using find_by_SomeD [OF that [unfolded getSubscription_def]] by (auto simp: widenUnit_def Let_def saveSubscription_def)
  ultimately show ?thesis by (auto simp: w unit_pending_def split: option.splits)
qed

section \<open>Eviction spares pending rows\<close>

lemma evict_keeps_pinned:
  assumes env: "text_engine env" "mirror_schema schema" and table: "map_of (ls_tables schema) t = Some table"
    and run: "evictScopedRows env table effective pinned rows = Inr (deferred, rows')" and r: "r \<in> set pinned"
  shows "lview schema rows' (t, r) = lview schema rows (t, r)"
proof -
  let ?pk = "lt_primaryKeyIndex table"
  have name: "lt_name table = t" and keyed: "text_keyed table" using env(2) table by (auto simp: mirror_schema_def)
  have eq: "ev_eq env (lt_columns table ! ?pk) v x \<longleftrightarrow> v = SqlText x" for v x
    using env(1) keyed by (simp add: text_engine_def text_keyed_def)
  obtain P where P: "rows' = delete_where P rows" and spare: "\<And>x. local_key ?pk x = (t, SqlText r) \<Longrightarrow> \<not> P x"
  proof (cases "effective = [] \<or> scopeClauses table effective [] = Inr None")
    case True
    then have "rows' = delete_where (\<lambda>_. False) rows" using run by (auto simp: evictScopedRows_def delete_where_def split: if_splits)
    then show ?thesis using that by blast
  next
    case False
    then obtain cs where cs: "scopeClauses table effective [] = Inr (Some cs)" using run
      by (auto simp: evictScopedRows_def bindE_eq_Inr split: option.splits)
    let ?P = "\<lambda>x. clauses_match env table cs x \<and> (pinned = [] \<or> \<not> (case x of (t, row) \<Rightarrow> cell ?pk row = SqlNull \<or>
        list_ex (ev_eq env (lt_columns table ! ?pk) (cell ?pk row)) pinned))"
    have "rows' = delete_where ?P rows" using run cs False by (auto simp: evictScopedRows_def Let_def)
    moreover have "\<not> ?P x" if "local_key ?pk x = (t, SqlText r)" for x
      using that r by (cases x) (auto simp: local_key_def eq list_ex_iff)
    ultimately show ?thesis using that by blast
  qed
  have "find_by (local_key ?pk) (t, SqlText r) (delete_where P xs) = find_by (local_key ?pk) (t, SqlText r) xs" for xs
    using spare by (induction xs) (auto simp: delete_where_def find_by_Cons)
  then show ?thesis using table name P by (simp add: lview_def local_at_def)
qed

lemma pinned_pending: "op \<in> set (pending (cd_outbox db)) \<Longrightarrow> oo_table op = t \<Longrightarrow> oo_rowId op \<in> set (pinnedRowIds t db)"
  by (auto simp: pinnedRowIds_def pending_def)

lemma evictUnit_keeps_pending:
  assumes env: "text_engine env" "mirror_schema schema" and run: "evictUnit env schema baseKey base u subId s = Inr s'"
    and op: "op \<in> set (pending (cd_outbox (cs_db s)))" "oo_table op = wb_table base"
  shows "lview schema (cd_rows (cs_db s')) (okey op) = lview schema (cd_rows (cs_db s)) (okey op)"
    and "cd_outbox (cs_db s') = cd_outbox (cs_db s)"
proof -
  obtain table effective deferred rows where table: "map_of (ls_tables schema) (wb_table base) = Some table"
    and evict: "evictScopedRows env table effective (pinnedRowIds (wb_table base) (cs_db s)) (cd_rows (cs_db s)) = Inr (deferred, rows)"
    and s': "cs_db s' = (cs_db s)\<lparr>cd_rows := rows\<rparr>"
    using run by (auto simp: evictUnit_def Let_def bindE_eq_Inr deleteSubscription_def deleteWindowUnit_def savePendingEviction_def
        deletePendingEviction_def set_rows_def split: option.splits if_splits)
  show "lview schema (cd_rows (cs_db s')) (okey op) = lview schema (cd_rows (cs_db s)) (okey op)"
    using evict_keeps_pinned [OF env table evict pinned_pending [OF op]] s' op(2) by (simp add: okey_def)
  show "cd_outbox (cs_db s') = cd_outbox (cs_db s)" using s' by simp
qed

section \<open>Resets\<close>

lemma rebuild_overlay:
  assumes env: "text_engine env" "mirror_schema schema" and free: "no_unique schema"
    and safe: "\<forall>op\<in>set (pending (cd_outbox (cs_db s))). op_safe env schema op"
  shows "\<exists>s'. rebuild env schema s = Inr s' \<and> lview schema (cd_rows (cs_db s')) = overlay env schema (cd_outbox (cs_db s)) (\<lambda>_. None) \<and>
    cd_outbox (cs_db s') = cd_outbox (cs_db s) \<and> map su_id (cs_subs s') = map su_id (cs_subs s) \<and>
    (\<forall>sub\<in>set (cs_subs s'). su_cursor sub = -1 \<and> su_bootstrapState sub = None \<and> su_status sub = StatusActive)"
proof -
  obtain rows where rows: "applyOperationsLocally env schema (pending (cd_outbox (cs_db s))) [] = Inr rows"
    using apply_ops_succeed [OF free safe] by blast
  have empty: "lview schema [] = (\<lambda>_. None)" by (auto simp: lview_def local_at_def fun_eq_iff split: option.splits)
  have "\<forall>op\<in>set (pending (cd_outbox (cs_db s))). op_ok schema op" using safe op_safe_ok by blast
  then have "lview schema rows = overlay env schema (cd_outbox (cs_db s)) (\<lambda>_. None)"
    using apply_ops_view [OF env rows] empty by (simp add: overlay_def)
  then show ?thesis using rows by (auto simp: rebuild_def pending_def resetSubscriptionsForBump_def set_rows_def comp_def)
qed

end
