(* ===== verification/Client_Samples.thy ===== *)
theory Client_Samples
  imports Client_Round_Correct Client_Response_Correct Client_State_Correct
begin

text \<open>
  A small client, the running example of the witnesses: one table \<open>t\<close> with an id and an owner
  column, scoped by the owner, an engine that keeps what it is given, one synced row and one
  pending update of it.
\<close>

section \<open>Schema and engine\<close>

definition text_col :: "string \<Rightarrow> RowColumn" where
  "text_col name = \<lparr>rc_name = js name, rc_type = TString, rc_nullable = False, rc_crdtType = None, rc_encrypted = None, rc_declaredType = None\<rparr>"

definition lc_table :: CompiledClientTable where
  "lc_table = \<lparr>lt_name = js ''t'', lt_columns = [text_col ''id'', text_col ''o''], lt_primaryKey = js ''id'', lt_primaryKeyIndex = 0,
     lt_columnIndex = [(js ''id'', 0), (js ''o'', 1)], lt_columnIndexByCamel = [(js ''id'', 0), (js ''o'', 1)],
     lt_scopeColumnByVariable = [(js ''o'', js ''o'')], lt_scopePrefixByVariable = [(js ''o'', js ''o'')], lt_indexes = [], lt_ftsIndexes = [],
     lt_hasEncryptedColumns = False\<rparr>"

definition lc_schema :: CompiledClientSchema where
  "lc_schema = \<lparr>ls_version = 1, ls_tables = [(js ''t'', lc_table)]\<rparr>"

definition lc_env :: client_env where
  "lc_env = \<lparr>ev_store = (\<lambda>_ v. v), ev_eq = (\<lambda>_ v r. v = SqlText r), ev_decrypt = None\<rparr>"

lemma lc_engine: "text_engine lc_env"
  by (simp add: text_engine_def lc_env_def)

lemma lc_mirror: "mirror_schema lc_schema"
  by (auto simp: mirror_schema_def lc_schema_def lc_table_def text_keyed_def text_column_def localColumnType_def text_col_def js_def)

lemma lc_free: "no_unique lc_schema"
  by (simp add: no_unique_def lc_schema_def lc_table_def)

section \<open>Rows and a pending update\<close>

definition lc_row :: "string \<Rightarrow> int \<Rightarrow> local_row" where
  "lc_row owner version = \<lparr>lr_cells = [SqlText (js ''r''), SqlText (js owner)], lr_version = version\<rparr>"

definition lc_rows :: "string \<Rightarrow> int \<Rightarrow> local_rows" where
  "lc_rows owner version = [(js ''t'', lc_row owner version)]"

definition lc_db0 :: client_db where
  "lc_db0 = \<lparr>cd_rows = lc_rows ''x'' 1, cd_outbox = [], cd_outboxSeq = 0, cd_images = []\<rparr>"

definition lc_mutation :: MutationInput where
  "lc_mutation = MutUpsert (js ''t'') [(js ''id'', AppValue (VString (js ''r''))), (js ''o'', AppValue (VString (js ''y'')))] None"

definition lc_values :: "string \<Rightarrow> (jsstring \<times> JsonRowValue) list" where
  "lc_values owner = [(js ''id'', JsonString (js ''r'')), (js ''o'', JsonString (js owner))]"

definition lc_op :: OutboxOperation where
  "lc_op = \<lparr>oo_table = js ''t'', oo_rowId = js ''r'', oo_op = Upsert, oo_baseVersion = None, oo_values = Some (lc_values ''y''), oo_changedFields = None\<rparr>"

definition lc_commit :: OutboxCommit where
  "lc_commit = \<lparr>ob_seq = 1, ob_clientCommitId = js ''k'', ob_createdAtMs = 5, ob_operations = [lc_op]\<rparr>"

definition lc_db1 :: client_db where
  "lc_db1 = \<lparr>cd_rows = lc_rows ''y'' 1, cd_outbox = [lc_commit], cd_outboxSeq = 1,
     cd_images = [(js ''k'', \<lparr>bi_opIndex = 0, bi_existed = True, bi_syncVersion = Some 1, bi_values = Some (lc_values ''x'')\<rparr>)]\<rparr>"

lemmas lc_defs = lc_schema_def lc_table_def text_col_def lc_env_def lc_row_def lc_rows_def lc_values_def js_def

lemma lc_mutated: "recordMutations lc_env lc_schema (js ''k'') 5 [lc_mutation] [] lc_db0 = Inr lc_db1"
  by (simp add: recordMutations_def mutationOperation_def lc_mutation_def recordToRowValues_def normalizeRecordKeys_def coerceSqlRepresentation_def
      localColumnType_def at_def appendOutboxCommit_def captureBeforeImages_def captureBeforeImage_def selectLocalRow_def key_is_def cell_def
      image_values_def fromSqlValue_def reparsed_op_def reparsed_values_def reparsed_image_def op_values_def upsertLocalRow_def stored_cells_def
      violates_def local_key_def image_key_def find_by_def lc_db0_def lc_db1_def lc_commit_def lc_op_def lc_defs Let_def)

lemma lc_settles: "mutation_settles lc_env lc_schema lc_mutation"
  by (simp add: mutation_settles_def lc_mutation_def recordToRowValues_def normalizeRecordKeys_def coerceSqlRepresentation_def localColumnType_def
      value_settles_def fromSqlValue_def lc_defs)

lemma lc_lookup: "lview lc_schema (lc_rows owner version) (js ''t'', js ''r'') = Some (lc_row owner version)"
  by (simp add: lview_def local_at_def find_by_def local_key_def cell_def lc_defs)

lemma lc_settled: "settled_view lc_env lc_schema (lview lc_schema (lc_rows owner version))"
  by (auto simp: settled_view_def lview_def local_at_def find_by_def local_key_def cell_def settled_row_def read_values_def keeps_null_def
      stored_cells_def fromSqlValue_def localColumnType_def lc_defs split: if_splits)

lemma lc_inv0: "outbox_inv lc_env lc_schema (lview lc_schema (lc_rows ''x'' 1)) lc_db0"
  using inv_initial [OF lc_settled, of "''x''" 1 0] by (simp add: lc_db0_def)

lemma lc_run: "(outbox_step lc_env lc_schema)\<^sup>*\<^sup>* (lview lc_schema (lc_rows ''x'' 1), lc_db0) (lview lc_schema (lc_rows ''x'' 1), lc_db1)"
  using outbox_step.mutate [OF lc_mutated] lc_settles by (simp add: r_into_rtranclp)

lemma lc_inv1: "outbox_inv lc_env lc_schema (lview lc_schema (lc_rows ''x'' 1)) lc_db1"
  using run_inv [OF lc_engine lc_mirror lc_run] lc_inv0 by simp

text \<open>A second pending commit, on another row, confirmed before the first one.\<close>

definition lc_op2 :: OutboxOperation where
  "lc_op2 = \<lparr>oo_table = js ''t'', oo_rowId = js ''q'', oo_op = Delete, oo_baseVersion = None, oo_values = None, oo_changedFields = None\<rparr>"

definition lc_commit2 :: OutboxCommit where
  "lc_commit2 = \<lparr>ob_seq = 2, ob_clientCommitId = js ''l'', ob_createdAtMs = 6, ob_operations = [lc_op2]\<rparr>"

definition lc_db2 :: client_db where
  "lc_db2 = lc_db1\<lparr>cd_outbox := [lc_commit, lc_commit2], cd_outboxSeq := 2,
     cd_images := cd_images lc_db1 @ [(js ''l'', \<lparr>bi_opIndex = 0, bi_existed = False, bi_syncVersion = None, bi_values = None\<rparr>)]\<rparr>"

lemma lc_mutated2: "recordMutations lc_env lc_schema (js ''l'') 6 [MutDelete (js ''t'') (js ''q'') None] [] lc_db1 = Inr lc_db2"
  by (simp add: recordMutations_def mutationOperation_def appendOutboxCommit_def captureBeforeImages_def captureBeforeImage_def
      selectLocalRow_def key_is_def cell_def reparsed_op_def reparsed_image_def deleteLocalRow_def delete_where_def image_key_def find_by_def
      lc_db1_def lc_db2_def lc_commit_def lc_commit2_def lc_op2_def lc_defs Let_def)

lemma lc_overtaken_run:
  "(outbox_step lc_env lc_schema)\<^sup>*\<^sup>* (lview lc_schema (lc_rows ''x'' 1), lc_db0)
     (apply_op lc_env lc_schema lc_op2 (lview lc_schema (lc_rows ''x'' 1)), deleteOutboxCommit (js ''l'') lc_db2)"
proof -
  let ?base = "lview lc_schema (lc_rows ''x'' 1)"
  have "outbox_step lc_env lc_schema (?base, lc_db1) (?base, lc_db2)"
    using outbox_step.mutate [OF lc_mutated2] by (simp add: mutation_settles_def)
  moreover have "outbox_step lc_env lc_schema (?base, lc_db2) (apply_op lc_env lc_schema lc_op2 ?base, deleteOutboxCommit (js ''l'') lc_db2)"
    using outbox_step.confirm [of lc_db2 "[lc_commit]" lc_commit2 "[]" lc_env lc_schema ?base]
    by (simp add: lc_db2_def lc_commit_def lc_commit2_def lc_op_def lc_op2_def okey_def js_def)
  ultimately show ?thesis using lc_run by (meson rtranclp.rtrancl_into_rtrancl)
qed

end
