(* ===== verification/Client_Properties.thy ===== *)
theory Client_Properties
  imports Client_Samples
begin

text \<open>
  The properties of the web client: the optimistic overlay, push batches, responses, revocation
  and windows, each with a concrete instance where it has hypotheses.
\<close>

section \<open>The optimistic layer\<close>

text \<open>C3. Local rows are an overlay. Start with any synced rows and an empty outbox and let the application
  mutate, the server reject any commit and the server confirm commits, in any order. The local rows
  are always the confirmed rows with the operations of the pending commits applied in order. A
  confirmed commit may have overtaken older pending ones as long as they write other rows; the
  claim does not extend to a commit confirmed ahead of an older commit on the same row, which the
  push batches can bring about: then the local row keeps the newer value while the older commit is
  still pending. In the instance a commit overtakes an older one on another row.\<close>

theorem optimistic_overlay:
  assumes "text_engine env" "mirror_schema schema" "settled_view env schema (lview schema rows)"
    and "(outbox_step env schema)\<^sup>*\<^sup>* (lview schema rows, \<lparr>cd_rows = rows, cd_outbox = [], cd_outboxSeq = seq, cd_images = []\<rparr>) (base, db)"
  shows "lview schema (cd_rows db) = overlay env schema (cd_outbox db) base"
  using run_inv [OF assms(1,2,4)] inv_initial [OF assms(3)] by (simp add: outbox_inv_def)

theorem optimistic_overlay_witness:
  "lview lc_schema (cd_rows (deleteOutboxCommit (js ''l'') lc_db2)) =
     overlay lc_env lc_schema [lc_commit] (apply_op lc_env lc_schema lc_op2 (lview lc_schema (lc_rows ''x'' 1))) \<and>
   lview lc_schema (cd_rows (deleteOutboxCommit (js ''l'') lc_db2)) (js ''t'', js ''r'') = Some (lc_row ''y'' 1)"
proof
  have box: "cd_outbox (deleteOutboxCommit (js ''l'') lc_db2) = [lc_commit]"
    by (simp add: deleteOutboxCommit_def delete_where_def lc_db2_def lc_commit_def lc_commit2_def js_def)
  from optimistic_overlay [OF lc_engine lc_mirror lc_settled lc_overtaken_run [unfolded lc_db0_def]]
  show "lview lc_schema (cd_rows (deleteOutboxCommit (js ''l'') lc_db2)) =
      overlay lc_env lc_schema [lc_commit] (apply_op lc_env lc_schema lc_op2 (lview lc_schema (lc_rows ''x'' 1)))" unfolding box .
  show "lview lc_schema (cd_rows (deleteOutboxCommit (js ''l'') lc_db2)) (js ''t'', js ''r'') = Some (lc_row ''y'' 1)"
    using lc_lookup [of "''y''" 1] by (simp add: deleteOutboxCommit_def lc_db2_def lc_db1_def)
qed

text \<open>C5. A rejected commit disappears. Whatever commit of the outbox is rejected, taking it back succeeds
  on tables without unique indexes; the other commits stay in order and the local rows are exactly
  theirs over the same confirmed rows.\<close>

theorem rejection_rebuilds:
  assumes "text_engine env" "mirror_schema schema" "no_unique schema" "outbox_inv env schema base db"
    and "cd_outbox db = pre @ c # post"
  shows "\<exists>db'. rollbackFailedCommit env schema c db = Inr db' \<and> cd_outbox db' = pre @ post \<and>
    lview schema (cd_rows db') = overlay env schema (pre @ post) base"
proof -
  obtain db' where "rollbackFailedCommit env schema c db = Inr db'" using rollback_succeeds [OF assms(3,4)] assms(5) by auto
  then show ?thesis using inv_rollback [OF assms(1,2,4,5)] by (auto simp: outbox_inv_def)
qed

theorem rejection_rebuilds_witness:
  "\<exists>db'. rollbackFailedCommit lc_env lc_schema lc_commit lc_db1 = Inr db' \<and> cd_outbox db' = [] \<and>
     lview lc_schema (cd_rows db') (js ''t'', js ''r'') = Some (lc_row ''x'' 1)"
  using rejection_rebuilds [OF lc_engine lc_mirror lc_free lc_inv1, of "[]" lc_commit "[]"] lc_lookup [of "''x''" 1]
  by (auto simp: lc_db1_def overlay_def)

text \<open>C6. Server data under pending commits. After a server commit is applied to the local rows, the
  replay that follows succeeds on tables without unique indexes and leaves exactly the pending
  operations over the confirmed rows with the server's changes, although the local rows already
  held those operations.\<close>

theorem replay_rebases:
  assumes "text_engine env" "mirror_schema schema" "no_unique schema" "outbox_inv env schema base db"
    and "mapE (resolveChange env schema (cf_tables frame)) (cf_changes frame) = Inr chs" "list_all (change_ok schema) chs"
    and "applyCommitFrame env schema frame (cd_rows db) = Inr rows"
  shows "\<exists>db'. replayOutbox env schema (db\<lparr>cd_rows := rows\<rparr>) = Inr db' \<and>
    lview schema (cd_rows db') = overlay env schema (cd_outbox db) (fold (apply_change env) chs base)"
  using replay_view [OF assms(1-4,6)] assms(5,7) by (auto simp: applyCommitFrame_def)

definition lc_delete_frame :: CommitFrame where
  "lc_delete_frame = \<lparr>cf_commitSeq = 2, cf_createdAtMs = 6, cf_actorId = js ''a'', cf_tables = [js ''t''],
     cf_changes = [\<lparr>cc_tableIndex = 0, cc_rowId = js ''r'', cc_op = Delete, cc_rowVersion = None, cc_scopes = [], cc_row = None\<rparr>]\<rparr>"

lemma lc_delete_resolved: "mapE (resolveChange lc_env lc_schema (cf_tables lc_delete_frame)) (cf_changes lc_delete_frame) =
    Inr [ResolvedDelete lc_table (js ''r'')]"
  by (simp add: lc_delete_frame_def resolveChange_def lc_schema_def js_def)

lemma lc_delete_applied: "applyCommitFrame lc_env lc_schema lc_delete_frame (cd_rows lc_db1) = Inr []"
  by (simp add: applyCommitFrame_def lc_delete_resolved del: mapE.simps)
     (simp add: deleteLocalRow_def delete_where_def key_is_def cell_def lc_db1_def lc_defs)

theorem replay_rebases_witness:
  "\<exists>db'. replayOutbox lc_env lc_schema (lc_db1\<lparr>cd_rows := []\<rparr>) = Inr db' \<and>
     lview lc_schema (cd_rows db') = overlay lc_env lc_schema [lc_commit] ((lview lc_schema (lc_rows ''x'' 1))((js ''t'', js ''r'') := None))"
  using replay_rebases [OF lc_engine lc_mirror lc_free lc_inv1 lc_delete_resolved _ lc_delete_applied]
  by (auto simp: lc_db1_def apply_change_def lc_table_def lc_schema_def)

text \<open>C39. A before-image is not moved by server data. When a commit that alone touches a row is rejected,
  the row goes back to the value it had before the commit, whatever the server has delivered for
  it since: the local rows at that time have no influence. A server row that arrived in between is
  undone until it is delivered again.\<close>

theorem stale_before_image:
  assumes "text_engine env" "mirror_schema schema" "outbox_inv env schema base db" "cd_outbox db = pre @ c # post"
    and "k \<in> okey ` set (ob_operations c)" "\<forall>op\<in>set (pending (pre @ post)). okey op \<noteq> k"
    and "rollbackFailedCommit env schema c (db\<lparr>cd_rows := rows\<rparr>) = Inr db'"
  shows "lview schema (cd_rows db') k = base k"
  using assms by (rule rollback_stale)

lemma lc_rollback_newer:
  "rollbackFailedCommit lc_env lc_schema lc_commit (lc_db1\<lparr>cd_rows := lc_rows ''z'' 2\<rparr>) = Inr (lc_db0\<lparr>cd_outboxSeq := 1\<rparr>)"
  by (simp add: rollbackFailedCommit_def Let_def lc_db1_def lc_db0_def lc_commit_def lc_op_def listOutboxBeforeImages_def find_by_def
      restoreBeforeImage_def upsertLocalRow_def violates_def stored_cells_def cell_def local_key_def deleteOutboxCommit_def delete_where_def lc_defs)

theorem stale_before_image_witness:
  "rollbackFailedCommit lc_env lc_schema lc_commit (lc_db1\<lparr>cd_rows := lc_rows ''z'' 2\<rparr>) = Inr (lc_db0\<lparr>cd_outboxSeq := 1\<rparr>) \<and>
   lview lc_schema (lc_rows ''z'' 2) (js ''t'', js ''r'') = Some (lc_row ''z'' 2) \<and>
   lview lc_schema (cd_rows (lc_db0\<lparr>cd_outboxSeq := 1\<rparr>)) (js ''t'', js ''r'') = Some (lc_row ''x'' 1)"
  using stale_before_image [OF lc_engine lc_mirror lc_inv1, of "[]" lc_commit "[]" "(js ''t'', js ''r'')", OF _ _ _ lc_rollback_newer]
    lc_rollback_newer lc_lookup [of "''z''" 2] lc_lookup [of "''x''" 1]
  by (auto simp: lc_db1_def lc_commit_def lc_op_def okey_def)

section \<open>Outcomes\<close>

text \<open>The journal keeps failures. Pruning never deletes an unresolved conflict or rejection; it removes
  the oldest other outcomes and leaves the bound, or the unresolved failures alone when they exceed it.\<close>

theorem journal_keeps_failures:
  assumes "journal_ok journal" "pruneCommitOutcomes maxEntries journal = Inr (n, journal')"
  shows "(\<forall>row\<in>set (oj_rows journal). failure row \<longrightarrow> row \<in> set (oj_rows journal')) \<and>
    length (oj_rows journal') = max (min (length (oj_rows journal)) (nat maxEntries)) (length (filter failure (oj_rows journal))) \<and>
    (\<forall>old\<in>set (oj_rows journal'). \<forall>gone\<in>set (oj_rows journal) - set (oj_rows journal'). \<not> failure old \<longrightarrow> co_sequence gone < co_sequence old)"
  using prune_effect [OF assms] by blast

definition lc_outcome :: "int \<Rightarrow> string \<Rightarrow> CommitOutcomeStatus \<Rightarrow> CommitOutcome" where
  "lc_outcome n c status = \<lparr>co_sequence = n, co_clientCommitId = js c, co_status = status, co_recordedAtMs = 0, co_results = [], co_operations = None,
     co_resolution = ResActive, co_resolvedAtMs = None, co_replacementClientCommitId = None\<rparr>"

definition lc_journal :: outcome_journal where
  "lc_journal = \<lparr>oj_rows = [lc_outcome 1 ''a'' OutRejected, lc_outcome 2 ''b'' OutApplied, lc_outcome 3 ''c'' OutApplied], oj_seq = 3\<rparr>"

lemma lc_journal_ok: "journal_ok lc_journal"
  by (simp add: journal_ok_def lc_journal_def lc_outcome_def js_def)

lemma lc_pruned: "pruneCommitOutcomes 2 lc_journal = Inr (1, lc_journal\<lparr>oj_rows := [lc_outcome 1 ''a'' OutRejected, lc_outcome 3 ''c'' OutApplied]\<rparr>)"
  by (simp add: pruneCommitOutcomes_def positive_safe_def max_safe_def prune_candidates_def prunable_def lc_journal_def lc_outcome_def Let_def delete_where_def)

theorem journal_keeps_failures_witness:
  "lc_outcome 1 ''a'' OutRejected \<in> set (oj_rows (lc_journal\<lparr>oj_rows := [lc_outcome 1 ''a'' OutRejected, lc_outcome 3 ''c'' OutApplied]\<rparr>)) \<and>
   failure (lc_outcome 1 ''a'' OutRejected)"
  using journal_keeps_failures [OF lc_journal_ok lc_pruned] by (simp add: lc_journal_def failure_def lc_outcome_def)


section \<open>Push batches\<close>

text \<open>C13. What a request carries. The commits of a push are encoded one frame each, form a subsequence of
  the outbox, and stay within the operation cap unless the request carries a single commit. Every
  other pending commit is counted as deferred or could not be encoded.\<close>

theorem push_batch_bounded:
  assumes "encodeOutboxForPush sn encryption s = (Inr b, s')"
  shows "subseq (pb_outbox b) (cd_outbox (cs_db s)) \<and>
    list_all2 (\<lambda>c f. encodeOutboxCommit encryption (sn_schema sn) c = Inr f) (pb_outbox b) (pb_frames b) \<and>
    (op_count (pb_outbox b) \<le> MAX_OPS_PER_REQUEST \<or> length (pb_outbox b) \<le> 1) \<and>
    length (cd_outbox (cs_db s)) \<le> length (pb_outbox b) + pb_deferred b + length (filter (incompatible sn encryption) (cd_outbox (cs_db s)))"
  using encodeOutbox_batch [OF assms] by blast

text \<open>C38. A deferred commit is overtaken. With three pending commits of which the first two together exceed
  the operation cap and the first and third do not, the request carries the first and the third:
  the third is pushed before the second, out of creation order.\<close>

theorem push_batch_overtakes:
  assumes "cd_outbox (cs_db s) = [c1, c2, c3]"
    and "encodeOutboxCommit encryption (sn_schema sn) c1 = Inr f1" "encodeOutboxCommit encryption (sn_schema sn) c3 = Inr f3"
    and "length (ob_operations c1) + length (ob_operations c2) > MAX_OPS_PER_REQUEST"
    and "length (ob_operations c1) + length (ob_operations c3) \<le> MAX_OPS_PER_REQUEST"
  shows "\<exists>b. encodeOutboxForPush sn encryption s = (Inr b, s) \<and> pb_outbox b = [c1, c3] \<and> pb_deferred b = 1"
  using encode_overtakes [OF assms] by simp

definition lc_session :: session where
  "lc_session = \<lparr>sn_env = lc_env, sn_schema = lc_schema, sn_now = 9, sn_maxOutcomes = 10, sn_accept = 3, sn_socket = False,
     sn_sha256 = (\<lambda>_. []), sn_attach = (\<lambda>_. None), sn_segments = None\<rparr>"

definition lc_state :: "client_db \<Rightarrow> SubscriptionRecord list \<Rightarrow> client_state" where
  "lc_state db subs = \<lparr>cs_db = db, cs_subs = subs, cs_windows = [], cs_evictions = [], cs_outcomes = \<lparr>oj_rows = [], oj_seq = 0\<rparr>,
     cs_logEpoch = Some (js ''e''), cs_conflicts = [], cs_rejections = [], cs_leaseState = None, cs_schemaFloor = None,
     cs_upgrading = False, cs_needsPull = False, cs_localResetEpoch = 0, cs_acks = []\<rparr>"

lemmas lc_state_defs = lc_session_def lc_state_def

definition lc_deletes :: "int \<Rightarrow> string \<Rightarrow> nat \<Rightarrow> OutboxCommit" where
  "lc_deletes seq c n = \<lparr>ob_seq = seq, ob_clientCommitId = js c, ob_createdAtMs = 0,
     ob_operations = replicate n \<lparr>oo_table = js ''t'', oo_rowId = js ''r'', oo_op = Delete, oo_baseVersion = None, oo_values = None, oo_changedFields = None\<rparr>\<rparr>"

definition lc_queue :: client_state where
  "lc_queue = lc_state (lc_db0\<lparr>cd_outbox := [lc_deletes 1 ''a'' 400, lc_deletes 2 ''b'' 200, lc_deletes 3 ''c'' 50]\<rparr>) []"

lemma lc_deletes_encode: "\<exists>f. encodeOutboxCommit encryption schema (lc_deletes seq c n) = Inr f"
  by (rule encode_deletes) (simp add: lc_deletes_def)

theorem push_batch_overtakes_witness:
  "\<exists>b. encodeOutboxForPush lc_session None lc_queue = (Inr b, lc_queue) \<and>
     pb_outbox b = [lc_deletes 1 ''a'' 400, lc_deletes 3 ''c'' 50] \<and> pb_deferred b = 1"
proof -
  obtain f1 f3 where "encodeOutboxCommit None (sn_schema lc_session) (lc_deletes 1 ''a'' 400) = Inr f1"
    "encodeOutboxCommit None (sn_schema lc_session) (lc_deletes 3 ''c'' 50) = Inr f3" using lc_deletes_encode by blast
  then show ?thesis
    using push_batch_overtakes [of lc_queue "lc_deletes 1 ''a'' 400" "lc_deletes 2 ''b'' 200" "lc_deletes 3 ''c'' 50" None lc_session f1 f3]
    by (simp add: lc_queue_def lc_state_def lc_deletes_def MAX_OPS_PER_REQUEST_def)
qed

theorem push_batch_bounded_witness:
  "\<exists>b. encodeOutboxForPush lc_session None lc_queue = (Inr b, lc_queue) \<and> subseq (pb_outbox b) (cd_outbox (cs_db lc_queue)) \<and> op_count (pb_outbox b) \<le> 500"
proof -
  obtain f1 f3 where f: "encodeOutboxCommit None (sn_schema lc_session) (lc_deletes 1 ''a'' 400) = Inr f1"
    "encodeOutboxCommit None (sn_schema lc_session) (lc_deletes 3 ''c'' 50) = Inr f3" using lc_deletes_encode by blast
  have run: "encodeOutboxForPush lc_session None lc_queue =
      (Inr \<lparr>pb_frames = [f1, f3], pb_outbox = [lc_deletes 1 ''a'' 400, lc_deletes 3 ''c'' 50], pb_deferred = 1, pb_ops = 450\<rparr>, lc_queue)"
    using encode_overtakes [OF _ f, of lc_queue "lc_deletes 2 ''b'' 200"] by (simp add: lc_queue_def lc_state_def lc_deletes_def MAX_OPS_PER_REQUEST_def)
  show ?thesis using run push_batch_bounded [OF run] by (auto simp: MAX_OPS_PER_REQUEST_def)
qed

section \<open>Responses\<close>

text \<open>C11. Cursors move at the end of a section only. Whatever frames a response holds and wherever it
  fails, a subscription whose section the response does not close before an error keeps its record,
  or is marked failed with the cursor it sent.\<close>

theorem cursor_moves_at_section_end:
  assumes "processFrames sn ctx frames summary s = (r, s')" and "i \<notin> set (closed_ids None frames)"
  shows "getSubscription s' i = getSubscription s i \<or>
    (\<exists>sub sent. getSubscription s' i = Some sub \<and> su_status sub = StatusFailed \<and> sent \<in> set (rc_subs ctx) \<and> su_id sent = i \<and>
       su_cursor sub = su_cursor sent)"
  using processFrames_kept [OF assms] by (simp add: sub_kept_def)

definition lc_sub :: "int \<Rightarrow> jsstring option \<Rightarrow> SubscriptionRecord" where
  "lc_sub cursor token = \<lparr>su_id = js ''s'', su_table = js ''t'', su_scopes = [(js ''o'', [js ''x''])], su_params = None, su_cursor = cursor,
     su_bootstrapState = token, su_effectiveScopes = Some [(js ''o'', [js ''x''])], su_status = StatusActive, su_reasonCode = None\<rparr>"

definition lc_ctx :: "OutboxCommit list \<Rightarrow> SubscriptionRecord list \<Rightarrow> response_ctx" where
  "lc_ctx sent subs = \<lparr>rc_mode = PullMode, rc_sent = sent, rc_subs = subs, rc_details = [], rc_lastFinal = None, rc_resetEpoch = 0\<rparr>"

definition lc_start :: "SubStatus \<Rightarrow> SubStartFrame" where
  "lc_start status = \<lparr>ss_id = js ''s'', ss_status = status, ss_reasonCode = [], ss_effectiveScopes = [(js ''o'', [js ''x''])], ss_bootstrap = True\<rparr>"

definition lc_error :: ErrorFrame where
  "lc_error = \<lparr>ef_code = js ''sync.internal'', ef_message = [], ef_category = [], ef_retryable = True, ef_recommendedAction = [], ef_details = None\<rparr>"

definition lc_cut :: "ResponseFrame list" where
  "lc_cut = [SubStart (lc_start SubActive), Commit lc_delete_frame, ErrorF lc_error]"

lemma lc_cut_run:
  "processFrames lc_session (lc_ctx [] [lc_sub 1 None]) lc_cut (emptySummary 0) (lc_state lc_db0 [lc_sub 1 None]) =
   (Inl (ClientServerError (js ''sync.internal'') True), lc_state (lc_db0\<lparr>cd_rows := []\<rparr>) [lc_sub 1 None])"
  by (simp add: processFrames_def lc_cut_def lc_ctx_def lc_error_def lc_start_def lc_sub_def openSection_def find_by_def applyCommitFrame_def
      resolveChange_def lc_delete_frame_def deleteLocalRow_def delete_where_def key_is_def cell_def set_rows_def replayOutbox_def lc_db0_def
      lc_state_defs lc_defs Let_def)

theorem cursor_moves_at_section_end_witness:
  "processFrames lc_session (lc_ctx [] [lc_sub 1 None]) lc_cut (emptySummary 0) (lc_state lc_db0 [lc_sub 1 None]) =
     (Inl (ClientServerError (js ''sync.internal'') True), lc_state (lc_db0\<lparr>cd_rows := []\<rparr>) [lc_sub 1 None]) \<and>
   (getSubscription (lc_state (lc_db0\<lparr>cd_rows := []\<rparr>) [lc_sub 1 None]) (js ''s'') =
      getSubscription (lc_state lc_db0 [lc_sub 1 None]) (js ''s'') \<or>
    (\<exists>sub sent. getSubscription (lc_state (lc_db0\<lparr>cd_rows := []\<rparr>) [lc_sub 1 None]) (js ''s'') = Some sub \<and> su_status sub = StatusFailed \<and>
       sent \<in> set (rc_subs (lc_ctx [] [lc_sub 1 None])) \<and> su_id sent = js ''s'' \<and> su_cursor sub = su_cursor sent))"
proof
  show "processFrames lc_session (lc_ctx [] [lc_sub 1 None]) lc_cut (emptySummary 0) (lc_state lc_db0 [lc_sub 1 None]) =
     (Inl (ClientServerError (js ''sync.internal'') True), lc_state (lc_db0\<lparr>cd_rows := []\<rparr>) [lc_sub 1 None])" by (rule lc_cut_run)
  have "js ''s'' \<notin> set (closed_ids None lc_cut)" by (simp add: lc_cut_def)
  from cursor_moves_at_section_end [OF lc_cut_run this]
  show "getSubscription (lc_state (lc_db0\<lparr>cd_rows := []\<rparr>) [lc_sub 1 None]) (js ''s'') =
      getSubscription (lc_state lc_db0 [lc_sub 1 None]) (js ''s'') \<or>
    (\<exists>sub sent. getSubscription (lc_state (lc_db0\<lparr>cd_rows := []\<rparr>) [lc_sub 1 None]) (js ''s'') = Some sub \<and> su_status sub = StatusFailed \<and>
       sent \<in> set (rc_subs (lc_ctx [] [lc_sub 1 None])) \<and> su_id sent = js ''s'' \<and> su_cursor sub = su_cursor sent)" .
qed

text \<open>C7. A rejection is handled whole. When a rejected push result takes a commit off the outbox, exactly
  that commit leaves, the local rows are the overlay of the remaining commits over the same
  confirmed rows, and the failure is in the durable journal, even after pruning.\<close>

theorem rejection_handled:
  assumes "text_engine (sn_env sn)" "mirror_schema (sn_schema sn)" "outbox_inv (sn_env sn) (sn_schema sn) base (cs_db s)"
    and "journal_ok (cs_outcomes s)" "set sent \<subseteq> set (cd_outbox (cs_db s))" "pr_status frame = PushRejected"
    and "handlePushResult sn sent details prune frame (s, m) = (Inr True, s', m')"
  shows "cd_outbox (cs_db s') = filter (\<lambda>c. ob_clientCommitId c \<noteq> pr_clientCommitId frame) (cd_outbox (cs_db s)) \<and>
    lview (sn_schema sn) (cd_rows (cs_db s')) = overlay (sn_env sn) (sn_schema sn) (cd_outbox (cs_db s')) base \<and>
    (\<exists>row\<in>set (oj_rows (cs_outcomes s')). failure row \<and> co_clientCommitId row = pr_clientCommitId frame)"
  using handlePushResult_rejected [OF assms] by (simp add: outbox_inv_def)

definition lc_rejected :: PushResultFrame where
  "lc_rejected = \<lparr>pr_clientCommitId = js ''k'', pr_status = PushRejected, pr_commitSeq = None, pr_results = []\<rparr>"

lemma lc_rollback: "rollbackFailedCommit lc_env lc_schema lc_commit lc_db1 = Inr (lc_db0\<lparr>cd_outboxSeq := 1\<rparr>)"
  by (simp add: rollbackFailedCommit_def Let_def lc_db1_def lc_db0_def lc_commit_def lc_op_def listOutboxBeforeImages_def find_by_def
      restoreBeforeImage_def upsertLocalRow_def violates_def stored_cells_def cell_def local_key_def deleteOutboxCommit_def delete_where_def lc_defs)

lemma lc_rejected_run:
  "\<exists>s' m'. handlePushResult lc_session [lc_commit] (\<lambda>_. None) False lc_rejected (lc_state lc_db1 [], emptySummary 1) = (Inr True, s', m') \<and>
     cs_db s' = lc_db0\<lparr>cd_outboxSeq := 1\<rparr>"
  using lc_rollback
  by (simp add: handlePushResult_def lc_rejected_def find_by_def lc_session_def lc_state_def recordCommitOutcome_def commitOutcome_def pruneIf_def Let_def)
     (simp add: lc_commit_def lc_db1_def)

theorem rejection_handled_witness:
  "\<exists>s' m'. handlePushResult lc_session [lc_commit] (\<lambda>_. None) False lc_rejected (lc_state lc_db1 [], emptySummary 1) = (Inr True, s', m') \<and>
     lview lc_schema (cd_rows (cs_db s')) = overlay lc_env lc_schema [] (lview lc_schema (lc_rows ''x'' 1)) \<and>
     (\<exists>row\<in>set (oj_rows (cs_outcomes s')). failure row \<and> co_clientCommitId row = js ''k'')"
proof -
  obtain s' m' where run: "handlePushResult lc_session [lc_commit] (\<lambda>_. None) False lc_rejected (lc_state lc_db1 [], emptySummary 1) = (Inr True, s', m')"
    and db: "cs_db s' = lc_db0\<lparr>cd_outboxSeq := 1\<rparr>" using lc_rejected_run by blast
  have "outbox_inv (sn_env lc_session) (sn_schema lc_session) (lview lc_schema (lc_rows ''x'' 1)) (cs_db (lc_state lc_db1 []))"
    using lc_inv1 by (simp add: lc_state_defs)
  from rejection_handled [OF _ _ this _ _ _ run] run db lc_engine lc_mirror
  show ?thesis by (auto simp: lc_state_defs journal_ok_def lc_rejected_def lc_db1_def lc_db0_def)
qed


text \<open>C12. Revocation purges the effective scopes. When a subscription with mapped, non-empty scopes is
  revoked, exactly the local rows that match its last effective scopes go, exactly the pending
  commits with an upsert into those scopes are dropped, and the subscription stops. Rows outside
  the scopes stay as they are, also those a dropped commit wrote.\<close>

theorem revocation_purges:
  assumes "ss_status start = SubRevoked" "map_of (ls_tables (sn_schema sn)) (su_table sub) = Some table"
    and "su_effectiveScopes sub = Some effective" "effective \<noteq> []"
    and "list_all (\<lambda>(x, vs). map_of (lt_scopeColumnByVariable table) x \<noteq> None \<and> vs \<noteq> []) effective"
    and "distinct (map ob_clientCommitId (cd_outbox (cs_db s)))"
    and "finishSection sn sub start c b (s, m) = (Inr applied, s', m')"
  shows "cd_rows (cs_db s') = filter (\<lambda>x. \<not> clauses_match (sn_env sn) table (scope_clauses table effective) x) (cd_rows (cs_db s)) \<and>
    cd_outbox (cs_db s') = filter (\<lambda>c. \<not> list_ex (op_in_scope table effective) (ob_operations c)) (cd_outbox (cs_db s)) \<and>
    (\<exists>sub'. getSubscription s' (su_id sub) = Some sub' \<and> su_status sub' = StatusRevoked)"
  using finishSection_revoked [OF assms] by blast

lemma lc_revoked_run:
  "\<exists>s' m'. finishSection lc_session (lc_sub 1 None) (lc_start SubRevoked) 1 None (lc_state lc_db0 [lc_sub 1 None], emptySummary 0) = (Inr False, s', m')"
  by (simp add: finishSection_def lc_start_def lc_sub_def purgeRevoked_def deleteScopedRows_def dropOutboxCommitsInScope_def lc_db0_def lc_state_defs
      lc_defs Let_def)

theorem revocation_purges_witness:
  "\<exists>s' m'. finishSection lc_session (lc_sub 1 None) (lc_start SubRevoked) 1 None (lc_state lc_db0 [lc_sub 1 None], emptySummary 0) =
       (Inr False, s', m') \<and> cd_rows (cs_db s') = []"
proof -
  obtain s' m' where run: "finishSection lc_session (lc_sub 1 None) (lc_start SubRevoked) 1 None (lc_state lc_db0 [lc_sub 1 None], emptySummary 0) =
      (Inr False, s', m')" using lc_revoked_run by blast
  have table: "map_of (ls_tables (sn_schema lc_session)) (su_table (lc_sub 1 None)) = Some lc_table"
    by (simp add: lc_session_def lc_schema_def lc_sub_def)
  have "cd_rows (cs_db s') = filter (\<lambda>x. \<not> clauses_match lc_env lc_table (scope_clauses lc_table [(js ''o'', [js ''x''])]) x) (lc_rows ''x'' 1)"
    using revocation_purges [OF _ table _ _ _ _ run, of "[(js ''o'', [js ''x''])]"]
    by (simp add: lc_start_def lc_sub_def lc_table_def lc_state_defs lc_db0_def)
  then show ?thesis using run
    by (simp add: clauses_match_def scope_clauses_def column_cell_def cell_def lc_defs)
qed

text \<open>C40. A restarted bootstrap is not cleared. When the client holds a resume token, the pages the server
  sends for the subscription never remove a local row, also when the server restarted the bootstrap
  with a fresh pin; the subscription still takes the cursor and the (absent) token of the section.
  A row the server deleted in between survives, as in the instance: the page of the restarted
  bootstrap brings the row \<open>q\<close> and the stale row \<open>r\<close> is still there.\<close>

theorem restarted_bootstrap_keeps_rows:
  assumes "mirror_schema (sn_schema sn)" "find_by su_id (ss_id f) (rev (rc_subs ctx)) = Some sub" "su_bootstrapState sub \<noteq> None"
    and "rc_mode ctx = PullMode" "ss_status f = SubActive" "cs_localResetEpoch (rp_state rp) = rc_resetEpoch ctx"
    and "handleFrames sn ctx n (SubStart f # map SegmentInline pages @ [SubEnd e]) rp = (None, rp')"
  shows "(lview (sn_schema sn) (cd_rows (cs_db (rp_state rp))) k \<noteq> None \<longrightarrow> lview (sn_schema sn) (cd_rows (cs_db (rp_state rp'))) k \<noteq> None) \<and>
    getSubscription (rp_state rp') (su_id sub) = Some (sub\<lparr>su_cursor := se_nextCursor e, su_bootstrapState := se_bootstrapState e,
      su_effectiveScopes := Some (ss_effectiveScopes f), su_status := StatusActive, su_reasonCode := None\<rparr>)"
  using assms by (rule resumed_section_keeps)

definition lc_end :: SubEndFrame where
  "lc_end = \<lparr>se_nextCursor = 7, se_bootstrapState = None\<rparr>"

definition lc_rp :: Client_Response.response_state where
  "lc_rp = \<lparr>rp_state = lc_state lc_db0 [lc_sub 3 (Some (js ''token''))], rp_summary = emptySummary 0, rp_section = None, rp_deltaCursor = -1\<rparr>"

text \<open>A page of the restarted bootstrap: the server no longer has the row \<open>r\<close> and sends the row \<open>q\<close>.\<close>

definition lc_page_values :: "RowValue list" where
  "lc_page_values = [VString (js ''q''), VString (js ''x'')]"

definition lc_segment :: RowsSegment where
  "lc_segment = \<lparr>rs_table = js ''t'', rs_schemaVersion = 1, rs_columns = [text_col ''id'', text_col ''o''],
     rs_blocks = [[\<lparr>sr_serverVersion = 5, sr_values = lc_page_values\<rparr>]]\<rparr>"

definition lc_page :: "byte list" where
  "lc_page = (case encodeRowsSegment lc_segment of Inl _ \<Rightarrow> [] | Inr bytes \<Rightarrow> bytes)"

lemma lc_page_decodes: "decodeRowsSegment lc_page = Inr (lc_segment\<lparr>rs_columns := map wire_column (rs_columns lc_segment)\<rparr>)"
proof -
  obtain bytes where bytes: "encodeRowsSegment lc_segment = Inr bytes"
    by (simp add: encodeRowsSegment_def lc_segment_def text_col_def writeColumn_def writeBlock_def writeSegmentRow_def writeRow_def
        lc_page_values_def writeValue_def bitmapLength_def writer_eval ROWS_SEGMENT_FORMAT_VERSION_def ROWS_SEGMENT_MAGIC_def
        text_encode_eval js_def Let_def)
  have "segment_ok lc_segment"
    by (simp add: segment_ok_def lc_segment_def row_ok_def value_ok_def text_col_def lc_page_values_def str_ok_def js_def is_high_def is_low_def)
  from decode_encode_segment [OF bytes this] bytes show ?thesis by (simp add: lc_page_def)
qed

lemma lc_page_applied:
  "applyRowsSegment lc_env lc_schema lc_table (lc_segment\<lparr>rs_columns := map wire_column (rs_columns lc_segment)\<rparr>) False effective (lc_rows ''x'' 1) =
     (Inr 1, lc_rows ''x'' 1 @ [(js ''t'', \<lparr>lr_cells = [SqlText (js ''q''), SqlText (js ''x'')], lr_version = 5\<rparr>)])"
  by (simp add: applyRowsSegment_def validateSegmentColumns_def lc_segment_def column_matches_def decrypted_def upsertLocalRow_def
      stored_cells_def violates_def local_key_def cell_def lc_page_values_def lc_defs Let_def)

lemma lc_restart_run:
  "\<exists>rp'. handleFrames lc_session (lc_ctx [] [lc_sub 3 (Some (js ''token''))]) 0
     (SubStart (lc_start SubActive) # map SegmentInline [lc_page] @ [SubEnd lc_end]) lc_rp = (None, rp') \<and>
     cd_rows (cs_db (rp_state rp')) = lc_rows ''x'' 1 @ [(js ''t'', \<lparr>lr_cells = [SqlText (js ''q''), SqlText (js ''x'')], lr_version = 5\<rparr>)]"
proof -
  have table: "map_of (ls_tables lc_schema) (js ''t'') = Some lc_table" "sn_schema lc_session = lc_schema" "sn_env lc_session = lc_env"
    by (simp_all add: lc_schema_def lc_session_def)
  show ?thesis
    by (simp add: lc_rp_def lc_ctx_def lc_start_def lc_sub_def lc_end_def openSection_def live_section_def find_by_def finishSection_def set_rows_def
        applyRows_def lc_page_decodes applySegmentOrFail_def table lc_page_applied after_segment_def keep_def
        replayOutbox_def lc_db0_def lc_state_def Let_def)
qed

theorem restarted_bootstrap_keeps_rows_witness:
  "\<exists>rp'. handleFrames lc_session (lc_ctx [] [lc_sub 3 (Some (js ''token''))]) 0
     (SubStart (lc_start SubActive) # map SegmentInline [lc_page] @ [SubEnd lc_end]) lc_rp = (None, rp') \<and>
     lview lc_schema (cd_rows (cs_db (rp_state rp'))) (js ''t'', js ''r'') \<noteq> None \<and>
     lview lc_schema (cd_rows (cs_db (rp_state rp'))) (js ''t'', js ''q'') \<noteq> None \<and>
     getSubscription (rp_state rp') (js ''s'') = Some (lc_sub 7 None)"
proof -
  obtain rp' where run: "handleFrames lc_session (lc_ctx [] [lc_sub 3 (Some (js ''token''))]) 0
     (SubStart (lc_start SubActive) # map SegmentInline [lc_page] @ [SubEnd lc_end]) lc_rp = (None, rp')"
    and rows: "cd_rows (cs_db (rp_state rp')) = lc_rows ''x'' 1 @ [(js ''t'', \<lparr>lr_cells = [SqlText (js ''q''), SqlText (js ''x'')], lr_version = 5\<rparr>)]"
    using lc_restart_run by blast
  have schema: "mirror_schema (sn_schema lc_session)" using lc_mirror by (simp add: lc_session_def)
  have "lview lc_schema (cd_rows (cs_db (rp_state lc_rp))) (js ''t'', js ''r'') \<noteq> None"
    using lc_lookup [of "''x''" 1] by (simp add: lc_rp_def lc_state_def lc_db0_def)
  with restarted_bootstrap_keeps_rows [OF schema _ _ _ _ _ run, of "lc_sub 3 (Some (js ''token''))" "(js ''t'', js ''r'')"]
  have "lview lc_schema (cd_rows (cs_db (rp_state rp'))) (js ''t'', js ''r'') \<noteq> None \<and>
      getSubscription (rp_state rp') (js ''s'') = Some (lc_sub 7 None)"
    by (simp add: lc_ctx_def lc_start_def lc_sub_def lc_rp_def lc_state_defs find_by_def lc_end_def)
  moreover have "lview lc_schema (cd_rows (cs_db (rp_state rp'))) (js ''t'', js ''q'') \<noteq> None"
    unfolding rows by (simp add: lview_def local_at_def find_by_def local_key_def cell_def lc_defs)
  ultimately show ?thesis using run by blast
qed

section \<open>Windows and resets\<close>

text \<open>A window holds what was asked for. After a successful edit the registry of the window's base
  holds exactly the wanted units, whatever it held before.\<close>

theorem window_set_exact:
  assumes "setWindowCommand sha256 env schema base us s = (Inr changed, s')"
  shows "set (ws_units (windowState base s')) = set us"
  using assms by (rule setWindow_units)

definition lc_base :: WindowBase where
  "lc_base = \<lparr>wb_table = js ''t'', wb_variable = js ''o'', wb_fixedScopes = [], wb_params = None\<rparr>"

definition lc_windowed :: client_state where
  "lc_windowed = (lc_state lc_db1 [lc_sub 1 None])\<lparr>cs_windows := [\<lparr>wu_base = windowBaseKey lc_base, wu_unit = js ''x'', wu_subId = js ''s''\<rparr>]\<rparr>"

lemma lc_loaded: "loadWindowUnits lc_windowed (windowBaseKey lc_base) = cs_windows lc_windowed"
  by (simp add: loadWindowUnits_def lc_windowed_def)

lemma lc_evicted:
  "\<exists>s'. evictUnit lc_env lc_schema (windowBaseKey lc_base) lc_base (js ''x'') (js ''s'') lc_windowed = Inr s'"
  by (simp add: evictUnit_def lc_base_def lc_windowed_def lc_state_def getSubscription_def find_by_def lc_sub_def evictScopedRows_def
      lc_schema_def lc_table_def Let_def)

lemma lc_window_run: "\<exists>s'. setWindowCommand (\<lambda>_. []) lc_env lc_schema lc_base [] lc_windowed = (Inr True, s')"
  using lc_evicted lc_loaded
  by (auto simp: setWindowCommand_def Let_def lc_windowed_def lc_base_def lc_schema_def lc_table_def split: prod.splits)

theorem window_set_exact_witness:
  "\<exists>s'. setWindowCommand (\<lambda>_. []) lc_env lc_schema lc_base [] lc_windowed = (Inr True, s') \<and>
     ws_units (windowState lc_base lc_windowed) = [js ''x''] \<and> set (ws_units (windowState lc_base s')) = set []"
proof -
  obtain s' where run: "setWindowCommand (\<lambda>_. []) lc_env lc_schema lc_base [] lc_windowed = (Inr True, s')" using lc_window_run by blast
  have "ws_units (windowState lc_base lc_windowed) = [js ''x'']" by (simp add: windowState_def Let_def lc_loaded) (simp add: lc_windowed_def)
  then show ?thesis using run window_set_exact [OF run] by blast
qed

text \<open>C21. Eviction spares pending rows. Leaving a window unit keeps the outbox and every local row a pending
  operation on the table refers to, so an unsent edit survives a shrinking window.\<close>

theorem eviction_keeps_pending:
  assumes "text_engine env" "mirror_schema schema" "evictUnit env schema baseKey base u subId s = Inr s'"
    and "op \<in> set (pending (cd_outbox (cs_db s)))" "oo_table op = wb_table base"
  shows "lview schema (cd_rows (cs_db s')) (okey op) = lview schema (cd_rows (cs_db s)) (okey op) \<and>
    cd_outbox (cs_db s') = cd_outbox (cs_db s)"
  using evictUnit_keeps_pending [OF assms] by simp

theorem eviction_keeps_pending_witness:
  "\<exists>s'. evictUnit lc_env lc_schema (windowBaseKey lc_base) lc_base (js ''x'') (js ''s'') lc_windowed = Inr s' \<and>
     lview lc_schema (cd_rows (cs_db s')) (js ''t'', js ''r'') = Some (lc_row ''y'' 1)"
proof -
  obtain s' where run: "evictUnit lc_env lc_schema (windowBaseKey lc_base) lc_base (js ''x'') (js ''s'') lc_windowed = Inr s'"
    using lc_evicted by blast
  have "lc_op \<in> set (pending (cd_outbox (cs_db lc_windowed)))" "oo_table lc_op = wb_table lc_base"
    by (simp_all add: pending_def lc_windowed_def lc_state_def lc_db1_def lc_commit_def lc_op_def lc_base_def)
  from eviction_keeps_pending [OF lc_engine lc_mirror run this] run lc_lookup [of "''y''" 1]
  show ?thesis by (simp add: okey_def lc_op_def lc_windowed_def lc_state_def lc_db1_def)
qed

text \<open>C22. A reset keeps unsent work. The reset of a new log epoch succeeds when the pending operations can
  be applied locally and no table has unique indexes. It keeps the outbox, leaves exactly the
  pending operations over empty tables, keeps every subscription and rewinds it to a fresh bootstrap.\<close>

theorem reset_keeps_outbox:
  assumes "text_engine env" "mirror_schema schema" "no_unique schema"
    and "\<forall>op\<in>set (pending (cd_outbox (cs_db s))). op_safe env schema op"
  shows "\<exists>s'. runLogEpochReset env schema logEpoch s = (Inr (map su_id (cs_subs s)), s') \<and> cs_logEpoch s' = Some logEpoch \<and>
    lview schema (cd_rows (cs_db s')) = overlay env schema (cd_outbox (cs_db s)) (\<lambda>_. None) \<and>
    cd_outbox (cs_db s') = cd_outbox (cs_db s) \<and> map su_id (cs_subs s') = map su_id (cs_subs s) \<and>
    (\<forall>sub\<in>set (cs_subs s'). su_cursor sub = -1 \<and> su_bootstrapState sub = None \<and> su_status sub = StatusActive)"
  using rebuild_overlay [OF assms(1-3), of "s\<lparr>cs_upgrading := True\<rparr>"] assms(4) by (auto simp: runLogEpochReset_def Let_def)

lemma lc_op_safe: "op_safe lc_env lc_schema lc_op"
  using lc_inv1 by (simp add: outbox_inv_def pending_def lc_db1_def lc_commit_def)

theorem reset_keeps_outbox_witness:
  "\<exists>s'. runLogEpochReset lc_env lc_schema (js ''f'') lc_windowed = (Inr [js ''s''], s') \<and> cd_outbox (cs_db s') = [lc_commit] \<and>
     map su_cursor (cs_subs s') = [-1]"
proof -
  have safe: "\<forall>op\<in>set (pending (cd_outbox (cs_db lc_windowed))). op_safe lc_env lc_schema op"
    using lc_op_safe by (simp add: pending_def lc_windowed_def lc_state_def lc_db1_def lc_commit_def)
  from reset_keeps_outbox [OF lc_engine lc_mirror lc_free safe, of "js ''f''"]
  obtain s' where run: "runLogEpochReset lc_env lc_schema (js ''f'') lc_windowed = (Inr [js ''s''], s')" "cd_outbox (cs_db s') = [lc_commit]"
    "map su_id (cs_subs s') = [js ''s'']" "\<forall>sub\<in>set (cs_subs s'). su_cursor sub = -1"
    by (auto simp: lc_windowed_def lc_state_def lc_db1_def lc_sub_def)
  then have "map su_cursor (cs_subs s') = [-1]" by (cases "cs_subs s'") auto
  then show ?thesis using run by (intro exI [of _ s']) simp
qed

end
