(* ===== verification/Lease_Store.thy ===== *)
theory Lease_Store
  imports Tables Scopes
begin

text \<open>
  Auth leases: the store in memory (\<open>server/src/lease-store.ts\<close>) and the one over SQLite
  (\<open>sqlite-lease-store.ts\<close>). The locale \<open>lease_store\<close> states what the handler relies on, and
  \<open>keyed_lease_store\<close> that different clients do not share a lease. The store in memory joins
  partition and client id with a NUL character: it satisfies the second contract for partitions
  without one (\<open>lease_key_inj\<close>, \<open>ml_issue_other\<close>). \<open>newId\<close> is the id the factory would mint.
\<close>

record LeaseRecord =
  ar_leaseId :: jsstring
  ar_actorId :: jsstring
  ar_allowedScopes :: scope_map
  ar_issuedAtMs :: int
  ar_expiresAtMs :: int
  ar_revoked :: bool

section \<open>The store in memory\<close>

record MemoryLeaseStore =
  ml_entries :: "(jsstring \<times> LeaseRecord) list"
  ml_revokedIds :: "(jsstring \<times> jsstring list) list"

definition lease_key :: "jsstring \<Rightarrow> jsstring \<Rightarrow> jsstring" where
  "lease_key part clientId = part @ [0] @ clientId"

definition ml_get :: "MemoryLeaseStore \<Rightarrow> jsstring \<Rightarrow> jsstring \<Rightarrow> LeaseRecord option" where
  "ml_get store part clientId = map_of (ml_entries store) (lease_key part clientId)"

definition ml_isRevoked :: "MemoryLeaseStore \<Rightarrow> jsstring \<Rightarrow> jsstring \<Rightarrow> bool" where
  "ml_isRevoked store part leaseId = (case map_of (ml_revokedIds store) part of None \<Rightarrow> False | Some ids \<Rightarrow> leaseId \<in> set ids)"

definition new_lease :: "jsstring \<Rightarrow> jsstring \<Rightarrow> scope_map \<Rightarrow> int \<Rightarrow> int \<Rightarrow> LeaseRecord" where
  "new_lease leaseId actorId allowedScopes nowMs ttlMs = \<lparr>ar_leaseId = leaseId, ar_actorId = actorId, ar_allowedScopes = allowedScopes,
     ar_issuedAtMs = nowMs, ar_expiresAtMs = nowMs + ttlMs, ar_revoked = False\<rparr>"

text \<open>The id of the lease to write: the stored one while it is the actor's and not revoked.\<close>

definition reused_id :: "(jsstring \<Rightarrow> bool) \<Rightarrow> LeaseRecord option \<Rightarrow> jsstring \<Rightarrow> jsstring \<Rightarrow> jsstring" where
  "reused_id isRevoked existing actorId newId =
     (case existing of
        Some r \<Rightarrow> if ar_actorId r = actorId \<and> \<not> ar_revoked r \<and> \<not> isRevoked (ar_leaseId r) then ar_leaseId r else newId
      | None \<Rightarrow> newId)"

definition ml_issue ::
    "jsstring \<Rightarrow> jsstring \<Rightarrow> jsstring \<Rightarrow> jsstring \<Rightarrow> scope_map \<Rightarrow> int \<Rightarrow> int \<Rightarrow> MemoryLeaseStore \<Rightarrow> LeaseRecord \<times> MemoryLeaseStore" where
  "ml_issue newId part clientId actorId allowedScopes nowMs ttlMs store =
     (let leaseId = reused_id (ml_isRevoked store part) (ml_get store part clientId) actorId newId;
          r = new_lease leaseId actorId allowedScopes nowMs ttlMs in
      (r, store\<lparr>ml_entries := AList.update (lease_key part clientId) r (ml_entries store)\<rparr>))"

definition ml_revoke :: "jsstring \<Rightarrow> jsstring \<Rightarrow> MemoryLeaseStore \<Rightarrow> MemoryLeaseStore" where
  "ml_revoke part leaseId store =
     \<lparr>ml_entries = map (\<lambda>(key, r). if take (length part + 1) key = part @ [0] \<and> ar_leaseId r = leaseId
        then (key, r\<lparr>ar_revoked := True\<rparr>) else (key, r)) (ml_entries store),
      ml_revokedIds = AList.update part
        (let ids = (case map_of (ml_revokedIds store) part of None \<Rightarrow> [] | Some ids \<Rightarrow> ids) in
         if leaseId \<in> set ids then ids else ids @ [leaseId]) (ml_revokedIds store)\<rparr>"

section \<open>The store over SQLite\<close>

text \<open>
  The tables \<open>sync_leases\<close> and \<open>sync_lease_revocations\<close>. The scopes are kept as JSON text, which
  gives a map of string lists back as it was.
\<close>

record SqliteLeaseStore =
  ql_leases :: "(jsstring \<times> jsstring \<times> LeaseRecord) list"
  ql_revocations :: "(jsstring \<times> jsstring) list"

definition ql_key :: "jsstring \<times> jsstring \<times> LeaseRecord \<Rightarrow> jsstring \<times> jsstring" where
  "ql_key = (\<lambda>(part, clientId, r). (part, clientId))"

definition ql_get :: "SqliteLeaseStore \<Rightarrow> jsstring \<Rightarrow> jsstring \<Rightarrow> LeaseRecord option" where
  "ql_get store part clientId = map_option (\<lambda>(p, c, r). r) (find_by ql_key (part, clientId) (ql_leases store))"

definition ql_isRevoked :: "SqliteLeaseStore \<Rightarrow> jsstring \<Rightarrow> jsstring \<Rightarrow> bool" where
  "ql_isRevoked store part leaseId \<longleftrightarrow> (part, leaseId) \<in> set (ql_revocations store)"

definition ql_issue ::
    "jsstring \<Rightarrow> jsstring \<Rightarrow> jsstring \<Rightarrow> jsstring \<Rightarrow> scope_map \<Rightarrow> int \<Rightarrow> int \<Rightarrow> SqliteLeaseStore \<Rightarrow> LeaseRecord \<times> SqliteLeaseStore" where
  "ql_issue newId part clientId actorId allowedScopes nowMs ttlMs store =
     (let leaseId = reused_id (ql_isRevoked store part) (ql_get store part clientId) actorId newId;
          r = new_lease leaseId actorId allowedScopes nowMs ttlMs in
      (r, store\<lparr>ql_leases := upsert_by ql_key (part, clientId, r) (ql_leases store)\<rparr>))"

definition ql_revoke :: "jsstring \<Rightarrow> jsstring \<Rightarrow> SqliteLeaseStore \<Rightarrow> SqliteLeaseStore" where
  "ql_revoke part leaseId store =
     \<lparr>ql_leases = update_where (\<lambda>(p, c, r). p = part \<and> ar_leaseId r = leaseId) (\<lambda>(p, c, r). (p, c, r\<lparr>ar_revoked := True\<rparr>)) (ql_leases store),
      ql_revocations = insert_or_ignore (\<lambda>x. x) (part, leaseId) (ql_revocations store)\<rparr>"

section \<open>The interface\<close>

locale lease_store =
  fixes get :: "'s \<Rightarrow> jsstring \<Rightarrow> jsstring \<Rightarrow> LeaseRecord option"
    and issue :: "jsstring \<Rightarrow> jsstring \<Rightarrow> jsstring \<Rightarrow> jsstring \<Rightarrow> scope_map \<Rightarrow> int \<Rightarrow> int \<Rightarrow> 's \<Rightarrow> LeaseRecord \<times> 's"
    and revoke :: "jsstring \<Rightarrow> jsstring \<Rightarrow> 's \<Rightarrow> 's"
    and isRevoked :: "'s \<Rightarrow> jsstring \<Rightarrow> jsstring \<Rightarrow> bool"
  assumes issue_lease: "issue newId p c a scopes now ttl s = (r, s') \<Longrightarrow>
      r = new_lease (reused_id (isRevoked s p) (get s p c) a newId) a scopes now ttl"
    and get_issue: "issue newId p c a scopes now ttl s = (r, s') \<Longrightarrow> get s' p c = Some r"
    and revoked_issue: "issue newId p c a scopes now ttl s = (r, s') \<Longrightarrow> isRevoked s' q i = isRevoked s q i"
    and get_revoke: "get (revoke p i s) p c = map_option (\<lambda>r. if ar_leaseId r = i then r\<lparr>ar_revoked := True\<rparr> else r) (get s p c)"
    and revoked_revoke: "isRevoked (revoke p i s) q j \<longleftrightarrow> isRevoked s q j \<or> (q, j) = (p, i)"
begin

text \<open>A refresh never hands out a revoked id, unless the factory mints it again.\<close>

lemma issue_not_revoked:
  assumes "issue newId p c a scopes now ttl s = (r, s')" "\<not> isRevoked s p newId"
  shows "\<not> isRevoked s' p (ar_leaseId r) \<and> \<not> ar_revoked r"
  using issue_lease [OF assms(1)] revoked_issue [OF assms(1)] assms(2)
  by (auto simp: new_lease_def reused_id_def split: option.splits)

text \<open>A refresh keeps the id of an actor's valid lease and slides its window.\<close>

lemma issue_slides:
  assumes "get s p c = Some r0" "ar_actorId r0 = a" "\<not> ar_revoked r0" "\<not> isRevoked s p (ar_leaseId r0)"
    and "issue newId p c a scopes now ttl s = (r, s')"
  shows "ar_leaseId r = ar_leaseId r0 \<and> ar_expiresAtMs r = now + ttl \<and> ar_allowedScopes r = scopes"
  using issue_lease [OF assms(5)] assms(1-4) by (simp add: new_lease_def reused_id_def)

end

locale keyed_lease_store = lease_store +
  assumes issue_other: "issue newId p c a scopes now ttl s = (r, s') \<Longrightarrow> (q, d) \<noteq> (p, c) \<Longrightarrow> get s' q d = get s q d"
    and revoke_other: "q \<noteq> p \<Longrightarrow> get (revoke p i s) q c = get s q c"
begin

text \<open>Revocation is final: a lease with a revoked id is marked, whatever is issued or revoked.\<close>

lemma sound_issue:
  assumes "\<forall>q d r. get s q d = Some r \<longrightarrow> isRevoked s q (ar_leaseId r) \<longrightarrow> ar_revoked r"
    and "issue newId p c a scopes now ttl s = (r', s')" "\<not> isRevoked s p newId"
  shows "\<forall>q d r. get s' q d = Some r \<longrightarrow> isRevoked s' q (ar_leaseId r) \<longrightarrow> ar_revoked r"
proof (intro allI impI)
  fix q d r assume r: "get s' q d = Some r" "isRevoked s' q (ar_leaseId r)"
  show "ar_revoked r"
  proof (cases "(q, d) = (p, c)")
    case True
    then show ?thesis using r get_issue [OF assms(2)] issue_not_revoked [OF assms(2,3)] by simp
  next
    case False
    then show ?thesis using r issue_other [OF assms(2) False] revoked_issue [OF assms(2)] assms(1) by auto
  qed
qed

lemma sound_revoke:
  assumes "\<forall>q d r. get s q d = Some r \<longrightarrow> isRevoked s q (ar_leaseId r) \<longrightarrow> ar_revoked r"
  shows "\<forall>q d r. get (revoke p i s) q d = Some r \<longrightarrow> isRevoked (revoke p i s) q (ar_leaseId r) \<longrightarrow> ar_revoked r"
proof (intro allI impI)
  fix q d r assume r: "get (revoke p i s) q d = Some r" "isRevoked (revoke p i s) q (ar_leaseId r)"
  show "ar_revoked r"
  proof (cases "q = p")
    case True
    then obtain r0 where r0: "get s p d = Some r0" "r = (if ar_leaseId r0 = i then r0\<lparr>ar_revoked := True\<rparr> else r0)"
      using r(1) get_revoke [of p i s d] by auto
    then have "ar_leaseId r0 = i \<or> isRevoked s p (ar_leaseId r0)"
      using r(2) True revoked_revoke [of p i s p "ar_leaseId r"] by (auto split: if_splits)
    then show ?thesis using r0 spec [OF spec [OF spec [OF assms, of p], of d], of r0] by (auto split: if_splits)
  next
    case False
    then show ?thesis using r revoke_other [OF False, of i s d] revoked_revoke [of p i s q "ar_leaseId r"]
        spec [OF spec [OF spec [OF assms, of q], of d], of r] by simp
  qed
qed

end

section \<open>The two stores\<close>

lemma map_of_map_values: "map_of (map (\<lambda>(k, v). if P k v then (k, f v) else (k, v)) xs) k = map_option (\<lambda>v. if P k v then f v else v) (map_of xs k)"
  by (induction xs) auto

interpretation ml: lease_store ml_get ml_issue ml_revoke ml_isRevoked
proof unfold_locales
  fix p i s c
  have "take (length p + 1) (lease_key p c) = p @ [0]" by (simp add: lease_key_def)
  then show "ml_get (ml_revoke p i s) p c = map_option (\<lambda>r. if ar_leaseId r = i then r\<lparr>ar_revoked := True\<rparr> else r) (ml_get s p c)"
    using map_of_map_values [of "\<lambda>k r. take (length p + 1) k = p @ [0] \<and> ar_leaseId r = i" "\<lambda>r. r\<lparr>ar_revoked := True\<rparr>" "ml_entries s"]
    by (simp add: ml_get_def ml_revoke_def)
qed (auto simp: ml_issue_def ml_get_def ml_isRevoked_def ml_revoke_def Let_def update_conv' split: option.splits)

text \<open>Without a NUL in the partitions the joined key tells the clients apart.\<close>

lemma lease_key_inj:
  assumes "0 \<notin> set p" "0 \<notin> set q"
  shows "lease_key p c = lease_key q d \<longleftrightarrow> p = q \<and> c = d"
proof -
  have split: "takeWhile (\<lambda>x. x \<noteq> 0) (lease_key a e) = a" if "0 \<notin> set a" for a e
    using that by (induction a) (auto simp: lease_key_def)
  show ?thesis using split [OF assms(1), of c] split [OF assms(2), of d] by (auto simp: lease_key_def)
qed

lemma ml_issue_other:
  assumes "ml_issue newId p c a scopes now ttl s = (r, s')" "0 \<notin> set p" "0 \<notin> set q" "(q, d) \<noteq> (p, c)"
  shows "ml_get s' q d = ml_get s q d"
  using assms lease_key_inj [OF assms(3,2), of d c] by (auto simp: ml_issue_def ml_get_def Let_def update_conv')

lemma ql_key_tuple [simp]: "ql_key (p, c, r) = (p, c)"
  by (simp add: ql_key_def)

lemma find_revoked:
  "find_by ql_key k (ql_leases (ql_revoke p i s)) =
     map_option (\<lambda>(q, c, r). if q = p \<and> ar_leaseId r = i then (q, c, r\<lparr>ar_revoked := True\<rparr>) else (q, c, r)) (find_by ql_key k (ql_leases s))"
proof -
  have "ql_key (case x of (p, c, r) \<Rightarrow> (p, c, r\<lparr>ar_revoked := True\<rparr>)) = ql_key x" for x by (auto simp: ql_key_def split: prod.splits)
  then show ?thesis by (auto simp: ql_revoke_def find_by_update_where split: prod.splits intro!: option.map_cong)
qed

interpretation ql: keyed_lease_store ql_get ql_issue ql_revoke ql_isRevoked
proof unfold_locales
  fix p i s c
  show "ql_get (ql_revoke p i s) p c = map_option (\<lambda>r. if ar_leaseId r = i then r\<lparr>ar_revoked := True\<rparr> else r) (ql_get s p c)"
    using find_by_SomeD [of ql_key "(p, c)" "ql_leases s"]
    by (cases "find_by ql_key (p, c) (ql_leases s)") (auto simp: ql_get_def find_revoked)
next
  fix q p i s c assume "q \<noteq> (p :: jsstring)"
  then show "ql_get (ql_revoke p i s) q c = ql_get s q c"
    using find_by_SomeD [of ql_key "(q, c)" "ql_leases s"]
    by (cases "find_by ql_key (q, c) (ql_leases s)") (auto simp: ql_get_def find_revoked)
qed (auto simp: ql_issue_def ql_get_def ql_isRevoked_def ql_revoke_def Let_def find_by_upsert set_insert_or_ignore_id)

text \<open>Runs of the SQLite store.\<close>

inductive lease_step :: "SqliteLeaseStore \<Rightarrow> SqliteLeaseStore \<Rightarrow> bool" where
  issue: "\<not> ql_isRevoked s p newId \<Longrightarrow> lease_step s (snd (ql_issue newId p c a scopes now ttl s))"
| revoke: "lease_step s (ql_revoke p i s)"

definition leases_sound :: "SqliteLeaseStore \<Rightarrow> bool" where
  "leases_sound s \<longleftrightarrow> (\<forall>q d r. ql_get s q d = Some r \<longrightarrow> ql_isRevoked s q (ar_leaseId r) \<longrightarrow> ar_revoked r)"

lemma leases_sound_step: "lease_step s s' \<Longrightarrow> leases_sound s \<Longrightarrow> leases_sound s'"
proof (induction rule: lease_step.induct)
  case (issue s p newId c a scopes now ttl)
  then show ?case
    using ql.sound_issue [where newId = newId and p = p, OF _ prod.collapse [symmetric], of s c a scopes now ttl] by (simp add: leases_sound_def)
next
  case (revoke s p i)
  then show ?case using ql.sound_revoke [of s p i] by (simp add: leases_sound_def)
qed

lemma revoked_step: "lease_step s s' \<Longrightarrow> ql_isRevoked s p i \<Longrightarrow> ql_isRevoked s' p i"
  by (induction rule: lease_step.induct) (auto simp: ql.revoked_revoke ql.revoked_issue [OF prod.collapse [symmetric]])

lemma lease_run:
  "lease_step\<^sup>*\<^sup>* s s' \<Longrightarrow> leases_sound s \<Longrightarrow> leases_sound s' \<and> (ql_isRevoked s p i \<longrightarrow> ql_isRevoked s' p i)"
  by (induction rule: rtranclp_induct) (auto dest: leases_sound_step revoked_step)

end
