(* ===== verification/Frame_Bytes.thy ===== *)
theory Frame_Bytes
  imports Message
begin

text \<open>
  Streaming production of a response, \<open>server/src/frame-bytes.ts\<close>: every frame is encoded inside a
  small legal message and its bytes are cut out of it by walking the frame lengths. The result
  says that the pieces make up the message the reference codec would produce.
\<close>

section \<open>Wrapper messages\<close>

definition stubHeader :: "int \<Rightarrow> ResponseFrame" where
  "stubHeader wireVersion = RespHeader (if wireVersion \<ge> 2
     then \<lparr>rsh_requiredSchemaVersion = None, rsh_latestSchemaVersion = None, rsh_logEpoch = Some (js ''frame-probe''), rsh_resetRequired = Some False\<rparr>
     else \<lparr>rsh_requiredSchemaVersion = None, rsh_latestSchemaVersion = None, rsh_logEpoch = None, rsh_resetRequired = None\<rparr>)"

definition STUB_SUB_START :: ResponseFrame where
  "STUB_SUB_START = SubStart \<lparr>ss_id = [], ss_status = SubActive, ss_reasonCode = [], ss_effectiveScopes = [], ss_bootstrap = False\<rparr>"

definition STUB_SUB_END :: ResponseFrame where
  "STUB_SUB_END = SubEnd \<lparr>se_nextCursor = 0, se_bootstrapState = None\<rparr>"

definition probe :: writer where
  "probe = encodeMessage (ResponseMessage 1 [stubHeader 1])"

definition responseEnvelopeHeader :: "int \<Rightarrow> writer" where
  "responseEnvelopeHeader wireVersion = bindE (encodeMessage (ResponseMessage wireVersion [stubHeader wireVersion])) (\<lambda>b. Inr (take 8 b))"

definition END_FRAME_BYTES :: "byte list" where
  "END_FRAME_BYTES = (case probe of Inl _ \<Rightarrow> [] | Inr b \<Rightarrow> drop (length b - 5) b)"

definition stub_result :: "PushResultDetailsFrame \<Rightarrow> ResponseFrame" where
  "stub_result frame = PushResult \<lparr>pr_clientCommitId = prd_clientCommitId frame, pr_status = PushRejected, pr_commitSeq = None,
     pr_results = map (\<lambda>entry. OpError (de_opIndex entry) (js ''sync.constraint_violation'') [] False None) (prd_entries frame)\<rparr>"

fun wrapperFor :: "ResponseFrame \<Rightarrow> int \<Rightarrow> ResponseFrame list \<times> nat" where
  "wrapperFor (RespHeader f) v = ([RespHeader f], 0)"
| "wrapperFor (Lease f) v = ([stubHeader v, Lease f], 1)"
| "wrapperFor (PushResult f) v = ([stubHeader v, PushResult f], 1)"
| "wrapperFor (ErrorF f) v = ([stubHeader v, ErrorF f], 1)"
| "wrapperFor (RespUnknown f) v = ([stubHeader v, RespUnknown f], 1)"
| "wrapperFor (PushResultDetails f) v = ([stubHeader v, stub_result f, PushResultDetails f], 2)"
| "wrapperFor (SubStart f) v = ([stubHeader v, SubStart f, STUB_SUB_END], 1)"
| "wrapperFor (SubEnd f) v = ([stubHeader v, STUB_SUB_START, SubEnd f], 2)"
| "wrapperFor (Commit f) v = ([stubHeader v, STUB_SUB_START, Commit f, STUB_SUB_END], 2)"
| "wrapperFor (SegmentRef f) v = ([stubHeader v, STUB_SUB_START, SegmentRef f, STUB_SUB_END], 2)"
| "wrapperFor (SegmentInline p) v = ([stubHeader v, STUB_SUB_START, SegmentInline p, STUB_SUB_END], 2)"

text \<open>The walk over the frame headers; \<open>i\<close> counts the frames left before the wanted one.\<close>

fun sliceFrame :: "byte list \<Rightarrow> nat \<Rightarrow> nat \<Rightarrow> byte list" where
  "sliceFrame encoded position i =
     (let end = position + 5 + le_val (take 4 (drop (position + 1) encoded)) in
      case i of 0 \<Rightarrow> take (end - position) (drop position encoded) | Suc j \<Rightarrow> sliceFrame encoded end j)"

declare sliceFrame.simps [simp del]

definition encodeResponseFrame_bytes :: "ResponseFrame \<Rightarrow> int \<Rightarrow> writer" where
  "encodeResponseFrame_bytes frame wireVersion =
     (let (frames, i) = wrapperFor frame wireVersion in
      bindE (encodeMessage (ResponseMessage wireVersion frames)) (\<lambda>encoded. Inr (sliceFrame encoded 8 i)))"

text \<open>The chunks of a response, concatenated.\<close>

definition stream_bytes :: "int \<Rightarrow> ResponseFrame list \<Rightarrow> writer" where
  "stream_bytes wireVersion frames =
     seqW (responseEnvelopeHeader wireVersion # map (\<lambda>f. encodeResponseFrame_bytes f wireVersion) frames @ [Inr END_FRAME_BYTES])"

section \<open>Shape of an encoded response\<close>

abbreviation frame_writer :: "int \<Rightarrow> ResponseFrame \<Rightarrow> writer" where
  "frame_writer v f \<equiv> writeFrame (encodeResponseFrame v f)"

definition envelope :: "int \<Rightarrow> writer" where
  "envelope v = seqW [w_raw SYNC_PACK_MAGIC, w_u16 v, w_u8 0x02, w_u8 0x00]"

lemma magic_length: "length SYNC_PACK_MAGIC = 4"
  by (simp add: pack_magic_bytes)

lemma envelope_length: "envelope v = Inr h \<Longrightarrow> length h = 8"
  by (auto simp: envelope_def writer_simps w_raw_def w_u16_def w_u8_def magic_length split: if_splits)

lemma envelope_supported: "isSupportedProtocolWireVersion v \<Longrightarrow> \<exists>h. envelope v = Inr h"
  by (auto simp: envelope_def seqW_simps w_raw_def w_u16_def w_u8_def isSupportedProtocolWireVersion_def
      MINIMUM_PROTOCOL_WIRE_VERSION_def PROTOCOL_WIRE_VERSION_def)

lemma endFrame_bytes: "\<exists>e. endFrame = Inr e \<and> length e = 5"
  by (simp add: endFrame_def seqW_simps w_u8_def w_u32_def)

lemma seqW_map: "seqW (map g fs) = Inr b \<longleftrightarrow> (\<exists>cs. list_all2 (\<lambda>f c. g f = Inr c) fs cs \<and> b = concat cs)"
proof (induction fs arbitrary: b)
  case (Cons f fs)
  then show ?case by (auto simp: writer_simps list_all2_Cons1) (metis concat.simps(2))
qed (simp add: writer_simps)

lemma encoded_response:
  "encodeMessage (ResponseMessage v fs) = Inr b \<longleftrightarrow>
     isSupportedProtocolWireVersion v \<and> validateResponseSequence fs = Inr () \<and>
     (\<exists>h cs e. envelope v = Inr h \<and> list_all2 (\<lambda>f c. frame_writer v f = Inr c) fs cs \<and> endFrame = Inr e \<and> b = h @ concat cs @ e)"
proof -
  have "seqW [w_raw SYNC_PACK_MAGIC, w_u16 v, w_u8 0x02, w_u8 0x00, body, fin] = Inr b \<longleftrightarrow>
      (\<exists>h c e. envelope v = Inr h \<and> body = Inr c \<and> fin = Inr e \<and> b = h @ c @ e)" for body fin
    using seqW_append [of "[w_raw SYNC_PACK_MAGIC, w_u16 v, w_u8 0x02, w_u8 0x00]" "[body, fin]"]
    by (auto simp: envelope_def [symmetric] bindE_eq_Inr seqW_Cons_eq seqW_Nil_eq)
  then show ?thesis unfolding encodeMessage_def validateFrameSequence_def by (auto simp: bindE_eq_Inr seqW_map)
qed

text \<open>A frame that says how long it is.\<close>

definition framed :: "byte list \<Rightarrow> bool" where
  "framed c \<longleftrightarrow> length c = 5 + le_val (take 4 (drop 1 c))"

lemma framed_write: "writeFrame w = Inr c \<Longrightarrow> framed c"
  by (auto simp: framed_def writeFrame_def bindE_eq_Inr writer_simps w_raw_def w_u8_def w_u32_def le_val_le_bytes split: if_splits)

lemma framed_prefix: "framed c \<Longrightarrow> 5 + le_val (take 4 (drop 1 (c @ r))) = length c"
proof -
  assume c: "framed c"
  then have "5 \<le> length c" unfolding framed_def by linarith
  then have "take 4 (drop 1 (c @ r)) = take 4 (drop 1 c)" by simp
  then show ?thesis using c by (simp only: framed_def)
qed

lemma sliceFrame_step:
  "position + 5 + le_val (take 4 (drop (position + 1) encoded)) = e \<Longrightarrow> sliceFrame encoded position i =
     (case i of 0 \<Rightarrow> take (e - position) (drop position encoded) | Suc j \<Rightarrow> sliceFrame encoded e j)"
  by (simp only: sliceFrame.simps [of encoded position i] Let_def)

lemma slice_frame:
  assumes "list_all framed cs" "i < length cs"
  shows "sliceFrame (pre @ concat cs @ post) (length pre) i = cs ! i"
  using assms
proof (induction cs arbitrary: pre i)
  case (Cons c cs)
  have len: "length pre + 5 + le_val (take 4 (drop (length pre + 1) (pre @ concat (c # cs) @ post))) = length (pre @ c)"
  proof -
    have "drop (length pre + 1) (pre @ concat (c # cs) @ post) = drop 1 (c @ concat cs @ post)" by (simp only: drop_append) simp
    moreover have "framed c" using Cons.prems(1) by simp
    ultimately show ?thesis using framed_prefix [of c "concat cs @ post"] by (simp only: length_append add.assoc)
  qed
  note step = sliceFrame_step [OF len, of i]
  show ?case
  proof (cases i)
    case 0
    then show ?thesis unfolding step by simp
  next
    case (Suc j)
    then show ?thesis unfolding step using Cons.IH [of j "pre @ c"] Cons.prems by simp
  qed
qed simp

section \<open>The pieces\<close>

lemma wrapper_place: "wrapperFor f v = (fs, i) \<Longrightarrow> i < length fs \<and> fs ! i = f"
  by (cases f) auto

lemma wrapped_bytes:
  assumes "encodeMessage (ResponseMessage v fs) = Inr b" "i < length fs"
  shows "frame_writer v (fs ! i) = Inr (sliceFrame b 8 i)"
proof -
  obtain h cs e where parts: "envelope v = Inr h" "list_all2 (\<lambda>f c. frame_writer v f = Inr c) fs cs" "b = h @ concat cs @ e"
    using assms(1) by (auto simp: encoded_response)
  have "list_all framed cs" using parts(2) framed_write by (auto simp: list_all_length list_all2_conv_all_nth)
  then have "sliceFrame b 8 i = cs ! i"
    using slice_frame [of cs i h e] parts envelope_length [OF parts(1)] list_all2_lengthD [OF parts(2)] assms(2) by simp
  then show ?thesis using list_all2_nthD [OF parts(2) assms(2)] by simp
qed

lemma streamed_frame: "encodeResponseFrame_bytes f v = Inr c \<Longrightarrow> frame_writer v f = Inr c"
  using wrapped_bytes [of v _ _] wrapper_place [of f v]
  by (auto simp: encodeResponseFrame_bytes_def Let_def bindE_eq_Inr split: prod.splits)

lemma streamed_envelope: "responseEnvelopeHeader v = Inr h \<Longrightarrow> envelope v = Inr h \<and> isSupportedProtocolWireVersion v"
proof -
  assume "responseEnvelopeHeader v = Inr h"
  then obtain g cs e where g: "envelope v = Inr g" "isSupportedProtocolWireVersion v" "h = take 8 (g @ concat cs @ e)"
    by (auto simp: responseEnvelopeHeader_def bindE_eq_Inr encoded_response)
  then show ?thesis using envelope_length [OF g(1)] by simp
qed

lemma probe_encodes: "\<exists>b. probe = Inr b"
proof -
  obtain h where "envelope 1 = Inr h"
    using envelope_supported [of 1]
    by (auto simp: isSupportedProtocolWireVersion_def MINIMUM_PROTOCOL_WIRE_VERSION_def PROTOCOL_WIRE_VERSION_def)
  moreover obtain c where "frame_writer 1 (stubHeader 1) = Inr c"
    by (simp add: stubHeader_def encodeResponseFrame_def typed_def encodeRespHeader_def writeFrame_def seqW_simps w_opt_def w_u8_def
        w_u32_def w_raw_def)
  ultimately show ?thesis using endFrame_bytes
    by (auto simp: probe_def encoded_response stubHeader_def validateResponseSequence_def response_start_def isSupportedProtocolWireVersion_def
        MINIMUM_PROTOCOL_WIRE_VERSION_def PROTOCOL_WIRE_VERSION_def list_all2_Cons1)
qed

lemma streamed_end: "endFrame = Inr END_FRAME_BYTES"
proof -
  obtain b where b: "probe = Inr b" using probe_encodes by blast
  then obtain h cs e where e: "endFrame = Inr e" "b = h @ concat cs @ e" by (auto simp: probe_def encoded_response)
  obtain e' where e': "endFrame = Inr e'" "length e' = 5" using endFrame_bytes by blast
  have "length e = 5" using e'(2) e'(1) [unfolded e(1)] by simp
  then have "END_FRAME_BYTES = e" unfolding END_FRAME_BYTES_def b e(2) by simp
  then show ?thesis using e(1) by simp
qed

lemma streamed_message:
  assumes "stream_bytes v frames = Inr b" "validateResponseSequence frames = Inr ()"
  shows "encodeMessage (ResponseMessage v frames) = Inr b"
proof -
  obtain h body where h: "responseEnvelopeHeader v = Inr h" and body: "seqW (map (\<lambda>f. encodeResponseFrame_bytes f v) frames) = Inr body"
    and b: "b = h @ body @ END_FRAME_BYTES"
    using assms(1) by (auto simp: stream_bytes_def seqW_append bindE_eq_Inr seqW_Cons_eq seqW_Nil_eq)
  obtain cs where cs: "list_all2 (\<lambda>f c. encodeResponseFrame_bytes f v = Inr c) frames cs" "body = concat cs" using body by (auto simp: seqW_map)
  then have "list_all2 (\<lambda>f c. frame_writer v f = Inr c) frames cs" by (auto elim!: list_all2_mono streamed_frame)
  then show ?thesis using streamed_envelope [OF h] streamed_end assms(2) b cs(2) by (auto simp: encoded_response)
qed

end
