(* ===== verification/Handler.thy ===== *)
theory Handler
  imports Push Pull Lease_Store Frame_Bytes
begin

text \<open>
  The sync request handler: \<open>server/src/handler.ts\<close>. It decodes a request, authorizes it (by the
  host's resolver or, in an outage, by the stored lease), runs the push commits and answers the
  subscriptions, one encoded chunk per frame.

  The handler gives up control at every storage access: \<open>hv_other n\<close> is what other requests do to
  the database before its \<open>n\<close>-th access. The clock and the generator of ids are read by the same
  count. Schema migration (\<open>ensureSchema\<close>) is a parameter; events are left out, and so are the
  message texts of errors. The only \<open>SyncError\<close> the storage throws is the unreadable push result,
  which the push catches; so the block that turns one into an \<open>ERROR\<close> frame only rethrows here.
\<close>

section \<open>Context\<close>

datatype resolver_answer =
    Allowed scope_map
  | ResolverOutage
  | ResolverThrows
  | ResolverSyncError jsstring

record 's lease_config =
  lv_ttlMs :: int
  lv_get :: "'s \<Rightarrow> jsstring \<Rightarrow> jsstring \<Rightarrow> LeaseRecord option"
  lv_issue :: "jsstring \<Rightarrow> jsstring \<Rightarrow> jsstring \<Rightarrow> jsstring \<Rightarrow> scope_map \<Rightarrow> int \<Rightarrow> int \<Rightarrow> 's \<Rightarrow> LeaseRecord \<times> 's"

record 's handler_env =
  hv_part :: jsstring
  hv_actorId :: jsstring
  hv_schema :: ServerSchema
  hv_ensureSchema :: "CompiledSchema \<Rightarrow> db \<Rightarrow> StorageError + db"
  hv_resolveScopes :: "jsstring \<Rightarrow> resolver_answer"
  hv_leases :: "'s lease_config option"
  hv_push :: push_env
  hv_pull :: pull_env
  hv_maxOperations :: nat
  hv_clock :: "nat \<Rightarrow> int"
  hv_uuid :: "nat \<Rightarrow> jsstring"
  hv_other :: "nat \<Rightarrow> db \<Rightarrow> db"
  hv_fuel :: nat

text \<open>\<open>DEFAULT_LIMITS\<close>\<close>

definition DEFAULT_maxOperationsPerRequest :: nat where "DEFAULT_maxOperationsPerRequest = 500"
definition DEFAULT_inlineSegmentMaxBytes :: nat where "DEFAULT_inlineSegmentMaxBytes = 256 * 1024"

definition REMOTE_COMMAND_CLIENT_ID_PREFIX :: jsstring where
  "REMOTE_COMMAND_CLIENT_ID_PREFIX = js ''['' @ quote_string (js ''remote-command'') @ js '',''"

record 's handler_state =
  hs_db :: db
  hs_segments :: MemorySegmentStore
  hs_leases :: 's
  hs_tick :: nat

definition refresh :: "('s, 'a) handler_env_scheme \<Rightarrow> ('s, 'b) handler_state_scheme \<Rightarrow> ('s, 'b) handler_state_scheme" where
  "refresh env s = s\<lparr>hs_db := hv_other env (hs_tick s) (hs_db s), hs_tick := Suc (hs_tick s)\<rparr>"

datatype HandlerError =
    SyncErr jsstring
  | ThrownSchema SchemaError
  | ThrownStorage StorageError
  | ThrownPush PushThrow
  | ThrownPull PullError
  | ThrownEncode error

section \<open>Authorization\<close>

definition validateResolvedKeys :: "scope_map \<Rightarrow> CompiledSchema \<Rightarrow> HandlerError + unit" where
  "validateResolvedKeys allowed schema =
     (if list_all (\<lambda>(key, vs). key \<in> set (cs_declaredVariables schema)) allowed then Inr ()
      else Inl (SyncErr (js ''sync.invalid_subscription'')))"

definition authorizeFromLease ::
    "('s, 'a) handler_env_scheme \<Rightarrow> jsstring \<Rightarrow> CompiledSchema \<Rightarrow> ('s, 'b) handler_state_scheme \<Rightarrow> HandlerError + ResolvedScopes" where
  "authorizeFromLease env clientId schema s =
     (case hv_leases env of
        None \<Rightarrow> Inl (SyncErr (js ''sync.auth_lease_required''))
      | Some leases \<Rightarrow>
          (case lv_get leases (hs_leases s) (hv_part env) clientId of
             None \<Rightarrow> Inl (SyncErr (js ''sync.auth_lease_required''))
           | Some lease \<Rightarrow>
               if ar_actorId lease \<noteq> hv_actorId env then Inl (SyncErr (js ''sync.auth_lease_required''))
               else if ar_revoked lease then Inl (SyncErr (js ''sync.auth_lease_revoked''))
               else if hv_clock env (hs_tick s) \<ge> ar_expiresAtMs lease then Inl (SyncErr (js ''sync.auth_lease_required''))
               else bindE (validateResolvedKeys (ar_allowedScopes lease) schema) (\<lambda>_. Inr (ResolvedOk (ar_allowedScopes lease)))))"

definition resolveOnce ::
    "('s, 'a) handler_env_scheme \<Rightarrow> jsstring \<Rightarrow> CompiledSchema \<Rightarrow> ('s, 'b) handler_state_scheme
     \<Rightarrow> (HandlerError + ResolvedScopes \<times> LeaseRecord option) \<times> ('s, 'b) handler_state_scheme" where
  "resolveOnce env clientId schema s =
     (case hv_resolveScopes env clientId of
        ResolverSyncError code \<Rightarrow> (Inl (SyncErr code), s)
      | ResolverThrows \<Rightarrow> (Inr (ResolvedFailed, None), s)
      | ResolverOutage \<Rightarrow> (bindE (authorizeFromLease env clientId schema s) (\<lambda>resolved. Inr (resolved, None)), s)
      | Allowed allowed \<Rightarrow>
          (case validateResolvedKeys allowed schema of
             Inl e \<Rightarrow> (Inl e, s)
           | Inr _ \<Rightarrow>
               (case hv_leases env of
                  None \<Rightarrow> (Inr (ResolvedOk allowed, None), s)
                | Some leases \<Rightarrow>
                    (let (lease, store) = lv_issue leases (hv_uuid env (hs_tick s)) (hv_part env) clientId (hv_actorId env) allowed
                           (hv_clock env (hs_tick s)) (lv_ttlMs leases) (hs_leases s) in
                     (Inr (ResolvedOk allowed, Some lease), s\<lparr>hs_leases := store\<rparr>)))))"

section \<open>The plan of a request\<close>

record RequestPlan =
  qp_wireVersion :: int
  qp_logEpoch :: jsstring
  qp_epochReset :: bool
  qp_header :: ReqHeaderFrame
  qp_pushes :: "PushCommitFrame list"
  qp_pull :: "PullHeaderFrame option"
  qp_subscriptions :: "SubscriptionPlan list"
  qp_resolved :: ResolvedScopes
  qp_schemaFloor :: bool
  qp_leaseToEmit :: "LeaseRecord option"

definition push_frames :: "RequestFrame list \<Rightarrow> PushCommitFrame list" where
  "push_frames frames = List.map_filter (\<lambda>f. case f of PushCommit p \<Rightarrow> Some p | _ \<Rightarrow> None) frames"

definition pull_frame :: "RequestFrame list \<Rightarrow> PullHeaderFrame option" where
  "pull_frame frames = fold (\<lambda>f r. case f of PullHeader p \<Rightarrow> Some p | _ \<Rightarrow> r) frames None"

definition subscription_frames :: "RequestFrame list \<Rightarrow> SubscriptionFrame list" where
  "subscription_frames frames = List.map_filter (\<lambda>f. case f of Subscription p \<Rightarrow> Some p | _ \<Rightarrow> None) frames"

text \<open>The checks of one subscription's scopes, key by key.\<close>

fun checkScopes :: "CompiledTable \<Rightarrow> scope_map \<Rightarrow> HandlerError + unit" where
  "checkScopes table [] = Inr ()"
| "checkScopes table ((key, values) # rest) =
     (if key \<notin> set (ct_declaredVariables table) then Inl (SyncErr (js ''sync.invalid_subscription''))
      else if star \<in> set values then Inl (SyncErr (js ''sync.invalid_subscription''))
      else checkScopes table rest)"

fun validateSubscriptions :: "CompiledSchema \<Rightarrow> jsstring list \<Rightarrow> SubscriptionFrame list \<Rightarrow> HandlerError + (SubscriptionFrame \<times> CompiledTable) list" where
  "validateSubscriptions schema seen [] = Inr []"
| "validateSubscriptions schema seen (frame # rest) =
     (if sb_id frame \<in> set seen then Inl (SyncErr (js ''sync.invalid_subscription''))
      else (case map_of (cs_tables schema) (sb_table frame) of
          None \<Rightarrow> Inl (SyncErr (js ''sync.unknown_table''))
        | Some table \<Rightarrow>
            bindE (checkScopes table (sb_scopes frame)) (\<lambda>_.
            bindE (validateSubscriptions schema (sb_id frame # seen) rest) (\<lambda>validated. Inr ((frame, table) # validated)))))"

definition plan_subscription :: "ResolvedScopes \<Rightarrow> SubscriptionFrame \<times> CompiledTable \<Rightarrow> SubscriptionPlan" where
  "plan_subscription resolved = (\<lambda>(frame, table).
     case computeEffective (sb_scopes frame) resolved of
       EffActive effective \<Rightarrow> \<lparr>sn_frame = frame, sn_table = table, sn_active = True, sn_effective = effective\<rparr>
     | EffRevoked \<Rightarrow> \<lparr>sn_frame = frame, sn_table = table, sn_active = False, sn_effective = []\<rparr>)"

text \<open>The plan of a request that is answered by its header alone.\<close>

definition header_plan :: "int \<Rightarrow> PartitionRegistryEntry \<Rightarrow> ReqHeaderFrame \<Rightarrow> bool \<Rightarrow> bool \<Rightarrow> RequestPlan" where
  "header_plan wireVersion registry header epochReset schemaFloor =
     \<lparr>qp_wireVersion = wireVersion, qp_logEpoch = pe_logEpoch registry, qp_epochReset = epochReset, qp_header = header,
      qp_pushes = [], qp_pull = None, qp_subscriptions = [], qp_resolved = ResolvedFailed, qp_schemaFloor = schemaFloor, qp_leaseToEmit = None\<rparr>"

definition rows_accepted :: "PullHeaderFrame \<Rightarrow> bool" where
  "rows_accepted pull \<longleftrightarrow> bit (ph_accept pull) ACCEPT_INLINE_ROWS \<or> bit (ph_accept pull) ACCEPT_EXTERNAL_ROWS"

definition planRequest ::
    "('s, 'a) handler_env_scheme \<Rightarrow> CompiledSchema \<Rightarrow> PartitionRegistryEntry \<Rightarrow> int \<Rightarrow> RequestFrame list \<Rightarrow> ('s, 'b) handler_state_scheme
     \<Rightarrow> (HandlerError + RequestPlan) \<times> ('s, 'b) handler_state_scheme" where
  "planRequest env schema registry wireVersion frames s =
     (case frames of
        ReqHeader header # _ \<Rightarrow>
          (let pushes = push_frames frames; pull = pull_frame frames; subFrames = subscription_frames frames;
               epochReset = (wireVersion \<ge> 2 \<and> rqh_logEpoch header \<noteq> Some (pe_logEpoch registry));
               ops = sum_list (map (\<lambda>p. length (pc_operations p)) pushes);
               s1 = refresh env s in
           if wireVersion = 1 \<and> pe_epochRequired registry then (Inl (SyncErr (js ''sync.client_wire_unsupported'')), s)
           else if wireVersion \<ge> 2 \<and> rqh_logEpoch header = None \<and> pushes \<noteq> [] then (Inl (SyncErr (js ''sync.invalid_request'')), s)
           else if rqh_schemaVersion header \<noteq> cs_version schema
           then (Inr ((header_plan wireVersion registry header epochReset True)\<lparr>qp_pushes := pushes, qp_pull := pull\<rparr>), s)
           else if epochReset then (Inr (header_plan wireVersion registry header True False), s)
           else if take (length REMOTE_COMMAND_CLIENT_ID_PREFIX) (rqh_clientId header) = REMOTE_COMMAND_CLIENT_ID_PREFIX
           then (Inl (SyncErr (js ''sync.invalid_client_id'')), s)
           else if (case getClientRecord (hs_db s1) (hv_part env) (rqh_clientId header) of
                None \<Rightarrow> False | Some r \<Rightarrow> cl_actorId r \<noteq> hv_actorId env)
           then (Inl (SyncErr (js ''sync.invalid_client_id'')), s1)
           else if ops > hv_maxOperations env then (Inl (SyncErr (js ''sync.too_many_operations'')), s1)
           else if (case pull of None \<Rightarrow> False | Some p \<Rightarrow> \<not> rows_accepted p) then (Inl (SyncErr (js ''sync.invalid_request'')), s1)
           else (case validateSubscriptions schema [] subFrames of
               Inl e \<Rightarrow> (Inl e, s1)
             | Inr validated \<Rightarrow>
                 (case resolveOnce env (rqh_clientId header) schema s1 of
                    (Inl e, s2) \<Rightarrow> (Inl e, s2)
                  | (Inr (resolved, lease), s2) \<Rightarrow>
                      (Inr \<lparr>qp_wireVersion = wireVersion, qp_logEpoch = pe_logEpoch registry, qp_epochReset = False, qp_header = header,
                        qp_pushes = pushes, qp_pull = pull, qp_subscriptions = map (plan_subscription resolved) validated,
                        qp_resolved = resolved, qp_schemaFloor = False, qp_leaseToEmit = lease\<rparr>, s2))))
      | _ \<Rightarrow> (Inl (SyncErr (js ''sync.invalid_request'')), s))"

section \<open>The response\<close>

text \<open>A chunk is kept with the frame it encodes.\<close>

type_synonym chunks = "(ResponseFrame \<times> byte list) list"

fun yield_all :: "int \<Rightarrow> ResponseFrame list \<Rightarrow> chunks \<Rightarrow> HandlerError + chunks" where
  "yield_all v [] out = Inr out"
| "yield_all v (f # fs) out =
     (case encodeResponseFrame_bytes f v of Inl e \<Rightarrow> Inl (ThrownEncode e) | Inr c \<Rightarrow> yield_all v fs (out @ [(f, c)]))"

definition pushResultDetailsFrame :: "PushResultFrame \<Rightarrow> PushResultDetailsFrame option" where
  "pushResultDetailsFrame frame =
     (let entries = List.map_filter (\<lambda>r. case r of
            OpError i code message retryable (Some details) \<Rightarrow> Some \<lparr>de_opIndex = i, de_details = details\<rparr>
          | _ \<Rightarrow> None) (pr_results frame) in
      if entries = [] then None else Some \<lparr>prd_clientCommitId = pr_clientCommitId frame, prd_entries = entries\<rparr>)"

definition result_frames :: "PushResultFrame \<Rightarrow> ResponseFrame list" where
  "result_frames frame = PushResult frame # (case pushResultDetailsFrame frame of None \<Rightarrow> [] | Some details \<Rightarrow> [PushResultDetails details])"

definition push_context :: "('s, 'a) handler_env_scheme \<Rightarrow> RequestPlan \<Rightarrow> nat \<Rightarrow> push_request" where
  "push_context env plan n = \<lparr>rq_part = hv_part env, rq_actorId = hv_actorId env, rq_clientId = rqh_clientId (qp_header plan),
     rq_clientCommitId = [], rq_resolved = qp_resolved plan, rq_createdAtMs = hv_clock env n, rq_uuid = hv_uuid env n\<rparr>"

text \<open>The push half: the lookup before the lock and the transaction are two accesses.\<close>

fun pushHalf ::
    "('s, 'a) handler_env_scheme \<Rightarrow> CompiledSchema \<Rightarrow> RequestPlan \<Rightarrow> PushCommitFrame list \<Rightarrow> chunks \<Rightarrow> ('s, 'b) handler_state_scheme
     \<Rightarrow> (HandlerError + chunks) \<times> ('s, 'b) handler_state_scheme" where
  "pushHalf env schema plan [] out s = (Inr out, s)"
| "pushHalf env schema plan (push # pushes) out s =
     (let s1 = refresh env s; s2 = refresh env s1;
          outcome = processPushCommit (hv_push env) schema (push_context env plan (hs_tick s1)) push (hs_db s1) (hs_db s2);
          s3 = s2\<lparr>hs_db := po_db outcome\<rparr> in
      case po_result outcome of
        Inl e \<Rightarrow> (Inl (ThrownPush e), s3)
      | Inr processed \<Rightarrow>
          (case yield_all (qp_wireVersion plan) (result_frames (pc_frame processed)) out of
             Inl e \<Rightarrow> (Inl e, s3)
           | Inr out' \<Rightarrow> pushHalf env schema plan pushes out' s3))"

text \<open>The database at the \<open>n\<close>-th read from here on.\<close>

definition read_at :: "('s, 'a) handler_env_scheme \<Rightarrow> ('s, 'b) handler_state_scheme \<Rightarrow> nat \<Rightarrow> db" where
  "read_at env s n = hs_db ((refresh env ^^ Suc n) s)"

text \<open>
  The pull half. A section is produced before its frames are encoded; it writes to the segment
  store only, and what a section that throws had written there is dropped.
\<close>

fun pullHalf ::
    "('s, 'a) handler_env_scheme \<Rightarrow> CompiledSchema \<Rightarrow> RequestPlan \<Rightarrow> PullLimits \<Rightarrow> int \<Rightarrow> int \<Rightarrow> SubscriptionPlan list \<Rightarrow> int list \<Rightarrow> chunks
     \<Rightarrow> ('s, 'b) handler_state_scheme \<Rightarrow> (HandlerError + int list \<times> chunks) \<times> ('s, 'b) handler_state_scheme" where
  "pullHalf env schema plan limits maxSeq horizonSeq [] cursors out s = (Inr (cursors, out), s)"
| "pullHalf env schema plan limits maxSeq horizonSeq (sub # subs) cursors out s =
     (case subscriptionSection (hv_fuel env) ((hv_pull env)\<lparr>pu_part := hv_part env\<rparr>) (read_at env s) schema limits sub maxSeq horizonSeq
             (Some (qp_logEpoch plan)) \<lparr>xs_frames = [], xs_store = hs_segments s, xs_read = 0\<rparr> of
        Inl e \<Rightarrow> (Inl (ThrownPull e), s)
      | Inr (r, st) \<Rightarrow>
          (let s1 = ((refresh env ^^ xs_read st) s)\<lparr>hs_segments := xs_store st\<rparr> in
           case yield_all (qp_wireVersion plan) (xs_frames st) out of
             Inl e \<Rightarrow> (Inl e, s1)
           | Inr out' \<Rightarrow>
               pullHalf env schema plan limits maxSeq horizonSeq subs (if sr_active r then cursors @ [sr_nextCursor r] else cursors) out' s1))"

definition pullSections ::
    "('s, 'a) handler_env_scheme \<Rightarrow> CompiledSchema \<Rightarrow> RequestPlan \<Rightarrow> chunks \<Rightarrow> ('s, 'b) handler_state_scheme
     \<Rightarrow> (HandlerError + int list \<times> chunks) \<times> ('s, 'b) handler_state_scheme" where
  "pullSections env schema plan out s =
     (case qp_pull plan of
        None \<Rightarrow> (Inr ([], out), s)
      | Some pull \<Rightarrow>
          (let s1 = refresh env s; s2 = refresh env s1 in
           pullHalf env schema plan (clampPullLimits pull) (getMaxCommitSeq (hs_db s1) (hv_part env)) (getHorizonSeq (hs_db s2) (hv_part env))
             (qp_subscriptions plan) [] out s2))"

text \<open>The client record: the lowest cursor of the active sections and the subscriptions of the pull.\<close>

definition next_record :: "('s, 'a) handler_env_scheme \<Rightarrow> RequestPlan \<Rightarrow> int list \<Rightarrow> ClientRecord option \<Rightarrow> int \<Rightarrow> ClientRecord" where
  "next_record env plan cursors previous now =
     \<lparr>cl_clientId = rqh_clientId (qp_header plan), cl_actorId = hv_actorId env, cl_wireVersion = qp_wireVersion plan,
      cl_cursor = (case cursors of c # cs \<Rightarrow> foldr min cs c | [] \<Rightarrow> (case previous of None \<Rightarrow> -1 | Some r \<Rightarrow> cl_cursor r)),
      cl_updatedAtMs = now,
      cl_subscriptions = (if qp_pull plan \<noteq> None
        then map (\<lambda>p. \<lparr>su_id = sb_id (sn_frame p), su_table = sb_table (sn_frame p), su_scopes = sb_scopes (sn_frame p)\<rparr>) (qp_subscriptions plan)
        else (case previous of None \<Rightarrow> [] | Some r \<Rightarrow> cl_subscriptions r))\<rparr>"

definition putRecord :: "('s, 'a) handler_env_scheme \<Rightarrow> RequestPlan \<Rightarrow> int list \<Rightarrow> ('s, 'b) handler_state_scheme \<Rightarrow> ('s, 'b) handler_state_scheme" where
  "putRecord env plan cursors s =
     (let s1 = refresh env s; s2 = refresh env s1;
          previous = getClientRecord (hs_db s1) (hv_part env) (rqh_clientId (qp_header plan)) in
      s2\<lparr>hs_db := putClientRecord (hv_part env) (next_record env plan cursors previous (hv_clock env (hs_tick s2))) (hs_db s2)\<rparr>)"

definition response_header :: "CompiledSchema \<Rightarrow> RequestPlan \<Rightarrow> ResponseFrame" where
  "response_header schema plan = RespHeader
     \<lparr>rsh_requiredSchemaVersion = (if qp_schemaFloor plan then Some (cs_version schema) else None),
      rsh_latestSchemaVersion = Some (cs_version schema),
      rsh_logEpoch = (if qp_wireVersion plan \<ge> 2 then Some (qp_logEpoch plan) else None),
      rsh_resetRequired = (if qp_wireVersion plan \<ge> 2 then Some (qp_epochReset plan) else None)\<rparr>"

definition lease_frames :: "RequestPlan \<Rightarrow> ResponseFrame list" where
  "lease_frames plan = (case qp_leaseToEmit plan of
     None \<Rightarrow> [] | Some lease \<Rightarrow> [Lease \<lparr>ls_leaseId = ar_leaseId lease, ls_expiresAtMs = ar_expiresAtMs lease\<rparr>])"

definition streamResponse ::
    "('s, 'a) handler_env_scheme \<Rightarrow> CompiledSchema \<Rightarrow> RequestPlan \<Rightarrow> ('s, 'b) handler_state_scheme
     \<Rightarrow> (HandlerError + chunks) \<times> ('s, 'b) handler_state_scheme" where
  "streamResponse env schema plan s =
     (case yield_all (qp_wireVersion plan) [response_header schema plan] [] of
        Inl e \<Rightarrow> (Inl e, s)
      | Inr out0 \<Rightarrow>
          if qp_schemaFloor plan \<or> qp_epochReset plan then (Inr out0, s)
          else (case yield_all (qp_wireVersion plan) (lease_frames plan) out0 of
              Inl e \<Rightarrow> (Inl e, s)
            | Inr out1 \<Rightarrow>
                (case pushHalf env schema plan (qp_pushes plan) out1 s of
                   (Inl e, s1) \<Rightarrow> (Inl e, s1)
                 | (Inr out2, s1) \<Rightarrow>
                     (case pullSections env schema plan out2 s1 of
                        (Inl e, s2) \<Rightarrow> (Inl e, s2)
                      | (Inr (cursors, out3), s2) \<Rightarrow> (Inr out3, putRecord env plan cursors s2)))))"

section \<open>The request\<close>

definition createStreamCore ::
    "('s, 'a) handler_env_scheme \<Rightarrow> byte list \<Rightarrow> ('s, 'b) handler_state_scheme
     \<Rightarrow> (HandlerError + CompiledSchema \<times> RequestPlan) \<times> ('s, 'b) handler_state_scheme" where
  "createStreamCore env bytes s =
     (case decodeMessage bytes of
        Inl (DecodeError code) \<Rightarrow> (Inl (SyncErr (js code)), s)
      | Inl e \<Rightarrow> (Inl (ThrownEncode e), s)
      | Inr (ResponseMessage v fs) \<Rightarrow> (Inl (SyncErr (js ''sync.invalid_request'')), s)
      | Inr (RequestMessage wireVersion frames) \<Rightarrow>
          (case compileSchema (hv_schema env) of
             Inl e \<Rightarrow> (Inl (ThrownSchema e), s)
           | Inr schema \<Rightarrow>
               (let s1 = refresh env s in
                case hv_ensureSchema env schema (hs_db s1) of
                  Inl e \<Rightarrow> (Inl (ThrownStorage e), s1)
                | Inr d \<Rightarrow>
                    (let s2 = refresh env (s1\<lparr>hs_db := d\<rparr>) in
                     case touchPartition (hv_part env) (hv_clock env (hs_tick s2)) (hv_uuid env (hs_tick s2)) (hs_db s2) of
                       Inl e \<Rightarrow> (Inl (ThrownStorage e), s2)
                     | Inr (registry, d2) \<Rightarrow>
                         (case planRequest env schema registry wireVersion frames (s2\<lparr>hs_db := d2\<rparr>) of
                            (Inl e, s3) \<Rightarrow> (Inl e, s3)
                          | (Inr plan, s3) \<Rightarrow> (Inr (schema, plan), s3))))))"

definition handleSyncRequest ::
    "('s, 'a) handler_env_scheme \<Rightarrow> byte list \<Rightarrow> ('s, 'b) handler_state_scheme
     \<Rightarrow> (HandlerError + byte list) \<times> ('s, 'b) handler_state_scheme" where
  "handleSyncRequest env bytes s =
     (case createStreamCore env bytes s of
        (Inl e, s1) \<Rightarrow> (Inl e, s1)
      | (Inr (schema, plan), s1) \<Rightarrow>
          (case responseEnvelopeHeader (qp_wireVersion plan) of
             Inl e \<Rightarrow> (Inl (ThrownEncode e), s1)
           | Inr hdr \<Rightarrow>
               (case streamResponse env schema plan s1 of
                  (Inl e, s2) \<Rightarrow> (Inl e, s2)
                | (Inr out, s2) \<Rightarrow> (Inr (hdr @ concat (map snd out) @ END_FRAME_BYTES), s2))))"

end
