(* ===== verification/Handler_Correct.thy ===== *)
theory Handler_Correct
  imports Handler Push_Correct
begin

text \<open>
  What the request handler guarantees: the frames it streams form a grammatical message that
  answers every push commit and every subscription of the request in order, the scopes it works
  with come from the resolver or from a valid lease, and the storage invariant is kept.
\<close>

section \<open>Chunks\<close>

definition chunks_ok :: "int \<Rightarrow> chunks \<Rightarrow> bool" where
  "chunks_ok v out \<longleftrightarrow> list_all (\<lambda>(f, c). encodeResponseFrame_bytes f v = Inr c) out"

lemma chunks_ok_simps [simp]:
  "chunks_ok v []" "chunks_ok v (out @ out') \<longleftrightarrow> chunks_ok v out \<and> chunks_ok v out'"
  "chunks_ok v ((f, c) # out) \<longleftrightarrow> encodeResponseFrame_bytes f v = Inr c \<and> chunks_ok v out"
  by (auto simp: chunks_ok_def)

lemma yield_all_Inr:
  "yield_all v fs out = Inr out' \<Longrightarrow> map fst out' = map fst out @ fs \<and> (chunks_ok v out \<longrightarrow> chunks_ok v out')"
  by (induction v fs out rule: yield_all.induct) (auto split: sum.splits)

lemma chunks_stream:
  assumes "chunks_ok v out" "responseEnvelopeHeader v = Inr h"
  shows "stream_bytes v (map fst out) = Inr (h @ concat (map snd out) @ END_FRAME_BYTES)"
proof -
  have "seqW (map (\<lambda>f. encodeResponseFrame_bytes f v) (map fst out)) = Inr (concat (map snd out))"
    using assms(1) by (induction out) (auto simp: writer_simps)
  then show ?thesis using assms(2) by (auto simp: stream_bytes_def seqW_append bindE_eq_Inr seqW_Cons_eq seqW_Nil_eq)
qed

section \<open>The frames of a section\<close>

lemma segmentRef_segment [simp]: "is_segment (segmentRefFrame r x)" "is_segment (SegmentInline b)"
  by (simp_all add: is_segment_def segmentRefFrame_def)

lemma yield_frame_frames [simp]: "xs_frames (yield_frame f st) = xs_frames st @ [f]"
  by (simp add: yield_frame_def)

definition adds_segments :: "section_state \<Rightarrow> section_state \<Rightarrow> bool" where
  "adds_segments st st' \<longleftrightarrow> (\<exists>gs. xs_frames st' = xs_frames st @ gs \<and> list_all is_segment gs)"

lemma adds_segments_refl: "xs_frames st' = xs_frames st \<Longrightarrow> adds_segments st st'"
  by (simp add: adds_segments_def)

lemma adds_segments_one: "xs_frames st' = xs_frames st @ [g] \<Longrightarrow> is_segment g \<Longrightarrow> adds_segments st st'"
  by (simp add: adds_segments_def)

lemma adds_segments_trans: "adds_segments a b \<Longrightarrow> adds_segments b c \<Longrightarrow> adds_segments a c"
  by (auto simp: adds_segments_def)

lemma image_adds:
  "sqliteImageSegment fuel env rd schema limits plan asOf digest epoch st = Inr (b, st') \<Longrightarrow> adds_segments st st'"
  by (cases "pu_imageBuilder env")
     (auto simp: sqliteImageSegment_def Let_def bindE_eq_Inr case_prod_unfold intro: adds_segments_refl adds_segments_one
      split: option.splits if_splits)

lemma pages_add:
  "pageLoop env rd schema limits plan asOf digest epoch pages cursor st = Inr (c, rc, st') \<Longrightarrow> adds_segments st st'"
proof (induction pages arbitrary: cursor st)
  case 0
  then show ?case by (simp add: adds_segments_refl)
next
  case (Suc pages)
  have one: "adds_segments st (yield_frame g (st\<lparr>xs_read := n\<rparr>))" "adds_segments st (yield_frame g (st\<lparr>xs_read := n, xs_store := m\<rparr>))"
    if "is_segment g" for g n m
    using that by (auto intro: adds_segments_one)
  show ?case using Suc.prems
    by (auto simp: bindE_eq_Inr Let_def case_prod_unfold one simp del: yield_frame_frames split: if_splits
        dest!: Suc.IH elim!: adds_segments_trans [OF one(1), rotated] adds_segments_trans [OF one(2), rotated])
qed

lemma bootstrap_adds:
  "bootstrapSegments fuel env rd schema limits plan asOf start epoch st = Inr (c, rc, st') \<Longrightarrow> adds_segments st st'"
  by (auto simp: bootstrapSegments_def Let_def bindE_eq_Inr split: if_splits
      dest!: image_adds pages_add intro: adds_segments_trans)

definition section_frames :: "jsstring \<Rightarrow> ResponseFrame list \<Rightarrow> bool" where
  "section_frames i fs \<longleftrightarrow> (\<exists>st body e. fs = SubStart st # body @ [SubEnd e] \<and> ss_id st = i \<and>
     (list_all is_commit body \<or> list_all is_segment body))"

lemma section_shape:
  assumes "subscriptionSection fuel env rd schema limits plan maxSeq horizonSeq epoch st = Inr (r, st')" "xs_frames st = []"
  shows "section_frames (sb_id (sn_frame plan)) (xs_frames st')"
proof -
  have boot: "section_frames i (xs_frames (yield_frame (sub_end a t) st1))"
    if "adds_segments (yield_frame (sub_start i s x y z) st) st1" for i s x y z a t st1
    using that assms(2) by (auto simp: adds_segments_def section_frames_def sub_start_def sub_end_def)
  have plain: "section_frames i (sub_start i s x y z # map (commitFrame t) commits @ [sub_end a u])" for i s x y z t commits a u
    by (auto simp: section_frames_def sub_start_def sub_end_def is_commit_def commitFrame_def list_all_iff)

  show ?thesis using assms
    by (auto simp: subscriptionSection_def Let_def bindE_eq_Inr plain simp del: yield_frame_frames
        split: option.splits if_splits prod.splits dest!: bootstrap_adds intro!: boot)
      (rule adds_segments_refl, rule refl)+
qed

section \<open>The grammar of the response\<close>

text \<open>Between sections, and before the first one.\<close>

definition at_sections :: "ResponseFrame list \<Rightarrow> bool" where
  "at_sections fs \<longleftrightarrow> (\<exists>h rest st. fs = RespHeader h # rest \<and> foldE responseStep response_start rest = Inr st \<and>
     \<not> rst_errorSeen st \<and> \<not> rst_inSubscription st)"

definition at_results :: "ResponseFrame list \<Rightarrow> bool" where
  "at_results fs \<longleftrightarrow> (\<exists>h rest st. fs = RespHeader h # rest \<and> foldE responseStep response_start rest = Inr st \<and>
     \<not> rst_errorSeen st \<and> \<not> rst_inSubscription st \<and> \<not> rst_sawSubscription st)"

lemma at_sections_valid: "at_sections fs \<Longrightarrow> validateResponseSequence fs = Inr ()"
  by (auto simp: at_sections_def validateResponseSequence_def bindE_eq_Inr)

lemma at_results_sections: "at_results fs \<Longrightarrow> at_sections fs"
  by (auto simp: at_results_def at_sections_def)

lemma at_results_start: "at_results (response_header schema plan # lease_frames plan)"
  by (auto simp: at_results_def response_header_def lease_frames_def response_start_def responseStep_def split: option.splits)

text \<open>A push result whose details can follow it: only a rejection has them.\<close>

definition sound_result :: "ResponseFrame \<Rightarrow> bool" where
  "sound_result f = (case f of PushResult r \<Rightarrow> pr_status r = PushRejected \<or> pushResultDetailsFrame r = None | _ \<Rightarrow> True)"

lemma set_map_filter: "y \<in> set (List.map_filter f xs) \<longleftrightarrow> (\<exists>x\<in>set xs. f x = Some y)"
  by (induction xs) (auto simp: map_filter_simps split: option.splits)

lemma details_indexes:
  "pushResultDetailsFrame r = Some d \<Longrightarrow>
     prd_clientCommitId d = pr_clientCommitId r \<and> list_all (\<lambda>e. de_opIndex e \<in> set (errorIndexes r)) (prd_entries d)"
proof -
  assume d: "pushResultDetailsFrame r = Some d"
  let ?f = "\<lambda>x. case x of OpError i code message retryable (Some details) \<Rightarrow> Some \<lparr>de_opIndex = i, de_details = details\<rparr> | _ \<Rightarrow> None"
  have entry: "de_opIndex e \<in> set (case x of OpError i _ _ _ _ \<Rightarrow> [i] | _ \<Rightarrow> [])" if "?f x = Some e" for x e
    using that by (cases x) (auto split: option.splits)
  have "prd_clientCommitId d = pr_clientCommitId r" "prd_entries d = List.map_filter ?f (pr_results r)"
    using d by (auto simp: pushResultDetailsFrame_def Let_def split: if_splits)
  moreover have "\<exists>x\<in>set (pr_results r). ?f x = Some e" if "e \<in> set (prd_entries d)" for e
    using that calculation(2) by (simp add: set_map_filter)
  ultimately show ?thesis using entry unfolding list_all_iff errorIndexes_def set_concat set_map by fast
qed

lemma at_results_result:
  assumes "at_results fs" "sound_result (PushResult r)"
  shows "at_results (fs @ result_frames r)"
proof -
  obtain h rest st where fs: "fs = RespHeader h # rest" and st: "foldE responseStep response_start rest = Inr st"
    "\<not> rst_errorSeen st" "\<not> rst_inSubscription st" "\<not> rst_sawSubscription st"
    using assms(1) by (auto simp: at_results_def)
  show ?thesis
  proof (cases "pushResultDetailsFrame r")
    case None
    then show ?thesis using fs st by (auto simp: at_results_def result_frames_def foldE_append responseStep_def)
  next
    case (Some d)
    then have "\<not> list_ex (\<lambda>entry. de_opIndex entry \<notin> set (errorIndexes r)) (prd_entries d)"
      using details_indexes [OF Some] by (auto simp: list_ex_iff list_all_iff)
    then show ?thesis using fs st Some assms(2) details_indexes [OF Some]
      by (auto simp: at_results_def result_frames_def foldE_append responseStep_def detailsStep_def sound_result_def)
  qed
qed

lemma fold_commits:
  "list_all is_commit fs \<Longrightarrow> \<not> rst_errorSeen st \<Longrightarrow> rst_inSubscription st \<Longrightarrow> \<not> rst_hasSegments st \<Longrightarrow>
   \<exists>st'. foldE responseStep st fs = Inr st' \<and> \<not> rst_errorSeen st' \<and> rst_inSubscription st'"
  by (induction fs arbitrary: st) (auto simp: is_commit_def responseStep_def split: ResponseFrame.splits)

lemma fold_segments:
  "list_all is_segment fs \<Longrightarrow> \<not> rst_errorSeen st \<Longrightarrow> rst_inSubscription st \<Longrightarrow> \<not> rst_hasCommits st \<Longrightarrow>
   \<exists>st'. foldE responseStep st fs = Inr st' \<and> \<not> rst_errorSeen st' \<and> rst_inSubscription st'"
  by (induction fs arbitrary: st) (auto simp: is_segment_def responseStep_def segmentStep_def split: ResponseFrame.splits)

lemma at_sections_section:
  assumes "at_sections fs" "section_frames i gs"
  shows "at_sections (fs @ gs)"
proof -
  obtain h rest st where fs: "fs = RespHeader h # rest" and st: "foldE responseStep response_start rest = Inr st"
    "\<not> rst_errorSeen st" "\<not> rst_inSubscription st"
    using assms(1) by (auto simp: at_sections_def)
  obtain s body e where gs: "gs = SubStart s # body @ [SubEnd e]" "list_all is_commit body \<or> list_all is_segment body"
    using assms(2) by (auto simp: section_frames_def)
  let ?st1 = "st\<lparr>rst_inSubscription := True, rst_sawSubscription := True, rst_sawBody := True,
    rst_hasCommits := False, rst_hasSegments := False\<rparr>"
  obtain st2 where "foldE responseStep ?st1 body = Inr st2" "\<not> rst_errorSeen st2" "rst_inSubscription st2"
    using gs(2) st(2) fold_commits [of body ?st1] fold_segments [of body ?st1] by auto
  then show ?thesis using fs st gs(1) by (auto simp: at_sections_def foldE_append responseStep_def)
qed

section \<open>What a response answers\<close>

definition result_ids :: "ResponseFrame list \<Rightarrow> jsstring list" where
  "result_ids fs = List.map_filter (\<lambda>f. case f of PushResult r \<Rightarrow> Some (pr_clientCommitId r) | _ \<Rightarrow> None) fs"

definition section_ids :: "ResponseFrame list \<Rightarrow> jsstring list" where
  "section_ids fs = List.map_filter (\<lambda>f. case f of SubStart s \<Rightarrow> Some (ss_id s) | _ \<Rightarrow> None) fs"

lemma map_filter_none: "list_all (\<lambda>x. f x = None) xs \<Longrightarrow> List.map_filter f xs = []"
  by (induction xs) (auto simp: map_filter_simps)

lemma map_filter_append: "List.map_filter f (xs @ ys) = List.map_filter f xs @ List.map_filter f ys"
  by (induction xs) (auto simp: map_filter_simps split: option.splits)

lemma ids_append [simp]:
  "result_ids (fs @ gs) = result_ids fs @ result_ids gs" "section_ids (fs @ gs) = section_ids fs @ section_ids gs"
  by (simp_all add: result_ids_def section_ids_def map_filter_append)

lemma ids_Nil [simp]: "result_ids [] = []" "section_ids [] = []"
  by (simp_all add: result_ids_def section_ids_def map_filter_simps)

lemma ids_results [simp]: "result_ids (result_frames r) = [pr_clientCommitId r]" "section_ids (result_frames r) = []"
  by (auto simp: result_ids_def section_ids_def result_frames_def map_filter_simps split: option.splits)

lemma ids_start [simp]:
  "result_ids (response_header schema plan # lease_frames plan) = []" "section_ids (response_header schema plan # lease_frames plan) = []"
  by (auto simp: result_ids_def section_ids_def response_header_def lease_frames_def map_filter_simps split: option.splits)

lemma ids_section: "section_frames i gs \<Longrightarrow> result_ids gs = [] \<and> section_ids gs = [i]"
proof -
  assume "section_frames i gs"
  then obtain s body e where gs: "gs = SubStart s # body @ [SubEnd e]" "ss_id s = i" "list_all is_commit body \<or> list_all is_segment body"
    by (auto simp: section_frames_def)
  have "result_ids body = [] \<and> section_ids body = []"
    unfolding result_ids_def section_ids_def
    by (intro conjI map_filter_none; use gs(3) in \<open>force simp: list_all_iff is_commit_def is_segment_def split: ResponseFrame.splits\<close>)
  then show ?thesis using gs(1,2) ids_append(1) [of "[SubStart s]" "body @ [SubEnd e]"] ids_append(2) [of "[SubStart s]" "body @ [SubEnd e]"]
    by (simp add: result_ids_def section_ids_def map_filter_simps map_filter_append)
qed

lemma push_answers:
  assumes "po_result (processPushCommit env schema req frame d0 d) = Inr r"
  shows "pr_clientCommitId (pc_frame r) = pc_clientCommitId frame"
proof -
  have final: "pr_clientCommitId (pc_frame r) = rq_clientCommitId q" if "po_result (finalizeRejection q x tx) = Inr r" for q x tx
    using that by (auto simp: finalizeRejection_def Let_def processedPushCommit_def resultFrame_def split: sum.splits PushLookup.splits)
  show ?thesis using assms
    by (auto simp: processPushCommit_def processPushOperationsWithTrace_def Let_def processedPushCommit_def resultFrame_def
        idempotencyCacheMiss_def dest!: final split: sum.splits PushLookup.splits prod.splits PushThrow.splits StorageError.splits)
qed

definition extends :: "int \<Rightarrow> chunks \<Rightarrow> ResponseFrame list \<Rightarrow> chunks \<Rightarrow> bool" where
  "extends v out gs out' \<longleftrightarrow> map fst out' = map fst out @ gs \<and> (chunks_ok v out \<longrightarrow> chunks_ok v out')"

lemma extends_refl: "extends v out [] out"
  by (simp add: extends_def)

lemma extends_trans: "extends v a gs b \<Longrightarrow> extends v b hs c \<Longrightarrow> extends v a (gs @ hs) c"
  by (simp add: extends_def)

lemma extends_yield: "yield_all v fs out = Inr out' \<Longrightarrow> extends v out fs out'"
  using yield_all_Inr by (simp add: extends_def)

text \<open>The results of a push half: one per commit of the request, in order.\<close>

fun answers_pushes :: "PushCommitFrame list \<Rightarrow> ResponseFrame list \<Rightarrow> bool" where
  "answers_pushes [] gs \<longleftrightarrow> gs = []"
| "answers_pushes (p # ps) gs \<longleftrightarrow> (\<exists>r hs. gs = result_frames r @ hs \<and> pr_clientCommitId r = pc_clientCommitId p \<and> answers_pushes ps hs)"

lemma pushHalf_frames:
  "pushHalf env schema plan pushes out s = (Inr out', s') \<Longrightarrow>
   \<exists>gs. extends (qp_wireVersion plan) out gs out' \<and> answers_pushes pushes gs"
proof (induction pushes arbitrary: out s)
  case (Cons push pushes)
  obtain processed out1 s3 s2 where
    r: "po_result (processPushCommit (hv_push env) schema (push_context env plan (hs_tick (refresh env s))) push
          (hs_db (refresh env s)) s2) = Inr processed"
    and y: "yield_all (qp_wireVersion plan) (result_frames (pc_frame processed)) out = Inr out1"
    and rest: "pushHalf env schema plan pushes out1 s3 = (Inr out', s')"
    using Cons.prems by (auto simp: Let_def split: sum.splits)
  obtain gs where "extends (qp_wireVersion plan) out1 gs out'" "answers_pushes pushes gs" using Cons.IH [OF rest] by blast
  then show ?case using extends_trans [OF extends_yield [OF y]] push_answers [OF r] by auto
qed (auto intro: extends_refl)

lemma answers_pushes_ids: "answers_pushes ps gs \<Longrightarrow> result_ids gs = map pc_clientCommitId ps \<and> section_ids gs = []"
  by (induction ps gs rule: answers_pushes.induct) auto

lemma answers_pushes_grammar:
  "answers_pushes ps gs \<Longrightarrow> at_results fs \<Longrightarrow> list_all sound_result gs \<Longrightarrow> at_results (fs @ gs)"
proof (induction ps gs arbitrary: fs rule: answers_pushes.induct)
  case (2 p ps gs)
  then obtain r hs where gs: "gs = result_frames r @ hs" "answers_pushes ps hs" by auto
  then have "at_results (fs @ result_frames r)" using 2 at_results_result [of fs r] by (simp add: result_frames_def)
  then show ?case using 2 gs by (auto simp flip: append_assoc)
qed simp

text \<open>The sections of a pull half: one per subscription of the request, in order.\<close>

fun answers_subscriptions :: "SubscriptionPlan list \<Rightarrow> ResponseFrame list \<Rightarrow> bool" where
  "answers_subscriptions [] gs \<longleftrightarrow> gs = []"
| "answers_subscriptions (p # ps) gs \<longleftrightarrow> (\<exists>f hs. gs = f @ hs \<and> section_frames (sb_id (sn_frame p)) f \<and> answers_subscriptions ps hs)"

lemma pullHalf_frames:
  "pullHalf env schema plan limits maxSeq horizonSeq subs cursors out s = (Inr (cursors', out'), s') \<Longrightarrow>
   \<exists>gs. extends (qp_wireVersion plan) out gs out' \<and> answers_subscriptions subs gs"
proof (induction subs arbitrary: cursors out s)
  case (Cons sub subs)
  obtain r st out1 cs s1 where
    sec: "subscriptionSection (hv_fuel env) ((hv_pull env)\<lparr>pu_part := hv_part env\<rparr>) (read_at env s) schema limits sub maxSeq horizonSeq
        (Some (qp_logEpoch plan)) \<lparr>xs_frames = [], xs_store = hs_segments s, xs_read = 0\<rparr> = Inr (r, st)"
    and y: "yield_all (qp_wireVersion plan) (xs_frames st) out = Inr out1"
    and rest: "pullHalf env schema plan limits maxSeq horizonSeq subs cs out1 s1 = (Inr (cursors', out'), s')"
    using Cons.prems by (auto simp: Let_def split: sum.splits prod.splits)
  obtain gs where "extends (qp_wireVersion plan) out1 gs out'" "answers_subscriptions subs gs" using Cons.IH [OF rest] by blast
  then show ?case using extends_trans [OF extends_yield [OF y]] section_shape [OF sec] by fastforce
qed (auto intro: extends_refl)

lemma answers_subscriptions_ids:
  "answers_subscriptions ps gs \<Longrightarrow> section_ids gs = map (\<lambda>p. sb_id (sn_frame p)) ps \<and> result_ids gs = []"
proof (induction ps gs rule: answers_subscriptions.induct)
  case (2 p ps gs)
  then show ?case using ids_section by fastforce
qed simp

lemma answers_subscriptions_grammar: "answers_subscriptions ps gs \<Longrightarrow> at_sections fs \<Longrightarrow> at_sections (fs @ gs)"
proof (induction ps gs arbitrary: fs rule: answers_subscriptions.induct)
  case (2 p ps gs)
  then show ?case using at_sections_section by (fastforce simp flip: append_assoc)
qed simp

lemma pullSections_frames:
  "pullSections env schema plan out s = (Inr (cursors, out'), s') \<Longrightarrow>
   \<exists>gs. extends (qp_wireVersion plan) out gs out' \<and> answers_subscriptions (if qp_pull plan = None then [] else qp_subscriptions plan) gs"
  by (auto simp: pullSections_def Let_def intro: extends_refl dest!: pullHalf_frames split: option.splits)

text \<open>The frames a response is made of.\<close>

inductive response_of :: "CompiledSchema \<Rightarrow> RequestPlan \<Rightarrow> ResponseFrame list \<Rightarrow> bool" for schema plan where
  header_only: "qp_schemaFloor plan \<or> qp_epochReset plan \<Longrightarrow> response_of schema plan [response_header schema plan]"
| answered: "\<not> qp_schemaFloor plan \<Longrightarrow> \<not> qp_epochReset plan \<Longrightarrow> answers_pushes (qp_pushes plan) gs \<Longrightarrow>
    answers_subscriptions (if qp_pull plan = None then [] else qp_subscriptions plan) hs \<Longrightarrow>
    response_of schema plan (response_header schema plan # lease_frames plan @ gs @ hs)"

lemma streamResponse_frames:
  assumes "streamResponse env schema plan s = (Inr out, s')"
  shows "chunks_ok (qp_wireVersion plan) out \<and> response_of schema plan (map fst out)"
proof -
  obtain out0 where y0: "yield_all (qp_wireVersion plan) [response_header schema plan] [] = Inr out0"
    using assms unfolding streamResponse_def by (auto split: sum.splits)
  note e0 = extends_yield [OF y0]
  show ?thesis
  proof (cases "qp_schemaFloor plan \<or> qp_epochReset plan")
    case True
    then show ?thesis using assms y0 e0 header_only [of plan schema] by (auto simp: streamResponse_def extends_def)
  next
    case False
    then obtain out1 out2 out3 s1 s2 cursors where y1: "yield_all (qp_wireVersion plan) (lease_frames plan) out0 = Inr out1"
      and p: "pushHalf env schema plan (qp_pushes plan) out1 s = (Inr out2, s1)"
      and l: "pullSections env schema plan out2 s1 = (Inr (cursors, out), s2)"
      using assms y0 by (auto simp: streamResponse_def split: sum.splits prod.splits)
    obtain gs hs where "extends (qp_wireVersion plan) out1 gs out2" "answers_pushes (qp_pushes plan) gs"
      "extends (qp_wireVersion plan) out2 hs out" "answers_subscriptions (if qp_pull plan = None then [] else qp_subscriptions plan) hs"
      using pushHalf_frames [OF p] pullSections_frames [OF l] by blast
    then show ?thesis using e0 extends_yield [OF y1] answered [of plan gs hs schema] False by (auto simp: extends_def)
  qed
qed

lemma response_of_grammar:
  assumes "response_of schema plan fs" "list_all sound_result fs"
  shows "validateResponseSequence fs = Inr ()"
  using assms
proof cases
  case header_only
  then show ?thesis by (simp add: validateResponseSequence_def response_header_def response_start_def)
next
  case (answered gs hs)
  have "at_results ((response_header schema plan # lease_frames plan) @ gs)"
    using answers_pushes_grammar [OF answered(4) at_results_start] assms(2) answered(1) by simp
  then show ?thesis
    using answers_subscriptions_grammar [OF answered(5) at_results_sections] at_sections_valid answered(1) by fastforce
qed

lemma response_of_ids:
  assumes "response_of schema plan fs" "\<not> qp_schemaFloor plan" "\<not> qp_epochReset plan"
  shows "result_ids fs = map pc_clientCommitId (qp_pushes plan) \<and>
    section_ids fs = (if qp_pull plan = None then [] else map (\<lambda>p. sb_id (sn_frame p)) (qp_subscriptions plan))"
  using assms(1)
proof cases
  case (answered gs hs)
  have fs: "fs = (response_header schema plan # lease_frames plan) @ gs @ hs" using answered(1) by simp
  show ?thesis unfolding fs ids_append ids_start
    using answers_pushes_ids [OF answered(4)] answers_subscriptions_ids [OF answered(5)] by auto
qed (use assms in auto)

section \<open>The plan\<close>

text \<open>What a request must satisfy to be answered with more than a header.\<close>

definition admitted :: "('s, 'a) handler_env_scheme \<Rightarrow> CompiledSchema \<Rightarrow> PartitionRegistryEntry \<Rightarrow> int \<Rightarrow> RequestFrame list \<Rightarrow> ReqHeaderFrame \<Rightarrow> db \<Rightarrow> bool" where
  "admitted env schema registry v frames header d \<longleftrightarrow>
     rqh_schemaVersion header = cs_version schema \<and>
     (v \<ge> 2 \<longrightarrow> rqh_logEpoch header = Some (pe_logEpoch registry)) \<and>
     take (length REMOTE_COMMAND_CLIENT_ID_PREFIX) (rqh_clientId header) \<noteq> REMOTE_COMMAND_CLIENT_ID_PREFIX \<and>
     (\<forall>r. getClientRecord d (hv_part env) (rqh_clientId header) = Some r \<longrightarrow> cl_actorId r = hv_actorId env) \<and>
     sum_list (map (\<lambda>p. length (pc_operations p)) (push_frames frames)) \<le> hv_maxOperations env"

lemma plan_cases [consumes 1, case_names floor reset normal]:
  assumes "planRequest env schema registry v frames s = (Inr plan, s')"
  obtains header rest where "frames = ReqHeader header # rest" "rqh_schemaVersion header \<noteq> cs_version schema" "s' = s"
      "qp_wireVersion plan = v" "qp_schemaFloor plan" "qp_resolved plan = ResolvedFailed" "qp_logEpoch plan = pe_logEpoch registry" "qp_leaseToEmit plan = None"
  | header rest where "frames = ReqHeader header # rest" "rqh_schemaVersion header = cs_version schema"
      "v \<ge> 2" "rqh_logEpoch header \<noteq> Some (pe_logEpoch registry)" "s' = s" "plan = header_plan v registry header True False"
  | header rest validated resolved lease where "frames = ReqHeader header # rest"
      "admitted env schema registry v frames header (hs_db (refresh env s))"
      "validateSubscriptions schema [] (subscription_frames frames) = Inr validated"
      "resolveOnce env (rqh_clientId header) schema (refresh env s) = (Inr (resolved, lease), s')"
      "plan = \<lparr>qp_wireVersion = v, qp_logEpoch = pe_logEpoch registry, qp_epochReset = False, qp_header = header,
        qp_pushes = push_frames frames, qp_pull = pull_frame frames, qp_subscriptions = map (plan_subscription resolved) validated,
        qp_resolved = resolved, qp_schemaFloor = False, qp_leaseToEmit = lease\<rparr>"
proof -
  obtain header rest where frames: "frames = ReqHeader header # rest"
    using assms by (auto simp: planRequest_def split: list.splits RequestFrame.splits)
  note run = assms [unfolded planRequest_def frames list.case RequestFrame.case Let_def, folded frames]
  consider (f) "rqh_schemaVersion header \<noteq> cs_version schema"
    | (r) "rqh_schemaVersion header = cs_version schema" "v \<ge> 2 \<and> rqh_logEpoch header \<noteq> Some (pe_logEpoch registry)"
    | (n) "rqh_schemaVersion header = cs_version schema" "\<not> (v \<ge> 2 \<and> rqh_logEpoch header \<noteq> Some (pe_logEpoch registry))" by blast
  then show thesis
  proof cases
    case f
    then show thesis using run that(1) [OF frames f] by (auto simp: header_plan_def split: if_splits)
  next
    case r
    then show thesis using run that(2) [OF frames r(1)] by (auto split: if_splits)
  next
    case n
    then have "admitted env schema registry v frames header (hs_db (refresh env s))" using run
      by (auto simp: admitted_def split: if_splits option.splits)
    moreover obtain validated resolved lease where "validateSubscriptions schema [] (subscription_frames frames) = Inr validated"
      "resolveOnce env (rqh_clientId header) schema (refresh env s) = (Inr (resolved, lease), s')"
      "plan = \<lparr>qp_wireVersion = v, qp_logEpoch = pe_logEpoch registry, qp_epochReset = False, qp_header = header,
        qp_pushes = push_frames frames, qp_pull = pull_frame frames, qp_subscriptions = map (plan_subscription resolved) validated,
        qp_resolved = resolved, qp_schemaFloor = False, qp_leaseToEmit = lease\<rparr>"
      using run n by (auto split: if_splits sum.splits prod.splits)
    ultimately show thesis using that(3) [OF frames] by blast
  qed
qed

lemma plan_version: "planRequest env schema registry v frames s = (Inr plan, s') \<Longrightarrow> qp_wireVersion plan = v"
  by (erule plan_cases) (simp_all add: header_plan_def)

text \<open>The state in which the plan is made.\<close>

lemma core_cases:
  assumes "createStreamCore env bytes s = (Inr (schema, plan), s')"
  obtains v frames registry d1 d2 d3 where "decodeMessage bytes = Inr (RequestMessage v frames)" "compileSchema (hv_schema env) = Inr schema"
    "hv_ensureSchema env schema (hv_other env (hs_tick s) (hs_db s)) = Inr d1" "d2 = hv_other env (hs_tick s + 1) d1"
    "touchPartition (hv_part env) (hv_clock env (hs_tick s + 2)) (hv_uuid env (hs_tick s + 2)) d2 = Inr (registry, d3)"
    "planRequest env schema registry v frames (s\<lparr>hs_tick := hs_tick s + 2, hs_db := d3\<rparr>) = (Inr plan, s')"
  using assms
  by (auto simp: createStreamCore_def Let_def refresh_def split: sum.splits error.splits SyncMessage.splits prod.splits)

definition response_frames :: "('s, 'a) handler_env_scheme \<Rightarrow> byte list \<Rightarrow> ('s, 'b) handler_state_scheme \<Rightarrow> ResponseFrame list" where
  "response_frames env bytes s =
     (case createStreamCore env bytes s of
        (Inr (schema, plan), s1) \<Rightarrow> (case streamResponse env schema plan s1 of (Inr out, s2) \<Rightarrow> map fst out | _ \<Rightarrow> [])
      | _ \<Rightarrow> [])"

lemma handled_cases:
  assumes "handleSyncRequest env bytes s = (Inr b, s')"
  obtains schema plan s1 out where "createStreamCore env bytes s = (Inr (schema, plan), s1)"
    "streamResponse env schema plan s1 = (Inr out, s')" "response_frames env bytes s = map fst out"
    "stream_bytes (qp_wireVersion plan) (map fst out) = Inr b" "response_of schema plan (map fst out)"
proof -
  obtain schema plan s1 out h where run: "createStreamCore env bytes s = (Inr (schema, plan), s1)"
      "streamResponse env schema plan s1 = (Inr out, s')"
    and b: "responseEnvelopeHeader (qp_wireVersion plan) = Inr h" "b = h @ concat (map snd out) @ END_FRAME_BYTES"
    using assms by (auto simp: handleSyncRequest_def split: prod.splits sum.splits)
  moreover have "response_frames env bytes s = map fst out" using run by (simp add: response_frames_def)
  ultimately show thesis using that [of schema plan s1 out] streamResponse_frames [OF run(2)] chunks_stream by blast
qed

lemma handled_message:
  assumes "handleSyncRequest env bytes s = (Inr b, s')" "list_all sound_result (response_frames env bytes s)"
  shows "\<exists>v frames. decodeMessage bytes = Inr (RequestMessage v frames) \<and>
    encodeMessage (ResponseMessage v (response_frames env bytes s)) = Inr b"
  using assms(1)
proof (rule handled_cases)
  fix schema plan s1 out
  assume run: "createStreamCore env bytes s = (Inr (schema, plan), s1)" "response_frames env bytes s = map fst out"
      "stream_bytes (qp_wireVersion plan) (map fst out) = Inr b" "response_of schema plan (map fst out)"
  obtain v frames where "decodeMessage bytes = Inr (RequestMessage v frames)" "qp_wireVersion plan = v"
    using run(1) by (rule core_cases) (auto dest: plan_version)
  then show ?thesis
    using streamed_message [OF run(3) response_of_grammar [OF run(4)]] assms(2) run(2) by auto
qed

section \<open>Kept predicates\<close>

text \<open>Predicates on databases that planning a request keeps, and that its writes keep as well.\<close>

definition kept_reading :: "('s, 'a) handler_env_scheme \<Rightarrow> (db \<Rightarrow> bool) \<Rightarrow> bool" where
  "kept_reading env I \<longleftrightarrow>
     (\<forall>n d. I d \<longrightarrow> I (hv_other env n d)) \<and>
     (\<forall>schema d d'. I d \<longrightarrow> hv_ensureSchema env schema d = Inr d' \<longrightarrow> I d') \<and>
     (\<forall>now epoch d entry d'. I d \<longrightarrow> touchPartition (hv_part env) now epoch d = Inr (entry, d') \<longrightarrow> I d')"

definition kept :: "('s, 'a) handler_env_scheme \<Rightarrow> (db \<Rightarrow> bool) \<Rightarrow> bool" where
  "kept env I \<longleftrightarrow> kept_reading env I \<and>
     (\<forall>schema req frame d0 d. I d \<longrightarrow> I (po_db (processPushCommit (hv_push env) schema req frame d0 d))) \<and>
     (\<forall>r d. I d \<longrightarrow> I (putClientRecord (hv_part env) r d))"

lemma kept_readingD:
  assumes "kept_reading env I" "I d"
  shows "I (hv_other env n d)" "hv_ensureSchema env schema d = Inr d' \<Longrightarrow> I d'"
    "touchPartition (hv_part env) now epoch d = Inr (entry, d') \<Longrightarrow> I d'"
  using assms unfolding kept_reading_def by blast+

lemma keptD:
  assumes "kept env I"
  shows "kept_reading env I" "I d \<Longrightarrow> I (po_db (processPushCommit (hv_push env) schema req frame d0 d))" "I d \<Longrightarrow> I (putClientRecord (hv_part env) r d)"
  using assms unfolding kept_def by blast+

lemma kept_refresh: "kept_reading env I \<Longrightarrow> I (hs_db s) \<Longrightarrow> I (hs_db (refresh env s))"
  by (simp add: kept_readingD(1) refresh_def)

lemma kept_refreshes: "kept_reading env I \<Longrightarrow> I (hs_db s) \<Longrightarrow> I (hs_db ((refresh env ^^ n) s))"
  by (induction n) (simp_all add: kept_refresh)

lemma resolveOnce_db: "resolveOnce env c schema s = (r, s') \<Longrightarrow> hs_db s' = hs_db s \<and> hs_segments s' = hs_segments s"
  by (auto simp: resolveOnce_def Let_def split: resolver_answer.splits sum.splits option.splits prod.splits)

lemma plan_state:
  "hs_db (snd (planRequest env schema registry v frames s)) = hs_db s \<or>
   hs_db (snd (planRequest env schema registry v frames s)) = hs_db (refresh env s)"
proof (cases "\<exists>header rest. frames = ReqHeader header # rest")
  case True
  then obtain header rest where frames: "frames = ReqHeader header # rest" by blast
  obtain r s2 where r: "resolveOnce env (rqh_clientId header) schema (refresh env s) = (r, s2)" by fastforce
  show ?thesis using resolveOnce_db [OF r] r
    by (cases r) (auto simp: planRequest_def Let_def frames split: sum.split)
qed (auto simp: planRequest_def split: list.splits RequestFrame.splits)

lemma kept_plan: "kept_reading env I \<Longrightarrow> I (hs_db s) \<Longrightarrow> I (hs_db (snd (planRequest env schema registry v frames s)))"
  using kept_refresh [of env I s] plan_state [of env schema registry v frames s] by metis

lemma kept_core:
  assumes "kept_reading env I" "I (hs_db s)"
  shows "I (hs_db (snd (createStreamCore env bytes s)))"
proof (cases "\<exists>v frames schema. decodeMessage bytes = Inr (RequestMessage v frames) \<and> compileSchema (hv_schema env) = Inr schema")
  case True
  then obtain v frames schema where req: "decodeMessage bytes = Inr (RequestMessage v frames)" "compileSchema (hv_schema env) = Inr schema" by blast
  have s1: "I (hs_db (refresh env s))" using assms by (rule kept_refresh)
  show ?thesis
  proof (cases "hv_ensureSchema env schema (hs_db (refresh env s))")
    case (Inr d)
    let ?s2 = "refresh env ((refresh env s)\<lparr>hs_db := d\<rparr>)"
    have s2: "I (hs_db ?s2)" using kept_readingD(2) [OF assms(1) s1 Inr] kept_refresh [OF assms(1), of "(refresh env s)\<lparr>hs_db := d\<rparr>"] by simp
    show ?thesis
    proof (cases "touchPartition (hv_part env) (hv_clock env (hs_tick ?s2)) (hv_uuid env (hs_tick ?s2)) (hs_db ?s2)")
      case (Inr t)
      obtain registry d2 where t: "t = (registry, d2)" by fastforce
      have "I d2" using kept_readingD(3) [OF assms(1) s2] Inr t by blast
      then have "I (hs_db (snd (planRequest env schema registry v frames (?s2\<lparr>hs_db := d2\<rparr>))))" by (intro kept_plan [OF assms(1)]) simp
      then show ?thesis using req \<open>hv_ensureSchema env schema (hs_db (refresh env s)) = Inr d\<close> Inr t
        by (auto simp: createStreamCore_def Let_def split: prod.splits sum.splits)
    qed (use req Inr s2 in \<open>simp add: createStreamCore_def Let_def\<close>)
  qed (use req s1 in \<open>simp add: createStreamCore_def Let_def\<close>)
qed (use assms(2) in \<open>auto simp: createStreamCore_def split: sum.splits error.splits SyncMessage.splits\<close>)

lemma kept_push: "kept env I \<Longrightarrow> I (hs_db s) \<Longrightarrow> I (hs_db (snd (pushHalf env schema plan pushes out s)))"
proof (induction pushes arbitrary: out s)
  case (Cons push pushes)
  let ?s1 = "refresh env s"
  let ?s2 = "refresh env ?s1"
  let ?po = "processPushCommit (hv_push env) schema (push_context env plan (hs_tick ?s1)) push (hs_db ?s1) (hs_db ?s2)"
  have "I (hs_db ?s2)" using keptD(1) [OF Cons.prems(1)] Cons.prems(2) by (simp add: kept_refresh)
  then have "I (po_db ?po)" using keptD(2) [OF Cons.prems(1)] by blast
  then show ?case using Cons.IH [OF Cons.prems(1), of "?s2\<lparr>hs_db := po_db ?po\<rparr>"]
    by (simp add: Let_def split: sum.split)
qed simp

lemma kept_pull: "kept env I \<Longrightarrow> I (hs_db s) \<Longrightarrow> I (hs_db (snd (pullHalf env schema plan limits m h subs cursors out s)))"
proof (induction subs arbitrary: cursors out s)
  case (Cons sub subs)
  then show ?case using kept_refreshes [OF keptD(1) [OF Cons.prems(1)] Cons.prems(2)] by (auto simp: Let_def split: sum.splits prod.splits)
qed simp

lemma kept_sections: "kept env I \<Longrightarrow> I (hs_db s) \<Longrightarrow> I (hs_db (snd (pullSections env schema plan out s)))"
  by (auto simp: pullSections_def Let_def kept_pull kept_refresh keptD(1) split: option.splits)

lemma kept_record: "kept env I \<Longrightarrow> I (hs_db s) \<Longrightarrow> I (hs_db (putRecord env plan cursors s))"
  by (simp add: putRecord_def Let_def keptD(1,3) kept_refresh)

lemma kept_stream:
  assumes "kept env I" "I (hs_db s)"
  shows "I (hs_db (snd (streamResponse env schema plan s)))"
proof -
  have "I (hs_db (snd (case pushHalf env schema plan (qp_pushes plan) out s of (Inl e, s1) \<Rightarrow> (Inl e, s1)
      | (Inr out2, s1) \<Rightarrow> (case pullSections env schema plan out2 s1 of (Inl e, s2) \<Rightarrow> (Inl e, s2)
          | (Inr (cursors, out3), s2) \<Rightarrow> (Inr out3, putRecord env plan cursors s2)))))" for out
  proof -
    obtain r s1 where r: "pushHalf env schema plan (qp_pushes plan) out s = (r, s1)" by fastforce
    have s1: "I (hs_db s1)" using kept_push [OF assms, of schema plan "qp_pushes plan" out] r by simp
    show ?thesis
    proof (cases r)
      case (Inr out2)
      obtain q s2 where q: "pullSections env schema plan out2 s1 = (q, s2)" by fastforce
      then have "I (hs_db s2)" using kept_sections [OF assms(1) s1, of schema plan out2] by simp
      then show ?thesis using r q Inr kept_record [OF assms(1)] by (cases q) (auto split: prod.splits)
    qed (use r s1 in simp)
  qed
  then show ?thesis using assms(2) by (auto simp: streamResponse_def split: sum.splits)
qed

lemma kept_handled: "kept env I \<Longrightarrow> I (hs_db s) \<Longrightarrow> I (hs_db (snd (handleSyncRequest env bytes s)))"
proof -
  assume k: "kept env I" "I (hs_db s)"
  obtain r s1 where c: "createStreamCore env bytes s = (r, s1)" by fastforce
  then have "I (hs_db s1)" using kept_core [OF keptD(1) [OF k(1)] k(2), of bytes] by simp
  then show ?thesis using kept_stream [OF k(1), of s1] 
    by (auto simp: handleSyncRequest_def c split: sum.splits prod.splits) (metis snd_conv)+
qed

lemma storage_ok_touch: "touchPartition p now epoch d = Inr (entry, d') \<Longrightarrow> storage_ok d' = storage_ok d"
  by (auto simp: touchPartition_def Let_def storage_ok_def rows_ok_def log_ok_def getMaxCommitSeq_def getHorizonSeq_def split: if_splits)

lemma storage_ok_client: "storage_ok (putClientRecord p r d) = storage_ok d"
  by (simp add: putClientRecord_def storage_ok_def rows_ok_def log_ok_def getMaxCommitSeq_def getHorizonSeq_def)

lemma kept_storage_ok:
  assumes "\<And>n d. storage_ok d \<Longrightarrow> storage_ok (hv_other env n d)"
    and "\<And>schema d d'. storage_ok d \<Longrightarrow> hv_ensureSchema env schema d = Inr d' \<Longrightarrow> storage_ok d'"
  shows "kept env storage_ok"
  using assms push_storage_ok storage_ok_touch storage_ok_client unfolding kept_def kept_reading_def processPushCommit_def by blast

section \<open>A request on its own\<close>

definition alone :: "('s, 'a) handler_env_scheme \<Rightarrow> bool" where
  "alone env \<longleftrightarrow> (\<forall>n d. hv_other env n d = d) \<and> (\<forall>schema d. hv_ensureSchema env schema d = Inr d)"

text \<open>Databases that differ in the registry of partitions only.\<close>

definition same_but_registry :: "db \<Rightarrow> db \<Rightarrow> bool" where
  "same_but_registry d d' \<longleftrightarrow> (\<exists>r. d' = d\<lparr>db_registry := r\<rparr>)"

lemma alone_reading: "alone env \<Longrightarrow> kept_reading env (same_but_registry d)"
  by (auto simp: kept_reading_def alone_def same_but_registry_def touchPartition_def Let_def split: if_splits)

lemma alone_planned: "alone env \<Longrightarrow> same_but_registry (hs_db s) (hs_db (snd (createStreamCore env bytes s)))"
  by (rule kept_core [OF alone_reading], assumption) (auto simp: same_but_registry_def intro: exI [of _ "db_registry (hs_db s)"])

lemma header_only_state:
  "qp_schemaFloor plan \<or> qp_epochReset plan \<Longrightarrow> snd (streamResponse env schema plan s) = s"
  by (auto simp: streamResponse_def split: sum.splits)

lemma unanswered_state:
  assumes "alone env" and "\<And>schema plan s1. createStreamCore env bytes s = (Inr (schema, plan), s1) \<Longrightarrow> qp_schemaFloor plan \<or> qp_epochReset plan"
  shows "same_but_registry (hs_db s) (hs_db (snd (handleSyncRequest env bytes s)))"
proof -
  obtain r s1 where c: "createStreamCore env bytes s = (r, s1)" by fastforce
  show ?thesis
  proof (cases r)
    case (Inr x)
    obtain schema plan where x: "x = (schema, plan)" by fastforce
    have "snd (streamResponse env schema plan s1) = s1" using assms(2) c Inr x by (intro header_only_state) simp
    then show ?thesis using alone_planned [OF assms(1), of s bytes] c Inr x by (auto simp: handleSyncRequest_def split: sum.splits prod.splits)
  qed (use alone_planned [OF assms(1), of s bytes] c in \<open>simp add: handleSyncRequest_def\<close>)
qed

section \<open>Authorization\<close>

lemma lease_authorized:
  "authorizeFromLease env c schema s = Inr resolved \<longleftrightarrow>
     (\<exists>leases lease. hv_leases env = Some leases \<and> lv_get leases (hs_leases s) (hv_part env) c = Some lease \<and>
        ar_actorId lease = hv_actorId env \<and> \<not> ar_revoked lease \<and> hv_clock env (hs_tick s) < ar_expiresAtMs lease \<and>
        list_all (\<lambda>(key, vs). key \<in> set (cs_declaredVariables schema)) (ar_allowedScopes lease) \<and>
        resolved = ResolvedOk (ar_allowedScopes lease))"
  by (auto simp: authorizeFromLease_def validateResolvedKeys_def bindE_eq_Inr split: option.splits if_splits)

text \<open>The grant a request is served with: the answer of the resolver, or in an outage the valid lease of the actor.\<close>

definition request_granted :: "('s, 'a) handler_env_scheme \<Rightarrow> jsstring \<Rightarrow> 's \<Rightarrow> int \<Rightarrow> scope_map \<Rightarrow> bool" where
  "request_granted env clientId store now allowed \<longleftrightarrow>
     hv_resolveScopes env clientId = Allowed allowed \<or>
     hv_resolveScopes env clientId = ResolverOutage \<and>
       (\<exists>leases lease. hv_leases env = Some leases \<and> lv_get leases store (hv_part env) clientId = Some lease \<and>
          ar_actorId lease = hv_actorId env \<and> \<not> ar_revoked lease \<and> now < ar_expiresAtMs lease \<and> allowed = ar_allowedScopes lease)"

lemma resolve_granted:
  "resolveOnce env c schema s = (Inr (ResolvedOk allowed, lease), s') \<Longrightarrow>
   request_granted env c (hs_leases s) (hv_clock env (hs_tick s)) allowed \<and>
   list_all (\<lambda>(key, vs). key \<in> set (cs_declaredVariables schema)) allowed"
  by (cases "hv_resolveScopes env c")
     (auto simp: resolveOnce_def request_granted_def validateResolvedKeys_def Let_def bindE_eq_Inr lease_authorized
      split: if_splits option.splits prod.splits)

lemma validated_tables:
  "validateSubscriptions schema seen frames = Inr validated \<Longrightarrow>
     map fst validated = frames \<and> (\<forall>(f, t)\<in>set validated. map_of (cs_tables schema) (sb_table f) = Some t) \<and>
     distinct (map sb_id frames) \<and> set (map sb_id frames) \<inter> set seen = {}"
  by (induction schema seen frames arbitrary: validated rule: validateSubscriptions.induct)
     (fastforce split: if_splits option.splits simp: bindE_eq_Inr)+

end
