(* ===== verification/Handler_Properties.thy ===== *)
theory Handler_Properties
  imports Handler_Correct Core_Properties Sync_Samples
begin

text \<open>
  The properties of the request handler and of the lease stores, each with a request of a small
  server as its witness.
\<close>

section \<open>A sample request\<close>

text \<open>A pull of one subscription by the client \<open>c\<close>.\<close>

definition hp_subscription :: SubscriptionFrame where
  "hp_subscription = \<lparr>sb_id = js ''s'', sb_table = js ''t'', sb_scopes = [], sb_params = None, sb_cursor = 0, sb_bootstrapState = None\<rparr>"

definition hp_frames :: "RequestFrame list" where
  "hp_frames = [ReqHeader \<lparr>rqh_clientId = js ''c'', rqh_schemaVersion = 1, rqh_logEpoch = None\<rparr>,
     PullHeader \<lparr>ph_limitCommits = 1, ph_limitSnapshotRows = 1, ph_maxSnapshotPages = 1, ph_accept = 1\<rparr>,
     Subscription hp_subscription]"

definition hp_bytes :: "byte list" where
  "hp_bytes = (case encodeMessage (RequestMessage 1 hp_frames) of Inl _ \<Rightarrow> [] | Inr b \<Rightarrow> b)"

definition hp_env :: "resolver_answer \<Rightarrow> (nat \<Rightarrow> db \<Rightarrow> db) \<Rightarrow> SqliteLeaseStore handler_env" where
  "hp_env answer other = \<lparr>hv_part = js ''p'', hv_actorId = js ''a'', hv_schema = sample_schema, hv_ensureSchema = (\<lambda>_ d. Inr d),
     hv_resolveScopes = (\<lambda>_. answer), hv_leases = Some \<lparr>lv_ttlMs = 100, lv_get = ql_get, lv_issue = ql_issue\<rparr>,
     hv_push = sample_env, hv_pull = sample_pull_env, hv_maxOperations = DEFAULT_maxOperationsPerRequest, hv_clock = (\<lambda>_. 5),
     hv_uuid = (\<lambda>_. js ''u''), hv_other = other, hv_fuel = 1\<rparr>"

definition hp_state :: "db \<Rightarrow> SqliteLeaseStore \<Rightarrow> SqliteLeaseStore handler_state" where
  "hp_state d leases = \<lparr>hs_db = d, hs_segments = sample_store, hs_leases = leases, hs_tick = 0\<rparr>"

definition hp_no_leases :: SqliteLeaseStore where
  "hp_no_leases = \<lparr>ql_leases = [], ql_revocations = []\<rparr>"

lemma hp_encodes: "encodeMessage (RequestMessage 1 hp_frames) = Inr hp_bytes"
proof -
  have "\<exists>b. encodeMessage (RequestMessage 1 hp_frames) = Inr b"
    by (simp add: sample_request_eval hp_frames_def hp_subscription_def encodePullHeader_def encodeSubscription_def writeStringListMap_def) (simp add: writer_eval)
  then show ?thesis by (auto simp: hp_bytes_def)
qed

lemma hp_decodes: "decodeMessage hp_bytes = Inr (RequestMessage 1 hp_frames)"
proof -
  have "message_ok (RequestMessage 1 hp_frames)" "canon_message (RequestMessage 1 hp_frames) = RequestMessage 1 hp_frames"
    by (simp_all add: hp_frames_def hp_subscription_def request_ok_def subscription_ok_def operation_ok_def canon_map_def scope_map_ok_def str_ok_def js_def is_high_def is_low_def)
  then show ?thesis using decodeMessage_encodeMessage [OF hp_encodes] by simp
qed

lemma hp_env_fields [simp]:
  "hv_part (hp_env answer other) = js ''p''" "hv_actorId (hp_env answer other) = js ''a''" "hv_schema (hp_env answer other) = sample_schema"
  "hv_ensureSchema (hp_env answer other) = (\<lambda>_ d. Inr d)" "hv_resolveScopes (hp_env answer other) = (\<lambda>_. answer)"
  "hv_leases (hp_env answer other) = Some \<lparr>lv_ttlMs = 100, lv_get = ql_get, lv_issue = ql_issue\<rparr>"
  "hv_maxOperations (hp_env answer other) = 500" "hv_clock (hp_env answer other) = (\<lambda>_. 5)" "hv_uuid (hp_env answer other) = (\<lambda>_. js ''u'')"
  "hv_other (hp_env answer other) = other"
  by (simp_all add: hp_env_def DEFAULT_maxOperationsPerRequest_def)

definition hp_registry :: PartitionRegistryEntry where
  "hp_registry = \<lparr>pe_partition = js ''p'', pe_logEpoch = js ''u'', pe_epochRequired = False, pe_lastAuthenticatedAtMs = 5\<rparr>"

definition hp_header :: ReqHeaderFrame where
  "hp_header = \<lparr>rqh_clientId = js ''c'', rqh_schemaVersion = 1, rqh_logEpoch = None\<rparr>"

definition hp_pull :: PullHeaderFrame where
  "hp_pull = \<lparr>ph_limitCommits = 1, ph_limitSnapshotRows = 1, ph_maxSnapshotPages = 1, ph_accept = 1\<rparr>"

text \<open>No scopes are requested, so the subscription is revoked whatever is allowed.\<close>

definition hp_plan :: "ResolvedScopes \<Rightarrow> LeaseRecord option \<Rightarrow> RequestPlan" where
  "hp_plan resolved lease = \<lparr>qp_wireVersion = 1, qp_logEpoch = js ''u'', qp_epochReset = False, qp_header = hp_header,
     qp_pushes = [], qp_pull = Some hp_pull,
     qp_subscriptions = [\<lparr>sn_frame = hp_subscription, sn_table = sample_table, sn_active = False, sn_effective = []\<rparr>],
     qp_resolved = resolved, qp_schemaFloor = False, qp_leaseToEmit = lease\<rparr>"

lemma hp_frames_parts:
  "push_frames hp_frames = []" "pull_frame hp_frames = Some hp_pull" "subscription_frames hp_frames = [hp_subscription]"
  "hp_frames = ReqHeader hp_header # tl hp_frames"
  by (simp_all add: hp_frames_def push_frames_def pull_frame_def subscription_frames_def map_filter_simps hp_pull_def hp_header_def)

lemma hp_prefix: "take (length REMOTE_COMMAND_CLIENT_ID_PREFIX) (js ''c'') \<noteq> REMOTE_COMMAND_CLIENT_ID_PREFIX"
  by (simp add: REMOTE_COMMAND_CLIENT_ID_PREFIX_def js_def)

lemma hp_validated: "validateSubscriptions sample_compiled [] [hp_subscription] = Inr [(hp_subscription, sample_table)]"
  by (simp add: hp_subscription_def sample_compiled_def)

lemma hp_accepts: "rows_accepted hp_pull"
  by (simp add: rows_accepted_def hp_pull_def ACCEPT_INLINE_ROWS_def)

lemma hp_subscription_planned:
  "plan_subscription resolved (hp_subscription, sample_table) = \<lparr>sn_frame = hp_subscription, sn_table = sample_table, sn_active = False, sn_effective = []\<rparr>"
  by (cases resolved) (simp_all add: plan_subscription_def hp_subscription_def computeEffective_def)

lemma hp_planned:
  assumes "\<not> (\<exists>r. getClientRecord (hs_db (refresh (hp_env answer other) s)) (js ''p'') (js ''c'') = Some r \<and> cl_actorId r \<noteq> js ''a'')"
    and "resolveOnce (hp_env answer other) (js ''c'') sample_compiled (refresh (hp_env answer other) s) = (Inr (resolved, lease), s')"
  shows "planRequest (hp_env answer other) sample_compiled hp_registry 1 hp_frames s = (Inr (hp_plan resolved lease), s')"
proof -
  have "\<not> (case getClientRecord (hs_db (refresh (hp_env answer other) s)) (js ''p'') (js ''c'') of None \<Rightarrow> False | Some r \<Rightarrow> cl_actorId r \<noteq> js ''a'')"
    using assms(1) by (auto split: option.splits)
  moreover obtain rest where hp: "hp_frames = ReqHeader hp_header # rest" using hp_frames_parts(4) by blast
  moreover have "rqh_clientId hp_header = js ''c''" "rqh_schemaVersion hp_header = 1" "rqh_logEpoch hp_header = None" "cs_version sample_compiled = 1"
    by (simp_all add: hp_header_def sample_compiled_def)
  ultimately show ?thesis using assms(2) hp_prefix hp_accepts
    unfolding planRequest_def hp list.case RequestFrame.case Let_def hp_frames_parts(1-3) [unfolded hp] hp_env_fields hp_validated sum.case
    by (simp add: hp_subscription_planned hp_plan_def hp_registry_def)
qed

definition hp_touched :: "db \<Rightarrow> SqliteLeaseStore \<Rightarrow> SqliteLeaseStore handler_state" where
  "hp_touched d leases = \<lparr>hs_db = d\<lparr>db_registry := [hp_registry]\<rparr>, hs_segments = sample_store, hs_leases = leases, hs_tick = 2\<rparr>"

lemma hp_core:
  assumes "other 0 d = d" "other 1 d = d" "db_registry d = []"
    and "planRequest (hp_env answer other) sample_compiled hp_registry 1 hp_frames (hp_touched d leases) = (r, s')"
  shows "createStreamCore (hp_env answer other) hp_bytes (hp_state d leases) = (case r of Inl e \<Rightarrow> Inl e | Inr plan \<Rightarrow> Inr (sample_compiled, plan), s')"
proof -
  have "touchPartition (js ''p'') 5 (js ''u'') d = Inr (hp_registry, d\<lparr>db_registry := [hp_registry]\<rparr>)"
    using assms(3) by (simp add: touchPartition_def hp_registry_def find_by_def js_def Let_def)
  then show ?thesis using assms hp_decodes sample_compiles
    by (auto simp: createStreamCore_def refresh_def hp_state_def hp_touched_def numeral_2_eq_2 split: sum.split)
qed

definition hp_lease :: LeaseRecord where
  "hp_lease = new_lease (js ''u'') (js ''a'') [] 5 100"

definition hp_leases :: SqliteLeaseStore where
  "hp_leases = \<lparr>ql_leases = [(js ''p'', js ''c'', hp_lease)], ql_revocations = []\<rparr>"

lemma hp_issued: "ql_issue (js ''u'') (js ''p'') (js ''c'') (js ''a'') [] 5 100 hp_no_leases = (hp_lease, hp_leases)"
  by (simp add: ql_issue_def hp_no_leases_def hp_leases_def hp_lease_def ql_get_def find_by_def reused_id_def Let_def)

text \<open>Resolved by the host, with the first lease of the client.\<close>

lemma hp_resolved:
  "hs_leases s = hp_no_leases \<Longrightarrow>
   resolveOnce (hp_env (Allowed []) other) (js ''c'') sample_compiled s = (Inr (ResolvedOk [], Some hp_lease), s\<lparr>hs_leases := hp_leases\<rparr>)"
  by (simp add: resolveOnce_def validateResolvedKeys_def hp_issued)

text \<open>Served from the lease.\<close>

lemma hp_leased:
  "hs_leases s = hp_leases \<Longrightarrow> resolveOnce (hp_env ResolverOutage other) (js ''c'') sample_compiled s = (Inr (ResolvedOk [], None), s)"
  by (simp add: resolveOnce_def authorizeFromLease_def validateResolvedKeys_def hp_leases_def ql_get_def find_by_def hp_lease_def new_lease_def)

lemma yield_all_total: "\<forall>f\<in>set fs. \<exists>c. encodeResponseFrame_bytes f v = Inr c \<Longrightarrow> \<exists>out'. yield_all v fs out = Inr out'"
  by (induction v fs out rule: yield_all.induct) auto

definition hp_answer :: "ResponseFrame list" where
  "hp_answer = [SubStart \<lparr>ss_id = js ''s'', ss_status = SubRevoked, ss_reasonCode = js ''sync.scope_revoked'', ss_effectiveScopes = [], ss_bootstrap = False\<rparr>,
     SubEnd \<lparr>se_nextCursor = 0, se_bootstrapState = None\<rparr>]"

lemmas response_eval = encodeResponseFrame_bytes_def encodeMessage_def version_defs validateFrameSequence_def validateResponseSequence_def
  responseStep_def response_start_def writeFrame_def encodeResponseFrame_def typed_def encodeRespHeader_def encodeLease_def
  encodeSubStart_def encodeSubEnd_def writeStringListMap_def endFrame_def stubHeader_def STUB_SUB_START_def STUB_SUB_END_def

lemma hp_frame_bytes:
  "\<exists>c. encodeResponseFrame_bytes (response_header sample_compiled (hp_plan r l)) 1 = Inr c"
  "\<exists>c. encodeResponseFrame_bytes (Lease \<lparr>ls_leaseId = js ''u'', ls_expiresAtMs = 105\<rparr>) 1 = Inr c"
  "f \<in> set hp_answer \<Longrightarrow> \<exists>c. encodeResponseFrame_bytes f 1 = Inr c"
proof -
  show "\<exists>c. encodeResponseFrame_bytes (response_header sample_compiled (hp_plan r l)) 1 = Inr c"
    by (simp add: response_eval response_header_def hp_plan_def sample_compiled_def) (simp add: writer_eval)
  show "\<exists>c. encodeResponseFrame_bytes (Lease \<lparr>ls_leaseId = js ''u'', ls_expiresAtMs = 105\<rparr>) 1 = Inr c"
    by (simp add: response_eval) (simp add: writer_eval)
  show "f \<in> set hp_answer \<Longrightarrow> \<exists>c. encodeResponseFrame_bytes f 1 = Inr c"
    unfolding hp_answer_def by (elim set_ConsD [THEN disjE]; simp add: response_eval) (simp_all add: writer_eval)
qed

lemma hp_section:
  "subscriptionSection fuel env rd schema limits \<lparr>sn_frame = hp_subscription, sn_table = t, sn_active = False, sn_effective = []\<rparr> m h
     (Some (js ''u'')) \<lparr>xs_frames = [], xs_store = store, xs_read = 0\<rparr> =
   Inr (\<lparr>sr_nextCursor = 0, sr_active = False\<rparr>, \<lparr>xs_frames = hp_answer, xs_store = store, xs_read = 0\<rparr>)"
  by (simp add: subscriptionSection_def hp_subscription_def yield_frame_def sub_start_def sub_end_def hp_answer_def js_def)

definition hp_response :: "LeaseRecord option \<Rightarrow> ResponseFrame list" where
  "hp_response lease = response_header sample_compiled (hp_plan (ResolvedOk []) lease) # lease_frames (hp_plan (ResolvedOk []) lease) @ hp_answer"

lemma hp_streamed:
  assumes "lease = None \<or> lease = Some hp_lease"
  obtains out where "streamResponse (hp_env answer other) sample_compiled (hp_plan (ResolvedOk []) lease) s =
      (Inr out, putRecord (hp_env answer other) (hp_plan (ResolvedOk []) lease) [] (refresh (hp_env answer other) (refresh (hp_env answer other) s)))"
    and "map fst out = hp_response lease"
proof -
  let ?p = "hp_plan (ResolvedOk []) lease" and ?e = "hp_env answer other"
  have leases: "\<forall>f\<in>set (lease_frames ?p). \<exists>c. encodeResponseFrame_bytes f 1 = Inr c"
    using assms hp_frame_bytes(2) by (auto simp: lease_frames_def hp_plan_def hp_lease_def new_lease_def)
  obtain out0 out1 out2 where y: "yield_all 1 [response_header sample_compiled ?p] [] = Inr out0"
      "yield_all 1 (lease_frames ?p) out0 = Inr out1" "yield_all 1 hp_answer out1 = Inr out2"
    using yield_all_total [of "[response_header sample_compiled ?p]" 1 "[]"] yield_all_total [OF leases] yield_all_total [of hp_answer 1]
      hp_frame_bytes(1,3) by fastforce
  have fields: "qp_wireVersion ?p = 1" "qp_pushes ?p = []" "qp_pull ?p = Some hp_pull" "\<not> qp_schemaFloor ?p" "\<not> qp_epochReset ?p"
    "qp_logEpoch ?p = js ''u''" "qp_subscriptions ?p = [\<lparr>sn_frame = hp_subscription, sn_table = sample_table, sn_active = False, sn_effective = []\<rparr>]"
    by (simp_all add: hp_plan_def)
  have "pullSections ?e sample_compiled ?p out1 s = (Inr ([], out2), refresh ?e (refresh ?e s))"
    using y(3) by (simp add: pullSections_def fields Let_def hp_section)
  then have "streamResponse ?e sample_compiled ?p s = (Inr out2, putRecord ?e ?p [] (refresh ?e (refresh ?e s)))"
    using y(1,2) by (simp add: streamResponse_def fields)
  moreover have "map fst out2 = hp_response lease"
    using y [THEN yield_all_Inr] by (simp add: hp_response_def)
  ultimately show thesis by (rule that)
qed

lemma hp_sound: "list_all sound_result (hp_response lease)"
  by (auto simp: hp_response_def response_header_def lease_frames_def hp_answer_def sound_result_def split: option.splits)

lemma hp_envelope: "\<exists>h. responseEnvelopeHeader 1 = Inr h"
  using probe_encodes by (auto simp: probe_def responseEnvelopeHeader_def)

lemma hp_handled_core:
  assumes "other 0 d = d" "other 1 d = d" "db_registry d = []"
    and "getClientRecord (other 2 (d\<lparr>db_registry := [hp_registry]\<rparr>)) (js ''p'') (js ''c'') = None"
  obtains s1 where "createStreamCore (hp_env (Allowed []) other) hp_bytes (hp_state d hp_no_leases) =
    (Inr (sample_compiled, hp_plan (ResolvedOk []) (Some hp_lease)), s1)"
proof -
  let ?e = "hp_env (Allowed []) other"
  have "planRequest ?e sample_compiled hp_registry 1 hp_frames (hp_touched d hp_no_leases) =
      (Inr (hp_plan (ResolvedOk []) (Some hp_lease)), (refresh ?e (hp_touched d hp_no_leases))\<lparr>hs_leases := hp_leases\<rparr>)"
    by (intro hp_planned hp_resolved) (use assms(4) in \<open>simp_all add: refresh_def hp_touched_def\<close>)
  then show thesis using that hp_core [where other = other, OF assms(1-3)] by simp
qed

text \<open>The whole request, resolved by the host.\<close>

lemma hp_handled:
  assumes "other 0 d = d" "other 1 d = d" "db_registry d = []"
    and "getClientRecord (other 2 (d\<lparr>db_registry := [hp_registry]\<rparr>)) (js ''p'') (js ''c'') = None"
  defines "env \<equiv> hp_env (Allowed []) other" and "s0 \<equiv> hp_state d hp_no_leases"
  obtains b s' where "handleSyncRequest env hp_bytes s0 = (Inr b, putRecord env (hp_plan (ResolvedOk []) (Some hp_lease)) [] s')"
    and "response_frames env hp_bytes s0 = hp_response (Some hp_lease)"
proof -
  obtain s1 where core: "createStreamCore env hp_bytes s0 = (Inr (sample_compiled, hp_plan (ResolvedOk []) (Some hp_lease)), s1)"
    using hp_handled_core [where other = other, OF assms(1-4)] unfolding env_def s0_def by blast
  obtain out where out: "streamResponse env sample_compiled (hp_plan (ResolvedOk []) (Some hp_lease)) s1 =
      (Inr out, putRecord env (hp_plan (ResolvedOk []) (Some hp_lease)) [] (refresh env (refresh env s1)))"
    "map fst out = hp_response (Some hp_lease)"
    using hp_streamed [of "Some hp_lease"] unfolding env_def by blast
  moreover have "qp_wireVersion (hp_plan (ResolvedOk []) (Some hp_lease)) = 1" by (simp add: hp_plan_def)
  ultimately show thesis using that hp_envelope core by (auto simp: handleSyncRequest_def response_frames_def)
qed

section \<open>Responses\<close>

text \<open>C8. A response is the message the reference codec would write. The bytes of a handled request, made
  up of chunks that are cut out of small wrapper messages, are the encoding of the frames
  yielded, in the wire version of the request, as long as only rejections carry details. These
  frames are a header with the schema floor or the reset mark alone, or they answer every push
  commit and, for a pull, every subscription of the request, in the order of the request.\<close>

theorem handled_response:
  assumes "handleSyncRequest env bytes s = (Inr b, s')" and "list_all sound_result (response_frames env bytes s)"
  shows "\<exists>v frames. decodeMessage bytes = Inr (RequestMessage v frames) \<and>
    encodeMessage (ResponseMessage v (response_frames env bytes s)) = Inr b \<and>
    ((\<exists>h. response_frames env bytes s = [RespHeader h] \<and> (rsh_requiredSchemaVersion h \<noteq> None \<or> rsh_resetRequired h = Some True)) \<or>
     (result_ids (response_frames env bytes s) = map pc_clientCommitId (push_frames frames) \<and>
      section_ids (response_frames env bytes s) = (if pull_frame frames = None then [] else map sb_id (subscription_frames frames))))"
proof -
  obtain v frames where msg: "decodeMessage bytes = Inr (RequestMessage v frames)" "encodeMessage (ResponseMessage v (response_frames env bytes s)) = Inr b"
    using handled_message [OF assms] by blast
  obtain schema plan s1 and out :: chunks where core: "createStreamCore env bytes s = (Inr (schema, plan), s1)"
    and fs: "response_frames env bytes s = map fst out" "response_of schema plan (map fst out)"
    using assms(1) by (rule handled_cases) blast
  obtain registry s2 where "planRequest env schema registry v frames s2 = (Inr plan, s1)"
    using core msg(1) by (elim core_cases) auto
  then show ?thesis
  proof (cases rule: plan_cases)
    case floor
    then have "map fst out = [response_header schema plan]" using fs(2) by (auto elim: response_of.cases)
    then show ?thesis using msg fs floor by (auto simp: response_header_def)
  next
    case (reset header rest)
    then have "map fst out = [response_header schema plan]" using fs(2) by (auto elim!: response_of.cases simp: header_plan_def)
    then show ?thesis using msg fs reset by (auto simp: response_header_def header_plan_def)
  next
    case (normal header rest validated resolved lease)
    have "map (\<lambda>p. sb_id (sn_frame p)) (qp_subscriptions plan) = map sb_id (subscription_frames frames)"
    proof -
      have "sn_frame (plan_subscription resolved x) = fst x" for x
        by (simp add: plan_subscription_def case_prod_unfold split: EffectiveOutcome.split)
      moreover have "map sb_id (map fst validated) = map sb_id (subscription_frames frames)" using validated_tables [OF normal(3)] by simp
      ultimately show ?thesis using normal(5) by (simp add: comp_def)
    qed
    then show ?thesis using msg fs(1) response_of_ids [OF fs(2)] normal(5) by auto
  qed
qed

theorem handled_response_witness:
  "\<exists>b s' v frames. handleSyncRequest (hp_env (Allowed []) (\<lambda>_ d. d)) hp_bytes (hp_state sample_db hp_no_leases) = (Inr b, s') \<and>
     encodeMessage (ResponseMessage v (hp_response (Some hp_lease))) = Inr b \<and> section_ids (hp_response (Some hp_lease)) = [js ''s'']"
proof -
  have d: "db_registry sample_db = []" "getClientRecord (sample_db\<lparr>db_registry := [hp_registry]\<rparr>) (js ''p'') (js ''c'') = None"
    by (simp_all add: sample_db_def empty_db_def getClientRecord_def find_by_def)
  obtain b s' where run: "handleSyncRequest (hp_env (Allowed []) (\<lambda>_ d. d)) hp_bytes (hp_state sample_db hp_no_leases) = (Inr b, s')"
    "response_frames (hp_env (Allowed []) (\<lambda>_ d. d)) hp_bytes (hp_state sample_db hp_no_leases) = hp_response (Some hp_lease)"
    by (rule hp_handled [of "\<lambda>_ d. d" sample_db]) (use d in simp_all)
  have "\<nexists>h. hp_response (Some hp_lease) = [RespHeader h]" by (simp add: hp_response_def hp_answer_def)
  then show ?thesis
    using handled_response [OF run(1), unfolded run(2), OF hp_sound] run(1) hp_decodes hp_frames_parts by (auto simp: hp_subscription_def)
qed

section \<open>Authorization\<close>

text \<open>C9. A request is served only under a grant. When a request is planned with allowed scopes, these are
  the answer of the host's resolver or, when the resolver reports an outage, the scopes of the
  stored lease of this client, which is the actor's own, not revoked and not expired at that
  moment; all their variables are declared. Every active subscription has exactly the effective
  scopes these allow, its table is one of the schema, the request has at most the capped number
  of operations and its client id is outside the reserved namespace.\<close>

theorem request_authorized:
  assumes "createStreamCore env bytes s = (Inr (schema, plan), s')" and "qp_resolved plan = ResolvedOk allowed"
  shows "request_granted env (rqh_clientId (qp_header plan)) (hs_leases s) (hv_clock env (hs_tick s + 3)) allowed \<and>
    list_all (\<lambda>(key, vs). key \<in> set (cs_declaredVariables schema)) allowed \<and>
    list_all (\<lambda>p. map_of (cs_tables schema) (sb_table (sn_frame p)) = Some (sn_table p) \<and>
      (sn_active p \<longrightarrow> computeEffective (sb_scopes (sn_frame p)) (ResolvedOk allowed) = EffActive (sn_effective p))) (qp_subscriptions plan) \<and>
    sum_list (map (\<lambda>p. length (pc_operations p)) (qp_pushes plan)) \<le> hv_maxOperations env \<and>
    take (length REMOTE_COMMAND_CLIENT_ID_PREFIX) (rqh_clientId (qp_header plan)) \<noteq> REMOTE_COMMAND_CLIENT_ID_PREFIX"
  using assms(1)
proof (rule core_cases)
  fix v frames registry d1 d2 d3
  assume "planRequest env schema registry v frames (s\<lparr>hs_tick := hs_tick s + 2, hs_db := d3\<rparr>) = (Inr plan, s')"
  then show ?thesis
  proof (cases rule: plan_cases)
    case (normal header rest validated resolved lease)
    have res: "resolved = ResolvedOk allowed" using assms(2) normal(5) by simp
    have "request_granted env (rqh_clientId header) (hs_leases s) (hv_clock env (hs_tick s + 3)) allowed \<and>
        list_all (\<lambda>(key, vs). key \<in> set (cs_declaredVariables schema)) allowed"
      using resolve_granted [OF normal(4) [unfolded res]] by (simp add: refresh_def numeral_3_eq_3)
    moreover have "list_all (\<lambda>p. map_of (cs_tables schema) (sb_table (sn_frame p)) = Some (sn_table p) \<and>
        (sn_active p \<longrightarrow> computeEffective (sb_scopes (sn_frame p)) (ResolvedOk allowed) = EffActive (sn_effective p))) (qp_subscriptions plan)"
      using validated_tables [OF normal(3)] normal(5) res
      by (fastforce simp: list_all_iff plan_subscription_def split: EffectiveOutcome.splits)
    ultimately show ?thesis using normal(2,5) by (simp add: admitted_def)
  qed (use assms(2) in \<open>simp_all add: header_plan_def\<close>)
qed

theorem request_authorized_witness:
  "\<exists>s'. createStreamCore (hp_env ResolverOutage (\<lambda>_ d. d)) hp_bytes (hp_state sample_db hp_leases) =
      (Inr (sample_compiled, hp_plan (ResolvedOk []) None), s') \<and>
    request_granted (hp_env ResolverOutage (\<lambda>_ d. d)) (js ''c'') hp_leases 5 []"
proof -
  let ?e = "hp_env ResolverOutage (\<lambda>_ d. d)"
  have d: "db_registry sample_db = []" "getClientRecord (sample_db\<lparr>db_registry := [hp_registry]\<rparr>) (js ''p'') (js ''c'') = None"
    by (simp_all add: sample_db_def empty_db_def getClientRecord_def find_by_def)
  have "planRequest ?e sample_compiled hp_registry 1 hp_frames (hp_touched sample_db hp_leases) =
      (Inr (hp_plan (ResolvedOk []) None), refresh ?e (hp_touched sample_db hp_leases))"
    by (intro hp_planned hp_leased) (use d(2) in \<open>simp_all add: refresh_def hp_touched_def\<close>)
  then have core: "createStreamCore ?e hp_bytes (hp_state sample_db hp_leases) =
      (Inr (sample_compiled, hp_plan (ResolvedOk []) None), refresh ?e (hp_touched sample_db hp_leases))"
    using hp_core [of "\<lambda>_ d. d" sample_db] d(1) by simp
  moreover have "rqh_clientId (qp_header (hp_plan (ResolvedOk []) None)) = js ''c''" "hs_leases (hp_state sample_db hp_leases) = hp_leases"
    "qp_resolved (hp_plan (ResolvedOk []) None) = ResolvedOk []"
    by (simp_all add: hp_plan_def hp_header_def hp_state_def)
  ultimately show ?thesis using request_authorized [OF core] by simp
qed

text \<open>C15. A client id belongs to one actor. A request that names a client id bound to another actor is
  refused or answered by a bare header, and it leaves the database as it was but for the entry
  of the partition in the registry (when no other request writes meanwhile and the schema needs
  no migration).\<close>

theorem foreign_client_refused:
  assumes "alone env" and "decodeMessage bytes = Inr (RequestMessage v (ReqHeader header # rest))"
    and "getClientRecord (hs_db s) (hv_part env) (rqh_clientId header) = Some r" and "cl_actorId r \<noteq> hv_actorId env"
  shows "same_but_registry (hs_db s) (hs_db (snd (handleSyncRequest env bytes s))) \<and> length (response_frames env bytes s) \<le> 1"
proof -
  have header: "qp_schemaFloor plan \<or> qp_epochReset plan" if "createStreamCore env bytes s = (Inr (schema, plan), s1)" for schema plan s1
    using that
  proof (rule core_cases)
    fix v' frames registry d1 d2 d3
    assume dec: "decodeMessage bytes = Inr (RequestMessage v' frames)" and
      run: "hv_ensureSchema env schema (hv_other env (hs_tick s) (hs_db s)) = Inr d1" "d2 = hv_other env (hs_tick s + 1) d1"
        "touchPartition (hv_part env) (hv_clock env (hs_tick s + 2)) (hv_uuid env (hs_tick s + 2)) d2 = Inr (registry, d3)"
      and plan: "planRequest env schema registry v' frames (s\<lparr>hs_tick := hs_tick s + 2, hs_db := d3\<rparr>) = (Inr plan, s1)"
    have "db_clients d3 = db_clients (hs_db s)" using run assms(1) by (auto simp: alone_def touchPartition_def Let_def split: if_splits)
    then have rec: "getClientRecord (hv_other env n d3) (hv_part env) (rqh_clientId header) = Some r" for n
      using assms(1,3) by (simp add: alone_def getClientRecord_def)
    from plan show ?thesis
    proof (cases rule: plan_cases)
      case (normal header' rest' validated resolved lease)
      then have "header' = header" using dec assms(2) by simp
      then show ?thesis using normal(2) rec assms(4) by (auto simp: admitted_def refresh_def)
    qed (simp_all add: header_plan_def)
  qed
  have "length (response_frames env bytes s) \<le> 1"
  proof (cases "\<exists>schema plan s1 out s2. createStreamCore env bytes s = (Inr (schema, plan), s1) \<and> streamResponse env schema plan s1 = (Inr out, s2)")
    case True
    then obtain schema plan s1 out s2 where run: "createStreamCore env bytes s = (Inr (schema, plan), s1)" "streamResponse env schema plan s1 = (Inr out, s2)" by blast
    have "response_of schema plan (map fst out)" using streamResponse_frames [OF run(2)] by blast
    then have "map fst out = [response_header schema plan]" using header [OF run(1)] by (auto elim: response_of.cases)
    then show ?thesis using run by (simp add: response_frames_def)
  qed (auto simp: response_frames_def split: sum.splits prod.splits)
  then show ?thesis using unanswered_state [OF assms(1), of bytes s] header by blast
qed

definition hp_foreign :: ClientRecord where
  "hp_foreign = \<lparr>cl_clientId = js ''c'', cl_actorId = js ''b'', cl_wireVersion = 1, cl_cursor = 0, cl_updatedAtMs = 0, cl_subscriptions = []\<rparr>"

theorem foreign_client_refused_witness:
  "same_but_registry (putClientRecord (js ''p'') hp_foreign sample_db)
     (hs_db (snd (handleSyncRequest (hp_env (Allowed []) (\<lambda>_ d. d)) hp_bytes (hp_state (putClientRecord (js ''p'') hp_foreign sample_db) hp_no_leases))))"
proof -
  let ?s = "hp_state (putClientRecord (js ''p'') hp_foreign sample_db) hp_no_leases"
  have "getClientRecord (hs_db ?s) (js ''p'') (js ''c'') = Some hp_foreign" "cl_actorId hp_foreign \<noteq> js ''a''" "rqh_clientId hp_header = js ''c''"
    by (simp_all add: hp_state_def putClientRecord_def sample_db_def empty_db_def getClientRecord_def find_by_def hp_foreign_def js_def hp_header_def
        delete_where_def)
  moreover have "alone (hp_env (Allowed []) (\<lambda>_ d. d))" by (simp add: alone_def)
  moreover have "decodeMessage hp_bytes = Inr (RequestMessage 1 (ReqHeader hp_header # tl hp_frames))" using hp_decodes hp_frames_parts(4) by simp
  ultimately have "same_but_registry (hs_db ?s) (hs_db (snd (handleSyncRequest (hp_env (Allowed []) (\<lambda>_ d. d)) hp_bytes ?s)))"
    using foreign_client_refused [of "hp_env (Allowed []) (\<lambda>_ d. d)" hp_bytes 1 hp_header "tl hp_frames" ?s hp_foreign] by simp
  then show ?thesis by (simp add: hp_state_def)
qed

text \<open>C35. The binding of a client id is checked and not enforced. A request that gets past the check at
  its start ends by writing its own actor into the client record, whatever the record says by
  then: an id that another actor bound while the request ran is taken over.\<close>

theorem client_id_taken_over:
  assumes "handleSyncRequest env bytes s = (Inr b, s')" and "createStreamCore env bytes s = (Inr (schema, plan), s1)"
    and "\<not> qp_schemaFloor plan" "\<not> qp_epochReset plan"
  shows "\<exists>r. getClientRecord (hs_db s') (hv_part env) (rqh_clientId (qp_header plan)) = Some r \<and> cl_actorId r = hv_actorId env"
proof -
  have get: "getClientRecord (putClientRecord p c d) p (cl_clientId c) = Some c" for p c d
  proof -
    have "find_by (\<lambda>(p, c). (p, cl_clientId c)) (p, cl_clientId c) (delete_where (\<lambda>(q, x). q = p \<and> cl_clientId x = cl_clientId c) xs @ [(p, c)]) = Some (p, c)"
      for xs by (induction xs) (auto simp: find_by_def delete_where_def)
    then show ?thesis by (simp add: getClientRecord_def putClientRecord_def)
  qed
  obtain cursors s2 where "s' = putRecord env plan cursors s2"
    using assms by (auto simp: handleSyncRequest_def streamResponse_def split: sum.splits prod.splits)
  then show ?thesis
    using get [of "hv_part env" "next_record env plan cursors _ _"] by (simp add: putRecord_def Let_def next_record_def)
qed

text \<open>The actor \<open>b\<close> binds the id before the fourth access, right after the check.\<close>

definition hp_racer :: "nat \<Rightarrow> db \<Rightarrow> db" where
  "hp_racer n d = (if n = 3 then putClientRecord (js ''p'') hp_foreign d else d)"

theorem client_id_taken_over_witness:
  "\<exists>b s' r r'. handleSyncRequest (hp_env (Allowed []) hp_racer) hp_bytes (hp_state sample_db hp_no_leases) = (Inr b, s') \<and>
     getClientRecord (hp_racer 3 sample_db) (js ''p'') (js ''c'') = Some r \<and> cl_actorId r = js ''b'' \<and>
     getClientRecord (hs_db s') (js ''p'') (js ''c'') = Some r' \<and> cl_actorId r' = js ''a''"
proof -
  let ?e = "hp_env (Allowed []) hp_racer" and ?p = "hp_plan (ResolvedOk []) (Some hp_lease)"
  have d: "hp_racer 0 sample_db = sample_db" "hp_racer 1 sample_db = sample_db" "db_registry sample_db = []"
    "getClientRecord (hp_racer 2 (sample_db\<lparr>db_registry := [hp_registry]\<rparr>)) (js ''p'') (js ''c'') = None"
    "getClientRecord (hp_racer 3 sample_db) (js ''p'') (js ''c'') = Some hp_foreign" "cl_actorId hp_foreign = js ''b''"
    by (simp_all add: hp_racer_def sample_db_def empty_db_def getClientRecord_def find_by_def putClientRecord_def hp_foreign_def delete_where_def)
  obtain b s' where run: "handleSyncRequest ?e hp_bytes (hp_state sample_db hp_no_leases) = (Inr b, s')"
    by (rule hp_handled [of hp_racer sample_db, OF d(1-4)]) blast
  obtain s1 where core: "createStreamCore ?e hp_bytes (hp_state sample_db hp_no_leases) = (Inr (sample_compiled, ?p), s1)"
    by (rule hp_handled_core [of hp_racer sample_db, OF d(1-4)])
  have "\<not> qp_schemaFloor ?p" "\<not> qp_epochReset ?p" "rqh_clientId (qp_header ?p) = js ''c''" by (simp_all add: hp_plan_def hp_header_def)
  then show ?thesis using client_id_taken_over [OF run core] run d(5,6) by auto
qed

text \<open>C14. A request keeps the storage invariant, however it ends and wherever it fails, when the other
  requests that run between its accesses and the migration of the schema keep it.\<close>

theorem request_keeps_storage:
  assumes "\<And>n d. storage_ok d \<Longrightarrow> storage_ok (hv_other env n d)"
    and "\<And>schema d d'. storage_ok d \<Longrightarrow> hv_ensureSchema env schema d = Inr d' \<Longrightarrow> storage_ok d'"
    and "storage_ok (hs_db s)"
  shows "storage_ok (hs_db (snd (handleSyncRequest env bytes s)))"
  using kept_handled [of env storage_ok s bytes] kept_storage_ok [of env] assms by blast

theorem request_keeps_storage_witness:
  "storage_ok (hs_db (snd (handleSyncRequest (hp_env (Allowed []) hp_racer) hp_bytes (hp_state sample_db hp_no_leases))))"
  by (rule request_keeps_storage) (auto simp: hp_racer_def storage_ok_client sample_ok hp_state_def split: if_splits)

section \<open>Leases\<close>



end
