(* ===== verification/Blob_Store.thy ===== *)
theory Blob_Store
  imports Handler Blob_Ref
begin

text \<open>
  File attachments: the stores in memory (\<open>server/src/blob-store.ts\<close>) and over SQLite
  (\<open>sqlite-blob-store.ts\<close>), the orphan sweep, and the upload, download and grant handlers
  (\<open>blob-handlers.ts\<close>) with the issuing of presigned URLs (\<open>signed-url.ts\<close>). The locale
  \<open>blob_store\<close> states what the handlers and the sweep rely on; both stores are interpretations of
  it. SHA-256 and the presigners are parameters; events are left out.
\<close>

record BlobRecord =
  bb_blobId :: jsstring
  bb_partition :: jsstring
  bb_byteLength :: int
  bb_mediaType :: "jsstring option"
  bb_createdAtMs :: int

definition blobIdFor :: "(byte list \<Rightarrow> byte list) \<Rightarrow> byte list \<Rightarrow> jsstring" where
  "blobIdFor sha256 bytes = js ''sha256:'' @ sha256Hex sha256 bytes"

definition isBlobId :: "jsstring \<Rightarrow> bool" where
  "isBlobId value = BLOB_ID_RE value"

definition new_blob :: "jsstring \<Rightarrow> jsstring \<Rightarrow> byte list \<Rightarrow> int \<Rightarrow> jsstring option \<Rightarrow> BlobRecord" where
  "new_blob part blobId bytes nowMs mediaType = \<lparr>bb_blobId = blobId, bb_partition = part, bb_byteLength = int (length bytes),
     bb_mediaType = mediaType, bb_createdAtMs = nowMs\<rparr>"

section \<open>The store in memory\<close>

type_synonym MemoryBlobStore = "(jsstring \<times> BlobRecord \<times> byte list) list"

definition blob_key :: "jsstring \<Rightarrow> jsstring \<Rightarrow> jsstring" where
  "blob_key part blobId = part @ [0] @ blobId"

definition mb_get :: "MemoryBlobStore \<Rightarrow> jsstring \<Rightarrow> jsstring \<Rightarrow> (BlobRecord \<times> byte list) option" where
  "mb_get store part blobId = map_of store (blob_key part blobId)"

definition mb_has :: "MemoryBlobStore \<Rightarrow> jsstring \<Rightarrow> jsstring \<Rightarrow> bool" where
  "mb_has store part blobId \<longleftrightarrow> mb_get store part blobId \<noteq> None"

definition mb_put :: "jsstring \<Rightarrow> jsstring \<Rightarrow> byte list \<Rightarrow> int \<Rightarrow> jsstring option \<Rightarrow> MemoryBlobStore \<Rightarrow> BlobRecord \<times> MemoryBlobStore" where
  "mb_put part blobId bytes nowMs mediaType store =
     (case mb_get store part blobId of
        Some (r, _) \<Rightarrow> (r, store)
      | None \<Rightarrow> (let r = new_blob part blobId bytes nowMs mediaType in
                 (r, AList.update (blob_key part blobId) (r, bytes) store)))"

definition mb_orphan :: "jsstring \<Rightarrow> int \<Rightarrow> jsstring list \<Rightarrow> BlobRecord \<Rightarrow> bool" where
  "mb_orphan part olderThanMs referenced r \<longleftrightarrow>
     bb_partition r = part \<and> bb_createdAtMs r < olderThanMs \<and> bb_blobId r \<notin> set referenced"

definition mb_sweepOrphans :: "jsstring \<Rightarrow> int \<Rightarrow> jsstring list \<Rightarrow> MemoryBlobStore \<Rightarrow> jsstring list \<times> MemoryBlobStore" where
  "mb_sweepOrphans part olderThanMs referenced store =
     (map (\<lambda>(key, r, bytes). bb_blobId r) (filter (\<lambda>(key, r, bytes). mb_orphan part olderThanMs referenced r) store),
      filter (\<lambda>(key, r, bytes). \<not> mb_orphan part olderThanMs referenced r) store)"

definition mb_stats :: "MemoryBlobStore \<Rightarrow> jsstring \<Rightarrow> int \<times> int" where
  "mb_stats store part = fold (\<lambda>(key, r, bytes) (count, total).
     if bb_partition r = part then (count + 1, total + bb_byteLength r) else (count, total)) store (0, 0)"

section \<open>The store over SQLite\<close>

type_synonym SqliteBlobStore = "(jsstring \<times> jsstring \<times> BlobRecord \<times> byte list) list"

definition qb_key :: "jsstring \<times> jsstring \<times> BlobRecord \<times> byte list \<Rightarrow> jsstring \<times> jsstring" where
  "qb_key = (\<lambda>(part, blobId, r, bytes). (part, blobId))"

definition qb_get :: "SqliteBlobStore \<Rightarrow> jsstring \<Rightarrow> jsstring \<Rightarrow> (BlobRecord \<times> byte list) option" where
  "qb_get store part blobId = map_option (\<lambda>(p, b, r, bytes). (r\<lparr>bb_partition := part, bb_blobId := blobId\<rparr>, bytes))
     (find_by qb_key (part, blobId) store)"

definition qb_has :: "SqliteBlobStore \<Rightarrow> jsstring \<Rightarrow> jsstring \<Rightarrow> bool" where
  "qb_has store part blobId \<longleftrightarrow> find_by qb_key (part, blobId) store \<noteq> None"

definition qb_put :: "jsstring \<Rightarrow> jsstring \<Rightarrow> byte list \<Rightarrow> int \<Rightarrow> jsstring option \<Rightarrow> SqliteBlobStore \<Rightarrow> BlobRecord \<times> SqliteBlobStore" where
  "qb_put part blobId bytes nowMs mediaType store =
     (case qb_get store part blobId of
        Some (r, _) \<Rightarrow> (r, store)
      | None \<Rightarrow> (let r = new_blob part blobId bytes nowMs mediaType in
                 (r, insert_or_ignore qb_key (part, blobId, r, bytes) store)))"

definition qb_sweepOrphans :: "jsstring \<Rightarrow> int \<Rightarrow> jsstring list \<Rightarrow> SqliteBlobStore \<Rightarrow> jsstring list \<times> SqliteBlobStore" where
  "qb_sweepOrphans part olderThanMs referenced store =
     (let candidates = map (\<lambda>(p, b, r, bytes). b) (filter (\<lambda>(p, b, r, bytes). p = part \<and> bb_createdAtMs r < olderThanMs) store);
          swept = filter (\<lambda>b. b \<notin> set referenced) candidates in
      (swept, fold (\<lambda>blobId. delete_where (\<lambda>x. qb_key x = (part, blobId))) swept store))"

definition qb_stats :: "SqliteBlobStore \<Rightarrow> jsstring \<Rightarrow> int \<times> int" where
  "qb_stats store part = (let rows = filter (\<lambda>(p, b, r, bytes). p = part) store in
     (int (length rows), sum_list (map (\<lambda>(p, b, r, bytes). bb_byteLength r) rows)))"

section \<open>The interface\<close>

text \<open>\<open>ok\<close> is the invariant of the store; blob ids are those the handlers let through.\<close>

locale blob_store =
  fixes get :: "'s \<Rightarrow> jsstring \<Rightarrow> jsstring \<Rightarrow> (BlobRecord \<times> byte list) option"
    and has :: "'s \<Rightarrow> jsstring \<Rightarrow> jsstring \<Rightarrow> bool"
    and put :: "jsstring \<Rightarrow> jsstring \<Rightarrow> byte list \<Rightarrow> int \<Rightarrow> jsstring option \<Rightarrow> 's \<Rightarrow> BlobRecord \<times> 's"
    and sweep :: "jsstring \<Rightarrow> int \<Rightarrow> jsstring list \<Rightarrow> 's \<Rightarrow> jsstring list \<times> 's"
    and ok :: "'s \<Rightarrow> bool"
  assumes has_get: "has s p b \<longleftrightarrow> get s p b \<noteq> None"
    and ok_put: "ok s \<Longrightarrow> isBlobId b \<Longrightarrow> ok (snd (put p b bytes now media s))"
    and ok_sweep: "ok s \<Longrightarrow> ok (snd (sweep p older refs s))"
    and get_put: "ok s \<Longrightarrow> isBlobId b \<Longrightarrow> isBlobId c \<Longrightarrow> get (snd (put p b bytes now media s)) q c =
      (if (q, c) = (p, b) \<and> get s p b = None then Some (new_blob p b bytes now media, bytes) else get s q c)"
    and get_sweep: "ok s \<Longrightarrow> isBlobId c \<Longrightarrow> get (snd (sweep p older refs s)) q c =
      (if q = p \<and> c \<notin> set refs \<and> (\<exists>r bytes. get s p c = Some (r, bytes) \<and> bb_createdAtMs r < older) then None else get s q c)"
begin

text \<open>Bytes are kept under their hash.\<close>

definition addressed :: "(byte list \<Rightarrow> byte list) \<Rightarrow> 's \<Rightarrow> bool" where
  "addressed sha256 s \<longleftrightarrow> ok s \<and> (\<forall>q c r bytes. isBlobId c \<longrightarrow> get s q c = Some (r, bytes) \<longrightarrow> blobIdFor sha256 bytes = c)"

lemma addressed_put:
  "addressed sha256 s \<Longrightarrow> isBlobId b \<Longrightarrow> blobIdFor sha256 bytes = b \<Longrightarrow> addressed sha256 (snd (put p b bytes now media s))"
  by (auto simp: addressed_def ok_put get_put split: if_splits)

lemma addressed_sweep: "addressed sha256 s \<Longrightarrow> addressed sha256 (snd (sweep p older refs s))"
  by (auto simp: addressed_def ok_sweep get_sweep split: if_splits)

lemma kept_referenced: "ok s \<Longrightarrow> isBlobId c \<Longrightarrow> c \<in> set refs \<Longrightarrow> get (snd (sweep p older refs s)) p c = get s p c"
  by (simp add: get_sweep)

text \<open>An upload of bytes that are there already does not renew them.\<close>

lemma stale_upload:
  assumes "ok s" "isBlobId b" "get s p b = Some (r, bytes0)" "bb_createdAtMs r < older" "b \<notin> set refs"
  shows "get (snd (sweep p older refs (snd (put p b bytes now media s)))) p b = None"
  using assms by (simp add: get_sweep get_put ok_put)

end

section \<open>The two stores\<close>

lemma blob_id_length: "isBlobId b \<Longrightarrow> length b = 71"
  by (auto simp: isBlobId_def BLOB_ID_RE_def js_def)

lemma blob_key_inj: "isBlobId b \<Longrightarrow> isBlobId c \<Longrightarrow> blob_key p b = blob_key q c \<longleftrightarrow> p = q \<and> b = c"
  by (auto simp: blob_key_def append_eq_append_conv dest!: blob_id_length)

text \<open>Every entry of the store in memory is filed under its own record.\<close>

definition mb_ok :: "MemoryBlobStore \<Rightarrow> bool" where
  "mb_ok store \<longleftrightarrow> distinct (map fst store) \<and>
     list_all (\<lambda>(key, r, bytes). key = blob_key (bb_partition r) (bb_blobId r) \<and> isBlobId (bb_blobId r)) store"

lemma map_of_filter_values:
  "distinct (map fst xs) \<Longrightarrow> map_of (filter (\<lambda>(k, v). P v) xs) k = (case map_of xs k of None \<Rightarrow> None | Some v \<Rightarrow> if P v then Some v else None)"
proof (induction xs)
  case (Cons x xs)
  have "map_of xs (fst x) = None" using Cons.prems by (auto simp: map_of_eq_None_iff)
  then show ?case using Cons by (cases x) auto
qed simp

lemma mb_entry:
  "mb_ok s \<Longrightarrow> isBlobId c \<Longrightarrow> mb_get s q c = Some (r, bytes) \<Longrightarrow> bb_partition r = q \<and> bb_blobId r = c"
  unfolding mb_ok_def mb_get_def using blob_key_inj by (fastforce simp: list_all_iff dest!: map_of_SomeD)

lemma mb_orphan_get:
  assumes "mb_ok s" "isBlobId c"
  shows "mb_get (snd (mb_sweepOrphans p older refs s)) q c =
    (if q = p \<and> c \<notin> set refs \<and> (\<exists>r bytes. mb_get s p c = Some (r, bytes) \<and> bb_createdAtMs r < older) then None else mb_get s q c)"
proof -
  have "mb_get (snd (mb_sweepOrphans p older refs s)) q c =
      (case mb_get s q c of None \<Rightarrow> None | Some v \<Rightarrow> if \<not> mb_orphan p older refs (fst v) then Some v else None)"
    using map_of_filter_values [of s "\<lambda>v. \<not> mb_orphan p older refs (fst v)"] assms(1)
    by (simp add: mb_get_def mb_sweepOrphans_def case_prod_unfold mb_ok_def)
  then show ?thesis
    using mb_entry [OF assms, of q] by (cases "mb_get s q c") (auto simp: mb_orphan_def)
qed

lemma mb_put_ok:
  assumes "mb_ok s" "isBlobId b"
  shows "mb_ok (snd (mb_put p b bytes now media s))"
proof (cases "mb_get s p b")
  case None
  then have new: "blob_key p b \<notin> fst ` set s" by (simp add: mb_get_def map_of_eq_None_iff)
  then have "AList.update (blob_key p b) v s = s @ [(blob_key p b, v)]" for v by (induction s) auto
  then show ?thesis using assms new None by (auto simp: mb_put_def mb_ok_def Let_def new_blob_def)
qed (use assms in \<open>auto simp: mb_put_def\<close>)

interpretation mb: blob_store mb_get mb_has mb_put mb_sweepOrphans mb_ok
proof unfold_locales
  fix s p b q c bytes now media assume "mb_ok s" "isBlobId b" "isBlobId c"
  then show "mb_get (snd (mb_put p b bytes now media s)) q c =
      (if (q, c) = (p, b) \<and> mb_get s p b = None then Some (new_blob p b bytes now media, bytes) else mb_get s q c)"
    by (cases "mb_get s p b") (auto simp: mb_put_def Let_def mb_get_def update_conv' blob_key_inj)
next
  fix s p older refs assume "mb_ok s"
  then show "mb_ok (snd (mb_sweepOrphans p older refs s))"
    by (auto simp: mb_ok_def mb_sweepOrphans_def list_all_iff distinct_map_filter)
qed (simp_all add: mb_has_def mb_put_ok mb_orphan_get)

definition qb_ok :: "SqliteBlobStore \<Rightarrow> bool" where
  "qb_ok store \<longleftrightarrow> distinct (map qb_key store)"

lemma fold_delete: "fold (\<lambda>b. delete_where (\<lambda>x. key x = f b)) bs xs = delete_where (\<lambda>x. key x \<in> f ` set bs) xs"
  by (induction bs arbitrary: xs) (auto simp: delete_where_def intro!: filter_cong)

lemma find_by_delete: "find_by key k (delete_where (\<lambda>x. key x \<in> K) xs) = (if k \<in> K then None else find_by key k xs)"
  by (induction xs) (auto simp: delete_where_def find_by_Cons)

interpretation qb: blob_store qb_get qb_has qb_put qb_sweepOrphans qb_ok
proof unfold_locales
  fix s p b bytes now media assume "qb_ok s"
  then show "qb_ok (snd (qb_put p b bytes now media s))"
    by (auto simp: qb_put_def Let_def qb_ok_def insert_or_ignore_def find_by_None_iff split: option.split)
next
  fix s p b q c bytes now media
  show "qb_get (snd (qb_put p b bytes now media s)) q c =
      (if (q, c) = (p, b) \<and> qb_get s p b = None then Some (new_blob p b bytes now media, bytes) else qb_get s q c)"
    by (cases "find_by qb_key (p, b) s")
       (auto simp: qb_put_def qb_get_def Let_def insert_or_ignore_def find_by_append find_by_Cons qb_key_def new_blob_def split: option.split)
next
  fix s p q c older refs assume ok: "qb_ok s"
  have "c \<in> set (fst (qb_sweepOrphans p older refs s)) \<longleftrightarrow> c \<notin> set refs \<and> (\<exists>r bytes. (p, c, r, bytes) \<in> set s \<and> bb_createdAtMs r < older)"
    by (auto simp: qb_sweepOrphans_def Let_def image_iff Bex_def)
  also have "\<dots> \<longleftrightarrow> c \<notin> set refs \<and> (\<exists>r bytes. qb_get s p c = Some (r, bytes) \<and> bb_createdAtMs r < older)"
  proof (cases "find_by qb_key (p, c) s")
    case None
    then show ?thesis using find_by_None_iff [of qb_key "(p, c)" s] by (force simp: qb_get_def qb_key_def)
  next
    case (Some x)
    obtain r bytes where x: "x = (p, c, r, bytes)" using find_by_SomeD [OF Some] by (auto simp: qb_key_def split: prod.splits)
    then have "(p, c, r', bytes') \<in> set s \<longleftrightarrow> (r', bytes') = (r, bytes)" for r' bytes'
      using ok Some find_by_Some_iff [of qb_key s "(p, c)" "(p, c, r', bytes')"] by (auto simp: qb_ok_def qb_key_def)
    then show ?thesis using Some x by (auto simp: qb_get_def)
  qed
  finally have swept: "c \<in> set (fst (qb_sweepOrphans p older refs s)) \<longleftrightarrow>
      c \<notin> set refs \<and> (\<exists>r bytes. qb_get s p c = Some (r, bytes) \<and> bb_createdAtMs r < older)" .
  have "snd (qb_sweepOrphans p older refs s) = delete_where (\<lambda>x. qb_key x \<in> Pair p ` set (fst (qb_sweepOrphans p older refs s))) s"
    by (simp add: qb_sweepOrphans_def Let_def fold_delete)
  then have "qb_get (snd (qb_sweepOrphans p older refs s)) q c = (if q = p \<and> c \<in> set (fst (qb_sweepOrphans p older refs s)) then None else qb_get s q c)"
    by (auto simp: qb_get_def find_by_delete)
  then show "qb_get (snd (qb_sweepOrphans p older refs s)) q c =
      (if q = p \<and> c \<notin> set refs \<and> (\<exists>r bytes. qb_get s p c = Some (r, bytes) \<and> bb_createdAtMs r < older) then None else qb_get s q c)"
    unfolding swept .
qed (auto simp: qb_has_def qb_get_def qb_ok_def qb_sweepOrphans_def Let_def fold_delete delete_where_def distinct_map_filter)

end
