(* ===== verification/Blob_Handlers.thy ===== *)
theory Blob_Handlers
  imports Blob_Store
begin

text \<open>
  The handlers of blob uploads, downloads and upload grants (\<open>server/src/blob-handlers.ts\<close>), the
  orphan sweep (\<open>sweepOrphanBlobs\<close>) and the issuing of presigned blob URLs (\<open>signed-url.ts\<close>). The
  context of a request is that of theory \<open>Handler\<close> with the blob settings added; the resolver is
  called without a client id, so its answer is a field of its own.
\<close>

section \<open>Context\<close>

record 'b blob_config =
  bo_put :: "jsstring \<Rightarrow> jsstring \<Rightarrow> byte list \<Rightarrow> int \<Rightarrow> jsstring option \<Rightarrow> 'b \<Rightarrow> BlobRecord \<times> 'b"
  bo_has :: "'b \<Rightarrow> jsstring \<Rightarrow> jsstring \<Rightarrow> bool"
  bo_get :: "'b \<Rightarrow> jsstring \<Rightarrow> jsstring \<Rightarrow> (BlobRecord \<times> byte list) option"

record BlobPresignConfig =
  bp_presign :: "jsstring \<Rightarrow> jsstring \<Rightarrow> int \<Rightarrow> int \<Rightarrow> jsstring \<times> int"
  bp_ttlSeconds :: "int option"

record BlobUploadPresignConfig =
  bu_presign :: "jsstring \<Rightarrow> jsstring \<Rightarrow> int \<Rightarrow> int \<Rightarrow> int \<Rightarrow> jsstring \<times> int"
  bu_ttlSeconds :: "int option"

record ('s, 'b) blob_env = "'s handler_env" +
  bv_blobs :: "'b blob_config option"
  bv_maxBlobBytes :: "int option"
  bv_sha256 :: "byte list \<Rightarrow> byte list"
  bv_answer :: resolver_answer
  bv_indexed :: bool
  bv_signedUrls :: "BlobPresignConfig option"
  bv_uploadUrls :: "BlobUploadPresignConfig option"

record ('s, 'b) blob_state = "'s handler_state" +
  bs_blobs :: 'b

definition DEFAULT_MAX_BLOB_BYTES :: int where "DEFAULT_MAX_BLOB_BYTES = 64 * 1024 * 1024"

definition touchAuthenticatedPartition ::
    "('s, 'a) handler_env_scheme \<Rightarrow> ('s, 'c) handler_state_scheme \<Rightarrow> (HandlerError + PartitionRegistryEntry) \<times> ('s, 'c) handler_state_scheme" where
  "touchAuthenticatedPartition env s =
     (let s1 = refresh env s in
      case touchPartition (hv_part env) (hv_clock env (hs_tick s1)) (hv_uuid env (hs_tick s1)) (hs_db s1) of
        Inl e \<Rightarrow> (Inl (ThrownStorage e), s1)
      | Inr (entry, d) \<Rightarrow> (Inr entry, s1\<lparr>hs_db := d\<rparr>))"

section \<open>Presigned URLs\<close>

definition issueBlobUrl :: "BlobPresignConfig \<Rightarrow> jsstring \<Rightarrow> jsstring \<Rightarrow> int \<Rightarrow> jsstring \<times> int" where
  "issueBlobUrl config part blobId nowMs = bp_presign config part blobId nowMs (case bp_ttlSeconds config of None \<Rightarrow> 900 | Some t \<Rightarrow> t)"

definition issueBlobUploadUrl :: "BlobUploadPresignConfig \<Rightarrow> jsstring \<Rightarrow> jsstring \<Rightarrow> int \<Rightarrow> int \<Rightarrow> jsstring \<times> int" where
  "issueBlobUploadUrl config part blobId byteLength nowMs =
     bu_presign config part blobId byteLength nowMs (case bu_ttlSeconds config of None \<Rightarrow> 900 | Some t \<Rightarrow> t)"

section \<open>Upload\<close>

definition handleBlobUpload ::
    "('s, 'b) blob_env \<Rightarrow> jsstring \<Rightarrow> byte list \<Rightarrow> jsstring option \<Rightarrow> ('s, 'b) blob_state \<Rightarrow> (HandlerError + unit) \<times> ('s, 'b) blob_state" where
  "handleBlobUpload env blobId bytes mediaType s =
     (case touchAuthenticatedPartition env s of
        (Inl e, s1) \<Rightarrow> (Inl e, s1)
      | (Inr _, s1) \<Rightarrow>
          (case bv_blobs env of
             None \<Rightarrow> (Inl (SyncErr (js ''blob.not_found'')), s1)
           | Some store \<Rightarrow>
               if \<not> isBlobId blobId then (Inl (SyncErr (js ''blob.hash_mismatch'')), s1)
               else if int (length bytes) > (case bv_maxBlobBytes env of None \<Rightarrow> DEFAULT_MAX_BLOB_BYTES | Some n \<Rightarrow> n)
               then (Inl (SyncErr (js ''blob.too_large'')), s1)
               else if blobIdFor (bv_sha256 env) bytes \<noteq> blobId then (Inl (SyncErr (js ''blob.hash_mismatch'')), s1)
               else (Inr (), s1\<lparr>bs_blobs := snd (bo_put store (hv_part env) blobId bytes (hv_clock env (hs_tick s1)) mediaType (bs_blobs s1))\<rparr>)))"

section \<open>Download\<close>

record BlobDownloadResult =
  bd_bytes :: "byte list option"
  bd_headers :: "(jsstring \<times> jsstring) list"
  bd_url :: "(jsstring \<times> int) option"

definition blob_headers :: "jsstring \<Rightarrow> (jsstring \<times> jsstring) list" where
  "blob_headers blobId = [(js ''ETag'', [34] @ blobId @ [34]), (js ''Cache-Control'', js ''private, max-age=0''),
     (js ''Vary'', js ''Authorization, Accept-Encoding'')]"

text \<open>The bytes found, or \<open>None\<close> when the client is sent to a presigned URL; \<open>Inl\<close> for an unknown blob.\<close>

definition find_blob :: "('s, 'b, 'm) blob_env_scheme \<Rightarrow> 'b blob_config \<Rightarrow> jsstring \<Rightarrow> 'b \<Rightarrow> HandlerError + (BlobRecord \<times> byte list) option" where
  "find_blob env store blobId blobs =
     (case bv_signedUrls env of
        Some _ \<Rightarrow> if bo_has store blobs (hv_part env) blobId then Inr None else Inl (SyncErr (js ''blob.not_found''))
      | None \<Rightarrow> (case bo_get store blobs (hv_part env) blobId of
            None \<Rightarrow> Inl (SyncErr (js ''blob.not_found'')) | Some entry \<Rightarrow> Inr (Some entry)))"

definition references_allow :: "CompiledSchema \<Rightarrow> ResolvedScopes \<Rightarrow> (jsstring \<times> jsstring \<times> StoredScopes) list \<Rightarrow> bool" where
  "references_allow schema resolved rows =
     list_ex (\<lambda>(t, r, scopes). case map_of (cs_tables schema) t of None \<Rightarrow> False | Some table \<Rightarrow> authorizeWrite table scopes resolved) rows"

definition downloadBlob ::
    "('s, 'b) blob_env \<Rightarrow> jsstring \<Rightarrow> ('s, 'b) blob_state \<Rightarrow> (HandlerError + BlobDownloadResult) \<times> ('s, 'b) blob_state" where
  "downloadBlob env blobId s =
     (case bv_blobs env of
        None \<Rightarrow> (Inl (SyncErr (js ''blob.not_found'')), s)
      | Some store \<Rightarrow>
          if \<not> isBlobId blobId then (Inl (SyncErr (js ''blob.not_found'')), s)
          else (case find_blob env store blobId (bs_blobs s) of
              Inl e \<Rightarrow> (Inl e, s)
            | Inr entry \<Rightarrow>
                if \<not> bv_indexed env then (Inl (SyncErr (js ''blob.forbidden'')), s)
                else (case bv_answer env of
                    Allowed allowed \<Rightarrow>
                      (case compileSchema (hv_schema env) of
                         Inl e \<Rightarrow> (Inl (ThrownSchema e), s)
                       | Inr schema \<Rightarrow>
                           (let s1 = refresh env s in
                            case hv_ensureSchema env schema (hs_db s1) of
                              Inl e \<Rightarrow> (Inl (ThrownStorage e), s1)
                            | Inr d \<Rightarrow>
                                (let s2 = refresh env (s1\<lparr>hs_db := d\<rparr>) in
                                 if \<not> references_allow schema (ResolvedOk allowed) (listRowsReferencingBlob (hs_db s2) (hv_part env) blobId)
                                 then (Inl (SyncErr (js ''blob.forbidden'')), s2)
                                 else (case bv_signedUrls env of
                                     Some config \<Rightarrow>
                                       (Inr \<lparr>bd_bytes = None, bd_headers = blob_headers blobId,
                                          bd_url = Some (issueBlobUrl config (hv_part env) blobId (hv_clock env (hs_tick s2)))\<rparr>, s2)
                                   | None \<Rightarrow>
                                       (case entry of
                                          None \<Rightarrow> (Inl (SyncErr (js ''blob.not_found'')), s2)
                                        | Some (r, bytes) \<Rightarrow>
                                            (Inr \<lparr>bd_bytes = Some bytes,
                                               bd_headers = (js ''Content-Type'', case bb_mediaType r of None \<Rightarrow> js ''application/octet-stream'' | Some m \<Rightarrow> m)
                                                 # blob_headers blobId,
                                               bd_url = None\<rparr>, s2))))))
                  | _ \<Rightarrow> (Inl (SyncErr (js ''blob.forbidden'')), s))))"

definition handleBlobDownload ::
    "('s, 'b) blob_env \<Rightarrow> jsstring \<Rightarrow> ('s, 'b) blob_state \<Rightarrow> (HandlerError + BlobDownloadResult) \<times> ('s, 'b) blob_state" where
  "handleBlobDownload env blobId s =
     (case touchAuthenticatedPartition env s of (Inl e, s1) \<Rightarrow> (Inl e, s1) | (Inr _, s1) \<Rightarrow> downloadBlob env blobId s1)"

section \<open>Upload grants\<close>

datatype BlobUploadGrantResult = GrantUrl jsstring int | GrantPresent | GrantNone

text \<open>\<open>byteLength\<close> is \<open>None\<close> when the declared number is not an integer.\<close>

definition handleBlobUploadGrant ::
    "('s, 'b) blob_env \<Rightarrow> jsstring \<Rightarrow> int option \<Rightarrow> ('s, 'b) blob_state \<Rightarrow> (HandlerError + BlobUploadGrantResult) \<times> ('s, 'b) blob_state" where
  "handleBlobUploadGrant env blobId byteLength s =
     (case touchAuthenticatedPartition env s of
        (Inl e, s1) \<Rightarrow> (Inl e, s1)
      | (Inr _, s1) \<Rightarrow>
          (case bv_blobs env of
             None \<Rightarrow> (Inl (SyncErr (js ''blob.not_found'')), s1)
           | Some store \<Rightarrow>
               if \<not> isBlobId blobId then (Inl (SyncErr (js ''blob.hash_mismatch'')), s1)
               else (case byteLength of
                   None \<Rightarrow> (Inl (SyncErr (js ''blob.too_large'')), s1)
                 | Some n \<Rightarrow>
                     if n < 0 \<or> n > (case bv_maxBlobBytes env of None \<Rightarrow> DEFAULT_MAX_BLOB_BYTES | Some m \<Rightarrow> m)
                     then (Inl (SyncErr (js ''blob.too_large'')), s1)
                     else (case bv_uploadUrls env of
                         None \<Rightarrow> (Inr GrantNone, s1)
                       | Some config \<Rightarrow>
                           if bo_has store (bs_blobs s1) (hv_part env) blobId then (Inr GrantPresent, s1)
                           else (case issueBlobUploadUrl config (hv_part env) blobId n (hv_clock env (hs_tick s1)) of
                               (url, expires) \<Rightarrow> (Inr (GrantUrl url expires), s1))))))"

section \<open>The orphan sweep\<close>

definition DEFAULT_SWEEP_GRACE_MS :: int where "DEFAULT_SWEEP_GRACE_MS = 24 * 60 * 60 * 1000"

text \<open>\<open>d\<close> is the database when the references are read; they are read before the store is swept.\<close>

definition sweepOrphanBlobs ::
    "(jsstring \<Rightarrow> int \<Rightarrow> jsstring list \<Rightarrow> 'b \<Rightarrow> jsstring list \<times> 'b) \<Rightarrow> jsstring \<Rightarrow> int option \<Rightarrow> int \<Rightarrow> db \<Rightarrow> 'b \<Rightarrow> jsstring list \<times> nat \<times> 'b" where
  "sweepOrphanBlobs sweepOrphans part graceMs nowMs d blobs =
     (let olderThanMs = nowMs - (case graceMs of None \<Rightarrow> DEFAULT_SWEEP_GRACE_MS | Some g \<Rightarrow> g);
          referenced = listReferencedBlobIds d part;
          (swept, blobs') = sweepOrphans part olderThanMs referenced blobs in
      (swept, length referenced, blobs'))"

end
