(* ===== verification/Blob_Properties.thy ===== *)
theory Blob_Properties
  imports Blob_Handlers Handler_Correct Sync_Samples
begin

text \<open>
  The properties of the blob handlers over the SQLite store, with a sample attachment as their
  witness.
\<close>

definition sqlite_blobs :: "SqliteBlobStore blob_config" where
  "sqlite_blobs = \<lparr>bo_put = qb_put, bo_has = qb_has, bo_get = qb_get\<rparr>"

text \<open>Uploads and sweeps, in any order and at any time.\<close>

inductive blob_step :: "(byte list \<Rightarrow> byte list) \<Rightarrow> SqliteBlobStore \<Rightarrow> SqliteBlobStore \<Rightarrow> bool" for sha256 where
  upload: "bv_blobs env = Some sqlite_blobs \<Longrightarrow> bv_sha256 env = sha256 \<Longrightarrow>
    blob_step sha256 (bs_blobs s) (bs_blobs (snd (handleBlobUpload env blobId bytes mediaType (s :: (SqliteLeaseStore, SqliteBlobStore) blob_state))))"
| sweep: "blob_step sha256 blobs (snd (snd (sweepOrphanBlobs qb_sweepOrphans part graceMs nowMs d blobs)))"

lemma touch_blobs: "touchAuthenticatedPartition env s = (r, s') \<Longrightarrow> bs_blobs s' = bs_blobs s"
  by (auto simp: touchAuthenticatedPartition_def Let_def refresh_def split: sum.splits prod.splits)

lemma upload_cases:
  fixes s :: "('s, SqliteBlobStore) blob_state"
  assumes "bv_blobs env = Some sqlite_blobs"
  shows "bs_blobs (snd (handleBlobUpload env blobId bytes mediaType s)) = bs_blobs s \<or>
    isBlobId blobId \<and> blobIdFor (bv_sha256 env) bytes = blobId \<and>
      (\<exists>now. bs_blobs (snd (handleBlobUpload env blobId bytes mediaType s)) = snd (qb_put (hv_part env) blobId bytes now mediaType (bs_blobs s)))"
proof -
  obtain r s1 where t: "touchAuthenticatedPartition env s = (r, s1)" by fastforce
  show ?thesis using assms touch_blobs [OF t] by (cases r) (auto simp: handleBlobUpload_def t sqlite_blobs_def)
qed

lemma sweep_blobs:
  "snd (snd (sweepOrphanBlobs sweep part graceMs nowMs d blobs)) =
     snd (sweep part (nowMs - (case graceMs of None \<Rightarrow> DEFAULT_SWEEP_GRACE_MS | Some g \<Rightarrow> g)) (listReferencedBlobIds d part) blobs)"
  by (simp add: sweepOrphanBlobs_def Let_def case_prod_unfold)

lemma addressed_step: "blob_step sha256 b b' \<Longrightarrow> qb.addressed sha256 b \<Longrightarrow> qb.addressed sha256 b'"
proof (induction rule: blob_step.induct)
  case (upload env s blobId bytes mediaType)
  then show ?case using upload_cases [OF upload(1), of blobId bytes mediaType s] qb.addressed_put [of sha256 "bs_blobs s" blobId bytes] by auto
qed (simp add: sweep_blobs qb.addressed_sweep)

lemma addressed_run: "(blob_step sha256)\<^sup>*\<^sup>* [] b \<Longrightarrow> qb.addressed sha256 b"
proof (induction rule: rtranclp_induct)
  case base
  show ?case unfolding qb.addressed_def by (simp add: qb_ok_def qb_get_def)
qed (rule addressed_step)

lemma download_cases:
  fixes s :: "('s, 'b) blob_state"
  assumes "handleBlobDownload env blobId s = (Inr r, s')"
  obtains store allowed schema where "bv_blobs env = Some store" "isBlobId blobId" "bv_answer env = Allowed allowed"
    "compileSchema (hv_schema env) = Inr schema" "bs_blobs s' = bs_blobs s"
    "references_allow schema (ResolvedOk allowed) (listRowsReferencingBlob (hs_db s') (hv_part env) blobId)"
    "case bd_bytes r of Some bytes \<Rightarrow> \<exists>x. bo_get store (bs_blobs s) (hv_part env) blobId = Some (x, bytes)
      | None \<Rightarrow> bo_has store (bs_blobs s) (hv_part env) blobId \<and> bd_url r \<noteq> None"
proof -
  obtain e s1 where t: "touchAuthenticatedPartition env s = (Inr e, s1)" and run: "downloadBlob env blobId s1 = (Inr r, s')"
    using assms by (auto simp: handleBlobDownload_def split: prod.splits sum.splits)
  obtain store where store: "bv_blobs env = Some store" using run by (cases "bv_blobs env") (auto simp: downloadBlob_def)
  obtain allowed where allowed: "bv_answer env = Allowed allowed"
    using run by (cases "bv_answer env") (auto simp: downloadBlob_def split: option.splits if_splits sum.splits)
  obtain schema where schema: "compileSchema (hv_schema env) = Inr schema"
    using run allowed by (cases "compileSchema (hv_schema env)") (auto simp: downloadBlob_def split: option.splits if_splits sum.splits)
  note run = run [unfolded downloadBlob_def store allowed schema option.case resolver_answer.case sum.case]
  show thesis using run touch_blobs [OF t]
    by (intro that [OF store _ allowed schema]; cases "bv_signedUrls env")
       (auto simp: find_blob_def Let_def refresh_def split: option.splits if_splits sum.splits)
qed

section \<open>A sample attachment\<close>

text \<open>The row of the running example refers to a blob; every byte string has the same hash.\<close>

definition ba_id :: jsstring where
  "ba_id = blobIdFor (\<lambda>_. replicate 32 0) []"

lemma ba_hash: "blobIdFor (\<lambda>_. replicate 32 0) bytes = ba_id"
  by (simp add: ba_id_def blobIdFor_def sha256Hex_def)

lemma ba_blob_id: "isBlobId ba_id"
proof -
  have zeros: "concat (replicate n [x, x]) = replicate (2 * n) x" for n and x :: code_unit by (induction n) auto
  have "hex2 0 = [48, 48]" by (simp add: hex2_def)
  then have "sha256Hex (\<lambda>_. replicate 32 0) [] = replicate 64 48" using zeros [of 32 48] by (simp add: sha256Hex_def)
  then show ?thesis by (simp add: ba_id_def blobIdFor_def isBlobId_def BLOB_ID_RE_def is_lower_hex_def js_def list_all_iff)
qed

definition ba_env :: "(SqliteLeaseStore, SqliteBlobStore) blob_env" where
  "ba_env = \<lparr>hv_part = js ''p'', hv_actorId = js ''a'', hv_schema = sample_schema, hv_ensureSchema = (\<lambda>_ d. Inr d),
     hv_resolveScopes = (\<lambda>_. Allowed sample_scopes), hv_leases = None, hv_push = sample_env, hv_pull = sample_pull_env,
     hv_maxOperations = DEFAULT_maxOperationsPerRequest, hv_clock = (\<lambda>_. 5), hv_uuid = (\<lambda>_. js ''u''), hv_other = (\<lambda>_ d. d), hv_fuel = 1,
     bv_blobs = Some sqlite_blobs, bv_maxBlobBytes = None, bv_sha256 = (\<lambda>_. replicate 32 0), bv_answer = Allowed sample_scopes,
     bv_indexed = True, bv_signedUrls = None, bv_uploadUrls = None\<rparr>"

definition ba_db :: db where
  "ba_db = sample_db\<lparr>db_rows := [(js ''p'', js ''t'', sample_stored)], db_blob_refs := [(js ''p'', js ''t'', js ''r'', ba_id)]\<rparr>"

definition ba_state :: "db \<Rightarrow> SqliteBlobStore \<Rightarrow> (SqliteLeaseStore, SqliteBlobStore) blob_state" where
  "ba_state d blobs = \<lparr>hs_db = d, hs_segments = sample_store, hs_leases = \<lparr>ql_leases = [], ql_revocations = []\<rparr>, hs_tick = 0, bs_blobs = blobs\<rparr>"

definition ba_blobs :: SqliteBlobStore where
  "ba_blobs = [(js ''p'', ba_id, new_blob (js ''p'') ba_id [1] 5 None, [1])]"

lemma ba_env_fields [simp]:
  "hv_part ba_env = js ''p''" "hv_schema ba_env = sample_schema" "hv_ensureSchema ba_env = (\<lambda>_ d. Inr d)" "hv_clock ba_env = (\<lambda>_. 5)"
  "hv_uuid ba_env = (\<lambda>_. js ''u'')" "hv_other ba_env = (\<lambda>_ d. d)" "bv_blobs ba_env = Some sqlite_blobs" "bv_maxBlobBytes ba_env = None"
  "bv_sha256 ba_env = (\<lambda>_. replicate 32 0)" "bv_answer ba_env = Allowed sample_scopes" "bv_indexed ba_env" "bv_signedUrls ba_env = None"
  by (simp_all add: ba_env_def)

lemma ba_state_fields [simp]: "hs_db (ba_state d blobs) = d" "bs_blobs (ba_state d blobs) = blobs" "hs_tick (ba_state d blobs) = 0"
  by (simp_all add: ba_state_def)

lemma ba_touch:
  "\<exists>e g. touchAuthenticatedPartition ba_env s = (Inr e, s\<lparr>hs_tick := Suc (hs_tick s), hs_db := (hs_db s)\<lparr>db_registry := g\<rparr>\<rparr>)"
  by (auto simp: touchAuthenticatedPartition_def Let_def refresh_def touchPartition_def js_def)

lemma ba_uploaded:
  assumes "qb_get blobs (js ''p'') ba_id = None \<longrightarrow> blobs = []"
  shows "fst (handleBlobUpload ba_env ba_id [1] None (ba_state d blobs)) = Inr () \<and>
    bs_blobs (snd (handleBlobUpload ba_env ba_id [1] None (ba_state d blobs))) = (if blobs = [] then ba_blobs else blobs)"
proof -
  obtain e g where t: "touchAuthenticatedPartition ba_env (ba_state d blobs) =
      (Inr e, (ba_state d blobs)\<lparr>hs_tick := Suc (hs_tick (ba_state d blobs)), hs_db := (hs_db (ba_state d blobs))\<lparr>db_registry := g\<rparr>\<rparr>)"
    using ba_touch by blast
  show ?thesis using assms
    by (auto simp: handleBlobUpload_def t ba_hash ba_blob_id sqlite_blobs_def DEFAULT_MAX_BLOB_BYTES_def qb_put_def Let_def
        insert_or_ignore_def ba_blobs_def qb_get_def split: option.split)
qed

lemma ba_run: "(blob_step (\<lambda>_. replicate 32 0))\<^sup>*\<^sup>* [] ba_blobs"
  using blob_step.upload [of ba_env "\<lambda>_. replicate 32 0" "ba_state d []" ba_id "[1]" None] ba_uploaded [of "[]"]
  by auto

lemma ba_get: "qb_get ba_blobs (js ''p'') ba_id = Some (new_blob (js ''p'') ba_id [1] 5 None, [1])"
  by (simp add: qb_get_def ba_blobs_def find_by_Cons qb_key_def new_blob_def)

lemma ba_downloaded: "\<exists>r s'. handleBlobDownload ba_env ba_id (ba_state ba_db ba_blobs) = (Inr r, s') \<and> bd_bytes r = Some [1]"
proof -
  obtain e g where t: "touchAuthenticatedPartition ba_env (ba_state ba_db ba_blobs) =
      (Inr e, (ba_state ba_db ba_blobs)\<lparr>hs_tick := Suc (hs_tick (ba_state ba_db ba_blobs)), hs_db := (hs_db (ba_state ba_db ba_blobs))\<lparr>db_registry := g\<rparr>\<rparr>)"
    using ba_touch by blast
  have "listRowsReferencingBlob (ba_db\<lparr>db_registry := g\<rparr>) (js ''p'') ba_id = [(js ''t'', js ''r'', [(js ''o'', js ''x'')])]"
    by (simp add: listRowsReferencingBlob_def ba_db_def sample_db_def empty_db_def map_filter_simps stored_row_def sample_stored_def find_by_def)
  moreover have "references_allow sample_compiled (ResolvedOk sample_scopes) [(js ''t'', js ''r'', [(js ''o'', js ''x'')])]"
    by (simp add: references_allow_def sample_compiled_def authorizeWrite_allowed sample_table_def scope_allowed_def sample_scopes_def js_def)
  ultimately show ?thesis
    by (simp add: handleBlobDownload_def t downloadBlob_def find_blob_def ba_blob_id sqlite_blobs_def ba_get sample_compiles
        refresh_def Let_def)
qed

section \<open>Properties\<close>

text \<open>C23. A blob id is no capability. A download succeeds only when the host's resolver answers now (a
  lease does not do) and a row that is stored at that moment and refers to the blob has scopes the
  answer allows. The bytes handed out, whatever uploads and sweeps the store has seen, have the
  hash the blob id names; without bytes the client is handed a presigned URL.\<close>

theorem blob_download_authorized:
  assumes "handleBlobDownload env blobId s = (Inr r, s')" and "bv_blobs env = Some sqlite_blobs"
    and "(blob_step (bv_sha256 env))\<^sup>*\<^sup>* [] (bs_blobs s)"
  shows "(\<exists>allowed schema t rowId scopes table. bv_answer env = Allowed allowed \<and> compileSchema (hv_schema env) = Inr schema \<and>
      (t, rowId, scopes) \<in> set (listRowsReferencingBlob (hs_db s') (hv_part env) blobId) \<and>
      map_of (cs_tables schema) t = Some table \<and> authorizeWrite table scopes (ResolvedOk allowed)) \<and>
    (case bd_bytes r of Some bytes \<Rightarrow> blobIdFor (bv_sha256 env) bytes = blobId | None \<Rightarrow> bd_url r \<noteq> None)"
  using assms(1)
proof (rule download_cases)
  fix store allowed schema
  assume store: "bv_blobs env = Some store" and id: "isBlobId blobId"
    and ok: "bv_answer env = Allowed allowed" "compileSchema (hv_schema env) = Inr schema"
    and refs: "references_allow schema (ResolvedOk allowed) (listRowsReferencingBlob (hs_db s') (hv_part env) blobId)"
    and bytes: "case bd_bytes r of Some bytes \<Rightarrow> \<exists>x. bo_get store (bs_blobs s) (hv_part env) blobId = Some (x, bytes)
      | None \<Rightarrow> bo_has store (bs_blobs s) (hv_part env) blobId \<and> bd_url r \<noteq> None"
  have "case bd_bytes r of Some bytes \<Rightarrow> blobIdFor (bv_sha256 env) bytes = blobId | None \<Rightarrow> bd_url r \<noteq> None"
    using bytes store assms(2) id addressed_run [OF assms(3)] by (auto simp: qb.addressed_def sqlite_blobs_def split: option.splits)
  then show ?thesis using ok refs by (fastforce simp: references_allow_def list_ex_iff split: option.splits)
qed

theorem blob_download_authorized_witness:
  "\<exists>r s'. handleBlobDownload ba_env ba_id (ba_state ba_db ba_blobs) = (Inr r, s') \<and> bd_bytes r = Some [1] \<and>
     listRowsReferencingBlob (hs_db s') (js ''p'') ba_id \<noteq> [] \<and> blobIdFor (\<lambda>_. replicate 32 0) [1] = ba_id"
proof -
  obtain r s' where run: "handleBlobDownload ba_env ba_id (ba_state ba_db ba_blobs) = (Inr r, s')" "bd_bytes r = Some [1]"
    using ba_downloaded by blast
  show ?thesis using blob_download_authorized [OF run(1)] run ba_run by fastforce
qed

text \<open>C24. A sweep deletes exactly the orphans. After the sweep of a partition a blob is gone if and only if
  it was of this partition, older than the grace period and in no reference the storage listed;
  every other blob is what it was.\<close>

theorem blob_sweep_exact:
  assumes "qb_ok blobs" and "isBlobId blobId"
  shows "qb_get (snd (snd (sweepOrphanBlobs qb_sweepOrphans part (Some graceMs) nowMs d blobs))) q blobId =
    (if q = part \<and> blobId \<notin> set (listReferencedBlobIds d part) \<and>
        (\<exists>r bytes. qb_get blobs part blobId = Some (r, bytes) \<and> bb_createdAtMs r + graceMs < nowMs)
     then None else qb_get blobs q blobId)"
  using qb.get_sweep [OF assms, of part "nowMs - graceMs"] by (simp add: sweep_blobs less_diff_eq)

theorem blob_sweep_exact_witness:
  "qb_get (snd (snd (sweepOrphanBlobs qb_sweepOrphans (js ''p'') (Some 10) 100 ba_db ba_blobs))) (js ''p'') ba_id = qb_get ba_blobs (js ''p'') ba_id \<and>
   qb_get (snd (snd (sweepOrphanBlobs qb_sweepOrphans (js ''p'') (Some 10) 100 sample_db ba_blobs))) (js ''p'') ba_id = None"
proof -
  have "qb_ok ba_blobs" by (simp add: qb_ok_def ba_blobs_def)
  moreover have "ba_id \<in> set (listReferencedBlobIds ba_db (js ''p''))" "ba_id \<notin> set (listReferencedBlobIds sample_db (js ''p''))"
    by (simp_all add: listReferencedBlobIds_def ba_db_def sample_db_def empty_db_def)
  ultimately show ?thesis
    using blob_sweep_exact [of ba_blobs ba_id "js ''p''" 10 100 _ "js ''p''"] ba_blob_id ba_get by (simp add: new_blob_def)
qed

text \<open>C36. An upload of bytes that are stored already does not renew them: when the stored blob is older
  than the grace period and not referenced, the upload succeeds and a sweep right after it
  deletes the blob, however recent the upload.\<close>

theorem blob_reupload_swept:
  assumes "handleBlobUpload env blobId bytes mediaType s = (Inr (), s')" and "bv_blobs env = Some sqlite_blobs"
    and "qb_ok (bs_blobs s)" and "qb_get (bs_blobs s) (hv_part env) blobId = Some (r, stored)"
    and "bb_createdAtMs r + graceMs < nowMs" and "blobId \<notin> set (listReferencedBlobIds d (hv_part env))"
  shows "qb_get (snd (snd (sweepOrphanBlobs qb_sweepOrphans (hv_part env) (Some graceMs) nowMs d (bs_blobs s')))) (hv_part env) blobId = None"
proof -
  obtain e s1 where t: "touchAuthenticatedPartition env s = (Inr e, s1)"
    using assms(1) by (auto simp: handleBlobUpload_def split: prod.splits sum.splits)
  have id: "isBlobId blobId" using assms(1,2) t by (auto simp: handleBlobUpload_def split: if_splits)
  then obtain now where "bs_blobs s' = snd (qb_put (hv_part env) blobId bytes now mediaType (bs_blobs s))"
    using assms(1,2) t touch_blobs [OF t] by (auto simp: handleBlobUpload_def sqlite_blobs_def split: if_splits)
  then show ?thesis
    using qb.stale_upload [OF assms(3) id assms(4), of "nowMs - graceMs"] assms(5,6) by (simp add: sweep_blobs less_diff_eq)
qed

theorem blob_reupload_swept_witness:
  "\<exists>s'. handleBlobUpload ba_env ba_id [1] None (ba_state sample_db ba_blobs) = (Inr (), s') \<and>
     qb_get (snd (snd (sweepOrphanBlobs qb_sweepOrphans (js ''p'') (Some 10) 100 sample_db (bs_blobs s')))) (js ''p'') ba_id = None"
proof -
  obtain s' where up: "handleBlobUpload ba_env ba_id [1] None (ba_state sample_db ba_blobs) = (Inr (), s')"
    using ba_uploaded [of ba_blobs sample_db] ba_get by (metis option.distinct(1) prod.collapse)
  have "qb_ok ba_blobs" "ba_id \<notin> set (listReferencedBlobIds sample_db (js ''p''))"
    by (simp_all add: qb_ok_def ba_blobs_def listReferencedBlobIds_def sample_db_def empty_db_def)
  then show ?thesis using blob_reupload_swept [OF up, where graceMs = 10 and nowMs = 100 and d = sample_db] up ba_get by (auto simp: new_blob_def)
qed

end
