(* ===== verification/Spec2Isabelle.thy ===== *)
theory Spec2Isabelle
  imports Core_Properties Sync_Properties Client_Properties Handler_Properties Blob_Properties
begin

text \<open>
  A verification library for syncular, an offline-first sync engine in TypeScript: the wire format
  (\<open>packages/core\<close>), the sync server over SQLite (\<open>packages/server\<close>) and the client engine over a
  local SQLite database (\<open>packages/web-client\<close>). Paths below are relative to \<open>src/packages\<close>.

  \<^bold>\<open>How the parts interact.\<close> A client keeps synced rows, a durable outbox of its own commits and one
  cursor per subscription. A round encodes pending commits and subscriptions into an SSP2 request
  (\<open>encodeMessage\<close>). The server's handler plans and authorizes the request
  (\<open>handler.ts\<close>), applies each push commit in one transaction (\<open>push.ts\<close>) and answers
  each subscription with a section (\<open>pull.ts\<close>): commits after the cursor, or the pages of a
  bootstrap with a resume token, or a reset or revocation. The client walks the response
  (\<open>#processResponse\<close>): push results drain or roll back its outbox, sections change its rows and, at
  their end, its cursors; then it replays what is still pending.

  \<^bold>\<open>Conventions\<close> (theory \<open>Prelude\<close>). A JavaScript string is its list of UTF-16 code units, a
  number of a wire field an \<open>int\<close> with the checks of the source written out, a row value's number its
  binary64 pattern. A thrown error is \<open>Inl\<close>, a transaction that throws leaves its tables as they
  were, a \<open>Map\<close> or object is an association list in insertion order. SQL tables are lists of rows
  with the statements of theory \<open>Tables\<close>, whose locale \<open>row_store\<close> states what a keyed store
  answers; the stores of server and client are interpretations of it. Loops are structural, or
  recursive with a measure. Fuel occurs twice: the scan of an image (\<open>imageRows\<close>), which needs one
  turn per 50000 rows and one more (\<open>image_scan_terminates\<close>), and \<open>syncUntilIdle\<close>, which takes its
  number of rounds from its caller, as the code does.

  \<^bold>\<open>Core.\<close>
  \<^item> \<open>Utf\<close>, \<open>Numbers\<close>, \<open>Json\<close>: the platform's UTF-8 coder, binary64 numbers, \<open>JSON.parse\<close> and
    \<open>JSON.stringify\<close>, as far as the source uses them.
  \<^item> \<open>Bytes\<close> (\<open>core/src/bytes.ts\<close>): every reader and writer method and the doubling buffer, with the
    codec interface as a locale. \<open>Blob_Ref\<close>, \<open>Row_Codec\<close>, \<open>Segment\<close>, \<open>Rejection_Details\<close>: the files
    of the same names; round trips and normal forms.
  \<^item> \<open>Frames\<close>, \<open>Grammar\<close>, \<open>Message\<close>, \<open>Message_Roundtrip\<close> (\<open>message.ts\<close>, \<open>frames.ts\<close>, \<open>constants.ts\<close>):
    the frames, the two frame grammars against declarative ones, the envelope codec and its round
    trip. \<open>Stream_Scanner\<close> (\<open>stream.ts\<close>): the scanner finds an encoded message in any chunking.
  \<^item> \<open>Core_Properties\<close>: the properties and their instances.

  \<^bold>\<open>Server.\<close>
  \<^item> \<open>Schema\<close> (\<open>schema.ts\<close>, \<open>relational-identifier.ts\<close>), \<open>Scopes\<close> (\<open>scopes.ts\<close>, \<open>canonical-json.ts\<close>).
  \<^item> \<open>Tables\<close>, \<open>Storage\<close>, \<open>Commit_Window\<close>, \<open>Row_Scan\<close>, \<open>Push_Result\<close> (\<open>storage.ts\<close>,
    \<open>sqlite-storage.ts\<close>, \<open>sqlite-dialect.ts\<close>, \<open>relational-rows.ts\<close>): the record \<open>db\<close> holds the tables,
    \<open>storage_ok\<close> is the storage invariant; the index-driven reads equal filters of the log and of the
    rows. \<open>Reactions\<close> (\<open>reactions.ts\<close>): planning, leases, retries, the worker.
  \<^item> \<open>Push\<close>, \<open>Push_Correct\<close> (\<open>push.ts\<close>, \<open>validate.ts\<close>): all or nothing, at most once, lawful changes;
    \<open>carried_out\<close> says, without the push loop, what it means that every operation of a request took
    effect.
  \<^item> \<open>Pull\<close>, \<open>Pull_Correct\<close> (\<open>pull.ts\<close>), \<open>Prune\<close> (\<open>prune.ts\<close>; a prune is one step, interleaved prunes
    are not covered), \<open>Segment_Store\<close> (\<open>segment-store.ts\<close>, \<open>segment-download.ts\<close>).
  \<^item> \<open>Page_Delivery\<close>: what a client decodes from the frames of a bootstrap page; for rows as an encoder
    writes them (\<open>wire_row\<close>) it is the page the server read. \<open>Wire_Rows\<close>: pushes of encoded payloads
    keep all rows so.
  \<^item> \<open>Convergence\<close>, \<open>Sync_Run\<close>: one abstract client against the server as a step relation
    (\<open>sync_step\<close>): pushes, pruning, pulls and bootstrap pages follow each other, the client applies
    what was sent; at the end of the log it holds exactly the server's rows of its subscription, and
    repeated pulls take it there. Left out are a prune that passes the cursor in the middle of a
    pull, a restarted bootstrap, rows the codec does not give back unchanged, and SQLite images.
  \<^item> \<open>Lease_Store\<close> (\<open>lease-store.ts\<close>, \<open>sqlite-lease-store.ts\<close>): both stores, with locales for what the
    handler relies on (\<open>lease_store\<close>) and for leases kept apart by client (\<open>keyed_lease_store\<close>). The
    store in memory keeps them apart for partitions without a NUL character, which joins its keys.
    \<open>Frame_Bytes\<close> (\<open>frame-bytes.ts\<close>): the chunks of a streamed response.
  \<^item> \<open>Handler\<close>, \<open>Handler_Correct\<close>, \<open>Handler_Properties\<close> (\<open>handler.ts\<close>, \<open>context.ts\<close>): a whole request,
    with arbitrary writes of other requests between its storage accesses: what is answered, under
    which grant, and what is kept.
  \<^item> \<open>Blob_Store\<close>, \<open>Blob_Handlers\<close>, \<open>Blob_Properties\<close> (\<open>blob-store.ts\<close>, \<open>sqlite-blob-store.ts\<close>,
    \<open>blob-handlers.ts\<close>, blob URLs of \<open>signed-url.ts\<close>): attachments; both stores interpret the locale
    \<open>blob_store\<close>.
  \<^item> \<open>Server_Properties\<close>, \<open>Sync_Properties\<close> with \<open>Samples\<close>, \<open>Sync_Samples\<close>.

  \<^bold>\<open>Client.\<close>
  \<^item> \<open>Client_Schema\<close> (\<open>schema.ts\<close>, \<open>naming.ts\<close>): compilation, key normalization, value conversions.
    \<open>Client_Apply\<close> (\<open>apply.ts\<close>): local row statements, commits, rows segments, images, scoped
    deletes.
  \<^item> \<open>Client_Outbox\<close> (\<open>outbox.ts\<close> and the optimistic layer of \<open>client.ts\<close>). \<open>Client_Outbox_Correct\<close>: the
    invariant \<open>outbox_inv\<close> says that the local rows are the confirmed rows with the pending
    operations applied in order (\<open>overlay\<close>, the abstract specification) and that before-images are
    the overlays of the earlier commits. \<open>Client_Outbox_Run\<close>: every run of mutations,
    confirmations and rejections (\<open>outbox_step\<close>; a confirmed commit may overtake older ones on other
    rows) keeps it, and a replay rebases on server changes.
  \<^item> \<open>Client_Outcomes\<close> (\<open>outcomes.ts\<close>): the journal of results. \<open>Client_State\<close> (\<open>state.ts\<close>, \<open>window.ts\<close>,
    windows and resets of \<open>client.ts\<close>) with \<open>Client_State_Correct\<close>.
  \<^item> \<open>Client_Response\<close>, \<open>Client_Round\<close> (the response walk, the push batch, \<open>#runSync\<close>,
    \<open>syncUntilIdle\<close>) with \<open>Client_Response_Correct\<close>, \<open>Client_Round_Correct\<close>.
  \<^item> \<open>Client_Properties\<close> with \<open>Client_Samples\<close>.

  \<^bold>\<open>Parameters.\<close> SHA-256, the host's scope resolver, validators, CRDT mergers and reaction handlers,
  the transport, the segment downloader, image attachment, row encryption and the SQLite engine's
  column affinity (\<open>ev_store\<close>, \<open>ev_eq\<close>) are arguments. Theorems about local rows assume
  \<open>text_engine\<close>: a text column keeps and compares the text it is given.

  \<^bold>\<open>What the theorems show to be amiss.\<close> A leading byte order mark is lost (\<open>leading_bom_lost\<close>). A
  section whose horizon was read before a prune skips commits (\<open>stale_horizon_skips\<close>). Equal bytes of
  two partitions share a segment record (\<open>shared_segment_lost\<close>). A push batch can overtake a deferred
  commit (\<open>push_batch_overtakes\<close>). A rollback restores a before-image over newer server data
  (\<open>stale_before_image\<close>). A restarted bootstrap does not clear the rows of the abandoned one
  (\<open>restarted_bootstrap_keeps_rows\<close>). Revocation drops commits without undoing their other rows
  (\<open>revocation_purges\<close>). A client id can be taken over by a concurrent request
  (\<open>client_id_taken_over\<close>). A repeated upload does not protect a blob from the sweep
  (\<open>blob_reupload_swept\<close>).

  \<^bold>\<open>Not modelled.\<close> HTTP bodies and headers, events, realtime sockets, worker and tab
  coordination, blob transfer of the client, diagnostics and change notifications (I/O, timers and host callbacks around the modelled parts);
  the PostgreSQL and D1 storages (the contract of the modelled storage over other drivers); DDL and
  column projection (SQL text for the engine); authoritative queries and remote operations (host
  SQL and procedures); typegen and the query language (build-time code generation); the Rust
  implementation; frameworks, test drivers and applications.
\<close>

end
